(* ===== verification/GD_Prelude.thy ===== *)
theory GD_Prelude
  imports Complex_Main "HOL-Library.Word" "HOL-Library.Char_ord" "HOL-Library.List_Lexorder"
    "HOL-Library.Monad_Syntax" "HOL-Library.Code_Target_Nat"
begin

text \<open>
  Shared vocabulary of the development: the integer types of the Rust sources, ordered maps
  (the standard library's \<^verbatim>\<open>BTreeMap\<close> and \<^verbatim>\<open>HashMap\<close>), the iterator adapters the code uses, and
  the generic interface of an event-driven component with an invariant.
\<close>

named_theorems int_ranges \<open>facts that put a machine integer inside its range\<close>
named_theorems bmap_simps \<open>rewriting of ordered maps\<close>

section \<open>Machine integers\<close>

text \<open>
  An \<^verbatim>\<open>i32\<close> is an \<^typ>\<open>int\<close> whose arithmetic wraps: the release profile of the workspace
  (\<^verbatim>\<open>Cargo.toml\<close>, no \<^verbatim>\<open>overflow-checks\<close>) compiles \<^verbatim>\<open>+\<close>, \<^verbatim>\<open>-\<close> and \<^verbatim>\<open>abs\<close> on it to two's complement.
  A \<^verbatim>\<open>u64\<close> is a \<^typ>\<open>nat\<close> reduced modulo \<open>2 ^ 64\<close>; \<^verbatim>\<open>saturating_sub\<close> is \<^typ>\<open>nat\<close> subtraction.
\<close>

definition i32 :: "int \<Rightarrow> int" where
  "i32 v = (v + 2147483648) mod 4294967296 - 2147483648"

definition is_i32 :: "int \<Rightarrow> bool" where
  "is_i32 v \<longleftrightarrow> - 2147483648 \<le> v \<and> v \<le> 2147483647"

definition u64 :: "nat \<Rightarrow> nat" where
  "u64 v = v mod 18446744073709551616"

definition is_u64 :: "nat \<Rightarrow> bool" where
  "is_u64 v \<longleftrightarrow> v < 18446744073709551616"

definition i32_abs :: "int \<Rightarrow> int" where
  "i32_abs v = i32 \<bar>v\<bar>"

text \<open>\<^verbatim>\<open>Ord::clamp\<close> panics when the bounds are crossed; a panic is \<^const>\<open>None\<close>.\<close>

definition clamp :: "int \<Rightarrow> int \<Rightarrow> int \<Rightarrow> int option" where
  "clamp v lo hi = (if lo \<le> hi then Some (if v < lo then lo else if hi < v then hi else v) else None)"

text \<open>Integer division of Rust truncates towards zero.\<close>

definition tdiv :: "int \<Rightarrow> int \<Rightarrow> int" where
  "tdiv a b = sgn a * sgn b * (\<bar>a\<bar> div \<bar>b\<bar>)"

lemma i32_id [simp, int_ranges]: "is_i32 v \<Longrightarrow> i32 v = v"
  by (simp add: i32_def is_i32_def)

lemma i32_range [simp]: "is_i32 (i32 v)"
  by (simp add: i32_def is_i32_def)

lemma is_i32I: "- 2147483648 \<le> v \<Longrightarrow> v \<le> 2147483647 \<Longrightarrow> is_i32 v"
  by (simp add: is_i32_def)

lemma i32_small: "- 2147483648 \<le> v \<Longrightarrow> v \<le> 2147483647 \<Longrightarrow> i32 v = v"
  by (simp add: is_i32I)

lemma u64_id [simp, int_ranges]: "is_u64 v \<Longrightarrow> u64 v = v"
  by (simp add: u64_def is_u64_def)

lemma u64_range [simp]: "is_u64 (u64 v)"
  by (simp add: u64_def is_u64_def)

lemma i32_abs_min: "i32_abs (- 2147483648) = - 2147483648"
  by (simp add: i32_abs_def i32_def)

lemma i32_abs_id: "- 2147483647 \<le> v \<Longrightarrow> v \<le> 2147483647 \<Longrightarrow> i32_abs v = \<bar>v\<bar>"
  by (simp add: i32_abs_def i32_small)

lemma clamp_Some [simp]: "lo \<le> hi \<Longrightarrow> clamp v lo hi = Some (max lo (min v hi))"
  by (auto simp: clamp_def)

lemma clamp_SomeD: "clamp v lo hi = Some w \<Longrightarrow> lo \<le> w \<and> w \<le> hi \<and> (lo \<le> v \<and> v \<le> hi \<longrightarrow> w = v)"
  by (auto simp: clamp_def split: if_splits)

lemma tdiv_nonneg: "0 \<le> a \<Longrightarrow> 0 < b \<Longrightarrow> tdiv a b = a div b"
  by (cases "a = 0") (auto simp: tdiv_def sgn_if)

section \<open>Ordered maps\<close>

text \<open>
  \<^verbatim>\<open>BTreeMap\<close> is a strictly sorted association list. A \<^verbatim>\<open>HashMap\<close> has the same model: its
  iteration order is unspecified, and the code that iterates one sorts, minimises or counts.
\<close>

type_synonym ('k, 'v) bmap = "('k \<times> 'v) list"

definition bm_ok :: "('k::linorder, 'v) bmap \<Rightarrow> bool" where
  "bm_ok m \<longleftrightarrow> sorted_wrt (<) (map fst m)"

abbreviation bm_get :: "('k, 'v) bmap \<Rightarrow> 'k \<Rightarrow> 'v option" where
  "bm_get m k \<equiv> map_of m k"

fun bm_insert :: "'k::linorder \<Rightarrow> 'v \<Rightarrow> ('k, 'v) bmap \<Rightarrow> ('k, 'v) bmap" where
  "bm_insert k v [] = [(k, v)]"
| "bm_insert k v ((k', v') # m) =
     (if k < k' then (k, v) # (k', v') # m
      else if k = k' then (k, v) # m
      else (k', v') # bm_insert k v m)"

definition bm_remove :: "'k \<Rightarrow> ('k, 'v) bmap \<Rightarrow> ('k, 'v) bmap" where
  "bm_remove k m = filter (\<lambda>(k', _). k' \<noteq> k) m"

definition bm_keys :: "('k, 'v) bmap \<Rightarrow> 'k list" where
  "bm_keys m = map fst m"

definition bm_has :: "('k, 'v) bmap \<Rightarrow> 'k \<Rightarrow> bool" where
  "bm_has m k \<longleftrightarrow> k \<in> set (bm_keys m)"

definition bm_of_list :: "('k::linorder \<times> 'v) list \<Rightarrow> ('k, 'v) bmap" where
  "bm_of_list kvs = fold (\<lambda>(k, v). bm_insert k v) kvs []"

lemma bm_ok_Nil [simp]: "bm_ok []"
  by (simp add: bm_ok_def)

lemma bm_ok_Cons: "bm_ok ((k, v) # m) \<longleftrightarrow> (\<forall>k' \<in> fst ` set m. k < k') \<and> bm_ok m"
  by (auto simp: bm_ok_def)

lemma set_bm_insert: "fst ` set (bm_insert k v m) = insert k (fst ` set m)"
  by (induction k v m rule: bm_insert.induct) auto

lemma bm_ok_insert [simp, intro]: "bm_ok m \<Longrightarrow> bm_ok (bm_insert k v m)"
  by (induction k v m rule: bm_insert.induct) (auto simp: bm_ok_Cons set_bm_insert)

lemma bm_get_insert [simp, bmap_simps]: "bm_get (bm_insert k v m) k' = (if k' = k then Some v else bm_get m k')"
  by (induction k v m rule: bm_insert.induct) auto

lemma bm_ok_remove [simp, intro]: "bm_ok m \<Longrightarrow> bm_ok (bm_remove k m)"
  by (induction m) (auto simp: bm_remove_def bm_ok_Cons)

lemma bm_get_remove [simp, bmap_simps]: "bm_get (bm_remove k m) k' = (if k' = k then None else bm_get m k')"
  by (induction m) (auto simp: bm_remove_def)

lemma bm_has_iff [bmap_simps]: "bm_has m k \<longleftrightarrow> bm_get m k \<noteq> None"
  by (simp add: bm_has_def bm_keys_def map_of_eq_None_iff)

lemma bm_has_insert [simp]: "bm_has (bm_insert k v m) k' \<longleftrightarrow> k' = k \<or> bm_has m k'"
  by (auto simp: bm_has_iff)

lemma bm_has_remove [simp]: "bm_has (bm_remove k m) k' \<longleftrightarrow> k' \<noteq> k \<and> bm_has m k'"
  by (auto simp: bm_has_iff)

lemma bm_has_Nil [simp]: "\<not> bm_has [] k"
  by (simp add: bm_has_def bm_keys_def)

lemma bm_ok_distinct: "bm_ok m \<Longrightarrow> distinct (map fst m)"
  unfolding bm_ok_def by (meson strict_sorted_iff)

lemma bm_getI: "bm_ok m \<Longrightarrow> (k, v) \<in> set m \<Longrightarrow> bm_get m k = Some v"
  by (simp add: bm_ok_distinct)

lemma bm_getD: "bm_get m k = Some v \<Longrightarrow> (k, v) \<in> set m"
  by (rule map_of_SomeD)

lemma bm_ok_of_list [simp]: "bm_ok (bm_of_list kvs)"
proof -
  have "bm_ok m \<Longrightarrow> bm_ok (fold (\<lambda>(k, v). bm_insert k v) kvs m)" for m
    by (induction kvs arbitrary: m) auto
  then show ?thesis by (simp add: bm_of_list_def)
qed

lemma bm_ok_filter [simp]: "bm_ok m \<Longrightarrow> bm_ok (filter P m)"
  by (induction m) (auto simp: bm_ok_Cons)

text \<open>Two ordered maps with the same entries are the same list, so equality is extensional.\<close>

lemma bm_ext:
  assumes "bm_ok m" and "bm_ok m'" and "\<And>k. bm_get m k = bm_get m' k"
  shows "m = m'"
proof (rule map_sorted_distinct_set_unique [where f = fst])
  have *: "(k, v) \<in> set m \<longleftrightarrow> (k, v) \<in> set m'" for k v
    using assms by (metis bm_getI bm_getD)
  then show "set m = set m'" by auto
  show "inj_on fst (set m \<union> set m')"
    using \<open>set m = set m'\<close> bm_ok_distinct [OF assms(1)] by (simp add: distinct_map)
qed (use assms in \<open>auto simp: bm_ok_def strict_sorted_iff\<close>)

text \<open>
  The contract of a map, as the components rely on it: reading after writing, and which keys a
  write changes.
\<close>

locale map_contract =
  fixes get :: "'m \<Rightarrow> 'k \<Rightarrow> 'v option"
    and put :: "'k \<Rightarrow> 'v \<Rightarrow> 'm \<Rightarrow> 'm"
    and del :: "'k \<Rightarrow> 'm \<Rightarrow> 'm"
    and ok :: "'m \<Rightarrow> bool"
  assumes get_put: "ok m \<Longrightarrow> get (put k v m) k' = (if k' = k then Some v else get m k')"
    and get_del: "ok m \<Longrightarrow> get (del k m) k' = (if k' = k then None else get m k')"
    and ok_put: "ok m \<Longrightarrow> ok (put k v m)"
    and ok_del: "ok m \<Longrightarrow> ok (del k m)"
    and ext: "ok m \<Longrightarrow> ok m' \<Longrightarrow> (\<And>k. get m k = get m' k) \<Longrightarrow> m = m'"
begin

lemma put_put_same: "ok m \<Longrightarrow> put k w (put k v m) = put k w m"
  by (rule ext) (auto simp: get_put ok_put)

lemma del_put: "ok m \<Longrightarrow> get m k = None \<Longrightarrow> del k (put k v m) = m"
  by (rule ext) (auto simp: get_put get_del ok_put ok_del)

lemma put_get: "ok m \<Longrightarrow> get m k = Some v \<Longrightarrow> put k v m = m"
  by (rule ext) (auto simp: get_put ok_put)

lemma put_del: "ok m \<Longrightarrow> get m k = Some v \<Longrightarrow> put k v (del k m) = m"
  by (rule ext) (auto simp: get_put get_del ok_put ok_del)

lemma del_absent: "ok m \<Longrightarrow> get m k = None \<Longrightarrow> del k m = m"
  by (rule ext) (auto simp: get_del ok_del)

lemma put_commute: "ok m \<Longrightarrow> k \<noteq> k' \<Longrightarrow> put k v (put k' v' m) = put k' v' (put k v m)"
  by (rule ext) (auto simp: get_put ok_put)

end

interpretation bm: map_contract "\<lambda>m k. bm_get m k" bm_insert bm_remove bm_ok
proof unfold_locales
  show "bm_ok m \<Longrightarrow> bm_ok m' \<Longrightarrow> (\<And>k. bm_get m k = bm_get m' k) \<Longrightarrow> m = m'" for m m' :: "('a, 'b) bmap"
    by (rule bm_ext)
qed auto

section \<open>Iterator adapters\<close>

fun find_map :: "('a \<Rightarrow> 'b option) \<Rightarrow> 'a list \<Rightarrow> 'b option" where
  "find_map f [] = None"
| "find_map f (x # xs) = (case f x of Some y \<Rightarrow> Some y | None \<Rightarrow> find_map f xs)"

lemma find_map_SomeD: "find_map f xs = Some y \<Longrightarrow> \<exists>x \<in> set xs. f x = Some y"
  by (induction xs) (auto split: option.splits)

lemma find_map_None_iff: "find_map f xs = None \<longleftrightarrow> (\<forall>x \<in> set xs. f x = None)"
  by (induction xs) (auto split: option.splits)

lemma find_SomeD: "find P xs = Some x \<Longrightarrow> x \<in> set xs \<and> P x"
  by (auto simp: find_Some_iff)

section \<open>Event-driven components\<close>

text \<open>
  A component takes an event and answers with outputs, or panics (\<^const>\<open>None\<close>). A run feeds a list
  of events and concatenates the outputs.
\<close>

fun run_events :: "('s \<Rightarrow> 'e \<Rightarrow> ('s \<times> 'o list) option) \<Rightarrow> 's \<Rightarrow> 'e list \<Rightarrow> ('s \<times> 'o list) option" where
  "run_events step s [] = Some (s, [])"
| "run_events step s (e # es) =
     (case step s e of None \<Rightarrow> None
      | Some (s', os) \<Rightarrow>
          (case run_events step s' es of None \<Rightarrow> None | Some (s'', os') \<Rightarrow> Some (s'', os @ os')))"

text \<open>
  The interface of such a component: under an invariant every event its environment may send is
  handled without a panic, and the invariant holds again.
\<close>

locale machine =
  fixes step :: "'s \<Rightarrow> 'e \<Rightarrow> ('s \<times> 'o list) option"
    and good :: "'e \<Rightarrow> bool"
    and inv :: "'s \<Rightarrow> bool"
  assumes progress: "inv s \<Longrightarrow> good e \<Longrightarrow> \<exists>s' os. step s e = Some (s', os) \<and> inv s'"
begin

lemma step_inv: "inv s \<Longrightarrow> good e \<Longrightarrow> step s e = Some (s', os) \<Longrightarrow> inv s'"
  using progress by fastforce

lemma run_total: "inv s \<Longrightarrow> list_all good es \<Longrightarrow> \<exists>s' os. run_events step s es = Some (s', os) \<and> inv s'"
proof (induction es arbitrary: s)
  case (Cons e es)
  then obtain s1 o1 where 1: "step s e = Some (s1, o1)" "inv s1" using progress [of s e] by auto
  then show ?case using Cons.IH [of s1] Cons.prems by auto
qed simp

lemma run_inv: "inv s \<Longrightarrow> list_all good es \<Longrightarrow> run_events step s es = Some (s', os) \<Longrightarrow> inv s'"
  using run_total [of s es] by auto

end

text \<open>
  A specification automaton that reads the outputs one at a time. A component related to it by a
  simulation only produces output traces the automaton accepts.
\<close>

fun accepts :: "('q \<Rightarrow> 'o \<Rightarrow> 'q option) \<Rightarrow> 'q \<Rightarrow> 'o list \<Rightarrow> 'q option" where
  "accepts aut q [] = Some q"
| "accepts aut q (x # xs) = (case aut q x of None \<Rightarrow> None | Some q' \<Rightarrow> accepts aut q' xs)"

lemma accepts_append: "accepts aut q (xs @ ys) = (case accepts aut q xs of None \<Rightarrow> None | Some q' \<Rightarrow> accepts aut q' ys)"
  by (induction xs arbitrary: q) (auto split: option.splits)

locale monitored_machine = machine step good inv
  for step :: "'s \<Rightarrow> 'e \<Rightarrow> ('s \<times> 'o list) option" and good inv +
  fixes aut :: "'q \<Rightarrow> 'o \<Rightarrow> 'q option"
    and rel :: "'s \<Rightarrow> 'q \<Rightarrow> bool"
  assumes simulation: "inv s \<Longrightarrow> good e \<Longrightarrow> rel s q \<Longrightarrow> step s e = Some (s', os) \<Longrightarrow>
    \<exists>q'. accepts aut q os = Some q' \<and> rel s' q'"
begin

lemma run_accepted:
  "inv s \<Longrightarrow> list_all good es \<Longrightarrow> rel s q \<Longrightarrow> run_events step s es = Some (s', os) \<Longrightarrow>
   \<exists>q'. accepts aut q os = Some q' \<and> rel s' q'"
proof (induction es arbitrary: s q os)
  case (Cons e es)
  from Cons.prems obtain s1 o1 o2 where 1: "step s e = Some (s1, o1)"
    "run_events step s1 es = Some (s', o2)" "os = o1 @ o2"
    by (auto split: option.splits)
  obtain q1 where q1: "accepts aut q o1 = Some q1" "rel s1 q1"
    using simulation [OF _ _ _ 1(1)] Cons.prems by auto
  have "inv s1" using step_inv 1(1) Cons.prems by auto
  then show ?case using Cons.IH [OF _ _ q1(2) 1(2)] Cons.prems q1 1(3) by (auto simp: accepts_append)
qed simp

lemma run_accepted_total:
  "inv s \<Longrightarrow> list_all good es \<Longrightarrow> rel s q \<Longrightarrow>
   \<exists>s' os q'. run_events step s es = Some (s', os) \<and> inv s' \<and> accepts aut q os = Some q' \<and> rel s' q'"
  using run_total [of s es] run_accepted by fast

end

end
