(* ===== verification/Geometry.thy ===== *)
theory Geometry
  imports GD_Prelude
begin

text \<open>
  \<^verbatim>\<open>crates/geserdesk-proto/src/geometry.rs\<close>: points, rectangles, the four edges, edge sets and
  \<^verbatim>\<open>ScreenInfo\<close>. Coordinates are \<^verbatim>\<open>i32\<close>: sums and differences go through \<^const>\<open>i32\<close>, so the
  lemmas state the range in which they are exact (\<open>rect_ok\<close>).
\<close>

unbundle bit_operations_syntax

section \<open>Points and rectangles\<close>

record point =
  pt_x :: int
  pt_y :: int

abbreviation Pt :: "int \<Rightarrow> int \<Rightarrow> point" where
  "Pt x y \<equiv> \<lparr>pt_x = x, pt_y = y\<rparr>"

record size2 =
  sz_w :: int
  sz_h :: int

record rect =
  r_x :: int
  r_y :: int
  r_w :: int
  r_h :: int

abbreviation Rect :: "int \<Rightarrow> int \<Rightarrow> int \<Rightarrow> int \<Rightarrow> rect" where
  "Rect x y w h \<equiv> \<lparr>r_x = x, r_y = y, r_w = w, r_h = h\<rparr>"

definition r_left :: "rect \<Rightarrow> int" where "r_left r = r_x r"
definition r_top :: "rect \<Rightarrow> int" where "r_top r = r_y r"
definition r_right :: "rect \<Rightarrow> int" where "r_right r = i32 (r_x r + r_w r)"
definition r_bottom :: "rect \<Rightarrow> int" where "r_bottom r = i32 (r_y r + r_h r)"

definition r_center :: "rect \<Rightarrow> point" where
  "r_center r = Pt (i32 (r_x r + tdiv (r_w r) 2)) (i32 (r_y r + tdiv (r_h r) 2))"

text \<open>The accumulating loop of \<^verbatim>\<open>Rect::union_all\<close>: left, top, right and bottom so far.\<close>

fun union_loop :: "int \<times> int \<times> int \<times> int \<Rightarrow> rect list \<Rightarrow> int \<times> int \<times> int \<times> int" where
  "union_loop acc [] = acc"
| "union_loop (l, t, r, b) (rc # rs) =
     union_loop (min l (r_left rc), min t (r_top rc), max r (r_right rc), max b (r_bottom rc)) rs"

definition union_all :: "rect list \<Rightarrow> rect option" where
  "union_all rs =
     (case rs of [] \<Rightarrow> None
      | f # rest \<Rightarrow>
          (let (l, t, r, b) = union_loop (r_left f, r_top f, r_right f, r_bottom f) rest
           in Some (Rect l t (i32 (r - l)) (i32 (b - t)))))"

definition rect_contains :: "rect \<Rightarrow> point \<Rightarrow> bool" where
  "rect_contains r p \<longleftrightarrow>
     pt_x p \<ge> r_left r \<and> pt_x p < r_right r \<and> pt_y p \<ge> r_top r \<and> pt_y p < r_bottom r"

definition rect_clamp :: "rect \<Rightarrow> point \<Rightarrow> point option" where
  "rect_clamp r p = do {
     x \<leftarrow> clamp (pt_x p) (r_left r) (i32 (r_right r - 1));
     y \<leftarrow> clamp (pt_y p) (r_top r) (i32 (r_bottom r - 1));
     Some (Pt x y)
   }"

text \<open>A rectangle whose far sides are representable and which is not empty.\<close>

definition rect_ok :: "rect \<Rightarrow> bool" where
  "rect_ok r \<longleftrightarrow> 0 < r_w r \<and> 0 < r_h r \<and> is_i32 (r_x r) \<and> is_i32 (r_y r)
     \<and> is_i32 (r_x r + r_w r) \<and> is_i32 (r_y r + r_h r)"

lemma rect_okD:
  assumes "rect_ok r"
  shows "0 < r_w r" "0 < r_h r" "r_right r = r_x r + r_w r" "r_bottom r = r_y r + r_h r"
    "i32 (r_right r - 1) = r_x r + r_w r - 1" "i32 (r_bottom r - 1) = r_y r + r_h r - 1"
  using assms by (auto simp: rect_ok_def r_right_def r_bottom_def is_i32_def i32_small)

lemma contains_iff:
  assumes "rect_ok r"
  shows "rect_contains r p \<longleftrightarrow>
    r_x r \<le> pt_x p \<and> pt_x p < r_x r + r_w r \<and> r_y r \<le> pt_y p \<and> pt_y p < r_y r + r_h r"
  using rect_okD [OF assms] by (simp add: rect_contains_def r_left_def r_top_def)

text \<open>Clamping into a usable rectangle never panics, lands inside, and fixes what is inside.\<close>

lemma rect_clamp_ok:
  assumes "rect_ok r"
  shows "rect_clamp r p = Some (Pt (max (r_x r) (min (pt_x p) (r_x r + r_w r - 1)))
                                   (max (r_y r) (min (pt_y p) (r_y r + r_h r - 1))))"
  using rect_okD [OF assms] by (simp add: rect_clamp_def r_left_def r_top_def)

lemma rect_clamp_inside: "rect_ok r \<Longrightarrow> rect_clamp r p = Some q \<Longrightarrow> rect_contains r q"
  by (auto simp: rect_clamp_ok contains_iff dest: rect_okD)

lemma rect_clamp_fix: "rect_ok r \<Longrightarrow> rect_contains r p \<Longrightarrow> rect_clamp r p = Some p"
  by (cases p) (auto simp: rect_clamp_ok contains_iff)

lemma rect_clamp_total: "rect_ok r \<Longrightarrow> \<exists>q. rect_clamp r p = Some q"
  by (simp add: rect_clamp_ok)

lemma rect_clamp_panics: "rect_clamp (Rect 0 0 0 10) p = None"
  by (simp add: rect_clamp_def clamp_def r_left_def r_right_def i32_small)

section \<open>The union of the monitors\<close>

lemma union_loop_bounds:
  assumes "union_loop (l, t, r, b) rs = (l', t', r', b')"
  shows "l' \<le> l \<and> t' \<le> t \<and> r \<le> r' \<and> b \<le> b' \<and>
    (\<forall>c \<in> set rs. l' \<le> r_left c \<and> t' \<le> r_top c \<and> r_right c \<le> r' \<and> r_bottom c \<le> b')"
  using assms
proof (induction "(l, t, r, b)" rs arbitrary: l t r b rule: union_loop.induct)
  case 1
  then show ?case by simp
next
  case (2 l t r b rc rs)
  then show ?case by fastforce
qed

lemma union_loop_tight:
  assumes "union_loop (l, t, r, b) rs = (l', t', r', b')"
  shows "(l' = l \<or> l' \<in> r_left ` set rs) \<and> (t' = t \<or> t' \<in> r_top ` set rs)
    \<and> (r' = r \<or> r' \<in> r_right ` set rs) \<and> (b' = b \<or> b' \<in> r_bottom ` set rs)"
  using assms
proof (induction "(l, t, r, b)" rs arbitrary: l t r b rule: union_loop.induct)
  case 1
  then show ?case by simp
next
  case (2 l t r b rc rs)
  from 2(1) [OF 2(2) [simplified]] show ?case
    by (auto simp: min_def max_def split: if_splits)
qed

lemma union_all_None_iff [simp]: "union_all rs = None \<longleftrightarrow> rs = []"
  by (auto simp: union_all_def split: list.splits prod.splits)

lemma union_all_cover:
  assumes u: "union_all rs = Some u" and c: "c \<in> set rs" and ok: "\<forall>c \<in> set rs. rect_ok c"
    and small: "\<forall>c \<in> set rs. \<bar>r_x c\<bar> \<le> 1000000000 \<and> \<bar>r_y c\<bar> \<le> 1000000000
      \<and> \<bar>r_x c + r_w c\<bar> \<le> 1000000000 \<and> \<bar>r_y c + r_h c\<bar> \<le> 1000000000"
  shows "rect_ok u \<and> r_x u \<le> r_x c \<and> r_x c + r_w c \<le> r_x u + r_w u
    \<and> r_y u \<le> r_y c \<and> r_y c + r_h c \<le> r_y u + r_h u"
proof -
  obtain f rest where rs: "rs = f # rest" using u by (cases rs) (auto simp: union_all_def)
  obtain l t r b where lp: "union_loop (r_left f, r_top f, r_right f, r_bottom f) rest = (l, t, r, b)"
    by (metis prod_cases4)
  have ueq: "u = Rect l t (i32 (r - l)) (i32 (b - t))"
    using u by (simp add: union_all_def rs lp)
  note bnd = union_loop_bounds [OF lp] and tgt = union_loop_tight [OF lp]
  have ranges: "\<bar>l\<bar> \<le> 1000000000 \<and> \<bar>t\<bar> \<le> 1000000000 \<and> \<bar>r\<bar> \<le> 1000000000 \<and> \<bar>b\<bar> \<le> 1000000000"
    using tgt small ok rect_okD(3,4) by (auto simp: rs r_left_def r_top_def)
  have inside: "l \<le> r_x d \<and> t \<le> r_y d \<and> r_x d + r_w d \<le> r \<and> r_y d + r_h d \<le> b" if "d \<in> set rs" for d
    using that bnd ok rect_okD(3,4) [of d] by (auto simp: rs r_left_def r_top_def rect_okD)
  have pos: "l < r" "t < b"
    using inside [OF c] ok c rect_okD(1,2) [of c] by fastforce+
  have "i32 (r - l) = r - l" "i32 (b - t) = b - t"
    using ranges pos by (auto intro!: i32_small)
  then show ?thesis
    using inside [OF c] ranges pos by (auto simp: ueq rect_ok_def is_i32_def)
qed

section \<open>Edges and edge sets\<close>

datatype edge = Left | Right | Top | Bottom

fun edge_index :: "edge \<Rightarrow> nat" where
  "edge_index Left = 0"
| "edge_index Right = 1"
| "edge_index Top = 2"
| "edge_index Bottom = 3"

lemma edge_index_inj: "edge_index a = edge_index b \<Longrightarrow> a = b"
  by (cases a; cases b) auto

text \<open>The derived \<^verbatim>\<open>Ord\<close> of the enum: declaration order. It makes an edge a map key.\<close>

instantiation edge :: linorder
begin

definition less_eq_edge :: "edge \<Rightarrow> edge \<Rightarrow> bool" where
  "a \<le> b \<longleftrightarrow> edge_index a \<le> edge_index b"

definition less_edge :: "edge \<Rightarrow> edge \<Rightarrow> bool" where
  "a < b \<longleftrightarrow> edge_index a < edge_index b"

instance
  by standard (auto simp: less_eq_edge_def less_edge_def dest: edge_index_inj)

end

definition edge_all :: "edge list" where
  "edge_all = [Left, Right, Top, Bottom]"

lemma edge_all_set [simp]: "set edge_all = UNIV"
  by (auto simp: edge_all_def) (metis edge.exhaust)

fun opposite :: "edge \<Rightarrow> edge" where
  "opposite Left = Right"
| "opposite Right = Left"
| "opposite Top = Bottom"
| "opposite Bottom = Top"

type_synonym edge_set = "8 word"

definition es_bit :: "edge \<Rightarrow> 8 word" where
  "es_bit e = push_bit (edge_index e) 1"

definition es_empty :: edge_set where
  "es_empty = 0"

definition es_with :: "edge_set \<Rightarrow> edge \<Rightarrow> edge_set" where
  "es_with s e = s OR es_bit e"

definition es_insert :: "edge_set \<Rightarrow> edge \<Rightarrow> edge_set" where
  "es_insert s e = s OR es_bit e"

definition es_contains :: "edge_set \<Rightarrow> edge \<Rightarrow> bool" where
  "es_contains s e \<longleftrightarrow> s AND es_bit e \<noteq> 0"

definition es_is_empty :: "edge_set \<Rightarrow> bool" where
  "es_is_empty s \<longleftrightarrow> s = 0"

definition es_of_list :: "edge list \<Rightarrow> edge_set" where
  "es_of_list es = fold (\<lambda>e s. es_with s e) es es_empty"

lemma edge_index_lt: "edge_index e < 8"
  by (cases e) auto

lemma es_contains_bit: "es_contains s e \<longleftrightarrow> bit s (edge_index e)"
proof -
  have "s AND es_bit e = (if bit s (edge_index e) then es_bit e else 0)"
    by (rule bit_word_eqI) (auto simp: es_bit_def bit_simps)
  moreover have "es_bit e \<noteq> 0"
    by (cases e) (simp_all add: es_bit_def push_bit_eq_mult)
  ultimately show ?thesis by (simp add: es_contains_def)
qed

lemma es_contains_empty [simp]: "\<not> es_contains es_empty e"
  by (simp add: es_contains_def es_empty_def)

lemma es_contains_with [simp]: "es_contains (es_with s e) e' \<longleftrightarrow> e' = e \<or> es_contains s e'"
proof -
  have "bit (es_bit e) (edge_index e') \<longleftrightarrow> e' = e"
    using edge_index_lt [of e] edge_index_inj by (auto simp: es_bit_def bit_simps)
  then show ?thesis
    by (auto simp: es_contains_bit es_with_def bit_simps)
qed

lemma es_contains_insert [simp]: "es_contains (es_insert s e) e' \<longleftrightarrow> e' = e \<or> es_contains s e'"
  using es_contains_with by (simp add: es_insert_def es_with_def)

lemma es_contains_of_list_aux:
  "es_contains (fold (\<lambda>e s. es_with s e) es s) e \<longleftrightarrow> e \<in> set es \<or> es_contains s e"
  by (induction es arbitrary: s) auto

lemma es_contains_of_list: "es_contains (es_of_list es) e \<longleftrightarrow> e \<in> set es"
  by (simp add: es_of_list_def es_contains_of_list_aux)

lemma opposite_opposite [simp]: "opposite (opposite e) = e"
  by (cases e) auto

section \<open>ScreenInfo\<close>

record screen_info =
  si_name :: string
  si_bounds :: rect
  si_monitors :: "rect list"
  si_cursor :: point

text \<open>\<^verbatim>\<open>union_all(..).expect(..)\<close> panics on an empty list; the list was just made non-empty.\<close>

definition si_from_monitors :: "string \<Rightarrow> rect list \<Rightarrow> point \<Rightarrow> screen_info option" where
  "si_from_monitors name monitors cursor =
     (let monitors = (if monitors = [] then [Rect 0 0 1920 1080] else monitors)
      in do {
        bounds \<leftarrow> union_all monitors;
        Some \<lparr>si_name = name, si_bounds = bounds, si_monitors = monitors, si_cursor = cursor\<rparr>
      })"

lemma si_from_monitors_total:
  "\<exists>s. si_from_monitors n ms c = Some s \<and> si_monitors s \<noteq> [] \<and> si_name s = n
     \<and> Some (si_bounds s) = union_all (si_monitors s)"
proof -
  define m where "m = (if ms = [] then [Rect 0 0 1920 1080] else ms)"
  have ne: "m \<noteq> []" by (simp add: m_def)
  then obtain b where b: "union_all m = Some b"
    by (metis not_None_eq union_all_None_iff)
  have "si_from_monitors n ms c = Some \<lparr>si_name = n, si_bounds = b, si_monitors = m, si_cursor = c\<rparr>"
    by (simp only: si_from_monitors_def m_def [symmetric] Let_def b) simp
  then show ?thesis using ne b by simp
qed

end
