(* ===== verification/Text.thy ===== *)
theory Text
  imports GD_Prelude
begin

text \<open>
  Strings of the Rust sources. A \<^verbatim>\<open>String\<close> and a \<^verbatim>\<open>Vec<u8>\<close> are both byte lists, that is
  \<^typ>\<open>char list\<close> (an Isabelle \<^typ>\<open>char\<close> is a byte), so \<^verbatim>\<open>len()\<close> is \<^const>\<open>length\<close> and the
  derived \<^verbatim>\<open>Ord\<close> is the lexicographic order. \<^verbatim>\<open>str::from_utf8\<close> and \<^verbatim>\<open>chars()\<close> are the strict
  UTF-8 decoder below; \<^verbatim>\<open>char::is_control\<close>, \<^verbatim>\<open>trim\<close>, \<^verbatim>\<open>split\<close> and the ASCII case functions are
  the standard library's, restricted to what the sources call.
\<close>

type_synonym bytes = "char list"

definition byte :: "nat \<Rightarrow> char" where
  "byte n = char_of n"

abbreviation ord :: "char \<Rightarrow> nat" where
  "ord c \<equiv> of_char c"

lemma ord_byte [simp]: "n < 256 \<Longrightarrow> ord (byte n) = n"
  by (simp add: byte_def)

section \<open>UTF-8\<close>

definition is_scalar :: "nat \<Rightarrow> bool" where
  "is_scalar n \<longleftrightarrow> n < 55296 \<or> 57344 \<le> n \<and> n < 1114112"

definition utf8_char :: "nat \<Rightarrow> bytes" where
  "utf8_char n =
     (if n < 128 then [byte n]
      else if n < 2048 then [byte (192 + n div 64), byte (128 + n mod 64)]
      else if n < 65536 then
        [byte (224 + n div 4096), byte (128 + n div 64 mod 64), byte (128 + n mod 64)]
      else [byte (240 + n div 262144), byte (128 + n div 4096 mod 64),
            byte (128 + n div 64 mod 64), byte (128 + n mod 64)])"

definition utf8_encode :: "nat list \<Rightarrow> bytes" where
  "utf8_encode cs = concat (map utf8_char cs)"

definition cont :: "char \<Rightarrow> bool" where
  "cont c \<longleftrightarrow> 128 \<le> ord c \<and> ord c < 192"

text \<open>One character off the front: its code point and what is left.\<close>

definition utf8_next :: "bytes \<Rightarrow> (nat \<times> bytes) option" where
  "utf8_next s =
     (case s of [] \<Rightarrow> None
      | a # s1 \<Rightarrow>
        if ord a < 128 then Some (ord a, s1)
        else if 194 \<le> ord a \<and> ord a < 224 then
          (case s1 of b # s2 \<Rightarrow>
             if cont b then Some ((ord a - 192) * 64 + (ord b - 128), s2) else None
           | _ \<Rightarrow> None)
        else if 224 \<le> ord a \<and> ord a < 240 then
          (case s1 of b # c # s2 \<Rightarrow>
             (let n = (ord a - 224) * 4096 + (ord b - 128) * 64 + (ord c - 128)
              in if cont b \<and> cont c \<and> 2048 \<le> n \<and> is_scalar n then Some (n, s2) else None)
           | _ \<Rightarrow> None)
        else if 240 \<le> ord a \<and> ord a < 245 then
          (case s1 of b # c # d # s2 \<Rightarrow>
             (let n = (ord a - 240) * 262144 + (ord b - 128) * 4096 + (ord c - 128) * 64 + (ord d - 128)
              in if cont b \<and> cont c \<and> cont d \<and> 65536 \<le> n \<and> is_scalar n then Some (n, s2) else None)
           | _ \<Rightarrow> None)
        else None)"

lemma utf8_next_shorter: "utf8_next s = Some (n, s') \<Longrightarrow> length s' < length s"
  by (auto simp: utf8_next_def Let_def split: list.splits if_splits)

function utf8_decode :: "bytes \<Rightarrow> nat list option" where
  "utf8_decode s =
     (if s = [] then Some []
      else case utf8_next s of None \<Rightarrow> None
           | Some (n, s') \<Rightarrow> map_option ((#) n) (utf8_decode s'))"
  by pat_completeness auto
termination
  by (relation "measure length") (auto dest: utf8_next_shorter)

declare utf8_decode.simps [simp del]

lemma utf8_decode_Nil [simp]: "utf8_decode [] = Some []"
  by (simp add: utf8_decode.simps)

definition utf8_valid :: "bytes \<Rightarrow> bool" where
  "utf8_valid s \<longleftrightarrow> utf8_decode s \<noteq> None"

lemma utf8_char_nonempty [simp]: "utf8_char n \<noteq> []"
  by (simp add: utf8_char_def)

lemma utf8_next_char2:
  assumes "128 \<le> n" "n < 2048"
  shows "utf8_next (utf8_char n @ s) = Some (n, s)"
proof -
  have "n div 64 < 32" "2 \<le> n div 64" using assms by auto
  then show ?thesis
    using assms by (simp add: utf8_char_def utf8_next_def cont_def div_mult_mod_eq)
qed

lemma utf8_next_three:
  assumes "a < 16" "b < 64" "c < 64" "2048 \<le> a * 4096 + b * 64 + c" "is_scalar (a * 4096 + b * 64 + c)"
  shows "utf8_next (byte (224 + a) # byte (128 + b) # byte (128 + c) # s) = Some (a * 4096 + b * 64 + c, s)"
  using assms by (simp add: utf8_next_def cont_def Let_def)

lemma utf8_next_four:
  assumes "a < 5" "b < 64" "c < 64" "d < 64" "65536 \<le> a * 262144 + b * 4096 + c * 64 + d"
    "is_scalar (a * 262144 + b * 4096 + c * 64 + d)"
  shows "utf8_next (byte (240 + a) # byte (128 + b) # byte (128 + c) # byte (128 + d) # s)
    = Some (a * 262144 + b * 4096 + c * 64 + d, s)"
  using assms by (simp add: utf8_next_def cont_def Let_def)

lemma sextets3: "(n::nat) div 4096 * 4096 + n div 64 mod 64 * 64 + n mod 64 = n"
proof -
  have "n div 4096 = n div 64 div 64" by (simp add: div_mult2_eq [of n 64 64, simplified])
  then show ?thesis
    using div_mult_mod_eq [of n 64] div_mult_mod_eq [of "n div 64" 64] by linarith
qed

lemma sextets4: "(n::nat) div 262144 * 262144 + n div 4096 mod 64 * 4096 + n div 64 mod 64 * 64 + n mod 64 = n"
proof -
  have "n div 262144 = n div 64 div 4096" "n div 4096 = n div 64 div 64"
    by (simp_all add: div_mult2_eq [of n 64 4096, simplified] div_mult2_eq [of n 64 64, simplified])
  then show ?thesis
    using div_mult_mod_eq [of n 64] sextets3 [of "n div 64"] by (simp only: div_mult2_eq [symmetric])
qed

lemma utf8_next_char3:
  assumes "2048 \<le> n" "n < 65536" "is_scalar n"
  shows "utf8_next (utf8_char n @ s) = Some (n, s)"
proof -
  have n: "n div 4096 * 4096 + n div 64 mod 64 * 64 + n mod 64 = n" by (rule sextets3)
  have c: "utf8_char n = [byte (224 + n div 4096), byte (128 + n div 64 mod 64), byte (128 + n mod 64)]"
    using assms by (simp only: utf8_char_def) simp
  have "n div 4096 < 16" using assms(2) by (simp add: div_less_iff_less_mult)
  then show ?thesis
    using utf8_next_three [of "n div 4096" "n div 64 mod 64" "n mod 64" s, unfolded n, OF _ _ _ assms(1,3)]
    by (simp add: c)
qed

lemma utf8_next_char4:
  assumes "65536 \<le> n" "is_scalar n"
  shows "utf8_next (utf8_char n @ s) = Some (n, s)"
proof -
  have n: "n div 262144 * 262144 + n div 4096 mod 64 * 4096 + n div 64 mod 64 * 64 + n mod 64 = n"
    by (rule sextets4)
  have c: "utf8_char n = [byte (240 + n div 262144), byte (128 + n div 4096 mod 64),
      byte (128 + n div 64 mod 64), byte (128 + n mod 64)]"
    using assms by (simp only: utf8_char_def) simp
  have "n div 262144 < 5" using assms(2) unfolding is_scalar_def by (auto simp: div_less_iff_less_mult)
  then show ?thesis
    using utf8_next_four [of "n div 262144" "n div 4096 mod 64" "n div 64 mod 64" "n mod 64" s, unfolded n,
        OF _ _ _ _ assms]
    by (simp add: c)
qed

lemma utf8_next_char:
  assumes "is_scalar n"
  shows "utf8_next (utf8_char n @ s) = Some (n, s)"
proof (cases "n < 128")
  case True
  then show ?thesis by (simp add: utf8_char_def utf8_next_def)
next
  case False
  then show ?thesis
    using assms utf8_next_char2 utf8_next_char3 utf8_next_char4 by (meson not_le)
qed

lemma utf8_decode_append: "is_scalar n \<Longrightarrow> utf8_decode (utf8_char n @ s) = map_option ((#) n) (utf8_decode s)"
  by (subst utf8_decode.simps) (simp add: utf8_next_char)

lemma utf8_decode_encode: "\<forall>c \<in> set cs. is_scalar c \<Longrightarrow> utf8_decode (utf8_encode cs) = Some cs"
  by (induction cs) (auto simp: utf8_encode_def utf8_decode_append)

lemma utf8_ascii: "\<forall>c \<in> set s. ord c < 128 \<Longrightarrow> utf8_decode s = Some (map ord s)"
proof (induction s)
  case Nil
  show ?case by simp
next
  case (Cons c s)
  then show ?case by (subst utf8_decode.simps) (simp add: utf8_next_def)
qed

lemma utf8_valid_ascii: "\<forall>c \<in> set s. ord c < 128 \<Longrightarrow> utf8_valid s"
  by (simp add: utf8_valid_def utf8_ascii)

section \<open>Character classes and trimming\<close>

text \<open>The code points of a string; a Rust \<^verbatim>\<open>String\<close> is always valid UTF-8.\<close>

definition chars :: "string \<Rightarrow> nat list" where
  "chars s = (case utf8_decode s of Some cs \<Rightarrow> cs | None \<Rightarrow> [])"

text \<open>Unicode category Cc, and the \<^verbatim>\<open>White_Space\<close> property.\<close>

definition is_control :: "nat \<Rightarrow> bool" where
  "is_control n \<longleftrightarrow> n < 32 \<or> 127 \<le> n \<and> n < 160"

definition is_whitespace :: "nat \<Rightarrow> bool" where
  "is_whitespace n \<longleftrightarrow> 9 \<le> n \<and> n \<le> 13 \<or> n = 32 \<or> n = 133 \<or> n = 160 \<or> n = 5760
     \<or> 8192 \<le> n \<and> n \<le> 8202 \<or> n = 8232 \<or> n = 8233 \<or> n = 8239 \<or> n = 8287 \<or> n = 12288"

definition trim_points :: "nat list \<Rightarrow> nat list" where
  "trim_points cs = rev (dropWhile is_whitespace (rev (dropWhile is_whitespace cs)))"

definition trim :: "string \<Rightarrow> string" where
  "trim s = utf8_encode (trim_points (chars s))"

definition ascii_lower :: "char \<Rightarrow> char" where
  "ascii_lower c = (if 65 \<le> ord c \<and> ord c \<le> 90 then byte (ord c + 32) else c)"

definition to_ascii_lower :: "string \<Rightarrow> string" where
  "to_ascii_lower s = map ascii_lower s"

definition eq_ignore_ascii_case :: "string \<Rightarrow> string \<Rightarrow> bool" where
  "eq_ignore_ascii_case a b \<longleftrightarrow> to_ascii_lower a = to_ascii_lower b"

text \<open>\<^verbatim>\<open>str::split(c)\<close>: always at least one part.\<close>

fun split_on :: "char \<Rightarrow> string \<Rightarrow> string list" where
  "split_on c [] = [[]]"
| "split_on c (x # xs) =
     (if x = c then [] # split_on c xs
      else case split_on c xs of p # ps \<Rightarrow> (x # p) # ps | [] \<Rightarrow> [[x]])"

fun join :: "char \<Rightarrow> string list \<Rightarrow> string" where
  "join c [] = []"
| "join c [p] = p"
| "join c (p # ps) = p @ c # join c ps"

lemma split_on_nonempty [simp]: "split_on c s \<noteq> []"
  by (induction s) (auto split: list.splits)

lemma join_Cons: "ps \<noteq> [] \<Longrightarrow> join c (p # ps) = p @ c # join c ps"
  by (cases ps) auto

lemma join_split: "join c (split_on c s) = s"
proof (induction s)
  case Nil
  show ?case by simp
next
  case (Cons x xs)
  obtain p ps where sp: "split_on c xs = p # ps"
    by (meson neq_Nil_conv split_on_nonempty)
  with Cons show ?case by (cases ps) (auto simp: join_Cons)
qed

lemma split_on_parts: "p \<in> set (split_on c s) \<Longrightarrow> c \<notin> set p"
  by (induction s arbitrary: p) (auto split: list.splits if_splits)

lemma split_on_single: "c \<notin> set s \<Longrightarrow> split_on c s = [s]"
  by (induction s) auto

text \<open>Decimal digits, as \<^verbatim>\<open>to_string\<close> writes and \<^verbatim>\<open>parse\<close> reads them.\<close>

fun show_nat :: "nat \<Rightarrow> string" where
  "show_nat n = (if n < 10 then [byte (48 + n)] else show_nat (n div 10) @ [byte (48 + n mod 10)])"

declare show_nat.simps [simp del]

definition is_digit :: "char \<Rightarrow> bool" where
  "is_digit c \<longleftrightarrow> 48 \<le> ord c \<and> ord c \<le> 57"

fun read_digits :: "nat \<Rightarrow> string \<Rightarrow> nat option" where
  "read_digits acc [] = Some acc"
| "read_digits acc (c # cs) = (if is_digit c then read_digits (acc * 10 + (ord c - 48)) cs else None)"

text \<open>\<^verbatim>\<open>str::parse::<uN>()\<close>: an optional plus sign, at least one digit, at most \<open>mx\<close>.\<close>

definition parse_nat :: "nat \<Rightarrow> string \<Rightarrow> nat option" where
  "parse_nat mx s =
     (let ds = (case s of c # rest \<Rightarrow> if c = CHR ''+'' then rest else s | [] \<Rightarrow> [])
      in if ds = [] then None
         else case read_digits 0 ds of None \<Rightarrow> None
              | Some n \<Rightarrow> if n \<le> mx then Some n else None)"

lemma read_digits_snoc:
  "read_digits acc (xs @ [c]) =
     (case read_digits acc xs of None \<Rightarrow> None | Some n \<Rightarrow> if is_digit c then Some (n * 10 + (ord c - 48)) else None)"
  by (induction xs arbitrary: acc) auto

lemma read_show_nat: "read_digits 0 (show_nat n) = Some n"
proof (induction n rule: show_nat.induct)
  case (1 n)
  show ?case
  proof (cases "n < 10")
    case True
    then show ?thesis by (subst show_nat.simps) (simp add: is_digit_def)
  next
    case False
    with 1 show ?thesis
      by (subst show_nat.simps) (simp add: read_digits_snoc is_digit_def)
  qed
qed

lemma show_nat_hd: "\<exists>c cs. show_nat n = c # cs \<and> is_digit c"
proof (induction n rule: show_nat.induct)
  case (1 n)
  show ?case
  proof (cases "n < 10")
    case True
    then show ?thesis by (subst show_nat.simps) (simp add: is_digit_def)
  next
    case False
    with 1 show ?thesis by (subst show_nat.simps) auto
  qed
qed

lemma parse_show_nat: "n \<le> mx \<Longrightarrow> parse_nat mx (show_nat n) = Some n"
proof -
  assume "n \<le> mx"
  obtain c cs where s: "show_nat n = c # cs" and "is_digit c"
    using show_nat_hd by blast
  then have "c \<noteq> CHR ''+''" by (auto simp: is_digit_def)
  then show ?thesis
    using read_show_nat [of n] \<open>n \<le> mx\<close> by (simp add: parse_nat_def s Let_def)
qed

end
