(* ===== verification/Wire.thy ===== *)
theory Wire
  imports Geometry Text
begin

text \<open>
  The wire vocabulary of \<^verbatim>\<open>crates/geserdesk-proto\<close>: version negotiation (\<^verbatim>\<open>version.rs\<close>), key and
  mouse events with the modifier mask (\<^verbatim>\<open>input.rs\<close>), clipboard and file identifiers
  (\<^verbatim>\<open>clipboard.rs\<close>) and the two message enums with the runtime options (\<^verbatim>\<open>message.rs\<close>). Durations
  are milliseconds.
\<close>

section \<open>Protocol versions\<close>

record version =
  ver_major :: nat
  ver_minor :: nat

definition PROTOCOL_VERSION :: version where
  "PROTOCOL_VERSION = \<lparr>ver_major = 4, ver_minor = 0\<rparr>"

record version_error =
  ve_local :: version
  ve_remote :: version

definition is_compatible_with :: "version \<Rightarrow> version \<Rightarrow> bool" where
  "is_compatible_with a b \<longleftrightarrow> ver_major a = ver_major b"

definition negotiate :: "version \<Rightarrow> version \<Rightarrow> version_error + version" where
  "negotiate a b =
     (if ver_major a \<noteq> ver_major b then Inl \<lparr>ve_local = a, ve_remote = b\<rparr>
      else Inr \<lparr>ver_major = ver_major a, ver_minor = min (ver_minor a) (ver_minor b)\<rparr>)"

lemma negotiate_ok_iff: "(\<exists>v. negotiate a b = Inr v) \<longleftrightarrow> is_compatible_with a b"
  by (auto simp: negotiate_def is_compatible_with_def)

lemma negotiate_Inr:
  "negotiate a b = Inr v \<longleftrightarrow> ver_major a = ver_major b \<and> v = \<lparr>ver_major = ver_major a, ver_minor = min (ver_minor a) (ver_minor b)\<rparr>"
  by (auto simp: negotiate_def)

section \<open>Modifier masks\<close>

type_synonym mod_mask = "32 word"

definition SHIFT :: mod_mask where "SHIFT = 0x0001"
definition CONTROL :: mod_mask where "CONTROL = 0x0002"
definition ALT :: mod_mask where "ALT = 0x0004"
definition META :: mod_mask where "META = 0x0008"
definition SUPER :: mod_mask where "SUPER = 0x0010"
definition ALT_GR :: mod_mask where "ALT_GR = 0x0020"
definition CAPS_LOCK :: mod_mask where "CAPS_LOCK = 0x1000"
definition NUM_LOCK :: mod_mask where "NUM_LOCK = 0x2000"

lemmas mod_mask_defs = SHIFT_def CONTROL_def ALT_def META_def SUPER_def ALT_GR_def CAPS_LOCK_def NUM_LOCK_def

definition mm_empty :: mod_mask where
  "mm_empty = 0"

definition mm_contains :: "mod_mask \<Rightarrow> mod_mask \<Rightarrow> bool" where
  "mm_contains m o2 \<longleftrightarrow> m AND o2 = o2"

definition mm_insert :: "mod_mask \<Rightarrow> mod_mask \<Rightarrow> mod_mask" where
  "mm_insert m o2 = m OR o2"

definition mm_remove :: "mod_mask \<Rightarrow> mod_mask \<Rightarrow> mod_mask" where
  "mm_remove m o2 = m AND NOT o2"

definition mm_set :: "mod_mask \<Rightarrow> mod_mask \<Rightarrow> bool \<Rightarrow> mod_mask" where
  "mm_set m o2 on = (if on then mm_insert m o2 else mm_remove m o2)"

definition mm_from_bits_truncate :: "mod_mask \<Rightarrow> mod_mask" where
  "mm_from_bits_truncate bits =
     bits AND (SHIFT OR CONTROL OR ALT OR META OR SUPER OR ALT_GR OR CAPS_LOCK OR NUM_LOCK)"

lemma mm_contains_bits: "mm_contains m o2 \<longleftrightarrow> (\<forall>i. bit o2 i \<longrightarrow> bit m i)"
proof
  assume "mm_contains m o2"
  then have "m AND o2 = o2" by (simp add: mm_contains_def)
  then show "\<forall>i. bit o2 i \<longrightarrow> bit m i" by (metis bit_and_iff)
next
  assume "\<forall>i. bit o2 i \<longrightarrow> bit m i"
  then show "mm_contains m o2"
    unfolding mm_contains_def by (intro bit_word_eqI) (auto simp: bit_and_iff)
qed

lemma mm_contains_insert: "mm_contains (mm_insert m o2) o2"
  by (simp add: mm_contains_bits mm_insert_def bit_simps)

lemma mm_contains_insert_mono: "mm_contains m o3 \<Longrightarrow> mm_contains (mm_insert m o2) o3"
  by (simp add: mm_contains_bits mm_insert_def bit_simps)

lemma mm_contains_remove: "o2 \<noteq> 0 \<Longrightarrow> \<not> mm_contains (mm_remove m o2) o2"
  unfolding mm_contains_bits mm_remove_def by (auto simp: bit_simps bit_eq_iff)

lemma mm_remove_other: "o2 AND o3 = 0 \<Longrightarrow> mm_contains (mm_remove m o2) o3 \<longleftrightarrow> mm_contains m o3"
proof -
  assume "o2 AND o3 = 0"
  then have "\<not> (bit o2 i \<and> bit o3 i)" for i
    by (metis bit_and_iff bit_0_eq bot_apply bot_bool_def)
  then show ?thesis
    unfolding mm_contains_bits mm_remove_def by (auto simp: bit_simps dest: bit_imp_le_length)
qed

section \<open>Key and mouse events\<close>

datatype key_action = Down | Up | Repeat nat

record key_event =
  ke_hid :: nat
  ke_ch :: "nat option"
  ke_mods :: mod_mask
  ke_action :: key_action

datatype button = BtnLeft | BtnMiddle | BtnRight | BtnBack | BtnForward | BtnExtra nat

datatype mouse_event =
    MoveAbs int int
  | MoveRel int int
  | MouseButton button bool
  | Wheel int int

section \<open>Clipboard and file identifiers\<close>

datatype clipboard_id = Clipboard | Primary

datatype chunk = Start nat | Data bytes | End

record file_entry =
  fe_path :: string
  fe_size :: nat
  fe_dir :: bool

record file_manifest =
  fm_entries :: "file_entry list"

datatype file_read_error = NotFound | Changed | Denied | Superseded

datatype file_read_result = FData bytes | FErr file_read_error

section \<open>Messages\<close>

record options =
  clipboard_sharing :: bool
  clipboard_max_bytes :: nat
  scroll_lock_locks :: bool
  screensaver_sync :: bool
  relative_mouse_moves :: bool
  clipboard_files :: bool
  clipboard_files_max_bytes :: nat

definition options_default :: options where
  "options_default =
     \<lparr>clipboard_sharing = True, clipboard_max_bytes = 0, scroll_lock_locks = True,
      screensaver_sync = False, relative_mouse_moves = True, clipboard_files = True,
      clipboard_files_max_bytes = 0\<rparr>"

datatype close_reason = ServerShutdown | Timeout | ProtocolError | Reconfigured

fun close_reason_display :: "close_reason \<Rightarrow> string" where
  "close_reason_display ServerShutdown = ''server shutdown''"
| "close_reason_display Timeout = ''keep-alive timeout''"
| "close_reason_display ProtocolError = ''protocol error''"
| "close_reason_display Reconfigured = ''screen reconfigured''"

datatype client_msg =
    Hello version screen_info
  | ScreenChanged screen_info
  | CClipboardGrab clipboard_id nat
  | CClipboardData clipboard_id nat chunk
  | CFileRead (cr_seq: nat) (cr_req: nat) (cr_index: nat) (cr_offset: nat) (cr_len: nat)
  | CFileReply nat file_read_result
  | CKeepAlive

datatype server_msg =
    Welcome version nat
  | Incompatible version
  | Rejected string
  | Enter int int nat mod_mask
  | Leave
  | Key key_event
  | Mouse mouse_event
  | SClipboardGrab clipboard_id nat
  | SClipboardData clipboard_id nat chunk
  | SFileRead (sr_seq: nat) (sr_req: nat) (sr_index: nat) (sr_offset: nat) (sr_len: nat)
  | SFileReply nat file_read_result
  | SetOptions options
  | Close close_reason
  | SKeepAlive

end
