(* ===== verification/Key_Rules.thy ===== *)
theory Key_Rules
  imports Wire
begin

text \<open>
  \<^verbatim>\<open>crates/geserdesk-proto/src/consumer.rs\<close> and \<^verbatim>\<open>keys.rs\<close>: the codes of the keys that are not on
  the keyboard usage page, and the parsing of a machine's \<^verbatim>\<open>keys.toml\<close> words into rules and
  perform overrides. Codes are \<^verbatim>\<open>u16\<close> values as \<^typ>\<open>nat\<close>. The texts of the error strings are
  replaced by a constructor per message.
\<close>

section \<open>Action codes\<close>

definition CONSUMER :: nat where "CONSUMER = 0x0C00"
definition TELEPHONY :: nat where "TELEPHONY = 0x0B00"

definition is_extra :: "nat \<Rightarrow> bool" where
  "is_extra hid \<longleftrightarrow> hid \<ge> 0x0B00"

definition MUTE :: nat where "MUTE = CONSUMER + 0xE2"
definition VOLUME_UP :: nat where "VOLUME_UP = CONSUMER + 0xE9"
definition VOLUME_DOWN :: nat where "VOLUME_DOWN = CONSUMER + 0xEA"
definition MIC_MUTE :: nat where "MIC_MUTE = TELEPHONY + 0x2F"
definition PLAY_PAUSE :: nat where "PLAY_PAUSE = CONSUMER + 0xCD"
definition NEXT_TRACK :: nat where "NEXT_TRACK = CONSUMER + 0xB5"
definition PREVIOUS_TRACK :: nat where "PREVIOUS_TRACK = CONSUMER + 0xB6"
definition STOP :: nat where "STOP = CONSUMER + 0xB7"
definition BRIGHTNESS_UP :: nat where "BRIGHTNESS_UP = CONSUMER + 0x6F"
definition BRIGHTNESS_DOWN :: nat where "BRIGHTNESS_DOWN = CONSUMER + 0x70"
definition MAIL :: nat where "MAIL = CONSUMER + 0x18A"
definition CALCULATOR :: nat where "CALCULATOR = CONSUMER + 0x192"
definition EXPLORER :: nat where "EXPLORER = CONSUMER + 0x194"
definition BROWSER :: nat where "BROWSER = CONSUMER + 0x196"
definition BROWSER_SEARCH :: nat where "BROWSER_SEARCH = CONSUMER + 0x221"
definition BROWSER_HOME :: nat where "BROWSER_HOME = CONSUMER + 0x223"
definition BROWSER_BACK :: nat where "BROWSER_BACK = CONSUMER + 0x224"
definition BROWSER_FORWARD :: nat where "BROWSER_FORWARD = CONSUMER + 0x225"
definition BROWSER_STOP :: nat where "BROWSER_STOP = CONSUMER + 0x226"
definition BROWSER_REFRESH :: nat where "BROWSER_REFRESH = CONSUMER + 0x227"
definition BROWSER_FAVORITES :: nat where "BROWSER_FAVORITES = CONSUMER + 0x22A"

lemmas code_defs = CONSUMER_def TELEPHONY_def MUTE_def VOLUME_UP_def VOLUME_DOWN_def MIC_MUTE_def
  PLAY_PAUSE_def NEXT_TRACK_def PREVIOUS_TRACK_def STOP_def BRIGHTNESS_UP_def BRIGHTNESS_DOWN_def
  MAIL_def CALCULATOR_def EXPLORER_def BROWSER_def BROWSER_SEARCH_def BROWSER_HOME_def
  BROWSER_BACK_def BROWSER_FORWARD_def BROWSER_STOP_def BROWSER_REFRESH_def BROWSER_FAVORITES_def

definition ACTIONS :: "(string \<times> nat) list" where
  "ACTIONS =
    [(''mute'', MUTE), (''volume_up'', VOLUME_UP), (''volume_down'', VOLUME_DOWN),
     (''mic_mute'', MIC_MUTE), (''play_pause'', PLAY_PAUSE), (''next_track'', NEXT_TRACK),
     (''previous_track'', PREVIOUS_TRACK), (''stop'', STOP),
     (''brightness_up'', BRIGHTNESS_UP), (''brightness_down'', BRIGHTNESS_DOWN),
     (''mail'', MAIL), (''calculator'', CALCULATOR), (''explorer'', EXPLORER),
     (''browser'', BROWSER), (''browser_search'', BROWSER_SEARCH),
     (''browser_home'', BROWSER_HOME), (''browser_back'', BROWSER_BACK),
     (''browser_forward'', BROWSER_FORWARD), (''browser_stop'', BROWSER_STOP),
     (''browser_refresh'', BROWSER_REFRESH), (''browser_favorites'', BROWSER_FAVORITES)]"

definition from_name :: "string \<Rightarrow> nat option" where
  "from_name name = map_option snd (find (\<lambda>(n, _). n = name) ACTIONS)"

definition action_name :: "nat \<Rightarrow> string option" where
  "action_name hid = map_option fst (find (\<lambda>(_, h). h = hid) ACTIONS)"

lemma find_fst_map_of: "map_option snd (find (\<lambda>(n, _). n = k) xs) = map_of xs k"
  by (induction xs) auto

lemma find_snd_of_distinct:
  "distinct (map snd xs) \<Longrightarrow> (n, h) \<in> set xs \<Longrightarrow> map_option fst (find (\<lambda>(_, h'). h' = h) xs) = Some n"
  by (induction xs) force+

lemma ACTIONS_distinct: "distinct (map fst ACTIONS)" "distinct (map snd ACTIONS)"
  by (simp_all add: ACTIONS_def code_defs)

lemma ACTIONS_extra: "(n, h) \<in> set ACTIONS \<Longrightarrow> is_extra h \<and> h < 65536"
  by (auto simp: ACTIONS_def code_defs is_extra_def)

lemma from_name_iff: "from_name n = Some h \<longleftrightarrow> (n, h) \<in> set ACTIONS"
  using ACTIONS_distinct(1) by (simp add: from_name_def find_fst_map_of map_of_eq_Some_iff)

lemma from_name_extra: "from_name n = Some h \<Longrightarrow> is_extra h"
  using ACTIONS_extra by (auto simp: from_name_iff)

lemma action_name_iff: "action_name h = Some n \<longleftrightarrow> (n, h) \<in> set ACTIONS"
proof
  assume "(n, h) \<in> set ACTIONS"
  then show "action_name h = Some n"
    unfolding action_name_def by (rule find_snd_of_distinct [OF ACTIONS_distinct(2)])
next
  assume "action_name h = Some n"
  then show "(n, h) \<in> set ACTIONS"
    by (auto simp: action_name_def find_Some_iff) (metis nth_mem)
qed

section \<open>Numbers and key names\<close>

definition hex_digit :: "char \<Rightarrow> nat option" where
  "hex_digit c =
     (if 48 \<le> ord c \<and> ord c \<le> 57 then Some (ord c - 48)
      else if 97 \<le> ord c \<and> ord c \<le> 102 then Some (ord c - 87)
      else if 65 \<le> ord c \<and> ord c \<le> 70 then Some (ord c - 55)
      else None)"

fun read_hex :: "nat \<Rightarrow> string \<Rightarrow> nat option" where
  "read_hex acc [] = Some acc"
| "read_hex acc (c # cs) = (case hex_digit c of None \<Rightarrow> None | Some d \<Rightarrow> read_hex (acc * 16 + d) cs)"

text \<open>\<^verbatim>\<open>u32::from_str_radix(s, 16)\<close>: an optional plus sign, then at least one digit.\<close>

definition parse_hex32 :: "string \<Rightarrow> nat option" where
  "parse_hex32 s =
     (let ds = (case s of c # rest \<Rightarrow> if c = CHR ''+'' then rest else s | [] \<Rightarrow> [])
      in if ds = [] then None
         else case read_hex 0 ds of None \<Rightarrow> None | Some n \<Rightarrow> if n < 4294967296 then Some n else None)"

fun strip_prefix :: "string \<Rightarrow> string \<Rightarrow> string option" where
  "strip_prefix [] s = Some s"
| "strip_prefix (p # ps) [] = None"
| "strip_prefix (p # ps) (c # cs) = (if p = c then strip_prefix ps cs else None)"

definition number :: "string \<Rightarrow> nat option" where
  "number text =
     (let text = trim text
      in case (case strip_prefix ''0x'' text of Some h \<Rightarrow> Some h | None \<Rightarrow> strip_prefix ''0X'' text) of
           Some hex \<Rightarrow> parse_hex32 (filter (\<lambda>c. c \<noteq> CHR ''_'') hex)
         | None \<Rightarrow> parse_nat 4294967295 text)"

definition named_key :: "string \<Rightarrow> nat" where
  "named_key name =
     (if name = ''enter'' \<or> name = ''return'' then 0x28
      else if name = ''esc'' \<or> name = ''escape'' then 0x29
      else if name = ''backspace'' then 0x2A
      else if name = ''tab'' then 0x2B
      else if name = ''space'' then 0x2C
      else if name = ''printscreen'' \<or> name = ''prtsc'' then 0x46
      else if name = ''scrolllock'' then 0x47
      else if name = ''pause'' then 0x48
      else if name = ''insert'' \<or> name = ''ins'' then 0x49
      else if name = ''home'' then 0x4A
      else if name = ''pageup'' \<or> name = ''pgup'' then 0x4B
      else if name = ''delete'' \<or> name = ''del'' then 0x4C
      else if name = ''end'' then 0x4D
      else if name = ''pagedown'' \<or> name = ''pgdn'' then 0x4E
      else if name = ''right'' then 0x4F
      else if name = ''left'' then 0x50
      else if name = ''down'' then 0x51
      else if name = ''up'' then 0x52
      else 0)"

definition f_key :: "string \<Rightarrow> nat option" where
  "f_key digits =
     (case parse_nat 65535 digits of
        None \<Rightarrow> None
      | Some n \<Rightarrow> if 1 \<le> n \<and> n \<le> 12 then Some (0x3A + (n - 1))
                  else if 13 \<le> n \<and> n \<le> 24 then Some (0x68 + (n - 13))
                  else None)"

definition key_hid :: "string \<Rightarrow> nat option" where
  "key_hid name =
     (case strip_prefix ''hid:'' name of
        Some raw \<Rightarrow>
          (case number raw of None \<Rightarrow> None | Some n \<Rightarrow> if n \<le> 65535 \<and> n < 0x100 then Some n else None)
      | None \<Rightarrow>
          if named_key name \<noteq> 0 then Some (named_key name)
          else case name of
            [] \<Rightarrow> None
          | c # rest \<Rightarrow>
              if CHR ''a'' \<le> c \<and> c \<le> CHR ''z'' \<and> rest = [] then Some (0x04 + (ord c - 97))
              else if CHR ''1'' \<le> c \<and> c \<le> CHR ''9'' \<and> rest = [] then Some (0x1E + (ord c - 49))
              else if c = CHR ''0'' \<and> rest = [] then Some 0x27
              else if c = CHR ''f'' \<and> rest \<noteq> [] then f_key rest
              else None)"

lemma if_lessI: "a < c \<Longrightarrow> b < c \<Longrightarrow> (if P then a else b) < c"
  by simp

lemma named_key_bound: "named_key name < 0x100"
  unfolding named_key_def by (intro if_lessI) simp_all

lemma f_key_bound: "f_key d = Some h \<Longrightarrow> h < 0x100"
  by (auto simp: f_key_def split: option.splits if_splits)

lemma key_hid_bound: "key_hid name = Some h \<Longrightarrow> h < 0x100"
  using named_key_bound [of name]
  by (auto simp: key_hid_def less_eq_char_def split: option.splits list.splits if_splits dest: f_key_bound)

section \<open>Rules\<close>

record rule =
  ru_mods :: mod_mask
  ru_hid :: nat
  ru_action :: nat

definition rule_mods :: "mod_mask \<Rightarrow> mod_mask" where
  "rule_mods mods = mods AND (SHIFT OR CONTROL OR ALT OR SUPER OR ALT_GR)"

datatype rule_error = UnknownAction string | UnknownKey string | TwoKeys string | NoKey string

definition mod_word :: "string \<Rightarrow> mod_mask option" where
  "mod_word part =
     (if part = ''ctrl'' \<or> part = ''control'' then Some CONTROL
      else if part = ''alt'' then Some ALT
      else if part = ''altgr'' then Some ALT_GR
      else if part = ''shift'' then Some SHIFT
      else if part = ''win'' \<or> part = ''super'' \<or> part = ''meta'' \<or> part = ''cmd'' then Some SUPER
      else None)"

text \<open>The loop over the parts of the trigger: the modifiers and the key so far.\<close>

fun trigger_loop :: "string \<Rightarrow> mod_mask \<Rightarrow> nat option \<Rightarrow> string list \<Rightarrow> rule_error + (mod_mask \<times> nat option)" where
  "trigger_loop trigger mods key [] = Inr (mods, key)"
| "trigger_loop trigger mods key (part # parts) =
     (case mod_word part of
        Some bits \<Rightarrow> trigger_loop trigger (mods OR bits) key parts
      | None \<Rightarrow>
          (case key of
             None \<Rightarrow>
               (case key_hid part of
                  None \<Rightarrow> Inl (UnknownKey part)
                | Some h \<Rightarrow> trigger_loop trigger mods (Some h) parts)
           | Some _ \<Rightarrow> Inl (TwoKeys trigger)))"

definition rule_parse :: "string \<Rightarrow> string \<Rightarrow> rule_error + rule" where
  "rule_parse trigger action =
     (case from_name (trim action) of
        None \<Rightarrow> Inl (UnknownAction action)
      | Some action_hid \<Rightarrow>
          (case trigger_loop trigger mm_empty None
                  (map (\<lambda>p. to_ascii_lower (trim p)) (split_on CHR ''+'' trigger)) of
             Inl e \<Rightarrow> Inl e
           | Inr (mods, None) \<Rightarrow> Inl (NoKey trigger)
           | Inr (mods, Some hid) \<Rightarrow> Inr \<lparr>ru_mods = mods, ru_hid = hid, ru_action = action_hid\<rparr>))"

definition rule_matches :: "rule \<Rightarrow> nat \<Rightarrow> mod_mask \<Rightarrow> bool" where
  "rule_matches r hid mods \<longleftrightarrow> ru_hid r = hid \<and> rule_mods mods = ru_mods r"

text \<open>What a parsed rule always satisfies: it can match, and its action is no keyboard usage.\<close>

definition rule_ok :: "rule \<Rightarrow> bool" where
  "rule_ok r \<longleftrightarrow> rule_mods (ru_mods r) = ru_mods r \<and> ru_hid r < 0x100 \<and> is_extra (ru_action r)"

lemma rule_mods_or [simp]: "rule_mods (a OR b) = rule_mods a OR rule_mods b"
  by (rule bit_word_eqI) (auto simp: rule_mods_def bit_simps)

lemma mod_word_rule_mods: "mod_word part = Some b \<Longrightarrow> rule_mods b = b"
  by (auto simp: mod_word_def rule_mods_def mod_mask_defs split: if_splits)

lemma trigger_loop_ok:
  assumes "trigger_loop t mods key parts = Inr (mods', key')" and "rule_mods mods = mods"
    and "\<forall>h. key = Some h \<longrightarrow> h < 0x100"
  shows "rule_mods mods' = mods' \<and> (\<forall>h. key' = Some h \<longrightarrow> h < 0x100)"
  using assms
proof (induction t mods key parts rule: trigger_loop.induct)
  case (1 trigger mods key)
  then show ?case by auto
next
  case (2 trigger mods key part parts)
  show ?case
  proof (cases "mod_word part")
    case None
    with 2 show ?thesis by (auto split: option.splits dest: key_hid_bound)
  next
    case (Some b)
    with 2 show ?thesis by (simp add: mod_word_rule_mods)
  qed
qed

lemma rule_parse_ok: "rule_parse t a = Inr r \<Longrightarrow> rule_ok r"
proof -
  assume "rule_parse t a = Inr r"
  then obtain act mods hid where act: "from_name (trim a) = Some act"
    and lp: "trigger_loop t mm_empty None (map (\<lambda>p. to_ascii_lower (trim p)) (split_on CHR ''+'' t)) = Inr (mods, Some hid)"
    and r: "r = \<lparr>ru_mods = mods, ru_hid = hid, ru_action = act\<rparr>"
    by (auto simp: rule_parse_def split: option.splits sum.splits)
  have "rule_mods mm_empty = mm_empty" by (simp add: rule_mods_def mm_empty_def)
  from trigger_loop_ok [OF lp this] act show ?thesis
    by (auto simp: r rule_ok_def from_name_iff dest: ACTIONS_extra)
qed

lemma rule_ok_matches: "rule_ok r \<Longrightarrow> rule_matches r (ru_hid r) (ru_mods r OR CAPS_LOCK OR NUM_LOCK)"
  by (simp add: rule_ok_def rule_matches_def) (simp add: rule_mods_def mod_mask_defs)

section \<open>Perform overrides\<close>

datatype perform = Ignore | Keysym nat | VirtualKey nat | DoAction nat

datatype perform_error = NoColon string | NotANumber string | NotAVirtualKey string
  | UnknownPerformAction string | UnknownWay string

text \<open>\<^verbatim>\<open>split_once(c)\<close>: before and after the first \<open>c\<close>.\<close>

fun split_once :: "char \<Rightarrow> string \<Rightarrow> (string \<times> string) option" where
  "split_once c [] = None"
| "split_once c (x # xs) =
     (if x = c then Some ([], xs)
      else case split_once c xs of None \<Rightarrow> None | Some (a, b) \<Rightarrow> Some (x # a, b))"

definition perform_parse :: "string \<Rightarrow> perform_error + perform" where
  "perform_parse text =
     (let text = trim text
      in if eq_ignore_ascii_case text ''ignore'' then Inr Ignore
         else case split_once CHR '':'' text of
           None \<Rightarrow> Inl (NoColon text)
         | Some (kind, rest) \<Rightarrow>
             (let rest = trim rest; kind = to_ascii_lower (trim kind)
              in if kind = ''keysym'' then
                   (case number rest of None \<Rightarrow> Inl (NotANumber rest) | Some n \<Rightarrow> Inr (Keysym n))
                 else if kind = ''vk'' then
                   (case number rest of None \<Rightarrow> Inl (NotAVirtualKey rest)
                    | Some n \<Rightarrow> if 1 \<le> n \<and> n \<le> 0xFE then Inr (VirtualKey n) else Inl (NotAVirtualKey rest))
                 else if kind = ''action'' then
                   (case from_name rest of None \<Rightarrow> Inl (UnknownPerformAction rest) | Some h \<Rightarrow> Inr (DoAction h))
                 else Inl (UnknownWay kind)))"

lemma split_once_None: "c \<notin> set s \<Longrightarrow> split_once c s = None"
  by (induction s) auto

lemma split_once_here: "c \<notin> set a \<Longrightarrow> split_once c (a @ c # b) = Some (a, b)"
  by (induction a) auto

lemma split_once_Some: "split_once c s = Some (a, b) \<Longrightarrow> s = a @ c # b \<and> c \<notin> set a"
  by (induction s arbitrary: a b) (auto split: option.splits if_splits)

lemma perform_parse_ok:
  "perform_parse t = Inr p \<Longrightarrow>
     (case p of VirtualKey n \<Rightarrow> 1 \<le> n \<and> n \<le> 0xFE | DoAction h \<Rightarrow> is_extra h | _ \<Rightarrow> True)"
  by (auto simp: perform_parse_def Let_def split: if_splits option.splits) (erule from_name_extra)

end
