(* ===== verification/Framing.thy ===== *)
theory Framing
  imports Text
begin

text \<open>
  \<^verbatim>\<open>crates/geserdesk-proto/src/codec.rs\<close>: length-prefixed frames over an asynchronous stream. The
  serializer (postcard, a third-party crate) is a pair of parameters \<open>enc\<close> and \<open>dec\<close>. The stream
  under a \<^verbatim>\<open>MessageStream\<close> is the list of results its \<^verbatim>\<open>read_buf\<close> calls will give; when the list
  runs out the call is still waiting (\<open>Pending\<close>), and dropping it there is a cancelled \<^verbatim>\<open>recv\<close>.
\<close>

definition DEFAULT_MAX_FRAME :: nat where
  "DEFAULT_MAX_FRAME = 4 * 1024 * 1024"

datatype io_kind = UnexpectedEof | ConnectionReset | ConnectionAborted | BrokenPipe | OtherIo

datatype codec_error =
    Io io_kind
  | Closed
  | FrameTooLarge (tl_size: nat) (tl_max: nat)
  | EncodeError
  | DecodeError

record msg_stream =
  ms_max_frame :: nat
  ms_rbuf :: bytes

definition ms_new :: msg_stream where
  "ms_new = \<lparr>ms_max_frame = DEFAULT_MAX_FRAME, ms_rbuf = []\<rparr>"

definition with_max_frame :: "nat \<Rightarrow> msg_stream \<Rightarrow> msg_stream" where
  "with_max_frame n s = s\<lparr>ms_max_frame := n\<rparr>"

section \<open>Little-endian lengths\<close>

definition le32 :: "nat \<Rightarrow> bytes" where
  "le32 n = [byte (n mod 256), byte (n div 256 mod 256), byte (n div 65536 mod 256), byte (n div 16777216 mod 256)]"

fun le_value :: "bytes \<Rightarrow> nat" where
  "le_value [] = 0"
| "le_value (c # cs) = ord c + 256 * le_value cs"

lemma length_le32 [simp]: "length (le32 n) = 4"
  by (simp add: le32_def)

lemma le_bytes_value: "(n::nat) mod 256 + 256 * (n div 256 mod 256 + 256 * (n div 65536 mod 256 + 256 * (n div 16777216 mod 256)))
    = n mod 4294967296"
proof -
  have 1: "n mod 4294967296 = 256 * (n div 256 mod 16777216) + n mod 256"
    using mod_mult2_eq [of n 256 16777216] by simp
  have 2: "n div 256 mod 16777216 = 256 * (n div 65536 mod 65536) + n div 256 mod 256"
    using mod_mult2_eq [of "n div 256" 256 65536] by (simp add: div_mult2_eq [symmetric])
  have 3: "n div 65536 mod 65536 = 256 * (n div 16777216 mod 256) + n div 65536 mod 256"
    using mod_mult2_eq [of "n div 65536" 256 256] by (simp add: div_mult2_eq [symmetric])
  show ?thesis unfolding 1 2 3 by simp
qed

lemma le_value_le32: "le_value (le32 n) = n mod 4294967296"
  using le_bytes_value [of n] by (simp add: le32_def)

section \<open>Sending and receiving\<close>

text \<open>What \<^verbatim>\<open>send\<close> writes to the stream.\<close>

definition send :: "('m \<Rightarrow> bytes option) \<Rightarrow> msg_stream \<Rightarrow> 'm \<Rightarrow> codec_error + bytes" where
  "send enc s msg =
     (case enc msg of
        None \<Rightarrow> Inl EncodeError
      | Some payload \<Rightarrow>
          if length payload > ms_max_frame s
          then Inl (FrameTooLarge (length payload) (ms_max_frame s))
          else Inr (le32 (length payload) @ payload))"

datatype read_result = ReadBytes bytes | ReadEof | ReadError io_kind

datatype 'm recv_outcome = Received 'm | Failed codec_error | Pending

text \<open>The head of the loop: a verdict from the bytes already buffered, if they allow one.\<close>

definition try_frame :: "(bytes \<Rightarrow> 'm option) \<Rightarrow> msg_stream \<Rightarrow> (msg_stream \<times> 'm recv_outcome) option" where
  "try_frame dec s =
     (if length (ms_rbuf s) \<ge> 4 then
        (let len = le_value (take 4 (ms_rbuf s))
         in if len > ms_max_frame s then Some (s, Failed (FrameTooLarge len (ms_max_frame s)))
            else if length (ms_rbuf s) \<ge> 4 + len then
              Some (s\<lparr>ms_rbuf := drop (4 + len) (ms_rbuf s)\<rparr>,
                    case dec (take len (drop 4 (ms_rbuf s))) of
                      None \<Rightarrow> Failed DecodeError
                    | Some m \<Rightarrow> Received m)
            else None)
      else None)"

fun recv :: "(bytes \<Rightarrow> 'm option) \<Rightarrow> msg_stream \<Rightarrow> read_result list
    \<Rightarrow> msg_stream \<times> read_result list \<times> 'm recv_outcome" where
  "recv dec s inp =
     (case try_frame dec s of
        Some (s', r) \<Rightarrow> (s', inp, r)
      | None \<Rightarrow>
          (case inp of
             [] \<Rightarrow> (s, [], Pending)
           | ReadError k # inp' \<Rightarrow> (s, inp', Failed (Io k))
           | ReadEof # inp' \<Rightarrow>
               (s, inp', Failed (if ms_rbuf s = [] then Closed else Io UnexpectedEof))
           | ReadBytes bs # inp' \<Rightarrow>
               if bs = [] then (s, inp', Failed (if ms_rbuf s = [] then Closed else Io UnexpectedEof))
               else recv dec (s\<lparr>ms_rbuf := ms_rbuf s @ bs\<rparr>) inp'))"

declare recv.simps [simp del]

text \<open>Receiving until something other than a message comes, with fuel for the number of calls.\<close>

fun recv_all :: "nat \<Rightarrow> (bytes \<Rightarrow> 'm option) \<Rightarrow> msg_stream \<Rightarrow> read_result list
    \<Rightarrow> msg_stream \<times> 'm list \<times> 'm recv_outcome" where
  "recv_all 0 dec s inp = (s, [], Pending)"
| "recv_all (Suc fuel) dec s inp =
     (case recv dec s inp of
        (s', inp', Received m) \<Rightarrow>
          (let (s'', ms, r) = recv_all fuel dec s' inp' in (s'', m # ms, r))
      | (s', inp', r) \<Rightarrow> (s', [], r))"

section \<open>Correctness of the framing\<close>

definition frame :: "bytes \<Rightarrow> bytes" where
  "frame payload = le32 (length payload) @ payload"

lemma send_frame:
  "send enc s m = Inr out \<longleftrightarrow> (\<exists>p. enc m = Some p \<and> length p \<le> ms_max_frame s \<and> out = frame p)"
  by (auto simp: send_def frame_def split: option.splits)

lemma try_frame_complete:
  assumes "length p \<le> ms_max_frame s" "ms_max_frame s < 4294967296" "ms_rbuf s = frame p @ rest" "dec p = Some m"
  shows "try_frame dec s = Some (s\<lparr>ms_rbuf := rest\<rparr>, Received m)"
  using assms by (simp add: try_frame_def frame_def le_value_le32)

lemma try_frame_partial:
  assumes "length p \<le> ms_max_frame s" "ms_max_frame s < 4294967296"
    and "frame p = ms_rbuf s @ suffix" "suffix \<noteq> []"
  shows "try_frame dec s = None"
proof (cases "length (ms_rbuf s) \<ge> 4")
  case False
  then show ?thesis by (simp add: try_frame_def)
next
  case True
  from assms(3) have "take 4 (ms_rbuf s) = le32 (length p)"
    using True by (metis frame_def length_le32 append_eq_conv_conj take_append
        diff_is_0_eq take0 append_Nil2 le_refl)
  moreover have "length (ms_rbuf s) < 4 + length p"
    using arg_cong [OF assms(3), of length] assms(4) by (simp add: frame_def)
  ultimately show ?thesis
    using assms(1,2) by (simp add: try_frame_def le_value_le32)
qed

text \<open>One message through any segmentation of the bytes, with whatever follows it left over.\<close>

lemma recv_message:
  assumes "length p \<le> ms_max_frame s" "ms_max_frame s < 4294967296" "dec p = Some m"
    and "\<forall>c \<in> set cs. c \<noteq> []" "ms_rbuf s @ concat cs = frame p @ rest"
  shows "\<exists>s' cs'. recv dec s (map ReadBytes cs @ suffix) = (s', map ReadBytes cs' @ suffix, Received m)
    \<and> ms_rbuf s' @ concat cs' = rest \<and> ms_max_frame s' = ms_max_frame s \<and> (\<forall>c \<in> set cs'. c \<noteq> [])"
  using assms
proof (induction cs arbitrary: s)
  case Nil
  then have "ms_rbuf s = frame p @ rest" by simp
  from try_frame_complete [where dec = dec and m = m, OF Nil.prems(1,2) this Nil.prems(3)] show ?case
    by (intro exI [of _ "s\<lparr>ms_rbuf := rest\<rparr>"] exI [of _ "[]"]) (simp add: recv.simps)
next
  case (Cons c cs)
  show ?case
  proof (cases "\<exists>r. ms_rbuf s = frame p @ r")
    case True
    then obtain r where r: "ms_rbuf s = frame p @ r" by blast
    from try_frame_complete [where dec = dec and m = m, OF Cons.prems(1,2) r Cons.prems(3)] Cons.prems r show ?thesis
      by (intro exI [of _ "s\<lparr>ms_rbuf := r\<rparr>"] exI [of _ "c # cs"]) (simp add: recv.simps)
  next
    case False
    then obtain m' where "frame p = ms_rbuf s @ m'" "m' \<noteq> []"
      using Cons.prems(5) by (metis append_eq_append_conv2 append_Nil2)
    then have none: "try_frame dec s = None"
      using try_frame_partial Cons.prems(1,2) by blast
    let ?s = "s\<lparr>ms_rbuf := ms_rbuf s @ c\<rparr>"
    have "recv dec s (map ReadBytes (c # cs) @ suffix) = recv dec ?s (map ReadBytes cs @ suffix)"
      using Cons.prems(4) by (subst recv.simps) (simp add: none)
    moreover have "\<exists>s' cs'. recv dec ?s (map ReadBytes cs @ suffix) = (s', map ReadBytes cs' @ suffix, Received m)
        \<and> ms_rbuf s' @ concat cs' = rest \<and> ms_max_frame s' = ms_max_frame ?s \<and> (\<forall>c \<in> set cs'. c \<noteq> [])"
      by (rule Cons.IH) (use Cons.prems in auto)
    ultimately show ?thesis by simp
  qed
qed

text \<open>At the end of the input: a clean close only with nothing buffered.\<close>

lemma try_frame_empty: "ms_rbuf s = [] \<Longrightarrow> try_frame dec s = None"
  by (simp add: try_frame_def)

lemma recv_closed:
  assumes "ms_rbuf s @ concat cs = []" "\<forall>c \<in> set cs. c \<noteq> []"
  shows "recv dec s (map ReadBytes cs @ [ReadEof]) = (s, [], Failed Closed)"
proof -
  have "cs = []" using assms by (cases cs) auto
  then show ?thesis using assms by (simp add: recv.simps try_frame_empty)
qed

lemma recv_all_frames:
  assumes "\<forall>m \<in> set msgs. \<exists>p. enc m = Some p \<and> dec p = Some m \<and> length p \<le> ms_max_frame s"
    and "ms_max_frame s < 4294967296" and "\<forall>c \<in> set cs. c \<noteq> []"
    and "ms_rbuf s @ concat cs = concat (map (\<lambda>m. frame (the (enc m))) msgs)"
    and "length msgs < fuel"
  shows "\<exists>s'. recv_all fuel dec s (map ReadBytes cs @ [ReadEof]) = (s', msgs, Failed Closed)"
  using assms
proof (induction msgs arbitrary: s cs fuel)
  case Nil
  then obtain f where "fuel = Suc f" by (cases fuel) auto
  then show ?case using recv_closed [of s cs dec] Nil by simp
next
  case (Cons m msgs)
  then obtain f where f: "fuel = Suc f" by (cases fuel) auto
  obtain p where p: "enc m = Some p" "dec p = Some m" "length p \<le> ms_max_frame s"
    using Cons.prems(1) by auto
  let ?rest = "concat (map (\<lambda>m. frame (the (enc m))) msgs)"
  have "ms_rbuf s @ concat cs = frame p @ ?rest" using Cons.prems(4) p by simp
  from recv_message [where suffix = "[ReadEof]" and rest = ?rest and dec = dec and m = m, OF p(3) Cons.prems(2) p(2) Cons.prems(3) this]
  obtain s' cs' where r: "recv dec s (map ReadBytes cs @ [ReadEof]) = (s', map ReadBytes cs' @ [ReadEof], Received m)"
    and inv: "ms_rbuf s' @ concat cs' = ?rest" "ms_max_frame s' = ms_max_frame s" "\<forall>c \<in> set cs'. c \<noteq> []"
    by blast
  have "\<exists>s''. recv_all f dec s' (map ReadBytes cs' @ [ReadEof]) = (s'', msgs, Failed Closed)"
    by (rule Cons.IH) (use Cons.prems inv f in auto)
  then show ?case by (auto simp: f r)
qed

lemma try_frame_not_pending [simp]: "try_frame dec s \<noteq> Some (s', Pending)"
  by (auto simp: try_frame_def Let_def split: option.splits)

text \<open>Dropping a waiting call loses nothing: the next call goes on from the buffer.\<close>

lemma recv_resume:
  "recv dec s inp1 = (s', rest, Pending) \<Longrightarrow> recv dec s (inp1 @ inp2) = recv dec s' inp2 \<and> rest = []"
proof (induction inp1 arbitrary: s)
  case Nil
  then show ?case by (auto simp: recv.simps [of dec s "[]"] split: option.splits)
next
  case (Cons i inp1)
  show ?case
  proof (cases "try_frame dec s")
    case None
    show ?thesis
    proof (cases i)
      case (ReadBytes bs)
      with None Cons.prems have "bs \<noteq> []"
        by (auto simp: recv.simps [of dec s "ReadBytes bs # inp1"])
      with None ReadBytes Cons.prems
      have "recv dec (s\<lparr>ms_rbuf := ms_rbuf s @ bs\<rparr>) inp1 = (s', rest, Pending)"
        by (simp add: recv.simps [of dec s "ReadBytes bs # inp1"])
      from Cons.IH [OF this] None ReadBytes \<open>bs \<noteq> []\<close> show ?thesis
        by (simp add: recv.simps [of dec s "ReadBytes bs # inp1 @ inp2"])
    qed (use None Cons.prems in \<open>simp_all add: recv.simps [of dec s "_ # inp1"]\<close>)
  next
    case (Some a)
    then show ?thesis using Cons.prems
      by (auto simp: recv.simps [of dec s "i # inp1"] split: prod.splits)
  qed
qed

text \<open>An oversized declaration is refused from its four bytes alone.\<close>

lemma recv_too_large:
  assumes "4 \<le> length (ms_rbuf s)" "le_value (take 4 (ms_rbuf s)) > ms_max_frame s"
  shows "recv dec s inp = (s, inp, Failed (FrameTooLarge (le_value (take 4 (ms_rbuf s))) (ms_max_frame s)))"
  using assms by (simp add: recv.simps try_frame_def Let_def)

text \<open>The buffer never grows past one frame plus one read.\<close>

lemma recv_waits_small:
  assumes "try_frame dec s = None"
  shows "length (ms_rbuf s) < 4 + ms_max_frame s"
  using assms by (auto simp: try_frame_def Let_def split: if_splits)

end
