(* ===== verification/Chunks.thy ===== *)
theory Chunks
  imports Wire
begin

text \<open>
  \<^verbatim>\<open>crates/geserdesk-proto/src/clipboard.rs\<close>: what a clipboard holds, the chunk stream that carries
  it and the assembler that reads it back. The byte encodings of \<^verbatim>\<open>ClipboardContent\<close> and
  \<^verbatim>\<open>FileManifest\<close> are postcard's (a third-party crate) and enter as the record \<open>postcard\<close>.
\<close>

section \<open>Clipboard contents\<close>

definition CHUNK_SIZE :: nat where
  "CHUNK_SIZE = 32 * 1024"

definition MIME_TEXT :: string where "MIME_TEXT = ''text/plain''"
definition MIME_HTML :: string where "MIME_HTML = ''text/html''"
definition MIME_IMAGE :: string where "MIME_IMAGE = ''image/png''"
definition MIME_FILES :: string where "MIME_FILES = ''application/x-geserdesk-files''"

lemma mime_distinct [simp]:
  "MIME_TEXT \<noteq> MIME_HTML" "MIME_HTML \<noteq> MIME_TEXT" "MIME_TEXT \<noteq> MIME_IMAGE" "MIME_IMAGE \<noteq> MIME_TEXT"
  "MIME_TEXT \<noteq> MIME_FILES" "MIME_FILES \<noteq> MIME_TEXT" "MIME_HTML \<noteq> MIME_IMAGE" "MIME_IMAGE \<noteq> MIME_HTML"
  "MIME_HTML \<noteq> MIME_FILES" "MIME_FILES \<noteq> MIME_HTML" "MIME_IMAGE \<noteq> MIME_FILES" "MIME_FILES \<noteq> MIME_IMAGE"
  by (simp_all add: MIME_TEXT_def MIME_HTML_def MIME_IMAGE_def MIME_FILES_def)

record clip_item =
  ci_mime :: string
  ci_data :: bytes

record content =
  cc_items :: "clip_item list"

record postcard =
  pc_enc_content :: "content \<Rightarrow> bytes"
  pc_dec_content :: "bytes \<Rightarrow> content option"
  pc_enc_manifest :: "file_manifest \<Rightarrow> bytes"
  pc_dec_manifest :: "bytes \<Rightarrow> file_manifest option"

text \<open>The documented law of the crate: decoding what was encoded gives it back.\<close>

definition postcard_ok :: "postcard \<Rightarrow> bool" where
  "postcard_ok pc \<longleftrightarrow> (\<forall>c. pc_dec_content pc (pc_enc_content pc c) = Some c)
     \<and> (\<forall>m. pc_dec_manifest pc (pc_enc_manifest pc m) = Some m)"

definition item_of :: "string \<Rightarrow> string option \<Rightarrow> clip_item list" where
  "item_of mime s =
     (case s of None \<Rightarrow> []
      | Some s \<Rightarrow> if s = [] then [] else [\<lparr>ci_mime = mime, ci_data = s\<rparr>])"

definition cc_new :: "string option \<Rightarrow> string option \<Rightarrow> content" where
  "cc_new txt html = \<lparr>cc_items = item_of MIME_TEXT txt @ item_of MIME_HTML html\<rparr>"

definition cc_find :: "content \<Rightarrow> string \<Rightarrow> clip_item option" where
  "cc_find c mime = find (\<lambda>i. ci_mime i = mime) (cc_items c)"

definition cc_string :: "content \<Rightarrow> string \<Rightarrow> string option" where
  "cc_string c mime =
     (case cc_find c mime of None \<Rightarrow> None
      | Some i \<Rightarrow> if utf8_valid (ci_data i) then Some (ci_data i) else None)"

definition cc_text :: "content \<Rightarrow> string option" where
  "cc_text c = cc_string c MIME_TEXT"

definition cc_html :: "content \<Rightarrow> string option" where
  "cc_html c = cc_string c MIME_HTML"

definition cc_image :: "content \<Rightarrow> bytes option" where
  "cc_image c = map_option ci_data (cc_find c MIME_IMAGE)"

definition cc_with_image :: "content \<Rightarrow> bytes \<Rightarrow> content" where
  "cc_with_image c png =
     (let kept = filter (\<lambda>i. ci_mime i \<noteq> MIME_IMAGE) (cc_items c)
      in \<lparr>cc_items = (if png \<noteq> [] then kept @ [\<lparr>ci_mime = MIME_IMAGE, ci_data = png\<rparr>] else kept)\<rparr>)"

definition cc_without_html :: "content \<Rightarrow> content" where
  "cc_without_html c = \<lparr>cc_items = filter (\<lambda>i. ci_mime i \<noteq> MIME_HTML) (cc_items c)\<rparr>"

definition cc_files :: "postcard \<Rightarrow> content \<Rightarrow> file_manifest option" where
  "cc_files pc c =
     (case cc_find c MIME_FILES of None \<Rightarrow> None | Some i \<Rightarrow> pc_dec_manifest pc (ci_data i))"

definition cc_default :: content where
  "cc_default = \<lparr>cc_items = []\<rparr>"

definition cc_with_files :: "postcard \<Rightarrow> file_manifest \<Rightarrow> content" where
  "cc_with_files pc m =
     (if fm_entries m = [] then cc_default
      else \<lparr>cc_items = [\<lparr>ci_mime = MIME_FILES, ci_data = pc_enc_manifest pc m\<rparr>]\<rparr>)"

definition cc_is_empty :: "postcard \<Rightarrow> content \<Rightarrow> bool" where
  "cc_is_empty pc c \<longleftrightarrow> cc_text c = None \<and> cc_html c = None \<and> cc_image c = None \<and> cc_files pc c = None"

definition cc_data_len :: "content \<Rightarrow> nat" where
  "cc_data_len c = sum_list (map (\<lambda>i. length (ci_data i)) (cc_items c))"

definition cc_text_only :: "content \<Rightarrow> content" where
  "cc_text_only c = cc_new (cc_text c) None"

text \<open>\<^verbatim>\<open>total_bytes\<close> sums \<^verbatim>\<open>u64\<close> sizes; the sum wraps in the release build.\<close>

definition total_bytes :: "file_manifest \<Rightarrow> nat" where
  "total_bytes m = fold (\<lambda>e acc. u64 (acc + fe_size e)) (filter (\<lambda>e. \<not> fe_dir e) (fm_entries m)) 0"

lemma cc_text_new [simp]:
  "utf8_valid t \<Longrightarrow> t \<noteq> [] \<Longrightarrow> cc_text (cc_new (Some t) h) = Some t"
  by (simp add: cc_text_def cc_string_def cc_find_def cc_new_def item_of_def)

lemma cc_text_only_items: "set (cc_items (cc_text_only c)) \<subseteq> set (cc_items c)"
  by (auto simp: cc_text_only_def cc_new_def item_of_def cc_text_def cc_string_def cc_find_def find_Some_iff
      split: option.splits if_splits) (metis clip_item.surjective nth_mem old.unit.exhaust)

lemma cc_files_with_files:
  assumes "postcard_ok pc" "fm_entries m \<noteq> []"
  shows "cc_files pc (cc_with_files pc m) = Some m" "cc_text (cc_with_files pc m) = None"
    "cc_html (cc_with_files pc m) = None" "cc_image (cc_with_files pc m) = None"
  using assms by (auto simp: cc_files_def cc_with_files_def cc_find_def postcard_ok_def cc_text_def
      cc_html_def cc_image_def cc_string_def)

lemma total_bytes_fold: "fold (\<lambda>e acc. u64 (acc + f e)) es a = u64 (a + sum_list (map f es)) \<or> es = []"
proof (induction es arbitrary: a)
  case Nil
  then show ?case by simp
next
  case (Cons e es)
  from Cons.IH [of "u64 (a + f e)"] show ?case
    by (auto simp: u64_def mod_add_left_eq add.assoc)
qed

lemma total_bytes_eq:
  "total_bytes m = u64 (sum_list (map fe_size (filter (\<lambda>e. \<not> fe_dir e) (fm_entries m))))"
  using total_bytes_fold [of fe_size "filter (\<lambda>e. \<not> fe_dir e) (fm_entries m)" 0]
  by (auto simp: total_bytes_def u64_def)

section \<open>Chunk streams\<close>

text \<open>\<^verbatim>\<open>slice::chunks(n)\<close> with \<open>0 < n\<close>.\<close>

function slice_chunks :: "nat \<Rightarrow> 'a list \<Rightarrow> 'a list list" where
  "slice_chunks n xs = (if xs = [] \<or> n = 0 then [] else take n xs # slice_chunks n (drop n xs))"
  by pat_completeness auto
termination
  by (relation "measure (\<lambda>(n, xs). length xs)") auto

declare slice_chunks.simps [simp del]

definition chunk_stream :: "bytes \<Rightarrow> chunk list" where
  "chunk_stream bs = [Start (length bs)] @ map Data (slice_chunks CHUNK_SIZE bs) @ [End]"

lemma concat_slice_chunks: "0 < n \<Longrightarrow> concat (slice_chunks n xs) = xs"
proof (induction n xs rule: slice_chunks.induct)
  case (1 n xs)
  then show ?case by (subst slice_chunks.simps) auto
qed

lemma slice_chunks_sizes: "c \<in> set (slice_chunks n xs) \<Longrightarrow> c \<noteq> [] \<and> length c \<le> n"
proof (induction n xs rule: slice_chunks.induct)
  case (1 n xs)
  show ?case
  proof (cases "xs = [] \<or> n = 0")
    case True
    then show ?thesis using "1.prems" by (simp add: slice_chunks.simps [of n xs])
  next
    case False
    then show ?thesis using 1 by (auto simp: slice_chunks.simps [of n xs])
  qed
qed

section \<open>The assembler\<close>

record assembler =
  as_started :: bool
  as_finished :: bool
  as_expected :: nat
  as_limit :: nat
  as_buf :: bytes
  as_reserved :: nat \<comment> \<open>the most one \<^verbatim>\<open>reserve\<close> call asked for\<close>

definition MAX_PREALLOCATE :: nat where
  "MAX_PREALLOCATE = 1024 * 1024"

datatype chunk_error =
    NotStarted
  | DoubleStart
  | AfterEnd
  | LengthMismatch (lm_expected: nat) (lm_actual: nat)
  | TooLarge (too_large_limit: nat)

definition as_new :: assembler where
  "as_new = \<lparr>as_started = False, as_finished = False, as_expected = 0, as_limit = 0, as_buf = [], as_reserved = 0\<rparr>"

definition as_with_limit :: "nat \<Rightarrow> assembler" where
  "as_with_limit limit = as_new\<lparr>as_limit := limit\<rparr>"

fun as_push :: "assembler \<Rightarrow> chunk \<Rightarrow> assembler \<times> (chunk_error + bytes option)" where
  "as_push a (Start tot) =
     (if as_finished a then (a, Inl AfterEnd)
      else if as_started a then (a, Inl DoubleStart)
      else if as_limit a > 0 \<and> tot > as_limit a then (a, Inl (TooLarge (as_limit a)))
      else (a\<lparr>as_started := True, as_expected := tot,
              as_reserved := max (as_reserved a) (min tot MAX_PREALLOCATE)\<rparr>, Inr None))"
| "as_push a (Data d) =
     (if as_finished a then (a, Inl AfterEnd)
      else if \<not> as_started a then (a, Inl NotStarted)
      else if as_limit a > 0 \<and> length (as_buf a) + length d > as_limit a
        then (a, Inl (TooLarge (as_limit a)))
      else (a\<lparr>as_buf := as_buf a @ d\<rparr>, Inr None))"
| "as_push a End =
     (if as_finished a then (a, Inl AfterEnd)
      else if \<not> as_started a then (a, Inl NotStarted)
      else if as_expected a \<noteq> 0 \<and> as_expected a \<noteq> length (as_buf a)
        then (a, Inl (LengthMismatch (as_expected a) (length (as_buf a))))
      else (a\<lparr>as_finished := True, as_buf := []\<rparr>, Inr (Some (as_buf a))))"

text \<open>Feeding a list of chunks, stopping at the first error or completed stream.\<close>

fun as_feed :: "assembler \<Rightarrow> chunk list \<Rightarrow> assembler \<times> (chunk_error + bytes option)" where
  "as_feed a [] = (a, Inr None)"
| "as_feed a (c # cs) =
     (case as_push a c of
        (a', Inr None) \<Rightarrow> as_feed a' cs
      | r \<Rightarrow> r)"

text \<open>What every reachable assembler satisfies: its buffer and reservation stay within bounds.\<close>

definition as_inv :: "assembler \<Rightarrow> bool" where
  "as_inv a \<longleftrightarrow> (as_limit a > 0 \<longrightarrow> length (as_buf a) \<le> as_limit a)
     \<and> as_reserved a \<le> MAX_PREALLOCATE \<and> (\<not> as_started a \<longrightarrow> as_buf a = [])
     \<and> (as_finished a \<longrightarrow> as_started a \<and> as_buf a = [])"

lemma as_inv_new: "as_inv (as_with_limit n)"
  by (simp add: as_inv_def as_with_limit_def as_new_def)

lemma as_push_inv: "as_inv a \<Longrightarrow> as_inv (fst (as_push a c))"
  by (cases c) (auto simp: as_inv_def)

lemma as_push_limit: "as_limit (fst (as_push a c)) = as_limit a"
  by (cases c) auto

lemma as_push_done: "as_inv a \<Longrightarrow> as_push a c = (a', Inr (Some bs)) \<Longrightarrow>
    bs = as_buf a \<and> (as_limit a > 0 \<longrightarrow> length bs \<le> as_limit a) \<and> as_finished a'"
  by (cases c) (auto simp: as_inv_def split: if_splits)

lemma as_push_error_keeps: "as_push a c = (a', Inl e) \<Longrightarrow> a' = a"
  by (cases c) (auto split: if_splits)

lemma as_feed_data:
  assumes "as_started a" "\<not> as_finished a"
    and "as_limit a = 0 \<or> length (as_buf a) + length (concat ds) \<le> as_limit a"
  shows "as_feed a (map Data ds @ cs) = as_feed (a\<lparr>as_buf := as_buf a @ concat ds\<rparr>) cs"
  using assms
proof (induction ds arbitrary: a)
  case Nil
  then show ?case by simp
next
  case (Cons d ds)
  have *: "as_push a (Data d) = (a\<lparr>as_buf := as_buf a @ d\<rparr>, Inr None)"
    using Cons.prems by auto
  have "as_feed a (map Data (d # ds) @ cs) = as_feed (a\<lparr>as_buf := as_buf a @ d\<rparr>) (map Data ds @ cs)"
    by (simp only: list.map append_Cons as_feed.simps * prod.case sum.case option.case)
  also have "\<dots> = as_feed (a\<lparr>as_buf := as_buf a @ d, as_buf := as_buf (a\<lparr>as_buf := as_buf a @ d\<rparr>) @ concat ds\<rparr>) cs"
    using Cons.prems by (intro Cons.IH) auto
  finally show ?case by simp
qed

lemma as_feed_stream:
  assumes "limit = 0 \<or> length bs \<le> limit"
  shows "snd (as_feed (as_with_limit limit) (chunk_stream bs)) = Inr (Some bs)"
proof -
  let ?a = "(as_with_limit limit)\<lparr>as_started := True, as_expected := length bs,
      as_reserved := min (length bs) MAX_PREALLOCATE\<rparr>"
  have "as_feed (as_with_limit limit) (chunk_stream bs) = as_feed ?a (map Data (slice_chunks CHUNK_SIZE bs) @ [End])"
    using assms by (auto simp: chunk_stream_def as_with_limit_def as_new_def)
  also have "\<dots> = as_feed (?a\<lparr>as_buf := bs\<rparr>) [End]"
    using assms by (subst as_feed_data) (auto simp: as_with_limit_def as_new_def concat_slice_chunks CHUNK_SIZE_def)
  finally show ?thesis by (simp add: as_with_limit_def as_new_def)
qed

text \<open>
  The other direction: whatever a peer sends, a completed transfer is the concatenation of the
  \<^verbatim>\<open>Data\<close> chunks between one \<^verbatim>\<open>Start\<close> and the final \<^verbatim>\<open>End\<close>.
\<close>

lemma as_feed_started:
  assumes "as_started a" "\<not> as_finished a" "as_feed a cs = (a', Inr (Some bs))"
  shows "\<exists>ds rest. cs = map Data ds @ End # rest \<and> bs = as_buf a @ concat ds
    \<and> (as_expected a = 0 \<or> as_expected a = length bs)"
  using assms
proof (induction cs arbitrary: a)
  case Nil
  then show ?case by simp
next
  case (Cons c cs)
  show ?case
  proof (cases c)
    case (Start n)
    then show ?thesis using Cons.prems by simp
  next
    case (Data d)
    then have "as_feed (a\<lparr>as_buf := as_buf a @ d\<rparr>) cs = (a', Inr (Some bs))"
      using Cons.prems by (auto split: if_splits)
    from Cons.IH [OF _ _ this] Cons.prems obtain ds rest where
      "cs = map Data ds @ End # rest" "bs = (as_buf a @ d) @ concat ds" "as_expected a = 0 \<or> as_expected a = length bs"
      by auto
    then show ?thesis using Data by (intro exI [of _ "d # ds"] exI [of _ rest]) simp
  next
    case End
    then show ?thesis using Cons.prems
      by (intro exI [of _ "[]"] exI [of _ cs]) (auto split: if_splits)
  qed
qed

lemma as_feed_grammar:
  assumes "as_feed (as_with_limit limit) cs = (a', Inr (Some bs))"
  shows "\<exists>n ds rest. cs = Start n # map Data ds @ End # rest \<and> bs = concat ds
    \<and> (n = 0 \<or> n = length bs)"
proof (cases cs)
  case Nil
  then show ?thesis using assms by simp
next
  case (Cons c cs')
  show ?thesis
  proof (cases c)
    case (Start n)
    let ?a = "(as_with_limit limit)\<lparr>as_started := True, as_expected := n, as_reserved := min n MAX_PREALLOCATE\<rparr>"
    have "as_feed ?a cs' = (a', Inr (Some bs))"
      using assms Cons Start by (auto simp: as_with_limit_def as_new_def split: if_splits)
    from as_feed_started [OF _ _ this] show ?thesis
      using Cons Start by (auto simp: as_with_limit_def as_new_def)
  qed (use assms Cons in \<open>simp_all add: as_with_limit_def as_new_def\<close>)
qed

end
