(* ===== verification/Layout.thy ===== *)
theory Layout
  imports Geometry Text
begin

text \<open>
  \<^verbatim>\<open>crates/geserdesk-server/src/layout.rs\<close>: which screens exist, which edge leads where, and the
  policy that decides whether a cursor resting at an edge switches screens (dwell, double tap,
  corners, Scroll Lock). Times are the caller's monotonic milliseconds.
\<close>

section \<open>The arrangement of screens\<close>

record layout =
  la_screens :: "string list"
  la_links :: "(string, (edge, string) bmap) bmap"

text \<open>\<^verbatim>\<open>name.len()\<close> counts bytes; the other tests look at characters.\<close>

definition valid_screen_name :: "string \<Rightarrow> bool" where
  "valid_screen_name name \<longleftrightarrow>
     name \<noteq> [] \<and> length name \<le> 64 \<and> trim name = name \<and> \<not> (\<exists>c \<in> set (chars name). is_control c)"

record link_error =
  le_from :: string
  le_to :: string
  le_undefined :: string

definition la_new :: "string list \<Rightarrow> layout" where
  "la_new screens = \<lparr>la_screens = screens, la_links = []\<rparr>"

definition has_screen :: "layout \<Rightarrow> string \<Rightarrow> bool" where
  "has_screen l name \<longleftrightarrow> name \<in> set (la_screens l)"

definition add_screen :: "layout \<Rightarrow> string \<Rightarrow> layout \<times> bool" where
  "add_screen l name =
     (if has_screen l name then (l, False)
      else (l\<lparr>la_screens := la_screens l @ [name]\<rparr>, True))"

text \<open>The names are checked in order, so the first undefined one is reported.\<close>

definition la_link :: "layout \<Rightarrow> string \<Rightarrow> edge \<Rightarrow> string \<Rightarrow> link_error + layout" where
  "la_link l from e dest =
     (if \<not> has_screen l from then Inl \<lparr>le_from = from, le_to = dest, le_undefined = from\<rparr>
      else if \<not> has_screen l dest then Inl \<lparr>le_from = from, le_to = dest, le_undefined = dest\<rparr>
      else let m = (case bm_get (la_links l) from of Some m \<Rightarrow> m | None \<Rightarrow> [])
           in Inr (l\<lparr>la_links := bm_insert from (bm_insert e dest m) (la_links l)\<rparr>))"

definition neighbor :: "layout \<Rightarrow> string \<Rightarrow> edge \<Rightarrow> string option" where
  "neighbor l from e = do { m \<leftarrow> bm_get (la_links l) from; bm_get m e }"

definition active_edges :: "layout \<Rightarrow> string \<Rightarrow> edge_set" where
  "active_edges l from =
     (case bm_get (la_links l) from of None \<Rightarrow> es_empty | Some m \<Rightarrow> es_of_list (bm_keys m))"

text \<open>Every link joins screens of the layout.\<close>

definition la_ok :: "layout \<Rightarrow> bool" where
  "la_ok l \<longleftrightarrow> bm_ok (la_links l) \<and> (\<forall>(from, m) \<in> set (la_links l).
     has_screen l from \<and> bm_ok m \<and> (\<forall>(e, dest) \<in> set m. has_screen l dest))"

lemma la_ok_new [simp]: "la_ok (la_new ss)"
  by (simp add: la_ok_def la_new_def)

lemma has_screen_add [simp]: "has_screen (fst (add_screen l n)) m \<longleftrightarrow> m = n \<or> has_screen l m"
  by (auto simp: add_screen_def has_screen_def)

lemma add_screen_links [simp]: "la_links (fst (add_screen l n)) = la_links l"
  by (simp add: add_screen_def)

lemma la_ok_add: "la_ok l \<Longrightarrow> la_ok (fst (add_screen l n))"
  by (fastforce simp: la_ok_def)

lemma add_screen_idem: "fst (add_screen (fst (add_screen l n)) n) = fst (add_screen l n)"
  by (simp add: add_screen_def has_screen_def)

lemma neighbor_add [simp]: "neighbor (fst (add_screen l n)) f e = neighbor l f e"
  by (simp add: neighbor_def)

lemma set_bm_insertD: "x \<in> set (bm_insert k v m) \<Longrightarrow> x = (k, v) \<or> x \<in> set m"
  by (induction k v m rule: bm_insert.induct) (auto split: if_splits)

lemma la_link_screens: "la_link l f e d = Inr l' \<Longrightarrow> la_screens l' = la_screens l"
  by (auto simp: la_link_def Let_def split: if_splits)

lemma la_ok_link:
  assumes ok: "la_ok l" and l': "la_link l f e d = Inr l'"
  shows "la_ok l'"
proof -
  define m where "m = (case bm_get (la_links l) f of Some m \<Rightarrow> m | None \<Rightarrow> [])"
  have scr: "has_screen l f" "has_screen l d"
    and l'_eq: "l' = l\<lparr>la_links := bm_insert f (bm_insert e d m) (la_links l)\<rparr>"
    using l' by (auto simp: la_link_def m_def Let_def split: if_splits)
  have hs: "has_screen l' n = has_screen l n" for n by (simp add: l'_eq has_screen_def)
  have m_ok: "bm_ok m" "\<forall>(e, dest) \<in> set m. has_screen l dest"
  proof -
    have "bm_ok m \<and> (\<forall>(e, dest) \<in> set m. has_screen l dest)"
    proof (cases "bm_get (la_links l) f")
      case (Some m')
      then show ?thesis using ok bm_getD [OF Some] by (auto simp: la_ok_def m_def)
    qed (simp add: m_def)
    then show "bm_ok m" "\<forall>(e, dest) \<in> set m. has_screen l dest" by auto
  qed
  have "\<forall>(e', dest) \<in> set (bm_insert e d m). has_screen l dest"
    using m_ok(2) scr by (fastforce dest: set_bm_insertD)
  then show ?thesis
    using ok m_ok scr unfolding la_ok_def hs by (fastforce simp: l'_eq dest!: set_bm_insertD)
qed

lemma neighbor_link:
  assumes "la_link l f e d = Inr l'"
  shows "neighbor l' f' e' = (if f' = f \<and> e' = e then Some d else neighbor l f' e')"
  using assms
  by (cases "bm_get (la_links l) f") (auto simp: la_link_def neighbor_def Let_def split: if_splits)

lemma la_link_error_iff:
  "(\<exists>er. la_link l f e d = Inl er) \<longleftrightarrow> \<not> (has_screen l f \<and> has_screen l d)"
  by (auto simp: la_link_def Let_def)

lemma active_edges_iff: "es_contains (active_edges l f) e \<longleftrightarrow> neighbor l f e \<noteq> None"
proof (cases "bm_get (la_links l) f")
  case (Some m)
  have "bm_get m e \<noteq> None \<longleftrightarrow> e \<in> set (map fst m)"
    by (simp only: map_of_eq_None_iff set_map) simp
  then show ?thesis by (simp add: active_edges_def neighbor_def es_contains_of_list bm_keys_def Some)
qed (simp add: active_edges_def neighbor_def)

section \<open>The switch policy\<close>

record switch_policy =
  sp_delay_ms :: nat
  sp_double_tap_ms :: nat
  sp_corner_size :: int
  sp_jump_zone :: int
  sp_scroll_lock_locks :: bool

definition sp_default :: switch_policy where
  "sp_default = \<lparr>sp_delay_ms = 0, sp_double_tap_ms = 0, sp_corner_size = 0, sp_jump_zone = 1,
     sp_scroll_lock_locks = True\<rparr>"

datatype decision = Switch | Wait | Blocked

record switch_state =
  ss_locked :: bool
  ss_dwell :: "(edge \<times> nat) option"
  ss_last_tap :: "(edge \<times> nat) option"

definition ss_new :: switch_state where
  "ss_new = \<lparr>ss_locked = False, ss_dwell = None, ss_last_tap = None\<rparr>"

definition toggle_lock :: "switch_state \<Rightarrow> switch_state" where
  "toggle_lock s = s\<lparr>ss_locked := \<not> ss_locked s, ss_dwell := None\<rparr>"

definition set_locked :: "switch_state \<Rightarrow> bool \<Rightarrow> switch_state" where
  "set_locked s locked =
     (let s = s\<lparr>ss_locked := locked\<rparr> in if locked then s\<lparr>ss_dwell := None\<rparr> else s)"

definition left_edge :: "switch_state \<Rightarrow> switch_state" where
  "left_edge s = s\<lparr>ss_dwell := None\<rparr>"

definition switched :: "switch_state \<Rightarrow> switch_state" where
  "switched s = s\<lparr>ss_dwell := None, ss_last_tap := None\<rparr>"

definition second_tap :: "switch_policy \<Rightarrow> switch_state \<Rightarrow> nat \<Rightarrow> edge \<Rightarrow> bool" where
  "second_tap p s now e =
     (case ss_last_tap s of
        Some (e', t) \<Rightarrow> e' = e \<and> now - t \<le> sp_double_tap_ms p
      | None \<Rightarrow> False)"

text \<open>The second gate of \<^verbatim>\<open>evaluate\<close>, and the whole of it.\<close>

definition dwell_gate :: "switch_policy \<Rightarrow> switch_state \<Rightarrow> nat \<Rightarrow> edge \<Rightarrow> switch_state \<times> decision" where
  "dwell_gate p s now e =
     (if sp_delay_ms p > 0 then
        (case ss_dwell s of
           Some (e', started) \<Rightarrow>
             if e' = e then
               (if now - started \<ge> sp_delay_ms p then (switched s, Switch) else (s, Wait))
             else (s\<lparr>ss_dwell := Some (e, now)\<rparr>, Wait)
         | None \<Rightarrow> (s\<lparr>ss_dwell := Some (e, now)\<rparr>, Wait))
      else (switched s, Switch))"

definition evaluate ::
  "switch_policy \<Rightarrow> switch_state \<Rightarrow> nat \<Rightarrow> edge \<Rightarrow> bool \<Rightarrow> bool \<Rightarrow> switch_state \<times> decision" where
  "evaluate p s now e has_neighbor in_corner =
     (if \<not> has_neighbor \<or> \<not> in_corner then (s\<lparr>ss_dwell := None\<rparr>, Blocked)
      else if ss_locked s \<and> sp_scroll_lock_locks p then (s\<lparr>ss_dwell := None\<rparr>, Blocked)
      else if sp_double_tap_ms p > 0 then
        (let second = second_tap p s now e;
             s = s\<lparr>ss_last_tap := Some (e, now)\<rparr>
         in if \<not> second then (s, Wait) else dwell_gate p s now e)
      else dwell_gate p s now e)"

lemmas evaluate_simps = evaluate_def dwell_gate_def second_tap_def switched_def Let_def

lemma evaluate_locked_kept: "ss_locked (fst (evaluate p s now e n c)) = ss_locked s"
  by (auto simp: evaluate_simps split: option.splits prod.splits)

lemma evaluate_Switch_gates:
  assumes "evaluate p s now e n c = (s', Switch)"
  shows "n \<and> c \<and> \<not> (ss_locked s \<and> sp_scroll_lock_locks p) \<and> ss_dwell s' = None \<and> ss_last_tap s' = None
    \<and> (sp_double_tap_ms p > 0 \<longrightarrow> second_tap p s now e)
    \<and> (sp_delay_ms p > 0 \<longrightarrow> (\<exists>t. ss_dwell s = Some (e, t) \<and> sp_delay_ms p \<le> now - t))"
  using assms by (auto simp: evaluate_simps split: option.splits prod.splits if_splits)

lemma evaluate_no_gates:
  "sp_delay_ms p = 0 \<Longrightarrow> sp_double_tap_ms p = 0 \<Longrightarrow> \<not> (ss_locked s \<and> sp_scroll_lock_locks p) \<Longrightarrow>
   snd (evaluate p s now e True True) = Switch"
  by (auto simp: evaluate_simps)

subsection \<open>Traces of samples\<close>

text \<open>What the router feeds: samples at an edge, and notice that the cursor left the edges.\<close>

datatype sample =
    AtEdge (at_ms: nat) (at_edge_of: edge) (at_linked: bool) (at_corner: bool)
  | Away

fun ss_step :: "switch_policy \<Rightarrow> switch_state \<Rightarrow> sample \<Rightarrow> switch_state \<times> decision" where
  "ss_step p s (AtEdge now e n c) = evaluate p s now e n c"
| "ss_step p s Away = (left_edge s, Blocked)"

fun ss_run :: "switch_policy \<Rightarrow> switch_state \<Rightarrow> sample list \<Rightarrow> switch_state" where
  "ss_run p s [] = s"
| "ss_run p s (x # xs) = ss_run p (fst (ss_step p s x)) xs"

lemma ss_run_append: "ss_run p s (xs @ ys) = ss_run p (ss_run p s xs) ys"
  by (induction xs arbitrary: s) auto

definition resting :: "edge \<Rightarrow> sample \<Rightarrow> bool" where
  "resting e x \<longleftrightarrow> (\<exists>t. x = AtEdge t e True True)"

text \<open>
  A dwell in progress remembers a real moment: the trace holds a sample at its edge and time, and
  from there on the cursor rested at that edge only.
\<close>

lemma ss_run_dwell:
  assumes "sp_double_tap_ms p = 0" and "ss_dwell (ss_run p ss_new xs) = Some (e, t)"
  shows "\<exists>pre mid. xs = pre @ AtEdge t e True True # mid \<and> (\<forall>x \<in> set mid. resting e x)"
  using assms(2)
proof (induction xs arbitrary: e t rule: rev_induct)
  case Nil
  then show ?case by (simp add: ss_new_def)
next
  case (snoc x xs)
  let ?s = "ss_run p ss_new xs"
  from snoc.prems have d: "ss_dwell (fst (ss_step p ?s x)) = Some (e, t)"
    by (simp add: ss_run_append)
  show ?case
  proof (cases x)
    case Away
    then show ?thesis using d by (simp add: left_edge_def)
  next
    case (AtEdge now e' n c)
    have nc: "n" "c" and disj: "e' = e \<and> now = t \<or> ss_dwell ?s = Some (e, t) \<and> e' = e"
      using d assms(1) AtEdge by (auto simp: evaluate_simps split: if_splits option.splits prod.splits)
    from disj show ?thesis
    proof
      assume "e' = e \<and> now = t"
      then show ?thesis using nc AtEdge by (intro exI [of _ xs] exI [of _ "[]"]) simp
    next
      assume *: "ss_dwell ?s = Some (e, t) \<and> e' = e"
      then obtain pre mid where "xs = pre @ AtEdge t e True True # mid" "\<forall>x \<in> set mid. resting e x"
        using snoc.IH [of e t] by blast
      then show ?thesis using * nc AtEdge
        by (intro exI [of _ pre] exI [of _ "mid @ [x]"]) (auto simp: resting_def)
    qed
  qed
qed

text \<open>Resting long enough at one edge, whatever happened before, does switch.\<close>

lemma dwell_gate_keeps:
  assumes "0 < sp_delay_ms p" "sp_double_tap_ms p = 0" "\<not> (ss_locked s \<and> sp_scroll_lock_locks p)"
    "ss_dwell s = Some (e, t0)" "\<forall>x \<in> set xs. \<exists>t. x = AtEdge t e True True \<and> t < t0 + sp_delay_ms p"
  shows "ss_run p s xs = s"
  using assms by (induction xs) (auto simp: evaluate_simps)

lemma dwell_switches:
  assumes "0 < sp_delay_ms p" "sp_double_tap_ms p = 0" "\<not> (ss_locked s \<and> sp_scroll_lock_locks p)"
    "ss_dwell s = None" "\<forall>x \<in> set xs. \<exists>t. x = AtEdge t e True True \<and> t < t0 + sp_delay_ms p"
    "t0 + sp_delay_ms p \<le> t"
  shows "snd (ss_step p (ss_run p s (AtEdge t0 e True True # xs)) (AtEdge t e True True)) = Switch"
proof -
  let ?s = "s\<lparr>ss_dwell := Some (e, t0)\<rparr>"
  have "fst (ss_step p s (AtEdge t0 e True True)) = ?s"
    using assms by (auto simp: evaluate_simps)
  moreover have "ss_run p ?s xs = ?s"
    using assms by (intro dwell_gate_keeps) auto
  ultimately show ?thesis using assms by (auto simp: evaluate_simps)
qed

end
