(* ===== verification/Desk.thy ===== *)
theory Desk
  imports Layout
begin

text \<open>
  \<^verbatim>\<open>crates/geserdesk-server/src/desk.rs\<close>: the shared virtual desk. A \<^verbatim>\<open>Frame\<close> maps a machine's own
  coordinates onto the desk with an \<^verbatim>\<open>f64\<close> stretch; \<^verbatim>\<open>effective_origins\<close> places every machine;
  \<^verbatim>\<open>nearest_point\<close> and \<^verbatim>\<open>inset_clamp\<close> keep a cursor on a monitor. An \<^verbatim>\<open>f64\<close> is the rational it
  denotes, and every operation rounds its exact result to 53 bits, ties to even. The code only
  divides and multiplies values of magnitude between \<open>2\<^sup>-\<^sup>3\<^sup>1\<close> and \<open>2\<^sup>6\<^sup>2\<close>, so neither overflow
  nor subnormal numbers arise.
\<close>

section \<open>Double precision\<close>

function ilog2 :: "nat \<Rightarrow> nat" where
  "ilog2 n = (if n < 2 then 0 else Suc (ilog2 (n div 2)))"
  by pat_completeness auto
termination
  by (relation "measure id") auto

declare ilog2.simps [simp del]

definition pow2 :: "int \<Rightarrow> rat" where
  "pow2 e = (if 0 \<le> e then 2 ^ nat e else 1 / 2 ^ nat (- e))"

text \<open>The exponent of a positive rational: \<open>pow2 e \<le> x < pow2 (e + 1)\<close>.\<close>

definition f64_exp :: "rat \<Rightarrow> int" where
  "f64_exp x =
     (let (n, d) = quotient_of x; e = int (ilog2 (nat n)) - int (ilog2 (nat d))
      in if pow2 e \<le> x then e else e - 1)"

definition round_half_even :: "rat \<Rightarrow> int" where
  "round_half_even y =
     (let f = \<lfloor>y\<rfloor>; r = y - of_int f
      in if r < 1 / 2 then f else if 1 / 2 < r then f + 1 else if even f then f else f + 1)"

definition f64_round :: "rat \<Rightarrow> rat" where
  "f64_round x =
     (if x = 0 then 0
      else let u = pow2 (f64_exp \<bar>x\<bar> - 52) in of_int (round_half_even (x / u)) * u)"

definition f64_mul :: "rat \<Rightarrow> rat \<Rightarrow> rat" where
  "f64_mul a b = f64_round (a * b)"

definition f64_div :: "rat \<Rightarrow> rat \<Rightarrow> rat" where
  "f64_div a b = f64_round (a / b)"

text \<open>\<^verbatim>\<open>f64::round\<close> rounds half away from zero; \<^verbatim>\<open>as i32\<close> saturates.\<close>

definition round_half_away :: "rat \<Rightarrow> int" where
  "round_half_away x = (if 0 \<le> x then \<lfloor>x + 1 / 2\<rfloor> else - \<lfloor>- x + 1 / 2\<rfloor>)"

definition as_i32 :: "int \<Rightarrow> int" where
  "as_i32 v = max (- 2147483648) (min 2147483647 v)"

lemma ilog2_bounds: "0 < n \<Longrightarrow> 2 ^ ilog2 n \<le> n \<and> n < 2 * 2 ^ ilog2 n"
proof (induction n rule: ilog2.induct)
  case (1 n)
  show ?case
  proof (cases "n < 2")
    case True
    then show ?thesis using "1.prems" by (simp add: ilog2.simps [of n])
  next
    case False
    then have "2 ^ ilog2 (n div 2) \<le> n div 2 \<and> n div 2 < 2 * 2 ^ ilog2 (n div 2)"
      using 1 by auto
    then show ?thesis using False by (simp add: ilog2.simps [of n]) linarith
  qed
qed

lemma pow2_pos [simp]: "0 < pow2 e"
  by (simp add: pow2_def)

lemma pow2_Suc: "pow2 (e + 1) = 2 * pow2 e"
proof (cases "0 \<le> e")
  case True
  then show ?thesis by (simp add: pow2_def nat_add_distrib)
next
  case False
  then obtain k where k: "e = - int (Suc k)" by (metis int_cases int_nat_eq nat_0_le of_nat_0_le_iff)
  then show ?thesis by (auto simp: pow2_def nat_add_distrib)
qed

lemma pow2_add: "pow2 (a + int k) = pow2 a * 2 ^ k"
proof (induction k)
  case 0
  then show ?case by simp
next
  case (Suc k)
  have "pow2 (a + int (Suc k)) = pow2 ((a + int k) + 1)" by (simp add: algebra_simps)
  also have "\<dots> = pow2 a * 2 ^ Suc k" by (simp add: pow2_Suc Suc)
  finally show ?case .
qed

lemma pow2_diff: "pow2 (int a - int b) = 2 ^ a / 2 ^ b"
proof -
  have "pow2 (int a - int b) * 2 ^ b = pow2 (int a)"
    using pow2_add [of "int a - int b" b] by simp
  then show ?thesis by (simp add: field_simps pow2_def)
qed

lemma f64_exp_bounds:
  assumes "0 < x"
  shows "pow2 (f64_exp x) \<le> x" "x < 2 * pow2 (f64_exp x)"
proof -
  obtain n d where q: "quotient_of x = (n, d)" by fastforce
  have d: "0 < d" using q by (rule quotient_of_denom_pos)
  have x: "x = of_int n / of_int d" using q by (rule quotient_of_div)
  then have n: "0 < n" using assms d by (simp add: zero_less_divide_iff)
  let ?a = "ilog2 (nat n)" and ?b = "ilog2 (nat d)"
  have "int (2 ^ ?a) \<le> int (nat n)" "int (nat n) < int (2 * 2 ^ ?a)"
    "int (2 ^ ?b) \<le> int (nat d)" "int (nat d) < int (2 * 2 ^ ?b)"
    using ilog2_bounds [of "nat n"] ilog2_bounds [of "nat d"] n d
    by (simp_all only: of_nat_le_iff of_nat_less_iff zero_less_nat_eq)
  then have nb: "2 ^ ?a \<le> n" "n < 2 * 2 ^ ?a" and db: "2 ^ ?b \<le> d" "d < 2 * 2 ^ ?b"
    using n d by simp_all
  have nb': "2 ^ ?a \<le> (of_int n :: rat)" "of_int n < (2 * 2 ^ ?a :: rat)"
    using nb [folded of_int_le_iff [where 'a = rat] of_int_less_iff [where 'a = rat]]
    by (simp_all only: of_int_power of_int_mult of_int_numeral)
  have db': "2 ^ ?b \<le> (of_int d :: rat)" "of_int d < (2 * 2 ^ ?b :: rat)"
    using db [folded of_int_le_iff [where 'a = rat] of_int_less_iff [where 'a = rat]]
    by (simp_all only: of_int_power of_int_mult of_int_numeral)
  have dpos: "0 < (of_int d :: rat)" using d by simp
  have up: "x < 2 * pow2 (int ?a - int ?b)"
  proof -
    have "x < 2 * 2 ^ ?a / of_int d" unfolding x using nb' dpos by (simp add: divide_strict_right_mono)
    also have "\<dots> \<le> 2 * 2 ^ ?a / 2 ^ ?b" using db' dpos by (intro divide_left_mono mult_pos_pos) auto
    finally show ?thesis by (simp add: pow2_diff)
  qed
  have low: "pow2 (int ?a - int ?b) < 2 * x"
  proof -
    have "2 ^ ?a / 2 ^ ?b < (of_int n * 2 / of_int d :: rat)"
    proof -
      have "2 ^ ?a * (of_int d :: rat) < 2 ^ ?a * (2 * 2 ^ ?b)" using db' by (intro mult_strict_left_mono) auto
      also have "\<dots> \<le> of_int n * (2 * 2 ^ ?b)" using nb' by (intro mult_right_mono) auto
      finally show ?thesis using dpos by (simp add: divide_less_eq less_divide_eq mult.assoc mult.commute mult.left_commute)
    qed
    then show ?thesis by (simp add: pow2_diff x mult.commute)
  qed
  have half: "2 * pow2 (int ?a - int ?b - 1) = pow2 (int ?a - int ?b)"
    using pow2_Suc [of "int ?a - int ?b - 1"] by simp
  show "pow2 (f64_exp x) \<le> x" "x < 2 * pow2 (f64_exp x)"
    using up low half by (auto simp: f64_exp_def q Let_def)
qed

lemma round_half_even_int [simp]: "round_half_even (of_int v) = v"
  by (simp add: round_half_even_def)

lemma round_half_even_error: "\<bar>of_int (round_half_even y) - y\<bar> \<le> 1 / 2"
proof -
  have "of_int \<lfloor>y\<rfloor> \<le> y" "y < of_int \<lfloor>y\<rfloor> + 1" by linarith+
  then show ?thesis by (auto simp: round_half_even_def Let_def abs_le_iff)
qed

lemma f64_round_0 [simp]: "f64_round 0 = 0"
  by (simp add: f64_round_def)

lemma f64_round_error: "\<bar>f64_round x - x\<bar> \<le> \<bar>x\<bar> / 2 ^ 53"
proof (cases "x = 0")
  case False
  define u where "u = pow2 (f64_exp \<bar>x\<bar> - 52)"
  have u: "0 < u" "u * 2 ^ 52 \<le> \<bar>x\<bar>"
    using f64_exp_bounds [of "\<bar>x\<bar>"] pow2_add [of "f64_exp \<bar>x\<bar> - 52" 52] False by (auto simp: u_def)
  have "f64_round x - x = (of_int (round_half_even (x / u)) - x / u) * u"
    using False u by (simp add: f64_round_def u_def [symmetric] left_diff_distrib)
  then have "\<bar>f64_round x - x\<bar> = \<bar>of_int (round_half_even (x / u)) - x / u\<bar> * u"
    using u by (simp add: abs_mult)
  also have "\<dots> \<le> 1 / 2 * u"
    using u round_half_even_error by (intro mult_right_mono) auto
  finally show ?thesis using u by (simp add: field_simps)
qed simp

lemma f64_round_int:
  assumes "\<bar>v\<bar> < 2 ^ 53"
  shows "f64_round (of_int v) = of_int v"
proof (cases "v = 0")
  case False
  let ?x = "\<bar>of_int v\<bar> :: rat" and ?e = "f64_exp \<bar>of_int v\<bar>"
  have b: "pow2 ?e \<le> ?x" "0 < ?x" using f64_exp_bounds [of ?x] False by auto
  have "?x < 2 ^ 53"
    using assms by (metis of_int_abs of_int_less_iff of_int_numeral of_int_power)
  have "?e \<le> 52"
  proof (rule ccontr)
    assume "\<not> ?e \<le> 52"
    then obtain k where "?e = 53 + int k" by (metis add.commute zle_iff_zadd not_le zless_iff_Suc_zadd
          add1_zle_eq numeral_plus_one semiring_norm(5) semiring_norm(2))
    then have "pow2 ?e = 2 ^ 53 * 2 ^ k" using pow2_add [of 53 k] by (simp add: pow2_def)
    moreover have "(2 :: rat) ^ 53 * 1 \<le> 2 ^ 53 * 2 ^ k" by (rule mult_left_mono) simp_all
    ultimately show False using b \<open>?x < 2 ^ 53\<close> by linarith
  qed
  then obtain k where k: "52 = ?e + int k" by (metis zle_iff_zadd)
  have u: "pow2 (?e - 52) * 2 ^ k = 1" 
  proof -
    have "?e - 52 + int k = 0" using k by simp
    then show ?thesis using pow2_add [of "?e - 52" k] by (simp add: pow2_def [of 0])
  qed
  then have "of_int v / pow2 (?e - 52) = of_int (v * 2 ^ k)"
    using pow2_pos [of "?e - 52"]
    by (simp add: divide_eq_eq mult.assoc mult.commute [of "pow2 _"] less_imp_neq [symmetric] del: pow2_pos)
  then show ?thesis
    using False u by (simp only: f64_round_def Let_def round_half_even_int of_int_eq_0_iff if_False)
      (simp add: mult.assoc mult.commute)
qed simp

section \<open>Frames\<close>

definition DEFAULT_SIZE :: "int \<times> int" where
  "DEFAULT_SIZE = (1920, 1080)"

record frame =
  fr_origin :: point
  fr_base :: point
  fr_sx :: rat
  fr_sy :: rat

definition ratio :: "int \<Rightarrow> int \<Rightarrow> rat" where
  "ratio want hv = (if want > 0 \<and> hv > 0 then f64_div (of_int want) (of_int hv) else 1)"

definition fr_new :: "point \<Rightarrow> rect option \<Rightarrow> size2 option \<Rightarrow> frame" where
  "fr_new origin bounds sz =
     (let b = (case bounds of Some b \<Rightarrow> b | None \<Rightarrow> Rect 0 0 (fst DEFAULT_SIZE) (snd DEFAULT_SIZE));
          (sx, sy) = (case sz of None \<Rightarrow> (1, 1)
                      | Some s \<Rightarrow> (ratio (sz_w s) (r_w b), ratio (sz_h s) (r_h b)))
      in \<lparr>fr_origin = origin, fr_base = Pt (r_x b) (r_y b), fr_sx = sx, fr_sy = sy\<rparr>)"

definition desk_at :: "int \<Rightarrow> int \<Rightarrow> int \<Rightarrow> rat \<Rightarrow> int" where
  "desk_at v base origin s =
     i32 (i32 (origin + base) + as_i32 (round_half_away (f64_mul (of_int (i32 (v - base))) s)))"

definition to_desk :: "frame \<Rightarrow> point \<Rightarrow> point" where
  "to_desk f p = Pt (desk_at (pt_x p) (pt_x (fr_base f)) (pt_x (fr_origin f)) (fr_sx f))
                    (desk_at (pt_y p) (pt_y (fr_base f)) (pt_y (fr_origin f)) (fr_sy f))"

definition local_at :: "int \<Rightarrow> int \<Rightarrow> int \<Rightarrow> rat \<Rightarrow> int" where
  "local_at d base origin s =
     i32 (base + as_i32 \<lfloor>f64_div (of_int (i32 (i32 (d - origin) - base))) s\<rfloor>)"

definition to_local :: "frame \<Rightarrow> point \<Rightarrow> point" where
  "to_local f v = Pt (local_at (pt_x v) (pt_x (fr_base f)) (pt_x (fr_origin f)) (fr_sx f))
                     (local_at (pt_y v) (pt_y (fr_base f)) (pt_y (fr_origin f)) (fr_sy f))"

definition desk_rect :: "frame \<Rightarrow> rect \<Rightarrow> rect" where
  "desk_rect f m =
     (let a = to_desk f (Pt (r_left m) (r_top m)); b = to_desk f (Pt (r_right m) (r_bottom m))
      in Rect (pt_x a) (pt_y a) (i32 (pt_x b - pt_x a)) (i32 (pt_y b - pt_y a)))"

definition desk_size :: "rect list \<Rightarrow> size2 option \<Rightarrow> int \<times> int" where
  "desk_size monitors sz =
     (case sz of Some s \<Rightarrow> (sz_w s, sz_h s)
      | None \<Rightarrow> (case union_all monitors of Some r \<Rightarrow> (r_w r, r_h r) | None \<Rightarrow> DEFAULT_SIZE))"

lemma i32_wrap_left [simp]: "i32 (i32 a + b) = i32 (a + b)"
proof -
  have "(((a + 2147483648) mod 4294967296 - 2147483648) + b + 2147483648) mod 4294967296
      = (a + b + 2147483648) mod 4294967296"
    by (simp add: mod_simps algebra_simps)
  then show ?thesis by (simp add: i32_def)
qed

lemma i32_wrap_right [simp]: "i32 (a + i32 b) = i32 (a + b)"
  using i32_wrap_left [of b a] by (simp add: add.commute)

lemma i32_wrap_diff [simp]: "i32 (i32 a - b) = i32 (a - b)"
  using i32_wrap_left [of a "- b"] by simp

lemma i32_wrap_diff_right [simp]: "i32 (a - i32 b) = i32 (a - b)"
proof -
  have "(a - ((b + 2147483648) mod 4294967296 - 2147483648) + 2147483648) mod 4294967296
      = (a - b + 2147483648) mod 4294967296"
    by (simp add: mod_simps algebra_simps)
  then show ?thesis by (simp add: i32_def)
qed

lemma f64_round_i32 [simp]: "f64_round (of_int (i32 v)) = of_int (i32 v)"
proof (rule f64_round_int)
  show "\<bar>i32 v\<bar> < 2 ^ 53" using i32_range [of v] unfolding is_i32_def by (simp add: abs_less_iff)
qed

lemma as_i32_id [simp]: "is_i32 v \<Longrightarrow> as_i32 v = v"
  by (simp add: as_i32_def is_i32_def)

lemma round_half_away_int [simp]: "round_half_away (of_int v) = v"
  by (auto simp: round_half_away_def floor_eq_iff)

lemma desk_at_plain: "desk_at v base origin 1 = i32 (origin + v)"
  by (simp add: desk_at_def f64_mul_def)

lemma local_at_plain: "local_at d base origin 1 = i32 (d - origin)"
  by (simp add: local_at_def f64_div_def)

text \<open>With no desk size set the frame is the plain shift by the origin, and exactly invertible.\<close>

lemma to_desk_plain: "to_desk (fr_new og b None) p = Pt (i32 (pt_x og + pt_x p)) (i32 (pt_y og + pt_y p))"
  by (simp add: to_desk_def fr_new_def Let_def desk_at_plain)

lemma to_local_plain: "to_local (fr_new og b None) v = Pt (i32 (pt_x v - pt_x og)) (i32 (pt_y v - pt_y og))"
  by (simp add: to_local_def fr_new_def Let_def local_at_plain)

lemma to_local_to_desk_plain:
  assumes "is_i32 (pt_x p)" "is_i32 (pt_y p)"
  shows "to_local (fr_new og b None) (to_desk (fr_new og b None) p) = p"
  using assms by (simp add: to_desk_plain to_local_plain)

text \<open>
  With a desk size set, every point is drawn within a pixel of its proportional place, and the two
  corners of the machine exactly: the machine covers precisely the size that was configured.
\<close>

lemma round_half_away_error: "\<bar>of_int (round_half_away x) - x\<bar> \<le> 1 / 2"
proof -
  have fl: "of_int \<lfloor>y\<rfloor> \<le> y" "y < of_int \<lfloor>y\<rfloor> + 1" for y :: rat by linarith+
  show ?thesis
  proof (cases "0 \<le> x")
    case True
    then have "round_half_away x = \<lfloor>x + 1 / 2\<rfloor>" by (simp only: round_half_away_def if_True)
    then show ?thesis using fl [of "x + 1 / 2"] by linarith
  next
    case False
    then have "of_int (round_half_away x) = - (of_int \<lfloor>- x + 1 / 2\<rfloor> :: rat)"
      by (simp only: round_half_away_def if_False of_int_minus)
    then show ?thesis using fl [of "- x + 1 / 2"] by linarith
  qed
qed

lemma abs_chain: "\<bar>a - b\<bar> \<le> p \<Longrightarrow> \<bar>b - c\<bar> \<le> q \<Longrightarrow> \<bar>a - c\<bar> \<le> p + (q :: rat)"
  by linarith

lemma ratio_error:
  assumes "0 < w" "0 < h"
  shows "\<bar>f64_mul (of_int k) (ratio w h) - of_int k * of_int w / of_int h\<bar>
    \<le> 3 * \<bar>of_int k * of_int w / of_int h\<bar> / 2 ^ 53"
proof -
  let ?q = "of_int w / of_int h :: rat" and ?r = "ratio w h" and ?e = "1 / 2 ^ 53 :: rat"
  let ?x = "\<bar>of_int k * ?q\<bar>"
  have r: "\<bar>?r - ?q\<bar> \<le> \<bar>?q\<bar> * ?e"
    using f64_round_error [of ?q] assms by (simp add: ratio_def f64_div_def)
  have m: "\<bar>f64_mul (of_int k) ?r - of_int k * ?r\<bar> \<le> \<bar>of_int k * ?r\<bar> * ?e"
    using f64_round_error [of "of_int k * ?r"] by (simp add: f64_mul_def)
  have d: "\<bar>of_int k * ?r - of_int k * ?q\<bar> \<le> ?x * ?e"
  proof -
    have "\<bar>of_int k * ?r - of_int k * ?q\<bar> = \<bar>of_int k\<bar> * \<bar>?r - ?q\<bar>"
      by (simp only: right_diff_distrib [symmetric] abs_mult)
    also have "\<dots> \<le> \<bar>of_int k\<bar> * (\<bar>?q\<bar> * ?e)" using r by (intro mult_left_mono) auto
    also have "\<dots> = ?x * ?e" by (simp only: abs_mult mult.assoc)
    finally show ?thesis .
  qed
  have "\<bar>of_int k * ?r\<bar> \<le> 2 * ?x"
  proof -
    have "\<bar>of_int k * ?r\<bar> \<le> ?x + ?x * ?e" using d by linarith
    moreover have "?x * ?e \<le> ?x * 1" by (intro mult_left_mono) auto
    ultimately show ?thesis by linarith
  qed
  then have "\<bar>of_int k * ?r\<bar> * ?e \<le> 2 * ?x * ?e" by (intro mult_right_mono) auto
  with m have "\<bar>f64_mul (of_int k) ?r - of_int k * ?r\<bar> \<le> 2 * ?x * ?e" by (rule order_trans)
  from abs_chain [OF this d] have "\<bar>f64_mul (of_int k) ?r - of_int k * ?q\<bar> \<le> 2 * ?x * ?e + ?x * ?e" .
  then show ?thesis by simp
qed

lemma ratio_corner:
  assumes "0 < w" "0 < h" "is_i32 w"
  shows "round_half_away (f64_mul (of_int h) (ratio w h)) = w"
proof -
  let ?y = "f64_mul (of_int h) (ratio w h)"
  have "\<bar>?y - of_int w\<bar> \<le> 3 * \<bar>of_int w\<bar> / 2 ^ 53"
    using ratio_error [OF assms(1,2), of h] assms by simp
  moreover have "\<bar>of_int w :: rat\<bar> \<le> 2 ^ 31"
  proof -
    have "\<bar>w\<bar> \<le> 2147483648" using assms unfolding is_i32_def by linarith
    then have "of_int \<bar>w\<bar> \<le> (of_int 2147483648 :: rat)" by (simp only: of_int_le_iff)
    then show ?thesis by simp
  qed
  ultimately have "\<bar>?y - of_int w\<bar> < 1 / 2" by simp
  then have "\<bar>of_int (round_half_away ?y) - (of_int w :: rat)\<bar> < 1"
    using round_half_away_error [of ?y] by linarith
  then have "\<bar>of_int (round_half_away ?y - w) :: rat\<bar> < of_int 1" by simp
  then have "\<bar>round_half_away ?y - w\<bar> < 1" by (simp only: of_int_abs [symmetric] of_int_less_iff)
  then show ?thesis by simp
qed

lemma i32_0 [simp]: "i32 0 = 0"
  by (simp add: i32_def)

lemma round_half_away_0 [simp]: "round_half_away 0 = 0"
  using round_half_away_int [of 0] by simp

lemma desk_at_base: "desk_at base base origin s = i32 (origin + base)"
  by (simp add: desk_at_def f64_mul_def as_i32_def)

lemma desk_at_corner:
  assumes "0 < w" "0 < h" "is_i32 w" "is_i32 h"
  shows "desk_at (i32 (base + h)) base origin (ratio w h) = i32 (origin + base + w)"
  using ratio_corner [OF assms(1-3)] assms by (simp add: desk_at_def)

text \<open>The machine with these bounds and this size covers exactly that size on the desk.\<close>

lemma desk_rect_exact:
  assumes "0 < r_w b" "0 < r_h b" "is_i32 (r_w b)" "is_i32 (r_h b)"
    and "0 < sz_w s" "0 < sz_h s" "is_i32 (sz_w s)" "is_i32 (sz_h s)"
  shows "desk_rect (fr_new og (Some b) (Some s)) b
    = Rect (i32 (pt_x og + r_x b)) (i32 (pt_y og + r_y b)) (sz_w s) (sz_h s)"
  using desk_at_corner [OF assms(5) assms(1) assms(7,3), of "r_x b" "pt_x og"]
    desk_at_corner [OF assms(6) assms(2) assms(8,4), of "r_y b" "pt_y og"] assms
  by (simp add: desk_rect_def to_desk_def fr_new_def r_left_def r_top_def r_right_def r_bottom_def
      desk_at_base algebra_simps)

section \<open>Placing the machines\<close>

type_synonym origins = "(string, point) bmap"

definition beside :: "edge \<Rightarrow> point \<Rightarrow> int \<times> int \<Rightarrow> int \<times> int \<Rightarrow> point" where
  "beside e oa sa sb =
     (case e of Right \<Rightarrow> Pt (i32 (pt_x oa + fst sa)) (pt_y oa)
      | Left \<Rightarrow> Pt (i32 (pt_x oa - fst sb)) (pt_y oa)
      | Bottom \<Rightarrow> Pt (pt_x oa) (i32 (pt_y oa + snd sa))
      | Top \<Rightarrow> Pt (pt_x oa) (i32 (pt_y oa - snd sb)))"

text \<open>One turn of the loop over the edges of \<open>a\<close>: the desk so far and the queue.\<close>

definition place_edge :: "string list \<Rightarrow> layout \<Rightarrow> (string \<Rightarrow> int \<times> int) \<Rightarrow> string \<Rightarrow> point
    \<Rightarrow> edge \<Rightarrow> origins \<times> string list \<Rightarrow> origins \<times> string list" where
  "place_edge order l size_of a oa e acc =
     (let (placed, queue) = acc
      in case neighbor l a e of None \<Rightarrow> (placed, queue)
         | Some b \<Rightarrow>
             if bm_has placed b \<or> b \<notin> set order then (placed, queue)
             else (bm_insert b (beside e oa (size_of a) (size_of b)) placed, queue @ [b]))"

definition unplaced :: "string list \<Rightarrow> origins \<Rightarrow> nat" where
  "unplaced order placed = length (filter (\<lambda>n. \<not> bm_has placed n) order)"

lemma unplaced_insert: "\<not> bm_has placed b \<Longrightarrow> b \<in> set order \<Longrightarrow>
    unplaced order (bm_insert b p placed) < unplaced order placed"
proof (induction order)
  case (Cons n ns)
  have le: "unplaced ns (bm_insert b p placed) \<le> unplaced ns placed" for ns
    by (induction ns) (auto simp: unplaced_def)
  show ?case using Cons le [of ns] by (auto simp: unplaced_def)
qed simp

lemma place_edge_measure:
  assumes "place_edge order l size_of a oa e (placed, queue) = (placed', queue')"
  shows "2 * unplaced order placed' + length queue' \<le> 2 * unplaced order placed + length queue"
proof -
  have *: "\<not> bm_has placed b \<Longrightarrow> b \<in> set order \<Longrightarrow>
      2 * unplaced order (bm_insert b p placed) + Suc (length queue) \<le> 2 * unplaced order placed + length queue" for b p
    using unplaced_insert [of placed b order p] by linarith
  show ?thesis
    using assms * by (auto simp: place_edge_def Let_def split: option.splits if_splits prod.splits edge.splits)
qed

lemma place_edges_measure:
  "fold (place_edge order l size_of a oa) es (placed, queue) = (placed', queue') \<Longrightarrow>
   2 * unplaced order placed' + length queue' \<le> 2 * unplaced order placed + length queue"
proof (induction es arbitrary: placed queue)
  case (Cons e es)
  obtain p1 q1 where "place_edge order l size_of a oa e (placed, queue) = (p1, q1)" by fastforce
  then show ?case using Cons place_edge_measure by fastforce
qed simp

text \<open>\<^verbatim>\<open>placed[&a]\<close> panics if \<open>a\<close> is missing.\<close>

function place_links :: "string list \<Rightarrow> layout \<Rightarrow> (string \<Rightarrow> int \<times> int) \<Rightarrow> origins \<Rightarrow> string list \<Rightarrow> origins option" where
  "place_links order l size_of placed [] = Some placed"
| "place_links order l size_of placed (a # queue) =
     (case bm_get placed a of None \<Rightarrow> None
      | Some oa \<Rightarrow>
          (let acc = fold (place_edge order l size_of a oa) edge_all (placed, queue)
           in place_links order l size_of (fst acc) (snd acc)))"
  by pat_completeness auto
termination
proof (relation "measure (\<lambda>(order, l, size_of, placed, queue). 2 * unplaced order placed + length queue)")
  fix order l size_of placed a queue oa and acc :: "origins \<times> string list"
  assume "acc = fold (place_edge order l size_of a oa) edge_all (placed, queue)"
  then have "fold (place_edge order l size_of a oa) edge_all (placed, queue) = (fst acc, snd acc)" by simp
  from place_edges_measure [OF this]
  show "((order, l, size_of, fst acc, snd acc), order, l, size_of, placed, a # queue)
    \<in> measure (\<lambda>(order, l, size_of, placed, queue). 2 * unplaced order placed + length queue)"
    by (cases acc) simp
qed simp

text \<open>What is left goes in a row to the right.\<close>

definition place_right :: "(string \<Rightarrow> int \<times> int) \<Rightarrow> string \<Rightarrow> origins \<times> int \<Rightarrow> origins \<times> int" where
  "place_right size_of name acc =
     (let (placed, right) = acc
      in if bm_has placed name then (placed, right)
         else (bm_insert name (Pt right 0) placed, i32 (right + fst (size_of name))))"

definition rightmost :: "string list \<Rightarrow> (string \<Rightarrow> int \<times> int) \<Rightarrow> origins \<Rightarrow> int" where
  "rightmost order size_of placed =
     (case concat (map (\<lambda>n. case bm_get placed n of None \<Rightarrow> []
                            | Some og \<Rightarrow> [i32 (pt_x og + fst (size_of n))]) order) of
        [] \<Rightarrow> 0
      | x # xs \<Rightarrow> fold max xs x)"

definition effective_origins :: "string list \<Rightarrow> string \<Rightarrow> layout \<Rightarrow> origins \<Rightarrow> (string \<Rightarrow> int \<times> int) \<Rightarrow> origins option" where
  "effective_origins order local l configured size_of =
     (let placed = filter (\<lambda>(n, _). n \<in> set order) configured;
          placed = (if bm_has placed local then placed else bm_insert local (Pt 0 0) placed);
          queue = filter (\<lambda>n. bm_has placed n) order
      in do {
        placed \<leftarrow> place_links order l size_of placed queue;
        Some (fst (fold (place_right size_of) order (placed, rightmost order size_of placed)))
      })"

subsection \<open>What the placement guarantees\<close>

text \<open>The desk only grows: what is placed stays where it is, and only screens of \<open>order\<close> join.\<close>

definition grows :: "string list \<Rightarrow> origins \<Rightarrow> origins \<Rightarrow> bool" where
  "grows order p p' \<longleftrightarrow> (bm_ok p \<longrightarrow> bm_ok p')
     \<and> (\<forall>n v. bm_get p n = Some v \<longrightarrow> bm_get p' n = Some v)
     \<and> (\<forall>n. bm_has p' n \<longrightarrow> bm_has p n \<or> n \<in> set order)"

lemma grows_refl [simp]: "grows order p p"
  by (simp add: grows_def)

lemma grows_trans: "grows order p q \<Longrightarrow> grows order q r \<Longrightarrow> grows order p r"
  by (auto simp: grows_def)

lemma grows_insert: "\<not> bm_has p n \<Longrightarrow> n \<in> set order \<Longrightarrow> grows order p (bm_insert n v p)"
  by (auto simp: grows_def bm_has_iff)

lemma grows_has: "grows order p p' \<Longrightarrow> bm_has p n \<Longrightarrow> bm_has p' n"
  by (auto simp: grows_def bm_has_iff)

lemma grows_get: "grows order p p' \<Longrightarrow> bm_get p n = Some v \<Longrightarrow> bm_get p' n = Some v"
  by (simp add: grows_def)

text \<open>\<open>n\<close> touches a placed neighbour that links to it.\<close>

definition touches :: "layout \<Rightarrow> (string \<Rightarrow> int \<times> int) \<Rightarrow> origins \<Rightarrow> string \<Rightarrow> bool" where
  "touches l size_of p n \<longleftrightarrow> (\<exists>a e oa. neighbor l a e = Some n \<and> bm_get p a = Some oa
     \<and> bm_get p n = Some (beside e oa (size_of a) (size_of n)))"

lemma touches_mono: "grows order p p' \<Longrightarrow> touches l size_of p n \<Longrightarrow> touches l size_of p' n"
  unfolding touches_def by (meson grows_get)

definition extends :: "string list \<Rightarrow> layout \<Rightarrow> (string \<Rightarrow> int \<times> int) \<Rightarrow> origins \<Rightarrow> origins \<Rightarrow> bool" where
  "extends order l size_of p p' \<longleftrightarrow> grows order p p'
     \<and> (\<forall>n. bm_has p' n \<longrightarrow> bm_has p n \<or> touches l size_of p' n)"

lemma extends_refl [simp]: "extends order l size_of p p"
  by (simp add: extends_def)

lemma extends_trans: "extends order l size_of p q \<Longrightarrow> extends order l size_of q r \<Longrightarrow> extends order l size_of p r"
  unfolding extends_def by (meson grows_trans touches_mono)

lemma place_edge_extends:
  assumes "place_edge order l size_of a oa e (p, q) = (p', q')" "bm_get p a = Some oa"
    "\<forall>n \<in> set q. bm_has p n"
  shows "extends order l size_of p p' \<and> (\<forall>n \<in> set q'. bm_has p' n)"
proof (cases "p' = p")
  case True
  then show ?thesis using assms
    by (auto simp: place_edge_def split: option.splits if_splits)
      (metis bm_has_insert)
next
  case False
  then obtain b where b: "neighbor l a e = Some b" "\<not> bm_has p b" "b \<in> set order"
    and eq: "p' = bm_insert b (beside e oa (size_of a) (size_of b)) p" "q' = q @ [b]"
    using assms(1) by (auto simp: place_edge_def split: option.splits if_splits)
  have "a \<noteq> b" using b(2) assms(2) by (auto simp: bm_has_iff)
  then have "touches l size_of p' b"
    using b assms(2) unfolding touches_def eq by (intro exI [of _ a] exI [of _ e] exI [of _ oa]) simp
  then show ?thesis
    using b assms(3) grows_insert [OF b(2,3)] by (auto simp: extends_def eq)
qed

lemma place_edges_extend:
  assumes "fold (place_edge order l size_of a oa) es (p, q) = (p', q')" "bm_get p a = Some oa"
    "\<forall>n \<in> set q. bm_has p n"
  shows "extends order l size_of p p' \<and> (\<forall>n \<in> set q'. bm_has p' n)"
  using assms
proof (induction es arbitrary: p q)
  case (Cons e es)
  obtain p1 q1 where 1: "place_edge order l size_of a oa e (p, q) = (p1, q1)" by fastforce
  note ex = place_edge_extends [OF 1 Cons.prems(2,3)]
  have "bm_get p1 a = Some oa"
    using ex Cons.prems(2) by (auto simp: extends_def dest: grows_get)
  then show ?case
    using Cons.IH [of p1 q1] Cons.prems(1) 1 ex extends_trans by fastforce
qed simp

lemma place_links_extends:
  assumes "\<forall>n \<in> set q. bm_has p n"
  shows "\<exists>p'. place_links order l size_of p q = Some p' \<and> extends order l size_of p p'"
  using assms
proof (induction order l size_of p q rule: place_links.induct)
  case (1 order l size_of p)
  then show ?case by simp
next
  case (2 order l size_of p a q)
  then obtain oa where oa: "bm_get p a = Some oa" by (auto simp: bm_has_iff)
  obtain p1 q1 where f: "fold (place_edge order l size_of a oa) edge_all (p, q) = (p1, q1)" by fastforce
  note ex = place_edges_extend [OF f oa] 
  from 2(1) [OF oa refl] 2(2) f ex show ?case
    by (auto simp: oa dest: extends_trans)
qed

lemma place_right_grows:
  assumes "fold (place_right size_of) ns (p, r) = (p', r')" "set ns \<subseteq> set order"
  shows "grows order p p' \<and> (\<forall>n \<in> set ns. bm_has p' n)
    \<and> (\<forall>n. bm_has p' n \<longrightarrow> bm_has p n \<or> (\<exists>x. bm_get p' n = Some (Pt x 0)))"
  using assms
proof (induction ns arbitrary: p r)
  case (Cons n ns)
  obtain p1 r1 where 1: "place_right size_of n (p, r) = (p1, r1)" by fastforce
  have g: "grows order p p1" "bm_has p1 n"
      "\<forall>m. bm_has p1 m \<longrightarrow> bm_has p m \<or> (\<exists>x. bm_get p1 m = Some (Pt x 0))"
    using 1 Cons.prems(2) by (auto simp: place_right_def grows_insert split: if_splits)
  have ih: "grows order p1 p' \<and> (\<forall>n \<in> set ns. bm_has p' n)
    \<and> (\<forall>n. bm_has p' n \<longrightarrow> bm_has p1 n \<or> (\<exists>x. bm_get p' n = Some (Pt x 0)))"
    using Cons.IH [of p1 r1] Cons.prems 1 by auto
  have "bm_has p m \<or> (\<exists>x. bm_get p' m = Some (Pt x 0))" if "bm_has p' m" for m
    using that ih g(3) grows_get [of order p1 p'] by blast
  then show ?case using g ih by (auto intro: grows_trans grows_has)
qed simp

lemma bm_get_filter_key: "bm_get (filter (\<lambda>(n, _). P n) m) k = (if P k then bm_get m k else None)"
  by (induction m) auto

text \<open>
  Every screen gets an origin, the configured ones theirs, the server's own the desk's origin when
  it has none, and every other one touches a neighbour that links to it or lies in the row at \<open>y = 0\<close>.
\<close>

lemma effective_origins_spec:
  assumes "bm_ok conf"
  shows "\<exists>r. effective_origins order local l conf size_of = Some r \<and> bm_ok r
    \<and> (\<forall>n \<in> set order. bm_has r n) \<and> bm_has r local
    \<and> (\<forall>n \<in> set order. \<forall>v. bm_get conf n = Some v \<longrightarrow> bm_get r n = Some v)
    \<and> (bm_get conf local = None \<or> local \<notin> set order \<longrightarrow> bm_get r local = Some (Pt 0 0))
    \<and> (\<forall>n \<in> set order. n = local \<or> bm_has conf n \<or> touches l size_of r n \<or> (\<exists>x. bm_get r n = Some (Pt x 0)))"
proof -
  define p0 where "p0 = filter (\<lambda>(n, _). n \<in> set order) conf"
  define p1 where "p1 = (if bm_has p0 local then p0 else bm_insert local (Pt 0 0) p0)"
  have ok1: "bm_ok p1" using assms by (simp add: p1_def p0_def)
  obtain p2 where 2: "place_links order l size_of p1 (filter (\<lambda>n. bm_has p1 n) order) = Some p2"
    "extends order l size_of p1 p2"
    using place_links_extends [of "filter (\<lambda>n. bm_has p1 n) order" p1 order l size_of] by auto
  obtain p3 x where 3: "fold (place_right size_of) order (p2, rightmost order size_of p2) = (p3, x)" by fastforce
  note g = place_right_grows [OF 3 order_refl]
  have r: "effective_origins order local l conf size_of = Some p3"
    using 2(1) 3 by (simp add: effective_origins_def Let_def p0_def [symmetric] p1_def [symmetric])
  have g2: "grows order p1 p2" and g13: "grows order p1 p3"
    using 2(2) g grows_trans by (auto simp: extends_def)
  have conf: "bm_get p1 n = Some v" if "n \<in> set order" "bm_get conf n = Some v" for n v
    using that by (auto simp: p1_def p0_def bm_get_filter_key bm_has_iff)
  have loc: "bm_has p1 local" by (simp add: p1_def)
  have loc0: "bm_get p1 local = Some (Pt 0 0)" if "bm_get conf local = None \<or> local \<notin> set order"
    using that by (auto simp: p1_def p0_def bm_get_filter_key bm_has_iff)
  have rest: "n = local \<or> bm_has conf n \<or> touches l size_of p3 n \<or> (\<exists>x. bm_get p3 n = Some (Pt x 0))"
    if "n \<in> set order" for n
  proof -
    have "bm_has p3 n" using that g by auto
    then consider "bm_has p1 n" | "touches l size_of p2 n" | "\<exists>x. bm_get p3 n = Some (Pt x 0)"
      using g 2(2) by (auto simp: extends_def)
    then show ?thesis
    proof cases
      case 1
      then show ?thesis by (auto simp: p1_def p0_def bm_has_iff bm_get_filter_key split: if_splits)
    next
      case 2
      then show ?thesis using g touches_mono by blast
    qed auto
  qed
  show ?thesis
    using r ok1 g13 g conf loc loc0 rest
    by (intro exI [of _ p3]) (auto simp: grows_def bm_has_iff)
qed

section \<open>Keeping a cursor on a monitor\<close>

text \<open>\<^verbatim>\<open>i64\<close> arithmetic wraps too; \<^verbatim>\<open>min_by_key\<close> returns the first of several minima.\<close>

definition i64 :: "int \<Rightarrow> int" where
  "i64 v = (v + 9223372036854775808) mod 18446744073709551616 - 9223372036854775808"

definition dist2 :: "point \<Rightarrow> point \<Rightarrow> int" where
  "dist2 c p = (let dx = i32 (pt_x c - pt_x p); dy = i32 (pt_y c - pt_y p) in i64 (dx * dx + dy * dy))"

fun min_loop :: "('a \<Rightarrow> int) \<Rightarrow> 'a \<Rightarrow> 'a list \<Rightarrow> 'a" where
  "min_loop f best [] = best"
| "min_loop f best (x # xs) = min_loop f (if f x < f best then x else best) xs"

definition nearest_point :: "point \<Rightarrow> rect list \<Rightarrow> point option" where
  "nearest_point p ms = do {
     cs \<leftarrow> those (map (\<lambda>m. rect_clamp m p) ms);
     Some (case cs of [] \<Rightarrow> p | c # rest \<Rightarrow> min_loop (\<lambda>c. dist2 c p) c rest)
   }"

definition inset_axis :: "int \<Rightarrow> int \<Rightarrow> int \<Rightarrow> int \<Rightarrow> int \<Rightarrow> int option" where
  "inset_axis inset v lo len centre =
     (if len > i32 (i32 (2 * inset) + 1) then clamp v (i32 (lo + inset)) (i32 (lo + len - 1 - inset))
      else Some centre)"

definition inset_clamp :: "point \<Rightarrow> rect \<Rightarrow> int \<Rightarrow> point option" where
  "inset_clamp p r inset = (let c = r_center r in do {
     x \<leftarrow> inset_axis inset (pt_x p) (r_x r) (r_w r) (pt_x c);
     y \<leftarrow> inset_axis inset (pt_y p) (r_y r) (r_h r) (pt_y c);
     Some (Pt x y)
   })"

text \<open>The monitors of a machine: at least one, each with an area and representable sides.\<close>

definition mons_ok :: "rect list \<Rightarrow> bool" where
  "mons_ok ms \<longleftrightarrow> ms \<noteq> [] \<and> (\<forall>m \<in> set ms. rect_ok m)"

definition on_mons :: "rect list \<Rightarrow> point \<Rightarrow> bool" where
  "on_mons ms p \<longleftrightarrow> (\<exists>m \<in> set ms. rect_contains m p)"

lemma min_loop_mem: "min_loop f b xs \<in> set (b # xs)"
  by (induction f b xs rule: min_loop.induct) (auto split: if_splits)

lemma min_loop_least: "x \<in> set (b # xs) \<Longrightarrow> f (min_loop f b xs) \<le> f x"
proof (induction f b xs arbitrary: x rule: min_loop.induct)
  case (2 f b y ys)
  have *: "z \<in> set ((if f y < f b then y else b) # ys) \<Longrightarrow> f (min_loop f b (y # ys)) \<le> f z" for z
    using "2.IH" [of z] by simp
  show ?case
    using "2.prems" * [of x] * [of y] * [of b] by (auto split: if_splits)
qed simp

lemma those_map_Some: "\<forall>x \<in> set xs. f x = Some (g x) \<Longrightarrow> those (map f xs) = Some (map g xs)"
  by (induction xs) auto

lemma those_SomeD: "those (map f xs) = Some ys \<Longrightarrow> \<forall>x \<in> set xs. \<exists>y \<in> set ys. f x = Some y"
  by (induction xs arbitrary: ys) (auto split: option.splits)

lemma those_memD: "those (map f xs) = Some ys \<Longrightarrow> y \<in> set ys \<Longrightarrow> \<exists>x \<in> set xs. f x = Some y"
  by (induction xs arbitrary: ys) (auto split: option.splits)

lemma those_length: "those xs = Some ys \<Longrightarrow> length ys = length xs"
  by (induction xs arbitrary: ys) (auto split: option.splits)

lemma nearest_point_on:
  assumes "mons_ok ms"
  shows "\<exists>q. nearest_point p ms = Some q \<and> on_mons ms q"
proof -
  obtain m ms' where ms: "ms = m # ms'" using assms by (cases ms) (auto simp: mons_ok_def)
  have "\<forall>m \<in> set ms. rect_clamp m p = Some (the (rect_clamp m p))"
    using assms rect_clamp_total unfolding mons_ok_def by fastforce
  from those_map_Some [OF this] obtain cs where cs: "those (map (\<lambda>m. rect_clamp m p) ms) = Some cs" by blast
  then obtain c rest where c: "cs = c # rest" using those_length [OF cs] ms by (cases cs) auto
  let ?q = "min_loop (\<lambda>c. dist2 c p) c rest"
  have "?q \<in> set cs" using min_loop_mem [of _ c rest] c by simp
  then have "on_mons ms ?q"
    using those_memD [OF cs] rect_clamp_inside assms unfolding on_mons_def mons_ok_def by blast
  then show ?thesis using cs c by (simp add: nearest_point_def)
qed

lemma dist2_self [simp]: "dist2 p p = 0"
  by (simp add: dist2_def i64_def)

text \<open>With coordinates of at most a billion nothing wraps, and the squared distance is exact.\<close>

definition near_origin :: "int \<Rightarrow> point \<Rightarrow> bool" where
  "near_origin b p \<longleftrightarrow> \<bar>pt_x p\<bar> \<le> b \<and> \<bar>pt_y p\<bar> \<le> b"

lemma dist2_exact:
  assumes "near_origin 1000000000 c" "near_origin 1000000000 p"
  shows "dist2 c p = (pt_x c - pt_x p)\<^sup>2 + (pt_y c - pt_y p)\<^sup>2"
proof -
  have b: "\<bar>pt_x c - pt_x p\<bar> \<le> 2000000000" "\<bar>pt_y c - pt_y p\<bar> \<le> 2000000000"
    using assms by (auto simp: near_origin_def)
  then have i: "i32 (pt_x c - pt_x p) = pt_x c - pt_x p" "i32 (pt_y c - pt_y p) = pt_y c - pt_y p"
    by (auto intro!: i32_small)
  have sq: "d\<^sup>2 \<le> 4000000000000000000" if "\<bar>d\<bar> \<le> 2000000000" for d :: int
    using power_mono [OF that, of 2] by simp
  show ?thesis
    using sq [OF b(1)] sq [OF b(2)] zero_le_power2 [of "pt_x c - pt_x p"] zero_le_power2 [of "pt_y c - pt_y p"]
    by (simp add: dist2_def Let_def i i64_def power2_eq_square)
qed

text \<open>One coordinate of a clamp is the closest there is.\<close>

lemma clamp_closest:
  fixes p :: int
  assumes "lo \<le> q" "q < hi"
  shows "(max lo (min p (hi - 1)) - p)\<^sup>2 \<le> (q - p)\<^sup>2"
proof -
  have "\<bar>max lo (min p (hi - 1)) - p\<bar> \<le> \<bar>q - p\<bar>" using assms by linarith
  then show ?thesis by (simp add: abs_le_square_iff)
qed

definition mons_small :: "rect list \<Rightarrow> bool" where
  "mons_small ms \<longleftrightarrow> (\<forall>m \<in> set ms. \<bar>r_x m\<bar> \<le> 1000000 \<and> \<bar>r_y m\<bar> \<le> 1000000
     \<and> 0 < r_w m \<and> r_w m \<le> 100000 \<and> 0 < r_h m \<and> r_h m \<le> 100000)"

lemma mons_small_ok: "mons_small ms \<Longrightarrow> ms \<noteq> [] \<Longrightarrow> mons_ok ms"
  by (fastforce simp: mons_small_def mons_ok_def rect_ok_def is_i32_def)

lemma rect_ok_clamp_closest:
  assumes "mons_small ms" "m \<in> set ms" "rect_contains m q" "rect_clamp m p = Some c" "near_origin 1000000000 p"
  shows "dist2 c p \<le> dist2 q p" "near_origin 2000000 c"
proof -
  have ok: "rect_ok m" using assms(1,2) by (auto simp: mons_small_def rect_ok_def is_i32_def)
  have c: "c = Pt (max (r_x m) (min (pt_x p) (r_x m + r_w m - 1))) (max (r_y m) (min (pt_y p) (r_y m + r_h m - 1)))"
    using assms(4) by (simp add: rect_clamp_ok [OF ok])
  have b: "\<bar>r_x m\<bar> \<le> 1000000" "\<bar>r_y m\<bar> \<le> 1000000" "0 < r_w m" "r_w m \<le> 100000" "0 < r_h m" "r_h m \<le> 100000"
    using assms(1,2) by (auto simp: mons_small_def)
  have q: "r_x m \<le> pt_x q" "pt_x q < r_x m + r_w m" "r_y m \<le> pt_y q" "pt_y q < r_y m + r_h m"
    using assms(3) contains_iff [OF ok] by auto
  show nc: "near_origin 2000000 c" using b unfolding near_origin_def c by simp linarith
  have "near_origin 1000000000 q" using b q unfolding near_origin_def by linarith
  moreover have "near_origin 1000000000 c" using nc by (simp add: near_origin_def)
  ultimately show "dist2 c p \<le> dist2 q p"
    using clamp_closest [OF q(1,2), of "pt_x p"] clamp_closest [OF q(3,4), of "pt_y p"] assms(5)
    by (simp add: dist2_exact) (simp add: c)
qed

lemma nearest_point_closest:
  assumes "mons_small ms" "near_origin 1000000000 p" "on_mons ms r" "nearest_point p ms = Some q"
  shows "dist2 q p \<le> dist2 r p"
proof -
  obtain m where m: "m \<in> set ms" "rect_contains m r" using assms(3) by (auto simp: on_mons_def)
  obtain cs where cs: "those (map (\<lambda>m. rect_clamp m p) ms) = Some cs"
    and q: "q = (case cs of [] \<Rightarrow> p | c # rest \<Rightarrow> min_loop (\<lambda>c. dist2 c p) c rest)"
    using assms(4) by (auto simp: nearest_point_def bind_eq_Some_conv)
  obtain c where c: "c \<in> set cs" "rect_clamp m p = Some c" using those_SomeD [OF cs] m(1) by auto
  then have "dist2 q p \<le> dist2 c p" using q min_loop_least [of c _ _ "\<lambda>c. dist2 c p"] by (cases cs) auto
  also have "\<dots> \<le> dist2 r p" by (rule rect_ok_clamp_closest [OF assms(1) m c(2) assms(2)])
  finally show ?thesis .
qed

lemma min_loop_zero:
  assumes "\<And>x. x \<in> set (b # xs) \<Longrightarrow> 0 \<le> f x" "z \<in> set (b # xs)" "f z = 0"
  shows "f (min_loop f b xs) = 0"
  using min_loop_least [OF assms(2), of f] assms min_loop_mem [of f b xs] by (simp add: order.antisym)

text \<open>A point already on a monitor stays where it is.\<close>

lemma nearest_point_fix:
  assumes "mons_small ms" "on_mons ms p"
  shows "nearest_point p ms = Some p"
proof -
  obtain m where m: "m \<in> set ms" "rect_contains m p" using assms(2) by (auto simp: on_mons_def)
  have ok: "mons_ok ms" using assms m by (auto intro: mons_small_ok)
  have "rect_ok m" using ok m by (auto simp: mons_ok_def)
  then have px: "r_x m \<le> pt_x p" "pt_x p < r_x m + r_w m" "r_y m \<le> pt_y p" "pt_y p < r_y m + r_h m"
    using m(2) contains_iff by auto
  have np: "near_origin 1000000000 p"
    using px assms(1) m(1) by (fastforce simp: near_origin_def mons_small_def)
  obtain q where q: "nearest_point p ms = Some q" "on_mons ms q" using nearest_point_on [OF ok] by blast
  obtain m' where m': "m' \<in> set ms" "rect_contains m' q" using q(2) by (auto simp: on_mons_def)
  have nq: "near_origin 1000000000 q"
    using m' ok assms(1) contains_iff [of m' q] by (fastforce simp: near_origin_def mons_small_def mons_ok_def)
  have "dist2 q p \<le> 0" using nearest_point_closest [OF assms(1) np assms(2) q(1)] by simp
  then have "(pt_x q - pt_x p)\<^sup>2 + (pt_y q - pt_y p)\<^sup>2 \<le> 0" by (simp add: dist2_exact nq np)
  then have "q = p" by (simp add: sum_power2_le_zero_iff)
  then show ?thesis using q by simp
qed

lemma r_center_inside:
  assumes "rect_ok r" shows "rect_contains r (r_center r)"
proof -
  have b: "0 < r_w r" "0 < r_h r" "is_i32 (r_x r)" "is_i32 (r_y r)" "is_i32 (r_x r + r_w r)" "is_i32 (r_y r + r_h r)"
    using assms by (auto simp: rect_ok_def)
  have "0 \<le> r_w r div 2 \<and> r_w r div 2 < r_w r" "0 \<le> r_h r div 2 \<and> r_h r div 2 < r_h r" using b by auto
  moreover from this have "i32 (r_x r + r_w r div 2) = r_x r + r_w r div 2" "i32 (r_y r + r_h r div 2) = r_y r + r_h r div 2"
    using b by (auto simp: is_i32_def intro!: i32_small)
  ultimately show ?thesis by (simp add: contains_iff [OF assms] r_center_def tdiv_nonneg b less_imp_le)
qed

lemma inset_axis_ok:
  assumes "0 \<le> inset" "inset \<le> 1000000000" "is_i32 lo" "is_i32 (lo + len)" "lo \<le> centre" "centre < lo + len"
  shows "\<exists>x. inset_axis inset v lo len centre = Some x \<and> lo \<le> x \<and> x < lo + len
    \<and> (2 * inset + 1 < len \<longrightarrow> lo + inset \<le> x \<and> x \<le> lo + len - 1 - inset)"
proof (cases "2 * inset + 1 < len")
  case True
  have "i32 (2 * inset + 1) = 2 * inset + 1" "i32 (lo + inset) = lo + inset" "i32 (lo + len - 1 - inset) = lo + len - 1 - inset"
    using assms True by (auto simp: is_i32_def intro!: i32_small)
  then show ?thesis using True assms(1) by (simp add: inset_axis_def) linarith
next
  case False
  have "i32 (2 * inset + 1) = 2 * inset + 1" using assms by (auto intro!: i32_small)
  then show ?thesis using False assms by (simp add: inset_axis_def)
qed

lemma inset_clamp_ok:
  assumes "rect_ok r" "0 \<le> inset" "inset \<le> 1000000000"
  shows "\<exists>q. inset_clamp p r inset = Some q \<and> rect_contains r q
    \<and> (2 * inset + 1 < r_w r \<longrightarrow> r_x r + inset \<le> pt_x q \<and> pt_x q \<le> r_x r + r_w r - 1 - inset)
    \<and> (2 * inset + 1 < r_h r \<longrightarrow> r_y r + inset \<le> pt_y q \<and> pt_y q \<le> r_y r + r_h r - 1 - inset)"
proof -
  have c: "r_x r \<le> pt_x (r_center r)" "pt_x (r_center r) < r_x r + r_w r"
    "r_y r \<le> pt_y (r_center r)" "pt_y (r_center r) < r_y r + r_h r"
    using r_center_inside [OF assms(1)] contains_iff [OF assms(1)] by auto
  have ok: "is_i32 (r_x r)" "is_i32 (r_x r + r_w r)" "is_i32 (r_y r)" "is_i32 (r_y r + r_h r)"
    using assms(1) by (auto simp: rect_ok_def)
  obtain x where x: "inset_axis inset (pt_x p) (r_x r) (r_w r) (pt_x (r_center r)) = Some x"
    "r_x r \<le> x" "x < r_x r + r_w r" "2 * inset + 1 < r_w r \<longrightarrow> r_x r + inset \<le> x \<and> x \<le> r_x r + r_w r - 1 - inset"
    using inset_axis_ok [OF assms(2,3) ok(1,2) c(1,2)] by blast
  obtain y where y: "inset_axis inset (pt_y p) (r_y r) (r_h r) (pt_y (r_center r)) = Some y"
    "r_y r \<le> y" "y < r_y r + r_h r" "2 * inset + 1 < r_h r \<longrightarrow> r_y r + inset \<le> y \<and> y \<le> r_y r + r_h r - 1 - inset"
    using inset_axis_ok [OF assms(2,3) ok(3,4) c(3,4)] by blast
  show ?thesis using x y by (simp add: inset_clamp_def contains_iff [OF assms(1)])
qed

text \<open>Twice an inset of this size is no \<^verbatim>\<open>i32\<close>: it wraps, and the call of \<^verbatim>\<open>clamp\<close> panics.\<close>

lemma huge_inset_panics: "inset_clamp (Pt 5 5) (Rect 0 0 1920 1080) 1100000000 = None"
  by code_simp

end
