(* ===== verification/Router.thy ===== *)
theory Router
  imports Desk Key_Rules
begin

text \<open>
  \<^verbatim>\<open>crates/geserdesk-server/src/router.rs\<close>: the state machine that decides which screen owns the
  keyboard and mouse, with the events and commands of the capture backend
  (\<^verbatim>\<open>crates/geserdesk-platform/src/lib.rs\<close>). A panic of the code is \<^const>\<open>None\<close>.
\<close>

section \<open>Capture events and router actions\<close>

datatype capture_event =
    Pointer point
  | Motion int int
  | CButton button bool
  | CWheel int int
  | CKey key_event
  | Hotkey
  | GrabFailed

datatype capture_cmd = Grab | Ungrab point

datatype action = Send (send_to: string) (send_msg: server_msg) | Capture capture_cmd

datatype state = Local | Remote (re_screen: string) (re_pos: point)

definition MODIFIER_KEYS :: "(mod_mask \<times> nat list) list" where
  "MODIFIER_KEYS =
     [(CONTROL, [0xE0, 0xE4]), (ALT, [0xE2, 0xE6]), (SHIFT, [0xE1, 0xE5]), (SUPER, [0xE3, 0xE7]),
      (ALT_GR, [0xE6])]"

record core =
  c_layout :: layout
  c_policy :: switch_policy
  c_local :: string
  c_local_monitors :: "rect list"
  c_positions :: "(string, point) bmap"
  c_sizes :: "(string, size2) bmap"
  c_origins :: origins
  c_connected :: "(string, rect list) bmap"
  c_state :: state
  c_last_local :: "rect option"
  c_switch :: switch_state
  c_seq :: nat
  c_rules :: "rule list"
  c_fired :: "(nat, nat) bmap"

section \<open>Desk geometry\<close>

definition monitors_of :: "core \<Rightarrow> string \<Rightarrow> rect list" where
  "monitors_of c name =
     (if name = c_local c then c_local_monitors c
      else case bm_get (c_connected c) name of None \<Rightarrow> [] | Some ms \<Rightarrow> ms)"

definition size_of :: "core \<Rightarrow> string \<Rightarrow> int \<times> int" where
  "size_of c name = desk_size (monitors_of c name) (bm_get (c_sizes c) name)"

definition refresh_origins :: "core \<Rightarrow> core option" where
  "refresh_origins c = do {
     og \<leftarrow> effective_origins (la_screens (c_layout c)) (c_local c) (c_layout c) (c_positions c) (size_of c);
     Some (c\<lparr>c_origins := og\<rparr>)
   }"

definition origin_of :: "core \<Rightarrow> string \<Rightarrow> point" where
  "origin_of c name = (case bm_get (c_origins c) name of None \<Rightarrow> Pt 0 0 | Some p \<Rightarrow> p)"

definition frame_of :: "core \<Rightarrow> string \<Rightarrow> frame" where
  "frame_of c name = fr_new (origin_of c name) (union_all (monitors_of c name)) (bm_get (c_sizes c) name)"

text \<open>The names in order, with the server's own added.\<close>

definition locate :: "core \<Rightarrow> point \<Rightarrow> string \<Rightarrow> (string \<times> point) option" where
  "locate c v exclude =
     find_map (\<lambda>n. let q = to_local (frame_of c n) v
                   in if \<exists>m \<in> set (monitors_of c n). rect_contains m q then Some (n, q) else None)
       (filter (\<lambda>n. n \<noteq> exclude) (sort (bm_keys (c_connected c) @ [c_local c])))"

definition snap_into :: "core \<Rightarrow> string \<Rightarrow> point \<Rightarrow> point option" where
  "snap_into c name p =
     (let mons = monitors_of c name in if mons = [] then Some p else nearest_point p mons)"

definition home_monitor :: "core \<Rightarrow> rect option" where
  "home_monitor c =
     (case (case c_last_local c of Some m \<Rightarrow> if m \<in> set (c_local_monitors c) then Some m else None
            | None \<Rightarrow> None) of
        Some m \<Rightarrow> Some m
      | None \<Rightarrow>
          (case find (\<lambda>m. rect_contains m (Pt 0 0)) (c_local_monitors c) of
             Some m \<Rightarrow> Some m
           | None \<Rightarrow> (case c_local_monitors c of [] \<Rightarrow> None | m # _ \<Rightarrow> Some m)))"

definition local_center :: "core \<Rightarrow> point option" where
  "local_center c =
     (let p = (case home_monitor c of None \<Rightarrow> Pt 0 0 | Some m \<Rightarrow> r_center m)
      in snap_into c (c_local c) p)"

section \<open>Construction and connection changes\<close>

definition core_new :: "layout \<Rightarrow> switch_policy \<Rightarrow> string \<Rightarrow> rect list \<Rightarrow> (string, point) bmap \<Rightarrow> core option" where
  "core_new l policy local ms positions =
     refresh_origins
       \<lparr>c_layout = l, c_policy = policy, c_local = local, c_local_monitors = ms,
        c_positions = positions, c_sizes = [], c_origins = [], c_connected = [], c_state = Local,
        c_last_local = None, c_switch = ss_new, c_seq = 0, c_rules = [], c_fired = []\<rparr>"

definition with_key_rules :: "core \<Rightarrow> rule list \<Rightarrow> core" where
  "with_key_rules c rules = c\<lparr>c_rules := rules\<rparr>"

definition with_sizes :: "core \<Rightarrow> (string, size2) bmap \<Rightarrow> core option" where
  "with_sizes c sizes = refresh_origins (c\<lparr>c_sizes := sizes\<rparr>)"

definition active_remote :: "core \<Rightarrow> string option" where
  "active_remote c = (case c_state c of Local \<Rightarrow> None | Remote screen _ \<Rightarrow> Some screen)"

definition client_connected :: "core \<Rightarrow> string \<Rightarrow> rect list \<Rightarrow> core option" where
  "client_connected c name ms = refresh_origins (c\<lparr>c_connected := bm_insert name ms (c_connected c)\<rparr>)"

definition core_add_screen :: "core \<Rightarrow> string \<Rightarrow> core option" where
  "core_add_screen c name =
     (case add_screen (c_layout c) name of
        (l, True) \<Rightarrow> refresh_origins (c\<lparr>c_layout := l\<rparr>)
      | (_, False) \<Rightarrow> Some c)"

definition set_local_monitors :: "core \<Rightarrow> rect list \<Rightarrow> core option" where
  "set_local_monitors c ms =
     (if ms = [] \<or> ms = c_local_monitors c then Some c
      else let c = c\<lparr>c_local_monitors := ms\<rparr>;
               c = (case c_last_local c of
                      Some m \<Rightarrow> if m \<notin> set ms then c\<lparr>c_last_local := None\<rparr> else c
                    | None \<Rightarrow> c)
           in refresh_origins c)"

definition set_positions :: "core \<Rightarrow> (string, point) bmap \<Rightarrow> core option" where
  "set_positions c positions = refresh_origins (c\<lparr>c_positions := positions\<rparr>)"

definition set_sizes :: "core \<Rightarrow> (string, size2) bmap \<Rightarrow> core option" where
  "set_sizes c sizes = refresh_origins (c\<lparr>c_sizes := sizes\<rparr>)"

definition client_disconnected :: "core \<Rightarrow> string \<Rightarrow> (core \<times> action list) option" where
  "client_disconnected c name = do {
     c \<leftarrow> refresh_origins (c\<lparr>c_connected := bm_remove name (c_connected c)\<rparr>);
     (case c_state c of
        Remote screen _ \<Rightarrow>
          if screen = name then
            do {
              let c = c\<lparr>c_state := Local, c_switch := switched (c_switch c)\<rparr>;
              warp \<leftarrow> local_center c;
              Some (c, [Capture (Ungrab warp)])
            }
          else Some (c, [])
      | Local \<Rightarrow> Some (c, []))
   }"

section \<open>Transitions\<close>

definition forward :: "core \<Rightarrow> server_msg \<Rightarrow> action list" where
  "forward c msg = (case c_state c of Remote screen _ \<Rightarrow> [Send screen msg] | Local \<Rightarrow> [])"

text \<open>The sequence number is a \<^verbatim>\<open>u64\<close>.\<close>

definition enter_from_remote :: "core \<Rightarrow> string \<Rightarrow> point \<Rightarrow> core \<times> action list" where
  "enter_from_remote c target spot =
     (let seq = u64 (c_seq c + 1)
      in (c\<lparr>c_seq := seq, c_switch := switched (c_switch c), c_state := Remote target spot\<rparr>,
          [Send target (Enter (pt_x spot) (pt_y spot) seq mm_empty)]))"

definition enter :: "core \<Rightarrow> string \<Rightarrow> point \<Rightarrow> core \<times> action list" where
  "enter c target spot =
     (let (c, as) = enter_from_remote c target spot in (c, Capture Grab # as))"

definition go_local :: "core \<Rightarrow> string \<Rightarrow> point \<Rightarrow> core \<times> action list" where
  "go_local c from spot =
     (c\<lparr>c_state := Local, c_switch := switched (c_switch c)\<rparr>,
      [Send from Leave, Capture (Ungrab spot)])"

section \<open>Local mode\<close>

fun at_edge :: "rect \<Rightarrow> point \<Rightarrow> edge \<Rightarrow> int \<Rightarrow> bool" where
  "at_edge bounds p Left jump \<longleftrightarrow> pt_x p < i32 (r_left bounds + jump)"
| "at_edge bounds p Right jump \<longleftrightarrow> pt_x p \<ge> i32 (r_right bounds - jump)"
| "at_edge bounds p Top jump \<longleftrightarrow> pt_y p < i32 (r_top bounds + jump)"
| "at_edge bounds p Bottom jump \<longleftrightarrow> pt_y p \<ge> i32 (r_bottom bounds - jump)"

fun step_point :: "point \<Rightarrow> edge \<Rightarrow> int \<Rightarrow> point" where
  "step_point p Left n = Pt (i32 (pt_x p - n)) (pt_y p)"
| "step_point p Right n = Pt (i32 (pt_x p + n)) (pt_y p)"
| "step_point p Top n = Pt (pt_x p) (i32 (pt_y p - n))"
| "step_point p Bottom n = Pt (pt_x p) (i32 (pt_y p + n))"

definition near_corner :: "rect \<Rightarrow> point \<Rightarrow> edge \<Rightarrow> int \<Rightarrow> bool" where
  "near_corner bounds p e corner_size \<longleftrightarrow>
     corner_size \<le> 0 \<or>
     (let (pos, lo, hi) = (if e = Left \<or> e = Right then (pt_y p, r_top bounds, r_bottom bounds)
                           else (pt_x p, r_left bounds, r_right bounds))
      in i32 (pos - lo) < corner_size \<or> i32 (hi - 1 - pos) < corner_size)"

definition jump_of :: "core \<Rightarrow> int" where
  "jump_of c = max (sp_jump_zone (c_policy c)) 1"

text \<open>The first edge the pointer is at whose probe lies on another machine.\<close>

definition edge_hit :: "core \<Rightarrow> rect \<Rightarrow> point \<Rightarrow> edge \<Rightarrow> (edge \<times> string \<times> point) option" where
  "edge_hit c m p e =
     (let jump = jump_of c
      in if \<not> at_edge m p e jump then None
         else let probe = step_point p e jump
              in if \<exists>x \<in> set (c_local_monitors c). rect_contains x probe then None
                 else case locate c (to_desk (frame_of c (c_local c)) probe) (c_local c) of
                        None \<Rightarrow> None
                      | Some (name, q) \<Rightarrow> Some (e, name, q))"

definition on_pointer :: "core \<Rightarrow> point \<Rightarrow> nat \<Rightarrow> core \<times> action list" where
  "on_pointer c p now =
     (if c_state c \<noteq> Local then (c, [])
      else case find (\<lambda>m. rect_contains m p) (c_local_monitors c) of
        None \<Rightarrow> (c, [])
      | Some m \<Rightarrow>
          (let c = c\<lparr>c_last_local := Some m\<rparr>
           in case find_map (edge_hit c m p) edge_all of
                None \<Rightarrow> (c\<lparr>c_switch := left_edge (c_switch c)\<rparr>, [])
              | Some (e, target, q) \<Rightarrow>
                  (let (sw, d) = evaluate (c_policy c) (c_switch c) now e True
                                   (near_corner m p e (sp_corner_size (c_policy c)));
                       c = c\<lparr>c_switch := sw\<rparr>
                   in case d of Switch \<Rightarrow> enter c target q | _ \<Rightarrow> (c, []))))"

definition center_or_origin :: "rect list \<Rightarrow> point" where
  "center_or_origin ms = (case union_all ms of None \<Rightarrow> Pt 0 0 | Some r \<Rightarrow> r_center r)"

text \<open>The machines with monitors, each with its squared distance from \<open>lc\<close>.\<close>

definition hotkey_candidates :: "core \<Rightarrow> point \<Rightarrow> (int \<times> string) list" where
  "hotkey_candidates c lc =
     concat (map (\<lambda>(n, ms). case union_all ms of None \<Rightarrow> []
               | Some r \<Rightarrow> [(dist2 (to_desk (frame_of c n) (r_center r)) lc, n)]) (c_connected c))"

fun min_pair :: "int \<times> string \<Rightarrow> (int \<times> string) list \<Rightarrow> int \<times> string" where
  "min_pair best [] = best"
| "min_pair best (x # xs) =
     min_pair (if fst x < fst best \<or> fst x = fst best \<and> snd x < snd best then x else best) xs"

definition on_hotkey :: "core \<Rightarrow> (core \<times> action list) option" where
  "on_hotkey c =
     (case c_state c of
        Remote screen _ \<Rightarrow> do { spot \<leftarrow> local_center c; Some (go_local c screen spot) }
      | Local \<Rightarrow>
          (let lc = to_desk (frame_of c (c_local c)) (center_or_origin (c_local_monitors c))
           in case hotkey_candidates c lc of
                [] \<Rightarrow> Some (c, [])
              | x # xs \<Rightarrow>
                  (let t = snd (min_pair x xs)
                   in do {
                     ms \<leftarrow> bm_get (c_connected c) t;
                     spot \<leftarrow> snap_into c t (center_or_origin ms);
                     Some (enter c t spot)
                   })))"

definition on_grab_failed :: "core \<Rightarrow> core \<times> action list" where
  "on_grab_failed c =
     (case c_state c of
        Remote screen _ \<Rightarrow> (c\<lparr>c_state := Local, c_switch := switched (c_switch c)\<rparr>, [Send screen Leave])
      | Local \<Rightarrow> (c, []))"

section \<open>Remote mode\<close>

text \<open>\<^verbatim>\<open>unwrap_or(self.local_monitors[0])\<close> indexes before it looks, so an empty list panics.\<close>

definition on_motion :: "core \<Rightarrow> int \<Rightarrow> int \<Rightarrow> (core \<times> action list) option" where
  "on_motion c dx dy =
     (case c_state c of
        Local \<Rightarrow> Some (c, [])
      | Remote screen pos \<Rightarrow>
          (let mons = monitors_of c screen
           in if mons = [] then Some (c, [])
              else do {
                pos \<leftarrow> nearest_point pos mons;
                let moved = Pt (i32 (pt_x pos + dx)) (i32 (pt_y pos + dy));
                let stay = (\<lambda>new_pos. (c\<lparr>c_state := Remote screen new_pos\<rparr>,
                                       [Send screen (Mouse (MoveAbs (pt_x new_pos) (pt_y new_pos)))]));
                if \<exists>m \<in> set mons. rect_contains m moved then Some (stay moved)
                else case locate c (to_desk (frame_of c screen) moved) screen of
                  Some (nxt, q) \<Rightarrow>
                    do {
                      e \<leftarrow> nearest_point moved mons;
                      let to_edge = Send screen (Mouse (MoveAbs (pt_x e) (pt_y e)));
                      if nxt = c_local c then
                        do {
                          first \<leftarrow> (case c_local_monitors c of [] \<Rightarrow> None | m # _ \<Rightarrow> Some m);
                          let lm = (case find (\<lambda>m. rect_contains m q) (c_local_monitors c) of
                                      Some m \<Rightarrow> m | None \<Rightarrow> first);
                          spot \<leftarrow> inset_clamp q lm (i32 (jump_of c + 1));
                          let (c, as) = go_local c screen spot;
                          Some (c, to_edge # as)
                        }
                      else
                        (let (c, as) = enter_from_remote c nxt q
                         in Some (c, [to_edge, Send screen Leave] @ as))
                    }
                | None \<Rightarrow> do { p \<leftarrow> nearest_point moved mons; Some (stay p) }
              }))"

section \<open>Keys\<close>

definition as_action :: "nat \<Rightarrow> key_action \<Rightarrow> server_msg" where
  "as_action hid act = Key \<lparr>ke_hid = hid, ke_ch = None, ke_mods = mm_empty, ke_action = act\<rparr>"

definition on_key :: "core \<Rightarrow> key_event \<Rightarrow> core \<times> action list" where
  "on_key c k =
     (case bm_get (c_fired c) (ke_hid k) of
        Some act \<Rightarrow>
          (let c = (if ke_action k = Up then c\<lparr>c_fired := bm_remove (ke_hid k) (c_fired c)\<rparr> else c)
           in (c, forward c (as_action act (ke_action k))))
      | None \<Rightarrow>
          (case (if ke_action k = Down \<and> active_remote c \<noteq> None
                 then find (\<lambda>r. rule_matches r (ke_hid k) (ke_mods k)) (c_rules c) else None) of
             None \<Rightarrow> (c, forward c (Key k))
           | Some r \<Rightarrow>
               (let releases = concat (map (\<lambda>(bits, keys).
                      if mm_contains (ru_mods r) bits then concat (map (\<lambda>hid. forward c (as_action hid Up)) keys)
                      else []) MODIFIER_KEYS);
                    as = releases @ forward c (as_action (ru_action r) Down)
                in (c\<lparr>c_fired := bm_insert (ke_hid k) (ru_action r) (c_fired c)\<rparr>, as))))"

definition handle :: "core \<Rightarrow> capture_event \<Rightarrow> nat \<Rightarrow> (core \<times> action list) option" where
  "handle c ev now =
     (case ev of
        Pointer p \<Rightarrow> Some (on_pointer c p now)
      | Hotkey \<Rightarrow> on_hotkey c
      | GrabFailed \<Rightarrow> Some (on_grab_failed c)
      | Motion dx dy \<Rightarrow> on_motion c dx dy
      | CButton b down \<Rightarrow> Some (c, forward c (Mouse (MouseButton b down)))
      | CWheel dx dy \<Rightarrow> Some (c, forward c (Mouse (Wheel dx dy)))
      | CKey k \<Rightarrow> Some (on_key c k))"

section \<open>The shell\<close>

datatype hub_event =
    Connected string "rect list"
  | Disconnected string
  | Positions "(string, point) bmap"
  | Sizes "(string, size2) bmap"
  | ScreenAdded string
  | LocalMonitors "rect list"

datatype router_event = Ev capture_event nat | HubEv hub_event

fun core_step :: "core \<Rightarrow> router_event \<Rightarrow> (core \<times> action list) option" where
  "core_step c (Ev ev now) = handle c ev now"
| "core_step c (HubEv (Connected n ms)) = map_option (\<lambda>c. (c, [])) (client_connected c n ms)"
| "core_step c (HubEv (Positions ps)) = map_option (\<lambda>c. (c, [])) (set_positions c ps)"
| "core_step c (HubEv (Sizes ss)) = map_option (\<lambda>c. (c, [])) (set_sizes c ss)"
| "core_step c (HubEv (ScreenAdded n)) = map_option (\<lambda>c. (c, [])) (core_add_screen c n)"
| "core_step c (HubEv (LocalMonitors ms)) = map_option (\<lambda>c. (c, [])) (set_local_monitors c ms)"
| "core_step c (HubEv (Disconnected n)) = client_disconnected c n"

section \<open>The invariant\<close>

lemma pt_eta [simp]: "Pt (pt_x q) (pt_y q) = q"
  by simp

lemma bm_remove_subset: "set (bm_remove k m) \<subseteq> set m"
  by (auto simp: bm_remove_def)

definition core_ok :: "core \<Rightarrow> bool" where
  "core_ok c \<longleftrightarrow> bm_ok (c_positions c) \<and> bm_ok (c_connected c)
     \<and> mons_ok (c_local_monitors c) \<and> (\<forall>(n, ms) \<in> set (c_connected c). mons_ok ms)
     \<and> \<not> bm_has (c_connected c) (c_local c) \<and> sp_jump_zone (c_policy c) \<le> 1000000
     \<and> (\<forall>s p. c_state c = Remote s p \<longrightarrow> bm_has (c_connected c) s)"

text \<open>What handling a capture event may change.\<close>

definition moved :: "core \<Rightarrow> core \<Rightarrow> bool" where
  "moved c c' \<longleftrightarrow> c_layout c' = c_layout c \<and> c_policy c' = c_policy c \<and> c_local c' = c_local c
     \<and> c_local_monitors c' = c_local_monitors c \<and> c_positions c' = c_positions c \<and> c_sizes c' = c_sizes c
     \<and> c_origins c' = c_origins c \<and> c_connected c' = c_connected c \<and> c_rules c' = c_rules c"

lemma movedD:
  assumes "moved c c'"
  shows "c_layout c' = c_layout c" "c_policy c' = c_policy c" "c_local c' = c_local c"
    "c_local_monitors c' = c_local_monitors c" "c_positions c' = c_positions c" "c_sizes c' = c_sizes c"
    "c_origins c' = c_origins c" "c_connected c' = c_connected c" "c_rules c' = c_rules c"
  using assms by (simp_all only: moved_def)

lemma moved_refl [simp]: "moved c c"
  by (simp add: moved_def)

lemma moved_upd [simp]:
  "moved c (c'\<lparr>c_state := st\<rparr>) = moved c c'" "moved c (c'\<lparr>c_last_local := ll\<rparr>) = moved c c'"
  "moved c (c'\<lparr>c_switch := sw\<rparr>) = moved c c'" "moved c (c'\<lparr>c_seq := sq\<rparr>) = moved c c'"
  "moved c (c'\<lparr>c_fired := fd\<rparr>) = moved c c'"
  by (simp_all add: moved_def)

lemma moved_ok:
  assumes "core_ok c" "moved c c'"
    and "\<And>s p. c_state c' = Remote s p \<Longrightarrow> bm_has (c_connected c) s"
  shows "core_ok c'"
  using assms(1,3) movedD [OF assms(2)] by (simp add: core_ok_def)

lemma monitors_of_cong:
  "c_local c' = c_local c \<Longrightarrow> c_local_monitors c' = c_local_monitors c \<Longrightarrow> c_connected c' = c_connected c \<Longrightarrow>
   monitors_of c' n = monitors_of c n"
  by (simp add: monitors_of_def)

lemma monitors_of_upd [simp]:
  "monitors_of (c\<lparr>c_state := st\<rparr>) = monitors_of c" "monitors_of (c\<lparr>c_last_local := ll\<rparr>) = monitors_of c"
  "monitors_of (c\<lparr>c_switch := sw\<rparr>) = monitors_of c" "monitors_of (c\<lparr>c_seq := sq\<rparr>) = monitors_of c"
  "monitors_of (c\<lparr>c_fired := fd\<rparr>) = monitors_of c" "monitors_of (c\<lparr>c_origins := og\<rparr>) = monitors_of c"
  by (rule ext, simp add: monitors_of_def)+

lemma moved_monitors: "moved c c' \<Longrightarrow> monitors_of c' = monitors_of c"
  by (intro ext monitors_of_cong) (simp_all add: movedD)

lemma core_ok_mons:
  assumes "core_ok c" "bm_has (c_connected c) n"
  shows "mons_ok (monitors_of c n)" "n \<noteq> c_local c"
proof -
  obtain ms where ms: "bm_get (c_connected c) n = Some ms" using assms(2) by (auto simp: bm_has_iff)
  show n: "n \<noteq> c_local c" using assms by (auto simp: core_ok_def)
  show "mons_ok (monitors_of c n)"
    using assms(1) bm_getD [OF ms] n by (auto simp: core_ok_def monitors_of_def ms)
qed

lemma core_ok_remote: "core_ok c \<Longrightarrow> c_state c = Remote s p \<Longrightarrow> bm_has (c_connected c) s"
  by (simp add: core_ok_def)

lemma core_ok_local [simp]: "core_ok c \<Longrightarrow> mons_ok (monitors_of c (c_local c))"
  by (simp add: core_ok_def monitors_of_def)

lemma refresh_origins_Some:
  assumes "bm_ok (c_positions c)"
  shows "\<exists>og. refresh_origins c = Some (c\<lparr>c_origins := og\<rparr>)"
  using effective_origins_spec [OF assms, of "la_screens (c_layout c)" "c_local c" "c_layout c" "size_of c"]
  by (auto simp: refresh_origins_def)

lemma locate_SomeD:
  assumes "locate c v ex = Some (n, q)"
  shows "n \<noteq> ex" "n = c_local c \<or> bm_has (c_connected c) n" "on_mons (monitors_of c n) q"
    "q = to_local (frame_of c n) v"
  using find_map_SomeD [OF assms [unfolded locate_def]]
  by (auto simp: bm_has_def on_mons_def Let_def split: if_splits)

lemma home_monitor_mem: "home_monitor c = Some m \<Longrightarrow> m \<in> set (c_local_monitors c)"
  by (auto simp: home_monitor_def split: option.splits if_splits list.splits dest: find_SomeD)

lemma snap_into_on:
  assumes "mons_ok (monitors_of c n)"
  shows "\<exists>q. snap_into c n p = Some q \<and> on_mons (monitors_of c n) q"
  using assms nearest_point_on [OF assms, of p] by (simp add: snap_into_def mons_ok_def)

lemma local_center_on:
  assumes "core_ok c"
  shows "\<exists>q. local_center c = Some q \<and> on_mons (c_local_monitors c) q"
  using snap_into_on [OF core_ok_local [OF assms]] by (auto simp: local_center_def monitors_of_def)

section \<open>The turns of the cursor\<close>

text \<open>
  The contract of the router, without geometry or policy: one turn of input ownership. Every
  position it announces lies on a monitor of the machine that is told about it.
\<close>

definition input_msg :: "rect list \<Rightarrow> server_msg \<Rightarrow> bool" where
  "input_msg mons m \<longleftrightarrow> (\<exists>k. m = Key k) \<or> (\<exists>x y. m = Mouse (MoveAbs x y) \<and> on_mons mons (Pt x y))
     \<or> (\<exists>b d. m = Mouse (MouseButton b d)) \<or> (\<exists>dx dy. m = Mouse (Wheel dx dy))"

definition enter_msg :: "core \<Rightarrow> point \<Rightarrow> server_msg" where
  "enter_msg c q = Enter (pt_x q) (pt_y q) (u64 (c_seq c + 1)) mm_empty"

definition inputs_to :: "core \<Rightarrow> string \<Rightarrow> action list \<Rightarrow> bool" where
  "inputs_to c s as \<longleftrightarrow> (\<forall>a \<in> set as. \<exists>m. a = Send s m \<and> input_msg (monitors_of c s) m)"

inductive turn :: "core \<Rightarrow> action list \<Rightarrow> core \<Rightarrow> bool" where
  quiet: "moved c c' \<Longrightarrow> c_state c' = c_state c \<Longrightarrow> c_seq c' = c_seq c \<Longrightarrow> turn c [] c'"
| input: "moved c c' \<Longrightarrow> c_state c = Remote s p \<Longrightarrow> c_state c' = Remote s p' \<Longrightarrow> c_seq c' = c_seq c \<Longrightarrow>
    inputs_to c s as \<Longrightarrow> turn c as c'"
| grab: "moved c c' \<Longrightarrow> c_state c = Local \<Longrightarrow> c_state c' = Remote t q \<Longrightarrow> c_seq c' = u64 (c_seq c + 1) \<Longrightarrow>
    bm_has (c_connected c) t \<Longrightarrow> on_mons (monitors_of c t) q \<Longrightarrow>
    turn c [Capture Grab, Send t (enter_msg c q)] c'"
| release: "moved c c' \<Longrightarrow> c_state c = Remote s p \<Longrightarrow> c_state c' = Local \<Longrightarrow> c_seq c' = c_seq c \<Longrightarrow>
    inputs_to c s pre \<Longrightarrow> on_mons (c_local_monitors c) w \<Longrightarrow>
    turn c (pre @ [Send s Leave, Capture (Ungrab w)]) c'"
| failed: "moved c c' \<Longrightarrow> c_state c = Remote s p \<Longrightarrow> c_state c' = Local \<Longrightarrow> c_seq c' = c_seq c \<Longrightarrow>
    turn c [Send s Leave] c'"
| cross: "moved c c' \<Longrightarrow> c_state c = Remote s p \<Longrightarrow> c_state c' = Remote t q \<Longrightarrow> c_seq c' = u64 (c_seq c + 1) \<Longrightarrow>
    s \<noteq> t \<Longrightarrow> inputs_to c s pre \<Longrightarrow> bm_has (c_connected c) t \<Longrightarrow> on_mons (monitors_of c t) q \<Longrightarrow>
    turn c (pre @ [Send s Leave, Send t (enter_msg c q)]) c'"

inductive_cases turn_elim: "turn c as c'"

lemma turn_moved: "turn c as c' \<Longrightarrow> moved c c'"
  by (auto elim: turn_elim)

lemma turn_ok:
  assumes "core_ok c" "turn c as c'"
  shows "core_ok c'"
  using assms(2)
proof cases
  case quiet
  show ?thesis
  proof (rule moved_ok [OF assms(1) quiet(2)])
    fix s p assume "c_state c' = Remote s p"
    then show "bm_has (c_connected c) s" using core_ok_remote [OF assms(1)] quiet(3) by simp
  qed
next
  case (input s p p')
  then show ?thesis by (intro moved_ok [OF assms(1)]) (auto simp: core_ok_remote [OF assms(1)])
qed (auto intro!: moved_ok [OF assms(1)])

subsection \<open>Every capture event is a turn\<close>

lemma enter_turn:
  assumes "moved c c1" "c_state c = Local" "c_seq c1 = c_seq c" "bm_has (c_connected c) t" "on_mons (monitors_of c t) q"
    "enter c1 t q = (c', as)"
  shows "turn c as c'"
proof -
  have "as = [Capture Grab, Send t (enter_msg c q)]"
    and c': "c' = c1\<lparr>c_seq := u64 (c_seq c + 1), c_switch := switched (c_switch c1), c_state := Remote t q\<rparr>"
    using assms(3,6) by (auto simp: enter_def enter_from_remote_def enter_msg_def Let_def)
  moreover have "turn c [Capture Grab, Send t (enter_msg c q)] c'"
    using assms(1-5) by (intro grab) (simp_all add: c')
  ultimately show ?thesis by simp
qed

lemma on_pointer_turn:
  assumes ok: "core_ok c" and r: "on_pointer c p now = (c', as)"
  shows "turn c as c'"
proof (cases "c_state c = Local")
  case False
  then show ?thesis using r by (auto simp: on_pointer_def intro: quiet)
next
  case True
  show ?thesis
  proof (cases "find (\<lambda>m. rect_contains m p) (c_local_monitors c)")
    case None
    then show ?thesis using r True by (auto simp: on_pointer_def intro: quiet)
  next
    case (Some m)
    let ?c = "c\<lparr>c_last_local := Some m\<rparr>"
    show ?thesis
    proof (cases "find_map (edge_hit ?c m p) edge_all")
      case None
      then show ?thesis using r True Some by (auto simp: on_pointer_def Let_def intro!: quiet)
    next
      case hit: (Some h)
      obtain e t q where h: "h = (e, t, q)" by (cases h)
      obtain sw d where ev: "evaluate (c_policy c) (c_switch c) now e True
          (near_corner m p e (sp_corner_size (c_policy c))) = (sw, d)" by fastforce
      have res: "(c', as) = (case d of Switch \<Rightarrow> enter (?c\<lparr>c_switch := sw\<rparr>) t q | _ \<Rightarrow> (?c\<lparr>c_switch := sw\<rparr>, []))"
        using r True Some hit h ev by (simp add: on_pointer_def Let_def)
      have loc: "locate ?c (to_desk (frame_of ?c (c_local ?c)) (step_point p e (jump_of ?c))) (c_local ?c) = Some (t, q)"
        using find_map_SomeD [OF hit] h by (auto simp: edge_hit_def Let_def split: if_splits option.splits)
      from locate_SomeD [OF this] have tq: "bm_has (c_connected c) t" "on_mons (monitors_of c t) q" by auto
      show ?thesis
      proof (cases d)
        case Switch
        then have "enter (?c\<lparr>c_switch := sw\<rparr>) t q = (c', as)" using res by simp
        then show ?thesis using True tq by (intro enter_turn [of c "?c\<lparr>c_switch := sw\<rparr>"]) auto
      qed (use res in \<open>auto intro!: quiet\<close>)
    qed
  qed
qed

lemma forward_turn:
  assumes "input_msg (case c_state c of Remote s _ \<Rightarrow> monitors_of c s | Local \<Rightarrow> []) m"
  shows "turn c (forward c m) c"
  using assms by (cases "c_state c") (auto simp: forward_def inputs_to_def intro: quiet input)

lemma on_grab_failed_turn: "on_grab_failed c = (c', as) \<Longrightarrow> turn c as c'"
  by (cases "c_state c") (auto simp: on_grab_failed_def intro!: quiet failed)

lemma forwards_turn:
  assumes "moved c c'" "c_state c' = c_state c" "c_seq c' = c_seq c"
    and "\<forall>a \<in> set as. \<exists>k. a \<in> set (forward c (Key k))"
  shows "turn c as c'"
proof (cases "c_state c")
  case Local
  then have "as = []" using assms(4) by (cases as) (auto simp: forward_def)
  then show ?thesis using assms by (auto intro: quiet)
next
  case (Remote s p)
  then have "inputs_to c s as" using assms(4) by (fastforce simp: forward_def inputs_to_def input_msg_def)
  then show ?thesis using assms Remote by (auto intro: input)
qed

lemma on_key_turn:
  assumes "on_key c k = (c', as)"
  shows "turn c as c'"
proof (rule forwards_turn)
  show "moved c c'" "c_state c' = c_state c" "c_seq c' = c_seq c"
    using assms by (auto simp: on_key_def Let_def split: option.splits if_splits)
  have "\<forall>a \<in> set as. \<exists>k. a \<in> set (forward c (Key k))"
    using assms by (auto simp: on_key_def Let_def as_action_def forward_def split: option.splits if_splits state.splits)
  then show "\<forall>a \<in> set as. \<exists>k. a \<in> set (forward c (Key k))" .
qed

lemma go_local_turn:
  assumes "go_local c s w = (c', as)" "c_state c = Remote s p" "on_mons (c_local_monitors c) w" "inputs_to c s pre"
  shows "turn c (pre @ as) c'"
proof -
  have "as = [Send s Leave, Capture (Ungrab w)]" "c' = c\<lparr>c_state := Local, c_switch := switched (c_switch c)\<rparr>"
    using assms(1) by (auto simp: go_local_def)
  then show ?thesis using assms(2-4) by (auto intro: release)
qed

lemma min_pair_mem: "min_pair b xs \<in> set (b # xs)"
  by (induction b xs rule: min_pair.induct) (auto split: if_splits)

lemma hotkey_candidates_mem:
  assumes "(d, n) \<in> set (hotkey_candidates c lc)"
  shows "bm_has (c_connected c) n"
  using assms by (force simp: hotkey_candidates_def bm_has_def bm_keys_def split: option.splits)

lemma on_hotkey_turn:
  assumes ok: "core_ok c"
  shows "\<exists>c' as. on_hotkey c = Some (c', as) \<and> turn c as c'"
proof (cases "c_state c")
  case (Remote s p)
  obtain q where q: "local_center c = Some q" "on_mons (c_local_monitors c) q"
    using local_center_on [OF ok] by blast
  obtain c' as where g: "go_local c s q = (c', as)" by fastforce
  have "turn c ([] @ as) c'" by (rule go_local_turn [OF g Remote q(2)]) (simp add: inputs_to_def)
  then show ?thesis using Remote q g by (simp add: on_hotkey_def)
next
  case Local
  let ?lc = "to_desk (frame_of c (c_local c)) (center_or_origin (c_local_monitors c))"
  show ?thesis
  proof (cases "hotkey_candidates c ?lc")
    case Nil
    then show ?thesis using Local by (auto simp: on_hotkey_def intro: quiet)
  next
    case (Cons x xs)
    define t where "t = snd (min_pair x xs)"
    have "min_pair x xs \<in> set (hotkey_candidates c ?lc)" using min_pair_mem [of x xs] Cons by simp
    then have t: "bm_has (c_connected c) t"
      using hotkey_candidates_mem [of "fst (min_pair x xs)" t] by (simp add: t_def)
    then obtain ms where ms: "bm_get (c_connected c) t = Some ms" by (auto simp: bm_has_iff)
    obtain q where q: "snap_into c t (center_or_origin ms) = Some q" "on_mons (monitors_of c t) q"
      using snap_into_on [OF core_ok_mons(1) [OF ok t]] by blast
    obtain c' as where e: "enter c t q = (c', as)" by fastforce
    have "on_hotkey c = Some (c', as)"
      using Local Cons ms q(1) e by (simp add: on_hotkey_def t_def)
    then show ?thesis using enter_turn [OF moved_refl Local refl t q(2) e] by blast
  qed
qed

lemma on_motion_turn:
  assumes ok: "core_ok c"
  shows "\<exists>c' as. on_motion c dx dy = Some (c', as) \<and> turn c as c'"
proof (cases "c_state c")
  case Local
  then show ?thesis by (auto simp: on_motion_def intro: quiet)
next
  case (Remote s p)
  let ?ms = "monitors_of c s"
  have s: "bm_has (c_connected c) s" using core_ok_remote [OF ok Remote] .
  have mok: "mons_ok ?ms" and ne: "?ms \<noteq> []" using core_ok_mons [OF ok s] by (auto simp: mons_ok_def)
  obtain p0 where p0: "nearest_point p ?ms = Some p0" using nearest_point_on [OF mok] by blast
  define mv where "mv = Pt (i32 (pt_x p0 + dx)) (i32 (pt_y p0 + dy))"
  obtain e where e: "nearest_point mv ?ms = Some e" "on_mons ?ms e" using nearest_point_on [OF mok] by blast
  have stay: "turn c [Send s (Mouse (MoveAbs (pt_x q) (pt_y q)))] (c\<lparr>c_state := Remote s q\<rparr>)"
    if "on_mons ?ms q" for q
    using that Remote by (auto simp: inputs_to_def input_msg_def intro!: input)
  have edge: "inputs_to c s [Send s (Mouse (MoveAbs (pt_x e) (pt_y e)))]"
    using e(2) by (auto simp: inputs_to_def input_msg_def)
  have red: "on_motion c dx dy =
      (if \<exists>m \<in> set ?ms. rect_contains m mv then Some (c\<lparr>c_state := Remote s mv\<rparr>, [Send s (Mouse (MoveAbs (pt_x mv) (pt_y mv)))])
       else case locate c (to_desk (frame_of c s) mv) s of
         None \<Rightarrow> Some (c\<lparr>c_state := Remote s e\<rparr>, [Send s (Mouse (MoveAbs (pt_x e) (pt_y e)))])
       | Some (nxt, q) \<Rightarrow>
           (let to_edge = Send s (Mouse (MoveAbs (pt_x e) (pt_y e)))
            in if nxt = c_local c then
                 do {
                   first \<leftarrow> (case c_local_monitors c of [] \<Rightarrow> None | m # _ \<Rightarrow> Some m);
                   let lm = (case find (\<lambda>m. rect_contains m q) (c_local_monitors c) of Some m \<Rightarrow> m | None \<Rightarrow> first);
                   spot \<leftarrow> inset_clamp q lm (i32 (jump_of c + 1));
                   let (c', as) = go_local c s spot;
                   Some (c', to_edge # as)
                 }
               else (let (c', as) = enter_from_remote c nxt q in Some (c', [to_edge, Send s Leave] @ as))))"
    using Remote ne p0 e(1) unfolding mv_def by (simp add: on_motion_def split: option.split)
  show ?thesis
  proof (cases "\<exists>m \<in> set ?ms. rect_contains m mv")
    case True
    then show ?thesis using red stay [of mv] by (auto simp: on_mons_def)
  next
    case off: False
    show ?thesis
    proof (cases "locate c (to_desk (frame_of c s) mv) s")
      case None
      then show ?thesis using red off stay [OF e(2)] by auto
    next
      case (Some nq)
      obtain nxt q where nq: "nq = (nxt, q)" by (cases nq)
      note loc = locate_SomeD [OF Some [unfolded nq]]
      show ?thesis
      proof (cases "nxt = c_local c")
        case True
        obtain m ms where ms: "c_local_monitors c = m # ms" and lok: "\<forall>m \<in> set (c_local_monitors c). rect_ok m"
          using ok by (cases "c_local_monitors c") (auto simp: core_ok_def mons_ok_def)
        define lm where "lm = (case find (\<lambda>m. rect_contains m q) (c_local_monitors c) of Some m \<Rightarrow> m | None \<Rightarrow> m)"
        have lm: "lm \<in> set (c_local_monitors c)"
        proof (cases "find (\<lambda>m. rect_contains m q) (c_local_monitors c)")
          case (Some m')
          then show ?thesis using find_SomeD [OF Some] unfolding lm_def by simp
        qed (simp add: lm_def ms)
        have j: "i32 (jump_of c + 1) = jump_of c + 1" "1 \<le> jump_of c" "jump_of c \<le> 1000000"
          using ok by (auto simp: core_ok_def jump_of_def intro!: i32_small)
        obtain w where w: "inset_clamp q lm (i32 (jump_of c + 1)) = Some w" "rect_contains lm w"
          using inset_clamp_ok [of lm "jump_of c + 1" q] lok lm j by fastforce
        obtain c' as where g: "go_local c s w = (c', as)" by fastforce
        have "on_mons (c_local_monitors c) w" using lm w(2) by (auto simp: on_mons_def)
        from go_local_turn [OF g Remote this edge] show ?thesis
          using red off Some nq True ms w(1) g by (simp add: lm_def)
      next
        case False
        then have n: "bm_has (c_connected c) nxt" using loc(2) by simp
        obtain c' as where en: "enter_from_remote c nxt q = (c', as)" by fastforce
        have as: "as = [Send nxt (enter_msg c q)]"
          and c': "c' = c\<lparr>c_seq := u64 (c_seq c + 1), c_switch := switched (c_switch c), c_state := Remote nxt q\<rparr>"
          using en by (auto simp: enter_from_remote_def enter_msg_def Let_def)
        have "turn c ([Send s (Mouse (MoveAbs (pt_x e) (pt_y e)))] @ [Send s Leave, Send nxt (enter_msg c q)]) c'"
          using loc n edge Remote by (intro cross [where p = p and q = q]) (simp_all add: c')
        then show ?thesis using red off Some nq False en as by simp
      qed
    qed
  qed
qed

lemma handle_turn:
  assumes "core_ok c"
  shows "\<exists>c' as. handle c ev now = Some (c', as) \<and> turn c as c'"
proof (cases ev)
  case (Pointer p)
  then show ?thesis using on_pointer_turn [OF assms] by (cases "on_pointer c p now") (auto simp: handle_def)
next
  case (Motion dx dy)
  then show ?thesis using on_motion_turn [OF assms] by (simp add: handle_def)
next
  case Hotkey
  then show ?thesis using on_hotkey_turn [OF assms] by (simp add: handle_def)
next
  case GrabFailed
  then show ?thesis using on_grab_failed_turn by (cases "on_grab_failed c") (auto simp: handle_def)
next
  case (CKey k)
  then show ?thesis using on_key_turn by (cases "on_key c k") (auto simp: handle_def)
next
  case (CButton b d)
  then show ?thesis using forward_turn by (auto simp: handle_def input_msg_def)
next
  case (CWheel x y)
  then show ?thesis using forward_turn by (auto simp: handle_def input_msg_def)
qed

lemma handle_SomeD:
  assumes "core_ok c" "handle c ev now = Some (c', as)"
  shows "turn c as c'" "core_ok c'" "moved c c'"
proof -
  show t: "turn c as c'" using handle_turn [OF assms(1), of ev now] assms(2) by auto
  show "core_ok c'" by (rule turn_ok [OF assms(1) t])
  show "moved c c'" by (rule turn_moved [OF t])
qed

section \<open>Connection changes keep the invariant\<close>

text \<open>What the rest of the server promises the router about an event.\<close>

fun good_event :: "string \<Rightarrow> router_event \<Rightarrow> bool" where
  "good_event local (Ev _ _) = True"
| "good_event local (HubEv (Connected n ms)) = (n \<noteq> local \<and> mons_ok ms)"
| "good_event local (HubEv (Positions ps)) = bm_ok ps"
| "good_event local (HubEv (LocalMonitors ms)) = (\<forall>m \<in> set ms. rect_ok m)"
| "good_event local (HubEv _) = True"

definition core_inv :: "string \<Rightarrow> core \<Rightarrow> bool" where
  "core_inv local c \<longleftrightarrow> core_ok c \<and> c_local c = local"

lemma bm_insert_forall: "\<forall>(k, v) \<in> set m. P v \<Longrightarrow> P w \<Longrightarrow> \<forall>(k, v) \<in> set (bm_insert a w m). P v"
  by (fastforce dest: set_bm_insertD)

lemma core_ok_origins [simp]: "core_ok (c\<lparr>c_origins := og\<rparr>) = core_ok c"
  by (simp add: core_ok_def)

lemma client_disconnected_spec:
  assumes "core_ok c"
  shows "\<exists>c' as. client_disconnected c n = Some (c', as) \<and> core_ok c' \<and> c_local c' = c_local c
    \<and> c_seq c' = c_seq c \<and> c_connected c' = bm_remove n (c_connected c)
    \<and> (if active_remote c = Some n
       then c_state c' = Local \<and> (\<exists>w. as = [Capture (Ungrab w)] \<and> on_mons (c_local_monitors c) w)
       else c_state c' = c_state c \<and> as = [])"
proof -
  let ?c = "c\<lparr>c_connected := bm_remove n (c_connected c)\<rparr>"
  have pos: "bm_ok (c_positions ?c)" using assms by (simp add: core_ok_def)
  obtain og where og: "refresh_origins ?c = Some (?c\<lparr>c_origins := og\<rparr>)" using refresh_origins_Some [OF pos] by blast
  let ?d = "?c\<lparr>c_origins := og\<rparr>"
  have base: "core_ok (?d\<lparr>c_state := Local, c_switch := sw\<rparr>)" for sw
    using assms bm_remove_subset [of n "c_connected c"] by (auto simp: core_ok_def)
  show ?thesis
  proof (cases "active_remote c = Some n")
    case True
    then obtain p where st: "c_state c = Remote n p" by (auto simp: active_remote_def split: state.splits)
    let ?e = "?d\<lparr>c_state := Local, c_switch := switched (c_switch c)\<rparr>"
    obtain w where w: "local_center ?e = Some w" "on_mons (c_local_monitors c) w"
      using local_center_on [OF base] by auto
    have "client_disconnected c n = Some (?e, [Capture (Ungrab w)])"
      using og st w(1) by (simp add: client_disconnected_def)
    then show ?thesis using base w(2) True by simp
  next
    case False
    then have ne: "c_state c \<noteq> Remote n p" for p by (auto simp: active_remote_def)
    have "core_ok ?d"
      using assms ne bm_remove_subset [of n "c_connected c"] by (auto simp: core_ok_def)
    moreover have "client_disconnected c n = Some (?d, [])"
      using og ne by (auto simp: client_disconnected_def split: state.splits)
    ultimately show ?thesis using False by simp
  qed
qed

lemma hub_event_quiet:
  assumes "core_ok c" "good_event (c_local c) (HubEv h)" "\<And>n. h \<noteq> Disconnected n"
  shows "\<exists>c'. core_step c (HubEv h) = Some (c', []) \<and> core_ok c' \<and> c_local c' = c_local c
    \<and> c_state c' = c_state c \<and> c_seq c' = c_seq c"
proof -
  have fin: "\<exists>c'. map_option (\<lambda>c. (c, [] :: action list)) (refresh_origins d) = Some (c', []) \<and> core_ok c'
      \<and> c_local c' = c_local c \<and> c_state c' = c_state c \<and> c_seq c' = c_seq c"
    if "core_ok d" "c_local d = c_local c" "c_state d = c_state c" "c_seq d = c_seq c" for d
    using refresh_origins_Some [of d] that by (force simp: core_ok_def)
  show ?thesis
  proof (cases h)
    case (Connected n ms)
    have "core_ok (c\<lparr>c_connected := bm_insert n ms (c_connected c)\<rparr>)"
      using assms(1,2) bm_insert_forall [of "c_connected c" mons_ok ms n] by (auto simp: core_ok_def Connected)
    then show ?thesis using fin by (simp add: Connected client_connected_def)
  next
    case (Positions ps)
    have "core_ok (c\<lparr>c_positions := ps\<rparr>)" using assms(1,2) by (simp add: core_ok_def Positions)
    then show ?thesis using fin by (simp add: Positions set_positions_def)
  next
    case (Sizes ss)
    have "core_ok (c\<lparr>c_sizes := ss\<rparr>)" using assms(1) by (simp add: core_ok_def)
    then show ?thesis using fin by (simp add: Sizes set_sizes_def)
  next
    case (ScreenAdded n)
    have "core_ok (c\<lparr>c_layout := l\<rparr>)" for l using assms(1) by (simp add: core_ok_def)
    then show ?thesis using fin assms(1)
      by (auto simp: ScreenAdded core_add_screen_def split: prod.splits bool.splits)
  next
    case (LocalMonitors ms)
    show ?thesis
    proof (cases "ms = [] \<or> ms = c_local_monitors c")
      case True
      then show ?thesis using assms(1) by (auto simp: LocalMonitors set_local_monitors_def)
    next
      case False
      have "core_ok (c\<lparr>c_local_monitors := ms\<rparr>)" "core_ok (c\<lparr>c_local_monitors := ms, c_last_local := None\<rparr>)"
        using assms(1,2) False by (auto simp: core_ok_def LocalMonitors mons_ok_def)
      then show ?thesis using fin False
        by (auto simp: LocalMonitors set_local_monitors_def Let_def split: option.splits)
    qed
  qed (use assms(3) in simp)
qed

end
