(* ===== verification/Router_Spec.thy ===== *)
theory Router_Spec
  imports Router
begin

text \<open>
  What \<^verbatim>\<open>Core\<close> promises over a whole session: an automaton for the ownership of the input that
  every sequence of actions obeys, the continuity of an edge crossing, the behaviour of key rules,
  and the action pump of \<^verbatim>\<open>run_shared\<close>, which feeds failed sends back into the core.
\<close>

section \<open>One owner at a time\<close>

text \<open>
  The abstract owner of the keyboard and mouse: nobody, somebody about to be told, a screen, or a
  screen just left (which still waits for the local grab to be released or for the next screen).
  The number is the sequence number of the last \<^verbatim>\<open>Enter\<close>.
\<close>

datatype phase = Idle | Entering | Held string | Left_from string

type_synonym owner = "phase \<times> nat"

fun owner_step :: "owner \<Rightarrow> action \<Rightarrow> owner option" where
  "owner_step (Idle, k) (Capture Grab) = Some (Entering, k)"
| "owner_step (Left_from n, k) (Capture Grab) = Some (Entering, k)"
| "owner_step (Entering, k) (Send t (Enter x y s m)) =
     (if s = u64 (k + 1) \<and> m = mm_empty then Some (Held t, s) else None)"
| "owner_step (Left_from n, k) (Send t (Enter x y s m)) =
     (if t \<noteq> n \<and> s = u64 (k + 1) \<and> m = mm_empty then Some (Held t, s) else None)"
| "owner_step (Held n, k) (Send t Leave) = (if t = n then Some (Left_from n, k) else None)"
| "owner_step (Held n, k) (Send t (Key _)) = (if t = n then Some (Held n, k) else None)"
| "owner_step (Held n, k) (Send t (Mouse _)) = (if t = n then Some (Held n, k) else None)"
| "owner_step (Held n, k) (Capture (Ungrab _)) = Some (Idle, k)"
| "owner_step (Left_from n, k) (Capture (Ungrab _)) = Some (Idle, k)"
| "owner_step _ _ = None"

definition owned_by :: "core \<Rightarrow> owner \<Rightarrow> bool" where
  "owned_by c q \<longleftrightarrow> snd q = c_seq c
     \<and> (case c_state c of Local \<Rightarrow> fst q = Idle \<or> (\<exists>n. fst q = Left_from n) | Remote s _ \<Rightarrow> fst q = Held s)"

lemma accepts_inputs:
  assumes "inputs_to c s as"
  shows "accepts owner_step (Held s, k) as = Some (Held s, k)"
  using assms
proof (induction as)
  case (Cons a as)
  then obtain m where a: "a = Send s m" "input_msg (monitors_of c s) m" and "inputs_to c s as"
    by (auto simp: inputs_to_def)
  moreover have "owner_step (Held s, k) a = Some (Held s, k)"
    using a by (auto simp: input_msg_def)
  ultimately show ?case using Cons.IH by simp
qed simp

lemma turn_owned:
  assumes "turn c as c'" "owned_by c q"
  shows "\<exists>q'. accepts owner_step q as = Some q' \<and> owned_by c' q'"
  using assms
proof (cases rule: turn.cases)
  case quiet
  then show ?thesis using assms(2) by (simp add: owned_by_def)
next
  case (input s p p')
  then have "q = (Held s, c_seq c)" using assms(2) by (cases q) (simp add: owned_by_def)
  then show ?thesis using input accepts_inputs [OF input(5)] by (simp add: owned_by_def)
next
  case (grab t p)
  then obtain ph where "q = (ph, c_seq c)" "ph = Idle \<or> (\<exists>n. ph = Left_from n)"
    using assms(2) by (cases q) (auto simp: owned_by_def)
  then show ?thesis using grab by (auto simp: owned_by_def enter_msg_def)
next
  case (release s p pre w)
  then have "q = (Held s, c_seq c)" using assms(2) by (cases q) (simp add: owned_by_def)
  then show ?thesis using release accepts_inputs [OF release(6)] by (simp add: owned_by_def accepts_append)
next
  case (failed s p)
  then have "q = (Held s, c_seq c)" using assms(2) by (cases q) (simp add: owned_by_def)
  then show ?thesis using failed by (simp add: owned_by_def)
next
  case (cross s p t p' pre)
  then have "q = (Held s, c_seq c)" using assms(2) by (cases q) (simp add: owned_by_def)
  then show ?thesis using cross accepts_inputs [OF cross(7)] by (simp add: owned_by_def accepts_append enter_msg_def)
qed

lemma core_step_spec:
  assumes "core_inv local c" "good_event local e"
  shows "\<exists>c' as. core_step c e = Some (c', as) \<and> core_inv local c'
    \<and> (\<forall>q. owned_by c q \<longrightarrow> (\<exists>q'. accepts owner_step q as = Some q' \<and> owned_by c' q'))"
proof (cases e)
  case (Ev ev now)
  obtain c' as where h: "handle c ev now = Some (c', as)" "turn c as c'"
    using handle_turn [of c ev now] assms by (auto simp: core_inv_def)
  then show ?thesis
    using assms turn_ok [OF _ h(2)] movedD(3) [OF turn_moved [OF h(2)]] turn_owned [OF h(2)]
    by (auto simp: Ev core_inv_def)
next
  case (HubEv h)
  show ?thesis
  proof (cases "\<exists>n. h = Disconnected n")
    case True
    then obtain n where n: "h = Disconnected n" by blast
    have ok: "core_ok c" "c_local c = local" using assms by (auto simp: core_inv_def)
    obtain c' as where d: "client_disconnected c n = Some (c', as)" "core_ok c'" "c_local c' = c_local c" "c_seq c' = c_seq c"
      "if active_remote c = Some n then c_state c' = Local \<and> (\<exists>w. as = [Capture (Ungrab w)] \<and> on_mons (c_local_monitors c) w)
       else c_state c' = c_state c \<and> as = []"
      using client_disconnected_spec [OF ok(1), of n] by blast
    have "\<exists>q'. accepts owner_step q as = Some q' \<and> owned_by c' q'" if "owned_by c q" for q
      using that d(4,5) by (cases q; cases "c_state c") (auto simp: owned_by_def active_remote_def split: if_splits)
    then show ?thesis using d ok by (simp add: HubEv n core_inv_def)
  next
    case False
    then show ?thesis
      using hub_event_quiet [of c h] assms by (fastforce simp: HubEv core_inv_def owned_by_def)
  qed
qed

interpretation router: monitored_machine core_step "good_event local" "core_inv local" owner_step owned_by
  for local
proof unfold_locales
  show "core_inv local c \<Longrightarrow> good_event local e \<Longrightarrow> \<exists>c' as. core_step c e = Some (c', as) \<and> core_inv local c'" for c e
    using core_step_spec by blast
  show "core_inv local c \<Longrightarrow> good_event local e \<Longrightarrow> owned_by c q \<Longrightarrow> core_step c e = Some (c', as) \<Longrightarrow>
      \<exists>q'. accepts owner_step q as = Some q' \<and> owned_by c' q'" for c e q c' as
    using core_step_spec [of local c e] by fastforce
qed

lemma core_new_inv:
  assumes "mons_ok ms" "bm_ok positions" "sp_jump_zone policy \<le> 1000000"
  shows "\<exists>c. core_new l policy local ms positions = Some c \<and> core_inv local c \<and> owned_by c (Idle, 0)"
proof -
  let ?c = "\<lparr>c_layout = l, c_policy = policy, c_local = local, c_local_monitors = ms,
        c_positions = positions, c_sizes = [], c_origins = [], c_connected = [], c_state = Local,
        c_last_local = None, c_switch = ss_new, c_seq = 0, c_rules = [], c_fired = []\<rparr>"
  have "core_ok ?c" using assms by (simp add: core_ok_def)
  then show ?thesis
    using refresh_origins_Some [of ?c] assms(2)
    by (auto simp: core_new_def core_inv_def owned_by_def core_ok_def)
qed

text \<open>The positions a turn announces.\<close>

definition announces_ok :: "core \<Rightarrow> action \<Rightarrow> bool" where
  "announces_ok c a \<longleftrightarrow>
     (\<forall>n x y. a = Send n (Mouse (MoveAbs x y)) \<longrightarrow> on_mons (monitors_of c n) (Pt x y))
     \<and> (\<forall>n x y s m. a = Send n (Enter x y s m) \<longrightarrow> on_mons (monitors_of c n) (Pt x y))
     \<and> (\<forall>w. a = Capture (Ungrab w) \<longrightarrow> on_mons (c_local_monitors c) w)"

lemma inputs_announce: "inputs_to c s as \<Longrightarrow> a \<in> set as \<Longrightarrow> announces_ok c a"
  unfolding inputs_to_def by (drule (1) bspec) (auto simp: announces_ok_def input_msg_def)

lemma turn_announces:
  assumes "turn c as c'"
  shows "\<forall>a \<in> set as. announces_ok c a"
proof -
  have e: "announces_ok c (Send t (enter_msg c q))" if "on_mons (monitors_of c t) q" for t q
    using that by (simp add: announces_ok_def enter_msg_def)
  have o: "announces_ok c (Send s Leave)" "announces_ok c (Capture Grab)" for s
    by (simp_all add: announces_ok_def)
  have w: "announces_ok c (Capture (Ungrab w))" if "on_mons (c_local_monitors c) w" for w
    using that by (simp add: announces_ok_def)
  show ?thesis
    using assms by (cases rule: turn.cases) (auto simp: e o w intro: inputs_announce)
qed

section \<open>The pump\<close>

text \<open>
  \<^verbatim>\<open>run_shared\<close> pops actions from the front; a send the hub refuses means the client vanished, and
  the core's answer is appended. The hub is whatever answers \<open>send\<close>; the grab commands are
  collected in order.
\<close>

definition is_send :: "action \<Rightarrow> bool" where
  "is_send a \<longleftrightarrow> (case a of Send _ _ \<Rightarrow> True | Capture _ \<Rightarrow> False)"

definition pump_cost :: "action list \<Rightarrow> nat" where
  "pump_cost as = length as + length (filter is_send as)"

lemma client_disconnected_shape:
  assumes "client_disconnected c n = Some (c', as)"
  shows "as = [] \<or> (\<exists>w. as = [Capture (Ungrab w)])"
proof -
  obtain d where d: "refresh_origins (c\<lparr>c_connected := bm_remove n (c_connected c)\<rparr>) = Some d"
    using assms by (cases "refresh_origins (c\<lparr>c_connected := bm_remove n (c_connected c)\<rparr>)")
      (simp_all add: client_disconnected_def)
  show ?thesis
    using assms d
    by (cases "c_state d") (auto simp: client_disconnected_def Let_def bind_eq_Some_conv split: if_splits)
qed

lemma client_disconnected_cost:
  "client_disconnected c n = Some (c', as) \<Longrightarrow> pump_cost as \<le> 1 \<and> filter is_send as = []"
  using client_disconnected_shape [of c n c' as] by (auto simp: pump_cost_def is_send_def)

function pump :: "('h \<Rightarrow> string \<Rightarrow> server_msg \<Rightarrow> 'h \<times> bool) \<Rightarrow> core \<Rightarrow> 'h \<Rightarrow> capture_cmd list \<Rightarrow> action list
    \<Rightarrow> (core \<times> 'h \<times> capture_cmd list) option" where
  "pump send c h cmds [] = Some (c, h, cmds)"
| "pump send c h cmds (Capture cmd # pending) = pump send c h (cmds @ [cmd]) pending"
| "pump send c h cmds (Send dest msg # pending) =
     (let r = send h dest msg
      in if snd r then pump send c (fst r) cmds pending
         else case client_disconnected c dest of None \<Rightarrow> None
              | Some d \<Rightarrow> pump send (fst d) (fst r) cmds (pending @ snd d))"
  by pat_completeness auto
termination
  by (relation "measure (\<lambda>(send, c, h, cmds, pending). pump_cost pending)")
    (auto simp: pump_cost_def is_send_def dest: client_disconnected_cost)

definition shell_step :: "('h \<Rightarrow> string \<Rightarrow> server_msg \<Rightarrow> 'h \<times> bool) \<Rightarrow> core \<Rightarrow> 'h \<Rightarrow> router_event
    \<Rightarrow> (core \<times> 'h \<times> capture_cmd list) option" where
  "shell_step send c h e = do { (c, as) \<leftarrow> core_step c e; pump send c h [] as }"

lemma pump_spec:
  assumes "core_ok c"
  shows "\<exists>c' h' cmds'. pump send c h cmds as = Some (c', h', cmds') \<and> core_ok c' \<and> c_local c' = c_local c
    \<and> (\<forall>n. bm_has (c_connected c') n \<longrightarrow> bm_has (c_connected c) n)"
  using assms
proof (induction send c h cmds as rule: pump.induct)
  case (1 send c h cmds)
  then show ?case by simp
next
  case (2 send c h cmds cmd pending)
  then show ?case by simp
next
  case (3 send c h cmds dest msg pending)
  show ?case
  proof (cases "snd (send h dest msg)")
    case True
    then show ?thesis using 3(1) [OF refl True] 3(3) by simp
  next
    case False
    obtain c1 as1 where d: "client_disconnected c dest = Some (c1, as1)" "core_ok c1" "c_local c1 = c_local c"
        "c_connected c1 = bm_remove dest (c_connected c)"
      using client_disconnected_spec [OF 3(3), of dest] by blast
    then show ?thesis using 3(2) [OF refl False d(1)] False by fastforce
  qed
qed

text \<open>A refused send takes the input away from that client before the pump is done.\<close>

lemma pump_refused:
  assumes "core_ok c" "\<not> snd (send h dest msg)" "pump send c h cmds (Send dest msg # pending) = Some (c', h', cmds')"
  shows "\<not> bm_has (c_connected c') dest \<and> active_remote c' \<noteq> Some dest"
proof -
  obtain c1 as1 where d: "client_disconnected c dest = Some (c1, as1)" "core_ok c1" "c_connected c1 = bm_remove dest (c_connected c)"
    using client_disconnected_spec [OF assms(1), of dest] by blast
  have p: "pump send c1 (fst (send h dest msg)) cmds (pending @ as1) = Some (c', h', cmds')"
    using assms(2,3) d(1) by simp
  have "core_ok c'" "\<forall>n. bm_has (c_connected c') n \<longrightarrow> bm_has (c_connected c1) n"
    using pump_spec [OF d(2), of send "fst (send h dest msg)" cmds "pending @ as1"] p by auto
  then show ?thesis
    using d(3) core_ok_remote by (auto simp: active_remote_def split: state.splits)
qed

section \<open>An edge crossing is continuous\<close>

lemma to_desk_to_local_plain:
  assumes "is_i32 (pt_x v)" "is_i32 (pt_y v)"
  shows "to_desk (fr_new og b None) (to_local (fr_new og b None) v) = v"
  using assms by (simp add: to_desk_plain to_local_plain)

lemma to_desk_i32 [simp]: "is_i32 (pt_x (to_desk f p))" "is_i32 (pt_y (to_desk f p))"
  by (simp_all add: to_desk_def desk_at_def)

lemma frame_of_plain:
  "bm_get (c_sizes c) n = None \<Longrightarrow> frame_of c n = fr_new (origin_of c n) (union_all (monitors_of c n)) None"
  by (simp add: frame_of_def)

lemma frame_of_upd [simp]:
  "frame_of (c\<lparr>c_last_local := ll\<rparr>) = frame_of c" "frame_of (c\<lparr>c_switch := sw\<rparr>) = frame_of c"
  by (rule ext, simp add: frame_of_def origin_of_def)+

lemma locate_upd [simp]: "locate (c\<lparr>c_last_local := ll\<rparr>) = locate c"
  by (intro ext) (simp add: locate_def)

lemma locate_plain:
  assumes "locate c v ex = Some (n, q)" "bm_get (c_sizes c) n = None" "is_i32 (pt_x v)" "is_i32 (pt_y v)"
  shows "to_desk (frame_of c n) q = v"
  using locate_SomeD(4) [OF assms(1)] to_desk_to_local_plain assms(2-4) by (simp add: frame_of_plain)

text \<open>
  What a grab by the pointer means: the pointer was on a local monitor, within the jump zone of one
  of its edges, the probe beyond the edge is on no local monitor but on the target's, and the cursor
  arrives exactly there.
\<close>

lemma on_pointer_grab:
  assumes "on_pointer c p now = (c', as)" "as \<noteq> []"
  obtains m e t q where "m \<in> set (c_local_monitors c)" "rect_contains m p" "at_edge m p e (jump_of c)"
    "\<not> on_mons (c_local_monitors c) (step_point p e (jump_of c))"
    "locate c (to_desk (frame_of c (c_local c)) (step_point p e (jump_of c))) (c_local c) = Some (t, q)"
    "snd (evaluate (c_policy c) (c_switch c) now e True (near_corner m p e (sp_corner_size (c_policy c)))) = Switch"
    "as = [Capture Grab, Send t (enter_msg c q)]"
proof -
  have st: "c_state c = Local" using assms by (auto simp: on_pointer_def split: if_splits)
  obtain m where m: "find (\<lambda>m. rect_contains m p) (c_local_monitors c) = Some m"
    using assms st by (auto simp: on_pointer_def split: option.splits)
  let ?c = "c\<lparr>c_last_local := Some m\<rparr>"
  obtain e t q where h: "find_map (edge_hit ?c m p) edge_all = Some (e, t, q)"
    using assms st m by (auto simp: on_pointer_def Let_def split: option.splits)
  obtain sw d where ev: "evaluate (c_policy c) (c_switch c) now e True
      (near_corner m p e (sp_corner_size (c_policy c))) = (sw, d)" by fastforce
  have d: "d = Switch" and as: "as = [Capture Grab, Send t (enter_msg c q)]"
    using assms st m h ev
    by (auto simp: on_pointer_def Let_def enter_def enter_from_remote_def enter_msg_def split: decision.splits)
  obtain e' where "edge_hit ?c m p e' = Some (e, t, q)" using find_map_SomeD [OF h] by blast
  then have "at_edge m p e (jump_of c)" "\<not> on_mons (c_local_monitors c) (step_point p e (jump_of c))"
    "locate c (to_desk (frame_of c (c_local c)) (step_point p e (jump_of c))) (c_local c) = Some (t, q)"
    by (auto simp: edge_hit_def jump_of_def Let_def on_mons_def split: if_splits option.splits)
  then show thesis
    using find_SomeD [OF m] ev d as by (intro that [of m e t q]) simp_all
qed

section \<open>Key rules\<close>

definition rule_releases :: "rule \<Rightarrow> nat list" where
  "rule_releases r = concat (map (\<lambda>(bits, keys). if mm_contains (ru_mods r) bits then keys else []) MODIFIER_KEYS)"

lemma on_key_fires:
  assumes "c_state c = Remote s p" "ke_action k = Down" "bm_get (c_fired c) (ke_hid k) = None"
    and "find (\<lambda>r. rule_matches r (ke_hid k) (ke_mods k)) (c_rules c) = Some r"
  shows "on_key c k = (c\<lparr>c_fired := bm_insert (ke_hid k) (ru_action r) (c_fired c)\<rparr>,
    map (\<lambda>hid. Send s (as_action hid Up)) (rule_releases r) @ [Send s (as_action (ru_action r) Down)])"
proof -
  have "concat (map (\<lambda>(bits, keys). if mm_contains (ru_mods r) bits then concat (map (\<lambda>hid. forward c (as_action hid Up)) keys)
      else []) xs) = map (\<lambda>hid. Send s (as_action hid Up))
      (concat (map (\<lambda>(bits, keys). if mm_contains (ru_mods r) bits then keys else []) xs))" for xs
  proof (induction xs)
    case (Cons x xs)
    have "concat (map (\<lambda>hid. forward c (as_action hid Up)) ks) = map (\<lambda>hid. Send s (as_action hid Up)) ks" for ks
      by (induction ks) (auto simp: forward_def assms(1))
    then show ?case using Cons by (cases x) simp
  qed simp
  then show ?thesis
    using assms by (simp add: on_key_def active_remote_def rule_releases_def Let_def) (simp add: forward_def)
qed

lemma on_key_fired:
  assumes "c_state c = Remote s p" "bm_get (c_fired c) (ke_hid k) = Some act"
  shows "on_key c k = ((if ke_action k = Up then c\<lparr>c_fired := bm_remove (ke_hid k) (c_fired c)\<rparr> else c),
    [Send s (as_action act (ke_action k))])"
  using assms by (simp add: on_key_def forward_def Let_def)

text \<open>Pressing a combination and letting its key go leaves the table of fired keys as it was.\<close>

lemma fired_balanced:
  assumes "bm_ok (c_fired c)" "bm_get (c_fired c) h = None"
  shows "bm_remove h (bm_insert h a (c_fired c)) = c_fired c"
  by (rule bm.del_put [OF assms])

section \<open>Properties\<close>

text \<open>A desk to try them on: a server, and a client whose monitor touches its right edge.\<close>

definition desk_layout :: layout where
  "desk_layout = la_new [''pc'', ''win'']"

definition desk_core :: core where
  "desk_core =
     (case do { c \<leftarrow> core_new desk_layout sp_default ''pc'' [Rect 0 0 1920 1080] [(''pc'', Pt 0 0), (''win'', Pt 1920 0)];
                client_connected c ''win'' [Rect 0 0 2560 1440] } of
        Some c \<Rightarrow> c\<lparr>c_rules := [\<lparr>ru_mods = CONTROL, ru_hid = 0x52, ru_action = VOLUME_UP\<rparr>]\<rparr>
      | None \<Rightarrow> undefined)"

definition mons_okb :: "rect list \<Rightarrow> bool" where
  "mons_okb ms \<longleftrightarrow> ms \<noteq> [] \<and> list_all rect_ok ms"

lemma mons_okb [simp]: "mons_okb ms = mons_ok ms"
  by (simp add: mons_okb_def mons_ok_def list_all_iff)

lemma desk_core_fields:
  "bm_ok (c_positions desk_core)" "bm_ok (c_connected desk_core)" "mons_okb (c_local_monitors desk_core)"
  "list_all (\<lambda>(n, ms). mons_okb ms) (c_connected desk_core)" "\<not> bm_has (c_connected desk_core) (c_local desk_core)"
  "sp_jump_zone (c_policy desk_core) \<le> 1000000" "c_state desk_core = Local" "c_local desk_core = ''pc''"
  by code_simp+

lemma desk_core_ok: "core_ok desk_core"
  using desk_core_fields by (auto simp: core_ok_def list_all_iff)

text \<open>C1: For every session, started on any usable monitors and fed any events the rest of the server
  may send, the router never panics, and its actions obey the ownership automaton: input goes only to
  the one screen that was entered last and not yet left, a screen is entered only after a grab or after
  the previous one was left, and the sequence number of each Enter is the successor of the last.\<close>

theorem router_single_owner:
  assumes "mons_ok ms" "bm_ok positions" "sp_jump_zone policy \<le> 1000000" "list_all (good_event local) es"
  shows "\<exists>c c' as q. core_new l policy local ms positions = Some c \<and> run_events core_step c es = Some (c', as)
    \<and> accepts owner_step (Idle, 0) as = Some q \<and> owned_by c' q"
proof -
  obtain c where c: "core_new l policy local ms positions = Some c" "core_inv local c" "owned_by c (Idle, 0)"
    using core_new_inv [OF assms(1-3)] by blast
  show ?thesis using router.run_accepted_total [OF c(2) assms(4) c(3)] c(1) by blast
qed

lemma router_single_owner_witness:
  "\<exists>c c' as q. core_new desk_layout sp_default ''pc'' [Rect 0 0 1920 1080] [(''win'', Pt 1920 0)] = Some c
    \<and> run_events core_step c [HubEv (Connected ''win'' [Rect 0 0 2560 1440]), Ev (Pointer (Pt 1919 540)) 0,
        Ev (Motion 10 0) 1, HubEv (Disconnected ''win'')] = Some (c', as)
    \<and> accepts owner_step (Idle, 0) as = Some q \<and> owned_by c' q"
  by (rule router_single_owner) (simp_all add: mons_ok_def rect_ok_def is_i32_def bm_ok_def sp_default_def)

text \<open>C2: Every capture event the router handles in a valid state is handled without a panic, leads to a
  valid state, and is one turn of the abstract contract: nothing, input for the owner, a grab and an
  Enter, a Leave with or without releasing the grab, or a Leave followed by the next screen's Enter.\<close>

theorem router_refines_turn:
  assumes "core_ok c"
  shows "\<exists>c' as. handle c ev now = Some (c', as) \<and> turn c as c' \<and> core_ok c'"
  using handle_turn [OF assms] turn_ok [OF assms] by blast

lemma router_refines_turn_witness:
  "\<exists>c' as. handle desk_core (Pointer (Pt 1919 540)) 0 = Some (c', as) \<and> turn desk_core as c' \<and> core_ok c'"
  by (rule router_refines_turn [OF desk_core_ok])

text \<open>C3: Every cursor position the router announces to a client, entering or moving, lies on one of that
  client's monitors, and every position it warps the server's own cursor to lies on a local monitor.\<close>

theorem router_positions_on_monitors:
  assumes "core_ok c" "handle c ev now = Some (c', as)"
  shows "(Send n (Mouse (MoveAbs x y)) \<in> set as \<longrightarrow> on_mons (monitors_of c n) (Pt x y))
    \<and> (Send n (Enter x y s m) \<in> set as \<longrightarrow> on_mons (monitors_of c n) (Pt x y))
    \<and> (Capture (Ungrab w) \<in> set as \<longrightarrow> on_mons (c_local_monitors c) w)"
  using turn_announces [OF handle_SomeD(1) [OF assms]] by (auto simp: announces_ok_def)

lemma router_positions_on_monitors_witness:
  "on_mons (monitors_of desk_core ''win'') (Pt 0 540)"
proof -
  have "map_option snd (handle desk_core (Pointer (Pt 1919 540)) 0) = Some [Capture Grab, Send ''win'' (Enter 0 540 1 mm_empty)]"
    by code_simp
  then obtain c' where "handle desk_core (Pointer (Pt 1919 540)) 0 = Some (c', [Capture Grab, Send ''win'' (Enter 0 540 1 mm_empty)])"
    by auto
  from router_positions_on_monitors [OF desk_core_ok this, of "''win''" 0 540 1 mm_empty] show ?thesis by simp
qed

text \<open>C5: A pointer only grabs the devices at an edge of a local monitor, with nothing local beyond it and
  the switch policy satisfied, and the grab enters one connected machine other than this one, at the desk
  point just beyond that edge seen in that machine's own frame, stretched or not, which lies on one of its
  monitors. Where the machine is shown at its real size, its cursor stands at exactly that desk point.\<close>

theorem pointer_crossing_continuous:
  assumes "on_pointer c p now = (c', as)" "Send t (Enter x y s m) \<in> set as"
  shows "\<exists>e lm. lm \<in> set (c_local_monitors c) \<and> rect_contains lm p \<and> at_edge lm p e (jump_of c)
    \<and> \<not> on_mons (c_local_monitors c) (step_point p e (jump_of c))
    \<and> snd (evaluate (c_policy c) (c_switch c) now e True (near_corner lm p e (sp_corner_size (c_policy c)))) = Switch
    \<and> t \<noteq> c_local c \<and> as = [Capture Grab, Send t (Enter x y (u64 (c_seq c + 1)) mm_empty)]
    \<and> bm_has (c_connected c) t \<and> on_mons (monitors_of c t) (Pt x y)
    \<and> Pt x y = to_local (frame_of c t) (to_desk (frame_of c (c_local c)) (step_point p e (jump_of c)))
    \<and> (bm_get (c_sizes c) t = None \<longrightarrow>
        to_desk (frame_of c t) (Pt x y) = to_desk (frame_of c (c_local c)) (step_point p e (jump_of c)))"
proof -
  have "as \<noteq> []" using assms(2) by auto
  then obtain lm e t' q where g: "lm \<in> set (c_local_monitors c)" "rect_contains lm p" "at_edge lm p e (jump_of c)"
      "\<not> on_mons (c_local_monitors c) (step_point p e (jump_of c))"
      "locate c (to_desk (frame_of c (c_local c)) (step_point p e (jump_of c))) (c_local c) = Some (t', q)"
      "snd (evaluate (c_policy c) (c_switch c) now e True (near_corner lm p e (sp_corner_size (c_policy c)))) = Switch"
      "as = [Capture Grab, Send t' (enter_msg c q)]"
    using on_pointer_grab [OF assms(1)] by metis
  then have t: "t' = t" "q = Pt x y" "s = u64 (c_seq c + 1)" "m = mm_empty" using assms(2) by (auto simp: enter_msg_def)
  have "to_desk (frame_of c t) q = to_desk (frame_of c (c_local c)) (step_point p e (jump_of c))"
    if "bm_get (c_sizes c) t = None"
    using locate_plain [OF g(5)] that t by simp
  then have plain: "bm_get (c_sizes c) t = None \<longrightarrow>
      to_desk (frame_of c t) (Pt x y) = to_desk (frame_of c (c_local c)) (step_point p e (jump_of c))" using t(2) by simp
  have "as = [Capture Grab, Send t (Enter x y (u64 (c_seq c + 1)) mm_empty)]"
    using g(7) t by (simp add: enter_msg_def)
  moreover have "t \<noteq> c_local c" "bm_has (c_connected c) t" "on_mons (monitors_of c t) (Pt x y)"
    "Pt x y = to_local (frame_of c t) (to_desk (frame_of c (c_local c)) (step_point p e (jump_of c)))"
    using locate_SomeD [OF g(5) [unfolded t(1,2)]] by blast+
  ultimately show ?thesis using g(1-4,6) plain by (intro exI [of _ e] exI [of _ lm] conjI)
qed

lemma pointer_crossing_continuous_witness:
  "\<exists>e. to_desk (frame_of desk_core ''win'') (Pt 0 540) = to_desk (frame_of desk_core (c_local desk_core))
     (step_point (Pt 1919 540) e (jump_of desk_core))"
proof -
  have "snd (on_pointer desk_core (Pt 1919 540) 0) = [Capture Grab, Send ''win'' (Enter 0 540 1 mm_empty)]"
    by code_simp
  then obtain c' where 1: "on_pointer desk_core (Pt 1919 540) 0 = (c', [Capture Grab, Send ''win'' (Enter 0 540 1 mm_empty)])"
    by (metis prod.collapse)
  have 2: "bm_get (c_sizes desk_core) ''win'' = None" by code_simp
  from pointer_crossing_continuous [OF 1, of "''win''" 0 540 1 mm_empty] 2 show ?thesis by auto
qed

text \<open>When a client goes away the router drops it and, exactly if that client held the input, takes it
  back: the state is local again and the only action releases the grab onto a local monitor.\<close>

theorem disconnect_returns_input:
  assumes "core_ok c"
  shows "\<exists>c' as. client_disconnected c n = Some (c', as) \<and> core_ok c' \<and> \<not> bm_has (c_connected c') n
    \<and> (if active_remote c = Some n
       then c_state c' = Local \<and> (\<exists>w. as = [Capture (Ungrab w)] \<and> on_mons (c_local_monitors c) w)
       else c_state c' = c_state c \<and> as = [])"
  using client_disconnected_spec [OF assms, of n] by fastforce

lemma disconnect_returns_input_witness:
  "\<exists>c' as. client_disconnected desk_core ''win'' = Some (c', as) \<and> c_state c' = c_state desk_core \<and> as = []"
  using disconnect_returns_input [OF desk_core_ok, of "''win''"] desk_core_fields(7)
  by (auto simp: active_remote_def)

text \<open>C6: Feeding any batch of actions to the hub and the capture backend ends without a panic in a valid
  state, and a client that refused a message no longer holds the input when the batch is done.\<close>

theorem pump_total_and_refused:
  assumes "core_ok c"
  shows "\<exists>c' h' cmds'. pump send c h cmds as = Some (c', h', cmds') \<and> core_ok c'
    \<and> (\<forall>dest msg pending. as = Send dest msg # pending \<longrightarrow> \<not> snd (send h dest msg) \<longrightarrow>
        \<not> bm_has (c_connected c') dest \<and> active_remote c' \<noteq> Some dest)"
proof -
  obtain c' h' cmds' where p: "pump send c h cmds as = Some (c', h', cmds')" "core_ok c'"
    using pump_spec [OF assms, of send h cmds as] by blast
  have "\<not> bm_has (c_connected c') dest \<and> active_remote c' \<noteq> Some dest"
    if "as = Send dest msg # pending" "\<not> snd (send h dest msg)" for dest msg pending
    using pump_refused [where send = send and h = h and dest = dest and msg = msg and pending = pending, OF assms]
      p(1) that by simp
  then show ?thesis using p by (intro exI [of _ c'] exI [of _ h'] exI [of _ cmds']) blast
qed

lemma pump_total_and_refused_witness:
  "\<exists>c' h' cmds'. pump (\<lambda>h dest msg. (h + 1, False)) desk_core (0 :: nat) [] [Send ''win'' Leave] = Some (c', h', cmds')
    \<and> core_ok c' \<and> \<not> bm_has (c_connected c') ''win''"
  using pump_total_and_refused [OF desk_core_ok, of "\<lambda>h dest msg. (h + 1, False)" "0 :: nat" "[]" "[Send ''win'' Leave]"]
  by fastforce

text \<open>C7: A key that completes a rule's combination while a client holds the input is sent as its action
  alone, after the release of every key of the rule's modifiers; letting the key go sends the release of
  the same action, and then no trace of the combination remains in the router.\<close>

theorem key_rule_press_release:
  assumes "c_state c = Remote s p" "bm_ok (c_fired c)" "bm_get (c_fired c) (ke_hid k) = None" "ke_action k = Down"
    and "find (\<lambda>r. rule_matches r (ke_hid k) (ke_mods k)) (c_rules c) = Some r"
  shows "\<exists>c1. on_key c k = (c1, map (\<lambda>hid. Send s (as_action hid Up)) (rule_releases r) @ [Send s (as_action (ru_action r) Down)])
    \<and> on_key c1 (k\<lparr>ke_mods := ms, ke_action := Up\<rparr>) = (c, [Send s (as_action (ru_action r) Up)])"
proof -
  let ?c1 = "c\<lparr>c_fired := bm_insert (ke_hid k) (ru_action r) (c_fired c)\<rparr>"
  have "on_key ?c1 (k\<lparr>ke_mods := ms, ke_action := Up\<rparr>) = (?c1\<lparr>c_fired := c_fired c\<rparr>, [Send s (as_action (ru_action r) Up)])"
    using on_key_fired [of ?c1 s p "k\<lparr>ke_mods := ms, ke_action := Up\<rparr>" "ru_action r"] assms(1) fired_balanced [OF assms(2,3)]
    by simp
  then show ?thesis using on_key_fires [OF assms(1,4,3,5)] by simp
qed

lemma key_rule_press_release_witness:
  "\<exists>c1. on_key (desk_core\<lparr>c_state := Remote ''win'' (Pt 5 5)\<rparr>) \<lparr>ke_hid = 0x52, ke_ch = None, ke_mods = CONTROL, ke_action = Down\<rparr>
    = (c1, map (\<lambda>hid. Send ''win'' (as_action hid Up)) [0xE0, 0xE4] @ [Send ''win'' (as_action VOLUME_UP Down)])"
proof -
  let ?c = "desk_core\<lparr>c_state := Remote ''win'' (Pt 5 5)\<rparr>"
  let ?k = "\<lparr>ke_hid = 0x52, ke_ch = None, ke_mods = CONTROL, ke_action = Down\<rparr>"
  let ?r = "\<lparr>ru_mods = CONTROL, ru_hid = 0x52, ru_action = VOLUME_UP\<rparr>"
  have "bm_ok (c_fired ?c)" "bm_get (c_fired ?c) (ke_hid ?k) = None"
    "find (\<lambda>r. rule_matches r (ke_hid ?k) (ke_mods ?k)) (c_rules ?c) = Some ?r" "rule_releases ?r = [0xE0, 0xE4]"
    by code_simp+
  then show ?thesis using key_rule_press_release [of ?c "''win''" "Pt 5 5" ?k ?r] by auto
qed

section \<open>A rule outlives its client\<close>

text \<open>
  The table of fired keys is not emptied when the input leaves a screen while the key is down. The
  release then never reaches the router, and the next plain press of that key, on whatever client,
  is sent as the old action.
\<close>

lemma fired_survives_switch:
  "map_option snd (run_events core_step desk_core
     [Ev (Pointer (Pt 1919 540)) 0,
      Ev (CKey \<lparr>ke_hid = 0x52, ke_ch = None, ke_mods = CONTROL, ke_action = Down\<rparr>) 1,
      Ev Hotkey 2, Ev (Pointer (Pt 1919 540)) 3,
      Ev (CKey \<lparr>ke_hid = 0x52, ke_ch = None, ke_mods = 0, ke_action = Down\<rparr>) 4])
   = Some [Capture Grab, Send ''win'' (Enter 0 540 1 mm_empty),
       Send ''win'' (as_action 0xE0 Up), Send ''win'' (as_action 0xE4 Up), Send ''win'' (as_action VOLUME_UP Down),
       Send ''win'' Leave, Capture (Ungrab (Pt 960 540)),
       Capture Grab, Send ''win'' (Enter 0 540 2 mm_empty),
       Send ''win'' (as_action VOLUME_UP Down)]"
  by code_simp

end
