(* ===== verification/Hub.thy ===== *)
theory Hub
  imports Router_Spec Chunks
begin

text \<open>
  \<^verbatim>\<open>crates/geserdesk-server/src/hub.rs\<close>: the registry of connected clients. Each client has an
  outgoing queue; its session holds the receiving end, and dropping the session's \<^verbatim>\<open>Registration\<close>
  unregisters it. The channels to the router and to the clipboard relay are the lists of what was
  sent through them, so far.
\<close>

section \<open>State\<close>

record shared_clip =
  sc_from :: string
  sc_content :: content

record client_entry =
  ce_open :: bool \<comment> \<open>the session still holds the receiver\<close>
  ce_queue :: "server_msg list"
  ce_monitors :: "rect list"

record hub =
  hb_clients :: "(string, client_entry) bmap"
  hb_added :: "string list"
  hb_disabled :: "string set"
  hb_events :: "hub_event list"
  hb_events_taken :: bool
  hb_clipboard :: "shared_clip list"
  hb_clipboard_taken :: bool

definition hub_new :: hub where
  "hub_new = \<lparr>hb_clients = [], hb_added = [], hb_disabled = {}, hb_events = [], hb_events_taken = False,
     hb_clipboard = [], hb_clipboard_taken = False\<rparr>"

section \<open>Operations\<close>

definition emit :: "hub \<Rightarrow> hub_event \<Rightarrow> hub" where
  "emit h ev = h\<lparr>hb_events := hb_events h @ [ev]\<rparr>"

definition take_events :: "hub \<Rightarrow> hub \<times> bool" where
  "take_events h = (h\<lparr>hb_events_taken := True\<rparr>, \<not> hb_events_taken h)"

definition take_clipboard :: "hub \<Rightarrow> hub \<times> bool" where
  "take_clipboard h = (h\<lparr>hb_clipboard_taken := True\<rparr>, \<not> hb_clipboard_taken h)"

definition is_disabled :: "hub \<Rightarrow> string \<Rightarrow> bool" where
  "is_disabled h name \<longleftrightarrow> name \<in> hb_disabled h"

definition clipboard_in :: "hub \<Rightarrow> string \<Rightarrow> content \<Rightarrow> hub" where
  "clipboard_in h from content =
     (if is_disabled h from then h
      else h\<lparr>hb_clipboard := hb_clipboard h @ [\<lparr>sc_from = from, sc_content = content\<rparr>]\<rparr>)"

definition hub_contains :: "hub \<Rightarrow> string \<Rightarrow> bool" where
  "hub_contains h name \<longleftrightarrow> bm_has (hb_clients h) name"

text \<open>\<^const>\<open>None\<close> is a name already taken; otherwise the hub with the new registration.\<close>

definition register :: "hub \<Rightarrow> string \<Rightarrow> rect list \<Rightarrow> hub option" where
  "register h name ms =
     (if bm_has (hb_clients h) name then None
      else let h = h\<lparr>hb_clients := bm_insert name \<lparr>ce_open = True, ce_queue = [], ce_monitors = ms\<rparr> (hb_clients h)\<rparr>
           in Some (if \<not> is_disabled h name then emit h (Connected name ms) else h))"

definition hub_send :: "hub \<Rightarrow> string \<Rightarrow> server_msg \<Rightarrow> hub \<times> bool" where
  "hub_send h name msg =
     (case bm_get (hb_clients h) name of
        None \<Rightarrow> (h, False)
      | Some en \<Rightarrow>
          if ce_open en
          then (h\<lparr>hb_clients := bm_insert name (en\<lparr>ce_queue := ce_queue en @ [msg]\<rparr>) (hb_clients h)\<rparr>, True)
          else (h, False))"

text \<open>The session's receiver goes away (before its registration is dropped).\<close>

definition close_outbox :: "hub \<Rightarrow> string \<Rightarrow> hub" where
  "close_outbox h name =
     (case bm_get (hb_clients h) name of None \<Rightarrow> h
      | Some en \<Rightarrow> h\<lparr>hb_clients := bm_insert name (en\<lparr>ce_open := False\<rparr>) (hb_clients h)\<rparr>)"

definition set_disabled :: "hub \<Rightarrow> string \<Rightarrow> bool \<Rightarrow> hub" where
  "set_disabled h name disabled =
     (let changed = (if disabled then name \<notin> hb_disabled h else name \<in> hb_disabled h);
          h = h\<lparr>hb_disabled := (if disabled then insert name (hb_disabled h) else hb_disabled h - {name})\<rparr>
      in if \<not> changed then h
         else case bm_get (hb_clients h) name of None \<Rightarrow> h
              | Some en \<Rightarrow> emit h (if disabled then Disconnected name else Connected name (ce_monitors en)))"

definition load_disabled :: "hub \<Rightarrow> string set \<Rightarrow> hub" where
  "load_disabled h names = h\<lparr>hb_disabled := names\<rparr>"

definition hub_disconnect :: "hub \<Rightarrow> string \<Rightarrow> close_reason \<Rightarrow> hub \<times> bool" where
  "hub_disconnect h name reason = hub_send h name (Close reason)"

definition push_all :: "server_msg list \<Rightarrow> client_entry \<Rightarrow> client_entry" where
  "push_all msgs en = (if ce_open en then en\<lparr>ce_queue := ce_queue en @ msgs\<rparr> else en)"

definition broadcast_except :: "hub \<Rightarrow> string option \<Rightarrow> server_msg list \<Rightarrow> hub" where
  "broadcast_except h except msgs =
     h\<lparr>hb_clients := map (\<lambda>(name, en).
         (name, if Some name \<noteq> except \<and> name \<notin> hb_disabled h then push_all msgs en else en)) (hb_clients h)\<rparr>"

definition set_monitors :: "hub \<Rightarrow> string \<Rightarrow> rect list \<Rightarrow> hub" where
  "set_monitors h name ms =
     (case bm_get (hb_clients h) name of None \<Rightarrow> h
      | Some en \<Rightarrow>
          if ce_monitors en \<noteq> ms then
            (let h = h\<lparr>hb_clients := bm_insert name (en\<lparr>ce_monitors := ms\<rparr>) (hb_clients h)\<rparr>
             in if \<not> is_disabled h name then emit h (Connected name ms) else h)
          else h)"

definition snapshot :: "hub \<Rightarrow> (string, rect list) bmap" where
  "snapshot h = map (\<lambda>(n, en). (n, ce_monitors en)) (hb_clients h)"

definition apply_positions :: "hub \<Rightarrow> (string, point) bmap \<Rightarrow> hub" where
  "apply_positions h ps = emit h (Positions ps)"

definition apply_sizes :: "hub \<Rightarrow> (string, size2) bmap \<Rightarrow> hub" where
  "apply_sizes h ss = emit h (Sizes ss)"

definition hub_add_screen :: "hub \<Rightarrow> string \<Rightarrow> hub \<times> bool" where
  "hub_add_screen h name =
     (if name \<in> set (hb_added h) then (h, False)
      else (emit (h\<lparr>hb_added := hb_added h @ [name]\<rparr>) (ScreenAdded name), True))"

definition apply_local_monitors :: "hub \<Rightarrow> rect list \<Rightarrow> hub" where
  "apply_local_monitors h ms = emit h (LocalMonitors ms)"

definition unregister :: "hub \<Rightarrow> string \<Rightarrow> hub" where
  "unregister h name = emit (h\<lparr>hb_clients := bm_remove name (hb_clients h)\<rparr>) (Disconnected name)"

section \<open>Basic facts\<close>

named_theorems hub_defs \<open>the operations of the hub\<close>

lemmas [hub_defs] = register_def hub_send_def close_outbox_def set_disabled_def load_disabled_def
  hub_disconnect_def broadcast_except_def set_monitors_def apply_positions_def apply_sizes_def
  hub_add_screen_def apply_local_monitors_def unregister_def clipboard_in_def emit_def is_disabled_def

definition hub_ok :: "hub \<Rightarrow> bool" where
  "hub_ok h \<longleftrightarrow> bm_ok (hb_clients h) \<and> distinct (hb_added h)"

lemma bm_get_map_values: "bm_get (map (\<lambda>(n, e). (n, f n e)) m) k = map_option (f k) (bm_get m k)"
  by (induction m) auto

lemma bm_ok_map_values [simp]: "bm_ok (map (\<lambda>(n, e). (n, f n e)) m) = bm_ok m"
  by (simp add: bm_ok_def comp_def case_prod_beta)

lemma broadcast_get:
  "bm_get (hb_clients (broadcast_except h ex msgs)) n =
   map_option (\<lambda>en. if Some n \<noteq> ex \<and> n \<notin> hb_disabled h then push_all msgs en else en) (bm_get (hb_clients h) n)"
  unfolding broadcast_except_def
  by (simp add: bm_get_map_values [where f = "\<lambda>n en. if Some n \<noteq> ex \<and> n \<notin> hb_disabled h then push_all msgs en else en"])

section \<open>What the pump needs of a hub\<close>

text \<open>
  The router's pump sees the hub through one operation. A hub whose answer depends only on whether
  the client is reachable, and whose sends make nobody unreachable, never costs a reachable client
  the input.
\<close>

definition sent_to :: "string \<Rightarrow> action list \<Rightarrow> server_msg list" where
  "sent_to n as = concat (map (\<lambda>a. case a of Send t m \<Rightarrow> if t = n then [m] else [] | Capture _ \<Rightarrow> []) as)"

locale message_sink =
  fixes send :: "'h \<Rightarrow> string \<Rightarrow> server_msg \<Rightarrow> 'h \<times> bool"
    and reachable :: "'h \<Rightarrow> string \<Rightarrow> bool"
    and delivered :: "'h \<Rightarrow> string \<Rightarrow> server_msg list"
  assumes send_result: "snd (send h n m) = reachable h n"
    and send_reachable: "reachable (fst (send h n m)) n' = reachable h n'"
    and send_delivers: "reachable h n \<Longrightarrow> delivered (fst (send h n m)) n' = (if n' = n then delivered h n @ [m] else delivered h n')"
begin

lemma pump_reachable:
  assumes "\<forall>a \<in> set as. \<forall>t m. a = Send t m \<longrightarrow> reachable h t"
  shows "\<exists>h'. pump send c h cmds as = Some (c, h', cmds @ concat (map (\<lambda>a. case a of Capture x \<Rightarrow> [x] | Send _ _ \<Rightarrow> []) as))
    \<and> (\<forall>n. delivered h' n = delivered h n @ sent_to n as)"
  using assms
proof (induction as arbitrary: h cmds)
  case Nil
  then show ?case by (simp add: sent_to_def)
next
  case (Cons a as)
  show ?case
  proof (cases a)
    case (Capture x)
    then show ?thesis using Cons.IH [of h "cmds @ [x]"] Cons.prems by (simp add: sent_to_def)
  next
    case (Send t m)
    then have r: "reachable h t" using Cons.prems by simp
    have "\<forall>a \<in> set as. \<forall>t' m'. a = Send t' m' \<longrightarrow> reachable (fst (send h t m)) t'"
      using Cons.prems send_reachable by simp
    from Cons.IH [OF this, of cmds] show ?thesis
      using Send r send_result [of h t m] send_delivers [OF r, of m] by (auto simp: sent_to_def Let_def)
  qed
qed

end

definition hub_reachable :: "hub \<Rightarrow> string \<Rightarrow> bool" where
  "hub_reachable h n \<longleftrightarrow> (case bm_get (hb_clients h) n of None \<Rightarrow> False | Some en \<Rightarrow> ce_open en)"

definition hub_delivered :: "hub \<Rightarrow> string \<Rightarrow> server_msg list" where
  "hub_delivered h n = (case bm_get (hb_clients h) n of None \<Rightarrow> [] | Some en \<Rightarrow> ce_queue en)"

interpretation hub_sink: message_sink hub_send hub_reachable hub_delivered
  by unfold_locales
    (auto simp: hub_send_def hub_reachable_def hub_delivered_def split: option.splits if_splits)

section \<open>The router's view of the clients\<close>

text \<open>
  Replaying the events the hub sent gives the clients the router knows. It always is the set of
  registered clients that are not turned off, each with the monitors it last reported.
\<close>

fun replay_step :: "hub_event \<Rightarrow> (string, rect list) bmap \<Rightarrow> (string, rect list) bmap" where
  "replay_step (Connected n ms) m = bm_insert n ms m"
| "replay_step (Disconnected n) m = bm_remove n m"
| "replay_step _ m = m"

definition replay :: "hub_event list \<Rightarrow> (string, rect list) bmap" where
  "replay evs = fold replay_step evs []"

definition enabled_view :: "hub \<Rightarrow> (string, rect list) bmap" where
  "enabled_view h = filter (\<lambda>(n, ms). n \<notin> hb_disabled h) (snapshot h)"

lemma replay_snoc [simp]: "replay (evs @ [e]) = replay_step e (replay evs)"
  by (simp add: replay_def)

lemma replay_step_ok: "bm_ok m \<Longrightarrow> bm_ok (replay_step e m)"
  by (cases e) auto

lemma replay_ok [simp]: "bm_ok (replay evs)"
  by (induction evs rule: rev_induct) (auto simp: replay_step_ok, simp add: replay_def)

lemma enabled_view_get:
  "bm_get (enabled_view h) n = (if n \<in> hb_disabled h then None else map_option ce_monitors (bm_get (hb_clients h) n))"
  by (simp add: enabled_view_def snapshot_def bm_get_filter_key bm_get_map_values [where f = "\<lambda>n. ce_monitors"])

lemma enabled_view_ok: "hub_ok h \<Longrightarrow> bm_ok (enabled_view h)"
  by (simp add: enabled_view_def snapshot_def hub_ok_def)

definition in_step :: "hub \<Rightarrow> bool" where
  "in_step h \<longleftrightarrow> hub_ok h \<and> (\<forall>n. bm_get (replay (hb_events h)) n = bm_get (enabled_view h) n)"

lemma in_step_replay: "in_step h \<Longrightarrow> replay (hb_events h) = enabled_view h"
  unfolding in_step_def by (intro bm_ext) (auto simp: enabled_view_ok)

text \<open>Every operation of the hub, as a step.\<close>

datatype hub_op =
    ORegister string "rect list"
  | OUnregister string
  | OSend string server_msg
  | OClose string
  | OSetDisabled string bool
  | OBroadcast "string option" "server_msg list"
  | OSetMonitors string "rect list"
  | OPositions "(string, point) bmap"
  | OSizes "(string, size2) bmap"
  | OAddScreen string
  | OLocalMonitors "rect list"
  | OClipboardIn string content

fun hub_step :: "hub \<Rightarrow> hub_op \<Rightarrow> hub" where
  "hub_step h (ORegister n ms) = (case register h n ms of None \<Rightarrow> h | Some h' \<Rightarrow> h')"
| "hub_step h (OUnregister n) = unregister h n"
| "hub_step h (OSend n m) = fst (hub_send h n m)"
| "hub_step h (OClose n) = close_outbox h n"
| "hub_step h (OSetDisabled n d) = set_disabled h n d"
| "hub_step h (OBroadcast ex ms) = broadcast_except h ex ms"
| "hub_step h (OSetMonitors n ms) = set_monitors h n ms"
| "hub_step h (OPositions ps) = apply_positions h ps"
| "hub_step h (OSizes ss) = apply_sizes h ss"
| "hub_step h (OAddScreen n) = fst (hub_add_screen h n)"
| "hub_step h (OLocalMonitors ms) = apply_local_monitors h ms"
| "hub_step h (OClipboardIn n ct) = clipboard_in h n ct"

lemma hub_step_ok: "hub_ok h \<Longrightarrow> hub_ok (hub_step h op)"
  by (cases op) (auto simp: hub_ok_def hub_defs Let_def
      bm_ok_map_values [where f = "\<lambda>n en. if Some n \<noteq> ex \<and> n \<notin> hb_disabled h then push_all msgs en else en" for ex msgs]
      split: option.splits if_splits)

lemma hub_step_in_step:
  assumes "in_step h"
  shows "in_step (hub_step h op)"
proof -
  have ok: "hub_ok (hub_step h op)" using hub_step_ok assms by (simp add: in_step_def)
  have eq: "bm_get (replay (hb_events h)) n = (if n \<in> hb_disabled h then None else map_option ce_monitors (bm_get (hb_clients h) n))" for n
    using assms by (simp add: in_step_def enabled_view_get)
  have "bm_get (replay (hb_events (hub_step h op))) n = bm_get (enabled_view (hub_step h op)) n" for n
  proof (cases op)
    case (OBroadcast ex msgs)
    have "hb_events (hub_step h op) = hb_events h" "hb_disabled (hub_step h op) = hb_disabled h"
      by (simp_all add: OBroadcast broadcast_except_def)
    moreover have "map_option ce_monitors (bm_get (hb_clients (hub_step h op)) n) = map_option ce_monitors (bm_get (hb_clients h) n)"
      by (cases "bm_get (hb_clients h) n") (simp_all add: OBroadcast broadcast_get push_all_def)
    ultimately show ?thesis by (simp add: eq enabled_view_get)
  qed (auto simp: enabled_view_get eq hub_defs Let_def bm_has_iff split: option.splits if_splits)
  then show ?thesis using ok by (simp add: in_step_def)
qed

definition hub_run :: "hub \<Rightarrow> hub_op list \<Rightarrow> hub" where
  "hub_run h ops = fold (\<lambda>op h. hub_step h op) ops h"

lemma hub_run_in_step: "in_step h \<Longrightarrow> in_step (hub_run h ops)"
  by (induction ops arbitrary: h) (auto simp: hub_run_def hub_step_in_step)

lemma hub_new_in_step: "in_step (load_disabled hub_new names)"
  by (simp add: in_step_def hub_ok_def hub_new_def load_disabled_def enabled_view_get replay_def)

end
