(* ===== verification/Trust.thy ===== *)
theory Trust
  imports Key_Rules
begin

text \<open>
  Who is trusted. \<^verbatim>\<open>crates/geserdesk-tls/src/fingerprint.rs\<close>: the text form of certificate
  fingerprints. \<^verbatim>\<open>crates/geserdesk-server/src/trust.rs\<close>: the server's trusted certificates and the
  requests waiting for a person. \<^verbatim>\<open>crates/geserdesk-tls/src/verify.rs\<close> and
  \<^verbatim>\<open>crates/geserdesk-app/src/trust.rs\<close>: the client's decision about a server. The digest of a
  certificate is a parameter; clocks are milliseconds.
\<close>

section \<open>Fingerprints\<close>

text \<open>A fingerprint is a \<^verbatim>\<open>[u8; 32]\<close>.\<close>

type_synonym fingerprint = bytes

definition fp_ok :: "fingerprint \<Rightarrow> bool" where
  "fp_ok f \<longleftrightarrow> length f = 32"

definition hex_char :: "nat \<Rightarrow> char" where
  "hex_char d = (if d < 10 then byte (48 + d) else byte (87 + d))"

definition hex2 :: "char \<Rightarrow> string" where
  "hex2 b = [hex_char (ord b div 16), hex_char (ord b mod 16)]"

definition fp_display :: "fingerprint \<Rightarrow> string" where
  "fp_display f = ''SHA256:'' @ join (CHR '':'') (map hex2 f)"

definition is_ascii_whitespace :: "char \<Rightarrow> bool" where
  "is_ascii_whitespace c \<longleftrightarrow> ord c = 32 \<or> ord c = 9 \<or> ord c = 10 \<or> ord c = 12 \<or> ord c = 13"

text \<open>The digits two by two; an odd one left over cannot happen, the length was checked.\<close>

fun hex_pairs :: "string \<Rightarrow> bytes option" where
  "hex_pairs (a # b # cs) =
     (case (hex_digit a, hex_digit b) of
        (Some x, Some y) \<Rightarrow> map_option ((#) (byte (x * 16 + y))) (hex_pairs cs)
      | _ \<Rightarrow> None)"
| "hex_pairs [a] = None"
| "hex_pairs [] = Some []"

definition strip_sha :: "string \<Rightarrow> string" where
  "strip_sha s = (if 7 \<le> length s \<and> eq_ignore_ascii_case (take 7 s) ''sha256:'' then drop 7 s else s)"

definition fp_parse :: "string \<Rightarrow> fingerprint option" where
  "fp_parse s =
     (let hex = filter (\<lambda>b. b \<noteq> CHR '':'' \<and> \<not> is_ascii_whitespace b) (strip_sha (trim s))
      in if length hex \<noteq> 64 then None else hex_pairs hex)"

lemma trim_ascii:
  assumes "\<forall>c \<in> set s. ord c < 128" "s \<noteq> []" "\<not> is_whitespace (ord (hd s))" "\<not> is_whitespace (ord (last s))"
  shows "trim s = s"
proof -
  obtain a t where s: "s = a # t" using assms(2) by (cases s) auto
  have "dropWhile is_whitespace (map ord s) = map ord s" using assms(3) by (simp add: s)
  moreover have "dropWhile is_whitespace (rev (map ord s)) = rev (map ord s)"
    using assms(2,4) by (cases s rule: rev_cases) auto
  ultimately have "trim_points (map ord s) = map ord s" by (simp add: trim_points_def)
  moreover have "utf8_encode (map ord s) = s"
    using assms(1) by (induction s) (auto simp: utf8_encode_def utf8_char_def byte_def)
  ultimately show ?thesis using assms(1) by (simp add: trim_def chars_def utf8_ascii)
qed

lemma hex_char_facts:
  assumes "d < 16"
  shows "hex_digit (hex_char d) = Some d" "ord (hex_char d) < 128" "hex_char d \<noteq> CHR '':''"
    "\<not> is_ascii_whitespace (hex_char d)" "\<not> is_whitespace (ord (hex_char d))"
proof -
  have r: "48 \<le> ord (hex_char d) \<and> ord (hex_char d) \<le> 57 \<or> 97 \<le> ord (hex_char d) \<and> ord (hex_char d) \<le> 102"
    using assms by (auto simp: hex_char_def)
  show "hex_digit (hex_char d) = Some d" using assms by (auto simp: hex_char_def hex_digit_def)
  show "ord (hex_char d) < 128" using r by auto
  show "hex_char d \<noteq> CHR '':''" using r by auto
  show "\<not> is_ascii_whitespace (hex_char d)" using r by (auto simp: is_ascii_whitespace_def)
  show "\<not> is_whitespace (ord (hex_char d))" using r by (auto simp: is_whitespace_def)
qed

lemma ord_lt [simp]: "ord (c :: char) < 256"
  by (rule nat_of_char_less_256)

lemma ord_div [simp]: "ord (c :: char) div 16 < 16"
  using ord_lt [of c] by linarith

lemma filter_hex2: "filter (\<lambda>b. b \<noteq> CHR '':'' \<and> \<not> is_ascii_whitespace b) (hex2 b) = hex2 b"
  by (simp add: hex2_def hex_char_facts)

lemma filter_join_hex2:
  "filter (\<lambda>b. b \<noteq> CHR '':'' \<and> \<not> is_ascii_whitespace b) (join (CHR '':'') (map hex2 f)) = concat (map hex2 f)"
proof (induction f)
  case (Cons b f)
  then show ?case by (cases f) (auto simp: filter_hex2)
qed simp

lemma hex_pairs_hex2: "hex_pairs (concat (map hex2 f)) = Some f"
proof (induction f)
  case (Cons b f)
  have "byte (ord b div 16 * 16 + ord b mod 16) = b" by (simp add: byte_def)
  then show ?case using Cons by (simp add: hex2_def hex_char_facts)
qed simp

lemma length_hex2 [simp]: "length (concat (map hex2 f)) = 2 * length f"
  by (induction f) (auto simp: hex2_def)

lemma ascii_join_hex2: "c \<in> set (join (CHR '':'') (map hex2 f)) \<Longrightarrow> ord c < 128"
proof (induction f)
  case (Cons b f)
  then show ?case by (cases f) (auto simp: hex2_def hex_char_facts)
qed simp

lemma last_join_hex2: "f \<noteq> [] \<Longrightarrow> \<exists>d < 16. join (CHR '':'') (map hex2 f) \<noteq> [] \<and> last (join (CHR '':'') (map hex2 f)) = hex_char d"
proof (induction f)
  case (Cons b f)
  show ?case
  proof (cases f)
    case Nil
    then show ?thesis by (auto simp: hex2_def intro: exI [of _ "ord b mod 16"])
  next
    case (Cons b' f')
    then show ?thesis using Cons.IH by auto
  qed
qed simp

lemma fp_parse_display:
  assumes "fp_ok f"
  shows "fp_parse (fp_display f) = Some f"
proof -
  let ?j = "join (CHR '':'') (map hex2 f)"
  have "f \<noteq> []" using assms by (auto simp: fp_ok_def)
  from last_join_hex2 [OF this] obtain d where d: "d < 16" "?j \<noteq> []" "last ?j = hex_char d" by blast
  have "trim (fp_display f) = fp_display f"
  proof (rule trim_ascii)
    show "\<forall>c \<in> set (fp_display f). ord c < 128" using ascii_join_hex2 by (auto simp: fp_display_def)
    show "fp_display f \<noteq> []" "\<not> is_whitespace (ord (hd (fp_display f)))"
      by (simp_all add: fp_display_def is_whitespace_def)
    show "\<not> is_whitespace (ord (last (fp_display f)))"
      using d hex_char_facts(5) [OF d(1)] by (simp add: fp_display_def)
  qed
  moreover have "strip_sha (fp_display f) = ?j"
  proof -
    have "eq_ignore_ascii_case ''SHA256:'' ''sha256:''" by code_simp
    then show ?thesis by (simp add: strip_sha_def fp_display_def)
  qed
  ultimately show ?thesis
    using assms by (simp add: fp_parse_def filter_join_hex2 hex_pairs_hex2 fp_ok_def)
qed

lemma hex_pairs_length: "hex_pairs s = Some f \<Longrightarrow> length s = 2 * length f"
  by (induction s arbitrary: f rule: hex_pairs.induct) (auto split: option.splits)

lemma fp_parse_ok: "fp_parse s = Some f \<Longrightarrow> fp_ok f"
  using hex_pairs_length by (fastforce simp: fp_parse_def fp_ok_def Let_def split: if_splits)

section \<open>The server's trust\<close>

definition MAX_PENDING :: nat where
  "MAX_PENDING = 16"

definition PENDING_TTL :: nat where
  "PENDING_TTL = 600 * 1000"

datatype verdict = Trusted | Mismatch fingerprint | Unknown

record pending =
  pe_name :: string
  pe_fingerprint :: fingerprint
  pe_addr :: string
  pe_replaces :: "fingerprint option"
  pe_last_seen :: nat

record trust =
  tr_trusted :: "(string, fingerprint) bmap"
  tr_pending :: "pending list"
  tr_requests :: "pending list" \<comment> \<open>what was broadcast to subscribers\<close>

definition tr_new :: "(string, fingerprint) bmap \<Rightarrow> trust" where
  "tr_new m = \<lparr>tr_trusted = m, tr_pending = [], tr_requests = []\<rparr>"

definition tr_check :: "trust \<Rightarrow> string \<Rightarrow> fingerprint \<Rightarrow> verdict" where
  "tr_check t name fp =
     (case bm_get (tr_trusted t) name of
        Some f \<Rightarrow> if f = fp then Trusted else Mismatch f
      | None \<Rightarrow> Unknown)"

definition fresh :: "nat \<Rightarrow> pending \<Rightarrow> bool" where
  "fresh now p \<longleftrightarrow> now - pe_last_seen p < PENDING_TTL"

definition is_request :: "string \<Rightarrow> fingerprint \<Rightarrow> pending \<Rightarrow> bool" where
  "is_request name fp p \<longleftrightarrow> pe_name p = name \<and> pe_fingerprint p = fp"

fun update_first :: "('a \<Rightarrow> bool) \<Rightarrow> ('a \<Rightarrow> 'a) \<Rightarrow> 'a list \<Rightarrow> 'a list" where
  "update_first P f [] = []"
| "update_first P f (x # xs) = (if P x then f x # xs else x # update_first P f xs)"

definition note_pending :: "trust \<Rightarrow> nat \<Rightarrow> string \<Rightarrow> fingerprint \<Rightarrow> string \<Rightarrow> trust" where
  "note_pending t now name fp addr =
     (let ps = filter (fresh now) (tr_pending t);
          replaces = bm_get (tr_trusted t) name
      in if \<exists>p \<in> set ps. is_request name fp p
         then t\<lparr>tr_pending := update_first (is_request name fp)
                  (\<lambda>p. p\<lparr>pe_last_seen := now, pe_addr := addr, pe_replaces := replaces\<rparr>) ps\<rparr>
         else let ps = (if length ps \<ge> MAX_PENDING then drop 1 ps else ps);
                  request = \<lparr>pe_name = name, pe_fingerprint = fp, pe_addr = addr, pe_replaces = replaces,
                             pe_last_seen = now\<rparr>
              in t\<lparr>tr_pending := ps @ [request], tr_requests := tr_requests t @ [request]\<rparr>)"

definition tr_list :: "trust \<Rightarrow> nat \<Rightarrow> trust \<times> pending list" where
  "tr_list t now = (let ps = filter (fresh now) (tr_pending t) in (t\<lparr>tr_pending := ps\<rparr>, ps))"

definition approve :: "trust \<Rightarrow> string \<Rightarrow> fingerprint \<Rightarrow> trust \<times> bool" where
  "approve t name fp =
     (if \<not> (\<exists>p \<in> set (tr_pending t). is_request name fp p) then (t, False)
      else (t\<lparr>tr_pending := filter (\<lambda>p. pe_name p \<noteq> name) (tr_pending t),
              tr_trusted := bm_insert name fp (tr_trusted t)\<rparr>, True))"

definition dismiss :: "trust \<Rightarrow> string \<Rightarrow> fingerprint \<Rightarrow> trust \<times> bool" where
  "dismiss t name fp =
     (let ps = filter (\<lambda>p. \<not> is_request name fp p) (tr_pending t)
      in (t\<lparr>tr_pending := ps\<rparr>, length ps \<noteq> length (tr_pending t)))"

definition revoke :: "trust \<Rightarrow> string \<Rightarrow> trust \<times> fingerprint option" where
  "revoke t name = (t\<lparr>tr_trusted := bm_remove name (tr_trusted t)\<rparr>, bm_get (tr_trusted t) name)"

definition restore :: "trust \<Rightarrow> string \<Rightarrow> fingerprint option \<Rightarrow> trust" where
  "restore t name fp =
     (case fp of Some f \<Rightarrow> t\<lparr>tr_trusted := bm_insert name f (tr_trusted t)\<rparr>
      | None \<Rightarrow> t\<lparr>tr_trusted := bm_remove name (tr_trusted t)\<rparr>)"

subsection \<open>Invariant\<close>

definition tr_ok :: "trust \<Rightarrow> bool" where
  "tr_ok t \<longleftrightarrow> bm_ok (tr_trusted t) \<and> length (tr_pending t) \<le> MAX_PENDING
     \<and> distinct (map (\<lambda>p. (pe_name p, pe_fingerprint p)) (tr_pending t))"

abbreviation request_key :: "pending \<Rightarrow> string \<times> fingerprint" where
  "request_key p \<equiv> (pe_name p, pe_fingerprint p)"

lemma update_first_key:
  "(\<And>p. request_key (f p) = request_key p) \<Longrightarrow> map request_key (update_first P f ps) = map request_key ps"
  by (induction ps) auto

lemma length_update_first [simp]: "length (update_first P f ps) = length ps"
  by (induction ps) auto

lemma distinct_map_filter_drop: "distinct (map f xs) \<Longrightarrow> distinct (map f (filter P xs))"
  by (induction xs) auto

lemma tr_ok_note:
  assumes "tr_ok t"
  shows "tr_ok (note_pending t now name fp addr)"
proof -
  let ?ps = "filter (fresh now) (tr_pending t)"
  have d: "distinct (map request_key ?ps)" and len: "length ?ps \<le> MAX_PENDING"
    using assms distinct_map_filter_drop length_filter_le le_trans unfolding tr_ok_def by blast+
  show ?thesis
  proof (cases "\<exists>p \<in> set ?ps. is_request name fp p")
    case True
    let ?f = "\<lambda>p. p\<lparr>pe_last_seen := now, pe_addr := addr, pe_replaces := bm_get (tr_trusted t) name\<rparr>"
    have k: "map request_key (update_first (is_request name fp) ?f ?ps) = map request_key ?ps"
      by (rule update_first_key) simp
    then show ?thesis using True k d len assms by (simp add: note_pending_def tr_ok_def)
  next
    case False
    define qs where "qs = (if length ?ps \<ge> MAX_PENDING then drop 1 ?ps else ?ps)"
    have "distinct (map request_key qs)" "length qs < MAX_PENDING" "set qs \<subseteq> set ?ps"
      using d len by (auto simp: qs_def drop_map [symmetric] MAX_PENDING_def dest: in_set_dropD)
    moreover have "(name, fp) \<notin> set (map request_key qs)"
      using False calculation(3) by (auto simp: is_request_def)
    ultimately show ?thesis
      using False assms by (simp add: note_pending_def tr_ok_def Let_def qs_def [symmetric] del: qs_def)
  qed
qed

text \<open>Every operation, as a step; the clock is the caller's.\<close>

datatype trust_op =
    ONote nat string fingerprint string
  | OList nat
  | OApprove string fingerprint
  | ODismiss string fingerprint
  | ORevoke string
  | ORestore string "fingerprint option"

fun trust_step :: "trust \<Rightarrow> trust_op \<Rightarrow> trust" where
  "trust_step t (ONote now n f a) = note_pending t now n f a"
| "trust_step t (OList now) = fst (tr_list t now)"
| "trust_step t (OApprove n f) = fst (approve t n f)"
| "trust_step t (ODismiss n f) = fst (dismiss t n f)"
| "trust_step t (ORevoke n) = fst (revoke t n)"
| "trust_step t (ORestore n f) = restore t n f"

definition trust_run :: "trust \<Rightarrow> trust_op list \<Rightarrow> trust" where
  "trust_run t ops = foldl trust_step t ops"

lemma trust_run_snoc [simp]: "trust_run t (ops @ [op]) = trust_step (trust_run t ops) op"
  by (simp add: trust_run_def)

lemma trust_run_Nil [simp]: "trust_run t [] = t"
  by (simp add: trust_run_def)

lemma length_filter_pending: "length (tr_pending t) \<le> n \<Longrightarrow> length (filter P (tr_pending t)) \<le> n"
  using length_filter_le le_trans by blast

lemma trust_step_ok: "tr_ok t \<Longrightarrow> tr_ok (trust_step t op)"
proof (cases op)
  case (ONote now n f a)
  then show "tr_ok t \<Longrightarrow> tr_ok (trust_step t op)" by (simp add: tr_ok_note)
qed (auto simp: tr_ok_def tr_list_def approve_def dismiss_def revoke_def restore_def Let_def
      intro: distinct_map_filter_drop length_filter_pending split: option.splits)

lemma trust_run_ok: "tr_ok t \<Longrightarrow> tr_ok (trust_run t ops)"
  by (induction ops rule: rev_induct) (auto simp: trust_step_ok)

text \<open>A pending request was really made.\<close>

lemma pending_was_noted:
  assumes "tr_pending t = []" "p \<in> set (tr_pending (trust_run t ops))"
  shows "\<exists>now a. ONote now (pe_name p) (pe_fingerprint p) a \<in> set ops"
  using assms(2)
proof (induction ops arbitrary: p rule: rev_induct)
  case Nil
  then show ?case using assms(1) by simp
next
  case (snoc op ops)
  let ?t = "trust_run t ops"
  have upd: "q \<in> set (update_first P f qs) \<Longrightarrow> (\<And>q. request_key (f q) = request_key q) \<Longrightarrow>
      \<exists>q' \<in> set qs. request_key q' = request_key q" for q P f qs
  proof -
    assume *: "q \<in> set (update_first P f qs)" "\<And>q. request_key (f q) = request_key q"
    from *(1) have "request_key q \<in> set (map request_key (update_first P f qs))"
      unfolding set_map by (rule imageI)
    then have "request_key q \<in> set (map request_key qs)" by (simp only: update_first_key [OF *(2)])
    then show ?thesis by auto
  qed
  show ?case
  proof (cases op)
    case (ONote now n f a)
    have "(\<exists>q \<in> set (tr_pending ?t). request_key q = request_key p) \<or> request_key p = (n, f)"
      using snoc.prems ONote
      by (auto simp: note_pending_def Let_def split: if_splits dest!: upd in_set_dropD)
    then show ?thesis using snoc.IH ONote by (metis Pair_inject Un_iff list.set_intros(1) set_append)
  qed (use snoc in \<open>auto simp: tr_list_def approve_def dismiss_def revoke_def restore_def Let_def
        split: option.splits if_splits\<close>)
qed

text \<open>
  A certificate is trusted for a name only if it was to begin with, a person approved exactly that
  pending request, or an undo restored it.
\<close>

lemma trusted_origin:
  assumes "tr_pending t = []" "bm_get (tr_trusted (trust_run t ops)) name = Some f"
  shows "bm_get (tr_trusted t) name = Some f \<or> ORestore name (Some f) \<in> set ops
    \<or> (\<exists>pre post now a. ops = pre @ OApprove name f # post \<and> ONote now name f a \<in> set pre)"
  using assms(2)
proof (induction ops rule: rev_induct)
  case Nil
  then show ?case by simp
next
  case (snoc op ops)
  let ?t = "trust_run t ops"
  have old: ?case if "bm_get (tr_trusted ?t) name = Some f"
  proof -
    from snoc.IH [OF that] show ?thesis
    proof (elim disjE exE conjE)
      fix pre post now a assume "ops = pre @ OApprove name f # post" "ONote now name f a \<in> set pre"
      then have "ops @ [op] = pre @ OApprove name f # (post @ [op])" "ONote now name f a \<in> set pre" by auto
      then show ?thesis by blast
    qed auto
  qed
  show ?case
  proof (cases "bm_get (tr_trusted ?t) name = Some f")
    case False
    then consider "op = ORestore name (Some f)" | p where "op = OApprove name f" "p \<in> set (tr_pending ?t)" "is_request name f p"
      using snoc.prems
      by (cases op) (auto simp: note_pending_def tr_list_def approve_def dismiss_def revoke_def restore_def Let_def
          split: option.splits if_splits)
    then show ?thesis
    proof cases
      case 2
      then obtain now a where "ONote now name f a \<in> set ops"
        using pending_was_noted [OF assms(1), of p ops] by (auto simp: is_request_def)
      then show ?thesis using 2(1) by blast
    qed simp
  qed (rule old)
qed

section \<open>The client's trust in a server\<close>

text \<open>The verifier inside the TLS handshake: what it leaves as observed, and whether it accepts.\<close>

definition verify_server_cert :: "(bytes \<Rightarrow> fingerprint) \<Rightarrow> fingerprint option \<Rightarrow> bytes \<Rightarrow> fingerprint \<times> bool" where
  "verify_server_cert of_cert pinned der =
     (let fp = of_cert der
      in (fp, case pinned of Some expected \<Rightarrow> expected = fp | None \<Rightarrow> True))"

text \<open>
  The known-servers file as the table it holds, by address; \<open>answer\<close> is what the person says within
  the time allowed (\<^const>\<open>None\<close> is no answer). The result is the decision and the file afterwards.
\<close>

definition confirm_new :: "(string, fingerprint) bmap \<Rightarrow> bool \<Rightarrow> bool option \<Rightarrow> string \<Rightarrow> fingerprint
    \<Rightarrow> (string, fingerprint) bmap \<times> bool" where
  "confirm_new known writable answer server fp =
     (let trusted = (case answer of Some b \<Rightarrow> b | None \<Rightarrow> False)
      in (if trusted \<and> writable then bm_insert server fp known else known, trusted))"

end
