(* ===== verification/Stage.thy ===== *)
theory Stage
  imports Wire
begin

text \<open>
  \<^verbatim>\<open>crates/geserdesk-clipboard/src/stage.rs\<close>: the check of a peer's file names before anything is
  written. A path of this machine is its list of components; \<^verbatim>\<open>push\<close> of a plain name appends
  one. The Unicode lower-casing of the standard library is the parameter \<open>lower\<close>.
\<close>

type_synonym path = "string list"

datatype sanitize_error = Empty | Escapes | ReservedName | TooLong | Duplicate

definition WINDOWS_RESERVED :: "string list" where
  "WINDOWS_RESERVED =
     [''CON'', ''PRN'', ''AUX'', ''NUL'', ''COM1'', ''COM2'', ''COM3'', ''COM4'', ''COM5'', ''COM6'', ''COM7'',
      ''COM8'', ''COM9'', ''LPT1'', ''LPT2'', ''LPT3'', ''LPT4'', ''LPT5'', ''LPT6'', ''LPT7'', ''LPT8'', ''LPT9'']"

definition ends_with :: "string \<Rightarrow> char \<Rightarrow> bool" where
  "ends_with s c \<longleftrightarrow> s \<noteq> [] \<and> last s = c"

definition reserved_stem :: "string \<Rightarrow> bool" where
  "reserved_stem part \<longleftrightarrow>
     (let stem = hd (split_on (CHR ''.'') part) in \<exists>r \<in> set WINDOWS_RESERVED. eq_ignore_ascii_case r stem)"

text \<open>The checks of one component, in the order the code makes them.\<close>

definition check_part :: "string \<Rightarrow> sanitize_error option" where
  "check_part part =
     (if part = [] \<or> part = ''.'' \<or> part = ''..'' then Some Escapes
      else if CHR 92 \<in> set part \<or> CHR '':'' \<in> set part \<or> (\<exists>c \<in> set (chars part). is_control c) then Some Escapes
      else if length part > 255 then Some TooLong
      else if ends_with part (CHR ''.'') \<or> ends_with part (CHR '' '') then Some ReservedName
      else if reserved_stem part then Some ReservedName
      else None)"

fun push_parts :: "path \<Rightarrow> string list \<Rightarrow> sanitize_error + path" where
  "push_parts out [] = Inr out"
| "push_parts out (part # parts) =
     (case check_part part of Some e \<Rightarrow> Inl e | None \<Rightarrow> push_parts (out @ [part]) parts)"

definition starts_with :: "path \<Rightarrow> path \<Rightarrow> bool" where
  "starts_with p dest \<longleftrightarrow> length dest \<le> length p \<and> take (length dest) p = dest"

definition sanitize_one :: "string \<Rightarrow> path \<Rightarrow> sanitize_error + path" where
  "sanitize_one rel dest =
     (if rel = [] then Inl Empty
      else case push_parts dest (split_on (CHR ''/'') rel) of
        Inl e \<Rightarrow> Inl e
      | Inr out \<Rightarrow> if \<not> starts_with out dest then Inl Escapes else Inr out)"

fun sanitize_loop :: "(string \<Rightarrow> string) \<Rightarrow> path \<Rightarrow> string list \<Rightarrow> path list \<Rightarrow> file_entry list
    \<Rightarrow> sanitize_error + path list" where
  "sanitize_loop lower dest seen out [] = Inr out"
| "sanitize_loop lower dest seen out (en # ens) =
     (case sanitize_one (fe_path en) dest of
        Inl e \<Rightarrow> Inl e
      | Inr p \<Rightarrow>
          if lower (fe_path en) \<in> set seen then Inl Duplicate
          else sanitize_loop lower dest (lower (fe_path en) # seen) (out @ [p]) ens)"

definition sanitize_manifest :: "(string \<Rightarrow> string) \<Rightarrow> file_entry list \<Rightarrow> path \<Rightarrow> sanitize_error + path list" where
  "sanitize_manifest lower entries dest = sanitize_loop lower dest [] [] entries"

section \<open>What passes the check\<close>

text \<open>A name either system accepts, which cannot climb, jump to a drive or hide a separator.\<close>

definition safe_part :: "string \<Rightarrow> bool" where
  "safe_part part \<longleftrightarrow> check_part part = None"

lemma safe_part_facts:
  assumes "safe_part part"
  shows "part \<noteq> []" "part \<noteq> ''.''" "part \<noteq> ''..''" "CHR 92 \<notin> set part" "CHR '':'' \<notin> set part"
    "length part \<le> 255" "\<not> ends_with part (CHR ''.'')" "\<not> ends_with part (CHR '' '')" "\<not> reserved_stem part"
    "\<forall>c \<in> set (chars part). \<not> is_control c"
  using assms by (auto simp: safe_part_def check_part_def split: if_splits)

lemma push_parts_Inr: "push_parts out parts = Inr p \<longleftrightarrow> (\<forall>part \<in> set parts. safe_part part) \<and> p = out @ parts"
  by (induction parts arbitrary: out) (auto simp: safe_part_def split: option.splits)

lemma starts_with_append [simp]: "starts_with (dest @ parts) dest"
  by (simp add: starts_with_def)

lemma starts_with_iff: "starts_with p dest \<longleftrightarrow> (\<exists>parts. p = dest @ parts)"
  by (auto simp: starts_with_def) (metis append_take_drop_id)

lemma sanitize_one_Inr:
  "sanitize_one rel dest = Inr p \<longleftrightarrow>
     rel \<noteq> [] \<and> (\<forall>part \<in> set (split_on (CHR ''/'') rel). safe_part part) \<and> p = dest @ split_on (CHR ''/'') rel"
proof -
  have "push_parts dest (split_on (CHR ''/'') rel) = Inl e \<Longrightarrow> \<not> (\<forall>part \<in> set (split_on (CHR ''/'') rel). safe_part part)" for e
    using push_parts_Inr [of dest "split_on (CHR ''/'') rel"] by fastforce
  then show ?thesis
    by (auto simp: sanitize_one_def push_parts_Inr split: sum.splits)
qed

text \<open>The defence in depth is never reached.\<close>

lemma sanitize_one_cases:
  "sanitize_one rel dest = (if rel = [] then Inl Empty else push_parts dest (split_on (CHR ''/'') rel))"
proof (cases "push_parts dest (split_on (CHR ''/'') rel)")
  case (Inr p)
  then have "p = dest @ split_on (CHR ''/'') rel" by (simp add: push_parts_Inr)
  then show ?thesis using Inr by (simp add: sanitize_one_def)
qed (simp add: sanitize_one_def)

lemma split_on_inj: "split_on c a = split_on c b \<Longrightarrow> a = b"
  by (metis join_split)

definition resolved_under :: "path \<Rightarrow> file_entry \<Rightarrow> path \<Rightarrow> bool" where
  "resolved_under dest en p \<longleftrightarrow> fe_path en \<noteq> [] \<and> p = dest @ split_on (CHR ''/'') (fe_path en)
     \<and> (\<forall>part \<in> set (split_on (CHR ''/'') (fe_path en)). safe_part part)"

lemma sanitize_loop_Inr:
  assumes "sanitize_loop lower dest seen out ens = Inr ps" "distinct seen"
  shows "\<exists>qs. ps = out @ qs \<and> list_all2 (resolved_under dest) ens qs
    \<and> distinct (map (\<lambda>en. lower (fe_path en)) ens) \<and> (\<forall>en \<in> set ens. lower (fe_path en) \<notin> set seen)"
  using assms
proof (induction lower dest seen out ens rule: sanitize_loop.induct)
  case (1 lower dest seen out)
  then show ?case by simp
next
  case (2 lower dest seen out en ens)
  obtain p where p: "sanitize_one (fe_path en) dest = Inr p" "lower (fe_path en) \<notin> set seen"
    "sanitize_loop lower dest (lower (fe_path en) # seen) (out @ [p]) ens = Inr ps"
    using 2(2) by (auto split: sum.splits if_splits)
  obtain qs where qs: "ps = (out @ [p]) @ qs" "list_all2 (resolved_under dest) ens qs"
    "distinct (map (\<lambda>en. lower (fe_path en)) ens)" "\<forall>e \<in> set ens. lower (fe_path e) \<notin> set (lower (fe_path en) # seen)"
    using 2(1) [OF p] 2(3) p(2) by auto
  have "resolved_under dest en p" using p(1) by (simp add: sanitize_one_Inr resolved_under_def)
  then show ?case using qs p(2) by (intro exI [of _ "p # qs"]) auto
qed

lemma sanitize_manifest_Inr:
  assumes "sanitize_manifest lower ens dest = Inr ps"
  shows "list_all2 (resolved_under dest) ens ps" "distinct (map (\<lambda>en. lower (fe_path en)) ens)"
  using sanitize_loop_Inr [of lower dest "[]" "[]" ens ps] assms by (auto simp: sanitize_manifest_def)

lemma sanitize_manifest_distinct:
  assumes "sanitize_manifest lower ens dest = Inr ps"
  shows "distinct ps"
proof -
  note l = sanitize_manifest_Inr [OF assms]
  have ps: "ps = map (\<lambda>en. dest @ split_on (CHR ''/'') (fe_path en)) ens"
    using l(1) by (induction rule: list_all2_induct) (auto simp: resolved_under_def)
  have d: "distinct (map fe_path ens)"
    using l(2) by (simp add: distinct_map inj_on_def)
  have "inj_on (\<lambda>s. dest @ split_on (CHR ''/'') s) (set (map fe_path ens))"
    by (auto intro!: inj_onI dest: split_on_inj)
  then have "distinct (map (\<lambda>s. dest @ split_on (CHR ''/'') s) (map fe_path ens))"
    using d by (simp only: distinct_map)
  then show ?thesis by (simp add: ps comp_def)
qed

lemma sanitize_manifest_length: "sanitize_manifest lower ens dest = Inr ps \<Longrightarrow> length ps = length ens"
  by (drule sanitize_manifest_Inr(1)) (simp add: list_all2_lengthD)

end
