(* ===== verification/File_Owner.thy ===== *)
theory File_Owner
  imports Stage Chunks
begin

text \<open>
  \<^verbatim>\<open>crates/geserdesk-clipboard/src/files.rs\<close>: turning copied files and folders into a manifest, and
  serving their bytes. The file system is explicit: the tree below a copied path when it is walked,
  and a map from paths to nodes when it is read. File names are valid UTF-8.
\<close>

definition MAX_ENTRIES :: nat where
  "MAX_ENTRIES = 10000"

definition MAX_DEPTH :: nat where
  "MAX_DEPTH = 32"

definition MAX_READ_LEN :: nat where
  "MAX_READ_LEN = 1024 * 1024"

datatype collect_error = TooManyEntries nat | TooDeep nat | CTooLarge nat

section \<open>Collecting\<close>

text \<open>What \<^verbatim>\<open>symlink_metadata\<close> and \<^verbatim>\<open>read_dir\<close> find below a path.\<close>

datatype tree =
    TFile nat \<comment> \<open>a regular file and its length\<close>
  | TDir "(string \<times> tree) list option" \<comment> \<open>a folder; \<open>None\<close> when it cannot be listed\<close>
  | TLink
  | TOther
  | TGone

record walk_acc =
  wa_entries :: "file_entry list"
  wa_abs :: "path list"
  wa_total :: nat

definition wa_empty :: walk_acc where
  "wa_empty = \<lparr>wa_entries = [], wa_abs = [], wa_total = 0\<rparr>"

definition push_entry :: "path \<Rightarrow> file_entry \<Rightarrow> walk_acc \<Rightarrow> collect_error + walk_acc" where
  "push_entry p en a =
     (let a = a\<lparr>wa_entries := wa_entries a @ [en], wa_abs := wa_abs a @ [p]\<rparr>
      in if length (wa_entries a) > MAX_ENTRIES then Inl (TooManyEntries MAX_ENTRIES) else Inr a)"

lemma size_list_insort: "size_list f (insort_key k x xs) = Suc (f x + size_list f xs)"
  by (induction xs) auto

lemma size_list_sort_key [simp]: "size_list f (sort_key k xs) = size_list f xs"
  by (induction xs) (auto simp: sort_key_def size_list_insort)

function (sequential)
  walk :: "nat \<Rightarrow> path \<Rightarrow> tree \<Rightarrow> string \<Rightarrow> nat \<Rightarrow> walk_acc \<Rightarrow> collect_error + walk_acc"
and walk_children :: "nat \<Rightarrow> path \<Rightarrow> (string \<times> tree) list \<Rightarrow> string \<Rightarrow> nat \<Rightarrow> walk_acc \<Rightarrow> collect_error + walk_acc"
where
  "walk mx p t rel depth a =
     (if depth > MAX_DEPTH then Inl (TooDeep MAX_DEPTH)
      else case t of
        TGone \<Rightarrow> Inr a
      | TLink \<Rightarrow> Inr a
      | TOther \<Rightarrow> Inr a
      | TDir children \<Rightarrow>
          (case push_entry p \<lparr>fe_path = rel, fe_size = 0, fe_dir = True\<rparr> a of
             Inl e \<Rightarrow> Inl e
           | Inr a \<Rightarrow>
               (case children of None \<Rightarrow> Inr a
                | Some cs \<Rightarrow> walk_children mx p (sort_key fst cs) rel depth a))
      | TFile n \<Rightarrow>
          if \<not> is_u64 (wa_total a + n) then Inl (CTooLarge mx)
          else if mx > 0 \<and> wa_total a + n > mx then Inl (CTooLarge mx)
          else push_entry p \<lparr>fe_path = rel, fe_size = n, fe_dir = False\<rparr> (a\<lparr>wa_total := wa_total a + n\<rparr>))"
| "walk_children mx p [] rel depth a = Inr a"
| "walk_children mx p ((name, t) # cs) rel depth a =
     (case walk mx (p @ [name]) t (rel @ ''/'' @ name) (depth + 1) a of
        Inl e \<Rightarrow> Inl e
      | Inr a \<Rightarrow> walk_children mx p cs rel depth a)"
  by pat_completeness auto
termination
  by (relation "measure (\<lambda>x. case x of
       Inl (mx, p, t, rel, depth, a) \<Rightarrow> 2 * size t
     | Inr (mx, p, cs, rel, depth, a) \<Rightarrow> 2 * size_list (size_prod (\<lambda>x. 0) size) cs + 1)") auto

declare walk.simps [simp del]

text \<open>The loop over the roots; a root without a file name is called \<^verbatim>\<open>item\<close>.\<close>

fun collect_roots :: "nat \<Rightarrow> (path \<times> tree) list \<Rightarrow> walk_acc \<Rightarrow> collect_error + walk_acc" where
  "collect_roots mx [] a = Inr a"
| "collect_roots mx ((p, t) # roots) a =
     (case walk mx p t (if p = [] then ''item'' else last p) 0 a of
        Inl e \<Rightarrow> Inl e
      | Inr a \<Rightarrow> collect_roots mx roots a)"

definition collect :: "(path \<times> tree) list \<Rightarrow> nat \<Rightarrow> collect_error + (file_manifest \<times> path list)" where
  "collect roots mx =
     (case collect_roots mx roots wa_empty of
        Inl e \<Rightarrow> Inl e
      | Inr a \<Rightarrow> Inr (\<lparr>fm_entries = wa_entries a\<rparr>, wa_abs a))"

definition entry_bytes :: "file_entry list \<Rightarrow> nat" where
  "entry_bytes ens = sum_list (map fe_size (filter (\<lambda>e. \<not> fe_dir e) ens))"

text \<open>The limits hold at every moment of the walk, and a name's depth is bounded.\<close>

definition wa_ok :: "nat \<Rightarrow> walk_acc \<Rightarrow> bool" where
  "wa_ok mx a \<longleftrightarrow> length (wa_entries a) \<le> MAX_ENTRIES \<and> length (wa_abs a) = length (wa_entries a)
     \<and> wa_total a = entry_bytes (wa_entries a) \<and> is_u64 (wa_total a) \<and> (mx > 0 \<longrightarrow> wa_total a \<le> mx)"

lemma push_entry_Inr:
  "push_entry p en a = Inr a' \<longleftrightarrow> length (wa_entries a) < MAX_ENTRIES
     \<and> a' = a\<lparr>wa_entries := wa_entries a @ [en], wa_abs := wa_abs a @ [p]\<rparr>"
  by (auto simp: push_entry_def Let_def)

lemma wa_ok_empty [simp]: "wa_ok mx wa_empty"
  by (simp add: wa_ok_def wa_empty_def entry_bytes_def is_u64_def)

lemma wa_ok_dir: "wa_ok mx a \<Longrightarrow> push_entry p \<lparr>fe_path = rel, fe_size = 0, fe_dir = True\<rparr> a = Inr a' \<Longrightarrow> wa_ok mx a'"
  by (auto simp: push_entry_Inr wa_ok_def entry_bytes_def)

lemma wa_ok_file:
  "wa_ok mx a \<Longrightarrow> is_u64 (wa_total a + n) \<Longrightarrow> \<not> (mx > 0 \<and> wa_total a + n > mx) \<Longrightarrow>
   push_entry p \<lparr>fe_path = rel, fe_size = n, fe_dir = False\<rparr> (a\<lparr>wa_total := wa_total a + n\<rparr>) = Inr a' \<Longrightarrow> wa_ok mx a'"
  by (auto simp: push_entry_Inr wa_ok_def entry_bytes_def)

lemma walk_ok:
  "walk mx p t rel depth a = Inr a' \<Longrightarrow> wa_ok mx a \<Longrightarrow> wa_ok mx a'"
  "walk_children mx p cs rel depth a = Inr a' \<Longrightarrow> wa_ok mx a \<Longrightarrow> wa_ok mx a'"
proof (induction mx p t rel depth a and mx p cs rel depth a arbitrary: a' and a' rule: walk_walk_children.induct)
  case (1 mx p t rel depth a)
  have d: "\<not> depth > MAX_DEPTH" using "1.prems"(1) by (auto simp: walk.simps [of mx p t])
  show ?case
  proof (cases t)
    case (TFile n)
    then show ?thesis
      using "1.prems" d wa_ok_file [of mx a n p rel a']
      by (auto simp: walk.simps [of mx p "TFile n"] split: if_splits)
  next
    case (TDir children)
    obtain a1 where a1: "push_entry p \<lparr>fe_path = rel, fe_size = 0, fe_dir = True\<rparr> a = Inr a1"
      using "1.prems"(1) d TDir by (auto simp: walk.simps [of mx p "TDir children"] split: sum.splits)
    have ok1: "wa_ok mx a1" by (rule wa_ok_dir [OF "1.prems"(2) a1])
    show ?thesis
    proof (cases children)
      case None
      then show ?thesis using "1.prems"(1) d TDir a1 ok1 by (simp add: walk.simps [of mx p "TDir None"])
    next
      case (Some cs)
      have "walk_children mx p (sort_key fst cs) rel depth a1 = Inr a'"
        using "1.prems"(1) d TDir a1 Some by (simp add: walk.simps [of mx p "TDir (Some cs)"])
      then show ?thesis using "1.IH" [OF d TDir a1 Some] ok1 by blast
    qed
  qed (use "1.prems" d in \<open>auto simp: walk.simps [of mx p TLink] walk.simps [of mx p TOther]
      walk.simps [of mx p TGone]\<close>)
next
  case (2 mx p rel depth a)
  then show ?case by simp
next
  case (3 mx p name t cs rel depth a)
  then show ?case by (auto split: sum.splits)
qed

lemma collect_roots_ok: "collect_roots mx roots a = Inr a' \<Longrightarrow> wa_ok mx a \<Longrightarrow> wa_ok mx a'"
  by (induction mx roots a rule: collect_roots.induct) (auto split: sum.splits dest: walk_ok(1))

lemma collect_limits:
  assumes "collect roots mx = Inr (m, ps)"
  shows "length (fm_entries m) \<le> MAX_ENTRIES" "length ps = length (fm_entries m)"
    "total_bytes m = entry_bytes (fm_entries m)" "mx > 0 \<Longrightarrow> total_bytes m \<le> mx"
proof -
  obtain a where a: "collect_roots mx roots wa_empty = Inr a" "m = \<lparr>fm_entries = wa_entries a\<rparr>" "ps = wa_abs a"
    using assms by (auto simp: collect_def split: sum.splits)
  have ok: "wa_ok mx a" by (rule collect_roots_ok [OF a(1) wa_ok_empty])
  then have "is_u64 (entry_bytes (wa_entries a))" unfolding wa_ok_def by metis
  then have t: "total_bytes m = entry_bytes (fm_entries m)"
    by (simp add: total_bytes_eq a entry_bytes_def [symmetric])
  then show "length (fm_entries m) \<le> MAX_ENTRIES" "length ps = length (fm_entries m)"
    "total_bytes m = entry_bytes (fm_entries m)" "mx > 0 \<Longrightarrow> total_bytes m \<le> mx"
    using ok by (auto simp: wa_ok_def a)
qed

section \<open>Serving\<close>

text \<open>A link holds where it leads, as a path from the root.\<close>

datatype node = NFile bytes | NDir | NLink path

type_synonym disk = "path \<Rightarrow> node option"

text \<open>
  The disk is keyed by real paths, the ones no link is part of. Opening a path follows the links on it,
  the last one included, at most as many as the system allows (40 on Linux); \<open>cur\<close> is where the path
  has led so far.
\<close>

definition MAX_LINKS :: nat where
  "MAX_LINKS = 40"

function follow :: "disk \<Rightarrow> nat \<Rightarrow> path \<Rightarrow> path \<Rightarrow> path option" where
  "follow d n cur [] = Some cur"
| "follow d n cur (c # cs) =
     (case d (cur @ [c]) of
        Some (NLink t) \<Rightarrow> (if n = 0 then None else follow d (n - 1) [] (t @ cs))
      | _ \<Rightarrow> follow d n (cur @ [c]) cs)"
  by pat_completeness auto
termination by (relation "measures [\<lambda>(d, n, cur, cs). n, \<lambda>(d, n, cur, cs). length cs]") auto

definition opened :: "disk \<Rightarrow> path \<Rightarrow> path option" where
  "opened d p = follow d MAX_LINKS [] p"

definition stat :: "disk \<Rightarrow> path \<Rightarrow> node option" where
  "stat d p = (case opened d p of Some q \<Rightarrow> d q | None \<Rightarrow> None)"

lemma follow_plain:
  "(\<And>r u t. cs = r @ u \<Longrightarrow> r \<noteq> [] \<Longrightarrow> d (cur @ r) \<noteq> Some (NLink t)) \<Longrightarrow> follow d n cur cs = Some (cur @ cs)"
proof (induction cs arbitrary: cur)
  case (Cons c cs)
  have "d (cur @ [c]) \<noteq> Some (NLink t)" for t using Cons.prems [of "[c]" cs t] by simp
  moreover have "follow d n (cur @ [c]) cs = Some ((cur @ [c]) @ cs)"
  proof (rule Cons.IH)
    fix r u t assume "cs = r @ u" "r \<noteq> []"
    then show "d ((cur @ [c]) @ r) \<noteq> Some (NLink t)" using Cons.prems [of "c # r" u t] by simp
  qed
  ultimately show ?case by (auto split: option.split node.split)
qed simp

text \<open>A path without links leads where it says.\<close>

definition link_free :: "disk \<Rightarrow> path \<Rightarrow> bool" where
  "link_free d p \<longleftrightarrow> (\<forall>q u t. p = q @ u \<longrightarrow> q \<noteq> [] \<longrightarrow> d q \<noteq> Some (NLink t))"

lemma opened_plain: "link_free d p \<Longrightarrow> opened d p = Some p"
  using follow_plain [of p d "[]" MAX_LINKS] by (simp add: opened_def link_free_def)

lemma stat_plain: "link_free d p \<Longrightarrow> stat d p = d p"
  by (simp add: stat_def opened_plain)

record announced =
  an_seq :: nat
  an_manifest :: file_manifest
  an_abs :: "path list"

type_synonym file_owner = "announced option"

definition fo_new :: file_owner where
  "fo_new = None"

definition fo_set :: "nat \<Rightarrow> file_manifest \<Rightarrow> path list \<Rightarrow> file_owner" where
  "fo_set seq m ps = Some \<lparr>an_seq = seq, an_manifest = m, an_abs = ps\<rparr>"

definition fo_clear :: file_owner where
  "fo_clear = None"

text \<open>
  A folder or a link now at the path cannot deliver the announced bytes; a file must still have the
  announced length.
\<close>

definition read_at :: "disk \<Rightarrow> path \<Rightarrow> file_entry \<Rightarrow> nat \<Rightarrow> nat \<Rightarrow> file_read_result" where
  "read_at d p en offset len =
     (case d p of
        Some (NFile bs) \<Rightarrow>
          if length bs \<noteq> fe_size en \<or> offset > fe_size en then FErr Changed
          else FData (take (min (min len MAX_READ_LEN) (fe_size en - offset)) (drop offset bs))
      | _ \<Rightarrow> FErr Changed)"

definition fo_read :: "disk \<Rightarrow> file_owner \<Rightarrow> nat \<Rightarrow> nat \<Rightarrow> nat \<Rightarrow> nat \<Rightarrow> file_read_result" where
  "fo_read d fo seq index offset len =
     (case fo of None \<Rightarrow> FErr NotFound
      | Some cur \<Rightarrow>
          if an_seq cur \<noteq> seq then FErr Superseded
          else if \<not> index < length (fm_entries (an_manifest cur)) then FErr NotFound
          else let en = fm_entries (an_manifest cur) ! index
               in if fe_dir en then FErr Denied
                  else if \<not> index < length (an_abs cur) then FErr NotFound
                  else read_at d (an_abs cur ! index) en offset len)"

text \<open>
  Data is only ever a slice of an announced file that still has its announced size, no longer than
  asked for and than the cap.
\<close>

lemma fo_read_data:
  assumes "fo_read d fo seq index offset len = FData bs"
  shows "\<exists>cur content. fo = Some cur \<and> an_seq cur = seq \<and> index < length (fm_entries (an_manifest cur))
    \<and> index < length (an_abs cur) \<and> \<not> fe_dir (fm_entries (an_manifest cur) ! index)
    \<and> d (an_abs cur ! index) = Some (NFile content) \<and> length content = fe_size (fm_entries (an_manifest cur) ! index)
    \<and> offset \<le> length content \<and> bs = take (min len MAX_READ_LEN) (drop offset content)"
  using assms
  by (auto simp: fo_read_def read_at_def Let_def min_def split: option.splits if_splits node.splits)

end
