(* ===== verification/Pull.thy ===== *)
theory Pull
  imports File_Owner
begin

text \<open>
  \<^verbatim>\<open>crates/geserdesk-clipboard/src/pull.rs\<close>: fetching a manifest's bytes onto this machine's disk.
  The disk is an explicit map from paths to nodes; \<open>io\<close> says which operations the system lets
  succeed. The way a chunk is fetched is a \<open>reader\<close> with a state of its own, which also carries the
  cancel switch: \<open>rd_cancelled\<close> is what \<^verbatim>\<open>is_cancelled\<close> sees, and a read may end cancelled or timed out.
  Making a folder, creating a file and writing to it follow the symbolic links on the path, as the system
  does; removing a folder does not follow the last name.
\<close>

section \<open>The disk\<close>

datatype io_op = IoMkdirs path | IoCreate path | IoWrite path | IoFlush path | IoRemove path

text \<open>
  \<^verbatim>\<open>mkdir\<close>, or nothing when the path already is a folder, through links too. A disk without a root gets one.
\<close>

definition make_dir :: "disk \<Rightarrow> path \<Rightarrow> disk option" where
  "make_dir d p =
     (if stat d p = Some NDir then Some d
      else if p = [] then (if d [] = None then Some (d([] \<mapsto> NDir)) else None)
      else case opened d (butlast p) of
        None \<Rightarrow> None
      | Some q \<Rightarrow>
          if d q = Some NDir \<and> d (q @ [last p]) = None then Some (d(q @ [last p] \<mapsto> NDir)) else None)"

text \<open>
  \<^verbatim>\<open>create_dir_all\<close>, one name after the other. Nothing is made when it fails: what is in the way comes
  first, since below what is missing there is nothing.
\<close>

fun make_dirs :: "disk \<Rightarrow> path \<Rightarrow> path \<Rightarrow> disk option" where
  "make_dirs d cur [] = Some d"
| "make_dirs d cur (c # cs) =
     (case make_dir d (cur @ [c]) of None \<Rightarrow> None | Some d \<Rightarrow> make_dirs d (cur @ [c]) cs)"

definition create_dir_all :: "disk \<Rightarrow> path \<Rightarrow> disk option" where
  "create_dir_all d p = (case make_dir d [] of None \<Rightarrow> None | Some d \<Rightarrow> make_dirs d [] p)"

text \<open>The same for a path of plain folders: every prefix is a folder afterwards.\<close>

definition prefixes_of :: "path \<Rightarrow> path list" where
  "prefixes_of p = map (\<lambda>k. take k p) [0..<Suc (length p)]"

definition mkdirs :: "disk \<Rightarrow> path \<Rightarrow> disk option" where
  "mkdirs d p =
     (if \<exists>q \<in> set (prefixes_of p). d q \<noteq> None \<and> d q \<noteq> Some NDir then None
      else Some (\<lambda>q. if q \<in> set (prefixes_of p) then Some NDir else d q))"

text \<open>
  \<^verbatim>\<open>File::create\<close>: what the path leads to must be in a folder; an existing file is truncated. The handle
  stays with that file: nothing a pull does changes a link, so writing goes where creating went.
\<close>

definition create_file :: "disk \<Rightarrow> path \<Rightarrow> disk option" where
  "create_file d p =
     (case opened d p of
        None \<Rightarrow> None
      | Some q \<Rightarrow>
          if q \<noteq> [] \<and> d (butlast q) = Some NDir \<and> (case d q of None \<Rightarrow> True | Some (NFile _) \<Rightarrow> True | _ \<Rightarrow> False)
          then Some (d(q \<mapsto> NFile [])) else None)"

definition append_file :: "disk \<Rightarrow> path \<Rightarrow> bytes \<Rightarrow> disk" where
  "append_file d p bs =
     (case opened d p of
        None \<Rightarrow> d
      | Some q \<Rightarrow> (case d q of Some (NFile old) \<Rightarrow> d(q \<mapsto> NFile (old @ bs)) | _ \<Rightarrow> d))"

definition remove_tree :: "disk \<Rightarrow> path \<Rightarrow> disk" where
  "remove_tree d p = (\<lambda>q. if starts_with q p then None else d q)"

text \<open>\<^verbatim>\<open>remove_dir_all\<close>: the folders above are followed, a link as the last name is removed itself.\<close>

definition remove_dir :: "disk \<Rightarrow> path \<Rightarrow> disk" where
  "remove_dir d p =
     (if p = [] then remove_tree d []
      else case opened d (butlast p) of None \<Rightarrow> d | Some q \<Rightarrow> remove_tree d (q @ [last p]))"

section \<open>Pulling\<close>

datatype pull_error =
    PSanitize sanitize_error
  | PTooLarge nat
  | PRead file_read_error
  | PShortRead
  | PTimeout
  | PCancelled
  | PIo path

datatype read_event = Chunk file_read_result | TimedOut | CancelledWait

record 'r reader =
  rd_cancelled :: "'r \<Rightarrow> bool"
  rd_read :: "'r \<Rightarrow> nat \<Rightarrow> nat \<Rightarrow> nat \<Rightarrow> 'r \<times> read_event"

record progress =
  pr_seq :: nat
  pr_file :: string
  pr_file_index :: nat
  pr_file_count :: nat
  pr_bytes_done :: nat
  pr_bytes_total :: nat

record 'r pull_state =
  ps_reader :: 'r
  ps_disk :: disk
  ps_done :: nat
  ps_file_index :: nat
  ps_progress :: "progress list"

text \<open>One turn of the loop over the chunks of a file: the offset after it, or the error.\<close>

definition chunk_step :: "'r reader \<Rightarrow> (io_op \<Rightarrow> bool) \<Rightarrow> nat \<Rightarrow> string \<Rightarrow> nat \<Rightarrow> nat \<Rightarrow> nat \<Rightarrow> path \<Rightarrow> nat \<Rightarrow> nat
    \<Rightarrow> 'r pull_state \<Rightarrow> 'r pull_state \<times> (pull_error + nat)" where
  "chunk_step rd io seq name count tot index p sz offset s =
     (let want = min (sz - offset) MAX_READ_LEN;
          r = rd_read rd (ps_reader s) index offset want;
          s = s\<lparr>ps_reader := fst r\<rparr>
      in case snd r of
           CancelledWait \<Rightarrow> (s, Inl PCancelled)
         | TimedOut \<Rightarrow> (s, Inl PTimeout)
         | Chunk (FErr e) \<Rightarrow> (s, Inl (PRead e))
         | Chunk (FData bs) \<Rightarrow>
             if bs = [] then (s, Inl PShortRead)
             else if \<not> io (IoWrite p) then (s, Inl (PIo p))
             else (s\<lparr>ps_disk := append_file (ps_disk s) p bs, ps_done := u64 (ps_done s + length bs),
                     ps_progress := ps_progress s @
                       [\<lparr>pr_seq = seq, pr_file = name, pr_file_index = ps_file_index s, pr_file_count = count,
                         pr_bytes_done = u64 (ps_done s + length bs), pr_bytes_total = tot\<rparr>]\<rparr>,
                   Inr (offset + length bs)))"

lemma chunk_step_Inr:
  assumes "chunk_step rd io seq name count tot index p sz offset s = (s', Inr offset')"
  shows "\<exists>bs. snd (rd_read rd (ps_reader s) index offset (min (sz - offset) MAX_READ_LEN)) = Chunk (FData bs) \<and> bs \<noteq> []
    \<and> offset' = offset + length bs \<and> ps_disk s' = append_file (ps_disk s) p bs
    \<and> ps_reader s' = fst (rd_read rd (ps_reader s) index offset (min (sz - offset) MAX_READ_LEN))"
  using assms by (auto simp: chunk_step_def Let_def split: read_event.splits file_read_result.splits if_splits)

lemma chunk_step_Inl:
  "chunk_step rd io seq name count tot index p sz offset s = (s', Inl e) \<Longrightarrow> ps_disk s' = ps_disk s"
  by (auto simp: chunk_step_def Let_def split: read_event.splits file_read_result.splits if_splits)

function pull_file :: "'r reader \<Rightarrow> (io_op \<Rightarrow> bool) \<Rightarrow> nat \<Rightarrow> string \<Rightarrow> nat \<Rightarrow> nat \<Rightarrow> nat \<Rightarrow> path \<Rightarrow> nat \<Rightarrow> nat
    \<Rightarrow> 'r pull_state \<Rightarrow> 'r pull_state \<times> (pull_error + unit)" where
  "pull_file rd io seq name count tot index p sz offset s =
     (if \<not> offset < sz then (s, Inr ())
      else case chunk_step rd io seq name count tot index p sz offset s of
        (s, Inl e) \<Rightarrow> (s, Inl e)
      | (s, Inr offset) \<Rightarrow> pull_file rd io seq name count tot index p sz offset s)"
  by pat_completeness auto
termination
  by (relation "measure (\<lambda>(rd, io, seq, name, count, tot, index, p, sz, offset, s). sz - offset)")
    (auto dest!: sym [of _ "chunk_step _ _ _ _ _ _ _ _ _ _ _"] chunk_step_Inr intro!: diff_less_mono2)

declare pull_file.simps [simp del]

definition last_component :: "string \<Rightarrow> string" where
  "last_component s = last (split_on (CHR ''/'') s)"

fun pull_entries :: "'r reader \<Rightarrow> (io_op \<Rightarrow> bool) \<Rightarrow> nat \<Rightarrow> nat \<Rightarrow> nat \<Rightarrow> nat \<Rightarrow> (file_entry \<times> path) list
    \<Rightarrow> 'r pull_state \<Rightarrow> 'r pull_state \<times> (pull_error + unit)" where
  "pull_entries rd io seq count tot index [] s = (s, Inr ())"
| "pull_entries rd io seq count tot index ((en, p) # rest) s =
     (if rd_cancelled rd (ps_reader s) then (s, Inl PCancelled)
      else if fe_dir en then
        (if \<not> io (IoMkdirs p) then (s, Inl (PIo p))
         else case create_dir_all (ps_disk s) p of
           None \<Rightarrow> (s, Inl (PIo p))
         | Some d \<Rightarrow> pull_entries rd io seq count tot (index + 1) rest (s\<lparr>ps_disk := d\<rparr>))
      else
        (if \<not> io (IoCreate p) then (s, Inl (PIo p))
         else case create_file (ps_disk s) p of
           None \<Rightarrow> (s, Inl (PIo p))
         | Some d \<Rightarrow>
             (case pull_file rd io seq (last_component (fe_path en)) count tot index p (fe_size en) 0 (s\<lparr>ps_disk := d\<rparr>) of
                (s, Inl e) \<Rightarrow> (s, Inl e)
              | (s, Inr _) \<Rightarrow>
                  if \<not> io (IoFlush p) then (s, Inl (PIo p))
                  else pull_entries rd io seq count tot (index + 1) rest
                         (s\<lparr>ps_file_index := ps_file_index s + 1\<rparr>))))"

definition pull_into :: "'r reader \<Rightarrow> (io_op \<Rightarrow> bool) \<Rightarrow> nat \<Rightarrow> file_manifest \<Rightarrow> path list \<Rightarrow> 'r \<Rightarrow> disk
    \<Rightarrow> 'r pull_state \<times> (pull_error + unit)" where
  "pull_into rd io seq m resolved r d =
     pull_entries rd io seq (length (filter (\<lambda>e. \<not> fe_dir e) (fm_entries m))) (total_bytes m) 0
       (zip (fm_entries m) resolved)
       \<lparr>ps_reader = r, ps_disk = d, ps_done = 0, ps_file_index = 0, ps_progress = []\<rparr>"

definition top_level :: "file_manifest \<Rightarrow> path list \<Rightarrow> path list" where
  "top_level m resolved = map snd (filter (\<lambda>(e, _). CHR ''/'' \<notin> set (fe_path e)) (zip (fm_entries m) resolved))"

record pull_options =
  po_max_bytes :: nat
  po_seq :: nat

definition pull_with_options :: "(string \<Rightarrow> string) \<Rightarrow> 'r reader \<Rightarrow> (io_op \<Rightarrow> bool) \<Rightarrow> pull_options \<Rightarrow> file_manifest
    \<Rightarrow> path \<Rightarrow> 'r \<Rightarrow> disk \<Rightarrow> disk \<times> (pull_error + path list)" where
  "pull_with_options lower rd io opt m dest r d =
     (if po_max_bytes opt > 0 \<and> total_bytes m > po_max_bytes opt then (d, Inl (PTooLarge (po_max_bytes opt)))
      else case sanitize_manifest lower (fm_entries m) dest of
        Inl e \<Rightarrow> (d, Inl (PSanitize e))
      | Inr resolved \<Rightarrow>
          if rd_cancelled rd r then (d, Inl PCancelled)
          else if \<not> io (IoMkdirs dest) then (d, Inl (PIo dest))
          else case create_dir_all d dest of
            None \<Rightarrow> (d, Inl (PIo dest))
          | Some d \<Rightarrow>
              (case pull_into rd io (po_seq opt) m resolved r d of
                 (s, Inr _) \<Rightarrow> (ps_disk s, Inr (top_level m resolved))
               | (s, Inl e) \<Rightarrow>
                   (if io (IoRemove dest) then remove_dir (ps_disk s) dest else ps_disk s, Inl e)))"

section \<open>Paths without links\<close>

text \<open>No link on the way to a folder, nor in it.\<close>

definition no_links :: "disk \<Rightarrow> path \<Rightarrow> bool" where
  "no_links d dest \<longleftrightarrow> (\<forall>q t. d q = Some (NLink t) \<longrightarrow> \<not> starts_with q dest \<and> \<not> starts_with dest q)"

lemma no_links_free: "no_links d dest \<Longrightarrow> link_free d (dest @ r)"
  unfolding link_free_def
proof (intro allI impI)
  fix q u t assume d: "no_links d dest" and q: "dest @ r = q @ u"
  then have "starts_with q dest \<or> starts_with dest q" by (auto simp: append_eq_append_conv2 starts_with_iff)
  then show "d q \<noteq> Some (NLink t)" using d unfolding no_links_def by blast
qed

lemma no_links_upd: "no_links d dest \<Longrightarrow> n = NDir \<or> (\<exists>bs. n = NFile bs) \<Longrightarrow> no_links (d(q \<mapsto> n)) dest"
  by (auto simp: no_links_def)

lemma mkdirs_no_links: "no_links d dest \<Longrightarrow> mkdirs d p = Some d' \<Longrightarrow> no_links d' dest"
  by (auto simp: no_links_def mkdirs_def split: if_splits)

lemma create_file_plain:
  "link_free d p \<Longrightarrow> create_file d p =
     (if p \<noteq> [] \<and> d (butlast p) = Some NDir \<and> (case d p of None \<Rightarrow> True | Some (NFile _) \<Rightarrow> True | _ \<Rightarrow> False)
      then Some (d(p \<mapsto> NFile [])) else None)"
  by (simp add: create_file_def opened_plain)

lemma append_file_plain:
  "link_free d p \<Longrightarrow> append_file d p bs = (case d p of Some (NFile old) \<Rightarrow> d(p \<mapsto> NFile (old @ bs)) | _ \<Rightarrow> d)"
  by (simp add: append_file_def opened_plain)

lemma remove_dir_plain: "link_free d (butlast p) \<Longrightarrow> remove_dir d p = remove_tree d p"
  by (simp add: remove_dir_def opened_plain)

lemma prefixes_of_iff: "q \<in> set (prefixes_of p) \<longleftrightarrow> (\<exists>r. p = q @ r)"
proof
  assume "q \<in> set (prefixes_of p)"
  then obtain k where "q = take k p" by (auto simp: prefixes_of_def simp del: upt_Suc)
  then have "p = q @ drop k p" by simp
  then show "\<exists>r. p = q @ r" by blast
next
  assume "\<exists>r. p = q @ r"
  then obtain r where "p = q @ r" by blast
  then have "q = take (length q) p" "length q \<in> set [0..<Suc (length p)]" by (auto simp del: upt_Suc)
  then show "q \<in> set (prefixes_of p)" unfolding prefixes_of_def set_map by (rule image_eqI)
qed

text \<open>Along a path without links, \<^const>\<open>create_dir_all\<close> makes every prefix a folder.\<close>

definition below :: "path \<Rightarrow> path \<Rightarrow> path set" where
  "below cur cs = {cur @ r | r u. cs = r @ u \<and> r \<noteq> []}"

lemma below_Nil: "below cur [] = {}"
  by (auto simp: below_def)

lemma below_Cons: "below cur (c # cs) = insert (cur @ [c]) (below (cur @ [c]) cs)"
proof (intro set_eqI iffI)
  fix q assume "q \<in> below cur (c # cs)"
  then obtain r u where r: "q = cur @ r" "c # cs = r @ u" "r \<noteq> []" by (auto simp: below_def)
  then obtain r' where "r = c # r'" "cs = r' @ u" by (cases r) auto
  then show "q \<in> insert (cur @ [c]) (below (cur @ [c]) cs)" using r(1) by (cases r') (auto simp: below_def)
next
  fix q assume "q \<in> insert (cur @ [c]) (below (cur @ [c]) cs)"
  then consider "q = cur @ [c]" | r u where "q = cur @ c # r" "cs = r @ u" by (auto simp: below_def)
  then show "q \<in> below cur (c # cs)"
  proof cases
    case 1
    then show ?thesis unfolding below_def by (intro CollectI exI [of _ "[c]"] exI [of _ cs]) simp
  next
    case (2 r u)
    then show ?thesis unfolding below_def by (intro CollectI exI [of _ "c # r"] exI [of _ u]) simp
  qed
qed

lemma below_longer: "q \<in> below cur cs \<Longrightarrow> length cur < length q"
  by (auto simp: below_def)

lemma link_free_prefix: "link_free d (p @ r) \<Longrightarrow> link_free d p"
  by (fastforce simp: link_free_def)

lemma link_free_upd: "link_free d p \<Longrightarrow> link_free (d(q \<mapsto> NDir)) p"
  by (auto simp: link_free_def)

lemma make_dir_plain:
  assumes "link_free d (q @ [x])" "d q = Some NDir"
  shows "make_dir d (q @ [x]) =
    (if d (q @ [x]) = Some NDir then Some d
     else if d (q @ [x]) = None then Some (d(q @ [x] \<mapsto> NDir)) else None)"
  using assms link_free_prefix [OF assms(1)] by (simp add: make_dir_def stat_plain opened_plain)

lemma make_dirs_plain:
  assumes "link_free d (cur @ cs)" "d cur = Some NDir"
  shows "make_dirs d cur cs =
    (if \<exists>q \<in> below cur cs. d q \<noteq> None \<and> d q \<noteq> Some NDir then None
     else Some (\<lambda>q. if q \<in> below cur cs then Some NDir else d q))"
  using assms
proof (induction cs arbitrary: d cur)
  case (Cons c cs)
  let ?p = "cur @ [c]"
  have lf: "link_free d (?p @ cs)" "link_free d ?p" using Cons.prems(1) link_free_prefix [of d ?p cs] by auto
  have fresh: "?p \<notin> below ?p cs" using below_longer by fastforce
  note one = make_dir_plain [OF lf(2) Cons.prems(2)]
  consider "d ?p = None" | "d ?p = Some NDir" | "d ?p \<noteq> None" "d ?p \<noteq> Some NDir" by blast
  then show ?case
  proof cases
    case 1
    have eq: "(\<exists>q \<in> below ?p cs. (d(?p \<mapsto> NDir)) q \<noteq> None \<and> (d(?p \<mapsto> NDir)) q \<noteq> Some NDir)
      \<longleftrightarrow> (\<exists>q \<in> below ?p cs. d q \<noteq> None \<and> d q \<noteq> Some NDir)"
      using fresh by (intro bex_cong refl) auto
    have fn: "(\<lambda>q. if q \<in> below ?p cs then Some NDir else (d(?p \<mapsto> NDir)) q)
      = (\<lambda>q. if q \<in> insert ?p (below ?p cs) then Some NDir else d q)" by (auto simp: fun_eq_iff)
    have "make_dirs (d(?p \<mapsto> NDir)) ?p cs =
      (if \<exists>q \<in> below ?p cs. d q \<noteq> None \<and> d q \<noteq> Some NDir then None
       else Some (\<lambda>q. if q \<in> insert ?p (below ?p cs) then Some NDir else d q))"
      unfolding Cons.IH [OF link_free_upd [OF lf(1)], of ?p, unfolded fun_upd_same, OF refl] eq fn ..
    then show ?thesis using one 1 by (simp add: below_Cons)
  next
    case 2
    then show ?thesis using one Cons.IH [OF lf(1)] by (auto simp: below_Cons fun_eq_iff)
  next
    case 3
    then show ?thesis using one by (auto simp: below_Cons)
  qed
qed (simp add: below_Nil)

lemma prefixes_below: "set (prefixes_of p) = insert [] (below [] p)"
  by (auto simp: prefixes_of_iff below_def)

lemma make_dir_root: "make_dir d [] = (if d [] = Some NDir then Some d else if d [] = None then Some (d([] \<mapsto> NDir)) else None)"
  by (simp add: make_dir_def stat_def opened_def)

lemma create_dir_all_plain:
  assumes "link_free d p"
  shows "create_dir_all d p = mkdirs d p"
proof -
  have root: "[] \<notin> below [] p" using below_longer by fastforce
  consider "d [] = None" | "d [] = Some NDir" | "d [] \<noteq> None" "d [] \<noteq> Some NDir" by blast
  then show ?thesis
  proof cases
    case 1
    have eq: "(\<exists>q \<in> below [] p. (d([] \<mapsto> NDir)) q \<noteq> None \<and> (d([] \<mapsto> NDir)) q \<noteq> Some NDir)
      \<longleftrightarrow> (\<exists>q \<in> below [] p. d q \<noteq> None \<and> d q \<noteq> Some NDir)"
      using root by (intro bex_cong refl) auto
    have fn: "(\<lambda>q. if q \<in> below [] p then Some NDir else (d([] \<mapsto> NDir)) q)
      = (\<lambda>q. if q \<in> insert [] (below [] p) then Some NDir else d q)" by (auto simp: fun_eq_iff)
    have "make_dirs (d([] \<mapsto> NDir)) [] p =
      (if \<exists>q \<in> below [] p. d q \<noteq> None \<and> d q \<noteq> Some NDir then None
       else Some (\<lambda>q. if q \<in> insert [] (below [] p) then Some NDir else d q))"
      using make_dirs_plain [of "d([] \<mapsto> NDir)" "[]" p] link_free_upd [OF assms] unfolding eq fn by simp
    then show ?thesis using 1 by (simp add: create_dir_all_def make_dir_root mkdirs_def prefixes_below)
  next
    case 2
    then show ?thesis
      using make_dirs_plain [of d "[]" p] assms
      by (auto simp: create_dir_all_def make_dir_root mkdirs_def prefixes_below fun_eq_iff)
  next
    case 3
    then show ?thesis by (auto simp: create_dir_all_def make_dir_root mkdirs_def prefixes_below)
  qed
qed

lemma mkdirs_link_free:
  assumes "mkdirs d p = Some d'"
  shows "link_free d p" "link_free d' p" "create_dir_all d p = Some d'"
proof -
  have n: "d q = None \<or> d q = Some NDir" if "\<exists>r. p = q @ r" for q
    using assms that by (auto simp: mkdirs_def prefixes_of_iff [symmetric] split: if_splits)
  show f: "link_free d p" unfolding link_free_def using n by fastforce
  have "d' q = Some NDir" if "\<exists>r. p = q @ r" for q
    using assms that by (auto simp: mkdirs_def prefixes_of_iff [symmetric] split: if_splits)
  then show "link_free d' p" unfolding link_free_def by fastforce
  show "create_dir_all d p = Some d'" using create_dir_all_plain [OF f] assms by simp
qed

section \<open>A well-formed disk\<close>

text \<open>Whatever exists has a folder above it.\<close>

definition disk_ok :: "disk \<Rightarrow> bool" where
  "disk_ok d \<longleftrightarrow> d [] = Some NDir \<and> (\<forall>q x. d (q @ [x]) \<noteq> None \<longrightarrow> d q = Some NDir)"

lemma disk_okD: "disk_ok d \<Longrightarrow> d (q @ [x]) = Some n \<Longrightarrow> d q = Some NDir"
  unfolding disk_ok_def by blast

lemma disk_okI: "d [] = Some NDir \<Longrightarrow> (\<And>q x n. d (q @ [x]) = Some n \<Longrightarrow> d q = Some NDir) \<Longrightarrow> disk_ok d"
  unfolding disk_ok_def by blast

lemma disk_ok_root: "disk_ok d \<Longrightarrow> d [] = Some NDir"
  by (simp add: disk_ok_def)

lemma disk_ok_above: "disk_ok d \<Longrightarrow> d (q @ r) = Some n \<Longrightarrow> r \<noteq> [] \<Longrightarrow> d q = Some NDir"
proof (induction r arbitrary: n rule: rev_induct)
  case (snoc x r)
  have "d (q @ r) = Some NDir" using disk_okD [of d "q @ r" x n] snoc.prems by simp
  then show ?case using snoc.IH snoc.prems(1) by (cases "r = []") auto
qed simp

lemma disk_ok_prefix: "disk_ok d \<Longrightarrow> d p = Some NDir \<Longrightarrow> q \<in> set (prefixes_of p) \<Longrightarrow> d q = Some NDir"
  using disk_ok_above [of d q _ NDir] by (cases "q = p") (auto simp: prefixes_of_iff)

lemma set_prefixes_of_snoc: "set (prefixes_of (q @ [x])) = insert (q @ [x]) (set (prefixes_of q))"
proof (rule set_eqI)
  fix r
  have "(\<exists>u. q @ [x] = r @ u) \<longleftrightarrow> r = q @ [x] \<or> (\<exists>u. q = r @ u)"
  proof
    assume "\<exists>u. q @ [x] = r @ u"
    then obtain u where "q @ [x] = r @ u" ..
    then show "r = q @ [x] \<or> (\<exists>u. q = r @ u)" by (cases u rule: rev_cases) auto
  qed auto
  then show "r \<in> set (prefixes_of (q @ [x])) \<longleftrightarrow> r \<in> insert (q @ [x]) (set (prefixes_of q))"
    by (simp add: prefixes_of_iff)
qed

lemma mkdirs_child:
  assumes "disk_ok d" "d q = Some NDir" "d (q @ [x]) = None"
  shows "mkdirs d (q @ [x]) = Some (d(q @ [x] \<mapsto> NDir))"
proof -
  have above: "d r = Some NDir" if "r \<in> set (prefixes_of q)" for r
    using disk_ok_prefix [OF assms(1,2) that] .
  then have "(\<lambda>r. if r \<in> set (prefixes_of (q @ [x])) then Some NDir else d r) = d(q @ [x] \<mapsto> NDir)"
    by (auto simp: set_prefixes_of_snoc)
  then show ?thesis using above assms(3) by (auto simp: mkdirs_def set_prefixes_of_snoc)
qed

lemma disk_ok_free:
  assumes "disk_ok d" "d q = Some NDir"
  shows "link_free d q"
  unfolding link_free_def
proof (intro allI impI)
  fix r u t assume "q = r @ u"
  then have "d r = Some NDir" using disk_ok_prefix [OF assms] by (auto simp: prefixes_of_iff)
  then show "d r \<noteq> Some (NLink t)" by simp
qed

lemma link_free_child:
  assumes "disk_ok d" "d q = Some NDir" "\<And>t. d (q @ [x]) \<noteq> Some (NLink t)"
  shows "link_free d (q @ [x])"
  unfolding link_free_def
proof (intro allI impI)
  fix r u t assume r: "q @ [x] = r @ u" "r \<noteq> []"
  then consider "r = q @ [x]" | u' where "q = r @ u'" by (cases u rule: rev_cases) auto
  then show "d r \<noteq> Some (NLink t)"
  proof cases
    case (2 u')
    then show ?thesis using disk_ok_free [OF assms(1,2)] r(2) unfolding link_free_def by blast
  qed (use assms(3) in blast)
qed

lemma create_dir_all_child:
  assumes "disk_ok d" "d q = Some NDir" "d (q @ [x]) = None"
  shows "create_dir_all d (q @ [x]) = Some (d(q @ [x] \<mapsto> NDir))"
  by (rule mkdirs_link_free(3) [OF mkdirs_child [OF assms]])

lemma create_file_child:
  assumes "disk_ok d" "d q = Some NDir" "d (q @ [x]) = None"
  shows "create_file d (q @ [x]) = Some (d(q @ [x] \<mapsto> NFile []))"
  using assms(2,3) link_free_child [OF assms(1,2)] by (simp add: create_file_plain)

lemma disk_ok_child:
  assumes "disk_ok d" "d q = Some NDir" "d (q @ [x]) = None"
  shows "disk_ok (d(q @ [x] \<mapsto> n))"
proof (rule disk_okI)
  fix r y m assume m: "(d(q @ [x] \<mapsto> n)) (r @ [y]) = Some m"
  have "r \<noteq> q @ [x]"
  proof
    assume r: "r = q @ [x]"
    then have "d ((q @ [x]) @ [y]) = Some m" using m by (simp split: if_splits)
    then show False using disk_okD [OF assms(1)] assms(3) by fastforce
  qed
  then show "(d(q @ [x] \<mapsto> n)) r = Some NDir"
    using m assms(1,2) by (auto split: if_splits dest: disk_okD)
qed (use assms in \<open>auto dest: disk_ok_root\<close>)

lemma disk_ok_file:
  assumes "disk_ok d" "q \<noteq> []" "d (butlast q) = Some NDir" "d q = None \<or> (\<exists>bs. d q = Some (NFile bs))"
  shows "disk_ok (d(q \<mapsto> NFile bs'))"
proof (rule disk_okI)
  have above: "d q \<noteq> Some NDir" using assms(4) by auto
  fix r y m assume m: "(d(q \<mapsto> NFile bs')) (r @ [y]) = Some m"
  then have r: "d r = Some NDir"
    using disk_okD [OF assms(1), of r y] assms(3) by (cases "r @ [y] = q") (auto split: if_splits)
  then have "r \<noteq> q" using above by auto
  then show "(d(q \<mapsto> NFile bs')) r = Some NDir" using r by simp
qed (use assms in \<open>auto dest: disk_ok_root\<close>)

lemma disk_ok_append_file: "disk_ok d \<Longrightarrow> disk_ok (append_file d p bs)"
proof -
  assume d: "disk_ok d"
  show "disk_ok (append_file d p bs)"
  proof (cases "append_file d p bs = d")
    case False
    then obtain q old where q: "d q = Some (NFile old)" "append_file d p bs = d(q \<mapsto> NFile (old @ bs))"
      by (auto simp: append_file_def split: option.splits node.splits)
    have "q \<noteq> []" using q(1) disk_ok_root [OF d] by auto
    moreover from this have "d (butlast q) = Some NDir" using disk_okD [OF d, of "butlast q" "last q"] q(1) by simp
    ultimately show ?thesis using disk_ok_file [OF d] q by simp
  qed (use d in simp)
qed

lemma disk_ok_create_file: "disk_ok d \<Longrightarrow> create_file d p = Some d' \<Longrightarrow> disk_ok d'"
  by (auto simp: create_file_def split: option.splits node.splits if_splits intro: disk_ok_file)

lemma disk_ok_make_dir: "disk_ok d \<Longrightarrow> make_dir d p = Some d' \<Longrightarrow> disk_ok d'"
  by (auto simp: make_dir_def disk_ok_root split: option.splits if_splits intro: disk_ok_child)

lemma disk_ok_make_dirs: "disk_ok d \<Longrightarrow> make_dirs d cur cs = Some d' \<Longrightarrow> disk_ok d'"
  by (induction d cur cs rule: make_dirs.induct) (auto split: option.splits dest: disk_ok_make_dir)

lemma disk_ok_create_dir_all: "disk_ok d \<Longrightarrow> create_dir_all d p = Some d' \<Longrightarrow> disk_ok d'"
  by (auto simp: create_dir_all_def split: option.splits dest: disk_ok_make_dir disk_ok_make_dirs)

lemma disk_ok_mkdirs:
  assumes "disk_ok d" "mkdirs d p = Some d'"
  shows "disk_ok d'"
proof (rule disk_okI)
  have d': "d' = (\<lambda>q. if q \<in> set (prefixes_of p) then Some NDir else d q)"
    using assms(2) by (auto simp: mkdirs_def split: if_splits)
  show "d' [] = Some NDir" using assms(1) by (simp add: d' disk_ok_root)
  fix q x n assume "d' (q @ [x]) = Some n"
  moreover have "q \<in> set (prefixes_of p)" if "q @ [x] \<in> set (prefixes_of p)"
    using that by (auto simp: prefixes_of_iff)
  ultimately show "d' q = Some NDir" using assms(1) by (auto simp: d' split: if_splits dest: disk_okD)
qed

section \<open>Nothing is written outside the destination\<close>

definition only_under :: "path \<Rightarrow> disk \<Rightarrow> disk \<Rightarrow> bool" where
  "only_under dest d d' \<longleftrightarrow> (\<forall>q. \<not> starts_with q dest \<longrightarrow> d' q = d q)"

lemma only_under_refl [simp]: "only_under dest d d"
  by (simp add: only_under_def)

lemma only_under_trans: "only_under dest d d' \<Longrightarrow> only_under dest d' d'' \<Longrightarrow> only_under dest d d''"
  by (simp add: only_under_def)

text \<open>Once the destination's own ancestors are folders, making a folder below it touches nothing else.\<close>

definition rooted :: "disk \<Rightarrow> path \<Rightarrow> bool" where
  "rooted d dest \<longleftrightarrow> (\<forall>q \<in> set (prefixes_of dest). d q = Some NDir)"

lemma mkdirs_rooted: "mkdirs d p = Some d' \<Longrightarrow> rooted d' p"
  by (auto simp: mkdirs_def rooted_def split: if_splits)

lemma mkdirs_under:
  assumes "mkdirs d (dest @ r) = Some d'" "rooted d dest"
  shows "only_under dest d d' \<and> rooted d' dest"
proof -
  have d': "d' = (\<lambda>q. if q \<in> set (prefixes_of (dest @ r)) then Some NDir else d q)"
    using assms(1) by (auto simp: mkdirs_def split: if_splits)
  have "d' q = d q" if "\<not> starts_with q dest" for q
  proof (cases "q \<in> set (prefixes_of (dest @ r))")
    case True
    then obtain u where "dest @ r = q @ u" by (auto simp: prefixes_of_iff)
    then have "\<exists>w. dest = q @ w" using that by (auto simp: append_eq_append_conv2 starts_with_iff)
    then have "q \<in> set (prefixes_of dest)" by (simp add: prefixes_of_iff)
    then show ?thesis using True assms(2) by (simp add: d' rooted_def)
  qed (simp add: d')
  moreover have "rooted d' dest"
    using assms(2) by (auto simp: rooted_def d')
  ultimately show ?thesis by (simp add: only_under_def)
qed

lemma proper_prefix_not_under: "q \<in> set (prefixes_of dest) \<Longrightarrow> q \<noteq> dest \<Longrightarrow> \<not> starts_with q dest"
  by (auto simp: prefixes_of_iff starts_with_iff)

lemma create_file_under:
  assumes "create_file d p = Some d'" "p = dest @ r" "r \<noteq> []" "rooted d dest" "no_links d dest"
  shows "only_under dest d d' \<and> rooted d' dest \<and> no_links d' dest"
proof -
  have d': "d' = d(p \<mapsto> NFile [])"
    using assms(1) create_file_plain [OF no_links_free [OF assms(5), of r]] assms(2) by (auto split: if_splits)
  have "p \<notin> set (prefixes_of dest)" using assms(2,3) by (auto simp: prefixes_of_iff)
  then show ?thesis using assms no_links_upd [OF assms(5)] by (auto simp: only_under_def rooted_def d')
qed

lemma append_file_under:
  assumes "p = dest @ r" "r \<noteq> []" "rooted d dest" "no_links d dest"
  shows "only_under dest d (append_file d p bs) \<and> rooted (append_file d p bs) dest \<and> no_links (append_file d p bs) dest"
proof -
  have "p \<notin> set (prefixes_of dest)" using assms(1,2) by (auto simp: prefixes_of_iff)
  then show ?thesis
    using assms no_links_upd [OF assms(4)] append_file_plain [OF no_links_free [OF assms(4), of r]]
    by (auto simp: only_under_def rooted_def split: option.splits node.splits)
qed

text \<open>An invariant of the disk that every chunk keeps holds after the file.\<close>

lemma pull_file_invariant:
  assumes step: "\<And>d bs. P d \<Longrightarrow> P (append_file d p bs)" and "P (ps_disk s)"
    and "pull_file rd io seq name count tot index p sz offset s = (s', res)"
  shows "P (ps_disk s')"
  using assms(2,3)
proof (induction "sz - offset" arbitrary: offset s rule: less_induct)
  case less
  note un = pull_file.simps [of rd io seq name count tot index p sz offset s]
  show ?case
  proof (cases "offset < sz")
    case False
    then show ?thesis using less.prems by (simp add: un)
  next
    case True
    obtain s1 y where c: "chunk_step rd io seq name count tot index p sz offset s = (s1, y)" by fastforce
    show ?thesis
    proof (cases y)
      case (Inl e)
      then show ?thesis using less.prems True c chunk_step_Inl [of rd io seq name count tot index p sz offset s s1 e]
        by (simp add: un)
    next
      case (Inr offset1)
      obtain bs where bs: "bs \<noteq> []" "offset1 = offset + length bs" "ps_disk s1 = append_file (ps_disk s) p bs"
        using chunk_step_Inr [OF c [unfolded Inr]] by blast
      have "pull_file rd io seq name count tot index p sz offset1 s1 = (s', res)"
        using less.prems(2) True c Inr by (simp add: un)
      moreover have "sz - offset1 < sz - offset" using True bs by (cases bs) auto
      moreover have "P (ps_disk s1)" using step less.prems(1) bs by simp
      ultimately show ?thesis using less.hyps by blast
    qed
  qed
qed

definition inside :: "path \<Rightarrow> disk \<Rightarrow> disk \<Rightarrow> bool" where
  "inside dest d0 d \<longleftrightarrow> only_under dest d0 d \<and> rooted d dest \<and> no_links d dest"

lemma inside_trans: "inside dest d0 d \<Longrightarrow> inside dest d d' \<Longrightarrow> inside dest d0 d'"
  by (auto simp: inside_def intro: only_under_trans)

lemma inside_rooted: "inside dest d0 d \<Longrightarrow> rooted d dest" "inside dest d0 d \<Longrightarrow> no_links d dest"
  by (simp_all add: inside_def)

lemma pull_entries_inside:
  assumes "inside dest d0 (ps_disk s)" "\<forall>(en, p) \<in> set eps. \<exists>r. r \<noteq> [] \<and> p = dest @ r"
    "pull_entries rd io seq count tot index eps s = (s', res)"
  shows "inside dest d0 (ps_disk s')"
  using assms
proof (induction rd io seq count tot index eps s rule: pull_entries.induct)
  case (1 rd io seq count tot index s)
  then show ?case by simp
next
  case (2 rd io seq count tot index en p rest s)
  obtain r where r: "r \<noteq> []" "p = dest @ r" using "2.prems"(2) by auto
  have rest: "\<forall>(en, p) \<in> set rest. \<exists>r. r \<noteq> [] \<and> p = dest @ r" using "2.prems"(2) by simp
  note rt = inside_rooted [OF "2.prems"(1)]
  have mk: "create_dir_all (ps_disk s) p = mkdirs (ps_disk s) p"
    unfolding r(2) by (rule create_dir_all_plain [OF no_links_free [OF rt(2)]])
  show ?case
  proof (cases "rd_cancelled rd (ps_reader s)")
    case True
    then show ?thesis using "2.prems"(1,3) by simp
  next
    case nc: False
    show ?thesis
    proof (cases "fe_dir en")
      case dir: True
      show ?thesis
      proof (cases "io (IoMkdirs p) \<and> create_dir_all (ps_disk s) p \<noteq> None")
        case False
        then show ?thesis using "2.prems"(1,3) nc dir by (auto split: option.splits if_splits)
      next
        case True
        then obtain d where d: "io (IoMkdirs p)" "create_dir_all (ps_disk s) p = Some d" by auto
        note d2 = d(2) [unfolded mk]
        have "inside dest (ps_disk s) d"
          using mkdirs_under [OF d2 [unfolded r(2)] rt(1)] mkdirs_no_links [OF rt(2) d2] by (simp add: inside_def)
        then show ?thesis
          using "2.IH"(1) [OF nc dir _ d(2)] "2.prems"(1,3) d nc dir rest inside_trans by fastforce
      qed
    next
      case nd: False
      show ?thesis
      proof (cases "io (IoCreate p) \<and> create_file (ps_disk s) p \<noteq> None")
        case False
        then show ?thesis using "2.prems"(1,3) nc nd by (auto split: option.splits if_splits)
      next
        case True
        then obtain d where d: "io (IoCreate p)" "create_file (ps_disk s) p = Some d" by auto
        have i1: "inside dest d0 d"
          using create_file_under [OF d(2) r(2,1) rt] "2.prems"(1) unfolding inside_def by (blast intro: only_under_trans)
        obtain s1 y where f: "pull_file rd io seq (last_component (fe_path en)) count tot index p (fe_size en) 0 (s\<lparr>ps_disk := d\<rparr>) = (s1, y)"
          by fastforce
        have i2: "inside dest d0 (ps_disk s1)"
        proof (rule pull_file_invariant [OF _ _ f])
          show "inside dest d0 (append_file d p bs)" if "inside dest d0 d" for d bs
            using append_file_under [OF r(2,1) inside_rooted(1) [OF that] inside_rooted(2) [OF that]] that
            unfolding inside_def by (blast intro: only_under_trans)
        qed (use i1 in simp)
        show ?thesis
        proof (cases y)
          case (Inl e)
          then have "s' = s1" using "2.prems"(3) nc nd d f by simp
          then show ?thesis using i2 by simp
        next
          case (Inr u)
          then have f': "pull_file rd io seq (last_component (fe_path en)) count tot index p (fe_size en) 0 (s\<lparr>ps_disk := d\<rparr>) = (s1, Inr ())"
            using f by simp
          show ?thesis
          proof (cases "io (IoFlush p)")
            case False
            then have "s' = s1" using "2.prems"(3) nc nd d f' by simp
            then show ?thesis using i2 by simp
          next
            case True
            then have "pull_entries rd io seq count tot (index + 1) rest (s1\<lparr>ps_file_index := ps_file_index s1 + 1\<rparr>) = (s', res)"
              using "2.prems"(3) nc nd d f' by simp
            then show ?thesis
              using "2.IH"(2) [OF nc nd _ d(2) f' [symmetric] refl] d True rest i2 by simp
          qed
        qed
      qed
    qed
  qed
qed

text \<open>The same for the whole pull, with what the creation of the destination adds.\<close>

lemma resolved_strictly_under:
  assumes "sanitize_manifest lower ens dest = Inr ps"
  shows "\<forall>(en, p) \<in> set (zip ens ps). \<exists>r. r \<noteq> [] \<and> p = dest @ r"
proof -
  have "list_all2 (\<lambda>en p. \<exists>r. r \<noteq> [] \<and> p = dest @ r) ens ps"
    by (rule list_all2_mono [OF sanitize_manifest_Inr(1) [OF assms]]) (auto simp: resolved_under_def)
  then show ?thesis by (auto simp: list_all2_iff)
qed

lemma mkdirs_other: "mkdirs d p = Some d' \<Longrightarrow> q \<notin> set (prefixes_of p) \<Longrightarrow> d' q = d q"
  by (auto simp: mkdirs_def split: if_splits)

lemma mkdirs_new: "mkdirs d p = Some d' \<Longrightarrow> q \<in> set (prefixes_of p) \<Longrightarrow> d q = None \<or> d q = Some NDir"
  by (auto simp: mkdirs_def split: if_splits)

lemma pull_runs:
  assumes "sanitize_manifest lower (fm_entries m) dest = Inr ps" "create_dir_all d dest = Some d1"
    "pull_into rd io (po_seq opt) m ps r d1 = (s, y)"
    "\<not> (po_max_bytes opt > 0 \<and> total_bytes m > po_max_bytes opt)" "\<not> rd_cancelled rd r" "io (IoMkdirs dest)"
  shows "pull_with_options lower rd io opt m dest r d =
    (if y \<noteq> Inr () \<and> io (IoRemove dest) then remove_dir (ps_disk s) dest else ps_disk s,
     case y of Inl e \<Rightarrow> Inl e | Inr _ \<Rightarrow> Inr (top_level m ps))"
  using assms by (cases y) (auto simp: pull_with_options_def)

lemma pull_refused:
  assumes "po_max_bytes opt > 0 \<and> total_bytes m > po_max_bytes opt
    \<or> (\<exists>e. sanitize_manifest lower (fm_entries m) dest = Inl e) \<or> rd_cancelled rd r
    \<or> \<not> io (IoMkdirs dest) \<or> create_dir_all d dest = None"
  shows "\<exists>e. pull_with_options lower rd io opt m dest r d = (d, Inl e)"
  using assms by (auto simp: pull_with_options_def split: sum.split option.split)

lemma pull_cases:
  assumes p: "pull_with_options lower rd io opt m dest r d = (d', res)"
  obtains "d' = d" "\<exists>e. res = Inl e"
  | ps d1 s y where "sanitize_manifest lower (fm_entries m) dest = Inr ps" "create_dir_all d dest = Some d1"
      "pull_into rd io (po_seq opt) m ps r d1 = (s, y)"
      "d' = (if y \<noteq> Inr () \<and> io (IoRemove dest) then remove_dir (ps_disk s) dest else ps_disk s)"
      "res = (case y of Inl e \<Rightarrow> Inl e | Inr _ \<Rightarrow> Inr (top_level m ps))"
proof (cases "po_max_bytes opt > 0 \<and> total_bytes m > po_max_bytes opt
    \<or> (\<exists>e. sanitize_manifest lower (fm_entries m) dest = Inl e) \<or> rd_cancelled rd r
    \<or> \<not> io (IoMkdirs dest) \<or> create_dir_all d dest = None")
  case True
  then show ?thesis using pull_refused [of opt m lower dest rd r io d] p that(1) by auto
next
  case False
  then obtain ps d1 where a: "sanitize_manifest lower (fm_entries m) dest = Inr ps" "create_dir_all d dest = Some d1"
    by (cases "sanitize_manifest lower (fm_entries m) dest") auto
  obtain s y where s: "pull_into rd io (po_seq opt) m ps r d1 = (s, y)" by fastforce
  have "(d', res) = (if y \<noteq> Inr () \<and> io (IoRemove dest) then remove_dir (ps_disk s) dest else ps_disk s,
     case y of Inl e \<Rightarrow> Inl e | Inr _ \<Rightarrow> Inr (top_level m ps))"
    using pull_runs [OF a s] p False by simp
  then show ?thesis using that(2) [OF a s] by simp
qed

lemma pull_outside:
  assumes "pull_with_options lower rd io opt m dest r d = (d', res)" "no_links d dest" "\<not> starts_with q dest"
  shows "d' q = d q \<or> (d q = None \<and> d' q = Some NDir \<and> starts_with dest q)"
proof -
  have pre: "starts_with dest q" if "q \<in> set (prefixes_of dest)"
    using that by (auto simp: prefixes_of_iff starts_with_iff)
  have lf: "link_free d dest" using no_links_free [OF assms(2), of "[]"] by simp
  show ?thesis
  using assms(1) proof (cases rule: pull_cases)
    case (2 ps d1 s y)
    have mk: "mkdirs d dest = Some d1" using 2(2) create_dir_all_plain [OF lf] by simp
    have ins: "inside dest d1 (ps_disk s)"
      by (rule pull_entries_inside [OF _ resolved_strictly_under [OF 2(1)] 2(3) [unfolded pull_into_def]])
        (simp add: inside_def mkdirs_rooted [OF mk] mkdirs_no_links [OF assms(2) mk])
    have "link_free (ps_disk s) (butlast dest)"
      using link_free_prefix [of "ps_disk s" "butlast dest" "[last dest]"] no_links_free [OF inside_rooted(2) [OF ins], of "[]"]
      by (cases "dest = []") auto
    then have "remove_dir (ps_disk s) dest = remove_tree (ps_disk s) dest" by (rule remove_dir_plain)
    then have "d' q = d1 q" using 2(4) assms(3) ins by (simp add: inside_def only_under_def remove_tree_def)
    moreover have "d1 q = d q \<or> (d q = None \<and> d1 q = Some NDir \<and> starts_with dest q)"
      using mkdirs_other [OF mk, of q] mkdirs_new [OF mk, of q] mkdirs_rooted [OF mk] pre
      by (cases "q \<in> set (prefixes_of dest)") (auto simp: rooted_def)
    ultimately show ?thesis by auto
  qed simp
qed

text \<open>A pull keeps the disk well-formed.\<close>

lemma pull_entries_disk_ok:
  "pull_entries rd io seq count tot index eps s = (s', res) \<Longrightarrow> disk_ok (ps_disk s) \<Longrightarrow> disk_ok (ps_disk s')"
proof (induction rd io seq count tot index eps s rule: pull_entries.induct)
  case (2 rd io seq count tot index en p rest s)
  consider "s' = s"
    | d where "\<not> rd_cancelled rd (ps_reader s)" "fe_dir en" "io (IoMkdirs p)" "create_dir_all (ps_disk s) p = Some d"
    | d where "\<not> rd_cancelled rd (ps_reader s)" "\<not> fe_dir en" "io (IoCreate p)" "create_file (ps_disk s) p = Some d"
    using "2.prems"(1) by (auto split: if_splits option.splits)
  then show ?case
  proof cases
    case 1
    then show ?thesis using "2.prems"(2) by simp
  next
    case (2 d)
    then show ?thesis
      using "2.IH"(1) [OF 2(1,2) _ 2(4)] "2.prems" disk_ok_create_dir_all [of "ps_disk s" p d] by simp
  next
    case (3 d)
    obtain s1 y where f: "pull_file rd io seq (last_component (fe_path en)) count tot index p (fe_size en) 0 (s\<lparr>ps_disk := d\<rparr>) = (s1, y)"
      by fastforce
    have ok1: "disk_ok (ps_disk s1)"
      by (rule pull_file_invariant [where P = disk_ok, OF disk_ok_append_file _ f]) (use disk_ok_create_file [OF "2.prems"(2) 3(4)] in simp_all)
    show ?thesis
    proof (cases "y = Inr () \<and> io (IoFlush p)")
      case False
      then have "s' = s1" using "2.prems"(1) 3 f by (cases y) auto
      then show ?thesis using ok1 by simp
    next
      case True
      then have f': "pull_file rd io seq (last_component (fe_path en)) count tot index p (fe_size en) 0 (s\<lparr>ps_disk := d\<rparr>) = (s1, Inr ())"
        using f by simp
      show ?thesis using "2.IH"(2) [OF 3(1,2) _ 3(4) f' [symmetric] refl] "2.prems"(1) 3 True f' ok1 by simp
    qed
  qed
qed simp

lemma nothing_below_a_link:
  assumes "disk_ok d" "\<not> link_free d (butlast p)" "starts_with q p"
  shows "d q = None"
proof (rule ccontr)
  assume "d q \<noteq> None"
  then obtain n where n: "d q = Some n" by blast
  obtain r u t where r: "butlast p = r @ u" "r \<noteq> []" "d r = Some (NLink t)" using assms(2) by (auto simp: link_free_def)
  then have "p \<noteq> []" by auto
  then have "p = r @ u @ [last p]" using r(1) by (metis append.assoc append_butlast_last_id)
  moreover obtain v where "q = p @ v" using assms(3) by (auto simp: starts_with_iff)
  ultimately have "q = r @ (u @ [last p] @ v)" by (metis append.assoc)
  then have "d r = Some NDir" using disk_ok_above [OF assms(1), of r "u @ [last p] @ v" n] n by simp
  then show False using r(3) by simp
qed

text \<open>A failed pull leaves nothing under the destination, when the clean-up is allowed to work.\<close>

lemma pull_failed_clean:
  assumes "pull_with_options lower rd io opt m dest r d = (d', Inl e)" "io (IoRemove dest)" "disk_ok d"
  shows "d' = d \<or> (\<forall>q. starts_with q dest \<longrightarrow> d' q = None)"
  using assms(1) proof (cases rule: pull_cases)
  case (2 ps d1 s y)
  have d': "d' = remove_dir (ps_disk s) dest" using 2(4,5) assms(2) by (cases y) auto
  have ok: "disk_ok (ps_disk s)"
    using pull_entries_disk_ok [OF 2(3) [unfolded pull_into_def]] disk_ok_create_dir_all [OF assms(3) 2(2)] by simp
  show ?thesis
  proof (cases "link_free (ps_disk s) (butlast dest)")
    case True
    then show ?thesis by (simp add: d' remove_dir_plain remove_tree_def)
  next
    case False
    then have "ps_disk s q = None" if "starts_with q dest" for q using nothing_below_a_link [OF ok] that by blast
    then show ?thesis by (auto simp: d' remove_dir_def remove_tree_def split: option.split)
  qed
qed simp

section \<open>A faithful source\<close>

fun folders_first :: "path set \<Rightarrow> (file_entry \<times> path) list \<Rightarrow> bool" where
  "folders_first known [] = True"
| "folders_first known ((en, p) # rest) \<longleftrightarrow>
     p \<noteq> [] \<and> butlast p \<in> known \<and> folders_first (if fe_dir en then insert p known else known) rest"

fun offered :: "(nat \<Rightarrow> bytes) \<Rightarrow> (nat \<Rightarrow> bool) \<Rightarrow> nat \<Rightarrow> (file_entry \<times> path) list \<Rightarrow> bool" where
  "offered content serves index [] = True"
| "offered content serves index ((en, p) # rest) \<longleftrightarrow>
     (fe_dir en \<or> serves index \<and> fe_size en = length (content index)) \<and> offered content serves (index + 1) rest"

fun laid :: "(nat \<Rightarrow> bytes) \<Rightarrow> nat \<Rightarrow> (file_entry \<times> path) list \<Rightarrow> disk \<Rightarrow> bool" where
  "laid content index [] d = True"
| "laid content index ((en, p) # rest) d \<longleftrightarrow>
     d p = Some (if fe_dir en then NDir else NFile (content index)) \<and> laid content (index + 1) rest d"

text \<open>
  What a pull relies on to reproduce the files: nothing cancels it and every read inside a served file
  answers with the next bytes of it, at most as many as were asked for.
\<close>

locale chunk_source =
  fixes rd :: "'r reader" and content :: "nat \<Rightarrow> bytes" and serves :: "nat \<Rightarrow> bool" and ok :: "'r \<Rightarrow> bool"
  assumes not_cancelled: "ok r \<Longrightarrow> \<not> rd_cancelled rd r"
    and read_ok: "ok r \<Longrightarrow> serves i \<Longrightarrow> offset < length (content i) \<Longrightarrow> 0 < want \<Longrightarrow> want \<le> MAX_READ_LEN \<Longrightarrow>
      ok (fst (rd_read rd r i offset want))"
    and read_serves: "ok r \<Longrightarrow> serves i \<Longrightarrow> offset < length (content i) \<Longrightarrow> 0 < want \<Longrightarrow> want \<le> MAX_READ_LEN \<Longrightarrow>
      snd (rd_read rd r i offset want) = Chunk (FData (take want (drop offset (content i))))"
begin

lemma chunk_served:
  assumes "serves i" "offset < length (content i)" "io (IoWrite p)" "ok (ps_reader s)"
  shows "\<exists>s'. chunk_step rd io seq name count tot i p (length (content i)) offset s
      = (s', Inr (offset + min (length (content i) - offset) MAX_READ_LEN))
    \<and> ps_disk s' = append_file (ps_disk s) p (take (min (length (content i) - offset) MAX_READ_LEN) (drop offset (content i)))
    \<and> ok (ps_reader s')"
proof -
  let ?want = "min (length (content i) - offset) MAX_READ_LEN"
  have w: "0 < ?want" "?want \<le> MAX_READ_LEN" using assms(2) by (auto simp: MAX_READ_LEN_def)
  have len: "length (take ?want (drop offset (content i))) = ?want" by simp
  then have ne: "take ?want (drop offset (content i)) \<noteq> []" using w(1) by fastforce
  show ?thesis
    using read_serves [OF assms(4,1,2) w] read_ok [OF assms(4,1,2) w] ne len assms(3)
    by (simp add: chunk_step_def Let_def)
qed

lemma file_served:
  assumes "serves i" "\<forall>op. io op"
    and "ps_disk s p = Some (NFile (take offset (content i)))" "offset \<le> length (content i)" "ok (ps_reader s)"
    and "link_free (ps_disk s) p"
  shows "\<exists>s'. pull_file rd io seq name count tot i p (length (content i)) offset s = (s', Inr ())
    \<and> ps_disk s' = (ps_disk s)(p \<mapsto> NFile (content i)) \<and> ok (ps_reader s')"
  using assms(3-6)
proof (induction "length (content i) - offset" arbitrary: offset s rule: less_induct)
  case less
  note un = pull_file.simps [of rd io seq name count tot i p "length (content i)" offset s]
  show ?case
  proof (cases "offset < length (content i)")
    case False
    then have o: "offset = length (content i)" using less.prems by simp
    have "ps_disk s = (ps_disk s)(p \<mapsto> NFile (content i))" using less.prems(1) o by auto
    then show ?thesis
      using pull_file.simps [of rd io seq name count tot i p "length (content i)" "length (content i)" s] o less.prems(3) by auto
  next
    case True
    let ?n = "min (length (content i) - offset) MAX_READ_LEN"
    let ?bs = "take ?n (drop offset (content i))"
    obtain s1 where s1: "chunk_step rd io seq name count tot i p (length (content i)) offset s = (s1, Inr (offset + ?n))"
      "ps_disk s1 = append_file (ps_disk s) p ?bs" "ok (ps_reader s1)"
      using chunk_served [OF assms(1) True _ less.prems(3), of io p] assms(2) by blast
    have n: "0 < ?n" "offset + ?n \<le> length (content i)" using True by (auto simp: MAX_READ_LEN_def)
    then have smaller: "length (content i) - (offset + ?n) < length (content i) - offset" by linarith
    have d1: "ps_disk s1 = (ps_disk s)(p \<mapsto> NFile (take (offset + ?n) (content i)))"
      using s1(2) less.prems(1) append_file_plain [OF less.prems(4)] by (simp add: take_add)
    have lf: "link_free (ps_disk s1) p" using less.prems(4) unfolding d1 link_free_def by auto
    obtain s2 where "pull_file rd io seq name count tot i p (length (content i)) (offset + ?n) s1 = (s2, Inr ())"
      "ps_disk s2 = (ps_disk s1)(p \<mapsto> NFile (content i))" "ok (ps_reader s2)"
      using less.hyps [OF smaller d1 [THEN fun_cong, of p, unfolded fun_upd_same] n(2) s1(3) lf] by blast
    then show ?thesis using True s1(1) d1 by (simp add: un)
  qed
qed

text \<open>
  A tree that lists every folder before what it holds is laid out whole: \<open>known\<close> are the folders
  there are, \<open>laid\<close> says what is then on the disk.
\<close>

lemma entries_served:
  assumes "\<forall>op. io op" "ok (ps_reader s)" "disk_ok (ps_disk s)" "folders_first known eps" "\<forall>q \<in> known. ps_disk s q = Some NDir"
    "distinct (map snd eps)" "\<forall>ep \<in> set eps. ps_disk s (snd ep) = None"
    "offered content serves index eps"
  shows "\<exists>s'. pull_entries rd io seq count tot index eps s = (s', Inr ())
    \<and> laid content index eps (ps_disk s') \<and> (\<forall>q. q \<notin> snd ` set eps \<longrightarrow> ps_disk s' q = ps_disk s q)"
  using assms(2-)
proof (induction eps arbitrary: known index s)
  case Nil
  then show ?case by simp
next
  case (Cons ep rest)
  obtain en p where ep: "ep = (en, p)" by (cases ep)
  obtain q x where p: "p = q @ [x]" "q \<in> known" using Cons.prems(3) ep by (cases p rule: rev_cases) auto
  have q: "ps_disk s q = Some NDir" "ps_disk s p = None" using Cons.prems(4,6) ep p by auto
  have fresh: "p \<notin> snd ` set rest" using Cons.prems(5) ep by auto
  note nc = not_cancelled [OF Cons.prems(1)]
  show ?case
  proof (cases "fe_dir en")
    case True
    let ?s = "s\<lparr>ps_disk := (ps_disk s)(p \<mapsto> NDir)\<rparr>"
    have "\<exists>s'. pull_entries rd io seq count tot (index + 1) rest ?s = (s', Inr ())
      \<and> laid content (index + 1) rest (ps_disk s') \<and> (\<forall>q. q \<notin> snd ` set rest \<longrightarrow> ps_disk s' q = ps_disk ?s q)"
    proof (intro Cons.IH [where known = "insert p known"])
      show "disk_ok (ps_disk ?s)" using disk_ok_child [of "ps_disk s" q x NDir] Cons.prems(2) q p by simp
    qed (use Cons.prems ep True in \<open>auto simp: image_iff\<close>)
    then obtain s' where s': "pull_entries rd io seq count tot (index + 1) rest ?s = (s', Inr ())"
      "laid content (index + 1) rest (ps_disk s')" "\<forall>q. q \<notin> snd ` set rest \<longrightarrow> ps_disk s' q = ps_disk ?s q" by blast
    have "pull_entries rd io seq count tot index (ep # rest) s = (s', Inr ())"
      using s'(1) ep True p q nc assms(1) create_dir_all_child [OF Cons.prems(2)] by simp
    then show ?thesis using s'(2,3) fresh ep True by (intro exI [of _ s']) auto
  next
    case False
    have lf: "link_free ((ps_disk s)(p \<mapsto> NFile [])) p"
      using link_free_child [of "ps_disk s" q x] Cons.prems(2) q p by (auto simp: link_free_def)
    have e: "serves index" "fe_size en = length (content index)" using Cons.prems(7) ep False by auto
    obtain s1 where s1: "pull_file rd io seq (last_component (fe_path en)) count tot index p (length (content index)) 0
        (s\<lparr>ps_disk := (ps_disk s)(p \<mapsto> NFile [])\<rparr>) = (s1, Inr ())" "ps_disk s1 = (ps_disk s)(p \<mapsto> NFile (content index))" "ok (ps_reader s1)"
      using file_served [OF e(1) assms(1), of "s\<lparr>ps_disk := (ps_disk s)(p \<mapsto> NFile [])\<rparr>" p 0,
          where seq = seq and name = "last_component (fe_path en)" and count = count and tot = tot] Cons.prems(1) lf by auto
    let ?s = "s1\<lparr>ps_file_index := ps_file_index s1 + 1\<rparr>"
    have "\<exists>s'. pull_entries rd io seq count tot (index + 1) rest ?s = (s', Inr ())
      \<and> laid content (index + 1) rest (ps_disk s') \<and> (\<forall>q. q \<notin> snd ` set rest \<longrightarrow> ps_disk s' q = ps_disk ?s q)"
    proof (intro Cons.IH [where known = known])
      show "disk_ok (ps_disk ?s)" using disk_ok_child [of "ps_disk s" q x "NFile (content index)"] Cons.prems(2) q p s1(2) by simp
    qed (use Cons.prems ep False s1(2,3) in \<open>auto simp: image_iff\<close>)
    then obtain s' where s': "pull_entries rd io seq count tot (index + 1) rest ?s = (s', Inr ())"
      "laid content (index + 1) rest (ps_disk s')" "\<forall>q. q \<notin> snd ` set rest \<longrightarrow> ps_disk s' q = ps_disk ?s q" by blast
    have "pull_entries rd io seq count tot index (ep # rest) s = (s', Inr ())"
      using s'(1) s1(1) e ep False p q nc assms(1) create_file_child [OF Cons.prems(2)] by simp
    then show ?thesis using s'(2,3) s1(2) fresh ep False by (intro exI [of _ s']) auto
  qed
qed

lemma pull_complete:
  assumes "sanitize_manifest lower (fm_entries m) dest = Inr ps" "po_max_bytes opt = 0 \<or> total_bytes m \<le> po_max_bytes opt"
    "\<forall>op. io op" "ok r" "disk_ok d" "mkdirs d dest = Some d1" "\<forall>q. q \<noteq> dest \<longrightarrow> starts_with q dest \<longrightarrow> d q = None"
    "folders_first {dest} (zip (fm_entries m) ps)" "offered content serves 0 (zip (fm_entries m) ps)"
  shows "\<exists>d'. pull_with_options lower rd io opt m dest r d = (d', Inr (top_level m ps))
    \<and> laid content 0 (zip (fm_entries m) ps) d' \<and> (\<forall>q. q \<notin> set ps \<longrightarrow> d' q = d1 q)"
proof -
  let ?s = "\<lparr>ps_reader = r, ps_disk = d1, ps_done = 0, ps_file_index = 0, ps_progress = []\<rparr>"
  have len: "length ps = length (fm_entries m)" by (rule sanitize_manifest_length [OF assms(1)])
  have free: "\<forall>ep \<in> set (zip (fm_entries m) ps). d1 (snd ep) = None"
  proof
    fix ep assume ep: "ep \<in> set (zip (fm_entries m) ps)"
    obtain q where q: "q \<noteq> []" "snd ep = dest @ q" using resolved_strictly_under [OF assms(1)] ep by (cases ep) auto
    then have "snd ep \<notin> set (prefixes_of dest)" by (auto simp: prefixes_of_iff)
    then show "d1 (snd ep) = None"
      using mkdirs_other [OF assms(6)] assms(7) q by (simp add: starts_with_iff)
  qed
  obtain s' where s': "pull_into rd io (po_seq opt) m ps r d1 = (s', Inr ())" "laid content 0 (zip (fm_entries m) ps) (ps_disk s')"
      "\<forall>q. q \<notin> snd ` set (zip (fm_entries m) ps) \<longrightarrow> ps_disk s' q = d1 q"
    using entries_served [of io ?s "{dest}" "zip (fm_entries m) ps" 0, where seq = "po_seq opt"
        and count = "length (filter (\<lambda>e. \<not> fe_dir e) (fm_entries m))" and tot = "total_bytes m"]
      assms(3,4,8,9) disk_ok_mkdirs [OF assms(5,6)] mkdirs_rooted [OF assms(6)] free sanitize_manifest_distinct [OF assms(1)] len
    by (auto simp: pull_into_def rooted_def prefixes_of_iff)
  show ?thesis
    using pull_runs [OF assms(1) mkdirs_link_free(3) [OF assms(6)] s'(1)] s'(2) s'(3) [unfolded set_map [symmetric] map_snd_zip [OF len [symmetric]]] assms(2,3) not_cancelled [OF assms(4)] by auto
qed

end

text \<open>
  The owner on the same machine, as \<^verbatim>\<open>FileOwner::read\<close> answers: it serves an announced file that still
  is what was announced.
\<close>

definition owner_reader :: "disk \<Rightarrow> file_owner \<Rightarrow> nat \<Rightarrow> 'r reader" where
  "owner_reader d fo seq =
     \<lparr>rd_cancelled = (\<lambda>r. False), rd_read = (\<lambda>r i offset want. (r, Chunk (fo_read d fo seq i offset want)))\<rparr>"

definition owner_content :: "disk \<Rightarrow> file_owner \<Rightarrow> nat \<Rightarrow> bytes" where
  "owner_content d fo i =
     (case fo of None \<Rightarrow> []
      | Some cur \<Rightarrow> if i < length (an_abs cur)
          then (case d (an_abs cur ! i) of Some (NFile bs) \<Rightarrow> bs | _ \<Rightarrow> []) else [])"

definition owner_serves :: "disk \<Rightarrow> file_owner \<Rightarrow> nat \<Rightarrow> nat \<Rightarrow> bool" where
  "owner_serves d fo seq i \<longleftrightarrow>
     (case fo of None \<Rightarrow> False
      | Some cur \<Rightarrow> an_seq cur = seq \<and> i < length (fm_entries (an_manifest cur)) \<and> i < length (an_abs cur)
          \<and> \<not> fe_dir (fm_entries (an_manifest cur) ! i)
          \<and> (case d (an_abs cur ! i) of
               Some (NFile bs) \<Rightarrow> length bs = fe_size (fm_entries (an_manifest cur) ! i) | _ \<Rightarrow> False))"

interpretation owner: chunk_source "owner_reader d fo seq" "owner_content d fo" "owner_serves d fo seq" "\<lambda>_. True"
  for d fo seq
proof unfold_locales
  show "\<not> rd_cancelled (owner_reader d fo seq) r" for r
    by (simp add: owner_reader_def)
  show "True" by simp
  show "snd (rd_read (owner_reader d fo seq) r i offset want)
      = Chunk (FData (take want (drop offset (owner_content d fo i))))"
    if "owner_serves d fo seq i" "offset < length (owner_content d fo i)" "0 < want" "want \<le> MAX_READ_LEN" for r i offset want
    using that
    by (auto simp: owner_reader_def owner_serves_def owner_content_def fo_read_def read_at_def Let_def min_def
        split: option.splits node.splits if_splits)
qed

section \<open>An owner that sends more than it was asked for\<close>

text \<open>
  A chunk longer than \<^verbatim>\<open>want\<close> is written whole: the file and the progress report can exceed what the
  manifest announced and what the limit allows.
\<close>

definition eager_reader :: "unit reader" where
  "eager_reader = \<lparr>rd_cancelled = (\<lambda>r. False), rd_read = (\<lambda>r i offset want. (r, Chunk (FData (replicate 10 (CHR ''x'')))))\<rparr>"

definition overrun_manifest :: "file_manifest" where
  "overrun_manifest = \<lparr>fm_entries = [\<lparr>fe_path = ''a'', fe_size = 1, fe_dir = False\<rparr>]\<rparr>"

lemma pull_overrun:
  "case pull_with_options id eager_reader (\<lambda>_. True) \<lparr>po_max_bytes = 5, po_seq = 1\<rparr> overrun_manifest [''tmp''] () (\<lambda>_. None) of
     (d, res) \<Rightarrow> d [''tmp'', ''a''] = Some (NFile (replicate 10 (CHR ''x''))) \<and> res = Inr [[''tmp'', ''a'']]"
  by code_simp

end
