(* ===== verification/Copy_Paste.thy ===== *)
theory Copy_Paste
  imports Pull
begin

text \<open>
  A copied file or folder, from \<^verbatim>\<open>collect\<close> on the machine that copied it to
  \<^verbatim>\<open>pull_with_options\<close> on the machine that pastes it: the manifest lists every folder before what it
  holds and the owner serves what it announced, so the pull lays the same files out.
\<close>

section \<open>Names\<close>

lemma split_on_append: "c \<notin> set b \<Longrightarrow> split_on c (a @ c # b) = split_on c a @ [b]"
  by (induction a) (auto simp: split_on_single split: list.split)

abbreviation parts_of :: "string \<Rightarrow> string list" where
  "parts_of s \<equiv> split_on (CHR ''/'') s"

definition name_ok :: "string \<Rightarrow> bool" where
  "name_ok s \<longleftrightarrow> CHR ''/'' \<notin> set s"

lemma parts_of_child: "name_ok name \<Longrightarrow> parts_of (rel @ ''/'' @ name) = parts_of rel @ [name]"
  by (simp add: name_ok_def split_on_append)

section \<open>The manifest's order\<close>

fun paths_first :: "path set \<Rightarrow> file_entry list \<Rightarrow> bool" where
  "paths_first known [] = True"
| "paths_first known (en # ens) \<longleftrightarrow> butlast (parts_of (fe_path en)) \<in> known
     \<and> paths_first (if fe_dir en then insert (parts_of (fe_path en)) known else known) ens"

definition dirs_of :: "file_entry list \<Rightarrow> path set" where
  "dirs_of ens = {parts_of (fe_path en) |en. en \<in> set ens \<and> fe_dir en}"

lemma dirs_of_Nil [simp]: "dirs_of [] = {}"
  by (simp add: dirs_of_def)

lemma dirs_of_Cons: "dirs_of (en # ens) = (if fe_dir en then {parts_of (fe_path en)} else {}) \<union> dirs_of ens"
  by (auto simp: dirs_of_def)

lemma dirs_of_append [simp]: "dirs_of (xs @ ys) = dirs_of xs \<union> dirs_of ys"
  by (auto simp: dirs_of_def)

lemma paths_first_append:
  "paths_first known (xs @ ys) \<longleftrightarrow> paths_first known xs \<and> paths_first (known \<union> dirs_of xs) ys"
  by (induction xs arbitrary: known) (auto simp: dirs_of_Cons)

text \<open>What the walk saw is what the disk holds, with names a directory listing can give.\<close>

definition file_of :: "disk \<Rightarrow> path \<Rightarrow> nat \<Rightarrow> bool" where
  "file_of d p n \<longleftrightarrow> (case d p of Some (NFile bs) \<Rightarrow> length bs = n | _ \<Rightarrow> False)"

lemma file_of_iff: "file_of d p n \<longleftrightarrow> (\<exists>bs. d p = Some (NFile bs) \<and> length bs = n)"
  by (auto simp: file_of_def split: option.split node.split)

fun shows_tree :: "disk \<Rightarrow> path \<Rightarrow> tree \<Rightarrow> bool" where
  "shows_tree d p (TFile n) \<longleftrightarrow> file_of d p n"
| "shows_tree d p (TDir (Some cs)) \<longleftrightarrow> (\<forall>(name, t) \<in> set cs. name_ok name \<and> shows_tree d (p @ [name]) t)"
| "shows_tree d p t \<longleftrightarrow> True"

definition entry_shown :: "disk \<Rightarrow> file_entry \<Rightarrow> path \<Rightarrow> bool" where
  "entry_shown d en p \<longleftrightarrow> fe_dir en \<or> file_of d p (fe_size en)"

definition collected :: "disk \<Rightarrow> walk_acc \<Rightarrow> bool" where
  "collected d a \<longleftrightarrow> list_all2 (entry_shown d) (wa_entries a) (wa_abs a) \<and> paths_first {[]} (wa_entries a)"

definition known_dirs :: "walk_acc \<Rightarrow> path set" where
  "known_dirs a = insert [] (dirs_of (wa_entries a))"

lemma collected_push:
  assumes "collected d a" "push_entry p en a0 = Inr a'" "wa_entries a0 = wa_entries a" "wa_abs a0 = wa_abs a"
    "entry_shown d en p" "butlast (parts_of (fe_path en)) \<in> known_dirs a"
  shows "collected d a' \<and> known_dirs a' = known_dirs a \<union> dirs_of [en]"
  using assms
  by (auto simp: collected_def push_entry_Inr paths_first_append known_dirs_def dirs_of_Cons list_all2_appendI)

lemma walk_collected:
  "walk mx p t rel depth a = Inr a' \<Longrightarrow> collected d a \<Longrightarrow> shows_tree d p t \<Longrightarrow>
     butlast (parts_of rel) \<in> known_dirs a \<Longrightarrow> collected d a' \<and> known_dirs a \<subseteq> known_dirs a'"
  "walk_children mx p cs rel depth a = Inr a' \<Longrightarrow> collected d a \<Longrightarrow>
     \<forall>(name, t) \<in> set cs. name_ok name \<and> shows_tree d (p @ [name]) t \<Longrightarrow>
     parts_of rel \<in> known_dirs a \<Longrightarrow> collected d a' \<and> known_dirs a \<subseteq> known_dirs a'"
proof (induction mx p t rel depth a and mx p cs rel depth a arbitrary: a' and a' rule: walk_walk_children.induct)
  case (1 mx p t rel depth a)
  have d: "\<not> depth > MAX_DEPTH" using "1.prems"(1) by (auto simp: walk.simps [of mx p t])
  show ?case
  proof (cases t)
    case (TFile n)
    have "push_entry p \<lparr>fe_path = rel, fe_size = n, fe_dir = False\<rparr> (a\<lparr>wa_total := wa_total a + n\<rparr>) = Inr a'"
      using "1.prems"(1) d TFile by (auto simp: walk.simps [of mx p "TFile n"] split: if_splits)
    moreover have "entry_shown d \<lparr>fe_path = rel, fe_size = n, fe_dir = False\<rparr> p"
      using "1.prems"(3) TFile by (simp add: entry_shown_def)
    ultimately show ?thesis
      using collected_push [OF "1.prems"(2)] "1.prems"(4) by auto
  next
    case (TDir children)
    obtain a1 where a1: "push_entry p \<lparr>fe_path = rel, fe_size = 0, fe_dir = True\<rparr> a = Inr a1"
      using "1.prems"(1) d TDir by (auto simp: walk.simps [of mx p "TDir children"] split: sum.splits)
    from collected_push [OF "1.prems"(2) this]
    have c1: "collected d a1" "known_dirs a1 = insert (parts_of rel) (known_dirs a)"
      using "1.prems"(4) by (auto simp: entry_shown_def dirs_of_Cons)
    show ?thesis
    proof (cases children)
      case None
      then show ?thesis using "1.prems"(1) d TDir a1 c1 by (auto simp: walk.simps [of mx p "TDir None"])
    next
      case (Some cs)
      have "walk_children mx p (sort_key fst cs) rel depth a1 = Inr a'"
        using "1.prems"(1) d TDir a1 Some by (simp add: walk.simps [of mx p "TDir (Some cs)"])
      then have "collected d a' \<and> known_dirs a1 \<subseteq> known_dirs a'"
        using "1.IH" [OF d TDir a1 Some] c1 "1.prems"(3) TDir Some by simp
      then show ?thesis using c1(2) by auto
    qed
  qed (use "1.prems" d in \<open>auto simp: walk.simps [of mx p TLink] walk.simps [of mx p TOther]
      walk.simps [of mx p TGone]\<close>)
next
  case (2 mx p rel depth a)
  then show ?case by simp
next
  case (3 mx p name t cs rel depth a)
  obtain a1 where a1: "walk mx (p @ [name]) t (rel @ ''/'' @ name) (depth + 1) a = Inr a1"
    "walk_children mx p cs rel depth a1 = Inr a'"
    using "3.prems"(1) by (auto split: sum.splits)
  have n: "name_ok name" "shows_tree d (p @ [name]) t" using "3.prems"(3) by auto
  have w: "collected d a1 \<and> known_dirs a \<subseteq> known_dirs a1"
    using "3.IH"(1) [OF a1(1) "3.prems"(2) n(2)] "3.prems"(4) parts_of_child [OF n(1), of rel] by simp
  then have "collected d a' \<and> known_dirs a1 \<subseteq> known_dirs a'"
    using "3.IH"(2) [OF a1(1,2)] "3.prems"(3,4) by auto
  then show ?case using w by auto
qed

definition root_shown :: "disk \<Rightarrow> path \<times> tree \<Rightarrow> bool" where
  "root_shown d rt \<longleftrightarrow> (fst rt \<noteq> [] \<longrightarrow> name_ok (last (fst rt))) \<and> shows_tree d (fst rt) (snd rt)"

lemma collect_roots_collected:
  "collect_roots mx roots a = Inr a' \<Longrightarrow> collected d a \<Longrightarrow> \<forall>rt \<in> set roots. root_shown d rt \<Longrightarrow> collected d a'"
proof (induction mx roots a arbitrary: a' rule: collect_roots.induct)
  case (2 mx p t roots a)
  let ?rel = "if p = [] then ''item'' else last p"
  obtain a1 where a1: "walk mx p t ?rel 0 a = Inr a1" "collect_roots mx roots a1 = Inr a'"
    using "2.prems"(1) by (auto split: sum.splits)
  have r: "root_shown d (p, t)" using "2.prems"(3) by simp
  then have "parts_of ?rel = [?rel]" by (auto simp: root_shown_def name_ok_def split_on_single)
  then have "collected d a1"
    using walk_collected(1) [OF a1(1) "2.prems"(2)] r by (auto simp: root_shown_def known_dirs_def)
  then show ?case using "2.IH" [OF a1(1,2)] "2.prems"(3) by simp
qed simp

section \<open>From one disk to the other\<close>

lemma collect_collected:
  assumes "collect roots mx = Inr (m, ps)" "\<forall>rt \<in> set roots. root_shown d rt"
  shows "list_all2 (entry_shown d) (fm_entries m) ps" "paths_first {[]} (fm_entries m)"
proof -
  obtain a where a: "collect_roots mx roots wa_empty = Inr a" "m = \<lparr>fm_entries = wa_entries a\<rparr>" "ps = wa_abs a"
    using assms(1) by (auto simp: collect_def split: sum.splits)
  have "collected d wa_empty" by (simp add: collected_def wa_empty_def)
  from collect_roots_collected [OF a(1) this assms(2)]
  show "list_all2 (entry_shown d) (fm_entries m) ps" "paths_first {[]} (fm_entries m)"
    by (auto simp: collected_def a)
qed

lemma folders_first_zip:
  "list_all2 (resolved_under dest) ens ps \<Longrightarrow> paths_first known ens \<Longrightarrow> folders_first ((@) dest ` known) (zip ens ps)"
proof (induction arbitrary: known rule: list_all2_induct)
  case (Cons en ens p ps)
  have p: "p = dest @ parts_of (fe_path en)" using Cons.hyps(1) by (simp add: resolved_under_def)
  have "folders_first ((@) dest ` (if fe_dir en then insert (parts_of (fe_path en)) known else known)) (zip ens ps)"
    using Cons.IH Cons.prems by simp
  then show ?case using p Cons.prems by (auto simp: butlast_append split: if_splits)
qed simp

lemma owner_offered:
  assumes "list_all2 (entry_shown d) (fm_entries m) ps"
  shows "offered (owner_content d (fo_set seq m ps)) (owner_serves d (fo_set seq m ps) seq) k (zip (drop k (fm_entries m)) qs)"
proof (induction "length (fm_entries m) - k" arbitrary: k qs)
  case 0
  then show ?case by simp
next
  case (Suc n)
  have len: "length ps = length (fm_entries m)" using assms by (simp add: list_all2_lengthD)
  have k: "k < length (fm_entries m)" using Suc.hyps(2) by simp
  then have dr: "drop k (fm_entries m) = fm_entries m ! k # drop (k + 1) (fm_entries m)"
    by (simp add: Cons_nth_drop_Suc)
  have sh: "entry_shown d (fm_entries m ! k) (ps ! k)" by (rule list_all2_nthD [OF assms k])
  have "fe_dir (fm_entries m ! k) \<or> owner_serves d (fo_set seq m ps) seq k
      \<and> fe_size (fm_entries m ! k) = length (owner_content d (fo_set seq m ps) k)"
    using sh k len by (auto simp: entry_shown_def owner_serves_def owner_content_def fo_set_def file_of_iff)
  moreover have "offered (owner_content d (fo_set seq m ps)) (owner_serves d (fo_set seq m ps) seq) (k + 1)
      (zip (drop (k + 1) (fm_entries m)) (tl qs))"
    using Suc.hyps(2) by (intro Suc.hyps(1)) simp
  ultimately show ?case by (cases qs) (simp_all add: dr)
qed

lemma laid_nth:
  "laid content k eps d \<Longrightarrow> i < length eps \<Longrightarrow>
   d (snd (eps ! i)) = Some (if fe_dir (fst (eps ! i)) then NDir else NFile (content (k + i)))"
proof (induction content k eps d arbitrary: i rule: laid.induct)
  case (2 content k en p rest d)
  then show ?case by (cases i) auto
qed simp

context chunk_source
begin

lemma copied_arrive:
  assumes "collect roots mx = Inr (m, src)" "\<forall>rt \<in> set roots. root_shown d rt"
    "sanitize_manifest lower (fm_entries m) dest = Inr ps" "po_max_bytes opt = mx"
    "\<forall>op. io op" "disk_ok d2" "mkdirs d2 dest \<noteq> None" "\<forall>q. q \<noteq> dest \<longrightarrow> starts_with q dest \<longrightarrow> d2 q = None"
    and cs: "content = owner_content d (fo_set seq m src)" "serves = owner_serves d (fo_set seq m src) seq" "ok r"
  shows "\<exists>d'. pull_with_options lower rd io opt m dest r d2 = (d', Inr (top_level m ps))
    \<and> (\<forall>i < length (fm_entries m). d' (ps ! i) = (if fe_dir (fm_entries m ! i) then Some NDir else d (src ! i)))
    \<and> (\<forall>q. q \<notin> set ps \<longrightarrow> d' q = the (mkdirs d2 dest) q)"
proof -
  note c = collect_collected [OF assms(1,2)] and lim = collect_limits [OF assms(1)]
  have len: "length ps = length (fm_entries m)" "length src = length (fm_entries m)"
    using sanitize_manifest_length [OF assms(3)] lim(2) by simp_all
  obtain d1 where d1: "mkdirs d2 dest = Some d1" using assms(7) by blast
  have mx: "po_max_bytes opt = 0 \<or> total_bytes m \<le> po_max_bytes opt" using lim(4) assms(4) by auto
  have ff: "folders_first {dest} (zip (fm_entries m) ps)"
    using folders_first_zip [OF sanitize_manifest_Inr(1) [OF assms(3)] c(2)] by simp
  have off: "offered (owner_content d (fo_set seq m src)) (owner_serves d (fo_set seq m src) seq) 0 (zip (fm_entries m) ps)"
    using owner_offered [OF c(1), of seq 0 ps] by simp
  have "\<exists>d'. pull_with_options lower rd io opt m dest r d2 = (d', Inr (top_level m ps))
      \<and> laid (owner_content d (fo_set seq m src)) 0 (zip (fm_entries m) ps) d' \<and> (\<forall>q. q \<notin> set ps \<longrightarrow> d' q = d1 q)"
    by (rule pull_complete [OF assms(3) mx assms(5) cs(3) assms(6) d1 assms(8) ff off [folded cs(1,2)], unfolded cs(1)])
  then obtain d' where d': "pull_with_options lower rd io opt m dest r d2 = (d', Inr (top_level m ps))"
    "laid (owner_content d (fo_set seq m src)) 0 (zip (fm_entries m) ps) d'"
    "\<forall>q. q \<notin> set ps \<longrightarrow> d' q = d1 q" by blast
  have "d' (ps ! i) = (if fe_dir (fm_entries m ! i) then Some NDir else d (src ! i))" if i: "i < length (fm_entries m)" for i
  proof -
    have "d' (ps ! i) = Some (if fe_dir (fm_entries m ! i) then NDir else NFile (owner_content d (fo_set seq m src) i))"
      using laid_nth [OF d'(2), of i] i len by simp
    moreover have "entry_shown d (fm_entries m ! i) (src ! i)" by (rule list_all2_nthD [OF c(1) i])
    ultimately show ?thesis
      using i len by (auto simp: entry_shown_def owner_content_def fo_set_def file_of_iff)
  qed
  then show ?thesis using d'(3) d1 by (intro exI [of _ d'] conjI d'(1)) auto
qed

end

text \<open>
  Copying and pasting. What a walk of the copied paths lists under a limit and its owner serves is pulled into a new
  folder without an error under the same limit: every listed folder is there, and every listed file
  holds the very bytes of the file it was copied from. The source disk holds what the walk saw and does
  not change, the names pass the check of the receiving machine, and its disk does not fail.
\<close>

theorem copied_files_arrive:
  assumes "collect roots mx = Inr (m, src)" "\<forall>rt \<in> set roots. root_shown d rt"
    "sanitize_manifest lower (fm_entries m) dest = Inr ps" "po_max_bytes opt = mx"
    "\<forall>op. io op" "disk_ok d2" "mkdirs d2 dest \<noteq> None" "\<forall>q. q \<noteq> dest \<longrightarrow> starts_with q dest \<longrightarrow> d2 q = None"
  shows "\<exists>d'. pull_with_options lower (owner_reader d (fo_set seq m src) seq) io opt m dest r d2 = (d', Inr (top_level m ps))
    \<and> (\<forall>i < length (fm_entries m). d' (ps ! i) = (if fe_dir (fm_entries m ! i) then Some NDir else d (src ! i)))"
proof -
  obtain d' where "pull_with_options lower (owner_reader d (fo_set seq m src) seq) io opt m dest r d2 = (d', Inr (top_level m ps))"
    "\<forall>i < length (fm_entries m). d' (ps ! i) = (if fe_dir (fm_entries m ! i) then Some NDir else d (src ! i))"
    using owner.copied_arrive [OF assms refl refl TrueI, where r = r and seq = seq] by blast
  then show ?thesis by (intro exI conjI)
qed

definition sample_roots :: "(path \<times> tree) list" where
  "sample_roots = [([''home'', ''docs''], TDir (Some [(''b'', TFile 0), (''a.txt'', TFile 3)]))]"

definition sample_disk :: disk where
  "sample_disk = [[''home'', ''docs'', ''a.txt''] \<mapsto> NFile ''abc'', [''home'', ''docs'', ''b''] \<mapsto> NFile []]"

definition sample_manifest :: file_manifest where
  "sample_manifest = \<lparr>fm_entries = [\<lparr>fe_path = ''docs'', fe_size = 0, fe_dir = True\<rparr>,
     \<lparr>fe_path = ''docs/a.txt'', fe_size = 3, fe_dir = False\<rparr>, \<lparr>fe_path = ''docs/b'', fe_size = 0, fe_dir = False\<rparr>]\<rparr>"

definition sample_paths :: "path list" where
  "sample_paths = [[''home'', ''docs''], [''home'', ''docs'', ''a.txt''], [''home'', ''docs'', ''b'']]"

definition staged_paths :: "path list" where
  "staged_paths = [[''stage'', ''docs''], [''stage'', ''docs'', ''a.txt''], [''stage'', ''docs'', ''b'']]"

lemma sample_collect: "collect sample_roots 100 = Inr (sample_manifest, sample_paths)"
  by code_simp

lemma sample_sanitize: "sanitize_manifest id (fm_entries sample_manifest) [''stage''] = Inr staged_paths"
  by code_simp

lemma sample_mkdirs: "mkdirs [[] \<mapsto> NDir] [''stage''] \<noteq> None"
  by code_simp

lemma sample_shown: "\<forall>rt \<in> set sample_roots. root_shown sample_disk rt"
  by (simp add: sample_roots_def root_shown_def sample_disk_def file_of_def name_ok_def)

lemma empty_disk_ok: "disk_ok [[] \<mapsto> NDir]"
  by (rule disk_okI) (auto split: if_splits)

theorem copied_files_arrive_witness:
  "\<exists>d'. pull_with_options id (owner_reader sample_disk (fo_set 7 sample_manifest sample_paths) 7) (\<lambda>_. True)
      \<lparr>po_max_bytes = 100, po_seq = 7\<rparr> sample_manifest [''stage''] () [[] \<mapsto> NDir] = (d', Inr (top_level sample_manifest staged_paths))
    \<and> (\<forall>i < length (fm_entries sample_manifest). d' (staged_paths ! i) =
        (if fe_dir (fm_entries sample_manifest ! i) then Some NDir else sample_disk (sample_paths ! i)))"
  by (rule copied_files_arrive [OF sample_collect sample_shown sample_sanitize _ _ empty_disk_ok sample_mkdirs])
    (simp_all add: starts_with_def)

end
