(* ===== verification/File_Router.thy ===== *)
theory File_Router
  imports Hub File_Owner "HOL-Library.Multiset"
begin

text \<open>
  \<^verbatim>\<open>crates/geserdesk-server/src/files.rs\<close>: reads of the files now on the clipboard, routed between
  whoever owns them and whoever pulls them. A read of the server's own files runs in a task of its
  own: it is a job until the step that runs it. The one-shot channel of a local read is a number its
  caller chose; \<open>fr_answers\<close> is what went through the channels. \<open>fr_log\<close> is a history: every
  call of \<^verbatim>\<open>deliver\<close>. The hash map of pending requests is kept sorted, so that answering several
  of them has an order.
\<close>

section \<open>State\<close>

datatype owner_id = OwnServer | OwnClient string

datatype waiting = ToClient string nat | ToLocal nat

record pending_read =
  pd_sent_to :: string
  pd_waiting :: waiting

record read_job =
  jb_waiting :: waiting
  jb_seq :: nat
  jb_index :: nat
  jb_offset :: nat
  jb_len :: nat

record file_router =
  fr_hub :: hub
  fr_local :: file_owner
  fr_current :: "(owner_id \<times> nat \<times> file_manifest) option"
  fr_pending :: "(nat, pending_read) bmap"
  fr_next :: nat
  fr_jobs :: "read_job list"
  fr_answers :: "(nat \<times> file_read_result) list"
  fr_log :: "(waiting \<times> file_read_result) list"

definition froute_new :: "hub \<Rightarrow> file_router" where
  "froute_new h = \<lparr>fr_hub = h, fr_local = fo_new, fr_current = None, fr_pending = [], fr_next = 1, fr_jobs = [],
     fr_answers = [], fr_log = []\<rparr>"

section \<open>Operations\<close>

definition fr_announce :: "file_router \<Rightarrow> owner_id \<Rightarrow> nat \<Rightarrow> file_manifest \<Rightarrow> file_router" where
  "fr_announce s ow seq m = s\<lparr>fr_current := Some (ow, seq, m)\<rparr>"

definition fr_current_owner :: "file_router \<Rightarrow> owner_id option" where
  "fr_current_owner s = map_option fst (fr_current s)"

definition fr_deliver :: "file_router \<Rightarrow> waiting \<Rightarrow> file_read_result \<Rightarrow> file_router" where
  "fr_deliver s w res =
     (let s = s\<lparr>fr_log := fr_log s @ [(w, res)]\<rparr>
      in case w of
           ToClient name req \<Rightarrow> s\<lparr>fr_hub := fst (hub_send (fr_hub s) name (SFileReply req res))\<rparr>
         | ToLocal ch \<Rightarrow> s\<lparr>fr_answers := fr_answers s @ [(ch, res)]\<rparr>)"

text \<open>Taking a pending request out and answering it that nothing was found.\<close>

definition fail_pending :: "nat \<Rightarrow> file_router \<Rightarrow> file_router" where
  "fail_pending req s =
     (case bm_get (fr_pending s) req of
        None \<Rightarrow> s
      | Some p \<Rightarrow> fr_deliver (s\<lparr>fr_pending := bm_remove req (fr_pending s)\<rparr>) (pd_waiting p) (FErr NotFound))"

definition drop_owner :: "file_router \<Rightarrow> string \<Rightarrow> file_router" where
  "drop_owner s name = (if fr_current_owner s = Some (OwnClient name) then s\<lparr>fr_current := None\<rparr> else s)"

definition stale_reqs :: "file_router \<Rightarrow> string \<Rightarrow> nat list" where
  "stale_reqs s name = map fst (filter (\<lambda>(_, p). pd_sent_to p = name) (fr_pending s))"

definition on_disconnected :: "file_router \<Rightarrow> string \<Rightarrow> file_router" where
  "on_disconnected s name =
     (let s = drop_owner s name in fold fail_pending (stale_reqs s name) s)"

definition fr_route :: "file_router \<Rightarrow> nat \<Rightarrow> nat \<Rightarrow> nat \<Rightarrow> nat \<Rightarrow> waiting \<Rightarrow> file_router" where
  "fr_route s seq index offset len from =
     (case fr_current_owner s of
        None \<Rightarrow> fr_deliver s from (FErr NotFound)
      | Some OwnServer \<Rightarrow>
          s\<lparr>fr_jobs := fr_jobs s @ [\<lparr>jb_waiting = from, jb_seq = seq, jb_index = index, jb_offset = offset, jb_len = len\<rparr>]\<rparr>
      | Some (OwnClient name) \<Rightarrow>
          (let req = fr_next s;
               s = s\<lparr>fr_next := u64 (req + 1), fr_pending := bm_insert req \<lparr>pd_sent_to = name, pd_waiting = from\<rparr> (fr_pending s)\<rparr>;
               sent = hub_send (fr_hub s) name (SFileRead seq req index offset len);
               s = s\<lparr>fr_hub := fst sent\<rparr>
           in if snd sent then s else fail_pending req s))"

definition request_for_client :: "file_router \<Rightarrow> string \<Rightarrow> nat \<Rightarrow> nat \<Rightarrow> nat \<Rightarrow> nat \<Rightarrow> nat \<Rightarrow> file_router" where
  "request_for_client s from seq req index offset len = fr_route s seq index offset len (ToClient from req)"

definition request_local :: "file_router \<Rightarrow> nat \<Rightarrow> nat \<Rightarrow> nat \<Rightarrow> nat \<Rightarrow> nat \<Rightarrow> file_router" where
  "request_local s ch seq index offset len = fr_route s seq index offset len (ToLocal ch)"

text \<open>The spawned task of a read of the server's own files, when it gets to run.\<close>

definition run_job :: "disk \<Rightarrow> nat \<Rightarrow> file_router \<Rightarrow> file_router" where
  "run_job d k s =
     (if \<not> k < length (fr_jobs s) then s
      else let j = fr_jobs s ! k;
               res = fo_read d (fr_local s) (jb_seq j) (jb_index j) (jb_offset j) (jb_len j)
           in fr_deliver (s\<lparr>fr_jobs := take k (fr_jobs s) @ drop (k + 1) (fr_jobs s)\<rparr>) (jb_waiting j) res)"

definition reply_from_client :: "file_router \<Rightarrow> string \<Rightarrow> nat \<Rightarrow> file_read_result \<Rightarrow> file_router" where
  "reply_from_client s peer req result =
     (let entry = bm_get (fr_pending s) req;
          s = s\<lparr>fr_pending := bm_remove req (fr_pending s)\<rparr>
      in case entry of
           Some p \<Rightarrow> if pd_sent_to p = peer then fr_deliver s (pd_waiting p) result
                     else fr_deliver s (pd_waiting p) (FErr NotFound)
         | None \<Rightarrow> s)"

named_theorems froute_defs \<open>the operations of the file router\<close>

lemmas [froute_defs] = fr_announce_def fr_deliver_def fail_pending_def drop_owner_def on_disconnected_def
  fr_route_def request_for_client_def request_local_def run_job_def reply_from_client_def

section \<open>Sessions\<close>

text \<open>Everything that happens to a router; the rest of the server works on the same hub.\<close>

datatype froute_op =
    FAnnounce owner_id nat file_manifest
  | FSetLocal nat file_manifest "path list"
  | FDisconnected string
  | FRequest string nat nat nat nat nat
  | FRequestLocal nat nat nat nat nat
  | FRunJob disk nat
  | FReply string nat file_read_result
  | FHub hub_op

fun froute_step :: "file_router \<Rightarrow> froute_op \<Rightarrow> file_router" where
  "froute_step s (FAnnounce ow seq m) = fr_announce s ow seq m"
| "froute_step s (FSetLocal seq m ps) = s\<lparr>fr_local := fo_set seq m ps\<rparr>"
| "froute_step s (FDisconnected n) = on_disconnected s n"
| "froute_step s (FRequest n seq req i off len) = request_for_client s n seq req i off len"
| "froute_step s (FRequestLocal ch seq i off len) = request_local s ch seq i off len"
| "froute_step s (FRunJob d k) = run_job d k s"
| "froute_step s (FReply n req res) = reply_from_client s n req res"
| "froute_step s (FHub op) = s\<lparr>fr_hub := hub_step (fr_hub s) op\<rparr>"

definition froute_run :: "file_router \<Rightarrow> froute_op list \<Rightarrow> file_router" where
  "froute_run s ops = foldl froute_step s ops"

lemma froute_run_snoc [simp]: "froute_run s (ops @ [op]) = froute_step (froute_run s ops) op"
  by (simp add: froute_run_def)

lemma froute_run_Nil [simp]: "froute_run s [] = s"
  by (simp add: froute_run_def)

subsection \<open>Request numbers\<close>

definition fr_ok :: "file_router \<Rightarrow> bool" where
  "fr_ok s \<longleftrightarrow> bm_ok (fr_pending s) \<and> (\<forall>k p. bm_get (fr_pending s) k = Some p \<longrightarrow> k < fr_next s)"

lemma deliver_fields [simp]:
  "fr_pending (fr_deliver s w res) = fr_pending s" "fr_next (fr_deliver s w res) = fr_next s"
  "fr_jobs (fr_deliver s w res) = fr_jobs s" "fr_current (fr_deliver s w res) = fr_current s"
  "fr_local (fr_deliver s w res) = fr_local s" "fr_log (fr_deliver s w res) = fr_log s @ [(w, res)]"
  by (auto simp: fr_deliver_def Let_def split: waiting.split)

lemma bm_remove_absent: "bm_get m k = None \<Longrightarrow> bm_remove k m = m"
  by (induction m) (auto simp: bm_remove_def split: if_splits)

lemma fail_pending_fields [simp]:
  "fr_pending (fail_pending req s) = bm_remove req (fr_pending s)" "fr_next (fail_pending req s) = fr_next s"
  "fr_jobs (fail_pending req s) = fr_jobs s" "fr_current (fail_pending req s) = fr_current s"
  "fr_local (fail_pending req s) = fr_local s"
  by (auto simp: fail_pending_def bm_remove_absent split: option.split)

lemma fold_fail_fields [simp]:
  "fr_next (fold fail_pending rs s) = fr_next s" "fr_jobs (fold fail_pending rs s) = fr_jobs s"
  "fr_current (fold fail_pending rs s) = fr_current s" "fr_local (fold fail_pending rs s) = fr_local s"
  by (induction rs arbitrary: s) auto

lemma fold_fail_pending: "fr_pending (fold fail_pending rs s) = filter (\<lambda>(k, _). k \<notin> set rs) (fr_pending s)"
proof (induction rs arbitrary: s)
  case (Cons r rs)
  have "fr_pending (fold fail_pending (r # rs) s) = filter (\<lambda>(k, _). k \<notin> set rs) (bm_remove r (fr_pending s))"
    using Cons.IH by simp
  then show ?case by (auto simp: bm_remove_def intro: filter_cong)
qed simp

lemma drop_owner_fields [simp]:
  "fr_pending (drop_owner s n) = fr_pending s" "fr_next (drop_owner s n) = fr_next s"
  "fr_jobs (drop_owner s n) = fr_jobs s" "fr_log (drop_owner s n) = fr_log s" "fr_hub (drop_owner s n) = fr_hub s"
  by (simp_all add: drop_owner_def)

lemma fr_ok_remove: "fr_ok s \<Longrightarrow> fr_pending s' = bm_remove k (fr_pending s) \<Longrightarrow> fr_next s' = fr_next s \<Longrightarrow> fr_ok s'"
  by (auto simp: fr_ok_def)

lemma froute_step_ok:
  assumes "fr_ok s" "fr_next s + 1 < 2 ^ 64"
  shows "fr_ok (froute_step s op) \<and> fr_next (froute_step s op) \<le> fr_next s + 1"
proof (cases op)
  case (FDisconnected n)
  show ?thesis
    using assms(1)
    by (auto simp: FDisconnected on_disconnected_def Let_def fr_ok_def fold_fail_pending bm_get_filter_key split: if_splits)
next
  case (FReply n req res)
  then show ?thesis
    using fr_ok_remove [OF assms(1)] by (auto simp: reply_from_client_def Let_def split: option.split)
qed (use assms in \<open>auto simp: froute_defs fr_ok_def u64_def Let_def less_Suc_eq split: option.split owner_id.split waiting.split
  dest: map_of_SomeD\<close>)

lemma fr_ok_new: "fr_ok (froute_new h)"
  by (simp add: fr_ok_def froute_new_def)

lemma froute_run_ok:
  "length ops + 1 < 2 ^ 64 \<Longrightarrow> fr_ok (froute_run (froute_new h) ops) \<and> fr_next (froute_run (froute_new h) ops) \<le> length ops + 1"
proof (induction ops rule: rev_induct)
  case Nil
  have "fr_next (froute_new h) = 1" by (simp add: froute_new_def)
  then show ?case using fr_ok_new [of h] by simp
next
  case (snoc op ops)
  then have "fr_ok (froute_run (froute_new h) ops)" "fr_next (froute_run (froute_new h) ops) \<le> length ops + 1" by simp_all
  then show ?case using froute_step_ok [of "froute_run (froute_new h) ops" op] snoc.prems by simp
qed

subsection \<open>No read is lost and none is answered twice\<close>

definition all_reads :: "file_router \<Rightarrow> waiting multiset" where
  "all_reads s = mset (map fst (fr_log s)) + mset (map (\<lambda>(k, p). pd_waiting p) (fr_pending s))
     + mset (map jb_waiting (fr_jobs s))"

fun asked :: "froute_op \<Rightarrow> waiting multiset" where
  "asked (FRequest n seq req i off len) = {#ToClient n req#}"
| "asked (FRequestLocal ch seq i off len) = {#ToLocal ch#}"
| "asked _ = {#}"

lemma mset_bm_insert: "bm_get m k = None \<Longrightarrow> mset (bm_insert k v m) = add_mset (k, v) (mset m)"
  by (induction k v m rule: bm_insert.induct) (auto split: if_splits)

lemma mset_bm_remove: "bm_ok m \<Longrightarrow> bm_get m k = Some v \<Longrightarrow> mset m = add_mset (k, v) (mset (bm_remove k m))"
proof (induction m)
  case (Cons kv m)
  obtain k' v' where kv: "kv = (k', v')" by (cases kv)
  show ?case
  proof (cases "k' = k")
    case True
    then have "bm_get m k = None" using Cons.prems(1) by (force simp: kv bm_ok_Cons map_of_eq_None_iff)
    then have "bm_remove k m = m" by (rule bm_remove_absent)
    then show ?thesis using Cons.prems(2) True by (simp add: kv bm_remove_def)
  next
    case False
    then show ?thesis using Cons by (simp add: kv bm_ok_Cons bm_remove_def)
  qed
qed simp

lemma all_reads_deliver: "all_reads (fr_deliver s w res) = add_mset w (all_reads s)"
  by (simp add: all_reads_def)

lemma all_reads_taken:
  assumes "bm_ok (fr_pending s)" "bm_get (fr_pending s) k = Some p"
  shows "add_mset (pd_waiting p) (all_reads (s\<lparr>fr_pending := bm_remove k (fr_pending s)\<rparr>)) = all_reads s"
proof -
  have "mset (map (\<lambda>(k, p). pd_waiting p) (fr_pending s))
      = add_mset (pd_waiting p) (mset (map (\<lambda>(k, p). pd_waiting p) (bm_remove k (fr_pending s))))"
    using arg_cong [OF mset_bm_remove [OF assms], of "image_mset (\<lambda>(k, p). pd_waiting p)"] by simp
  then show ?thesis by (simp add: all_reads_def)
qed

lemma all_reads_fail: "bm_ok (fr_pending s) \<Longrightarrow> all_reads (fail_pending k s) = all_reads s"
  using all_reads_taken [of s k] by (auto simp: fail_pending_def all_reads_deliver split: option.split)

lemma all_reads_fold_fail: "bm_ok (fr_pending s) \<Longrightarrow> all_reads (fold fail_pending rs s) = all_reads s"
  by (induction rs arbitrary: s) (simp_all add: all_reads_fail)

lemma all_reads_cong:
  "fr_log s' = fr_log s \<Longrightarrow> fr_pending s' = fr_pending s \<Longrightarrow> fr_jobs s' = fr_jobs s \<Longrightarrow> all_reads s' = all_reads s"
  by (simp add: all_reads_def)

lemma all_reads_route:
  assumes "fr_ok s"
  shows "all_reads (fr_route s seq i off len w) = add_mset w (all_reads s)"
proof (cases "fr_current_owner s")
  case None
  then show ?thesis by (simp add: fr_route_def all_reads_deliver)
next
  case (Some ow)
  show ?thesis
  proof (cases ow)
    case OwnServer
    then show ?thesis using Some by (simp add: fr_route_def all_reads_def)
  next
    case (OwnClient name)
    let ?s = "s\<lparr>fr_next := u64 (fr_next s + 1),
      fr_pending := bm_insert (fr_next s) \<lparr>pd_sent_to = name, pd_waiting = w\<rparr> (fr_pending s),
      fr_hub := fst (hub_send (fr_hub s) name (SFileRead seq (fr_next s) i off len))\<rparr>"
    have free: "bm_get (fr_pending s) (fr_next s) = None"
      using assms by (metis fr_ok_def less_irrefl option.exhaust)
    have "all_reads ?s = add_mset w (all_reads s)"
      using arg_cong [OF mset_bm_insert [OF free], of "image_mset (\<lambda>(k, p). pd_waiting p)"] by (simp add: all_reads_def)
    moreover have "all_reads (fail_pending (fr_next s) ?s) = all_reads ?s"
      using assms by (intro all_reads_fail) (simp add: fr_ok_def)
    ultimately show ?thesis using Some OwnClient by (simp add: fr_route_def Let_def)
  qed
qed

lemma all_reads_step:
  assumes "fr_ok s"
  shows "all_reads (froute_step s op) = all_reads s + asked op"
proof (cases op)
  case (FDisconnected n)
  have "bm_ok (fr_pending (drop_owner s n))" using assms by (simp add: fr_ok_def)
  from all_reads_fold_fail [OF this] show ?thesis
    using all_reads_cong [of "drop_owner s n" s] by (simp add: FDisconnected on_disconnected_def Let_def)
next
  case (FRunJob d k)
  have split: "mset (fr_jobs s) = add_mset (fr_jobs s ! k) (mset (take k (fr_jobs s) @ drop (k + 1) (fr_jobs s)))"
    if "k < length (fr_jobs s)"
    using arg_cong [OF id_take_nth_drop [OF that], of mset] by simp
  show ?thesis
    using arg_cong [OF split, of "image_mset jb_waiting"] by (simp add: FRunJob run_job_def Let_def all_reads_def)
next
  case (FReply n req res)
  have "bm_ok (fr_pending s)" using assms by (simp add: fr_ok_def)
  from all_reads_taken [OF this, of req] show ?thesis
    by (auto simp: FReply reply_from_client_def Let_def all_reads_deliver bm_remove_absent split: option.split
        intro: all_reads_cong)
qed (use all_reads_route [OF assms] in \<open>simp_all add: request_for_client_def request_local_def fr_announce_def
  all_reads_def\<close>)

lemma all_reads_run:
  "length ops + 1 < 2 ^ 64 \<Longrightarrow> all_reads (froute_run (froute_new h) ops) = \<Sum>\<^sub># (mset (map asked ops))"
proof (induction ops rule: rev_induct)
  case Nil
  then show ?case by (simp add: all_reads_def froute_new_def)
next
  case (snoc op ops)
  have "fr_ok (froute_run (froute_new h) ops)" using froute_run_ok [of ops h] snoc.prems by simp
  from all_reads_step [OF this, of op] show ?case using snoc by simp
qed

subsection \<open>Where data comes from\<close>

text \<open>
  What a step adds to the history: an answer that nothing was found, the owner's own answer to the
  request it was sent, or a read of the server's own files.
\<close>

definition genuine :: "file_router \<Rightarrow> froute_op \<Rightarrow> waiting \<Rightarrow> file_read_result \<Rightarrow> bool" where
  "genuine s op w res \<longleftrightarrow> res = FErr NotFound
     \<or> (\<exists>n req. op = FReply n req res \<and> bm_get (fr_pending s) req = Some \<lparr>pd_sent_to = n, pd_waiting = w\<rparr>)
     \<or> (\<exists>d k. op = FRunJob d k \<and> k < length (fr_jobs s) \<and> jb_waiting (fr_jobs s ! k) = w
          \<and> res = fo_read d (fr_local s) (jb_seq (fr_jobs s ! k)) (jb_index (fr_jobs s ! k)) (jb_offset (fr_jobs s ! k))
                   (jb_len (fr_jobs s ! k)))"

lemma genuine_not_found [simp]: "genuine s op w (FErr NotFound)"
  by (simp add: genuine_def)

lemma fail_pending_log: "(w, res) \<in> set (fr_log (fail_pending req s)) \<Longrightarrow> (w, res) \<in> set (fr_log s) \<or> res = FErr NotFound"
  by (auto simp: fail_pending_def split: option.splits)

lemma fold_fail_log: "(w, res) \<in> set (fr_log (fold fail_pending rs s)) \<Longrightarrow> (w, res) \<in> set (fr_log s) \<or> res = FErr NotFound"
  by (induction rs arbitrary: s) (use fail_pending_log in fastforce)+

lemma route_log: "(w, res) \<in> set (fr_log (fr_route s seq i off len from)) \<Longrightarrow> (w, res) \<in> set (fr_log s) \<or> res = FErr NotFound"
  by (auto simp: fr_route_def Let_def split: option.splits owner_id.splits if_splits dest: fail_pending_log)

lemma froute_step_log:
  assumes "(w, res) \<in> set (fr_log (froute_step s op))"
  shows "(w, res) \<in> set (fr_log s) \<or> genuine s op w res"
proof (cases op)
  case (FDisconnected n)
  then have "(w, res) \<in> set (fr_log (fold fail_pending (stale_reqs (drop_owner s n) n) (drop_owner s n)))"
    using assms by (simp add: on_disconnected_def Let_def)
  from fold_fail_log [OF this] show ?thesis by auto
next
  case (FRunJob d k)
  then show ?thesis using assms by (auto simp: run_job_def Let_def genuine_def split: if_splits)
next
  case (FReply n req r)
  then show ?thesis
    using assms by (cases "bm_get (fr_pending s) req") (auto simp: reply_from_client_def Let_def genuine_def split: if_splits)
qed (use assms route_log in \<open>auto simp: request_for_client_def request_local_def fr_announce_def genuine_def\<close>)

lemma froute_run_log:
  "(w, res) \<in> set (fr_log (froute_run (froute_new h) ops)) \<Longrightarrow>
     \<exists>pre op post. ops = pre @ op # post \<and> genuine (froute_run (froute_new h) pre) op w res"
proof (induction ops rule: rev_induct)
  case Nil
  then show ?case by (simp add: froute_new_def)
next
  case (snoc op ops)
  from froute_step_log [OF snoc.prems [unfolded froute_run_snoc]] show ?case
  proof
    assume "(w, res) \<in> set (fr_log (froute_run (froute_new h) ops))"
    from snoc.IH [OF this] obtain pre op' post where "ops = pre @ op' # post" "genuine (froute_run (froute_new h) pre) op' w res"
      by blast
    then have "ops @ [op] = pre @ op' # (post @ [op])" "genuine (froute_run (froute_new h) pre) op' w res" by auto
    then show ?thesis by blast
  next
    assume "genuine (froute_run (froute_new h) ops) op w res"
    then show ?thesis by blast
  qed
qed

subsection \<open>Disconnection\<close>

lemma fold_fail_answers:
  assumes "fr_ok s" "bm_get (fr_pending s) k = Some p" "k \<in> set rs"
  shows "(pd_waiting p, FErr NotFound) \<in> set (fr_log (fold fail_pending rs s))"
proof -
  have keep: "x \<in> set (fr_log s) \<Longrightarrow> x \<in> set (fr_log (fold fail_pending rs s))" for x rs s
    by (induction rs arbitrary: s) (auto simp: fail_pending_def split: option.split)
  show ?thesis
    using assms
  proof (induction rs arbitrary: s)
    case (Cons r rs)
    show ?case
    proof (cases "k = r")
      case True
      then have "(pd_waiting p, FErr NotFound) \<in> set (fr_log (fail_pending r s))"
        using Cons.prems(2) by (simp add: fail_pending_def)
      then show ?thesis using keep by simp
    next
      case False
      have "fr_ok (fail_pending r s)" by (rule fr_ok_remove [OF Cons.prems(1), of _ r]) simp_all
      then show ?thesis using Cons.IH [of "fail_pending r s"] Cons.prems False by simp
    qed
  qed simp
qed

lemma on_disconnected_spec:
  assumes "fr_ok s"
  shows "fr_current_owner (on_disconnected s n) = (if fr_current_owner s = Some (OwnClient n) then None else fr_current_owner s)"
    and "bm_get (fr_pending (on_disconnected s n)) k =
      (case bm_get (fr_pending s) k of None \<Rightarrow> None | Some p \<Rightarrow> if pd_sent_to p = n then None else Some p)"
    and "bm_get (fr_pending s) k = Some p \<Longrightarrow> pd_sent_to p = n \<Longrightarrow>
      (pd_waiting p, FErr NotFound) \<in> set (fr_log (on_disconnected s n))"
proof -
  let ?s = "drop_owner s n"
  have ok: "fr_ok ?s" using assms by (simp add: fr_ok_def)
  have stale: "k \<in> set (stale_reqs ?s n) \<longleftrightarrow> (\<exists>p. bm_get (fr_pending s) k = Some p \<and> pd_sent_to p = n)" for k
    using assms by (force simp: stale_reqs_def fr_ok_def dest: bm_getD bm_getI)
  show "fr_current_owner (on_disconnected s n) = (if fr_current_owner s = Some (OwnClient n) then None else fr_current_owner s)"
    by (simp add: on_disconnected_def Let_def fr_current_owner_def drop_owner_def)
  show "bm_get (fr_pending (on_disconnected s n)) k =
      (case bm_get (fr_pending s) k of None \<Rightarrow> None | Some p \<Rightarrow> if pd_sent_to p = n then None else Some p)"
    using stale [of k]
    by (auto simp: on_disconnected_def Let_def fold_fail_pending bm_get_filter_key split: option.split)
  show "(pd_waiting p, FErr NotFound) \<in> set (fr_log (on_disconnected s n))"
    if "bm_get (fr_pending s) k = Some p" "pd_sent_to p = n"
    using fold_fail_answers [OF ok, of k p "stale_reqs ?s n"] stale [of k] that
    by (simp add: on_disconnected_def Let_def)
qed

subsection \<open>Replies reach only who asked\<close>

definition is_reply :: "server_msg \<Rightarrow> bool" where
  "is_reply m \<longleftrightarrow> (case m of SFileReply _ _ \<Rightarrow> True | _ \<Rightarrow> False)"

text \<open>No other part of the server sends file replies.\<close>

fun hub_quiet :: "hub_op \<Rightarrow> bool" where
  "hub_quiet (OSend n m) \<longleftrightarrow> \<not> is_reply m"
| "hub_quiet (OBroadcast ex ms) \<longleftrightarrow> list_all (\<lambda>m. \<not> is_reply m) ms"
| "hub_quiet _ \<longleftrightarrow> True"

fun op_quiet :: "froute_op \<Rightarrow> bool" where
  "op_quiet (FHub op) = hub_quiet op"
| "op_quiet _ = True"

definition replies_logged :: "file_router \<Rightarrow> bool" where
  "replies_logged s \<longleftrightarrow> (\<forall>n req res. SFileReply req res \<in> set (hub_delivered (fr_hub s) n) \<longrightarrow> (ToClient n req, res) \<in> set (fr_log s))"

lemma hub_send_delivered:
  "hub_delivered (fst (hub_send h n m)) k = (if k = n \<and> hub_reachable h n then hub_delivered h n @ [m] else hub_delivered h k)"
proof (cases "hub_reachable h n")
  case True
  then show ?thesis by (simp add: hub_sink.send_delivers)
next
  case False
  then have "fst (hub_send h n m) = h" by (auto simp: hub_send_def hub_reachable_def split: option.splits)
  then show ?thesis using False by simp
qed

lemma replies_logged_deliver: "replies_logged s \<Longrightarrow> replies_logged (fr_deliver s w res)"
  by (auto simp: replies_logged_def fr_deliver_def Let_def hub_send_delivered split: waiting.split if_splits)

lemma replies_logged_cong:
  "fr_hub s' = fr_hub s \<Longrightarrow> fr_log s' = fr_log s \<Longrightarrow> replies_logged s' = replies_logged s"
  by (simp add: replies_logged_def)

lemma replies_logged_fail: "replies_logged s \<Longrightarrow> replies_logged (fail_pending req s)"
proof -
  assume "replies_logged s"
  then have "replies_logged (s\<lparr>fr_pending := ps\<rparr>)" for ps using replies_logged_cong [of "s\<lparr>fr_pending := ps\<rparr>" s] by simp
  then show ?thesis using \<open>replies_logged s\<close> by (auto simp: fail_pending_def replies_logged_deliver split: option.split)
qed

lemma replies_logged_fold: "replies_logged s \<Longrightarrow> replies_logged (fold fail_pending rs s)"
  by (induction rs arbitrary: s) (simp_all add: replies_logged_fail)

lemma replies_logged_route:
  assumes "replies_logged s"
  shows "replies_logged (fr_route s seq i off len w)"
proof -
  have sent: "replies_logged (s\<lparr>fr_next := k, fr_pending := ps, fr_hub := fst (hub_send (fr_hub s) n (SFileRead seq q i off len))\<rparr>)"
    for k ps n q
    using assms by (auto simp: replies_logged_def hub_send_delivered)
  have "replies_logged (s\<lparr>fr_jobs := js\<rparr>)" for js using assms replies_logged_cong [of "s\<lparr>fr_jobs := js\<rparr>" s] by simp
  then show ?thesis
    using assms sent
    by (auto simp: fr_route_def Let_def replies_logged_deliver replies_logged_fail split: option.split owner_id.split)
qed

lemma hub_quiet_delivered:
  assumes "hub_quiet op" "m \<in> set (hub_delivered (hub_step h op) n)" "is_reply m"
  shows "m \<in> set (hub_delivered h n)"
proof (cases op)
  case (OSend k m')
  then show ?thesis using assms by (auto simp: hub_send_delivered split: if_splits)
next
  case (OBroadcast ex ms)
  have "bm_get (hb_clients (hub_step h op)) n
      = map_option (\<lambda>en. if Some n \<noteq> ex \<and> n \<notin> hb_disabled h then push_all ms en else en) (bm_get (hb_clients h) n)"
    by (simp add: OBroadcast broadcast_get)
  then show ?thesis
    using assms by (auto simp: OBroadcast hub_delivered_def push_all_def list_all_iff split: option.splits if_splits)
qed (use assms in \<open>auto simp: hub_delivered_def hub_defs Let_def split: option.splits if_splits\<close>)

lemma replies_logged_step:
  assumes "replies_logged s" "op_quiet op"
  shows "replies_logged (froute_step s op)"
proof (cases op)
  case (FDisconnected n)
  have "replies_logged (drop_owner s n)" using assms(1) replies_logged_cong [of "drop_owner s n" s] by simp
  then show ?thesis by (simp add: FDisconnected on_disconnected_def Let_def replies_logged_fold)
next
  case (FRunJob d k)
  have "replies_logged (s\<lparr>fr_jobs := js\<rparr>)" for js using assms(1) replies_logged_cong [of "s\<lparr>fr_jobs := js\<rparr>" s] by simp
  then show ?thesis using assms(1) by (simp add: FRunJob run_job_def Let_def replies_logged_deliver)
next
  case (FReply n req res)
  have "replies_logged (s\<lparr>fr_pending := ps\<rparr>)" for ps using assms(1) replies_logged_cong [of "s\<lparr>fr_pending := ps\<rparr>" s] by simp
  then show ?thesis by (simp add: FReply reply_from_client_def Let_def replies_logged_deliver split: option.split)
next
  case (FHub hop)
  have "SFileReply req res \<in> set (hub_delivered (fr_hub s) n)"
    if "SFileReply req res \<in> set (hub_delivered (hub_step (fr_hub s) hop) n)" for n req res
    using hub_quiet_delivered [OF _ that] assms(2) FHub by (simp add: is_reply_def)
  then show ?thesis using assms(1) by (auto simp: FHub replies_logged_def)
qed (use assms replies_logged_route replies_logged_cong in
  \<open>auto simp: request_for_client_def request_local_def fr_announce_def replies_logged_def\<close>)

lemma replies_logged_run:
  "replies_logged (froute_new h) \<Longrightarrow> list_all op_quiet ops \<Longrightarrow> replies_logged (froute_run (froute_new h) ops)"
  by (induction ops rule: rev_induct) (auto simp: replies_logged_step)

lemma log_was_asked:
  assumes "length ops + 1 < 2 ^ 64" "(w, res) \<in> set (fr_log (froute_run (froute_new h) ops))"
  shows "\<exists>op \<in> set ops. asked op = {#w#}"
proof -
  have "w \<in># all_reads (froute_run (froute_new h) ops)" using imageI [OF assms(2), of fst] by (simp add: all_reads_def)
  then obtain op where "op \<in> set ops" "w \<in># asked op" by (auto simp: all_reads_run [OF assms(1)])
  moreover have "asked op = {#w#}" using calculation(2) by (cases op) auto
  ultimately show ?thesis by blast
qed

end
