(* ===== verification/File_Router_Spec.thy ===== *)
theory File_Router_Spec
  imports File_Router
begin

text \<open>What the routing of file reads promises to those who read, and to those whose files are read.\<close>

text \<open>
  C20: No read is lost and none is answered twice: after any session, counted with their multiplicity,
  the answers given, the requests still open at an owner and the reads of the server's own files still
  to run are together exactly the reads that were asked for.
\<close>

theorem every_read_answered_once:
  assumes "length ops + 1 < 2 ^ 64"
  shows "mset (map fst (fr_log (froute_run (froute_new h) ops)))
      + mset (map (\<lambda>(k, p). pd_waiting p) (fr_pending (froute_run (froute_new h) ops)))
      + mset (map jb_waiting (fr_jobs (froute_run (froute_new h) ops)))
    = \<Sum>\<^sub># (mset (map asked ops))"
  using all_reads_run [OF assms, of h] by (simp add: all_reads_def)

definition two_clients :: hub where
  "two_clients = hub_run hub_new [ORegister ''a'' [], ORegister ''b'' []]"

definition read_ops :: "froute_op list" where
  "read_ops = [FAnnounce (OwnClient ''a'') 3 \<lparr>fm_entries = []\<rparr>, FRequest ''b'' 3 77 0 0 10,
     FReply ''a'' 1 (FData ''xyz'')]"

lemma every_read_answered_once_witness:
  "mset (map fst (fr_log (froute_run (froute_new two_clients) read_ops)))
      + mset (map (\<lambda>(k, p). pd_waiting p) (fr_pending (froute_run (froute_new two_clients) read_ops)))
      + mset (map jb_waiting (fr_jobs (froute_run (froute_new two_clients) read_ops)))
    = \<Sum>\<^sub># (mset (map asked read_ops))"
  by (rule every_read_answered_once) (simp add: read_ops_def)

text \<open>
  C21: Data is never made up or taken from a stranger: data answered to a read is what the client the
  request had been sent to replied under that request's number, or what the server's own file owner
  read from its disk for that read.
\<close>

theorem answered_data_is_genuine:
  assumes "(w, FData bs) \<in> set (fr_log (froute_run (froute_new h) ops))"
  shows "(\<exists>pre post n req. ops = pre @ FReply n req (FData bs) # post
      \<and> bm_get (fr_pending (froute_run (froute_new h) pre)) req = Some \<lparr>pd_sent_to = n, pd_waiting = w\<rparr>)
    \<or> (\<exists>pre post d k j. ops = pre @ FRunJob d k # post \<and> k < length (fr_jobs (froute_run (froute_new h) pre))
      \<and> j = fr_jobs (froute_run (froute_new h) pre) ! k \<and> jb_waiting j = w
      \<and> fo_read d (fr_local (froute_run (froute_new h) pre)) (jb_seq j) (jb_index j) (jb_offset j) (jb_len j) = FData bs)"
proof -
  obtain pre op post where o: "ops = pre @ op # post" "genuine (froute_run (froute_new h) pre) op w (FData bs)"
    using froute_run_log [OF assms] by blast
  then show ?thesis unfolding genuine_def by (elim disjE exE conjE) (simp, blast, metis)
qed

lemma answered_data_is_genuine_witness:
  "\<exists>pre post n req. read_ops = pre @ FReply n req (FData ''xyz'') # post
    \<and> bm_get (fr_pending (froute_run (froute_new two_clients) pre)) req = Some \<lparr>pd_sent_to = n, pd_waiting = ToClient ''b'' 77\<rparr>"
proof -
  have "fr_log (froute_run (froute_new two_clients) read_ops) = [(ToClient ''b'' 77, FData ''xyz'')]" by code_simp
  then have "(ToClient ''b'' 77, FData ''xyz'') \<in> set (fr_log (froute_run (froute_new two_clients) read_ops))" by simp
  from answered_data_is_genuine [OF this] show ?thesis
  proof
    assume "\<exists>pre post d k j. read_ops = pre @ FRunJob d k # post \<and> k < length (fr_jobs (froute_run (froute_new two_clients) pre))
      \<and> j = fr_jobs (froute_run (froute_new two_clients) pre) ! k \<and> jb_waiting j = ToClient ''b'' 77
      \<and> fo_read d (fr_local (froute_run (froute_new two_clients) pre)) (jb_seq j) (jb_index j) (jb_offset j) (jb_len j) = FData ''xyz''"
    then obtain pre post d k where "read_ops = pre @ FRunJob d k # post" by blast
    then have "FRunJob d k \<in> set read_ops" by (metis in_set_conv_decomp)
    then show ?thesis by (simp add: read_ops_def)
  qed
qed

text \<open>
  A client is only ever sent replies to reads it asked for itself, under the number it chose, as
  long as no other part of the server sends file replies.
\<close>

theorem replies_only_to_the_asker:
  assumes "length ops + 1 < 2 ^ 64" "list_all op_quiet ops" "\<forall>m. \<not> is_reply m \<or> (\<forall>n. m \<notin> set (hub_delivered h n))"
    and "SFileReply req res \<in> set (hub_delivered (fr_hub (froute_run (froute_new h) ops)) n)"
  shows "\<exists>seq i off len. FRequest n seq req i off len \<in> set ops"
proof -
  have "replies_logged (froute_new h)"
    using assms(3) by (auto simp: replies_logged_def froute_new_def is_reply_def split: server_msg.splits)
  from replies_logged_run [OF this assms(2)] have "(ToClient n req, res) \<in> set (fr_log (froute_run (froute_new h) ops))"
    using assms(4) by (simp add: replies_logged_def)
  from log_was_asked [OF assms(1) this] obtain op where op: "op \<in> set ops" "asked op = {#ToClient n req#}" by blast
  from op(2) obtain seq i off len where "op = FRequest n seq req i off len" by (cases op) auto
  then show ?thesis using op(1) by blast
qed

lemma replies_only_to_the_asker_witness:
  "\<exists>seq i off len. FRequest ''b'' seq 77 i off len \<in> set read_ops"
proof (rule replies_only_to_the_asker)
  show "length read_ops + 1 < 2 ^ 64" by (simp add: read_ops_def)
  show "list_all op_quiet read_ops" by (simp add: read_ops_def)
  have "hub_delivered two_clients n = []" for n
    by (simp add: two_clients_def hub_run_def hub_defs hub_new_def hub_delivered_def)
  then show "\<forall>m. \<not> is_reply m \<or> (\<forall>n. m \<notin> set (hub_delivered two_clients n))" by simp
  have "hub_delivered (fr_hub (froute_run (froute_new two_clients) read_ops)) ''b'' = [SFileReply 77 (FData ''xyz'')]" by code_simp
  then show "SFileReply 77 (FData ''xyz'') \<in> set (hub_delivered (fr_hub (froute_run (froute_new two_clients) read_ops)) ''b'')" by simp
qed

text \<open>
  When a client goes away its files are nobody's and no read waits for it any more: each is
  answered that nothing was found, and the reads sent to other owners stay.
\<close>

theorem disconnect_fails_its_reads:
  assumes "length ops + 1 < 2 ^ 64" "s = froute_run (froute_new h) ops"
  shows "fr_current_owner (on_disconnected s n) \<noteq> Some (OwnClient n)
    \<and> bm_get (fr_pending (on_disconnected s n)) k =
        (case bm_get (fr_pending s) k of None \<Rightarrow> None | Some p \<Rightarrow> if pd_sent_to p = n then None else Some p)
    \<and> (\<forall>p. bm_get (fr_pending s) k = Some p \<longrightarrow> pd_sent_to p = n \<longrightarrow>
        (pd_waiting p, FErr NotFound) \<in> set (fr_log (on_disconnected s n)))"
proof -
  have "fr_ok s" using froute_run_ok [OF assms(1)] assms(2) by blast
  from on_disconnected_spec [OF this] show ?thesis by simp
qed

lemma disconnect_fails_its_reads_witness:
  "(ToClient ''b'' 77, FErr NotFound) \<in> set (fr_log (on_disconnected (froute_run (froute_new two_clients) (take 2 read_ops)) ''a''))"
proof -
  have "bm_get (fr_pending (froute_run (froute_new two_clients) (take 2 read_ops))) 1 = Some \<lparr>pd_sent_to = ''a'', pd_waiting = ToClient ''b'' 77\<rparr>"
    by code_simp
  with disconnect_fails_its_reads [OF _ refl, of "take 2 read_ops" two_clients "''a''" 1]
  show ?thesis by (simp add: read_ops_def)
qed

section \<open>Any client can fail another's read\<close>

text \<open>
  A reply from a connection the request was not sent to is not dropped: the request is taken out and
  its reader is told that nothing was found. The numbers are sequential, so they are easy to guess.
\<close>

lemma stranger_fails_a_read:
  "fr_log (froute_run (froute_new two_clients)
     [FAnnounce (OwnClient ''a'') 3 \<lparr>fm_entries = []\<rparr>, FRequestLocal 5 3 0 0 10, FReply ''b'' 1 (FData ''x''),
      FReply ''a'' 1 (FData ''xyz'')]) = [(ToLocal 5, FErr NotFound)]"
  by code_simp

end
