(* ===== verification/Remote.thy ===== *)
theory Remote
  imports File_Router Copy_Paste
begin

text \<open>
  Pulling the files of a client through the server. The owner answers the read it finds at the end of
  its queue (\<^verbatim>\<open>serve_file_read\<close> of the client session), the router passes the answer on. A puller is
  the server itself or another client; either is as good a source of the files as their owner.
\<close>

section \<open>One read across the server\<close>

definition client_serves :: "disk \<Rightarrow> file_owner \<Rightarrow> string \<Rightarrow> file_router \<Rightarrow> file_router" where
  "client_serves d fo name s =
     (case rev (hub_delivered (fr_hub s) name) of
        SFileRead seq req i off len # _ \<Rightarrow> reply_from_client s name req (fo_read d fo seq i off len)
      | _ \<Rightarrow> s)"

text \<open>The server's own pull: what comes out of the channel of the read.\<close>

definition local_answer :: "file_router \<Rightarrow> nat \<Rightarrow> file_read_result" where
  "local_answer s ch = (case rev (filter (\<lambda>(c, _). c = ch) (fr_answers s)) of (_, res) # _ \<Rightarrow> res | [] \<Rightarrow> FErr NotFound)"

definition server_reader :: "disk \<Rightarrow> file_owner \<Rightarrow> string \<Rightarrow> nat \<Rightarrow> file_router reader" where
  "server_reader d fo name seq =
     \<lparr>rd_cancelled = (\<lambda>s. False),
      rd_read = (\<lambda>s i off want.
        let ch = length (fr_answers s);
            s' = client_serves d fo name (request_local s ch seq i off want)
        in (s', Chunk (local_answer s' ch)))\<rparr>"

text \<open>Another client's pull: it reads the reply from its own queue.\<close>

definition client_answer :: "file_router \<Rightarrow> string \<Rightarrow> nat \<Rightarrow> file_read_result" where
  "client_answer s me req =
     (case rev (hub_delivered (fr_hub s) me) of
        SFileReply r res # _ \<Rightarrow> if r = req then res else FErr NotFound
      | _ \<Rightarrow> FErr NotFound)"

definition client_reader :: "disk \<Rightarrow> file_owner \<Rightarrow> string \<Rightarrow> string \<Rightarrow> nat \<Rightarrow> (file_router \<times> nat) reader" where
  "client_reader d fo name me seq =
     \<lparr>rd_cancelled = (\<lambda>s. False),
      rd_read = (\<lambda>(s, req) i off want.
        let s' = client_serves d fo name (request_for_client s me seq req i off want)
        in ((s', req + 1), Chunk (client_answer s' me req)))\<rparr>"

definition routed_ok :: "string \<Rightarrow> file_router \<Rightarrow> bool" where
  "routed_ok name s \<longleftrightarrow> fr_current_owner s = Some (OwnClient name) \<and> hub_reachable (fr_hub s) name"

lemma deliver_hub: "hub_reachable (fr_hub (fr_deliver s w res)) n = hub_reachable (fr_hub s) n"
  by (auto simp: fr_deliver_def Let_def hub_sink.send_reachable split: waiting.split)

lemma current_owner_cong: "fr_current s' = fr_current s \<Longrightarrow> fr_current_owner s' = fr_current_owner s"
  by (simp add: fr_current_owner_def)

text \<open>The whole way of one read: asked, answered by the owner, delivered to who waits.\<close>

lemma routed_read:
  assumes "routed_ok name s"
  shows "\<exists>s'. fr_answers s' = fr_answers s \<and> routed_ok name s' \<and> (\<forall>n. hub_reachable (fr_hub s') n = hub_reachable (fr_hub s) n)
    \<and> client_serves d fo name (fr_route s seq i off want w) = fr_deliver s' w (fo_read d fo seq i off want)"
proof -
  let ?req = "fr_next s"
  let ?msg = "SFileRead seq ?req i off want"
  let ?s1 = "s\<lparr>fr_next := u64 (?req + 1), fr_pending := bm_insert ?req \<lparr>pd_sent_to = name, pd_waiting = w\<rparr> (fr_pending s),
    fr_hub := fst (hub_send (fr_hub s) name ?msg)\<rparr>"
  let ?s2 = "?s1\<lparr>fr_pending := bm_remove ?req (fr_pending ?s1)\<rparr>"
  have r: "hub_reachable (fr_hub s) name" and o: "fr_current_owner s = Some (OwnClient name)"
    using assms by (auto simp: routed_ok_def)
  have route: "fr_route s seq i off want w = ?s1"
    using o r by (simp add: fr_route_def Let_def hub_sink.send_result)
  have "hub_delivered (fr_hub ?s1) name = hub_delivered (fr_hub s) name @ [?msg]"
    using hub_sink.send_delivers [OF r, of ?msg name] by simp
  then have "client_serves d fo name ?s1 = reply_from_client ?s1 name ?req (fo_read d fo seq i off want)"
    by (simp add: client_serves_def)
  also have "\<dots> = fr_deliver ?s2 w (fo_read d fo seq i off want)"
    by (simp add: reply_from_client_def Let_def)
  finally have "client_serves d fo name (fr_route s seq i off want w) = fr_deliver ?s2 w (fo_read d fo seq i off want)"
    by (simp only: route)
  moreover have "routed_ok name ?s2" using o r by (simp add: routed_ok_def fr_current_owner_def hub_sink.send_reachable)
  moreover have "\<forall>n. hub_reachable (fr_hub ?s2) n = hub_reachable (fr_hub s) n" by (simp add: hub_sink.send_reachable)
  ultimately show ?thesis by (intro exI [of _ ?s2]) simp
qed

lemma routed_ok_deliver: "routed_ok name s \<Longrightarrow> routed_ok name (fr_deliver s w res)"
  by (simp add: routed_ok_def deliver_hub fr_current_owner_def)

text \<open>A read of the owner's own files, as the owner alone would answer it.\<close>

lemma owner_serves_read:
  "owner_serves d fo seq i \<Longrightarrow> off < length (owner_content d fo i) \<Longrightarrow> 0 < want \<Longrightarrow> want \<le> MAX_READ_LEN \<Longrightarrow>
   fo_read d fo seq i off want = FData (take want (drop off (owner_content d fo i)))"
  using owner.read_serves [OF TrueI, of d fo seq i off want] by (simp add: owner_reader_def)

section \<open>The pullers\<close>

interpretation server_pull: chunk_source "server_reader d fo name seq" "owner_content d fo" "owner_serves d fo seq" "routed_ok name"
  for d fo name seq
proof unfold_locales
  show "\<not> rd_cancelled (server_reader d fo name seq) r" for r by (simp add: server_reader_def)
next
  fix s i off want
  assume ok: "routed_ok name s"
    and sv: "owner_serves d fo seq i" "off < length (owner_content d fo i)" "0 < want" "want \<le> MAX_READ_LEN"
  let ?ch = "length (fr_answers s)"
  obtain s' where s': "fr_answers s' = fr_answers s" "routed_ok name s'"
    "client_serves d fo name (request_local s ?ch seq i off want) = fr_deliver s' (ToLocal ?ch) (fo_read d fo seq i off want)"
    using routed_read [OF ok, of d fo seq i off want "ToLocal ?ch"] by (auto simp: request_local_def)
  show "routed_ok name (fst (rd_read (server_reader d fo name seq) s i off want))"
    using s'(3) routed_ok_deliver [OF s'(2)] by (simp add: server_reader_def Let_def)
  show "snd (rd_read (server_reader d fo name seq) s i off want) = Chunk (FData (take want (drop off (owner_content d fo i))))"
    using s'(3) owner_serves_read [OF sv] by (simp add: server_reader_def Let_def local_answer_def fr_deliver_def)
qed

definition both_ok :: "string \<Rightarrow> string \<Rightarrow> file_router \<times> nat \<Rightarrow> bool" where
  "both_ok name me s \<longleftrightarrow> routed_ok name (fst s) \<and> hub_reachable (fr_hub (fst s)) me"

interpretation client_pull: chunk_source "client_reader d fo name me seq" "owner_content d fo" "owner_serves d fo seq" "both_ok name me"
  for d fo name me seq
proof unfold_locales
  show "\<not> rd_cancelled (client_reader d fo name me seq) r" for r by (simp add: client_reader_def)
next
  fix r i off want
  assume ok: "both_ok name me r"
    and sv: "owner_serves d fo seq i" "off < length (owner_content d fo i)" "0 < want" "want \<le> MAX_READ_LEN"
  obtain s req where r: "r = (s, req)" by (cases r)
  have ok': "routed_ok name s" "hub_reachable (fr_hub s) me" using ok by (auto simp: both_ok_def r)
  obtain s' where s': "routed_ok name s'" "hub_reachable (fr_hub s') me"
    "client_serves d fo name (request_for_client s me seq req i off want) = fr_deliver s' (ToClient me req) (fo_read d fo seq i off want)"
    using routed_read [OF ok'(1), of d fo seq i off want "ToClient me req"] ok'(2) by (auto simp: request_for_client_def)
  show "both_ok name me (fst (rd_read (client_reader d fo name me seq) r i off want))"
    using s'(3) routed_ok_deliver [OF s'(1)] s'(2) by (simp add: client_reader_def Let_def both_ok_def r deliver_hub)
  show "snd (rd_read (client_reader d fo name me seq) r i off want) = Chunk (FData (take want (drop off (owner_content d fo i))))"
    using s'(3) owner_serves_read [OF sv] hub_sink.send_delivers [OF s'(2), of "SFileReply req (fo_read d fo seq i off want)" me]
    by (simp add: client_reader_def Let_def client_answer_def fr_deliver_def r)
qed

text \<open>
  C8: Files copied on one client arrive on another, through the server: the pulling client asks the
  server under its own request numbers, the server asks the owner under its own, and while both stay
  connected and the owner's announcement stands, the pull ends without an error and the staged files
  hold the bytes of the originals.
\<close>

theorem files_cross_the_server:
  assumes "collect roots mx = Inr (m, src)" "\<forall>rt \<in> set roots. root_shown d rt"
    "sanitize_manifest lower (fm_entries m) dest = Inr ps" "po_max_bytes opt = mx"
    "\<forall>op. io op" "disk_ok d2" "mkdirs d2 dest \<noteq> None" "\<forall>q. q \<noteq> dest \<longrightarrow> starts_with q dest \<longrightarrow> d2 q = None"
    and "fr_current_owner s = Some (OwnClient name)" "hub_reachable (fr_hub s) name" "hub_reachable (fr_hub s) me"
  shows "\<exists>d'. pull_with_options lower (client_reader d (fo_set seq m src) name me seq) io opt m dest (s, req) d2
      = (d', Inr (top_level m ps))
    \<and> (\<forall>i < length (fm_entries m). d' (ps ! i) = (if fe_dir (fm_entries m ! i) then Some NDir else d (src ! i)))"
proof -
  have "both_ok name me (s, req)" by (simp add: both_ok_def routed_ok_def assms(9-11))
  from client_pull.copied_arrive [OF assms(1-8) refl refl this] show ?thesis by blast
qed

definition two_screens :: file_router where
  "two_screens = fr_announce (froute_new (hub_run hub_new [ORegister ''a'' [], ORegister ''b'' []])) (OwnClient ''a'') 7 sample_manifest"

lemma two_screens_facts:
  "fr_current_owner two_screens = Some (OwnClient ''a'')" "hub_reachable (fr_hub two_screens) ''a''" "hub_reachable (fr_hub two_screens) ''b''"
  by (simp_all add: two_screens_def fr_announce_def froute_new_def fr_current_owner_def hub_run_def hub_defs hub_new_def hub_reachable_def bm_has_iff)

lemma files_cross_the_server_witness:
  "\<exists>d'. pull_with_options id (client_reader sample_disk (fo_set 7 sample_manifest sample_paths) ''a'' ''b'' 7) (\<lambda>_. True)
      \<lparr>po_max_bytes = 100, po_seq = 7\<rparr> sample_manifest [''stage''] (two_screens, 1) [[] \<mapsto> NDir] = (d', Inr (top_level sample_manifest staged_paths))
    \<and> (\<forall>i < length (fm_entries sample_manifest). d' (staged_paths ! i) =
        (if fe_dir (fm_entries sample_manifest ! i) then Some NDir else sample_disk (sample_paths ! i)))"
  by (rule files_cross_the_server [OF sample_collect sample_shown sample_sanitize _ _ empty_disk_ok sample_mkdirs _ two_screens_facts])
    (simp_all add: starts_with_def)

text \<open>
  The server pastes a client's files on its own screen the same way: its pull through the router
  ends without an error and lays out exactly the client's files.
\<close>

theorem server_pulls_client_files:
  assumes "collect roots mx = Inr (m, src)" "\<forall>rt \<in> set roots. root_shown d rt"
    "sanitize_manifest lower (fm_entries m) dest = Inr ps" "po_max_bytes opt = mx"
    "\<forall>op. io op" "disk_ok d2" "mkdirs d2 dest \<noteq> None" "\<forall>q. q \<noteq> dest \<longrightarrow> starts_with q dest \<longrightarrow> d2 q = None"
    and "fr_current_owner s = Some (OwnClient name)" "hub_reachable (fr_hub s) name"
  shows "\<exists>d'. pull_with_options lower (server_reader d (fo_set seq m src) name seq) io opt m dest s d2
      = (d', Inr (top_level m ps))
    \<and> (\<forall>i < length (fm_entries m). d' (ps ! i) = (if fe_dir (fm_entries m ! i) then Some NDir else d (src ! i)))"
proof -
  have "routed_ok name s" by (simp add: routed_ok_def assms(9,10))
  from server_pull.copied_arrive [OF assms(1-8) refl refl this] show ?thesis by blast
qed

lemma server_pulls_client_files_witness:
  "\<exists>d'. pull_with_options id (server_reader sample_disk (fo_set 7 sample_manifest sample_paths) ''a'' 7) (\<lambda>_. True)
      \<lparr>po_max_bytes = 100, po_seq = 7\<rparr> sample_manifest [''stage''] two_screens [[] \<mapsto> NDir] = (d', Inr (top_level sample_manifest staged_paths))
    \<and> (\<forall>i < length (fm_entries sample_manifest). d' (staged_paths ! i) =
        (if fe_dir (fm_entries sample_manifest ! i) then Some NDir else sample_disk (sample_paths ! i)))"
  by (rule server_pulls_client_files [OF sample_collect sample_shown sample_sanitize _ _ empty_disk_ok sample_mkdirs _ two_screens_facts(1,2)])
    (simp_all add: starts_with_def)

end
