(* ===== verification/Proto_Spec.thy ===== *)
theory Proto_Spec
  imports Key_Rules Framing Chunks
begin

text \<open>
  What the protocol layer promises: messages come out of a socket as they went in, a clipboard goes
  through its chunks unchanged and within its limit, and a rule that parses is one the router can use.
\<close>

section \<open>Framing\<close>

text \<open>
  C38: However the bytes of a sequence of sent messages are cut into reads, the receiver gets exactly
  those messages, in order, and then sees the end of the connection.
\<close>

theorem framed_messages_arrive:
  assumes "\<forall>m \<in> set msgs. \<exists>out. send enc s m = Inr out \<and> dec (the (enc m)) = Some m"
    and "ms_max_frame s < 4294967296" "ms_rbuf s = []" "\<forall>c \<in> set cs. c \<noteq> []"
    and "concat cs = concat (map (\<lambda>m. case send enc s m of Inr out \<Rightarrow> out | Inl _ \<Rightarrow> []) msgs)"
  shows "\<exists>s'. recv_all (length msgs + 1) dec s (map ReadBytes cs @ [ReadEof]) = (s', msgs, Failed Closed)"
proof -
  have each: "\<exists>p. enc m = Some p \<and> dec p = Some m \<and> length p \<le> ms_max_frame s"
    and out: "(case send enc s m of Inr out \<Rightarrow> out | Inl _ \<Rightarrow> []) = frame (the (enc m))" if m: "m \<in> set msgs" for m
  proof -
    obtain o1 where "send enc s m = Inr o1" "dec (the (enc m)) = Some m" using bspec [OF assms(1) m] by auto
    then show "\<exists>p. enc m = Some p \<and> dec p = Some m \<and> length p \<le> ms_max_frame s"
      "(case send enc s m of Inr out \<Rightarrow> out | Inl _ \<Rightarrow> []) = frame (the (enc m))"
      using send_frame [of enc s m o1] by auto
  qed
  have "map (\<lambda>m. case send enc s m of Inr out \<Rightarrow> out | Inl _ \<Rightarrow> []) msgs = map (\<lambda>m. frame (the (enc m))) msgs"
    by (rule map_cong [OF refl out])
  with assms(5) have "concat cs = concat (map (\<lambda>m. frame (the (enc m))) msgs)" by (simp only:)
  then show ?thesis using recv_all_frames [of msgs enc dec s cs "length msgs + 1"] each assms by simp
qed

definition sample_reads :: "bytes list" where
  "sample_reads = [frame ''hi'' @ [CHR 0x01], [CHR 0x00, CHR 0x00], [CHR 0x00, CHR ''y'']]"

lemma framed_messages_arrive_witness:
  "\<exists>s'. recv_all (length [''hi'', ''y''] + 1) Some ms_new (map ReadBytes sample_reads @ [ReadEof]) = (s', [''hi'', ''y''], Failed Closed)"
proof (rule framed_messages_arrive [where enc = Some])
  show "\<forall>m \<in> set [''hi'', ''y'']. \<exists>out. send Some ms_new m = Inr out \<and> Some (the (Some m)) = Some m"
    by (simp add: send_def ms_new_def DEFAULT_MAX_FRAME_def)
  show "concat sample_reads = concat (map (\<lambda>m. case send Some ms_new m of Inr out \<Rightarrow> out | Inl _ \<Rightarrow> []) [''hi'', ''y''])"
    by code_simp
qed (simp_all add: ms_new_def DEFAULT_MAX_FRAME_def sample_reads_def frame_def)

text \<open>
  A length prefix above the limit is refused before a single byte of its payload is waited for,
  whatever the socket has to offer; a shorter one never makes the buffer outgrow the limit.
\<close>

theorem oversized_frame_refused:
  assumes "4 \<le> length (ms_rbuf s)"
  shows "if le_value (take 4 (ms_rbuf s)) > ms_max_frame s
    then recv dec s inp = (s, inp, Failed (FrameTooLarge (le_value (take 4 (ms_rbuf s))) (ms_max_frame s)))
    else try_frame dec s = None \<longrightarrow> length (ms_rbuf s) < 4 + ms_max_frame s"
  using recv_too_large [OF assms] recv_waits_small by auto

lemma oversized_frame_refused_witness:
  "recv (\<lambda>p. Some p) (ms_new\<lparr>ms_rbuf := le32 5000000\<rparr>) [ReadBytes ''abc'']
    = (ms_new\<lparr>ms_rbuf := le32 5000000\<rparr>, [ReadBytes ''abc''], Failed (FrameTooLarge 5000000 DEFAULT_MAX_FRAME))"
  using oversized_frame_refused [of "ms_new\<lparr>ms_rbuf := le32 5000000\<rparr>" "\<lambda>p. Some p" "[ReadBytes ''abc'']"]
  by (simp add: le_value_le32 ms_new_def DEFAULT_MAX_FRAME_def)

text \<open>
  Dropping a receive that waits (a timeout, a keepalive tick) loses nothing: receiving again from
  the state it left gives what one uninterrupted receive would have given.
\<close>

theorem cancelled_receive_resumes:
  assumes "recv dec s inp1 = (s', rest, Pending)"
  shows "recv dec s (inp1 @ inp2) = recv dec s' inp2"
  using recv_resume [OF assms] by blast

lemma cancelled_receive_resumes_witness:
  "recv (\<lambda>p. Some p) ms_new ([ReadBytes [CHR 0x01, CHR 0x00]] @ [ReadBytes [CHR 0x00, CHR 0x00, CHR ''y'']])
    = recv (\<lambda>p. Some p) (ms_new\<lparr>ms_rbuf := [CHR 0x01, CHR 0x00]\<rparr>) [ReadBytes [CHR 0x00, CHR 0x00, CHR ''y'']]"
proof -
  have "recv (\<lambda>p. Some p) ms_new [ReadBytes [CHR 0x01, CHR 0x00]]
      = (ms_new\<lparr>ms_rbuf := [CHR 0x01, CHR 0x00]\<rparr>, [], (Pending :: bytes recv_outcome))"
    by code_simp
  from cancelled_receive_resumes [OF this, of "[ReadBytes [CHR 0x00, CHR 0x00, CHR ''y'']]"] show ?thesis .
qed

section \<open>Chunks\<close>

text \<open>
  A payload within the receiver's limit comes out of its chunk stream unchanged, and every chunk
  carries between one byte and 32 KiB.
\<close>

theorem chunk_stream_round_trip:
  assumes "limit = 0 \<or> length bs \<le> limit"
  shows "snd (as_feed (as_with_limit limit) (chunk_stream bs)) = Inr (Some bs)
    \<and> (\<forall>d. Data d \<in> set (chunk_stream bs) \<longrightarrow> d \<noteq> [] \<and> length d \<le> CHUNK_SIZE)"
  using as_feed_stream [OF assms] slice_chunks_sizes [of _ CHUNK_SIZE bs] by (auto simp: chunk_stream_def)

lemma chunk_stream_round_trip_witness:
  "snd (as_feed (as_with_limit 3) (chunk_stream ''abc'')) = Inr (Some ''abc'')"
  using chunk_stream_round_trip [of 3 "''abc''"] by simp

text \<open>
  C39: Whatever a peer sends, a payload is only produced by one Start, some Data and an End, it is the
  Data put together, it has the announced length unless zero was announced, and it is never longer
  than a limit that was set.
\<close>

theorem assembled_payload_grammar:
  assumes "as_feed (as_with_limit limit) cs = (a', Inr (Some bs))"
  shows "(\<exists>n ds rest. cs = Start n # map Data ds @ End # rest \<and> bs = concat ds \<and> (n = 0 \<or> n = length bs))
    \<and> (limit > 0 \<longrightarrow> length bs \<le> limit)"
proof -
  have "as_limit a > 0 \<longrightarrow> length bs \<le> as_limit a" if "as_feed a cs = (a', Inr (Some bs))" "as_inv a" for a
    using that
  proof (induction a cs rule: as_feed.induct)
    case (2 a c cs)
    then show ?case
      using as_push_done [of a c a' bs] as_push_inv [of a c] as_push_limit [of a c]
      by (auto split: sum.splits option.splits prod.splits)
  qed simp
  from this [OF assms as_inv_new] have "limit > 0 \<longrightarrow> length bs \<le> limit" by (simp add: as_with_limit_def)
  then show ?thesis using as_feed_grammar [OF assms] by blast
qed

lemma assembled_payload_grammar_witness:
  "\<exists>n ds rest. [Start 0, Data ''ab'', Data ''c'', End] = Start n # map Data ds @ End # rest \<and> ''abc'' = concat ds \<and> (n = 0 \<or> n = 3)"
proof -
  have "snd (as_feed (as_with_limit 8) [Start 0, Data ''ab'', Data ''c'', End]) = Inr (Some ''abc'')" by code_simp
  then obtain a' where "as_feed (as_with_limit 8) [Start 0, Data ''ab'', Data ''c'', End] = (a', Inr (Some ''abc''))"
    by (metis prod.collapse)
  from assembled_payload_grammar [OF this] show ?thesis by (simp add: numeral_3_eq_3)
qed

section \<open>Key rules\<close>

text \<open>
  C40: A trigger and an action that parse make a rule the router can use: the modifiers are among
  Shift, Control, Alt and Super, the key is an ordinary HID usage and the action is one of the named
  consumer actions; pressing the key with just those modifiers matches whatever the lock keys are.
\<close>

theorem parsed_rule_usable:
  assumes "rule_parse t a = Inr r"
  shows "rule_mods (ru_mods r) = ru_mods r \<and> ru_hid r < 0x100 \<and> (\<exists>n. action_name (ru_action r) = Some n)
    \<and> rule_matches r (ru_hid r) (ru_mods r OR CAPS_LOCK OR NUM_LOCK)"
proof -
  have "\<exists>n. (n, ru_action r) \<in> set ACTIONS"
    using assms by (auto simp: rule_parse_def from_name_iff split: option.splits sum.splits prod.splits if_splits)
  then show ?thesis
    using rule_parse_ok [OF assms] rule_ok_matches by (auto simp: rule_ok_def action_name_iff)
qed

lemma parsed_rule_usable_witness:
  "rule_matches \<lparr>ru_mods = CONTROL OR ALT, ru_hid = 0x52, ru_action = VOLUME_UP\<rparr> 0x52
     (CONTROL OR ALT OR CAPS_LOCK OR NUM_LOCK)"
proof -
  have "rule_parse ''Ctrl + Alt+Up'' ''volume_up'' = Inr \<lparr>ru_mods = CONTROL OR ALT, ru_hid = 0x52, ru_action = VOLUME_UP\<rparr>"
    by code_simp
  from parsed_rule_usable [OF this] show ?thesis by (simp add: or.assoc)
qed

end
