(* ===== verification/Desk_Spec.thy ===== *)
theory Desk_Spec
  imports Desk
begin

text \<open>
  What the layout and the desk promise: when an edge switches, where the machines stand, and how a
  point of one machine becomes a point of another.
\<close>

section \<open>Switching\<close>

text \<open>
  With a switch delay set, the policy only says Switch when the cursor really rested: the samples
  hold an earlier one at the same linked edge, at least the delay before, and since then no other
  edge, no missing neighbour and no moment away from the edges.
\<close>

theorem switch_after_real_rest:
  assumes "0 < sp_delay_ms p" "sp_double_tap_ms p = 0"
    and "snd (ss_step p (ss_run p ss_new xs) (AtEdge now e n c)) = Switch"
  shows "n \<and> c \<and> (\<exists>pre t mid. xs = pre @ AtEdge t e True True # mid \<and> (\<forall>x \<in> set mid. resting e x) \<and> sp_delay_ms p \<le> now - t)"
proof -
  obtain s' where "evaluate p (ss_run p ss_new xs) now e n c = (s', Switch)"
    using assms(3) by (metis prod.collapse ss_step.simps(1))
  from evaluate_Switch_gates [OF this] obtain t where
    t: "n" "c" "ss_dwell (ss_run p ss_new xs) = Some (e, t)" "sp_delay_ms p \<le> now - t" using assms(1) by blast
  show ?thesis using ss_run_dwell [OF assms(2) t(3)] t by blast
qed

lemma switch_after_real_rest_witness:
  "\<exists>pre t mid. [AtEdge 10 Right True True, AtEdge 100 Right True True] = pre @ AtEdge t Right True True # mid
    \<and> (\<forall>x \<in> set mid. resting Right x) \<and> 250 \<le> 300 - t"
  using switch_after_real_rest [of "sp_default\<lparr>sp_delay_ms := 250\<rparr>" "[AtEdge 10 Right True True, AtEdge 100 Right True True]" 300 Right True True]
  by (simp add: sp_default_def ss_new_def evaluate_simps)

text \<open>
  Resting does switch: after a first sample at a linked edge, any number of samples at the same
  edge before the delay is over, and one at or after it, the policy says Switch, unless the lock holds.
\<close>

theorem rest_switches:
  assumes "0 < sp_delay_ms p" "sp_double_tap_ms p = 0" "\<not> (ss_locked s \<and> sp_scroll_lock_locks p)"
    "ss_dwell s = None" "\<forall>x \<in> set xs. \<exists>t. x = AtEdge t e True True \<and> t < t0 + sp_delay_ms p"
    "t0 + sp_delay_ms p \<le> t"
  shows "snd (ss_step p (ss_run p s (AtEdge t0 e True True # xs)) (AtEdge t e True True)) = Switch"
  by (rule dwell_switches [OF assms])

lemma rest_switches_witness:
  "snd (ss_step (sp_default\<lparr>sp_delay_ms := 250\<rparr>) (ss_run (sp_default\<lparr>sp_delay_ms := 250\<rparr>) ss_new
     (AtEdge 10 Right True True # [AtEdge 100 Right True True])) (AtEdge 300 Right True True)) = Switch"
  by (rule rest_switches) (simp_all add: sp_default_def ss_new_def)

section \<open>Where the machines stand\<close>

text \<open>
  Every machine of the desk gets a place, without a panic: a configured one stands exactly where it
  was put, the local machine at the origin unless it was put elsewhere, and every other machine beside
  a placed neighbour of the layout or in the row to the right.
\<close>

theorem every_machine_placed:
  assumes "bm_ok conf"
  shows "\<exists>r. effective_origins order local l conf size_of = Some r
    \<and> (\<forall>n \<in> set order. bm_has r n) \<and> bm_has r local
    \<and> (\<forall>n \<in> set order. \<forall>v. bm_get conf n = Some v \<longrightarrow> bm_get r n = Some v)
    \<and> (bm_get conf local = None \<or> local \<notin> set order \<longrightarrow> bm_get r local = Some (Pt 0 0))
    \<and> (\<forall>n \<in> set order. n = local \<or> bm_has conf n \<or> touches l size_of r n \<or> (\<exists>x. bm_get r n = Some (Pt x 0)))"
  using effective_origins_spec [OF assms] by blast

lemma every_machine_placed_witness:
  "\<exists>r. effective_origins [''pc'', ''win''] ''pc'' (la_new [''pc'', ''win'']) [(''win'', Pt 1920 0)] (\<lambda>_. (1920, 1080)) = Some r
    \<and> bm_get r ''win'' = Some (Pt 1920 0) \<and> bm_get r ''pc'' = Some (Pt 0 0)"
proof -
  have "bm_ok [(''win'', Pt 1920 0)]" "bm_get [(''win'', Pt 1920 0)] ''pc'' = None" "bm_get [(''win'', Pt 1920 0)] ''win'' = Some (Pt 1920 0)"
    by (simp_all add: bm_ok_def)
  with every_machine_placed [OF this(1), of "[''pc'', ''win'']" "''pc''" "la_new [''pc'', ''win'']" "\<lambda>_. (1920, 1080)"]
  show ?thesis by auto
qed

text \<open>
  A machine drawn at a configured size covers exactly that size on the desk, from the corner it was
  put at, although every corner goes through double-precision scaling.
\<close>

theorem scaled_machine_fills_its_size:
  assumes "0 < r_w b" "0 < r_h b" "is_i32 (r_w b)" "is_i32 (r_h b)"
    and "0 < sz_w s" "0 < sz_h s" "is_i32 (sz_w s)" "is_i32 (sz_h s)"
  shows "desk_rect (fr_new og (Some b) (Some s)) b
    = Rect (i32 (pt_x og + r_x b)) (i32 (pt_y og + r_y b)) (sz_w s) (sz_h s)"
  by (rule desk_rect_exact [OF assms])

lemma scaled_machine_fills_its_size_witness:
  "desk_rect (fr_new (Pt 1920 7) (Some (Rect 0 0 2560 1440)) (Some \<lparr>sz_w = 1707, sz_h = 961\<rparr>)) (Rect 0 0 2560 1440)
    = Rect (i32 (1920 + 0)) (i32 (7 + 0)) 1707 961"
  using scaled_machine_fills_its_size [of "Rect 0 0 2560 1440" "\<lparr>sz_w = 1707, sz_h = 961\<rparr>" "Pt 1920 7"]
  by (simp add: is_i32_def)

text \<open>
  The point a position is pulled to lies on one of the monitors, no point of any monitor is closer,
  and a position already on a monitor stays.
\<close>

theorem nearest_point_is_nearest:
  assumes "mons_small ms" "ms \<noteq> []" "near_origin 1000000000 p"
  shows "\<exists>q. nearest_point p ms = Some q \<and> on_mons ms q \<and> (\<forall>r. on_mons ms r \<longrightarrow> dist2 q p \<le> dist2 r p)
    \<and> (on_mons ms p \<longrightarrow> q = p)"
proof -
  obtain q where q: "nearest_point p ms = Some q" "on_mons ms q"
    using nearest_point_on [OF mons_small_ok [OF assms(1,2)], of p] by blast
  then show ?thesis
    using nearest_point_closest [OF assms(1,3) _ q(1)] nearest_point_fix [OF assms(1)] by auto
qed

lemma nearest_point_is_nearest_witness:
  "\<exists>q. nearest_point (Pt 1950 200) [Rect 0 0 1920 1080, Rect 1920 500 800 600] = Some q
    \<and> on_mons [Rect 0 0 1920 1080, Rect 1920 500 800 600] q
    \<and> (\<forall>r. on_mons [Rect 0 0 1920 1080, Rect 1920 500 800 600] r \<longrightarrow> dist2 q (Pt 1950 200) \<le> dist2 r (Pt 1950 200))"
  using nearest_point_is_nearest [of "[Rect 0 0 1920 1080, Rect 1920 500 800 600]" "Pt 1950 200"]
  by (auto simp: mons_small_def near_origin_def rect_ok_def is_i32_def)

text \<open>
  Keeping the cursor off a monitor's rim never panics and never leaves the monitor, and on a monitor
  wide enough the cursor ends at least the inset away from both sides.
\<close>

theorem inset_stays_inside:
  assumes "rect_ok r" "0 \<le> inset" "inset \<le> 1000000000"
  shows "\<exists>q. inset_clamp p r inset = Some q \<and> rect_contains r q
    \<and> (2 * inset + 1 < r_w r \<longrightarrow> r_x r + inset \<le> pt_x q \<and> pt_x q \<le> r_x r + r_w r - 1 - inset)
    \<and> (2 * inset + 1 < r_h r \<longrightarrow> r_y r + inset \<le> pt_y q \<and> pt_y q \<le> r_y r + r_h r - 1 - inset)"
  by (rule inset_clamp_ok [OF assms])

lemma inset_stays_inside_witness:
  "\<exists>q. inset_clamp (Pt 1919 3) (Rect 0 0 1920 1080) 12 = Some q \<and> rect_contains (Rect 0 0 1920 1080) q \<and> pt_x q \<le> 1907"
  using inset_stays_inside [of "Rect 0 0 1920 1080" 12 "Pt 1919 3"] by (auto simp: rect_ok_def is_i32_def)

end
