(* ===== verification/Hub_Spec.thy ===== *)
theory Hub_Spec
  imports Hub Trust
begin

text \<open>
  What the hub promises the router and what the two together promise the user: the router only ever
  gives the input to a screen that is connected and turned on. And what the trust store promises:
  nobody is trusted without having been approved.
\<close>

section \<open>The router behind the hub\<close>

fun hub_part :: "router_event list \<Rightarrow> hub_event list" where
  "hub_part [] = []"
| "hub_part (HubEv h # es) = h # hub_part es"
| "hub_part (Ev ev now # es) = hub_part es"

lemma refresh_connected: "refresh_origins c = Some c' \<Longrightarrow> c_connected c' = c_connected c"
  by (auto simp: refresh_origins_def bind_eq_Some_conv)

lemma core_step_connected:
  assumes "core_inv local c" "good_event local e" "core_step c e = Some (c', as)"
  shows "c_connected c' = (case e of HubEv h \<Rightarrow> replay_step h (c_connected c) | Ev _ _ \<Rightarrow> c_connected c)"
proof (cases e)
  case (Ev ev now)
  then have "handle c ev now = Some (c', as)" using assms(3) by simp
  then have "turn c as c'" using handle_SomeD(1) assms(1) by (auto simp: core_inv_def)
  then show ?thesis using movedD [OF turn_moved] Ev by simp
next
  case (HubEv h)
  show ?thesis
  proof (cases h)
    case (Disconnected n)
    have "core_ok c" using assms(1) by (simp add: core_inv_def)
    from client_disconnected_spec [OF this, of n] show ?thesis using assms(3) HubEv Disconnected by auto
  next
    case (ScreenAdded n)
    then show ?thesis
      using assms(3) HubEv by (auto simp: core_add_screen_def dest!: refresh_connected split: prod.splits bool.splits)
  next
    case (LocalMonitors ms)
    then show ?thesis
      using assms(3) HubEv
      by (auto simp: set_local_monitors_def Let_def dest!: refresh_connected split: option.splits if_splits)
  qed (use assms(3) HubEv in \<open>auto simp: client_connected_def set_positions_def set_sizes_def dest!: refresh_connected\<close>)
qed

lemma run_connected:
  "core_inv local c \<Longrightarrow> list_all (good_event local) es \<Longrightarrow> run_events core_step c es = Some (c', as) \<Longrightarrow>
   c_connected c' = fold replay_step (hub_part es) (c_connected c)"
proof (induction es arbitrary: c as)
  case (Cons e es)
  obtain c1 a1 a2 where s: "core_step c e = Some (c1, a1)" "run_events core_step c1 es = Some (c', a2)"
    using Cons.prems(3) by (auto split: option.splits)
  have i: "core_inv local c1" using router.step_inv Cons.prems(1,2) s(1) by auto
  have "c_connected c' = fold replay_step (hub_part es) (c_connected c1)"
    using Cons.IH [OF i _ s(2)] Cons.prems(2) by simp
  then show ?case using core_step_connected [OF Cons.prems(1) _ s(1)] Cons.prems(2) by (cases e) simp_all
qed simp

text \<open>
  After any operations on the hub, the clients a reader of its events knows are exactly the
  registered ones that are not turned off, each with the monitors it last reported.
\<close>

theorem hub_events_mirror_clients:
  "replay (hb_events (hub_run (load_disabled hub_new off) ops)) = enabled_view (hub_run (load_disabled hub_new off) ops)"
  by (rule in_step_replay [OF hub_run_in_step [OF hub_new_in_step]])

text \<open>
  C19: A router that started without clients and has handled every event of a hub, mixed with the
  cursor's own events in any way, knows exactly the hub's enabled clients; and if it gives the input to
  a screen, that screen is registered and not turned off.
\<close>

theorem input_only_on_enabled_screens:
  assumes "mons_ok ms" "bm_ok positions" "sp_jump_zone policy \<le> 1000000" "list_all (good_event local) es"
    and "hub_part es = hb_events h" "h = hub_run (load_disabled hub_new off) ops"
  shows "\<exists>c c' as. core_new l policy local ms positions = Some c \<and> run_events core_step c es = Some (c', as)
    \<and> c_connected c' = enabled_view h
    \<and> (\<forall>s p. c_state c' = Remote s p \<longrightarrow> hub_contains h s \<and> \<not> is_disabled h s)"
proof -
  obtain c where c: "core_new l policy local ms positions = Some c" "core_inv local c" "owned_by c (Idle, 0)"
    using core_new_inv [OF assms(1-3)] by blast
  have e: "c_connected c = []"
    using c(1) by (auto simp: core_new_def dest: refresh_connected)
  obtain c' as where r: "run_events core_step c es = Some (c', as)" "core_inv local c'"
    using router.run_total [OF c(2) assms(4)] by blast
  have v: "c_connected c' = enabled_view h"
    using run_connected [OF c(2) assms(4) r(1)] e assms(5,6) in_step_replay [OF hub_run_in_step [OF hub_new_in_step]]
    by (simp add: replay_def)
  have "hub_contains h s \<and> \<not> is_disabled h s" if "c_state c' = Remote s p" for s p
  proof -
    have "bm_has (enabled_view h) s" using core_ok_remote [OF _ that] r(2) v by (simp add: core_inv_def)
    then show ?thesis by (auto simp: bm_has_iff enabled_view_get hub_contains_def is_disabled_def split: if_splits)
  qed
  then show ?thesis using c(1) r(1) v by blast
qed

lemma input_only_on_enabled_screens_witness:
  "\<exists>c c' as. core_new desk_layout sp_default ''pc'' [Rect 0 0 1920 1080] [(''win'', Pt 1920 0)] = Some c
    \<and> run_events core_step c [HubEv (Connected ''win'' [Rect 0 0 2560 1440]), Ev (Pointer (Pt 1919 540)) 0, HubEv (Disconnected ''win'')] = Some (c', as)
    \<and> c_connected c' = enabled_view (hub_run (load_disabled hub_new {}) [ORegister ''win'' [Rect 0 0 2560 1440], OSetDisabled ''win'' True])
    \<and> (\<forall>s p. c_state c' = Remote s p \<longrightarrow>
        hub_contains (hub_run (load_disabled hub_new {}) [ORegister ''win'' [Rect 0 0 2560 1440], OSetDisabled ''win'' True]) s
        \<and> \<not> is_disabled (hub_run (load_disabled hub_new {}) [ORegister ''win'' [Rect 0 0 2560 1440], OSetDisabled ''win'' True]) s)"
  by (rule input_only_on_enabled_screens [OF _ _ _ _ _ refl])
    (simp_all add: mons_ok_def rect_ok_def is_i32_def bm_ok_def sp_default_def hub_run_def hub_defs hub_new_def)

text \<open>
  While every client the router sends to still has its session, pumping the router's actions into
  the hub drops nobody: the core is unchanged, every message is in its client's queue in order, and
  every capture command reaches the backend in order.
\<close>

theorem pump_delivers_in_order:
  assumes "\<forall>a \<in> set as. \<forall>t m. a = Send t m \<longrightarrow> hub_reachable h t"
  shows "\<exists>h'. pump hub_send c h cmds as
      = Some (c, h', cmds @ concat (map (\<lambda>a. case a of Capture x \<Rightarrow> [x] | Send _ _ \<Rightarrow> []) as))
    \<and> (\<forall>n. hub_delivered h' n = hub_delivered h n @ sent_to n as)"
  by (rule hub_sink.pump_reachable [OF assms])

lemma pump_delivers_in_order_witness:
  "\<exists>h'. pump hub_send desk_core (hub_run hub_new [ORegister ''win'' []]) [] [Capture Grab, Send ''win'' Leave]
      = Some (desk_core, h', [] @ concat (map (\<lambda>a. case a of Capture x \<Rightarrow> [x] | Send _ _ \<Rightarrow> []) [Capture Grab, Send ''win'' Leave]))
    \<and> (\<forall>n. hub_delivered h' n = hub_delivered (hub_run hub_new [ORegister ''win'' []]) n @ sent_to n [Capture Grab, Send ''win'' Leave])"
  by (rule pump_delivers_in_order)
    (simp add: hub_reachable_def hub_run_def hub_defs hub_new_def)

section \<open>Trust\<close>

text \<open>
  Whatever requests come in and whatever is listed, approved, dismissed, revoked or restored, a
  certificate passes the check for a name only if it was trusted from the start, an undo restored it,
  or a person approved exactly that name and certificate after it had asked.
\<close>

theorem trust_needs_approval:
  assumes "tr_pending t = []" "tr_check (trust_run t ops) name f = Trusted"
  shows "bm_get (tr_trusted t) name = Some f \<or> ORestore name (Some f) \<in> set ops
    \<or> (\<exists>pre post now a. ops = pre @ OApprove name f # post \<and> ONote now name f a \<in> set pre)"
proof -
  have "bm_get (tr_trusted (trust_run t ops)) name = Some f"
    using assms(2) by (auto simp: tr_check_def split: option.splits if_splits)
  from trusted_origin [OF assms(1) this] show ?thesis .
qed

lemma trust_needs_approval_witness:
  "\<exists>pre post now a. [ONote 5 ''win'' ''f'' ''1.2.3.4'', OApprove ''win'' ''f''] = pre @ OApprove ''win'' ''f'' # post
    \<and> ONote now ''win'' ''f'' a \<in> set pre"
proof -
  have "tr_check (trust_run (tr_new []) [ONote 5 ''win'' ''f'' ''1.2.3.4'', OApprove ''win'' ''f'']) ''win'' ''f'' = Trusted"
    by code_simp
  from trust_needs_approval [OF _ this] show ?thesis by (simp add: tr_new_def)
qed

text \<open>
  However many strangers knock, the list of requests never holds more than sixteen, no two of them
  for the same name and certificate.
\<close>

theorem pending_requests_bounded:
  assumes "bm_ok m"
  shows "length (tr_pending (trust_run (tr_new m) ops)) \<le> 16
    \<and> distinct (map (\<lambda>p. (pe_name p, pe_fingerprint p)) (tr_pending (trust_run (tr_new m) ops)))
    \<and> bm_ok (tr_trusted (trust_run (tr_new m) ops))"
proof -
  have "tr_ok (tr_new m)" using assms by (simp add: tr_ok_def tr_new_def)
  from trust_run_ok [OF this, of ops] show ?thesis by (simp add: tr_ok_def MAX_PENDING_def)
qed

lemma pending_requests_bounded_witness:
  "length (tr_pending (trust_run (tr_new []) (map (\<lambda>i. ONote 0 ''x'' [byte i] ''a'') [0..<40]))) \<le> 16"
  using pending_requests_bounded [of "[]" "map (\<lambda>i. ONote 0 ''x'' [byte i] ''a'') [0..<40]"] by (simp add: bm_ok_def)

text \<open>
  The text form of a fingerprint reads back as the same fingerprint, and whatever text reads as a
  fingerprint has exactly 32 bytes.
\<close>

theorem fingerprint_round_trip:
  "(fp_ok f \<longrightarrow> fp_parse (fp_display f) = Some f) \<and> (fp_parse s = Some g \<longrightarrow> fp_ok g)"
  using fp_parse_display fp_parse_ok by blast

lemma fingerprint_round_trip_witness:
  "fp_parse (fp_display (replicate 32 (CHR ''k''))) = Some (replicate 32 (CHR ''k'')) \<and> fp_ok (replicate 32 (CHR ''k''))"
  using fingerprint_round_trip [of "replicate 32 (CHR ''k'')" "[]" "[]"] by (simp add: fp_ok_def)

end
