(* ===== verification/Files_Spec.thy ===== *)
theory Files_Spec
  imports Copy_Paste
begin

text \<open>What the file side promises: safe names, bounded manifests, honest slices, contained pulls.\<close>

text \<open>
  C22: A manifest only passes the check when every one of its paths is a list of plain names: none is
  empty, a dot, two dots, holds a separator or a colon, is longer than 255 bytes or ends in a dot or a
  space. It is then resolved, name by name, strictly below the destination, and no two entries share a
  path.
\<close>

theorem sanitized_paths_are_safe:
  assumes "sanitize_manifest lower ens dest = Inr ps"
  shows "length ps = length ens \<and> distinct ps
    \<and> (\<forall>i < length ens. ps ! i = dest @ parts_of (fe_path (ens ! i))
      \<and> (\<forall>part \<in> set (parts_of (fe_path (ens ! i))). part \<notin> {[], ''.'', ''..''} \<and> CHR ''/'' \<notin> set part
          \<and> CHR 92 \<notin> set part \<and> CHR '':'' \<notin> set part \<and> length part \<le> 255
          \<and> \<not> ends_with part (CHR ''.'') \<and> \<not> ends_with part (CHR '' '') \<and> \<not> reserved_stem part))"
proof -
  note len = sanitize_manifest_length [OF assms]
  have "ps ! i = dest @ parts_of (fe_path (ens ! i))
      \<and> (\<forall>part \<in> set (parts_of (fe_path (ens ! i))). part \<notin> {[], ''.'', ''..''} \<and> CHR ''/'' \<notin> set part
          \<and> CHR 92 \<notin> set part \<and> CHR '':'' \<notin> set part \<and> length part \<le> 255
          \<and> \<not> ends_with part (CHR ''.'') \<and> \<not> ends_with part (CHR '' '') \<and> \<not> reserved_stem part)" if "i < length ens" for i
  proof -
    have r: "resolved_under dest (ens ! i) (ps ! i)" by (rule list_all2_nthD [OF sanitize_manifest_Inr(1) [OF assms] that])
    have "part \<notin> {[], ''.'', ''..''} \<and> CHR ''/'' \<notin> set part
          \<and> CHR 92 \<notin> set part \<and> CHR '':'' \<notin> set part \<and> length part \<le> 255
          \<and> \<not> ends_with part (CHR ''.'') \<and> \<not> ends_with part (CHR '' '') \<and> \<not> reserved_stem part"
      if p: "part \<in> set (parts_of (fe_path (ens ! i)))" for part
    proof -
      have "safe_part part" using r p by (simp add: resolved_under_def)
      from safe_part_facts [OF this] show ?thesis using split_on_parts [OF p] by simp
    qed
    then show ?thesis using r by (simp add: resolved_under_def)
  qed
  then show ?thesis using len sanitize_manifest_distinct [OF assms] by blast
qed

lemma sanitized_paths_are_safe_witness:
  "length staged_paths = length (fm_entries sample_manifest) \<and> distinct staged_paths"
  using sanitized_paths_are_safe [OF sample_sanitize] by blast

text \<open>
  A collected manifest has at most ten thousand entries, one path on this disk for each, its size is
  the true sum of its files' sizes, without wrap-around, and within the limit it was collected under.
\<close>

theorem collected_manifest_bounded:
  assumes "collect roots mx = Inr (m, ps)"
  shows "length (fm_entries m) \<le> 10000 \<and> length ps = length (fm_entries m)
    \<and> total_bytes m = sum_list (map fe_size (filter (\<lambda>e. \<not> fe_dir e) (fm_entries m))) \<and> (mx > 0 \<longrightarrow> total_bytes m \<le> mx)"
  using collect_limits [OF assms] by (simp add: MAX_ENTRIES_def entry_bytes_def)

lemma collected_manifest_bounded_witness:
  "length (fm_entries sample_manifest) \<le> 10000 \<and> total_bytes sample_manifest \<le> 100"
  using collected_manifest_bounded [OF sample_collect] by simp

text \<open>
  What the owner answers to a read is always a slice of a file it announced under that number, at
  the place asked for, no longer than asked for and never over one MiB, taken from a file that still
  has its announced length.
\<close>

theorem owner_answers_announced_slices:
  assumes "fo_read d fo seq index offset len = FData bs"
  shows "\<exists>cur content. fo = Some cur \<and> an_seq cur = seq \<and> index < length (fm_entries (an_manifest cur))
    \<and> \<not> fe_dir (fm_entries (an_manifest cur) ! index)
    \<and> d (an_abs cur ! index) = Some (NFile content) \<and> length content = fe_size (fm_entries (an_manifest cur) ! index)
    \<and> offset \<le> length content \<and> bs = take (min len (1024 * 1024)) (drop offset content)"
  using fo_read_data [OF assms] by (simp add: MAX_READ_LEN_def) blast

lemma owner_answers_announced_slices_witness:
  "\<exists>cur content. fo_set 7 sample_manifest sample_paths = Some cur \<and> sample_disk (an_abs cur ! 1) = Some (NFile content)
    \<and> ''bc'' = take (min 10 (1024 * 1024)) (drop 1 content)"
proof -
  have "fo_read sample_disk (fo_set 7 sample_manifest sample_paths) 7 1 1 10 = FData ''bc''" by code_simp
  from owner_answers_announced_slices [OF this] show ?thesis by blast
qed

text \<open>
  C23: Where no symbolic link leads to the destination or lies in it, a pull touches nothing outside it,
  whatever a peer announces and answers and whatever fails: every other path holds what it held, except
  for the folders made to reach the destination. A link there is followed, see the lemma after this one.
\<close>

theorem pull_stays_inside:
  assumes "pull_with_options lower rd io opt m dest r d = (d', res)" "no_links d dest" "\<not> starts_with q dest"
  shows "d' q = d q \<or> (d q = None \<and> d' q = Some NDir \<and> starts_with dest q)"
  by (rule pull_outside [OF assms])

lemma pull_stays_inside_witness:
  "fst (pull_with_options id eager_reader (\<lambda>_. True) \<lparr>po_max_bytes = 5, po_seq = 1\<rparr> overrun_manifest [''tmp''] () (\<lambda>_. None)) [''etc''] = None"
  using pull_stays_inside [of id eager_reader "\<lambda>_. True" "\<lparr>po_max_bytes = 5, po_seq = 1\<rparr>" overrun_manifest "[''tmp'']" "()" "\<lambda>_. None" _ _ "[''etc'']",
      OF prod.collapse [symmetric]]
  by (simp add: starts_with_def no_links_def)

text \<open>
  With a link where a copied file goes the file it leads to is written: \<^verbatim>\<open>File::create\<close> follows it. The folder
  a transfer is staged in is at a place anybody on the machine can tell beforehand.
\<close>

lemma pull_follows_links:
  "case pull_with_options id eager_reader (\<lambda>_. True) \<lparr>po_max_bytes = 5, po_seq = 1\<rparr> overrun_manifest [''tmp''] ()
       [[] \<mapsto> NDir, [''tmp''] \<mapsto> NDir, [''tmp'', ''a''] \<mapsto> NLink [''etc'', ''x''], [''etc''] \<mapsto> NDir, [''etc'', ''x''] \<mapsto> NFile ''old''] of
     (d, res) \<Rightarrow> d [''etc'', ''x''] = Some (NFile (replicate 10 (CHR ''x''))) \<and> res = Inr [[''tmp'', ''a'']]"
  by code_simp

text \<open>
  C24: A pull that fails leaves no trace: either the disk is as it was, or nothing at all is left under
  the destination, provided the system lets the clean-up remove it. The disk is well-formed: what there is
  has a folder above it.
\<close>

theorem failed_pull_leaves_nothing:
  assumes "pull_with_options lower rd io opt m dest r d = (d', Inl e)" "io (IoRemove dest)" "disk_ok d"
  shows "d' = d \<or> (\<forall>q. starts_with q dest \<longrightarrow> d' q = None)"
  by (rule pull_failed_clean [OF assms])

definition silent_reader :: "unit reader" where
  "silent_reader = \<lparr>rd_cancelled = (\<lambda>r. False), rd_read = (\<lambda>r i offset want. (r, TimedOut))\<rparr>"

lemma failed_pull_leaves_nothing_witness:
  "fst (pull_with_options id silent_reader (\<lambda>_. True) \<lparr>po_max_bytes = 5, po_seq = 1\<rparr> overrun_manifest [''tmp''] () [[] \<mapsto> NDir]) [''tmp'', ''a''] = None"
proof -
  let ?p = "pull_with_options id silent_reader (\<lambda>_. True) \<lparr>po_max_bytes = 5, po_seq = 1\<rparr> overrun_manifest [''tmp''] () [[] \<mapsto> NDir]"
  have "case snd ?p of Inl PTimeout \<Rightarrow> True | _ \<Rightarrow> False" by code_simp
  then have "?p = (fst ?p, Inl PTimeout)" by (cases ?p) (auto split: sum.splits pull_error.splits)
  from failed_pull_leaves_nothing [OF this _ empty_disk_ok] show ?thesis by (auto simp: starts_with_def)
qed

end
