(* ===== verification/Clip_Share.thy ===== *)
theory Clip_Share
  imports Chunks
begin

text \<open>
  \<^verbatim>\<open>crates/geserdesk-clipboard/src/lib.rs\<close> and \<^verbatim>\<open>inbound.rs\<close>: the limits of sharing, what of a copy
  fits them, the chunk stream that carries a copy and the side that puts it together again.
\<close>

section \<open>Limits\<close>

definition HARD_MAX_BYTES :: nat where
  "HARD_MAX_BYTES = 16 * 1024 * 1024"

definition HARD_FILES_MAX_BYTES :: nat where
  "HARD_FILES_MAX_BYTES = 256 * 1024 * 1024"

definition effective_max :: "nat \<Rightarrow> nat" where
  "effective_max configured = (if configured = 0 then HARD_MAX_BYTES else min configured HARD_MAX_BYTES)"

definition effective_files_max :: "nat \<Rightarrow> nat" where
  "effective_files_max configured = (if configured = 0 then HARD_FILES_MAX_BYTES else min configured HARD_FILES_MAX_BYTES)"

lemma effective_max_bounds: "0 < effective_max n" "effective_max n \<le> HARD_MAX_BYTES" "0 < n \<Longrightarrow> effective_max n \<le> n"
  by (auto simp: effective_max_def HARD_MAX_BYTES_def)

lemma effective_files_max_bounds:
  "0 < effective_files_max n" "effective_files_max n \<le> HARD_FILES_MAX_BYTES" "0 < n \<Longrightarrow> effective_files_max n \<le> n"
  by (auto simp: effective_files_max_def HARD_FILES_MAX_BYTES_def)

text \<open>All of a copy, or without its style, or just its text, or nothing.\<close>

definition fit :: "postcard \<Rightarrow> content \<Rightarrow> nat \<Rightarrow> content option" where
  "fit pc c max_bytes =
     find (\<lambda>c. \<not> cc_is_empty pc c \<and> cc_data_len c \<le> max_bytes) [c, cc_without_html c, cc_text_only c]"

definition outbound :: "postcard \<Rightarrow> content \<Rightarrow> chunk list" where
  "outbound pc c = chunk_stream (pc_enc_content pc c)"

lemma fit_Some:
  assumes "fit pc c max_bytes = Some d"
  shows "\<not> cc_is_empty pc d \<and> cc_data_len d \<le> max_bytes \<and> set (cc_items d) \<subseteq> set (cc_items c)"
proof -
  have "d \<in> {c, cc_without_html c, cc_text_only c}" "\<not> cc_is_empty pc d \<and> cc_data_len d \<le> max_bytes"
    using find_SomeD [OF assms [unfolded fit_def]] by auto
  then show ?thesis using cc_text_only_items by (auto simp: cc_without_html_def)
qed

lemma fit_whole: "\<not> cc_is_empty pc c \<Longrightarrow> cc_data_len c \<le> max_bytes \<Longrightarrow> fit pc c max_bytes = Some c"
  by (simp add: fit_def)

text \<open>The text is the last to go: a copy whose text fits is never refused.\<close>

lemma fit_keeps_text:
  assumes "cc_text c = Some t" "t \<noteq> []" "utf8_valid t" "length t \<le> max_bytes"
  shows "\<exists>d. fit pc c max_bytes = Some d"
proof -
  have "cc_text_only c = \<lparr>cc_items = [\<lparr>ci_mime = MIME_TEXT, ci_data = t\<rparr>]\<rparr>"
    using assms by (simp add: cc_text_only_def cc_new_def item_of_def)
  then have "\<not> cc_is_empty pc (cc_text_only c)" "cc_data_len (cc_text_only c) \<le> max_bytes"
    using assms by (simp_all add: cc_is_empty_def cc_text_def cc_string_def cc_find_def cc_data_len_def)
  then show ?thesis by (simp add: fit_def)
qed

section \<open>The receiving side\<close>

definition ENCODING_SLACK :: nat where
  "ENCODING_SLACK = 4096"

datatype inbound_error = Chunks chunk_error | Malformed

text \<open>The transfer in progress: its number, the limit on its data, and what has arrived.\<close>

type_synonym inbound = "(nat \<times> nat \<times> assembler) option"

definition inb_new :: inbound where
  "inb_new = None"

definition saturating_add :: "nat \<Rightarrow> nat \<Rightarrow> nat" where
  "saturating_add a b = min (a + b) 18446744073709551615"

definition inb_grab :: "clipboard_id \<Rightarrow> nat \<Rightarrow> nat \<Rightarrow> inbound" where
  "inb_grab cid seq max_bytes =
     (if cid = Clipboard then Some (seq, max_bytes, as_with_limit (saturating_add max_bytes ENCODING_SLACK)) else None)"

definition inb_data :: "postcard \<Rightarrow> inbound \<Rightarrow> clipboard_id \<Rightarrow> nat \<Rightarrow> chunk \<Rightarrow> inbound \<times> (inbound_error + content option)" where
  "inb_data pc inb cid seq c =
     (case inb of
        None \<Rightarrow> (inb, Inr None)
      | Some (current, max_bytes, asm) \<Rightarrow>
          if cid \<noteq> Clipboard \<or> seq \<noteq> current then (inb, Inr None)
          else case as_push asm c of
            (asm', Inr None) \<Rightarrow> (Some (current, max_bytes, asm'), Inr None)
          | (asm', Inr (Some bs)) \<Rightarrow>
              (None,
               case pc_dec_content pc bs of
                 None \<Rightarrow> Inl Malformed
               | Some ct \<Rightarrow> if cc_data_len ct > max_bytes then Inl (Chunks (TooLarge max_bytes)) else Inr (Some ct))
          | (asm', Inl e) \<Rightarrow> (None, Inl (Chunks e)))"

text \<open>What a session feeds it: grabs and data, each with the clipboard and the transfer it names.\<close>

datatype clip_msg = Grab clipboard_id nat | Chunk clipboard_id nat chunk

fun inb_step :: "postcard \<Rightarrow> nat \<Rightarrow> inbound \<Rightarrow> clip_msg \<Rightarrow> inbound \<times> (inbound_error + content option)" where
  "inb_step pc mx inb (Grab cid seq) = (inb_grab cid seq mx, Inr None)"
| "inb_step pc mx inb (Chunk cid seq c) = inb_data pc inb cid seq c"

fun inb_run :: "postcard \<Rightarrow> nat \<Rightarrow> inbound \<Rightarrow> clip_msg list \<Rightarrow> inbound \<times> (inbound_error + content) list" where
  "inb_run pc mx inb [] = (inb, [])"
| "inb_run pc mx inb (m # ms) =
     (let (inb, r) = inb_step pc mx inb m; (inb, rs) = inb_run pc mx inb ms
      in (inb, (case r of Inl e \<Rightarrow> [Inl e] | Inr None \<Rightarrow> [] | Inr (Some c) \<Rightarrow> [Inr c]) @ rs))"

lemma inb_run_append:
  "inb_run pc mx inb (xs @ ys) =
     (let (inb1, rs1) = inb_run pc mx inb xs; (inb2, rs2) = inb_run pc mx inb1 ys in (inb2, rs1 @ rs2))"
  by (induction xs arbitrary: inb) (auto simp: Let_def split: prod.split)

definition transfer :: "postcard \<Rightarrow> nat \<Rightarrow> content \<Rightarrow> clip_msg list" where
  "transfer pc seq ct = Grab Clipboard seq # map (Chunk Clipboard seq) (outbound pc ct)"

text \<open>The limit on the data allows a copy that fits it: the encoding adds no more than the slack.\<close>

definition shareable :: "postcard \<Rightarrow> nat \<Rightarrow> content \<Rightarrow> bool" where
  "shareable pc mx ct \<longleftrightarrow> cc_data_len ct \<le> mx \<and> length (pc_enc_content pc ct) \<le> saturating_add mx ENCODING_SLACK"

lemma inb_data_stream:
  assumes "as_limit asm = 0 \<or> length (as_buf asm) + length (concat ds) \<le> as_limit asm" "as_started asm" "\<not> as_finished asm"
    and "as_expected asm = 0 \<or> as_expected asm = length (as_buf asm @ concat ds)"
    and "pc_dec_content pc (as_buf asm @ concat ds) = Some ct" "cc_data_len ct \<le> mb"
  shows "inb_run pc mx (Some (seq, mb, asm)) (map (Chunk Clipboard seq) (map Data ds @ [End])) = (None, [Inr ct])"
  using assms
proof (induction ds arbitrary: asm)
  case Nil
  then show ?case by (auto simp: inb_data_def)
next
  case (Cons d ds)
  have "inb_run pc mx (Some (seq, mb, asm\<lparr>as_buf := as_buf asm @ d\<rparr>)) (map (Chunk Clipboard seq) (map Data ds @ [End])) = (None, [Inr ct])"
    using Cons.prems by (intro Cons.IH) auto
  then show ?case using Cons.prems by (auto simp: inb_data_def Let_def)
qed

lemma inb_run_transfer:
  assumes "shareable pc mx ct" "pc_dec_content pc (pc_enc_content pc ct) = Some ct"
  shows "inb_run pc mx inb (transfer pc seq ct) = (None, [Inr ct])"
proof -
  let ?bs = "pc_enc_content pc ct" and ?lim = "saturating_add mx ENCODING_SLACK"
  let ?asm = "(as_with_limit ?lim)\<lparr>as_started := True, as_expected := length ?bs, as_reserved := min (length ?bs) MAX_PREALLOCATE\<rparr>"
  have c: "concat (slice_chunks CHUNK_SIZE ?bs) = ?bs" by (rule concat_slice_chunks) (simp add: CHUNK_SIZE_def)
  have "inb_run pc mx (Some (seq, mx, ?asm)) (map (Chunk Clipboard seq) (map Data (slice_chunks CHUNK_SIZE ?bs) @ [End])) = (None, [Inr ct])"
    using assms by (intro inb_data_stream) (auto simp: c as_with_limit_def as_new_def shareable_def)
  moreover have "inb_data pc (inb_grab Clipboard seq mx) Clipboard seq (Start (length ?bs)) = (Some (seq, mx, ?asm), Inr None)"
    using assms by (auto simp: inb_grab_def inb_data_def as_with_limit_def as_new_def shareable_def)
  ultimately show ?thesis by (simp add: transfer_def outbound_def chunk_stream_def Let_def)
qed

text \<open>A sequence of whole transfers is received one by one.\<close>

lemma inb_run_transfers:
  assumes "\<forall>(seq, ct) \<in> set ts. shareable pc mx ct \<and> pc_dec_content pc (pc_enc_content pc ct) = Some ct"
  shows "snd (inb_run pc mx inb (concat (map (\<lambda>(seq, ct). transfer pc seq ct) ts))) = map (\<lambda>(seq, ct). Inr ct) ts"
  using assms
proof (induction ts arbitrary: inb)
  case (Cons t ts)
  obtain seq ct where t: "t = (seq, ct)" by (cases t)
  show ?case
    using inb_run_transfer [of pc mx ct inb seq] Cons.IH [of None] Cons.prems
    by (auto simp: t inb_run_append split: prod.split)
qed simp

text \<open>Whatever arrives, a copy that is handed on has no more data than the limit allows.\<close>

definition inb_ok :: "nat \<Rightarrow> inbound \<Rightarrow> bool" where
  "inb_ok mx inb \<longleftrightarrow> (\<forall>s m a. inb = Some (s, m, a) \<longrightarrow> m = mx \<and> as_inv a \<and> as_limit a = saturating_add mx ENCODING_SLACK)"

lemma inb_data_ok:
  assumes "inb_ok mx inb"
  shows "inb_ok mx (fst (inb_data pc inb cid seq c))"
proof (cases inb)
  case None
  then show ?thesis by (simp add: inb_data_def inb_ok_def)
next
  case (Some x)
  obtain s m a where x: "x = (s, m, a)" by (cases x)
  have a: "m = mx" "as_inv a" "as_limit a = saturating_add mx ENCODING_SLACK" using assms Some x by (auto simp: inb_ok_def)
  obtain a' r where p: "as_push a c = (a', r)" by fastforce
  have a': "as_inv a'" "as_limit a' = saturating_add mx ENCODING_SLACK"
    using as_push_inv [OF a(2), of c] as_push_limit [of a c] a(3) p by simp_all
  show ?thesis
  proof (cases "cid \<noteq> Clipboard \<or> seq \<noteq> s")
    case True
    then have "inb_data pc inb cid seq c = (inb, Inr None)" using Some x by (auto simp: inb_data_def)
    then show ?thesis using assms by simp
  next
    case False
    then show ?thesis using Some x p a(1) a' by (cases r) (auto simp: inb_data_def inb_ok_def split: option.split)
  qed
qed

lemma inb_step_ok: "inb_ok mx inb \<Longrightarrow> inb_ok mx (fst (inb_step pc mx inb m))"
  using as_inv_new [of "saturating_add mx ENCODING_SLACK"]
  by (cases m) (auto simp: inb_data_ok, auto simp: inb_ok_def inb_grab_def as_with_limit_def as_new_def)

lemma inb_step_bound: "inb_ok mx inb \<Longrightarrow> inb_step pc mx inb m = (inb', Inr (Some ct)) \<Longrightarrow> cc_data_len ct \<le> mx"
  by (cases m) (auto simp: inb_ok_def inb_data_def split: option.splits prod.splits sum.splits if_splits)

lemma inb_run_bound: "inb_ok mx inb \<Longrightarrow> Inr ct \<in> set (snd (inb_run pc mx inb ms)) \<Longrightarrow> cc_data_len ct \<le> mx"
proof (induction ms arbitrary: inb)
  case (Cons m ms)
  obtain inb1 r where s: "inb_step pc mx inb m = (inb1, r)" by fastforce
  have ok: "inb_ok mx inb1" using inb_step_ok [OF Cons.prems(1), of pc m] s by simp
  from Cons.prems(2) s have "r = Inr (Some ct) \<or> Inr ct \<in> set (snd (inb_run pc mx inb1 ms))"
    by (auto simp: Let_def split: sum.splits option.splits prod.splits)
  then show ?case using inb_step_bound [OF Cons.prems(1)] s Cons.IH [OF ok] by blast
qed simp

end
