(* ===== verification/Sync.thy ===== *)
theory Sync
  imports Clip_Share Stage
begin

text \<open>
  \<^verbatim>\<open>crates/geserdesk-clipboard/src/sync.rs\<close> and the in-memory clipboard of \<^verbatim>\<open>system.rs\<close>: change
  detection and loop suppression over one operating-system clipboard. The \<^verbatim>\<open>Clipboard\<close> trait is a
  record of operations on a clipboard of any type, each with its own state change, as \<^verbatim>\<open>&mut self\<close>
  allows; the hashes of the standard library are parameters.
\<close>

section \<open>The trait\<close>

datatype 'a io_result = IoOk 'a | IoErr

record 'c os_clipboard =
  oc_get :: "'c \<Rightarrow> 'c \<times> content option io_result"
  oc_set :: "'c \<Rightarrow> content \<Rightarrow> 'c \<times> unit io_result"
  oc_file_list :: "'c \<Rightarrow> 'c \<times> path list option io_result"
  oc_set_file_list :: "'c \<Rightarrow> path list \<Rightarrow> 'c \<times> unit io_result"
  oc_change_count :: "'c \<Rightarrow> 'c \<times> nat option"

text \<open>The operations a clipboard that holds no files and gives no change signal leaves to the trait.\<close>

definition plain_clipboard ::
  "('c \<Rightarrow> 'c \<times> content option io_result) \<Rightarrow> ('c \<Rightarrow> content \<Rightarrow> 'c \<times> unit io_result) \<Rightarrow> 'c os_clipboard" where
  "plain_clipboard g p =
     \<lparr>oc_get = g, oc_set = p, oc_file_list = (\<lambda>c. (c, IoOk None)),
      oc_set_file_list = (\<lambda>c _. (c, IoErr)), oc_change_count = (\<lambda>c. (c, None))\<rparr>"

record hashes =
  hs_content :: "content \<Rightarrow> nat"
  hs_paths :: "path list \<Rightarrow> nat"

record 'c sync =
  sy_clip :: 'c
  sy_seen :: "nat option"
  sy_refused :: "nat option"
  sy_count :: "nat option"
  sy_files_seen :: "nat option"
  sy_files_count :: "nat option"

definition sy_new :: "'c \<Rightarrow> 'c sync" where
  "sy_new c = \<lparr>sy_clip = c, sy_seen = None, sy_refused = None, sy_count = None, sy_files_seen = None, sy_files_count = None\<rparr>"

section \<open>Operations\<close>

definition sy_prime :: "'c os_clipboard \<Rightarrow> hashes \<Rightarrow> 'c sync \<Rightarrow> 'c sync" where
  "sy_prime oc hs s =
     (let (c, count) = oc_change_count oc (sy_clip s);
          (c, got) = oc_get oc c
      in s\<lparr>sy_clip := c, sy_count := count,
           sy_seen := (case got of IoOk (Some ct) \<Rightarrow> Some (hs_content hs ct) | _ \<Rightarrow> None)\<rparr>)"

definition sy_prime_files :: "'c os_clipboard \<Rightarrow> hashes \<Rightarrow> 'c sync \<Rightarrow> 'c sync" where
  "sy_prime_files oc hs s =
     (let (c, count) = oc_change_count oc (sy_clip s);
          (c, got) = oc_file_list oc c
      in s\<lparr>sy_clip := c, sy_files_count := count,
           sy_files_seen := (case got of IoOk (Some ps) \<Rightarrow> if ps \<noteq> [] then Some (hs_paths hs ps) else None | _ \<Rightarrow> None)\<rparr>)"

definition sy_poll :: "postcard \<Rightarrow> 'c os_clipboard \<Rightarrow> hashes \<Rightarrow> nat \<Rightarrow> 'c sync \<Rightarrow> 'c sync \<times> content option" where
  "sy_poll pc oc hs max_bytes s =
     (let (c, count) = oc_change_count oc (sy_clip s); s = s\<lparr>sy_clip := c\<rparr>
      in if count \<noteq> None \<and> count = sy_count s then (s, None)
         else let s = s\<lparr>sy_count := count\<rparr>; (c, got) = oc_get oc (sy_clip s); s = s\<lparr>sy_clip := c\<rparr>
              in case got of
                   IoErr \<Rightarrow> (s, None)
                 | IoOk None \<Rightarrow> (s, None)
                 | IoOk (Some ct) \<Rightarrow>
                     (let h = hs_content hs ct
                      in if sy_seen s = Some h then (s, None)
                         else let s = s\<lparr>sy_seen := Some h\<rparr>
                              in if cc_is_empty pc ct then (s, None)
                                 else case fit pc ct max_bytes of
                                   Some fitted \<Rightarrow> (s, Some fitted)
                                 | None \<Rightarrow> (if sy_refused s \<noteq> Some h then s\<lparr>sy_refused := Some h\<rparr> else s, None)))"

definition sy_poll_files :: "'c os_clipboard \<Rightarrow> hashes \<Rightarrow> 'c sync \<Rightarrow> 'c sync \<times> path list option" where
  "sy_poll_files oc hs s =
     (let (c, count) = oc_change_count oc (sy_clip s); s = s\<lparr>sy_clip := c\<rparr>
      in if count \<noteq> None \<and> count = sy_files_count s then (s, None)
         else let s = s\<lparr>sy_files_count := count\<rparr>; (c, got) = oc_file_list oc (sy_clip s); s = s\<lparr>sy_clip := c\<rparr>
              in case got of
                   IoErr \<Rightarrow> (s, None)
                 | IoOk None \<Rightarrow> (s, None)
                 | IoOk (Some ps) \<Rightarrow>
                     if ps = [] then (s, None)
                     else let h = hs_paths hs ps
                          in if sy_files_seen s = Some h then (s, None)
                             else (s\<lparr>sy_files_seen := Some h\<rparr>, Some ps))"

definition sy_apply_files :: "'c os_clipboard \<Rightarrow> hashes \<Rightarrow> path list \<Rightarrow> 'c sync \<Rightarrow> 'c sync \<times> unit io_result" where
  "sy_apply_files oc hs ps s =
     (case oc_set_file_list oc (sy_clip s) ps of
        (c, IoErr) \<Rightarrow> (s\<lparr>sy_clip := c\<rparr>, IoErr)
      | (c, IoOk _) \<Rightarrow>
          (let (c, got) = oc_file_list oc c;
               s = s\<lparr>sy_files_seen := Some (case got of IoOk (Some now) \<Rightarrow> if now \<noteq> [] then hs_paths hs now else hs_paths hs ps
                                            | _ \<Rightarrow> hs_paths hs ps)\<rparr>;
               (c, count) = oc_change_count oc c
           in (s\<lparr>sy_clip := c, sy_files_count := count\<rparr>, IoOk ())))"

definition sy_apply :: "'c os_clipboard \<Rightarrow> hashes \<Rightarrow> content \<Rightarrow> 'c sync \<Rightarrow> 'c sync \<times> unit io_result" where
  "sy_apply oc hs ct s =
     (case oc_set oc (sy_clip s) ct of
        (c, IoErr) \<Rightarrow> (s\<lparr>sy_clip := c\<rparr>, IoErr)
      | (c, IoOk _) \<Rightarrow>
          (let (c, got) = oc_get oc c;
               s = s\<lparr>sy_seen := Some (case got of IoOk (Some now) \<Rightarrow> hs_content hs now | _ \<Rightarrow> hs_content hs ct)\<rparr>;
               (c, count) = oc_change_count oc c
           in (s\<lparr>sy_clip := c, sy_count := count\<rparr>, IoOk ())))"

named_theorems sync_defs \<open>the operations of change detection\<close>

lemmas [sync_defs] = sy_prime_def sy_prime_files_def sy_poll_def sy_poll_files_def sy_apply_files_def sy_apply_def

text \<open>What is reported is worth sharing, whatever the clipboard does.\<close>

lemma sy_poll_Some:
  assumes "sy_poll pc oc hs mx s = (s', Some ct)"
  shows "\<not> cc_is_empty pc ct \<and> cc_data_len ct \<le> mx"
  using assms fit_Some by (fastforce simp: sy_poll_def Let_def split: prod.splits io_result.splits option.splits if_splits)

section \<open>A clipboard that answers the same until it is changed\<close>

text \<open>
  What loop suppression relies on: looking changes nothing. What a write leaves is up to the clipboard.
\<close>

locale stable_clipboard =
  fixes oc :: "'c os_clipboard"
  assumes get_looks: "fst (oc_get oc c) = c"
    and file_list_looks: "fst (oc_file_list oc c) = c"
    and change_count_looks: "fst (oc_change_count oc c) = c"
begin

text \<open>After a write, or after a look, the next look reports nothing new.\<close>

lemma apply_not_echoed:
  assumes "sy_apply oc hs ct s = (s', IoOk ())"
  shows "snd (sy_poll pc oc hs mx s') = None"
proof -
  obtain c u where st: "oc_set oc (sy_clip s) ct = (c, u)" by fastforce
  have fst_eq: "fst p = a \<Longrightarrow> \<exists>b. p = (a, b)" for p :: "'x \<times> 'y" and a by (cases p) auto
  obtain got where g: "oc_get oc c = (c, got)" using fst_eq [OF get_looks] by blast
  obtain n where n: "oc_change_count oc c = (c, n)" using fst_eq [OF change_count_looks] by blast
  have s': "sy_clip s' = c" "sy_count s' = n"
    "sy_seen s' = Some (case got of IoOk (Some now) \<Rightarrow> hs_content hs now | _ \<Rightarrow> hs_content hs ct)"
    using assms(1) st g n by (auto simp: sy_apply_def Let_def split: io_result.splits)
  then show ?thesis using g n by (auto simp: sy_poll_def Let_def split: io_result.splits option.splits)
qed

lemma apply_files_not_echoed:
  assumes "sy_apply_files oc hs ps s = (s', IoOk ())"
  shows "snd (sy_poll_files oc hs s') = None"
proof -
  obtain c u where st: "oc_set_file_list oc (sy_clip s) ps = (c, u)" by fastforce
  have fst_eq: "fst p = a \<Longrightarrow> \<exists>b. p = (a, b)" for p :: "'x \<times> 'y" and a by (cases p) auto
  obtain got where g: "oc_file_list oc c = (c, got)" using fst_eq [OF file_list_looks] by blast
  obtain n where n: "oc_change_count oc c = (c, n)" using fst_eq [OF change_count_looks] by blast
  have s': "sy_clip s' = c" "sy_files_count s' = n"
    "sy_files_seen s' = Some (case got of IoOk (Some now) \<Rightarrow> if now \<noteq> [] then hs_paths hs now else hs_paths hs ps | _ \<Rightarrow> hs_paths hs ps)"
    using assms(1) st g n by (auto simp: sy_apply_files_def Let_def split: io_result.splits)
  then show ?thesis using g n by (auto simp: sy_poll_files_def Let_def split: io_result.splits option.splits)
qed

lemma poll_reports_once:
  assumes "sy_poll pc oc hs mx s = (s', r)"
  shows "snd (sy_poll pc oc hs mx s') = None"
proof -
  have fst_eq: "fst p = a \<Longrightarrow> \<exists>b. p = (a, b)" for p :: "'x \<times> 'y" and a by (cases p) auto
  obtain got where g: "oc_get oc (sy_clip s) = (sy_clip s, got)" using fst_eq [OF get_looks] by blast
  obtain n where n: "oc_change_count oc (sy_clip s) = (sy_clip s, n)" using fst_eq [OF change_count_looks] by blast
  show ?thesis
    using assms g n
    by (auto simp: sy_poll_def Let_def split: if_splits io_result.splits option.splits) (metis (no_types))+
qed

lemma poll_reports_new:
  assumes "snd (oc_get oc (sy_clip s)) = IoOk (Some ct)" "sy_seen s \<noteq> Some (hs_content hs ct)"
    and "snd (oc_change_count oc (sy_clip s)) = None \<or> snd (oc_change_count oc (sy_clip s)) \<noteq> sy_count s"
    and "\<not> cc_is_empty pc ct"
  shows "snd (sy_poll pc oc hs mx s) = fit pc ct mx"
proof -
  have fst_eq: "fst p = a \<Longrightarrow> \<exists>b. p = (a, b)" for p :: "'x \<times> 'y" and a by (cases p) auto
  obtain got where g: "oc_get oc (sy_clip s) = (sy_clip s, got)" using fst_eq [OF get_looks] by blast
  obtain n where n: "oc_change_count oc (sy_clip s) = (sy_clip s, n)" using fst_eq [OF change_count_looks] by blast
  show ?thesis using assms g n by (auto simp: sy_poll_def Let_def split: option.split)
qed

end

section \<open>The clipboard held in memory\<close>

record slot =
  sl_content :: "content option"
  sl_files :: "path list option"

definition mem_new :: slot where
  "mem_new = \<lparr>sl_content = None, sl_files = None\<rparr>"

definition mem_clipboard :: "slot os_clipboard" where
  "mem_clipboard =
     \<lparr>oc_get = (\<lambda>s. (s, IoOk (if (case sl_files s of Some ps \<Rightarrow> ps \<noteq> [] | None \<Rightarrow> False) then None else sl_content s))),
      oc_set = (\<lambda>s ct. (s\<lparr>sl_content := Some ct, sl_files := None\<rparr>, IoOk ())),
      oc_file_list = (\<lambda>s. (s, IoOk (sl_files s))),
      oc_set_file_list = (\<lambda>s ps. (s\<lparr>sl_files := Some ps, sl_content := None\<rparr>, IoOk ())),
      oc_change_count = (\<lambda>s. (s, None))\<rparr>"

text \<open>What a user's own copy does: of text, of text from a web page, of a picture, of files.\<close>

definition mem_copy :: "slot \<Rightarrow> string \<Rightarrow> slot" where
  "mem_copy s t = s\<lparr>sl_content := Some (cc_new (Some t) None), sl_files := None\<rparr>"

definition mem_copy_html :: "slot \<Rightarrow> string \<Rightarrow> string \<Rightarrow> slot" where
  "mem_copy_html s t h = s\<lparr>sl_content := Some (cc_new (Some t) (Some h)), sl_files := None\<rparr>"

definition mem_copy_image :: "slot \<Rightarrow> bytes \<Rightarrow> slot" where
  "mem_copy_image s png = s\<lparr>sl_content := Some (cc_with_image cc_default png), sl_files := None\<rparr>"

definition mem_copy_files :: "slot \<Rightarrow> path list \<Rightarrow> slot" where
  "mem_copy_files s ps = s\<lparr>sl_files := Some ps, sl_content := None\<rparr>"

interpretation mem: stable_clipboard mem_clipboard
  by unfold_locales (simp_all add: mem_clipboard_def)

end
