(* ===== verification/Relay.thy ===== *)
theory Relay
  imports File_Router Sync
begin

text \<open>
  \<^verbatim>\<open>crates/geserdesk-server/src/clipboard.rs\<close>: the one task that shares the clipboard. It looks at
  the server's clipboard at every tick and takes what the clients push, and sends each copy on as one
  numbered transfer. The tree a tick would walk below a copied path is the function \<open>look\<close>.
\<close>

section \<open>State\<close>

record 'c relay =
  rl_router :: file_router \<comment> \<open>with the hub inside\<close>
  rl_sync :: "'c sync"
  rl_seq :: nat

record 'c relay_env =
  re_pc :: postcard
  re_oc :: "'c os_clipboard"
  re_hs :: hashes
  re_files :: bool \<comment> \<open>copies of files are shared\<close>
  re_max :: nat
  re_files_max :: nat

definition messages :: "postcard \<Rightarrow> nat \<Rightarrow> content \<Rightarrow> server_msg list" where
  "messages pc seq ct = SClipboardGrab Clipboard seq # map (SClipboardData Clipboard seq) (outbound pc ct)"

section \<open>Operations\<close>

text \<open>The number of the next transfer, and sending a copy under it.\<close>

definition next_seq :: "'c relay \<Rightarrow> 'c relay" where
  "next_seq r = r\<lparr>rl_seq := u64 (rl_seq r + 1)\<rparr>"

definition share :: "postcard \<Rightarrow> string option \<Rightarrow> content \<Rightarrow> 'c relay \<Rightarrow> 'c relay" where
  "share pc except ct r =
     r\<lparr>rl_router := (rl_router r)\<lparr>fr_hub := broadcast_except (fr_hub (rl_router r)) except (messages pc (rl_seq r) ct)\<rparr>\<rparr>"

definition relay_start :: "'c relay_env \<Rightarrow> file_router \<Rightarrow> 'c sync \<Rightarrow> 'c relay" where
  "relay_start env fr sy =
     (let sy = sy_prime (re_oc env) (re_hs env) sy;
          sy = (if re_files env then sy_prime_files (re_oc env) (re_hs env) sy else sy)
      in \<lparr>rl_router = fr, rl_sync = sy, rl_seq = 0\<rparr>)"

definition offer_files :: "'c relay_env \<Rightarrow> file_manifest \<Rightarrow> path list \<Rightarrow> 'c relay \<Rightarrow> 'c relay" where
  "offer_files env m ps r =
     (let r = next_seq r;
          r = r\<lparr>rl_router := (rl_router r)\<lparr>fr_local := fo_set (rl_seq r) m ps\<rparr>\<rparr>;
          r = r\<lparr>rl_router := fr_announce (rl_router r) OwnServer (rl_seq r) m\<rparr>
      in share (re_pc env) None (cc_with_files (re_pc env) m) r)"

definition poll_text :: "'c relay_env \<Rightarrow> 'c relay \<Rightarrow> 'c relay" where
  "poll_text env r =
     (case sy_poll (re_pc env) (re_oc env) (re_hs env) (effective_max (re_max env)) (rl_sync r) of
        (sy, None) \<Rightarrow> r\<lparr>rl_sync := sy\<rparr>
      | (sy, Some ct) \<Rightarrow> share (re_pc env) None ct (next_seq (r\<lparr>rl_sync := sy\<rparr>)))"

definition relay_tick :: "'c relay_env \<Rightarrow> (path \<Rightarrow> tree) \<Rightarrow> 'c relay \<Rightarrow> 'c relay" where
  "relay_tick env look r =
     (if re_files env then
        (case sy_poll_files (re_oc env) (re_hs env) (rl_sync r) of
           (sy, None) \<Rightarrow> poll_text env (r\<lparr>rl_sync := sy\<rparr>)
         | (sy, Some roots) \<Rightarrow>
             (case collect (map (\<lambda>p. (p, look p)) roots) (effective_files_max (re_files_max env)) of
                Inl e \<Rightarrow> r\<lparr>rl_sync := sy\<rparr>
              | Inr (m, ps) \<Rightarrow> offer_files env m ps (r\<lparr>rl_sync := sy\<rparr>)))
      else poll_text env r)"

definition relay_shared :: "'c relay_env \<Rightarrow> shared_clip \<Rightarrow> 'c relay \<Rightarrow> 'c relay" where
  "relay_shared env sc r =
     (case cc_files (re_pc env) (sc_content sc) of
        Some m \<Rightarrow>
          if \<not> re_files env then r
          else (let r = next_seq r;
                    r = r\<lparr>rl_router := fr_announce (rl_router r) (OwnClient (sc_from sc)) (rl_seq r) m\<rparr>
                in share (re_pc env) None (sc_content sc) r)
      | None \<Rightarrow>
          (let r = r\<lparr>rl_sync := fst (sy_apply (re_oc env) (re_hs env) (sc_content sc) (rl_sync r))\<rparr>
           in share (re_pc env) (Some (sc_from sc)) (sc_content sc) (next_seq r)))"

section \<open>Sessions\<close>

text \<open>
  What happens to the relay: its ticks, the clients' pushes, what a user does to the clipboard, and what
  the rest of the server does to the hub and the file router.
\<close>

datatype 'c relay_event =
    Tick "path \<Rightarrow> tree"
  | Pushed shared_clip
  | UserActs "'c \<Rightarrow> 'c"
  | Elsewhere froute_op

fun relay_step :: "'c relay_env \<Rightarrow> 'c relay \<Rightarrow> 'c relay_event \<Rightarrow> 'c relay" where
  "relay_step env r (Tick look) = relay_tick env look r"
| "relay_step env r (Pushed sc) = relay_shared env sc r"
| "relay_step env r (UserActs f) = r\<lparr>rl_sync := (rl_sync r)\<lparr>sy_clip := f (sy_clip (rl_sync r))\<rparr>\<rparr>"
| "relay_step env r (Elsewhere op) = r\<lparr>rl_router := froute_step (rl_router r) op\<rparr>"

definition relay_run :: "'c relay_env \<Rightarrow> 'c relay \<Rightarrow> 'c relay_event list \<Rightarrow> 'c relay" where
  "relay_run env r es = foldl (relay_step env) r es"

lemma relay_run_snoc [simp]: "relay_run env r (es @ [e]) = relay_step env (relay_run env r es) e"
  by (simp add: relay_run_def)

lemma relay_run_Nil [simp]: "relay_run env r [] = r"
  by (simp add: relay_run_def)

subsection \<open>What of a queue is the clipboard's\<close>

fun clip_of :: "server_msg \<Rightarrow> clip_msg option" where
  "clip_of (SClipboardGrab cid seq) = Some (Grab cid seq)"
| "clip_of (SClipboardData cid seq c) = Some (Chunk cid seq c)"
| "clip_of _ = None"

definition clip_part :: "server_msg list \<Rightarrow> clip_msg list" where
  "clip_part ms = List.map_filter clip_of ms"

lemma clip_part_simps [simp]:
  "clip_part [] = []" "clip_part (xs @ ys) = clip_part xs @ clip_part ys"
  "clip_part (m # ms) = (case clip_of m of None \<Rightarrow> clip_part ms | Some c \<Rightarrow> c # clip_part ms)"
  by (auto simp: clip_part_def map_filter_def split: option.split)

lemma clip_part_messages: "clip_part (messages pc seq ct) = transfer pc seq ct"
proof -
  have "clip_part (map (SClipboardData Clipboard seq) cs) = map (Chunk Clipboard seq) cs" for cs
    by (induction cs) auto
  then show ?thesis by (simp add: messages_def transfer_def)
qed

lemma clip_part_none: "\<forall>m \<in> set ms. clip_of m = None \<Longrightarrow> clip_part ms = []"
  by (induction ms) auto

text \<open>The rest of the server sends no clipboard messages.\<close>

fun hub_noclip :: "hub_op \<Rightarrow> bool" where
  "hub_noclip (OSend n m) \<longleftrightarrow> clip_of m = None"
| "hub_noclip (OBroadcast ex ms) \<longleftrightarrow> list_all (\<lambda>m. clip_of m = None) ms"
| "hub_noclip _ \<longleftrightarrow> True"

fun event_noclip :: "'c relay_event \<Rightarrow> bool" where
  "event_noclip (Elsewhere (FHub op)) = hub_noclip op"
| "event_noclip _ = True"

subsection \<open>Every queue is a sequence of whole transfers\<close>

definition whole_transfers :: "postcard \<Rightarrow> nat \<Rightarrow> clip_msg list \<Rightarrow> bool" where
  "whole_transfers pc hi ms \<longleftrightarrow>
     (\<exists>ts. ms = concat (map (\<lambda>(seq, ct). transfer pc seq ct) ts) \<and> sorted_wrt (<) (map fst ts) \<and> (\<forall>t \<in> set ts. fst t \<le> hi))"

lemma whole_Nil [simp]: "whole_transfers pc hi []"
  unfolding whole_transfers_def by (intro exI [of _ "[]"]) simp

lemma whole_mono: "whole_transfers pc hi ms \<Longrightarrow> hi \<le> hi' \<Longrightarrow> whole_transfers pc hi' ms"
  unfolding whole_transfers_def by (elim exE conjE) (intro exI conjI, assumption+, auto)

lemma whole_snoc:
  assumes "whole_transfers pc hi ms" "hi < seq"
  shows "whole_transfers pc seq (ms @ transfer pc seq ct)"
proof -
  obtain ts where ts: "ms = concat (map (\<lambda>(seq, ct). transfer pc seq ct) ts)" "sorted_wrt (<) (map fst ts)" "\<forall>t \<in> set ts. fst t \<le> hi"
    using assms(1) by (auto simp: whole_transfers_def)
  have "sorted_wrt (<) (map fst (ts @ [(seq, ct)]))" using ts(2,3) assms(2) by (auto simp: sorted_wrt_append)
  moreover have "\<forall>t \<in> set (ts @ [(seq, ct)]). fst t \<le> seq" using ts(3) assms(2) by auto
  ultimately show ?thesis unfolding whole_transfers_def using ts(1) by (intro exI [of _ "ts @ [(seq, ct)]"]) simp
qed

definition clip_queue :: "'c relay \<Rightarrow> string \<Rightarrow> clip_msg list" where
  "clip_queue r n = clip_part (hub_delivered (fr_hub (rl_router r)) n)"

definition relay_ok :: "postcard \<Rightarrow> 'c relay \<Rightarrow> bool" where
  "relay_ok pc r \<longleftrightarrow> (\<forall>n. whole_transfers pc (rl_seq r) (clip_queue r n))"

lemma broadcast_delivered:
  "hub_delivered (broadcast_except h ex ms) n = hub_delivered h n @
     (if hub_reachable h n \<and> Some n \<noteq> ex \<and> n \<notin> hb_disabled h then ms else [])"
  by (auto simp: hub_delivered_def hub_reachable_def broadcast_get push_all_def split: option.split)

lemma clip_queue_share:
  "clip_queue (share pc ex ct r) n = clip_queue r n @
     (if hub_reachable (fr_hub (rl_router r)) n \<and> Some n \<noteq> ex \<and> \<not> is_disabled (fr_hub (rl_router r)) n
      then transfer pc (rl_seq r) ct else [])"
  by (simp add: clip_queue_def share_def broadcast_delivered clip_part_messages is_disabled_def)

lemma relay_ok_share:
  assumes "relay_ok pc r0" "rl_seq r0 < rl_seq r" "\<And>n. clip_queue r n = clip_queue r0 n"
  shows "relay_ok pc (share pc ex ct r)"
proof -
  have "whole_transfers pc (rl_seq r) (clip_queue (share pc ex ct r) n)" for n
    using whole_snoc [of pc "rl_seq r0" "clip_queue r0 n" "rl_seq r" ct]
      whole_mono [of pc "rl_seq r0" "clip_queue r0 n" "rl_seq r"] assms
    by (auto simp: clip_queue_share relay_ok_def)
  then show ?thesis by (simp add: relay_ok_def share_def)
qed

lemma share_fields [simp]: "rl_seq (share pc ex ct r) = rl_seq r" "rl_sync (share pc ex ct r) = rl_sync r"
  by (simp_all add: share_def)

lemma next_seq_seq: "rl_seq r + 1 < 2 ^ 64 \<Longrightarrow> rl_seq (next_seq r) = rl_seq r + 1"
  by (simp add: next_seq_def u64_def)

lemma clip_queue_cong: "fr_hub (rl_router r') = fr_hub (rl_router r) \<Longrightarrow> clip_queue r' n = clip_queue r n"
  by (simp add: clip_queue_def)

lemma relay_ok_cong: "fr_hub (rl_router r') = fr_hub (rl_router r) \<Longrightarrow> rl_seq r' = rl_seq r \<Longrightarrow> relay_ok pc r' = relay_ok pc r"
  by (simp add: relay_ok_def clip_queue_def)

definition queue_kept :: "hub \<Rightarrow> hub \<Rightarrow> bool" where
  "queue_kept h h' \<longleftrightarrow> (\<forall>n. clip_part (hub_delivered h' n) = clip_part (hub_delivered h n) \<or> clip_part (hub_delivered h' n) = [])"

lemma queue_kept_refl [simp]: "queue_kept h h"
  by (simp add: queue_kept_def)

lemma queue_kept_trans: "queue_kept h h' \<Longrightarrow> queue_kept h' h'' \<Longrightarrow> queue_kept h h''"
  unfolding queue_kept_def by metis

lemma queue_kept_send: "clip_of m = None \<Longrightarrow> queue_kept h (fst (hub_send h n m))"
  by (simp add: queue_kept_def hub_send_delivered)

lemma queue_kept_deliver: "queue_kept (fr_hub s) (fr_hub (fr_deliver s w res))"
  by (auto simp: fr_deliver_def Let_def queue_kept_send split: waiting.split)

lemma queue_kept_deliver_upd: "fr_hub s' = fr_hub s \<Longrightarrow> queue_kept (fr_hub s) (fr_hub (fr_deliver s' w res))"
  using queue_kept_deliver [of s' w res] by simp

lemma queue_kept_fail: "queue_kept (fr_hub s) (fr_hub (fail_pending req s))"
  by (auto simp: fail_pending_def queue_kept_deliver_upd split: option.split)

lemma queue_kept_fold: "queue_kept (fr_hub s) (fr_hub (fold fail_pending rs s))"
proof (induction rs arbitrary: s)
  case (Cons r rs)
  show ?case using queue_kept_trans [OF queue_kept_fail [of s r] Cons.IH] by simp
qed simp

lemma queue_kept_route: "queue_kept (fr_hub s) (fr_hub (fr_route s seq i off len w))"
proof (cases "fr_current_owner s")
  case None
  then show ?thesis by (simp add: fr_route_def queue_kept_deliver)
next
  case (Some ow)
  show ?thesis
  proof (cases ow)
    case OwnServer
    then show ?thesis using Some by (simp add: fr_route_def)
  next
    case (OwnClient name)
    let ?h = "fst (hub_send (fr_hub s) name (SFileRead seq (fr_next s) i off len))"
    let ?s = "s\<lparr>fr_next := u64 (fr_next s + 1),
      fr_pending := bm_insert (fr_next s) \<lparr>pd_sent_to = name, pd_waiting = w\<rparr> (fr_pending s), fr_hub := ?h\<rparr>"
    have k: "queue_kept (fr_hub s) ?h" by (simp add: queue_kept_send)
    then have "queue_kept (fr_hub s) (fr_hub (fail_pending (fr_next s) ?s))"
      using queue_kept_trans [OF _ queue_kept_fail [of ?s "fr_next s"]] by simp
    then show ?thesis using Some OwnClient k by (simp add: fr_route_def Let_def)
  qed
qed

lemma queue_kept_hub:
  assumes "hub_noclip op"
  shows "queue_kept h (hub_step h op)"
proof (cases op)
  case (OSend n m)
  then show ?thesis using assms by (simp add: queue_kept_send)
next
  case (OBroadcast ex ms)
  then have "\<forall>m \<in> set ms. clip_of m = None" using assms by (simp add: list_all_iff)
  then show ?thesis using clip_part_none by (simp add: OBroadcast queue_kept_def broadcast_delivered)
qed (auto simp: queue_kept_def hub_delivered_def hub_defs Let_def split: option.splits)

lemma queue_kept_froute:
  assumes "event_noclip (Elsewhere op :: 'c relay_event)"
  shows "queue_kept (fr_hub s) (fr_hub (froute_step s op))"
proof (cases op)
  case (FDisconnected n)
  then show ?thesis using queue_kept_fold [of "drop_owner s n"] by (simp add: on_disconnected_def Let_def)
next
  case (FRunJob d k)
  then show ?thesis by (simp add: run_job_def Let_def queue_kept_deliver_upd)
next
  case (FReply n req res)
  then show ?thesis by (simp add: reply_from_client_def Let_def queue_kept_deliver_upd split: option.split)
next
  case (FHub hop)
  then show ?thesis using assms queue_kept_hub by simp
qed (simp_all add: fr_announce_def request_for_client_def request_local_def queue_kept_route)

lemma relay_ok_kept:
  assumes "relay_ok pc r" "queue_kept (fr_hub (rl_router r)) (fr_hub (rl_router r'))" "rl_seq r' = rl_seq r"
  shows "relay_ok pc r'"
proof -
  have "whole_transfers pc (rl_seq r) (clip_queue r' n)" for n
  proof -
    have "clip_queue r' n = clip_queue r n \<or> clip_queue r' n = []"
      using assms(2) unfolding queue_kept_def clip_queue_def by blast
    then show ?thesis using assms(1) by (auto simp: relay_ok_def)
  qed
  then show ?thesis using assms(3) by (simp add: relay_ok_def)
qed

lemma relay_ok_poll_text:
  assumes "relay_ok (re_pc env) r" "rl_seq r + 1 < 2 ^ 64"
  shows "relay_ok (re_pc env) (poll_text env r) \<and> rl_seq (poll_text env r) \<le> rl_seq r + 1"
proof -
  obtain sy ct where p: "sy_poll (re_pc env) (re_oc env) (re_hs env) (effective_max (re_max env)) (rl_sync r) = (sy, ct)" by fastforce
  show ?thesis
  proof (cases ct)
    case None
    then show ?thesis using p assms relay_ok_cong [of "r\<lparr>rl_sync := sy\<rparr>" r] by (simp add: poll_text_def)
  next
    case (Some c)
    have s: "rl_seq (next_seq (r\<lparr>rl_sync := sy\<rparr>)) = rl_seq r + 1" using assms(2) by (simp add: next_seq_def u64_def)
    then have "relay_ok (re_pc env) (share (re_pc env) None c (next_seq (r\<lparr>rl_sync := sy\<rparr>)))"
      using assms(1) by (intro relay_ok_share [of _ r]) (simp_all add: next_seq_def clip_queue_def)
    then show ?thesis using Some p s by (simp add: poll_text_def)
  qed
qed

lemma relay_ok_offer:
  assumes "relay_ok (re_pc env) r" "rl_seq r + 1 < 2 ^ 64"
  shows "relay_ok (re_pc env) (offer_files env m ps r) \<and> rl_seq (offer_files env m ps r) = rl_seq r + 1"
proof -
  have s: "rl_seq (next_seq r) = rl_seq r + 1" by (rule next_seq_seq [OF assms(2)])
  show ?thesis
    unfolding offer_files_def Let_def
    using assms(1) s by (intro conjI relay_ok_share [of _ r]) (simp_all add: next_seq_def clip_queue_def fr_announce_def)
qed

lemma relay_step_ok:
  assumes "relay_ok (re_pc env) r" "rl_seq r + 1 < 2 ^ 64" "event_noclip e"
  shows "relay_ok (re_pc env) (relay_step env r e) \<and> rl_seq (relay_step env r e) \<le> rl_seq r + 1"
proof (cases e)
  case (Tick look)
  obtain sy roots where p: "sy_poll_files (re_oc env) (re_hs env) (rl_sync r) = (sy, roots)" by fastforce
  let ?r = "r\<lparr>rl_sync := sy\<rparr>"
  have ok: "relay_ok (re_pc env) ?r" using assms(1) relay_ok_cong [of ?r r] by simp
  show ?thesis
    using relay_ok_poll_text [OF assms(1,2)] relay_ok_poll_text [OF ok] relay_ok_offer [OF ok] ok assms(2) p
    by (cases roots) (auto simp: Tick relay_tick_def split: sum.split prod.split)
next
  case (Pushed sc)
  have s: "rl_seq (next_seq r') = rl_seq r + 1" if "rl_seq r' = rl_seq r" for r' :: "'a relay"
    using assms(2) that next_seq_seq [of r'] by simp
  show ?thesis
  proof (cases "cc_files (re_pc env) (sc_content sc)")
    case None
    let ?r = "r\<lparr>rl_sync := fst (sy_apply (re_oc env) (re_hs env) (sc_content sc) (rl_sync r))\<rparr>"
    have "relay_ok (re_pc env) (share (re_pc env) (Some (sc_from sc)) (sc_content sc) (next_seq ?r))"
      using assms(1) s [of ?r] by (intro relay_ok_share [of _ r]) (simp_all add: next_seq_def clip_queue_def)
    then show ?thesis using None s [of ?r] by (simp add: Pushed relay_shared_def Let_def)
  next
    case (Some m)
    let ?r = "(next_seq r)\<lparr>rl_router := fr_announce (rl_router (next_seq r)) (OwnClient (sc_from sc)) (rl_seq (next_seq r)) m\<rparr>"
    have "relay_ok (re_pc env) (share (re_pc env) None (sc_content sc) ?r)"
      using assms(1) s [of r] by (intro relay_ok_share [of _ r]) (simp_all add: next_seq_def clip_queue_def fr_announce_def)
    then show ?thesis using Some assms(1) s [of r] by (simp add: Pushed relay_shared_def Let_def)
  qed
next
  case (UserActs f)
  have "relay_ok (re_pc env) (relay_step env r e)"
    using assms(1) by (simp add: UserActs relay_ok_def clip_queue_def)
  then show ?thesis by (simp add: UserActs)
next
  case (Elsewhere op)
  have "queue_kept (fr_hub (rl_router r)) (fr_hub (rl_router (relay_step env r e)))"
    using queue_kept_froute [of op "rl_router r"] assms(3) by (simp add: Elsewhere)
  from relay_ok_kept [OF assms(1) this] show ?thesis by (simp add: Elsewhere)
qed

lemma relay_run_ok:
  assumes "relay_ok (re_pc env) r0" "rl_seq r0 = 0"
  shows "length es < 2 ^ 64 \<Longrightarrow> list_all event_noclip es \<Longrightarrow>
    relay_ok (re_pc env) (relay_run env r0 es) \<and> rl_seq (relay_run env r0 es) \<le> length es"
proof (induction es rule: rev_induct)
  case Nil
  then show ?case using assms by simp
next
  case (snoc e es)
  then have "relay_ok (re_pc env) (relay_run env r0 es)" "rl_seq (relay_run env r0 es) \<le> length es" by simp_all
  then show ?case using relay_step_ok [of env "relay_run env r0 es" e] snoc.prems by simp
qed

end
