(* ===== verification/Clip_Spec.thy ===== *)
theory Clip_Spec
  imports Relay
begin

text \<open>What sharing the clipboard promises: whole copies, in order, once, and never more than allowed.\<close>

definition no_clip_yet :: "file_router \<Rightarrow> bool" where
  "no_clip_yet fr \<longleftrightarrow> (\<forall>n. clip_part (hub_delivered (fr_hub fr) n) = [])"

lemma relay_start_ok: "no_clip_yet fr \<Longrightarrow> relay_ok pc (relay_start env fr sy) \<and> rl_seq (relay_start env fr sy) = 0"
  by (simp add: relay_start_def Let_def relay_ok_def clip_queue_def no_clip_yet_def)

text \<open>
  C37: Whatever is copied, pushed, announced, connected or disconnected, in whatever order, a client's
  queue holds whole transfers only, under strictly rising numbers, never two interleaved; and a
  receiver that takes each of them within its limit ends up with exactly those copies, in that order,
  whatever transfer it was in the middle of before.
\<close>

theorem shared_copies_arrive_whole:
  assumes "no_clip_yet fr" "length es < 2 ^ 64" "list_all event_noclip es" "postcard_ok (re_pc env)"
    "r = relay_run env (relay_start env fr sy) es"
  shows "\<exists>ts. clip_queue r n = concat (map (\<lambda>(seq, ct). transfer (re_pc env) seq ct) ts) \<and> sorted_wrt (<) (map fst ts)
    \<and> ((\<forall>(seq, ct) \<in> set ts. shareable (re_pc env) mx ct) \<longrightarrow>
        snd (inb_run (re_pc env) mx inb (clip_queue r n)) = map (\<lambda>(seq, ct). Inr ct) ts)"
proof -
  have start: "relay_ok (re_pc env) (relay_start env fr sy)" "rl_seq (relay_start env fr sy) = 0"
    using relay_start_ok [OF assms(1), of "re_pc env" env sy] by simp_all
  have "relay_ok (re_pc env) r" using relay_run_ok [OF start assms(2,3)] assms(5) by simp
  then obtain ts where ts: "clip_queue r n = concat (map (\<lambda>(seq, ct). transfer (re_pc env) seq ct) ts)" "sorted_wrt (<) (map fst ts)"
    by (auto simp: relay_ok_def whole_transfers_def)
  have "snd (inb_run (re_pc env) mx inb (clip_queue r n)) = map (\<lambda>(seq, ct). Inr ct) ts"
    if "\<forall>(seq, ct) \<in> set ts. shareable (re_pc env) mx ct"
    using inb_run_transfers [of ts "re_pc env" mx inb] that assms(4) by (auto simp: ts(1) postcard_ok_def)
  then show ?thesis using ts by blast
qed

text \<open>An encoding to try it with: the number of items, then each of them behind its two lengths, in unary.\<close>

fun enc_str :: "bytes \<Rightarrow> bytes" where
  "enc_str [] = [CHR 0x00]"
| "enc_str (c # cs) = CHR 0x01 # c # enc_str cs"

fun dec_str :: "bytes \<Rightarrow> (bytes \<times> bytes) option" where
  "dec_str (m # c # rest) =
     (if m = CHR 0x00 then Some ([], c # rest)
      else case dec_str rest of None \<Rightarrow> None | Some (s, r) \<Rightarrow> Some (c # s, r))"
| "dec_str [m] = (if m = CHR 0x00 then Some ([], []) else None)"
| "dec_str [] = None"

lemma dec_enc_str [simp]: "dec_str (enc_str s @ rest) = Some (s, rest)"
  by (induction s) (cases rest, auto)

lemma dec_enc_str_all [simp]: "dec_str (enc_str s) = Some (s, [])"
  using dec_enc_str [of s "[]"] by simp

fun enc_items :: "(bytes \<times> bytes \<times> bool \<times> nat) list \<Rightarrow> bytes" where
  "enc_items [] = [CHR 0x00]"
| "enc_items ((a, b, d, n) # rest) =
     CHR 0x01 # enc_str a @ enc_str b @ enc_str (if d then [CHR 0x01] else []) @ enc_str (replicate n (CHR 0x00)) @ enc_items rest"

fun dec_items :: "nat \<Rightarrow> bytes \<Rightarrow> (bytes \<times> bytes \<times> bool \<times> nat) list option" where
  "dec_items 0 bs = None"
| "dec_items (Suc fuel) [] = None"
| "dec_items (Suc fuel) (c # bs) =
     (if c = CHR 0x00 then Some []
      else case dec_str bs of None \<Rightarrow> None
      | Some (a, bs) \<Rightarrow> (case dec_str bs of None \<Rightarrow> None
      | Some (b, bs) \<Rightarrow> (case dec_str bs of None \<Rightarrow> None
      | Some (d, bs) \<Rightarrow> (case dec_str bs of None \<Rightarrow> None
      | Some (n, bs) \<Rightarrow> (case dec_items fuel bs of None \<Rightarrow> None
      | Some rest \<Rightarrow> Some ((a, b, d \<noteq> [], length n) # rest))))))"

lemma dec_enc_items: "length xs < fuel \<Longrightarrow> dec_items fuel (enc_items xs) = Some xs"
proof (induction xs arbitrary: fuel)
  case Nil
  then show ?case by (cases fuel) auto
next
  case (Cons x xs)
  obtain a b d n where x: "x = (a, b, d, n)" by (cases x)
  obtain f where f: "fuel = Suc f" "length xs < f" using Cons.prems by (cases fuel) auto
  show ?case using Cons.IH [OF f(2)] by (simp add: x f)
qed

lemma length_enc_items: "length xs < length (enc_items xs)"
  by (induction xs rule: enc_items.induct) auto

definition sample_postcard :: postcard where
  "sample_postcard =
     \<lparr>pc_enc_content = (\<lambda>c. enc_items (map (\<lambda>i. (ci_mime i, ci_data i, False, 0)) (cc_items c))),
      pc_dec_content = (\<lambda>bs. map_option (\<lambda>xs. \<lparr>cc_items = map (\<lambda>(a, b, d, n). \<lparr>ci_mime = a, ci_data = b\<rparr>) xs\<rparr>) (dec_items (length bs) bs)),
      pc_enc_manifest = (\<lambda>m. enc_items (map (\<lambda>e. (fe_path e, [], fe_dir e, fe_size e)) (fm_entries m))),
      pc_dec_manifest = (\<lambda>bs. map_option (\<lambda>xs. \<lparr>fm_entries = map (\<lambda>(a, b, d, n). \<lparr>fe_path = a, fe_size = n, fe_dir = d\<rparr>) xs\<rparr>) (dec_items (length bs) bs))\<rparr>"

lemma record_etas:
  "\<lparr>ci_mime = ci_mime i, ci_data = ci_data i\<rparr> = i" "\<lparr>fe_path = fe_path e, fe_size = fe_size e, fe_dir = fe_dir e\<rparr> = e"
  by simp_all

lemma sample_postcard_ok: "postcard_ok sample_postcard"
  using dec_enc_items [OF length_enc_items]
  by (simp add: postcard_ok_def sample_postcard_def comp_def record_etas)

definition sample_env :: "slot relay_env" where
  "sample_env = \<lparr>re_pc = sample_postcard, re_oc = mem_clipboard, re_hs = \<lparr>hs_content = length \<circ> cc_items, hs_paths = length\<rparr>,
     re_files = True, re_max = 0, re_files_max = 0\<rparr>"

definition sample_hub :: file_router where
  "sample_hub = froute_new (hub_run hub_new [ORegister ''a'' [], ORegister ''b'' []])"

lemma sample_hub_delivered: "hub_delivered (fr_hub sample_hub) n = []"
  by (simp add: sample_hub_def froute_new_def hub_run_def hub_defs hub_new_def hub_delivered_def bm_has_iff)

lemma shared_copies_arrive_whole_witness:
  "\<exists>ts. clip_queue (relay_run sample_env (relay_start sample_env sample_hub (sy_new mem_new))
        [Pushed \<lparr>sc_from = ''a'', sc_content = cc_new (Some ''hi'') None\<rparr>]) ''b''
      = concat (map (\<lambda>(seq, ct). transfer (re_pc sample_env) seq ct) ts) \<and> sorted_wrt (<) (map fst ts)
    \<and> ((\<forall>(seq, ct) \<in> set ts. shareable (re_pc sample_env) 100 ct) \<longrightarrow>
        snd (inb_run (re_pc sample_env) 100 None (clip_queue (relay_run sample_env (relay_start sample_env sample_hub (sy_new mem_new))
        [Pushed \<lparr>sc_from = ''a'', sc_content = cc_new (Some ''hi'') None\<rparr>]) ''b'')) = map (\<lambda>(seq, ct). Inr ct) ts)"
  by (rule shared_copies_arrive_whole [OF _ _ _ _ refl])
    (simp_all add: no_clip_yet_def sample_hub_delivered, simp add: sample_env_def sample_postcard_ok)

text \<open>
  A copy of text, style or a picture that a client pushes goes as one whole transfer to every other
  client that is connected and turned on, to nobody else and not back to the client, and onto the
  server's own clipboard.
\<close>

theorem pushed_copy_reaches_the_others:
  assumes "cc_files (re_pc env) (sc_content sc) = None" "rl_seq r + 1 < 2 ^ 64"
  shows "clip_queue (relay_shared env sc r) n = clip_queue r n @
      (if hub_reachable (fr_hub (rl_router r)) n \<and> n \<noteq> sc_from sc \<and> \<not> is_disabled (fr_hub (rl_router r)) n
       then transfer (re_pc env) (rl_seq r + 1) (sc_content sc) else [])
    \<and> rl_sync (relay_shared env sc r) = fst (sy_apply (re_oc env) (re_hs env) (sc_content sc) (rl_sync r))"
proof -
  have "u64 (rl_seq r + 1) = rl_seq r + 1" using assms(2) by (simp add: u64_def)
  then show ?thesis
    using assms(1) by (simp add: relay_shared_def Let_def clip_queue_share next_seq_def) (simp add: clip_queue_def)
qed

lemma pushed_copy_reaches_the_others_witness:
  "clip_queue (relay_shared sample_env \<lparr>sc_from = ''a'', sc_content = cc_new (Some ''hi'') None\<rparr> (relay_start sample_env sample_hub (sy_new mem_new))) ''b''
    = transfer sample_postcard 1 (cc_new (Some ''hi'') None)"
proof -
  let ?r = "relay_start sample_env sample_hub (sy_new mem_new)"
  have f: "cc_files (re_pc sample_env) (cc_new (Some ''hi'') None) = None"
    by (simp add: cc_files_def cc_find_def cc_new_def item_of_def)
  have s: "rl_seq ?r = 0" "rl_router ?r = sample_hub" "re_pc sample_env = sample_postcard"
    by (simp_all add: relay_start_def Let_def sample_env_def)
  have h: "hub_reachable (fr_hub sample_hub) ''b''" "\<not> is_disabled (fr_hub sample_hub) ''b''"
    by (simp_all add: sample_hub_def froute_new_def hub_run_def hub_defs hub_new_def hub_reachable_def bm_has_iff)
  have q: "clip_queue ?r ''b'' = []" by (simp add: clip_queue_def s sample_hub_delivered)
  show ?thesis
    using pushed_copy_reaches_the_others [of sample_env "\<lparr>sc_from = ''a'', sc_content = cc_new (Some ''hi'') None\<rparr>" ?r "''b''"]
      f s h q by simp
qed

text \<open>
  No echo: after a client's copy has been put on the server's clipboard, a tick that finds the
  clipboard as the write left it sends nothing to anybody.
\<close>

theorem pushed_copy_is_not_echoed:
  assumes "re_oc env = mem_clipboard" "cc_files (re_pc env) (sc_content sc) = None"
  shows "clip_queue (relay_tick env look (relay_shared env sc r)) n = clip_queue (relay_shared env sc r) n"
proof -
  let ?sy = "fst (sy_apply mem_clipboard (re_hs env) (sc_content sc) (rl_sync r))"
  have ap: "sy_apply mem_clipboard (re_hs env) (sc_content sc) (rl_sync r) = (?sy, IoOk ())"
    by (simp add: sy_apply_def mem_clipboard_def)
  have sync: "rl_sync (relay_shared env sc r) = ?sy"
    using assms by (simp add: relay_shared_def Let_def next_seq_def)
  have files: "sy_poll_files mem_clipboard (re_hs env) ?sy = (?sy\<lparr>sy_files_count := None\<rparr>, None)"
    by (simp add: sy_poll_files_def sy_apply_def mem_clipboard_def)
  have quiet: "clip_queue (poll_text env r') n = clip_queue r' n"
    if "snd (sy_poll (re_pc env) mem_clipboard (re_hs env) (effective_max (re_max env)) (rl_sync r')) = None" for r'
    using that assms(1) by (auto simp: poll_text_def clip_queue_def split: prod.split option.split)
  have p1: "snd (sy_poll (re_pc env) mem_clipboard (re_hs env) mx ?sy) = None" for mx by (rule mem.apply_not_echoed [OF ap])
  have p2: "snd (sy_poll (re_pc env) mem_clipboard (re_hs env) mx (?sy\<lparr>sy_files_count := None\<rparr>)) = None" for mx
    by (simp add: sy_poll_def sy_apply_def mem_clipboard_def)
  let ?r = "relay_shared env sc r"
  show ?thesis
  proof (cases "re_files env")
    case True
    then have "relay_tick env look ?r = poll_text env (?r\<lparr>rl_sync := ?sy\<lparr>sy_files_count := None\<rparr>\<rparr>)"
      using files assms(1) sync by (simp add: relay_tick_def)
    then show ?thesis using quiet [of "?r\<lparr>rl_sync := ?sy\<lparr>sy_files_count := None\<rparr>\<rparr>"] p2 by (simp add: clip_queue_def)
  next
    case False
    then show ?thesis using quiet [of ?r] p1 sync by (simp add: relay_tick_def)
  qed
qed

lemma pushed_copy_is_not_echoed_witness:
  "clip_queue (relay_tick sample_env (\<lambda>p. TGone) (relay_shared sample_env \<lparr>sc_from = ''a'', sc_content = cc_new (Some ''hi'') None\<rparr>
        (relay_start sample_env sample_hub (sy_new mem_new)))) ''b''
    = clip_queue (relay_shared sample_env \<lparr>sc_from = ''a'', sc_content = cc_new (Some ''hi'') None\<rparr>
        (relay_start sample_env sample_hub (sy_new mem_new))) ''b''"
  by (rule pushed_copy_is_not_echoed) (simp_all add: sample_env_def cc_files_def cc_find_def cc_new_def item_of_def)

text \<open>
  Whatever a peer sends, in whatever order, every copy a receiver hands on holds no more data than
  the limit it was given.
\<close>

theorem received_copies_within_limit:
  assumes "Inr ct \<in> set (snd (inb_run pc mx inb_new ms))"
  shows "cc_data_len ct \<le> mx"
  by (rule inb_run_bound [OF _ assms]) (simp add: inb_ok_def inb_new_def)

lemma received_copies_within_limit_witness:
  "cc_data_len (cc_new (Some ''hi'') None) \<le> 100"
proof -
  have "inb_run sample_postcard 100 inb_new (transfer sample_postcard 4 (cc_new (Some ''hi'') None)) = (None, [Inr (cc_new (Some ''hi'') None)])"
    using inb_run_transfer [of sample_postcard 100 "cc_new (Some ''hi'') None" inb_new 4] sample_postcard_ok
    by (simp add: postcard_ok_def shareable_def cc_data_len_def cc_new_def item_of_def saturating_add_def ENCODING_SLACK_def
        sample_postcard_def MIME_TEXT_def)
  then show ?thesis using received_copies_within_limit [of "cc_new (Some ''hi'') None" sample_postcard 100] by (metis list.set_intros(1) snd_conv)
qed

end
