(* ===== verification/Inject.thy ===== *)
theory Inject
  imports Key_Rules
begin

text \<open>
  \<^verbatim>\<open>crates/geserdesk-client/src/inject.rs\<close>: turning the server's events into calls of the operating
  system. The sink keeps a log of its calls, each with whether it worked; which calls work, where the
  cursor is, the size of the Windows desktop, what \<^verbatim>\<open>VkKeyScanExW\<close> answers and in which order a hash
  table is drained are parameters. \<open>Unix\<close> and \<open>Windows\<close> are the two builds the source distinguishes.
\<close>

section \<open>What this machine does for a key\<close>

datatype resolved = RKey nat | RIgnore | RKeysym nat | RVirtualKey nat

definition resolve :: "(nat \<rightharpoonup> perform) \<Rightarrow> nat \<Rightarrow> resolved" where
  "resolve perform hid =
     (if \<not> is_extra hid then RKey hid
      else case perform hid of
        None \<Rightarrow> RKey hid
      | Some Ignore \<Rightarrow> RIgnore
      | Some (Keysym v) \<Rightarrow> RKeysym v
      | Some (VirtualKey v) \<Rightarrow> RVirtualKey v
      | Some (DoAction other) \<Rightarrow> RKey other)"

datatype os = Unix | Windows

definition has_built_in :: "os \<Rightarrow> nat \<Rightarrow> bool" where
  "has_built_in sys hid =
     (case sys of
        Windows \<Rightarrow> hid \<notin> {BRIGHTNESS_UP, BRIGHTNESS_DOWN, MIC_MUTE, BROWSER}
      | Unix \<Rightarrow> True)"

text \<open>\<^verbatim>\<open>enigo::Key\<close>, as far as it is used; \<open>KF n\<close> is the n-th function key.\<close>

datatype os_key =
    KReturn | KEscape | KBackspace | KTab | KSpace | KCapsLock | KF nat | KPrintScr | KPause | KInsert
  | KHome | KPageUp | KDelete | KEnd | KPageDown | KRightArrow | KLeftArrow | KDownArrow | KUpArrow | KNumlock | KApps
  | KLControl | KLShift | KAlt | KMeta | KRControl | KRShift
  | KVolumeMute | KVolumeDown | KVolumeUp | KMediaPlayPause | KMediaNextTrack | KMediaPrevTrack | KMediaStop
  | KUnicode nat | KOther nat

text \<open>The arms of \<^verbatim>\<open>named_key\<close>, those of both builds first.\<close>

definition named_keys :: "(nat \<times> os_key) list" where
  "named_keys =
     [(0x28, KReturn), (0x58, KReturn), (0x29, KEscape), (0x2A, KBackspace), (0x2B, KTab), (0x2C, KSpace), (0x39, KCapsLock)]
     @ map (\<lambda>i. (0x3A + i, KF (i + 1))) [0..<12]
     @ [(0x46, KPrintScr), (0x48, KPause), (0x49, KInsert), (0x4A, KHome), (0x4B, KPageUp), (0x4C, KDelete),
        (0x4D, KEnd), (0x4E, KPageDown), (0x4F, KRightArrow), (0x50, KLeftArrow), (0x51, KDownArrow), (0x52, KUpArrow),
        (0x53, KNumlock)]
     @ map (\<lambda>i. (0x68 + i, KF (i + 13))) [0..<8]
     @ [(0xE0, KLControl), (0xE1, KLShift), (0xE2, KAlt), (0xE6, KAlt), (0xE3, KMeta), (0xE7, KMeta), (0xE4, KRControl), (0xE5, KRShift),
        (MUTE, KVolumeMute), (VOLUME_DOWN, KVolumeDown), (VOLUME_UP, KVolumeUp), (PLAY_PAUSE, KMediaPlayPause),
        (NEXT_TRACK, KMediaNextTrack), (PREVIOUS_TRACK, KMediaPrevTrack), (STOP, KMediaStop)]"

definition windows_keys :: "(nat \<times> os_key) list" where
  "windows_keys =
     [(0x54, KOther 0x6F), (0x55, KOther 0x6A), (0x56, KOther 0x6D), (0x57, KOther 0x6B)]
     @ map (\<lambda>i. (0x59 + i, KOther (0x61 + i))) [0..<9]
     @ [(0x62, KOther 0x60), (0x63, KOther 0x6E), (0x47, KOther 0x91), (0x65, KApps),
        (MAIL, KOther 0xB4), (EXPLORER, KOther 0xB6), (CALCULATOR, KOther 0xB7), (BROWSER_BACK, KOther 0xA6),
        (BROWSER_FORWARD, KOther 0xA7), (BROWSER_REFRESH, KOther 0xA8), (BROWSER_STOP, KOther 0xA9), (BROWSER_SEARCH, KOther 0xAA),
        (BROWSER_FAVORITES, KOther 0xAB), (BROWSER_HOME, KOther 0xAC)]"

definition unix_keys :: "(nat \<times> os_key) list" where
  "unix_keys =
     [(BRIGHTNESS_UP, KOther 0x1008FF02), (BRIGHTNESS_DOWN, KOther 0x1008FF03), (MIC_MUTE, KOther 0x1008FFB2),
      (MAIL, KOther 0x1008FF19), (CALCULATOR, KOther 0x1008FF1D), (EXPLORER, KOther 0x1008FF5D), (BROWSER, KOther 0x1008FF2E),
      (BROWSER_SEARCH, KOther 0x1008FF1B), (BROWSER_HOME, KOther 0x1008FF18), (BROWSER_BACK, KOther 0x1008FF26),
      (BROWSER_FORWARD, KOther 0x1008FF27), (BROWSER_STOP, KOther 0x1008FF28), (BROWSER_REFRESH, KOther 0x1008FF29),
      (BROWSER_FAVORITES, KOther 0x1008FF30)]"

definition named_key :: "os \<Rightarrow> nat \<Rightarrow> os_key option" where
  "named_key sys hid = map_of (named_keys @ (case sys of Windows \<Rightarrow> windows_keys | Unix \<Rightarrow> unix_keys)) hid"

definition key_for :: "os \<Rightarrow> key_event \<Rightarrow> os_key option" where
  "key_for sys ev = (case named_key sys (ke_hid ev) of Some k \<Rightarrow> Some k | None \<Rightarrow> map_option KUnicode (ke_ch ev))"

lemma named_keys_distinct: "distinct (map fst (named_keys @ windows_keys))" "distinct (map fst (named_keys @ unix_keys))"
  by (simp_all add: named_keys_def windows_keys_def unix_keys_def code_defs upt_rec)

text \<open>No arm of \<^verbatim>\<open>named_key\<close> hides another, and what it names is never a character.\<close>

lemma named_key_iff:
  "named_key sys hid = Some k \<longleftrightarrow> (hid, k) \<in> set (named_keys @ (case sys of Windows \<Rightarrow> windows_keys | Unix \<Rightarrow> unix_keys))"
  using named_keys_distinct unfolding named_key_def by (cases sys) (simp_all add: map_of_eq_Some_iff del: map_of_append)

section \<open>Buttons and the wheel\<close>

datatype os_button = OLeft | OMiddle | ORight | OBack | OForward

fun map_button :: "button \<Rightarrow> os_button" where
  "map_button BtnLeft = OLeft"
| "map_button BtnMiddle = OMiddle"
| "map_button BtnRight = ORight"
| "map_button BtnBack = OBack"
| "map_button BtnForward = OForward"
| "map_button (BtnExtra _) = OLeft"

text \<open>The code is a \<^verbatim>\<open>u8\<close>: an extra button's number is added without wrapping around.\<close>

fun encode_button :: "button \<Rightarrow> nat" where
  "encode_button BtnLeft = 0"
| "encode_button BtnMiddle = 1"
| "encode_button BtnRight = 2"
| "encode_button BtnBack = 3"
| "encode_button BtnForward = 4"
| "encode_button (BtnExtra n) = min (10 + n) 255"

definition decode_button :: "nat \<Rightarrow> button" where
  "decode_button code =
     (if code = 0 then BtnLeft else if code = 1 then BtnMiddle else if code = 2 then BtnRight
      else if code = 3 then BtnBack else if code = 4 then BtnForward else BtnExtra (code - 10))"

lemma map_button_code: "map_button (decode_button (encode_button b)) = map_button b"
  by (cases b) (auto simp: decode_button_def min_def)

lemma decode_encode_button: "(case b of BtnExtra n \<Rightarrow> n \<le> 245 | _ \<Rightarrow> True) \<Longrightarrow> decode_button (encode_button b) = b"
  by (cases b) (auto simp: decode_button_def min_def)

definition notches :: "int \<Rightarrow> int" where
  "notches delta = (if delta = 0 then 0 else if i32_abs delta < 120 then sgn delta else tdiv delta 120)"

text \<open>
  The wheel turns the way it was told to and never more than it was told to, and at least one notch for
  any movement; only the most negative delta, whose magnitude wraps around, is one notch instead of
  many.
\<close>

lemma notches_sign:
  assumes "is_i32 d"
  shows "sgn (notches d) = sgn d"
proof -
  have "sgn (d div 120) = 1" if "120 \<le> d" using that by (simp add: sgn_if pos_imp_zdiv_pos_iff)
  moreover have "sgn (- (- d div 120)) = -1" if "d \<le> -120"
    using that pos_imp_zdiv_pos_iff [of 120 "- d"] by (simp add: sgn_if)
  ultimately show ?thesis
    using assms by (auto simp: notches_def i32_abs_def tdiv_def sgn_if is_i32_def split: if_splits)
qed

section \<open>The sink\<close>

datatype direction = Press | Release | Click

datatype axis = Horizontal | Vertical

datatype os_call =
    MoveMouse int int
  | MoveMouseBy int int
  | SendInput int int bool \<comment> \<open>whether the position is absolute\<close>
  | KeyCall direction os_key
  | ButtonCall direction os_button
  | Scroll axis int

record enigo_env =
  en_os :: os
  en_works :: "(os_call \<times> bool) list \<Rightarrow> os_call \<Rightarrow> bool"
  en_vk_scan :: "nat \<Rightarrow> int"
  en_cursor :: "(os_call \<times> bool) list \<Rightarrow> (int \<times> int) option"
  en_desktop :: "int \<times> int \<times> int \<times> int"
  en_key_order :: "os_key list \<Rightarrow> os_key list"
  en_button_order :: "nat list \<Rightarrow> nat list"

record enigo_sink =
  sk_log :: "(os_call \<times> bool) list"
  sk_keys :: "(nat, os_key) bmap"
  sk_buttons :: "nat list"
  sk_perform :: "nat \<rightharpoonup> perform"

definition sink_new :: enigo_sink where
  "sink_new = \<lparr>sk_log = [], sk_keys = [], sk_buttons = [], sk_perform = Map.empty\<rparr>"

definition with_perform :: "enigo_sink \<Rightarrow> (nat \<rightharpoonup> perform) \<Rightarrow> enigo_sink" where
  "with_perform s perform = s\<lparr>sk_perform := perform\<rparr>"

definition os_do :: "enigo_env \<Rightarrow> os_call \<Rightarrow> enigo_sink \<Rightarrow> enigo_sink \<times> bool" where
  "os_do env c s = (let ok = en_works env (sk_log s) c in (s\<lparr>sk_log := sk_log s @ [(c, ok)]\<rparr>, ok))"

subsection \<open>Characters on Windows\<close>

text \<open>The layout's answer is a signed 16-bit number: the virtual key in its low byte, the modifiers above.\<close>

definition win_lookup :: "enigo_env \<Rightarrow> nat \<Rightarrow> (nat \<times> int) option" where
  "win_lookup env c =
     (if 0x10000 \<le> c then None
      else let found = en_vk_scan env c
           in if found \<noteq> -1 then Some (nat (found mod 256), found div 256 mod 256) else None)"

definition shifted_vk :: "enigo_env \<Rightarrow> nat \<Rightarrow> nat option" where
  "shifted_vk env c =
     (case win_lookup env c of Some (vk, state) \<Rightarrow> if state \<noteq> 0 then Some vk else None | None \<Rightarrow> None)"

definition text_only :: "enigo_env \<Rightarrow> nat \<Rightarrow> bool" where
  "text_only env c \<longleftrightarrow> \<not> is_control c \<and> win_lookup env c = None"

definition os_key_of :: "enigo_env \<Rightarrow> os_key \<Rightarrow> os_key" where
  "os_key_of env k =
     (case (en_os env, k) of
        (Windows, KUnicode c) \<Rightarrow> (case shifted_vk env c of Some vk \<Rightarrow> KOther vk | None \<Rightarrow> k)
      | _ \<Rightarrow> k)"

subsection \<open>Moving\<close>

text \<open>\<^verbatim>\<open>win::move_virtual\<close>: over the whole virtual desktop; the last column by pushing into it.\<close>

definition norm_coord :: "int \<Rightarrow> int \<Rightarrow> int" where
  "norm_coord p sz = i32 ((p * 65536 + sz - 1) div sz)"

definition move_virtual :: "enigo_env \<Rightarrow> int \<Rightarrow> int \<Rightarrow> enigo_sink \<Rightarrow> enigo_sink \<times> bool" where
  "move_virtual env x y s =
     (let (vx, vy, w, h) = en_desktop env
      in if w < 2 \<or> h < 2 then (s, False)
         else let cx = min (max (i32 (x - vx)) 0) (w - 1); cy = min (max (i32 (y - vy)) 0) (h - 1)
              in if cx = w - 1 then
                   (case os_do env (SendInput (norm_coord (cx - 1) w) (norm_coord cy h) True) s of
                      (s, False) \<Rightarrow> (s, False)
                    | (s, True) \<Rightarrow> os_do env (SendInput 8 0 False) s)
                 else os_do env (SendInput (norm_coord cx w) (norm_coord cy h) True) s)"

definition move_to :: "enigo_env \<Rightarrow> int \<Rightarrow> int \<Rightarrow> enigo_sink \<Rightarrow> enigo_sink \<times> bool" where
  "move_to env x y s =
     (case en_os env of
        Unix \<Rightarrow> os_do env (MoveMouse x y) s
      | Windows \<Rightarrow> (case move_virtual env x y s of
            (s, True) \<Rightarrow> (s, True)
          | (s, False) \<Rightarrow> os_do env (MoveMouse x y) s))"

definition move_by :: "enigo_env \<Rightarrow> int \<Rightarrow> int \<Rightarrow> enigo_sink \<Rightarrow> enigo_sink \<times> bool" where
  "move_by env dx dy s =
     (case (en_os env, en_cursor env (sk_log s)) of
        (Windows, Some (x, y)) \<Rightarrow> move_to env (i32 (x + dx)) (i32 (y + dy)) s
      | _ \<Rightarrow> os_do env (MoveMouseBy dx dy) s)"

text \<open>
  The position sent for a pixel is one that Windows, which takes the whole part of
  \<open>position * size / 65536\<close>, maps back to that very pixel.
\<close>

lemma norm_coord_lands:
  assumes "0 \<le> p" "p < sz" "sz \<le> 65536"
  shows "norm_coord p sz * sz div 65536 = p"
proof -
  let ?q = "(p * 65536 + sz - 1) div sz"
  have le: "p * 65536 \<le> ?q * sz" "?q * sz \<le> p * 65536 + sz - 1"
  proof -
    have "?q * sz + (p * 65536 + sz - 1) mod sz = p * 65536 + sz - 1" by (simp add: div_mult_mod_eq)
    moreover have "0 \<le> (p * 65536 + sz - 1) mod sz" "(p * 65536 + sz - 1) mod sz < sz" using assms by simp_all
    ultimately show "p * 65536 \<le> ?q * sz" "?q * sz \<le> p * 65536 + sz - 1" by linarith+
  qed
  have "?q * sz < (p + 1) * 65536" using le(2) assms(3) by (simp add: algebra_simps)
  moreover have "v div 65536 = p" if "p * 65536 \<le> v" "v < (p + 1) * 65536" for v
    by (rule int_div_pos_eq [of _ _ _ "v - p * 65536"]) (use that in auto)
  ultimately have d: "?q * sz div 65536 = p" using le(1) by simp
  have "0 \<le> ?q" using assms by (simp add: pos_imp_zdiv_nonneg_iff)
  moreover have "?q \<le> 65536"
  proof (rule ccontr)
    assume "\<not> ?q \<le> 65536"
    then have "65537 * sz \<le> ?q * sz" using assms by (intro mult_right_mono) auto
    then show False using le(2) assms by linarith
  qed
  ultimately have "i32 ?q = ?q" by (intro i32_small) auto
  then show ?thesis using d by (simp add: norm_coord_def)
qed

subsection \<open>Events\<close>

definition inject :: "enigo_env \<Rightarrow> os_key \<Rightarrow> direction \<Rightarrow> enigo_sink \<Rightarrow> enigo_sink" where
  "inject env k dir s = fst (os_do env (KeyCall dir k) s)"

definition sink_enter :: "enigo_env \<Rightarrow> point \<Rightarrow> enigo_sink \<Rightarrow> enigo_sink" where
  "sink_enter env p s = fst (move_to env (pt_x p) (pt_y p) s)"

definition sink_leave :: "enigo_env \<Rightarrow> enigo_sink \<Rightarrow> enigo_sink" where
  "sink_leave env s =
     (let keys = en_key_order env (map snd (sk_keys s)); s = s\<lparr>sk_keys := []\<rparr>;
          s = fold (\<lambda>k. inject env k Release) keys s;
          buttons = en_button_order env (sk_buttons s); s = s\<lparr>sk_buttons := []\<rparr>
      in fold (\<lambda>b s. fst (os_do env (ButtonCall Release (map_button (decode_button b))) s)) buttons s)"

text \<open>The key to press for an event, or nothing.\<close>

definition chosen_key :: "enigo_env \<Rightarrow> (nat \<rightharpoonup> perform) \<Rightarrow> key_event \<Rightarrow> os_key option" where
  "chosen_key env perform ev =
     (case resolve perform (ke_hid ev) of
        RIgnore \<Rightarrow> None
      | RKey hid \<Rightarrow> key_for (en_os env) (ev\<lparr>ke_hid := hid\<rparr>)
      | RKeysym v \<Rightarrow> if en_os env = Unix then Some (KOther v) else None
      | RVirtualKey v \<Rightarrow> if en_os env = Windows then Some (KOther v) else None)"

definition typed_as_text :: "enigo_env \<Rightarrow> os_key \<Rightarrow> bool" where
  "typed_as_text env k \<longleftrightarrow> en_os env = Windows \<and> (case k of KUnicode c \<Rightarrow> text_only env c | _ \<Rightarrow> False)"

definition sink_press :: "enigo_env \<Rightarrow> key_event \<Rightarrow> enigo_sink \<Rightarrow> enigo_sink" where
  "sink_press env ev s =
     (case chosen_key env (sk_perform s) ev of
        None \<Rightarrow> s
      | Some k \<Rightarrow>
          (let k = os_key_of env k
           in if typed_as_text env k then inject env k Click s
              else let k = (case bm_get (sk_keys s) (ke_hid ev) of Some held \<Rightarrow> held | None \<Rightarrow> k);
                       s = s\<lparr>sk_keys := bm_insert (ke_hid ev) k (sk_keys s)\<rparr>
                   in inject env k Press s))"

definition sink_key :: "enigo_env \<Rightarrow> key_event \<Rightarrow> enigo_sink \<Rightarrow> enigo_sink" where
  "sink_key env ev s =
     (case ke_action ev of
        Down \<Rightarrow> sink_press env ev s
      | Repeat _ \<Rightarrow> sink_press env ev s
      | Up \<Rightarrow> (case bm_get (sk_keys s) (ke_hid ev) of
            None \<Rightarrow> s
          | Some k \<Rightarrow> inject env k Release (s\<lparr>sk_keys := bm_remove (ke_hid ev) (sk_keys s)\<rparr>)))"

definition sink_mouse :: "enigo_env \<Rightarrow> mouse_event \<Rightarrow> enigo_sink \<Rightarrow> enigo_sink" where
  "sink_mouse env ev s =
     (case ev of
        MoveAbs x y \<Rightarrow> fst (move_to env x y s)
      | MoveRel dx dy \<Rightarrow> fst (move_by env dx dy s)
      | MouseButton b down \<Rightarrow>
          (let code = encode_button b;
               s = s\<lparr>sk_buttons := (if down then List.insert code (sk_buttons s) else removeAll code (sk_buttons s))\<rparr>
           in fst (os_do env (ButtonCall (if down then Press else Release) (map_button b)) s))
      | Wheel dx dy \<Rightarrow>
          (let (s, ok) = (if dx \<noteq> 0 then os_do env (Scroll Horizontal (notches dx)) s else (s, True))
           in if dy \<noteq> 0 \<and> ok then fst (os_do env (Scroll Vertical (i32 (- notches dy))) s) else s))"

datatype sink_op = OpEnter point | OpLeave | OpKey key_event | OpMouse mouse_event

fun sink_step :: "enigo_env \<Rightarrow> enigo_sink \<Rightarrow> sink_op \<Rightarrow> enigo_sink" where
  "sink_step env s (OpEnter p) = sink_enter env p s"
| "sink_step env s OpLeave = sink_leave env s"
| "sink_step env s (OpKey ev) = sink_key env ev s"
| "sink_step env s (OpMouse ev) = sink_mouse env ev s"

definition sink_run :: "enigo_env \<Rightarrow> enigo_sink \<Rightarrow> sink_op list \<Rightarrow> enigo_sink" where
  "sink_run env s ops = foldl (sink_step env) s ops"

lemma sink_run_snoc [simp]: "sink_run env s (ops @ [x]) = sink_step env (sink_run env s ops) x"
  by (simp add: sink_run_def)

lemma sink_run_Nil [simp]: "sink_run env s [] = s"
  by (simp add: sink_run_def)

section \<open>What is down\<close>

fun keys_step :: "os_call \<times> bool \<Rightarrow> os_key set \<Rightarrow> os_key set" where
  "keys_step (KeyCall Press k, True) D = insert k D"
| "keys_step (KeyCall Release k, True) D = D - {k}"
| "keys_step (KeyCall Click k, True) D = D - {k}"
| "keys_step _ D = D"

definition keys_down :: "(os_call \<times> bool) list \<Rightarrow> os_key set" where
  "keys_down lg = fold keys_step lg {}"

fun buttons_step :: "os_call \<times> bool \<Rightarrow> os_button set \<Rightarrow> os_button set" where
  "buttons_step (ButtonCall Press b, True) D = insert b D"
| "buttons_step (ButtonCall Release b, True) D = D - {b}"
| "buttons_step (ButtonCall Click b, True) D = D - {b}"
| "buttons_step _ D = D"

definition buttons_down :: "(os_call \<times> bool) list \<Rightarrow> os_button set" where
  "buttons_down lg = fold buttons_step lg {}"

text \<open>Keys and buttons the operating system would not let go of.\<close>

definition stuck_keys :: "(os_call \<times> bool) list \<Rightarrow> os_key set" where
  "stuck_keys lg = {k. (KeyCall Release k, False) \<in> set lg}"

definition stuck_buttons :: "(os_call \<times> bool) list \<Rightarrow> os_button set" where
  "stuck_buttons lg = {b. (ButtonCall Release b, False) \<in> set lg}"

lemmas log_defs = keys_down_def buttons_down_def stuck_keys_def stuck_buttons_def

lemma log_snoc [simp]:
  "keys_down (lg @ [c]) = keys_step c (keys_down lg)" "buttons_down (lg @ [c]) = buttons_step c (buttons_down lg)"
  "stuck_keys (lg @ [c]) = stuck_keys lg \<union> {k. c = (KeyCall Release k, False)}"
  "stuck_buttons (lg @ [c]) = stuck_buttons lg \<union> {b. c = (ButtonCall Release b, False)}"
  by (auto simp: log_defs)

text \<open>Everything down is remembered as held, or is stuck.\<close>

definition held_ok :: "enigo_sink \<Rightarrow> os_key set \<Rightarrow> os_button set \<Rightarrow> bool" where
  "held_ok s K B \<longleftrightarrow> keys_down (sk_log s) \<subseteq> K \<union> stuck_keys (sk_log s) \<and> buttons_down (sk_log s) \<subseteq> B \<union> stuck_buttons (sk_log s)"

definition held_keys :: "enigo_sink \<Rightarrow> os_key set" where
  "held_keys s = {k. \<exists>h. bm_get (sk_keys s) h = Some k}"

definition held_buttons :: "enigo_sink \<Rightarrow> os_button set" where
  "held_buttons s = (\<lambda>b. map_button (decode_button b)) ` set (sk_buttons s)"

definition sink_inv :: "enigo_sink \<Rightarrow> bool" where
  "sink_inv s \<longleftrightarrow> bm_ok (sk_keys s) \<and> held_ok s (held_keys s) (held_buttons s)"

lemma os_do_fields [simp]:
  "sk_keys (fst (os_do env c s)) = sk_keys s" "sk_buttons (fst (os_do env c s)) = sk_buttons s"
  "sk_perform (fst (os_do env c s)) = sk_perform s" "sk_log (fst (os_do env c s)) = sk_log s @ [(c, snd (os_do env c s))]"
  by (simp_all add: os_do_def Let_def)

fun pure_move :: "os_call \<Rightarrow> bool" where
  "pure_move (KeyCall _ _) = False"
| "pure_move (ButtonCall _ _) = False"
| "pure_move _ = True"

lemma steps_pure_move [simp]:
  "pure_move c \<Longrightarrow> keys_step (c, ok) D = D" "pure_move c \<Longrightarrow> buttons_step (c, ok) E = E"
  by (cases c; simp)+

lemma held_ok_do:
  assumes "held_ok s K B"
  shows "pure_move c \<Longrightarrow> held_ok (fst (os_do env c s)) K B"
    "held_ok (fst (os_do env (KeyCall Press k) s)) (insert k K) B"
    "held_ok (fst (os_do env (KeyCall Click k) s)) K B"
    "held_ok (fst (os_do env (KeyCall Release k) s)) (K - {k}) B"
    "held_ok (fst (os_do env (ButtonCall Press b) s)) K (insert b B)"
    "held_ok (fst (os_do env (ButtonCall Release b) s)) K (B - {b})"
proof -
  note a = assms [unfolded held_ok_def]
  show "pure_move c \<Longrightarrow> held_ok (fst (os_do env c s)) K B" using a by (auto simp: held_ok_def)
  show "held_ok (fst (os_do env (KeyCall Press k) s)) (insert k K) B"
    using a by (cases "snd (os_do env (KeyCall Press k) s)") (auto simp: held_ok_def)
  show "held_ok (fst (os_do env (KeyCall Click k) s)) K B"
    using a by (cases "snd (os_do env (KeyCall Click k) s)") (auto simp: held_ok_def)
  show "held_ok (fst (os_do env (KeyCall Release k) s)) (K - {k}) B"
    using a by (cases "snd (os_do env (KeyCall Release k) s)") (auto simp: held_ok_def)
  show "held_ok (fst (os_do env (ButtonCall Press b) s)) K (insert b B)"
    using a by (cases "snd (os_do env (ButtonCall Press b) s)") (auto simp: held_ok_def)
  show "held_ok (fst (os_do env (ButtonCall Release b) s)) K (B - {b})"
    using a by (cases "snd (os_do env (ButtonCall Release b) s)") (auto simp: held_ok_def)
qed

lemma held_ok_mono: "held_ok s K B \<Longrightarrow> K \<subseteq> K' \<Longrightarrow> B \<subseteq> B' \<Longrightarrow> held_ok s K' B'"
  by (auto simp: held_ok_def)

lemma held_ok_cong: "sk_log s' = sk_log s \<Longrightarrow> held_ok s' K B = held_ok s K B"
  by (simp add: held_ok_def)

lemma os_do_eta: "os_do env c s = (s', ok) \<Longrightarrow> s' = fst (os_do env c s)"
  by simp

lemma move_virtual_held:
  assumes "held_ok s K B"
  shows "held_ok (fst (move_virtual env x y s)) K B \<and> sk_keys (fst (move_virtual env x y s)) = sk_keys s
    \<and> sk_buttons (fst (move_virtual env x y s)) = sk_buttons s"
  using assms held_ok_do(1)
  by (auto simp: move_virtual_def Let_def split: prod.split bool.split dest!: os_do_eta)

definition keeps_held :: "enigo_sink \<Rightarrow> enigo_sink \<Rightarrow> bool" where
  "keeps_held s s' \<longleftrightarrow> sk_keys s' = sk_keys s \<and> sk_buttons s' = sk_buttons s \<and> sk_perform s' = sk_perform s
     \<and> (\<forall>K B. held_ok s K B \<longrightarrow> held_ok s' K B)"

lemma keeps_held_refl [simp]: "keeps_held s s"
  by (simp add: keeps_held_def)

lemma keeps_held_trans: "keeps_held s s' \<Longrightarrow> keeps_held s' s'' \<Longrightarrow> keeps_held s s''"
  by (simp add: keeps_held_def)

lemma keeps_held_do: "pure_move c \<Longrightarrow> keeps_held s (fst (os_do env c s))"
  by (simp add: keeps_held_def held_ok_do(1))

lemma keeps_held_virtual: "keeps_held s (fst (move_virtual env x y s))"
proof (cases "fst (snd (snd (en_desktop env))) < 2 \<or> snd (snd (snd (en_desktop env))) < 2")
  case True
  then show ?thesis by (auto simp: move_virtual_def Let_def split: prod.split)
next
  case False
  obtain vx vy w h where d: "en_desktop env = (vx, vy, w, h)" by (cases "en_desktop env")
  let ?cx = "min (max (i32 (x - vx)) 0) (w - 1)" and ?cy = "min (max (i32 (y - vy)) 0) (h - 1)"
  let ?c = "SendInput (norm_coord (?cx - 1) w) (norm_coord ?cy h) True"
  obtain s1 ok where s1: "os_do env ?c s = (s1, ok)" by fastforce
  have k1: "keeps_held s s1" using keeps_held_do [of ?c s env] s1 by simp
  have "keeps_held s (fst (os_do env (SendInput 8 0 False) s1))"
    using keeps_held_trans [OF k1 keeps_held_do] by simp
  then show ?thesis using False d s1 k1 keeps_held_do by (cases ok) (auto simp: move_virtual_def Let_def)
qed

lemma keeps_held_move_to: "keeps_held s (fst (move_to env x y s))"
proof (cases "en_os env")
  case Unix
  then show ?thesis by (simp add: move_to_def keeps_held_do)
next
  case Windows
  obtain s1 ok where s1: "move_virtual env x y s = (s1, ok)" by fastforce
  have k1: "keeps_held s s1" using keeps_held_virtual [of s env x y] s1 by simp
  then show ?thesis using keeps_held_trans [OF k1 keeps_held_do [of "MoveMouse x y" s1 env]] Windows s1
    by (cases ok) (simp_all add: move_to_def)
qed

lemma keeps_held_move_by: "keeps_held s (fst (move_by env dx dy s))"
  by (auto simp: move_by_def keeps_held_do keeps_held_move_to split: os.split option.split prod.split)

lemma sink_inv_kept: "keeps_held s s' \<Longrightarrow> sink_inv s \<Longrightarrow> sink_inv s'"
  by (simp add: keeps_held_def sink_inv_def held_keys_def held_buttons_def)

lemma held_keys_set: "bm_ok (sk_keys s) \<Longrightarrow> held_keys s = set (map snd (sk_keys s))"
  by (force simp: held_keys_def dest: bm_getI bm_getD)

lemma sink_press_inv:
  assumes "sink_inv s"
  shows "sink_inv (sink_press env ev s)"
proof (cases "chosen_key env (sk_perform s) ev")
  case None
  then show ?thesis using assms by (simp add: sink_press_def)
next
  case (Some k0)
  define k1 where "k1 = os_key_of env k0"
  define k where "k = (case bm_get (sk_keys s) (ke_hid ev) of Some held \<Rightarrow> held | None \<Rightarrow> k1)"
  have inv: "bm_ok (sk_keys s)" "held_ok s (held_keys s) (held_buttons s)" using assms by (simp_all add: sink_inv_def)
  show ?thesis
  proof (cases "typed_as_text env k1")
    case True
    then show ?thesis using Some inv held_ok_do(3) [OF inv(2), of env k1]
      by (simp add: sink_press_def k1_def [symmetric] inject_def sink_inv_def held_keys_def held_buttons_def)
  next
    case False
    let ?s = "s\<lparr>sk_keys := bm_insert (ke_hid ev) k (sk_keys s)\<rparr>"
    have eq: "sink_press env ev s = fst (os_do env (KeyCall Press k) ?s)"
      using False Some by (simp add: sink_press_def k1_def [symmetric] k_def [symmetric] inject_def)
    have "held_ok ?s (held_keys s) (held_buttons s)" using inv(2) by (simp add: held_ok_def)
    from held_ok_do(2) [OF this, of env k]
    have h: "held_ok (fst (os_do env (KeyCall Press k) ?s)) (insert k (held_keys s)) (held_buttons s)" .
    have "insert k (held_keys s) \<subseteq> held_keys (fst (os_do env (KeyCall Press k) ?s))"
      by (auto simp: held_keys_def k_def) (metis option.simps(5))
    moreover have "held_buttons s = held_buttons (fst (os_do env (KeyCall Press k) ?s))" by (simp add: held_buttons_def)
    ultimately show ?thesis
      using held_ok_mono [OF h] inv(1) by (simp add: eq sink_inv_def)
  qed
qed

lemma sink_key_inv:
  assumes "sink_inv s"
  shows "sink_inv (sink_key env ev s)"
proof (cases "ke_action ev")
  case Up
  show ?thesis
  proof (cases "bm_get (sk_keys s) (ke_hid ev)")
    case None
    then show ?thesis using Up assms by (simp add: sink_key_def)
  next
    case (Some k)
    let ?s = "s\<lparr>sk_keys := bm_remove (ke_hid ev) (sk_keys s)\<rparr>"
    have inv: "bm_ok (sk_keys s)" "held_ok ?s (held_keys s) (held_buttons s)" using assms by (simp_all add: sink_inv_def held_ok_def)
    have eq: "sink_key env ev s = fst (os_do env (KeyCall Release k) ?s)" using Up Some by (simp add: sink_key_def inject_def)
    have "held_keys s - {k} \<subseteq> held_keys (sink_key env ev s)" using Some by (auto simp: eq held_keys_def) (metis option.inject)
    moreover have "held_buttons s = held_buttons (sink_key env ev s)" by (simp add: eq held_buttons_def)
    ultimately show ?thesis
      using held_ok_mono [OF held_ok_do(4) [OF inv(2), of env k]] inv(1) by (simp add: eq sink_inv_def)
  qed
qed (simp_all add: sink_key_def sink_press_inv assms)

lemma sink_mouse_inv:
  assumes "sink_inv s"
  shows "sink_inv (sink_mouse env ev s)"
proof (cases ev)
  case (MoveAbs x y)
  then show ?thesis using sink_inv_kept [OF keeps_held_move_to assms] by (simp add: sink_mouse_def)
next
  case (MoveRel dx dy)
  then show ?thesis using sink_inv_kept [OF keeps_held_move_by assms] by (simp add: sink_mouse_def)
next
  case (Wheel dx dy)
  obtain s1 ok where s1: "(if dx \<noteq> 0 then os_do env (Scroll Horizontal (notches dx)) s else (s, True)) = (s1, ok)" by fastforce
  have k: "keeps_held s s1"
    using s1 keeps_held_do [of "Scroll Horizontal (notches dx)" s env] by (auto split: if_splits)
  have "keeps_held s (fst (os_do env (Scroll Vertical (i32 (- notches dy))) s1))"
    using keeps_held_trans [OF k keeps_held_do] by simp
  then show ?thesis using sink_inv_kept [OF _ assms] k s1 by (simp add: sink_mouse_def Wheel)
next
  case (MouseButton b down)
  have inv: "bm_ok (sk_keys s)" "held_ok s (held_keys s) (held_buttons s)" using assms by (simp_all add: sink_inv_def)
  show ?thesis
  proof (cases down)
    case True
    let ?s = "s\<lparr>sk_buttons := List.insert (encode_button b) (sk_buttons s)\<rparr>"
    have "held_ok ?s (held_keys s) (held_buttons s)" using inv(2) by (simp add: held_ok_def)
    from held_ok_do(5) [OF this, of env "map_button b"]
    show ?thesis using inv(1) True
      by (simp add: MouseButton sink_mouse_def Let_def sink_inv_def held_keys_def held_buttons_def map_button_code)
  next
    case False
    let ?s = "s\<lparr>sk_buttons := removeAll (encode_button b) (sk_buttons s)\<rparr>"
    have ok: "held_ok ?s (held_keys s) (held_buttons s)" using inv(2) by (simp add: held_ok_def)
    have eq: "sink_mouse env ev s = fst (os_do env (ButtonCall Release (map_button b)) ?s)"
      using False by (simp add: MouseButton sink_mouse_def Let_def)
    have "held_buttons s - {map_button b} \<subseteq> held_buttons (sink_mouse env ev s)"
      unfolding eq by (auto simp: held_buttons_def) (metis map_button_code Diff_iff image_eqI singletonD)
    moreover have "held_keys s = held_keys (sink_mouse env ev s)" by (simp add: eq held_keys_def)
    ultimately show ?thesis
      using held_ok_mono [OF held_ok_do(6) [OF ok, of env "map_button b"]] inv(1) by (simp add: eq sink_inv_def)
  qed
qed

text \<open>A hash table may be drained in any order, but whole.\<close>

definition drains_all :: "enigo_env \<Rightarrow> bool" where
  "drains_all env \<longleftrightarrow> (\<forall>ks. set (en_key_order env ks) = set ks) \<and> (\<forall>bs. set (en_button_order env bs) = set bs)"

lemma release_keys:
  "held_ok s (K \<union> set ks) B \<Longrightarrow> held_ok (fold (\<lambda>k. inject env k Release) ks s) K B
     \<and> sk_keys (fold (\<lambda>k. inject env k Release) ks s) = sk_keys s \<and> sk_buttons (fold (\<lambda>k. inject env k Release) ks s) = sk_buttons s"
proof (induction ks arbitrary: s)
  case (Cons k ks)
  have "held_ok (inject env k Release s) (K \<union> set ks) B"
    using held_ok_mono [OF held_ok_do(4) [OF Cons.prems, of env k]] by (auto simp: inject_def)
  from Cons.IH [OF this] show ?case by (simp add: inject_def)
qed simp

lemma release_buttons:
  defines "rel env \<equiv> fold (\<lambda>b s. fst (os_do env (ButtonCall Release (map_button (decode_button b))) s))"
  shows "held_ok s K (B \<union> (\<lambda>b. map_button (decode_button b)) ` set bs) \<Longrightarrow> held_ok (rel env bs s) K B
     \<and> sk_keys (rel env bs s) = sk_keys s \<and> sk_buttons (rel env bs s) = sk_buttons s"
proof (induction bs arbitrary: s)
  case (Cons b bs)
  let ?s = "fst (os_do env (ButtonCall Release (map_button (decode_button b))) s)"
  have "held_ok ?s K (B \<union> (\<lambda>b. map_button (decode_button b)) ` set bs)"
    using held_ok_mono [OF held_ok_do(6) [OF Cons.prems, of env "map_button (decode_button b)"]] by auto
  from Cons.IH [OF this] show ?case by (simp add: rel_def)
qed (simp add: rel_def)

lemma sink_leave_spec:
  assumes "sink_inv s" "drains_all env"
  shows "held_ok (sink_leave env s) {} {} \<and> sk_keys (sink_leave env s) = [] \<and> sk_buttons (sink_leave env s) = []"
proof -
  let ?keys = "en_key_order env (map snd (sk_keys s))" and ?buttons = "en_button_order env (sk_buttons s)"
  have sets: "set ?keys = held_keys s" "(\<lambda>b. map_button (decode_button b)) ` set ?buttons = held_buttons s"
    using assms held_keys_set [of s] by (simp_all add: drains_all_def sink_inv_def held_buttons_def)
  have "held_ok (s\<lparr>sk_keys := []\<rparr>) ({} \<union> set ?keys) (held_buttons s)"
    using assms(1) sets(1) by (simp add: sink_inv_def held_ok_def)
  note k = release_keys [OF this, of env]
  let ?s = "fold (\<lambda>k. inject env k Release) ?keys (s\<lparr>sk_keys := []\<rparr>)"
  have "held_ok (?s\<lparr>sk_buttons := []\<rparr>) {} ({} \<union> (\<lambda>b. map_button (decode_button b)) ` set ?buttons)"
    using k sets(2) by (simp add: held_ok_def)
  note b = release_buttons [OF this, of env]
  have "sk_buttons ?s = sk_buttons s" using k by simp
  then show ?thesis using b k by (simp add: sink_leave_def Let_def)
qed

lemma sink_leave_inv: "sink_inv s \<Longrightarrow> drains_all env \<Longrightarrow> sink_inv (sink_leave env s)"
  using sink_leave_spec [of s env] by (auto simp: sink_inv_def bm_ok_Nil held_keys_def held_buttons_def)

lemma sink_step_inv: "sink_inv s \<Longrightarrow> drains_all env \<Longrightarrow> sink_inv (sink_step env s x)"
  using sink_inv_kept [OF keeps_held_move_to]
  by (cases x) (simp_all add: sink_enter_def sink_key_inv sink_mouse_inv sink_leave_inv)

lemma sink_new_inv: "sink_inv (with_perform sink_new perform)"
  by (simp add: sink_inv_def with_perform_def sink_new_def held_ok_def log_defs held_keys_def)

lemma sink_run_inv: "sink_inv s \<Longrightarrow> drains_all env \<Longrightarrow> sink_inv (sink_run env s ops)"
  by (induction ops rule: rev_induct) (simp_all add: sink_step_inv)

end
