(* ===== verification/Server_Net.thy ===== *)
theory Server_Net
  imports File_Router Clip_Share Trust Framing
begin

text \<open>
  \<^verbatim>\<open>crates/geserdesk-server/src/net.rs\<close>: the handshake, who is let in, and the session of one client.
  A connection is what its reads answer; \<open>fails\<close> says which of the messages sent cannot be. Rust's
  quoting of a name in an error text depends on tables of Unicode and is the parameter \<open>quote\<close>. The
  sockets and TLS itself are not modelled; the accept loop is in \<^verbatim>\<open>Server_Start\<close>.
\<close>

section \<open>Sending\<close>

definition KEEPALIVE_INTERVAL :: nat where
  "KEEPALIVE_INTERVAL = 3 * 1000"

definition KEEPALIVE_MISSES :: nat where
  "KEEPALIVE_MISSES = 3"

text \<open>Messages sent one after the other, up to the first that cannot be.\<close>

fun send_all :: "(nat \<Rightarrow> codec_error option) \<Rightarrow> nat \<Rightarrow> 'm list \<Rightarrow> 'm list \<times> codec_error option" where
  "send_all fails n [] = ([], None)"
| "send_all fails n (m # ms) =
     (case fails n of
        Some e \<Rightarrow> ([], Some e)
      | None \<Rightarrow> (let (sent, err) = send_all fails (n + 1) ms in (m # sent, err)))"

lemma send_all_ok: "send_all fails n ms = (sent, None) \<Longrightarrow> sent = ms"
  by (induction ms arbitrary: n sent) (auto simp: Let_def split: option.splits prod.splits)

section \<open>The handshake\<close>

datatype handshake_outcome =
    Accepted screen_info version
  | IncompatibleWith version
  | UnknownScreen string
  | Untrusted string
  | NameTaken string

datatype handshake_error = HsCodec codec_error | ExpectedHello

definition answer :: "(nat \<Rightarrow> codec_error option) \<Rightarrow> server_msg list \<Rightarrow> handshake_outcome
    \<Rightarrow> server_msg list \<times> (handshake_error + handshake_outcome)" where
  "answer fails ms out =
     (case send_all fails 0 ms of
        (sent, Some e) \<Rightarrow> (sent, Inl (HsCodec e))
      | (sent, None) \<Rightarrow> (sent, Inr out))"

definition no_screen_reason :: "(string \<Rightarrow> string) \<Rightarrow> string \<Rightarrow> string" where
  "no_screen_reason quote name = ''no screen named '' @ quote name @ '' in the server config''"

definition taken_reason :: "(string \<Rightarrow> string) \<Rightarrow> string \<Rightarrow> string" where
  "taken_reason quote name = ''screen '' @ quote name @ '' is already connected''"

text \<open>\<open>auth\<close> may remember a request; \<open>t\<close> is what it remembers it in. A reason is a refusal.\<close>

definition handshake :: "(string \<Rightarrow> string) \<Rightarrow> layout \<Rightarrow> options \<Rightarrow> nat \<Rightarrow> ('t \<Rightarrow> string \<Rightarrow> 't \<times> string option)
    \<Rightarrow> (string \<Rightarrow> bool) \<Rightarrow> bool \<Rightarrow> (nat \<Rightarrow> codec_error option) \<Rightarrow> codec_error + client_msg \<Rightarrow> 't
    \<Rightarrow> 't \<times> server_msg list \<times> (handshake_error + handshake_outcome)" where
  "handshake quote la opts keepalive auth name_taken accept_new fails hello t =
     (case hello of
        Inl e \<Rightarrow> (t, [], Inl (HsCodec e))
      | Inr (Hello v screen) \<Rightarrow>
          (let name = si_name screen; listed = has_screen la name
           in case negotiate PROTOCOL_VERSION v of
                Inl _ \<Rightarrow> (t, answer fails [Incompatible PROTOCOL_VERSION] (IncompatibleWith v))
              | Inr negotiated \<Rightarrow>
                  if \<not> listed \<and> \<not> (accept_new \<and> valid_screen_name name)
                  then (t, answer fails [Rejected (no_screen_reason quote name)] (UnknownScreen name))
                  else (case auth t name of
                    (t, Some reason) \<Rightarrow> (t, answer fails [Rejected reason] (Untrusted name))
                  | (t, None) \<Rightarrow>
                      (t, if \<not> listed then answer fails [Rejected (no_screen_reason quote name)] (UnknownScreen name)
                          else if name_taken name then answer fails [Rejected (taken_reason quote name)] (NameTaken name)
                          else answer fails [Welcome negotiated keepalive, SetOptions opts] (Accepted screen negotiated))))
      | Inr _ \<Rightarrow> (t, fst (send_all fails 0 [Close ProtocolError]), Inl ExpectedHello))"

section \<open>Who is let in\<close>

text \<open>What a client reported, made safe; \<open>abs\<close> of the source is \<^const>\<open>i32_abs\<close>, which wraps.\<close>

definition MAX_MONITORS :: nat where
  "MAX_MONITORS = 32"

definition sane_rect :: "rect \<Rightarrow> bool" where
  "sane_rect r \<longleftrightarrow> r_w r > 0 \<and> r_h r > 0 \<and> r_w r \<le> 1000000 \<and> r_h r \<le> 1000000
     \<and> i32_abs (r_x r) \<le> 1000000 \<and> i32_abs (r_y r) \<le> 1000000"

definition sanitize_monitors :: "screen_info \<Rightarrow> rect list" where
  "sanitize_monitors screen =
     (let ms = take MAX_MONITORS (filter sane_rect (si_monitors screen))
      in if ms = [] then ms @ [if sane_rect (si_bounds screen) then si_bounds screen else Rect 0 0 1920 1080] else ms)"

definition different_certificate_reason :: string where
  "different_certificate_reason =
     ''this screen is registered with a different certificate; approve the new one on the server''"

definition approval_reason :: "fingerprint \<Rightarrow> string" where
  "approval_reason fp = ''waiting for approval on the server (this client's fingerprint is '' @ fp_display fp @ '')''"

text \<open>The closure of \<^verbatim>\<open>handle_client\<close>: no \<open>tls\<close> is a server without TLS, \<open>fp\<close> the client's certificate.\<close>

definition authorize :: "fingerprint option \<Rightarrow> nat \<Rightarrow> string \<Rightarrow> trust option \<Rightarrow> string \<Rightarrow> trust option \<times> string option" where
  "authorize fp now addr tls name =
     (case tls of None \<Rightarrow> (tls, None)
      | Some t \<Rightarrow>
          (case fp of None \<Rightarrow> (tls, Some ''no client certificate'')
           | Some f \<Rightarrow>
               (case tr_check t name f of
                  Trusted \<Rightarrow> (tls, None)
                | Mismatch _ \<Rightarrow> (Some (note_pending t now name f addr), Some different_certificate_reason)
                | Unknown \<Rightarrow> (Some (note_pending t now name f addr), Some (approval_reason f)))))"

definition demo_script :: "screen_info \<Rightarrow> server_msg list" where
  "demo_script screen =
     (let c = r_center (si_bounds screen);
          lap = concat (map (\<lambda>(dx, dy). replicate 100 (Mouse (MoveRel dx dy))) [(3, 0), (0, 3), (-3, 0), (0, -3)])
      in [Enter (pt_x c) (pt_y c) 1 mm_empty] @ lap @ lap @ [Leave])"

record net_config =
  nc_layout :: layout
  nc_options :: options
  nc_demo :: bool

record session =
  se_name :: string
  se_missed :: nat
  se_pushed :: inbound
  se_demo :: "server_msg list"
  se_taken :: nat \<comment> \<open>how much of the client's queue the session has taken\<close>
  se_sent :: "server_msg list"

definition session_new :: "net_config \<Rightarrow> screen_info \<Rightarrow> server_msg list \<Rightarrow> session" where
  "session_new cfg screen sent =
     \<lparr>se_name = si_name screen, se_missed = 0, se_pushed = inb_new,
      se_demo = (if nc_demo cfg then demo_script screen else []), se_taken = 0, se_sent = sent\<rparr>"

text \<open>\<^verbatim>\<open>handle_client\<close> up to its session: the layout knows the screens added since.\<close>

definition known_layout :: "net_config \<Rightarrow> hub \<Rightarrow> layout" where
  "known_layout cfg h = fold (\<lambda>name l. fst (add_screen l name)) (hb_added h) (nc_layout cfg)"

definition admit :: "(string \<Rightarrow> string) \<Rightarrow> net_config \<Rightarrow> fingerprint option \<Rightarrow> nat \<Rightarrow> string \<Rightarrow> (nat \<Rightarrow> codec_error option)
    \<Rightarrow> codec_error + client_msg \<Rightarrow> trust option \<Rightarrow> file_router
    \<Rightarrow> trust option \<times> file_router \<times> server_msg list \<times> session option" where
  "admit quote cfg fp now addr fails hello tls s =
     (let (tls', sent, res) = handshake quote (known_layout cfg (fr_hub s)) (nc_options cfg) KEEPALIVE_INTERVAL
            (authorize fp now addr) (hub_contains (fr_hub s)) (tls \<noteq> None) fails hello tls
      in case res of
           Inr (Accepted screen v) \<Rightarrow>
             (case register (fr_hub s) (si_name screen) (sanitize_monitors screen) of
                None \<Rightarrow> (tls', s, sent, None)
              | Some h \<Rightarrow> (tls', s\<lparr>fr_hub := h\<rparr>, sent, Some (session_new cfg screen sent)))
         | _ \<Rightarrow> (tls', s, sent, None))"

section \<open>The session\<close>

datatype session_input = InDemo | InOutbox | InTick | InMsg client_msg | InFailed codec_error

datatype session_end = EndOk | EndMissed | EndCodec codec_error

text \<open>Sending one message of a session; \<open>fails\<close> looks at what was sent before.\<close>

definition se_send :: "(server_msg list \<Rightarrow> codec_error option) \<Rightarrow> server_msg \<Rightarrow> session \<Rightarrow> session \<times> codec_error option" where
  "se_send fails m st =
     (case fails (se_sent st) of None \<Rightarrow> (st\<lparr>se_sent := se_sent st @ [m]\<rparr>, None) | Some e \<Rightarrow> (st, Some e))"

definition se_data :: "postcard \<Rightarrow> options \<Rightarrow> clipboard_id \<Rightarrow> nat \<Rightarrow> chunk \<Rightarrow> file_router \<Rightarrow> session \<Rightarrow> file_router \<times> session" where
  "se_data pc opts cid seq c s st =
     (if clipboard_sharing opts \<or> clipboard_files opts then
        (let (inb, r) = inb_data pc (se_pushed st) cid seq c; st = st\<lparr>se_pushed := inb\<rparr>
         in case r of
              Inr (Some ct) \<Rightarrow>
                if (if cc_files pc ct \<noteq> None then clipboard_files opts else clipboard_sharing opts)
                then (s\<lparr>fr_hub := clipboard_in (fr_hub s) (se_name st) ct\<rparr>, st)
                else (s, st)
            | _ \<Rightarrow> (s, st))
      else (s, st))"

definition se_receive :: "postcard \<Rightarrow> options \<Rightarrow> client_msg \<Rightarrow> file_router \<Rightarrow> session \<Rightarrow> file_router \<times> session" where
  "se_receive pc opts m s st =
     (let st = st\<lparr>se_missed := 0\<rparr>
      in case m of
           ScreenChanged info \<Rightarrow> (s\<lparr>fr_hub := set_monitors (fr_hub s) (se_name st) (sanitize_monitors info)\<rparr>, st)
         | CClipboardGrab cid seq \<Rightarrow>
             (s, if clipboard_sharing opts \<or> clipboard_files opts
                 then st\<lparr>se_pushed := inb_grab cid seq (effective_max (clipboard_max_bytes opts))\<rparr> else st)
         | CClipboardData cid seq c \<Rightarrow> se_data pc opts cid seq c s st
         | CFileRead seq req index off len \<Rightarrow> (request_for_client s (se_name st) seq req index off len, st)
         | CFileReply req result \<Rightarrow> (reply_from_client s (se_name st) req result, st)
         | CKeepAlive \<Rightarrow> (s, st)
         | Hello _ _ \<Rightarrow> (s, st))"

definition session_step :: "postcard \<Rightarrow> options \<Rightarrow> (server_msg list \<Rightarrow> codec_error option) \<Rightarrow> session_input
    \<Rightarrow> file_router \<Rightarrow> session \<Rightarrow> file_router \<times> session \<times> session_end option" where
  "session_step pc opts fails inp s st =
     (case inp of
        InDemo \<Rightarrow>
          (case se_demo st of
             [] \<Rightarrow> (s, st, None)
           | m # ms \<Rightarrow> (let (st, err) = se_send fails m (st\<lparr>se_demo := ms\<rparr>) in (s, st, map_option EndCodec err)))
      | InOutbox \<Rightarrow>
          (let q = hub_delivered (fr_hub s) (se_name st)
           in if \<not> se_taken st < length q then (s, st, None)
              else let m = q ! se_taken st; (st, err) = se_send fails m (st\<lparr>se_taken := se_taken st + 1\<rparr>)
                   in (s, st, case err of Some e \<Rightarrow> Some (EndCodec e)
                              | None \<Rightarrow> (case m of Close _ \<Rightarrow> Some EndOk | _ \<Rightarrow> None)))
      | InTick \<Rightarrow>
          (case se_send fails SKeepAlive st of
             (st, Some e) \<Rightarrow> (s, st, Some (EndCodec e))
           | (st, None) \<Rightarrow>
               (let st = st\<lparr>se_missed := se_missed st + 1\<rparr>
                in if se_missed st \<ge> KEEPALIVE_MISSES then (s, fst (se_send fails (Close Timeout) st), Some EndMissed)
                   else (s, st, None)))
      | InMsg m \<Rightarrow> (let (s, st) = se_receive pc opts m s st in (s, st, None))
      | InFailed Closed \<Rightarrow> (s, st, Some EndOk)
      | InFailed e \<Rightarrow> (s, st, Some (EndCodec e)))"

text \<open>What follows the loop: a goodbye, the reads failed, and the registration dropped.\<close>

definition finish_session :: "(server_msg list \<Rightarrow> codec_error option) \<Rightarrow> file_router \<Rightarrow> session \<Rightarrow> file_router \<times> session" where
  "finish_session fails s st =
     (let st = fst (se_send fails (Close ServerShutdown) st);
          s = on_disconnected s (se_name st)
      in (s\<lparr>fr_hub := unregister (fr_hub s) (se_name st)\<rparr>, st))"

end
