(* ===== verification/Server_Run.thy ===== *)
theory Server_Run
  imports Server_Net
begin

text \<open>
  The server of \<^verbatim>\<open>net.rs\<close> as a whole: connections are let in or refused, sessions take their inputs in
  any order and end, and the rest of the program works on the same hub, file router and trust.
\<close>

section \<open>State\<close>

record server =
  sv_router :: file_router \<comment> \<open>with the hub inside\<close>
  sv_trust :: "trust option" \<comment> \<open>\<^const>\<open>None\<close>: without TLS\<close>
  sv_sessions :: "(string, session) bmap"

record server_env =
  sve_quote :: "string \<Rightarrow> string"
  sve_pc :: postcard
  sve_config :: net_config

definition server_new :: "trust option \<Rightarrow> file_router \<Rightarrow> server" where
  "server_new tls s = \<lparr>sv_router = s, sv_trust = tls, sv_sessions = []\<rparr>"

section \<open>Steps\<close>

datatype server_op =
    SvConnect "fingerprint option" nat string "nat \<Rightarrow> codec_error option" "codec_error + client_msg"
  | SvSession string "server_msg list \<Rightarrow> codec_error option" session_input
  | SvTrust trust_op
  | SvElsewhere froute_op

definition sv_connect :: "server_env \<Rightarrow> server \<Rightarrow> fingerprint option \<Rightarrow> nat \<Rightarrow> string \<Rightarrow> (nat \<Rightarrow> codec_error option)
    \<Rightarrow> codec_error + client_msg \<Rightarrow> server" where
  "sv_connect env sv fp now addr fails hello =
     (let (tls, s, sent, st) = admit (sve_quote env) (sve_config env) fp now addr fails hello (sv_trust sv) (sv_router sv)
      in \<lparr>sv_router = s, sv_trust = tls,
          sv_sessions = (case st of None \<Rightarrow> sv_sessions sv | Some st \<Rightarrow> bm_insert (se_name st) st (sv_sessions sv))\<rparr>)"

definition sv_session :: "server_env \<Rightarrow> server \<Rightarrow> string \<Rightarrow> (server_msg list \<Rightarrow> codec_error option) \<Rightarrow> session_input \<Rightarrow> server" where
  "sv_session env sv name fails inp =
     (case bm_get (sv_sessions sv) name of
        None \<Rightarrow> sv
      | Some st \<Rightarrow>
          (case session_step (sve_pc env) (nc_options (sve_config env)) fails inp (sv_router sv) st of
             (s, st, None) \<Rightarrow> sv\<lparr>sv_router := s, sv_sessions := bm_insert name st (sv_sessions sv)\<rparr>
           | (s, st, Some _) \<Rightarrow>
               sv\<lparr>sv_router := fst (finish_session fails s st), sv_sessions := bm_remove name (sv_sessions sv)\<rparr>))"

fun server_step :: "server_env \<Rightarrow> server \<Rightarrow> server_op \<Rightarrow> server" where
  "server_step env sv (SvConnect fp now addr fails hello) = sv_connect env sv fp now addr fails hello"
| "server_step env sv (SvSession name fails inp) = sv_session env sv name fails inp"
| "server_step env sv (SvTrust op) = sv\<lparr>sv_trust := map_option (\<lambda>t. trust_step t op) (sv_trust sv)\<rparr>"
| "server_step env sv (SvElsewhere op) = sv\<lparr>sv_router := froute_step (sv_router sv) op\<rparr>"

definition server_run :: "server_env \<Rightarrow> server \<Rightarrow> server_op list \<Rightarrow> server" where
  "server_run env sv ops = foldl (server_step env) sv ops"

lemma server_run_snoc [simp]: "server_run env sv (ops @ [op]) = server_step env (server_run env sv ops) op"
  by (simp add: server_run_def)

lemma server_run_Nil [simp]: "server_run env sv [] = sv"
  by (simp add: server_run_def)

text \<open>Only sessions register and unregister clients and close their queues.\<close>

fun elsewhere :: "server_op \<Rightarrow> bool" where
  "elsewhere (SvElsewhere (FDisconnected _)) \<longleftrightarrow> False"
| "elsewhere (SvElsewhere (FHub (ORegister _ _))) \<longleftrightarrow> False"
| "elsewhere (SvElsewhere (FHub (OUnregister _))) \<longleftrightarrow> False"
| "elsewhere (SvElsewhere (FHub (OClose _))) \<longleftrightarrow> False"
| "elsewhere _ \<longleftrightarrow> True"

section \<open>What a session does to the router\<close>

text \<open>Every input of a session is one operation of the file router, or none.\<close>

fun session_op :: "froute_op option \<Rightarrow> file_router \<Rightarrow> file_router" where
  "session_op None s = s"
| "session_op (Some op) s = froute_step s op"

lemma se_send_name [simp]: "se_name (fst (se_send fails m st)) = se_name st"
  by (simp add: se_send_def split: option.split)

lemma se_send_name': "se_send fails m st = (st', e) \<Longrightarrow> se_name st' = se_name st"
  by (auto simp: se_send_def split: option.splits)

definition harmless :: "string \<Rightarrow> froute_op option \<Rightarrow> bool" where
  "harmless n op \<longleftrightarrow> (case op of None \<Rightarrow> True | Some op \<Rightarrow>
     (case op of FRequest m _ _ _ _ _ \<Rightarrow> m = n | FReply m _ _ \<Rightarrow> m = n
      | FHub (OSetMonitors m _) \<Rightarrow> m = n | FHub (OClipboardIn m _) \<Rightarrow> m = n | _ \<Rightarrow> False))"

lemma se_receive_op:
  assumes "se_receive pc opts m s st = (s', st')"
  shows "se_name st' = se_name st \<and> (\<exists>op. harmless (se_name st) op \<and> s' = session_op op s)"
proof (cases m)
  case (CClipboardData cid seq c)
  obtain inb r where i: "inb_data pc (se_pushed st) cid seq c = (inb, r)" by fastforce
  show ?thesis
  proof (cases "\<exists>ct. r = Inr (Some ct) \<and> (clipboard_sharing opts \<or> clipboard_files opts)
      \<and> (if cc_files pc ct \<noteq> None then clipboard_files opts else clipboard_sharing opts)")
    case True
    then obtain ct where ct: "r = Inr (Some ct)" "clipboard_sharing opts \<or> clipboard_files opts"
      "if cc_files pc ct \<noteq> None then clipboard_files opts else clipboard_sharing opts" by blast
    then have "s' = session_op (Some (FHub (OClipboardIn (se_name st) ct))) s" "se_name st' = se_name st"
      using assms i by (auto simp: CClipboardData se_receive_def se_data_def Let_def split: if_splits)
    then show ?thesis by (intro conjI exI [of _ "Some (FHub (OClipboardIn (se_name st) ct))"]) (simp_all add: harmless_def)
  next
    case False
    then have "s' = s \<and> se_name st' = se_name st"
      using assms i by (auto simp: CClipboardData se_receive_def se_data_def Let_def split: if_splits option.splits sum.splits)
    then show ?thesis by (intro conjI exI [of _ None]) (simp_all add: harmless_def)
  qed
next
  case (ScreenChanged info)
  then show ?thesis using assms
    by (intro conjI exI [of _ "Some (FHub (OSetMonitors (se_name st) (sanitize_monitors info)))"])
      (auto simp: se_receive_def Let_def harmless_def)
next
  case (CFileRead seq req index off len)
  then show ?thesis using assms
    by (intro conjI exI [of _ "Some (FRequest (se_name st) seq req index off len)"]) (auto simp: se_receive_def Let_def harmless_def)
next
  case (CFileReply req result)
  then show ?thesis using assms
    by (intro conjI exI [of _ "Some (FReply (se_name st) req result)"]) (auto simp: se_receive_def Let_def harmless_def)
qed (use assms in \<open>auto simp: se_receive_def Let_def harmless_def intro!: exI [of _ None]\<close>)

lemma session_step_op:
  assumes "session_step pc opts fails inp s st = (s', st', e)"
  shows "se_name st' = se_name st \<and> (\<exists>op. harmless (se_name st) op \<and> s' = session_op op s)"
proof (cases inp)
  case (InMsg m)
  then show ?thesis using assms se_receive_op [of pc opts m s st] by (auto simp: session_step_def split: prod.splits)
next
  case InTick
  have "s' = s \<and> se_name st' = se_name st"
    using assms by (auto simp: InTick session_step_def Let_def dest: se_send_name' split: prod.splits option.splits if_splits)
  then show ?thesis by (intro conjI exI [of _ None]) (simp_all add: harmless_def)
next
  case InOutbox
  have "s' = s \<and> se_name st' = se_name st"
    using assms by (auto simp: InOutbox session_step_def Let_def dest: se_send_name' split: prod.splits if_splits)
  then show ?thesis by (intro conjI exI [of _ None]) (simp_all add: harmless_def)
next
  case InDemo
  have "s' = s \<and> se_name st' = se_name st"
    using assms by (auto simp: InDemo session_step_def Let_def dest: se_send_name' split: prod.splits list.splits)
  then show ?thesis by (intro conjI exI [of _ None]) (simp_all add: harmless_def)
next
  case (InFailed c)
  have "s' = s \<and> se_name st' = se_name st"
    using assms by (cases c) (auto simp: InFailed session_step_def)
  then show ?thesis by (intro conjI exI [of _ None]) (simp_all add: harmless_def)
qed

section \<open>Who is there\<close>

lemma who_send [simp]:
  "hub_reachable (fst (hub_send h n m)) k = hub_reachable h k" "hub_contains (fst (hub_send h n m)) k = hub_contains h k"
  by (auto simp: hub_reachable_def hub_contains_def bm_has_iff hub_send_def split: option.split)

lemma who_deliver [simp]:
  "hub_reachable (fr_hub (fr_deliver s w res)) k = hub_reachable (fr_hub s) k"
  "hub_contains (fr_hub (fr_deliver s w res)) k = hub_contains (fr_hub s) k"
  by (auto simp: fr_deliver_def Let_def split: waiting.split)

lemma who_fail [simp]:
  "hub_reachable (fr_hub (fail_pending req s)) k = hub_reachable (fr_hub s) k"
  "hub_contains (fr_hub (fail_pending req s)) k = hub_contains (fr_hub s) k"
  by (auto simp: fail_pending_def split: option.split)

lemma who_fold_fail [simp]:
  "hub_reachable (fr_hub (fold fail_pending rs s)) k = hub_reachable (fr_hub s) k"
  "hub_contains (fr_hub (fold fail_pending rs s)) k = hub_contains (fr_hub s) k"
  by (induction rs arbitrary: s) auto

lemma who_route [simp]:
  "hub_reachable (fr_hub (fr_route s seq i off len w)) k = hub_reachable (fr_hub s) k"
  "hub_contains (fr_hub (fr_route s seq i off len w)) k = hub_contains (fr_hub s) k"
  by (auto simp: fr_route_def Let_def split: option.split owner_id.split)

lemma who_disconnected [simp]:
  "hub_reachable (fr_hub (on_disconnected s n)) k = hub_reachable (fr_hub s) k"
  "hub_contains (fr_hub (on_disconnected s n)) k = hub_contains (fr_hub s) k"
  by (simp_all add: on_disconnected_def Let_def)

lemma who_hub_step:
  assumes "elsewhere (SvElsewhere (FHub op))"
  shows "hub_reachable (hub_step h op) k = hub_reachable h k" "hub_contains (hub_step h op) k = hub_contains h k"
proof -
  have "hub_reachable (hub_step h op) k = hub_reachable h k \<and> hub_contains (hub_step h op) k = hub_contains h k"
  proof (cases op)
    case (OBroadcast ex ms)
    then show ?thesis by (auto simp: hub_reachable_def hub_contains_def bm_has_iff broadcast_get push_all_def split: option.split)
  qed (use assms in \<open>auto simp: hub_reachable_def hub_contains_def bm_has_iff hub_defs Let_def split: option.splits\<close>)
  then show "hub_reachable (hub_step h op) k = hub_reachable h k" "hub_contains (hub_step h op) k = hub_contains h k" by simp_all
qed

lemma who_froute_step:
  assumes "elsewhere (SvElsewhere op)"
  shows "hub_reachable (fr_hub (froute_step s op)) k = hub_reachable (fr_hub s) k"
    "hub_contains (fr_hub (froute_step s op)) k = hub_contains (fr_hub s) k"
  using assms
  by (cases op; auto simp: fr_announce_def request_for_client_def request_local_def run_job_def reply_from_client_def Let_def
      who_hub_step split: option.split)+

lemma harmless_elsewhere: "harmless n (Some op) \<Longrightarrow> elsewhere (SvElsewhere op)"
  by (auto simp: harmless_def split: froute_op.splits hub_op.splits)

text \<open>A read waits only on somebody who is connected.\<close>

definition waits_ok :: "file_router \<Rightarrow> bool" where
  "waits_ok s \<longleftrightarrow> bm_ok (fr_pending s) \<and> (\<forall>req p. bm_get (fr_pending s) req = Some p \<longrightarrow> hub_reachable (fr_hub s) (pd_sent_to p))"

lemma waits_ok_fail: "waits_ok s \<Longrightarrow> waits_ok (fail_pending req s)"
  by (simp add: waits_ok_def bm_ok_remove)

lemma waits_ok_route:
  assumes "waits_ok s"
  shows "waits_ok (fr_route s seq i off len w)"
proof (cases "fr_current_owner s")
  case None
  then show ?thesis using assms by (simp add: fr_route_def waits_ok_def)
next
  case (Some ow)
  show ?thesis
  proof (cases ow)
    case OwnServer
    then show ?thesis using Some assms by (simp add: fr_route_def waits_ok_def)
  next
    case (OwnClient name)
    show ?thesis
    proof (cases "snd (hub_send (fr_hub s) name (SFileRead seq (fr_next s) i off len))")
      case True
      then have "hub_reachable (fr_hub s) name" by (auto simp: hub_send_def hub_reachable_def split: option.splits if_splits)
      then show ?thesis using True Some OwnClient assms by (simp add: fr_route_def Let_def waits_ok_def)
    next
      case False
      then show ?thesis using Some OwnClient assms by (simp add: fr_route_def Let_def waits_ok_def)
    qed
  qed
qed

lemma waits_ok_step:
  assumes "waits_ok s" "elsewhere (SvElsewhere op)"
  shows "waits_ok (froute_step s op)"
proof (cases op)
  case (FReply n req res)
  then show ?thesis using assms(1)
    by (auto simp: reply_from_client_def Let_def waits_ok_def split: option.split)
next
  case (FHub hop)
  then show ?thesis using assms who_hub_step by (simp add: waits_ok_def)
next
  case (FDisconnected n)
  then show ?thesis using assms(2) by simp
qed (use assms(1) in \<open>simp_all add: waits_ok_route request_for_client_def request_local_def run_job_def Let_def,
    simp_all add: waits_ok_def fr_announce_def\<close>)

lemma waits_ok_disconnected:
  assumes "waits_ok s"
  shows "waits_ok (on_disconnected s name)
    \<and> (\<forall>req p. bm_get (fr_pending (on_disconnected s name)) req = Some p \<longrightarrow> pd_sent_to p \<noteq> name)"
proof -
  have stale: "k \<in> set (stale_reqs s name) \<longleftrightarrow> (\<exists>p. bm_get (fr_pending s) k = Some p \<and> pd_sent_to p = name)" for k
    using assms unfolding waits_ok_def stale_reqs_def by (force dest: bm_getI bm_getD)
  have eq: "fr_pending (on_disconnected s name) = filter (\<lambda>(k, _). k \<notin> set (stale_reqs (drop_owner s name) name)) (fr_pending s)"
    by (simp add: on_disconnected_def Let_def fold_fail_pending)
  have "stale_reqs (drop_owner s name) name = stale_reqs s name" by (simp add: stale_reqs_def)
  then have get: "bm_get (fr_pending (on_disconnected s name)) req = (if req \<in> set (stale_reqs s name) then None else bm_get (fr_pending s) req)" for req
    using bm_get_filter_key [of "\<lambda>k. k \<notin> set (stale_reqs s name)" "fr_pending s" req] by (simp add: eq)
  have ok: "bm_ok (fr_pending (on_disconnected s name))" using assms by (simp add: eq waits_ok_def bm_ok_filter)
  have reach: "hub_reachable (fr_hub (on_disconnected s name)) k = hub_reachable (fr_hub s) k" for k
    by (simp add: on_disconnected_def Let_def)
  show ?thesis
    using assms ok by (auto simp: waits_ok_def get reach stale split: if_splits)
qed

section \<open>The sessions are the clients\<close>

definition server_ok :: "server \<Rightarrow> bool" where
  "server_ok sv \<longleftrightarrow> waits_ok (sv_router sv)
     \<and> (\<forall>n. hub_reachable (fr_hub (sv_router sv)) n = bm_has (sv_sessions sv) n)
     \<and> (\<forall>n. hub_contains (fr_hub (sv_router sv)) n = bm_has (sv_sessions sv) n)
     \<and> (\<forall>n st. bm_get (sv_sessions sv) n = Some st \<longrightarrow> se_name st = n)"

lemma session_op_ok:
  assumes "waits_ok s" "harmless n op"
  shows "waits_ok (session_op op s)" "hub_reachable (fr_hub (session_op op s)) k = hub_reachable (fr_hub s) k"
    "hub_contains (fr_hub (session_op op s)) k = hub_contains (fr_hub s) k"
  using assms waits_ok_step who_froute_step harmless_elsewhere by (cases op; auto)+

lemma admit_cases:
  assumes "admit quote cfg fp now addr fails hello tls s = (tls', s', sent, r)"
  shows "(r = None \<and> s' = s) \<or>
    (\<exists>v screen. hello = Inr (Hello v screen) \<and> r = Some (session_new cfg screen sent)
       \<and> register (fr_hub s) (si_name screen) (sanitize_monitors screen) = Some (fr_hub s') \<and> s' = s\<lparr>fr_hub := fr_hub s'\<rparr>)"
proof -
  obtain t1 sent1 res where h: "handshake quote (known_layout cfg (fr_hub s)) (nc_options cfg) KEEPALIVE_INTERVAL
      (authorize fp now addr) (hub_contains (fr_hub s)) (tls \<noteq> None) fails hello tls = (t1, sent1, res)"
    by (metis prod_cases3)
  have screen: "\<exists>v. hello = Inr (Hello v screen)" if "res = Inr (Accepted screen nv)" for screen nv
    using h that by (auto simp: handshake_def answer_def Let_def split: sum.splits client_msg.splits prod.splits option.splits if_splits)
  show ?thesis
    using assms screen unfolding admit_def h Let_def prod.case
    by (auto split: sum.splits handshake_outcome.splits option.splits)
qed

lemma register_clients:
  assumes "register h n ms = Some h'"
  shows "hb_clients h' = bm_insert n \<lparr>ce_open = True, ce_queue = [], ce_monitors = ms\<rparr> (hb_clients h)" "\<not> hub_contains h n"
  using assms by (auto simp: register_def Let_def emit_def hub_contains_def split: if_splits)

lemma server_ok_connect:
  assumes "server_ok sv"
  shows "server_ok (sv_connect env sv fp now addr fails hello)"
proof -
  obtain tls s sent r where ad: "admit (sve_quote env) (sve_config env) fp now addr fails hello (sv_trust sv) (sv_router sv) = (tls, s, sent, r)"
    by (metis prod_cases4)
  from admit_cases [OF ad] show ?thesis
  proof (elim disjE exE conjE)
    assume "r = None" "s = sv_router sv"
    then show ?thesis using assms ad by (simp add: sv_connect_def server_ok_def)
  next
    fix v screen
    assume r: "r = Some (session_new (sve_config env) screen sent)"
      and reg: "register (fr_hub (sv_router sv)) (si_name screen) (sanitize_monitors screen) = Some (fr_hub s)"
      and s: "s = (sv_router sv)\<lparr>fr_hub := fr_hub s\<rparr>"
    have who: "hub_reachable (fr_hub s) k = (k = si_name screen \<or> hub_reachable (fr_hub (sv_router sv)) k)"
      "hub_contains (fr_hub s) k = (k = si_name screen \<or> hub_contains (fr_hub (sv_router sv)) k)" for k
      using reg by (simp_all add: hub_reachable_def hub_contains_def register_clients)
    have "waits_ok s"
      using assms s who(1) unfolding server_ok_def waits_ok_def by (metis (no_types, lifting) file_router.select_convs(4) file_router.surjective file_router.update_convs(1))
    then show ?thesis using assms ad r who by (auto simp: sv_connect_def server_ok_def session_new_def)
  qed
qed

lemma server_ok_session:
  assumes "server_ok sv"
  shows "server_ok (sv_session env sv name fails inp)"
proof (cases "bm_get (sv_sessions sv) name")
  case None
  then show ?thesis using assms by (simp add: sv_session_def)
next
  case (Some st)
  obtain s1 st1 e where step: "session_step (sve_pc env) (nc_options (sve_config env)) fails inp (sv_router sv) st = (s1, st1, e)"
    by (metis prod_cases3)
  have nm: "se_name st1 = name" "se_name st = name"
    using session_step_op [OF step] assms Some by (auto simp: server_ok_def)
  obtain op where op: "harmless name op" "s1 = session_op op (sv_router sv)"
    using session_step_op [OF step] nm by auto
  have s1: "waits_ok s1" "hub_reachable (fr_hub s1) k = hub_reachable (fr_hub (sv_router sv)) k"
    "hub_contains (fr_hub s1) k = hub_contains (fr_hub (sv_router sv)) k" for k
    using session_op_ok [OF _ op(1)] assms by (simp_all add: op(2) server_ok_def)
  show ?thesis
  proof (cases e)
    case None
    then show ?thesis using assms Some step s1 nm by (auto simp: sv_session_def server_ok_def bm_has_iff)
  next
    case (Some x)
    note w = waits_ok_disconnected [OF s1(1), of name]
    let ?s = "on_disconnected s1 name"
    have fin: "fst (finish_session fails s1 st1) = ?s\<lparr>fr_hub := unregister (fr_hub ?s) name\<rparr>"
      by (simp add: finish_session_def nm Let_def)
    have gone: "hub_reachable (unregister h name) k = (k \<noteq> name \<and> hub_reachable h k)"
      "hub_contains (unregister h name) k = (k \<noteq> name \<and> hub_contains h k)" for h k
      by (auto simp: unregister_def emit_def hub_reachable_def hub_contains_def bm_has_iff)
    have "waits_ok (?s\<lparr>fr_hub := unregister (fr_hub ?s) name\<rparr>)"
      using w by (auto simp: waits_ok_def gone)
    then show ?thesis
      using assms Some \<open>bm_get (sv_sessions sv) name = Some st\<close> step s1 gone
      by (auto simp: sv_session_def server_ok_def fin bm_has_iff)
  qed
qed

lemma server_ok_step:
  assumes "server_ok sv" "elsewhere op"
  shows "server_ok (server_step env sv op)"
proof (cases op)
  case (SvElsewhere fop)
  then show ?thesis using assms waits_ok_step [of "sv_router sv" fop] who_froute_step [of fop "sv_router sv"]
    by (simp add: server_ok_def)
next
  case (SvTrust top)
  then show ?thesis using assms(1) by (simp add: server_ok_def)
qed (simp_all add: assms(1) server_ok_connect server_ok_session)

lemma server_ok_run: "server_ok sv \<Longrightarrow> list_all elsewhere ops \<Longrightarrow> server_ok (server_run env sv ops)"
  by (induction ops rule: rev_induct) (simp_all add: server_ok_step)

lemma server_ok_new: "server_ok (server_new tls (froute_new (load_disabled hub_new names)))"
  by (simp add: server_ok_def server_new_def froute_new_def waits_ok_def load_disabled_def hub_new_def hub_reachable_def
      hub_contains_def bm_has_iff bm_ok_Nil)

end
