(* ===== verification/Client.thy ===== *)
theory Client
  imports Inject Clip_Share Sync File_Owner Framing
begin

text \<open>
  \<^verbatim>\<open>crates/geserdesk-client/src/files.rs\<close> (the channel between a pull and its session) and the session
  of \<^verbatim>\<open>net.rs\<close>: the client's clipboard and its loop over what the server sends. Input goes to any
  \<^verbatim>\<open>InputSink\<close>. Times are milliseconds; the tree below a copied path, what the monitors are now and
  which sends fail come with each event.
\<close>

section \<open>Requests for the server's files\<close>

record file_channel =
  ch_next :: nat
  ch_pending :: "nat list" \<comment> \<open>requests a pull waits on\<close>
  ch_outgoing :: "client_msg list" \<comment> \<open>queued for the session to send\<close>
  ch_open :: bool \<comment> \<open>the session still drains the queue\<close>
  ch_answers :: "(nat \<times> file_read_result) list"

definition ch_new :: file_channel where
  "ch_new = \<lparr>ch_next = 1, ch_pending = [], ch_outgoing = [], ch_open = True, ch_answers = []\<rparr>"

text \<open>The start of \<^verbatim>\<open>read\<close>, up to its wait; a closed queue answers at once, and forgets.\<close>

definition ch_forget :: "nat \<Rightarrow> file_channel \<Rightarrow> file_channel" where
  "ch_forget req ch = ch\<lparr>ch_pending := removeAll req (ch_pending ch)\<rparr>"

definition ch_read :: "nat \<Rightarrow> nat \<Rightarrow> nat \<Rightarrow> nat \<Rightarrow> file_channel \<Rightarrow> file_channel \<times> nat" where
  "ch_read seq index off len ch =
     (let req = ch_next ch;
          ch = ch\<lparr>ch_next := u64 (req + 1), ch_pending := List.insert req (ch_pending ch)\<rparr>
      in if ch_open ch then (ch\<lparr>ch_outgoing := ch_outgoing ch @ [CFileRead seq req index off len]\<rparr>, req)
         else (ch_forget req (ch\<lparr>ch_answers := ch_answers ch @ [(req, FErr NotFound)]\<rparr>), req))"

definition ch_reply :: "nat \<Rightarrow> file_read_result \<Rightarrow> file_channel \<Rightarrow> file_channel" where
  "ch_reply req result ch =
     (if req \<in> set (ch_pending ch)
      then ch\<lparr>ch_pending := removeAll req (ch_pending ch), ch_answers := ch_answers ch @ [(req, result)]\<rparr>
      else ch)"

text \<open>The session is over: the queue's other end is gone.\<close>

definition ch_close :: "file_channel \<Rightarrow> file_channel" where
  "ch_close ch = ch\<lparr>ch_open := False, ch_outgoing := []\<rparr>"

section \<open>The clipboard of one connection\<close>

text \<open>A pull the session started: the announcement, and the limit in force.\<close>

record started_pull =
  sp_seq :: nat
  sp_manifest :: file_manifest
  sp_max :: nat

record 'c client_clip =
  cb_sync :: "'c sync option"
  cb_options :: options
  cb_inbound :: inbound
  cb_seq :: nat
  cb_owner :: file_owner
  cb_channel :: file_channel
  cb_pending_own :: "(file_manifest \<times> path list) option"
  cb_remote :: "(nat \<times> file_manifest) option"
  cb_last_pulled :: "nat option"
  cb_pulls :: "started_pull list" \<comment> \<open>history of \<^verbatim>\<open>spawn_pull\<close>\<close>

definition cb_new :: "'c sync option \<Rightarrow> options \<Rightarrow> 'c client_clip" where
  "cb_new sy opts =
     \<lparr>cb_sync = sy, cb_options = opts, cb_inbound = inb_new, cb_seq = 0, cb_owner = fo_new, cb_channel = ch_new,
      cb_pending_own = None, cb_remote = None, cb_last_pulled = None, cb_pulls = []\<rparr>"

definition cb_active :: "'c client_clip \<Rightarrow> bool" where
  "cb_active c \<longleftrightarrow> cb_sync c \<noteq> None \<and> clipboard_sharing (cb_options c)"

definition cb_files_active :: "'c client_clip \<Rightarrow> bool" where
  "cb_files_active c \<longleftrightarrow> cb_sync c \<noteq> None \<and> clipboard_files (cb_options c)"

definition cb_max_bytes :: "'c client_clip \<Rightarrow> nat" where
  "cb_max_bytes c = effective_max (clipboard_max_bytes (cb_options c))"

definition cb_files_max_bytes :: "'c client_clip \<Rightarrow> nat" where
  "cb_files_max_bytes c = effective_files_max (clipboard_files_max_bytes (cb_options c))"

text \<open>The system below: the encoder, the clipboard's operations and the hashes.\<close>

record 'c clip_env =
  ve_pc :: postcard
  ve_oc :: "'c os_clipboard"
  ve_hs :: hashes

definition cb_prime :: "'c clip_env \<Rightarrow> 'c client_clip \<Rightarrow> 'c client_clip" where
  "cb_prime env c =
     (case cb_sync c of
        None \<Rightarrow> c
      | Some sy \<Rightarrow>
          (let sy = (if clipboard_sharing (cb_options c) then sy_prime (ve_oc env) (ve_hs env) sy else sy);
               sy = (if clipboard_files (cb_options c) then sy_prime_files (ve_oc env) (ve_hs env) sy else sy)
           in c\<lparr>cb_sync := Some sy\<rparr>))"

text \<open>The messages of one push.\<close>

definition push_messages :: "postcard \<Rightarrow> nat \<Rightarrow> content \<Rightarrow> client_msg list" where
  "push_messages pc seq ct = CClipboardGrab Clipboard seq # map (CClipboardData Clipboard seq) (outbound pc ct)"

definition push_text :: "'c clip_env \<Rightarrow> 'c client_clip \<Rightarrow> 'c client_clip \<times> client_msg list" where
  "push_text env c =
     (case cb_sync c of
        None \<Rightarrow> (c, [])
      | Some sy \<Rightarrow>
          if \<not> clipboard_sharing (cb_options c) then (c, [])
          else (case sy_poll (ve_pc env) (ve_oc env) (ve_hs env) (cb_max_bytes c) sy of
                  (sy, None) \<Rightarrow> (c\<lparr>cb_sync := Some sy\<rparr>, [])
                | (sy, Some ct) \<Rightarrow>
                    (let c = c\<lparr>cb_sync := Some sy, cb_seq := u64 (cb_seq c + 1)\<rparr>
                     in (c, push_messages (ve_pc env) (cb_seq c) ct))))"

definition cb_changed :: "'c clip_env \<Rightarrow> (path \<Rightarrow> tree) \<Rightarrow> 'c client_clip \<Rightarrow> 'c client_clip \<times> client_msg list" where
  "cb_changed env look c =
     (case cb_sync c of
        None \<Rightarrow> push_text env c
      | Some sy \<Rightarrow>
          if clipboard_files (cb_options c) \<and> cb_pending_own c = None then
            (case sy_poll_files (ve_oc env) (ve_hs env) sy of
               (sy, None) \<Rightarrow> push_text env (c\<lparr>cb_sync := Some sy\<rparr>)
             | (sy, Some roots) \<Rightarrow>
                 (let c = c\<lparr>cb_sync := Some sy\<rparr>
                  in case collect (map (\<lambda>p. (p, look p)) roots) (cb_files_max_bytes c) of
                       Inl e \<Rightarrow> push_text env c
                     | Inr (m, ps) \<Rightarrow>
                         (let c = c\<lparr>cb_seq := u64 (cb_seq c + 1), cb_pending_own := Some (m, ps)\<rparr>
                          in (c, push_messages (ve_pc env) (cb_seq c) (cc_with_files (ve_pc env) m)))))
          else push_text env c)"

definition cb_grab :: "clipboard_id \<Rightarrow> nat \<Rightarrow> 'c client_clip \<Rightarrow> 'c client_clip" where
  "cb_grab cid seq c =
     (if cb_active c \<or> cb_files_active c then c\<lparr>cb_inbound := inb_grab cid seq (cb_max_bytes c)\<rparr> else c)"

definition cb_announced :: "nat \<Rightarrow> file_manifest \<Rightarrow> 'c client_clip \<Rightarrow> 'c client_clip" where
  "cb_announced seq m c =
     (if \<not> clipboard_files (cb_options c) then c
      else case cb_pending_own c of
        Some (mine, ps) \<Rightarrow>
          (let c = c\<lparr>cb_pending_own := None\<rparr>;
               c = (if mine = m then c\<lparr>cb_owner := fo_set seq mine ps\<rparr> else c)
           in c\<lparr>cb_remote := None\<rparr>)
      | None \<Rightarrow> c\<lparr>cb_remote := Some (seq, m)\<rparr>)"

definition cb_data :: "'c clip_env \<Rightarrow> clipboard_id \<Rightarrow> nat \<Rightarrow> chunk \<Rightarrow> 'c client_clip \<Rightarrow> 'c client_clip" where
  "cb_data env cid seq ck c =
     (if \<not> (clipboard_sharing (cb_options c) \<or> clipboard_files (cb_options c)) then c
      else let (inb, r) = inb_data (ve_pc env) (cb_inbound c) cid seq ck; c = c\<lparr>cb_inbound := inb\<rparr>
           in case r of
                Inr (Some ct) \<Rightarrow>
                  (case cc_files (ve_pc env) ct of
                     Some m \<Rightarrow> cb_announced seq m c
                   | None \<Rightarrow>
                       (case cb_sync c of
                          Some sy \<Rightarrow>
                            if clipboard_sharing (cb_options c)
                            then c\<lparr>cb_sync := Some (fst (sy_apply (ve_oc env) (ve_hs env) ct sy))\<rparr> else c
                        | None \<Rightarrow> c))
              | _ \<Rightarrow> c)"

definition pull_on_enter :: "'c client_clip \<Rightarrow> 'c client_clip" where
  "pull_on_enter c =
     (if \<not> cb_files_active c then c
      else case cb_remote c of
        None \<Rightarrow> c
      | Some (seq, m) \<Rightarrow>
          if cb_last_pulled c = Some seq then c
          else c\<lparr>cb_last_pulled := Some seq,
                 cb_pulls := cb_pulls c @ [\<lparr>sp_seq = seq, sp_manifest = m,
                   sp_max = effective_files_max (clipboard_files_max_bytes (cb_options c))\<rparr>]\<rparr>)"

definition cb_set_options :: "'c clip_env \<Rightarrow> options \<Rightarrow> 'c client_clip \<Rightarrow> 'c client_clip" where
  "cb_set_options env opts c =
     (let was = clipboard_sharing (cb_options c); was_files = clipboard_files (cb_options c);
          c = c\<lparr>cb_options := opts\<rparr>;
          c = (if clipboard_sharing opts \<and> \<not> was then cb_prime env c else c)
      in if clipboard_files opts \<and> \<not> was_files
         then (case cb_sync c of None \<Rightarrow> c | Some sy \<Rightarrow> c\<lparr>cb_sync := Some (sy_prime_files (ve_oc env) (ve_hs env) sy)\<rparr>)
         else c)"

section \<open>Input sinks\<close>

record 's input_sink =
  is_enter :: "point \<Rightarrow> 's \<Rightarrow> 's"
  is_leave :: "'s \<Rightarrow> 's"
  is_key :: "key_event \<Rightarrow> 's \<Rightarrow> 's"
  is_mouse :: "mouse_event \<Rightarrow> 's \<Rightarrow> 's"

definition null_sink :: "unit input_sink" where
  "null_sink = \<lparr>is_enter = (\<lambda>p s. s), is_leave = (\<lambda>s. s), is_key = (\<lambda>k s. s), is_mouse = (\<lambda>m s. s)\<rparr>"

record recording =
  rc_enters :: "point list"
  rc_leaves :: nat
  rc_keys :: "key_event list"
  rc_mice :: "mouse_event list"

definition recording_sink :: "recording input_sink" where
  "recording_sink =
     \<lparr>is_enter = (\<lambda>p s. s\<lparr>rc_enters := rc_enters s @ [p]\<rparr>), is_leave = (\<lambda>s. s\<lparr>rc_leaves := rc_leaves s + 1\<rparr>),
      is_key = (\<lambda>k s. s\<lparr>rc_keys := rc_keys s @ [k]\<rparr>), is_mouse = (\<lambda>m s. s\<lparr>rc_mice := rc_mice s @ [m]\<rparr>)\<rparr>"

definition enigo_input :: "enigo_env \<Rightarrow> enigo_sink input_sink" where
  "enigo_input env = \<lparr>is_enter = sink_enter env, is_leave = sink_leave env, is_key = sink_key env, is_mouse = sink_mouse env\<rparr>"

text \<open>
  What the connection promises of a sink: there is something it keeps true at every call, and with that
  a \<^verbatim>\<open>leave\<close> lets go of everything.
\<close>

locale releasing_sink =
  fixes sk :: "'s input_sink" and fine :: "'s \<Rightarrow> bool" and released :: "'s \<Rightarrow> bool"
  assumes enter_fine: "fine s \<Longrightarrow> fine (is_enter sk p s)"
    and leave_fine: "fine s \<Longrightarrow> fine (is_leave sk s)"
    and key_fine: "fine s \<Longrightarrow> fine (is_key sk k s)"
    and mouse_fine: "fine s \<Longrightarrow> fine (is_mouse sk m s)"
    and leave_releases: "fine s \<Longrightarrow> released (is_leave sk s)"

interpretation null_sink: releasing_sink null_sink "\<lambda>_. True" "\<lambda>_. True"
  by unfold_locales

text \<open>Nothing is remembered as held, and whatever is still down would not be let go of.\<close>

definition let_go :: "enigo_sink \<Rightarrow> bool" where
  "let_go s \<longleftrightarrow> sk_keys s = [] \<and> sk_buttons s = [] \<and> keys_down (sk_log s) \<subseteq> stuck_keys (sk_log s)
     \<and> buttons_down (sk_log s) \<subseteq> stuck_buttons (sk_log s)"

interpretation enigo: releasing_sink "enigo_input env" "\<lambda>s. sink_inv s \<and> drains_all env" let_go for env
proof unfold_locales
  fix s p k m
  assume a: "sink_inv s \<and> drains_all env"
  show "sink_inv (is_enter (enigo_input env) p s) \<and> drains_all env"
    using a sink_inv_kept [OF keeps_held_move_to] by (simp add: enigo_input_def sink_enter_def)
  show "sink_inv (is_leave (enigo_input env) s) \<and> drains_all env" using a by (simp add: enigo_input_def sink_leave_inv)
  show "sink_inv (is_key (enigo_input env) k s) \<and> drains_all env" using a by (simp add: enigo_input_def sink_key_inv)
  show "sink_inv (is_mouse (enigo_input env) m s) \<and> drains_all env" using a by (simp add: enigo_input_def sink_mouse_inv)
  show "let_go (is_leave (enigo_input env) s)"
    using a sink_leave_spec [of s env] by (simp add: enigo_input_def let_go_def held_ok_def)
qed

section \<open>The session\<close>

definition hung_up :: "codec_error \<Rightarrow> bool" where
  "hung_up e \<longleftrightarrow> e \<in> {Io ConnectionReset, Io ConnectionAborted, Io BrokenPipe}"

datatype client_end = Over | Broken codec_error

definition session_ended :: "codec_error \<Rightarrow> client_end" where
  "session_ended e = (if hung_up e then Over else Broken e)"

definition silence_timeout :: "nat \<Rightarrow> nat" where
  "silence_timeout keepalive = max (keepalive * 3) 5000"

text \<open>What stays the same for a session, and what the world is like at each of its turns.\<close>

record client_static =
  ct_name :: string
  ct_keepalive :: nat
  ct_detects :: bool

record world =
  wd_now :: nat
  wd_disk :: disk
  wd_look :: "path \<Rightarrow> tree"
  wd_monitors :: "rect list option"
  wd_fails :: "client_msg list \<Rightarrow> codec_error option"

record ('c, 's) client =
  cs_clip :: "'c client_clip"
  cs_sink :: 's
  cs_reported :: "rect list"
  cs_heard :: nat
  cs_sent :: "client_msg list"

datatype client_event = CeMonitors | CeClipTick | CeFileQueue | CeSilence | CeMsg server_msg | CeFailed codec_error

text \<open>Sending one message after the other; the first that fails ends the session.\<close>

fun client_send :: "(client_msg list \<Rightarrow> codec_error option) \<Rightarrow> client_msg list \<Rightarrow> ('c, 's) client \<Rightarrow> ('c, 's) client \<times> client_end option" where
  "client_send fails [] st = (st, None)"
| "client_send fails (m # ms) st =
     (case fails (cs_sent st) of
        Some e \<Rightarrow> (st, Some (session_ended e))
      | None \<Rightarrow> client_send fails ms (st\<lparr>cs_sent := cs_sent st @ [m]\<rparr>))"

definition screen_now :: "string \<Rightarrow> rect list \<Rightarrow> screen_info option" where
  "screen_now name ms = si_from_monitors name ms (case union_all ms of None \<Rightarrow> Pt 0 0 | Some r \<Rightarrow> r_center r)"

definition check_monitors :: "client_static \<Rightarrow> world \<Rightarrow> ('c, 's) client \<Rightarrow> ('c, 's) client \<times> client_msg list" where
  "check_monitors ct w st =
     (case (if ct_detects ct then wd_monitors w else None) of
        None \<Rightarrow> (st, [])
      | Some ms \<Rightarrow>
          if ms = [] \<or> ms = cs_reported st then (st, [])
          else (st\<lparr>cs_reported := ms\<rparr>, case screen_now (ct_name ct) ms of None \<Rightarrow> [] | Some info \<Rightarrow> [ScreenChanged info]))"

definition on_message :: "'c clip_env \<Rightarrow> 's input_sink \<Rightarrow> world \<Rightarrow> server_msg \<Rightarrow> ('c, 's) client \<Rightarrow> ('c, 's) client \<times> client_end option" where
  "on_message env sk w m st =
     (case m of
        SKeepAlive \<Rightarrow> client_send (wd_fails w) [CKeepAlive] st
      | Enter x y seq mods \<Rightarrow> (st\<lparr>cs_sink := is_enter sk (Pt x y) (cs_sink st), cs_clip := pull_on_enter (cs_clip st)\<rparr>, None)
      | Leave \<Rightarrow> (st\<lparr>cs_sink := is_leave sk (cs_sink st)\<rparr>, None)
      | Key ev \<Rightarrow> (st\<lparr>cs_sink := is_key sk ev (cs_sink st)\<rparr>, None)
      | Mouse ev \<Rightarrow> (st\<lparr>cs_sink := is_mouse sk ev (cs_sink st)\<rparr>, None)
      | Close reason \<Rightarrow> (st, Some Over)
      | SClipboardGrab cid seq \<Rightarrow> (st\<lparr>cs_clip := cb_grab cid seq (cs_clip st)\<rparr>, None)
      | SClipboardData cid seq ck \<Rightarrow> (st\<lparr>cs_clip := cb_data env cid seq ck (cs_clip st)\<rparr>, None)
      | SetOptions opts \<Rightarrow> (st\<lparr>cs_clip := cb_set_options env opts (cs_clip st)\<rparr>, None)
      | SFileRead seq req index off len \<Rightarrow>
          client_send (wd_fails w) [CFileReply req (fo_read (wd_disk w) (cb_owner (cs_clip st)) seq index off len)] st
      | SFileReply req result \<Rightarrow>
          (st\<lparr>cs_clip := (cs_clip st)\<lparr>cb_channel := ch_reply req result (cb_channel (cs_clip st))\<rparr>\<rparr>, None)
      | _ \<Rightarrow> (st, None))"

definition client_step :: "'c clip_env \<Rightarrow> 's input_sink \<Rightarrow> client_static \<Rightarrow> world \<Rightarrow> client_event \<Rightarrow> ('c, 's) client
    \<Rightarrow> ('c, 's) client \<times> client_end option" where
  "client_step env sk ct w ev st =
     (case ev of
        CeMonitors \<Rightarrow> (let (st, ms) = check_monitors ct w st in client_send (wd_fails w) ms st)
      | CeClipTick \<Rightarrow>
          if cb_active (cs_clip st) \<or> cb_files_active (cs_clip st)
          then (let (cb, ms) = cb_changed env (wd_look w) (cs_clip st) in client_send (wd_fails w) ms (st\<lparr>cs_clip := cb\<rparr>))
          else (st, None)
      | CeFileQueue \<Rightarrow>
          (let cb = cs_clip st
           in case ch_outgoing (cb_channel cb) of
                [] \<Rightarrow> (st, None)
              | m # ms \<Rightarrow>
                  client_send (wd_fails w) [m] (st\<lparr>cs_clip := cb\<lparr>cb_channel := (cb_channel cb)\<lparr>ch_outgoing := ms\<rparr>\<rparr>\<rparr>))
      | CeSilence \<Rightarrow> if wd_now w - cs_heard st \<ge> silence_timeout (ct_keepalive ct) then (st, Some Over) else (st, None)
      | CeFailed e \<Rightarrow> (st, Some (case e of Closed \<Rightarrow> Over | _ \<Rightarrow> session_ended e))
      | CeMsg m \<Rightarrow> on_message env sk w m (st\<lparr>cs_heard := wd_now w\<rparr>))"

fun client_loop :: "'c clip_env \<Rightarrow> 's input_sink \<Rightarrow> client_static \<Rightarrow> (world \<times> client_event) list \<Rightarrow> ('c, 's) client
    \<Rightarrow> ('c, 's) client \<times> client_end option" where
  "client_loop env sk ct [] st = (st, None)"
| "client_loop env sk ct ((w, ev) # evs) st =
     (case client_step env sk ct w ev st of
        (st, None) \<Rightarrow> client_loop env sk ct evs st
      | (st, Some e) \<Rightarrow> (st, Some e))"

text \<open>The state a session starts in, once the handshake gave its options.\<close>

definition client_start :: "'c clip_env \<Rightarrow> 'c sync option \<Rightarrow> options \<Rightarrow> rect list \<Rightarrow> nat \<Rightarrow> 's \<Rightarrow> ('c, 's) client" where
  "client_start env sy opts ms now s =
     \<lparr>cs_clip = cb_prime env (cb_new sy opts), cs_sink = s, cs_reported = ms, cs_heard = now, cs_sent = []\<rparr>"

subsection \<open>What every turn keeps\<close>

lemma client_send_fields [simp]:
  "cs_clip (fst (client_send fails ms st)) = cs_clip st" "cs_sink (fst (client_send fails ms st)) = cs_sink st"
  "cs_reported (fst (client_send fails ms st)) = cs_reported st" "cs_heard (fst (client_send fails ms st)) = cs_heard st"
  by (induction ms arbitrary: st) (auto split: option.split)

lemma client_send_fields' [simp]:
  assumes "client_send fails ms st = (st', e)"
  shows "cs_clip st' = cs_clip st" "cs_sink st' = cs_sink st" "cs_reported st' = cs_reported st" "cs_heard st' = cs_heard st"
  using client_send_fields [of fails ms st] assms by simp_all

text \<open>The input a message is, for the sink.\<close>

fun sink_input :: "'s input_sink \<Rightarrow> server_msg \<Rightarrow> 's \<Rightarrow> 's" where
  "sink_input sk (Enter x y seq mods) s = is_enter sk (Pt x y) s"
| "sink_input sk Leave s = is_leave sk s"
| "sink_input sk (Key ev) s = is_key sk ev s"
| "sink_input sk (Mouse ev) s = is_mouse sk ev s"
| "sink_input sk _ s = s"

lemma on_message_sink: "cs_sink (fst (on_message env sk w m st)) = sink_input sk m (cs_sink st)"
  by (cases m) (simp_all add: on_message_def del: client_send.simps)

lemma client_step_sink:
  "cs_sink (fst (client_step env sk ct w ev st)) = (case ev of CeMsg m \<Rightarrow> sink_input sk m (cs_sink st) | _ \<Rightarrow> cs_sink st)"
  by (cases ev) (auto simp: client_step_def check_monitors_def on_message_sink Let_def simp del: client_send.simps
      split: prod.split option.split list.split)

context releasing_sink
begin

lemma input_fine: "fine s \<Longrightarrow> fine (sink_input sk m s)"
  by (cases m) (simp_all add: enter_fine leave_fine key_fine mouse_fine)

lemma step_fine: "fine (cs_sink st) \<Longrightarrow> fine (cs_sink (fst (client_step env sk ct w ev st)))"
  by (cases ev) (simp_all add: client_step_sink input_fine)

lemma loop_fine: "fine (cs_sink st) \<Longrightarrow> fine (cs_sink (fst (client_loop env sk ct evs st)))"
proof (induction evs arbitrary: st)
  case (Cons wev evs)
  obtain w ev where wev: "wev = (w, ev)" by (cases wev)
  obtain st1 e where step: "client_step env sk ct w ev st = (st1, e)" by fastforce
  have "fine (cs_sink st1)" using step_fine [OF Cons.prems, of env ct w ev] step by simp
  then show ?case using Cons.IH step by (simp add: wev split: option.split)
qed simp

text \<open>However a session ends, the \<^verbatim>\<open>leave\<close> that follows lets go of everything.\<close>

lemma session_lets_go: "fine (cs_sink st) \<Longrightarrow> released (is_leave sk (cs_sink (fst (client_loop env sk ct evs st))))"
  by (rule leave_releases [OF loop_fine])

end

end
