(* ===== verification/Connect.thy ===== *)
theory Connect
  imports Client Trust
begin

text \<open>
  The connecting half of \<^verbatim>\<open>crates/geserdesk-client/src/net.rs\<close>: the client's handshake, pinning the
  server's certificate, and trying again. A connection is an attempt with what its TLS layer did; what
  follows it is an abstract link. Durations are milliseconds.
\<close>

section \<open>The handshake\<close>

datatype connect_error =
    CNoConnection string
  | CCodec codec_error
  | CIncompatible version
  | CRejected string
  | CUnexpected
  | CTls
  | CHandshakeTimeout
  | CServerChanged string fingerprint fingerprint
  | CNotTrusted fingerprint

fun is_fatal :: "connect_error \<Rightarrow> bool" where
  "is_fatal (CIncompatible _) = True"
| "is_fatal (CServerChanged _ _ _) = True"
| "is_fatal (CNotTrusted _) = True"
| "is_fatal _ = False"

record connected =
  cn_version :: version
  cn_keepalive :: nat
  cn_options :: options

definition client_hello :: "screen_info \<Rightarrow> client_msg" where
  "client_hello screen = Hello PROTOCOL_VERSION screen"

text \<open>\<open>refused\<close> is the failure of the \<^verbatim>\<open>Hello\<close>, if it fails; \<^const>\<open>None\<close> is still waiting for a reply.\<close>

definition client_handshake :: "codec_error option \<Rightarrow> (codec_error + server_msg) list \<Rightarrow> (connect_error + connected) option" where
  "client_handshake refused replies =
     (case refused of
        Some e \<Rightarrow> Some (Inl (CCodec e))
      | None \<Rightarrow>
          (case replies of
             [] \<Rightarrow> None
           | Inl e # _ \<Rightarrow> Some (Inl (CCodec e))
           | Inr (Welcome v keepalive) # rest \<Rightarrow>
               (case rest of
                  [] \<Rightarrow> None
                | Inl e # _ \<Rightarrow> Some (Inl (CCodec e))
                | Inr (SetOptions opts) # _ \<Rightarrow> Some (Inr \<lparr>cn_version = v, cn_keepalive = keepalive, cn_options = opts\<rparr>)
                | Inr _ # _ \<Rightarrow> Some (Inl CUnexpected))
           | Inr (Incompatible v) # _ \<Rightarrow> Some (Inl (CIncompatible v))
           | Inr (Rejected reason) # _ \<Rightarrow> Some (Inl (CRejected reason))
           | Inr _ # _ \<Rightarrow> Some (Inl CUnexpected)))"

text \<open>With the time limit of \<^verbatim>\<open>run\<close> over both of its waits.\<close>

definition timed_handshake :: "codec_error option \<Rightarrow> (codec_error + server_msg) list \<Rightarrow> connect_error + connected" where
  "timed_handshake refused replies =
     (case client_handshake refused replies of None \<Rightarrow> Inl CHandshakeTimeout | Some r \<Rightarrow> r)"

section \<open>Trusting a server\<close>

record 't server_trust =
  st_pinned :: "'t \<Rightarrow> string \<Rightarrow> fingerprint option"
  st_confirm :: "'t \<Rightarrow> string \<Rightarrow> fingerprint \<Rightarrow> 't \<times> bool"

text \<open>The application's: the known servers, whether the file can be written, and what the person says.\<close>

definition prompt_trust :: "bool \<Rightarrow> (fingerprint \<Rightarrow> bool option) \<Rightarrow> (string, fingerprint) bmap server_trust" where
  "prompt_trust writable says =
     \<lparr>st_pinned = (\<lambda>known server. bm_get known server),
      st_confirm = (\<lambda>known server fp. confirm_new known writable (says fp) server fp)\<rparr>"

datatype tls_try =
    TlsHangs
  | TlsBreaks "fingerprint option" \<comment> \<open>with the certificate seen, if it came to that\<close>
  | TlsPresents bytes

record 'l attempt =
  at_tcp :: bool
  at_tls :: tls_try
  at_link :: 'l

definition tls_failure :: "string \<Rightarrow> fingerprint option \<Rightarrow> fingerprint option \<Rightarrow> connect_error" where
  "tls_failure server pinned seen =
     (case (pinned, seen) of
        (Some expected, Some fp) \<Rightarrow> if expected \<noteq> fp then CServerChanged server expected fp else CTls
      | _ \<Rightarrow> CTls)"

text \<open>
  The loop of \<^verbatim>\<open>connect_observed\<close> with TLS: one attempt is used up per turn; \<^const>\<open>None\<close> is that another
  one is needed. A link comes with the certificate at its other end.
\<close>

fun connect_loop :: "(bytes \<Rightarrow> fingerprint) \<Rightarrow> 't server_trust \<Rightarrow> string \<Rightarrow> fingerprint option \<Rightarrow> 'l attempt list \<Rightarrow> 't
    \<Rightarrow> 't \<times> (connect_error + 'l \<times> fingerprint) option" where
  "connect_loop of_cert tr server just [] t = (t, None)"
| "connect_loop of_cert tr server just (a # rest) t =
     (if \<not> at_tcp a then (t, Some (Inl (CNoConnection server)))
      else let pinned = (case just of Some f \<Rightarrow> Some f | None \<Rightarrow> st_pinned tr t server)
           in case at_tls a of
                TlsHangs \<Rightarrow> (t, Some (Inl CHandshakeTimeout))
              | TlsBreaks seen \<Rightarrow> (t, Some (Inl (tls_failure server pinned seen)))
              | TlsPresents der \<Rightarrow>
                  (let (seen, ok) = verify_server_cert of_cert pinned der
                   in if \<not> ok then (t, Some (Inl (tls_failure server pinned (Some seen))))
                      else case pinned of
                        Some _ \<Rightarrow> (t, Some (Inr (at_link a, seen)))
                      | None \<Rightarrow>
                          (case st_confirm tr t server seen of
                             (t, False) \<Rightarrow> (t, Some (Inl (CNotTrusted seen)))
                           | (t, True) \<Rightarrow> connect_loop of_cert tr server (Some seen) rest t)))"

text \<open>Without TLS the first connection is the link, and nothing is known of who is at its end.\<close>

definition connect_plain :: "string \<Rightarrow> 'l attempt \<Rightarrow> connect_error + 'l" where
  "connect_plain server a = (if at_tcp a then Inr (at_link a) else Inl (CNoConnection server))"

lemma connect_pinned:
  assumes "connect_loop of_cert tr server (Some f) as t = (t', Some (Inr (l, fp)))"
  shows "fp = f \<and> (\<exists>a rest der. as = a # rest \<and> at_tls a = TlsPresents der \<and> of_cert der = f \<and> l = at_link a) \<and> t' = t"
  using assms by (cases as) (auto simp: verify_server_cert_def Let_def split: if_splits tls_try.splits)

text \<open>A link is only had to a server whose certificate was pinned, or was seen and confirmed first.\<close>

lemma connect_trusted:
  assumes "connect_loop of_cert tr server None as t = (t', Some (Inr (l, fp)))"
  shows "(st_pinned tr t server = Some fp \<and> t' = t) \<or>
    (st_pinned tr t server = None \<and> st_confirm tr t server fp = (t', True) \<and> (\<exists>a b rest. as = a # b # rest \<and> l = at_link b))"
proof -
  obtain a rest where as: "as = a # rest" using assms by (cases as) auto
  show ?thesis
  proof (cases "st_pinned tr t server")
    case (Some f)
    then show ?thesis using assms by (auto simp: as verify_server_cert_def Let_def split: if_splits tls_try.splits)
  next
    case None
    then obtain der where der: "at_tcp a" "at_tls a = TlsPresents der"
      using assms by (auto simp: as tls_failure_def Let_def split: if_splits tls_try.splits)
    obtain t1 ok where c: "st_confirm tr t server (of_cert der) = (t1, ok)" by fastforce
    have "ok" using assms None der c by (cases ok) (auto simp: as verify_server_cert_def Let_def)
    then have "connect_loop of_cert tr server (Some (of_cert der)) rest t1 = (t', Some (Inr (l, fp)))"
      using assms None der c by (simp add: as verify_server_cert_def Let_def)
    from connect_pinned [OF this] show ?thesis using None c \<open>ok\<close> by (auto simp: as)
  qed
qed

lemma connect_two_attempts:
  assumes "2 \<le> length as"
  shows "snd (connect_loop of_cert tr server None as t) \<noteq> None"
proof -
  obtain a b rest where as: "as = a # b # rest" using assms by (cases as; cases "tl as") auto
  have one: "snd (connect_loop of_cert tr server (Some f) (b # rest) t) \<noteq> None" for f t
    by (auto simp: verify_server_cert_def Let_def split: tls_try.split)
  show ?thesis
    using one by (auto simp: as verify_server_cert_def Let_def split: tls_try.split option.split prod.split bool.split simp del: connect_loop.simps(2))
      (auto simp: verify_server_cert_def Let_def split: tls_try.split option.split prod.split bool.split)
qed

section \<open>Trying again\<close>

record reconnect_policy =
  rp_initial :: nat
  rp_max :: nat
  rp_stable :: nat

definition rp_default :: reconnect_policy where
  "rp_default = \<lparr>rp_initial = 1000, rp_max = 10000, rp_stable = 10000\<rparr>"

text \<open>The texts of errors are the errors themselves.\<close>

datatype client_status =
    StConnecting
  | StConnected
  | StAwaiting string
  | StRetrying "connect_error option"
  | StFatal connect_error

fun contains_str :: "string \<Rightarrow> string \<Rightarrow> bool" where
  "contains_str pat [] = (pat = [])"
| "contains_str pat (c # cs) = (take (length pat) (c # cs) = pat \<or> contains_str pat cs)"

lemma contains_str_middle: "contains_str pat (xs @ pat @ ys)"
proof (induction xs)
  case Nil
  then show ?case by (cases "pat @ ys") (auto, metis append_eq_conv_conj)
qed simp

definition failure_status :: "connect_error \<Rightarrow> client_status" where
  "failure_status e =
     (if is_fatal e then StFatal e
      else case e of
        CRejected reason \<Rightarrow>
          if contains_str ''approval'' reason \<or> contains_str ''different certificate'' reason
          then StAwaiting reason else StRetrying (Some e)
      | _ \<Rightarrow> StRetrying (Some e))"

text \<open>
  A round is an attempt that never got to a session, or a session: how long it lasted, what the server
  sent that it took, and how it ended.
\<close>

datatype round = Unconnected nat connect_error | Session nat "server_msg list" client_end

fun round_elapsed :: "round \<Rightarrow> nat" where
  "round_elapsed (Unconnected t e) = t"
| "round_elapsed (Session t ms e) = t"

fun round_error :: "round \<Rightarrow> connect_error option" where
  "round_error (Unconnected t e) = Some e"
| "round_error (Session t ms Over) = None"
| "round_error (Session t ms (Broken e)) = Some (CCodec e)"

fun round_input :: "'s input_sink \<Rightarrow> round \<Rightarrow> 's \<Rightarrow> 's" where
  "round_input sk (Unconnected t e) s = s"
| "round_input sk (Session t ms e) s = foldl (\<lambda>s m. sink_input sk m s) s ms"

definition round_status :: "round \<Rightarrow> client_status" where
  "round_status r = (case round_error r of None \<Rightarrow> StRetrying None | Some e \<Rightarrow> failure_status e)"

definition delay_slept :: "reconnect_policy \<Rightarrow> nat \<Rightarrow> round \<Rightarrow> nat" where
  "delay_slept pol delay r = (if round_elapsed r \<ge> rp_stable pol then rp_initial pol else delay)"

definition next_delay :: "reconnect_policy \<Rightarrow> nat \<Rightarrow> nat" where
  "next_delay pol delay = min (2 * delay) (rp_max pol)"

text \<open>The loop: what it reported and slept in each round, the sink after it, and the error it gave up with.\<close>

fun retry_loop :: "reconnect_policy \<Rightarrow> 's input_sink \<Rightarrow> nat \<Rightarrow> round list \<Rightarrow> 's \<Rightarrow> (client_status \<times> nat) list \<times> 's \<times> connect_error option" where
  "retry_loop pol sk delay [] s = ([], s, None)"
| "retry_loop pol sk delay (r # rs) s =
     (let s = round_input sk r s
      in case (case round_error r of Some e \<Rightarrow> if is_fatal e then Some e else None | None \<Rightarrow> None) of
           Some e \<Rightarrow> ([(StFatal e, 0)], s, Some e)
         | None \<Rightarrow>
             (let s = is_leave sk s;
                  slept = delay_slept pol delay r;
                  (steps, s, err) = retry_loop pol sk (next_delay pol slept) rs s
              in ((round_status r, slept) # steps, s, err)))"

definition connect_with_status :: "reconnect_policy \<Rightarrow> 's input_sink \<Rightarrow> round list \<Rightarrow> 's \<Rightarrow> (client_status \<times> nat) list \<times> 's \<times> connect_error option" where
  "connect_with_status pol sk rs s = retry_loop pol sk (rp_initial pol) rs s"

lemma session_error_not_fatal: "round_error r = Some e \<Longrightarrow> is_fatal e \<Longrightarrow> \<exists>t. r = Unconnected t e"
  by (cases r rule: round_error.cases) auto

context releasing_sink
begin

lemma inputs_fine: "fine s \<Longrightarrow> fine (foldl (\<lambda>s m. sink_input sk m s) s ms)"
  by (induction ms arbitrary: s) (simp_all add: input_fine)

lemma round_fine: "fine s \<Longrightarrow> fine (round_input sk r s)"
  by (cases r) (simp_all add: inputs_fine)

text \<open>Between two rounds, and once it gave up, the sink holds nothing.\<close>

lemma retry_released:
  "fine s \<Longrightarrow> released s \<Longrightarrow> released (fst (snd (retry_loop pol sk delay rs s))) \<and> fine (fst (snd (retry_loop pol sk delay rs s)))"
proof (induction rs arbitrary: s delay)
  case (Cons r rs)
  show ?case
  proof (cases "\<exists>e. round_error r = Some e \<and> is_fatal e")
    case True
    then obtain e t where "r = Unconnected t e" "is_fatal e" using session_error_not_fatal by blast
    then show ?thesis using Cons.prems by simp
  next
    case False
    then have n: "(case round_error r of Some e \<Rightarrow> if is_fatal e then Some e else None | None \<Rightarrow> None) = None"
      by (auto split: option.split)
    let ?s = "is_leave sk (round_input sk r s)"
    have "fine ?s" "released ?s"
      using round_fine [OF Cons.prems(1)] leave_fine leave_releases by simp_all
    moreover obtain steps s1 err where "retry_loop pol sk (next_delay pol (delay_slept pol delay r)) rs ?s = (steps, s1, err)"
      by (metis prod_cases3)
    ultimately show ?thesis using Cons.IH [of ?s "next_delay pol (delay_slept pol delay r)"] n by (simp add: Let_def)
  qed
qed simp

end

text \<open>How long the waits are: the first is the initial one, then they double up to the maximum.\<close>

lemma next_delay_pow: "d = min (i * 2 ^ k) (rp_max pol) \<Longrightarrow> next_delay pol d = min (i * 2 ^ Suc k) (rp_max pol)"
  by (simp add: next_delay_def min_def)

lemma retry_slept_quick:
  assumes "list_all (\<lambda>r. round_elapsed r < rp_stable pol) rs" "delay = min (rp_initial pol * 2 ^ k) (rp_max pol)"
    "j < length (fst (retry_loop pol sk delay rs s))" "snd (snd (retry_loop pol sk delay rs s)) = None"
  shows "snd (fst (retry_loop pol sk delay rs s) ! j) = min (rp_initial pol * 2 ^ (k + j)) (rp_max pol)"
  using assms
proof (induction rs arbitrary: s delay k j)
  case (Cons r rs)
  let ?s = "is_leave sk (round_input sk r s)"
  have n: "(case round_error r of Some e \<Rightarrow> if is_fatal e then Some e else None | None \<Rightarrow> None) = None"
    using Cons.prems(4) by (auto simp: Let_def split: option.splits prod.splits if_splits)
  have d: "delay_slept pol delay r = delay" using Cons.prems(1) by (simp add: delay_slept_def)
  have nd: "next_delay pol delay = min (rp_initial pol * 2 ^ Suc k) (rp_max pol)" by (rule next_delay_pow [OF Cons.prems(2)])
  obtain steps s1 err where rest: "retry_loop pol sk (next_delay pol delay) rs ?s = (steps, s1, err)" by (metis prod_cases3)
  have loop: "retry_loop pol sk delay (r # rs) s = ((round_status r, delay) # steps, s1, err)"
    using n d rest by (simp add: Let_def)
  show ?case
  proof (cases j)
    case 0
    then show ?thesis unfolding loop using Cons.prems(2) by simp
  next
    case (Suc i)
    have "snd (steps ! i) = min (rp_initial pol * 2 ^ (Suc k + i)) (rp_max pol)"
      using Cons.IH [of "next_delay pol delay" "Suc k" i ?s] Cons.prems(1,3,4) nd rest Suc unfolding loop by simp
    then show ?thesis unfolding loop by (simp add: Suc)
  qed
qed simp

lemma next_delay_le: "next_delay pol d \<le> rp_max pol"
  by (simp add: next_delay_def)

lemma retry_slept_bounds:
  assumes "delay \<le> max (rp_initial pol) (rp_max pol)"
  shows "(st, slept) \<in> set (fst (retry_loop pol sk delay rs s)) \<Longrightarrow> slept \<le> max (rp_initial pol) (rp_max pol)"
  using assms
proof (induction rs arbitrary: s delay)
  case (Cons r rs)
  have d: "delay_slept pol delay r \<le> max (rp_initial pol) (rp_max pol)" using Cons.prems(2) by (simp add: delay_slept_def)
  have nd: "next_delay pol (delay_slept pol delay r) \<le> max (rp_initial pol) (rp_max pol)"
    using next_delay_le [of pol "delay_slept pol delay r"] by simp
  obtain steps s1 err where rest:
    "retry_loop pol sk (next_delay pol (delay_slept pol delay r)) rs (is_leave sk (round_input sk r s)) = (steps, s1, err)"
    by (metis prod_cases3)
  show ?case
    using Cons.prems(1) d Cons.IH [OF _ nd, of "is_leave sk (round_input sk r s)"] rest
    by (auto simp: Let_def split: option.splits if_splits)
qed simp

text \<open>What the server says of a client it does not trust yet is what the client takes as waiting.\<close>

lemma approval_awaits: "failure_status (CRejected (''waiting for approval'' @ rest)) = StAwaiting (''waiting for approval'' @ rest)"
  using contains_str_middle [of "''approval''" "''waiting for ''" rest] by (simp add: failure_status_def)

end
