(* ===== verification/Net_Spec.thy ===== *)
theory Net_Spec
  imports Server_Run Connect
begin

text \<open>What the two ends of a connection promise: who is let in, how long they wait, and what they let go of.\<close>

section \<open>Letting clients in\<close>

definition trusts :: "trust option \<Rightarrow> fingerprint option \<Rightarrow> string \<Rightarrow> bool" where
  "trusts tls fp name \<longleftrightarrow>
     (case tls of None \<Rightarrow> True | Some t \<Rightarrow> (case fp of None \<Rightarrow> False | Some f \<Rightarrow> bm_get (tr_trusted t) name = Some f))"

lemma authorize_None: "snd (authorize fp now addr tls name) = None \<longleftrightarrow> trusts tls fp name"
  by (auto simp: authorize_def trusts_def tr_check_def split: option.split)

lemma authorize_trusted: "trusts tls fp name \<Longrightarrow> authorize fp now addr tls name = (tls, None)"
  by (auto simp: authorize_def trusts_def tr_check_def split: option.splits)

text \<open>What a greeting leaves in the trust state, whatever the answer was: a request for approval, or nothing.\<close>

lemma note_pending_keeps: "tr_trusted (note_pending t now n f addr) = tr_trusted t"
  by (simp add: note_pending_def Let_def)

lemma handshake_trust:
  "fst (handshake quote la opts ka (authorize fp now addr) taken new fails (Inr (Hello v screen)) tls) =
     (if is_compatible_with PROTOCOL_VERSION v \<and> (has_screen la (si_name screen) \<or> new \<and> valid_screen_name (si_name screen))
      then fst (authorize fp now addr tls (si_name screen)) else tls)"
  using negotiate_ok_iff [of PROTOCOL_VERSION v]
  by (cases "negotiate PROTOCOL_VERSION v") (auto simp: handshake_def Let_def split: prod.split option.split)

lemma authorize_trust:
  "fst (authorize fp now addr tls name) =
     (case (tls, fp) of
        (Some t, Some f) \<Rightarrow> Some (if tr_check t name f \<noteq> Trusted then note_pending t now name f addr else t)
      | _ \<Rightarrow> tls)"
  by (auto simp: authorize_def split: option.split verdict.split)

text \<open>
  C27: A client is let in exactly when it speaks a compatible version, its screen is on the desk, the
  certificate it proved is the one trusted for that very screen (where TLS is on) and nobody else has the
  name; it is then in the hub with its sanitized monitors and an empty queue, and was sent the version
  agreed on and the options. Otherwise the hub, the files and the trusted certificates are as they were:
  all that can change is that a certificate which is not trusted for the screen is noted as waiting for
  approval, when the version fits and the screen is on the desk or could be added to it.
\<close>

theorem client_let_in_iff:
  assumes "admit quote cfg fp now addr (\<lambda>_. None) (Inr (Hello v screen)) tls s = (tls', s', sent, r)"
  shows "(r \<noteq> None \<longleftrightarrow> is_compatible_with PROTOCOL_VERSION v \<and> has_screen (known_layout cfg (fr_hub s)) (si_name screen)
      \<and> trusts tls fp (si_name screen) \<and> \<not> hub_contains (fr_hub s) (si_name screen))
    \<and> (if r = None
       then s' = s \<and> map_option tr_trusted tls' = map_option tr_trusted tls \<and> (tls = None \<or> fp = None \<longrightarrow> tls' = tls)
         \<and> (\<forall>t f. tls = Some t \<and> fp = Some f \<longrightarrow> tls' = Some
              (if is_compatible_with PROTOCOL_VERSION v
                 \<and> (has_screen (known_layout cfg (fr_hub s)) (si_name screen) \<or> valid_screen_name (si_name screen))
                 \<and> tr_check t (si_name screen) f \<noteq> Trusted
               then note_pending t now (si_name screen) f addr else t))
       else hb_clients (fr_hub s') = bm_insert (si_name screen) \<lparr>ce_open = True, ce_queue = [], ce_monitors = sanitize_monitors screen\<rparr> (hb_clients (fr_hub s))
         \<and> tls' = tls
         \<and> sent = [Welcome \<lparr>ver_major = ver_major v, ver_minor = min (ver_minor PROTOCOL_VERSION) (ver_minor v)\<rparr> KEEPALIVE_INTERVAL, SetOptions (nc_options cfg)])"
proof -
  let ?name = "si_name screen" and ?la = "known_layout cfg (fr_hub s)"
  obtain t1 reason where auth: "authorize fp now addr tls ?name = (t1, reason)" by fastforce
  show ?thesis
  proof (cases "is_compatible_with PROTOCOL_VERSION v \<and> has_screen ?la ?name \<and> trusts tls fp ?name \<and> \<not> hub_contains (fr_hub s) ?name")
    case True
    then have a: "authorize fp now addr tls ?name = (tls, None)" by (simp add: authorize_trusted)
    have n: "negotiate PROTOCOL_VERSION v = Inr \<lparr>ver_major = ver_major v, ver_minor = min (ver_minor PROTOCOL_VERSION) (ver_minor v)\<rparr>"
      using True by (simp add: negotiate_def is_compatible_with_def)
    have h: "handshake quote ?la (nc_options cfg) KEEPALIVE_INTERVAL (authorize fp now addr) (hub_contains (fr_hub s)) b (\<lambda>_. None) (Inr (Hello v screen)) tls
       = (tls, [Welcome \<lparr>ver_major = ver_major v, ver_minor = min (ver_minor PROTOCOL_VERSION) (ver_minor v)\<rparr> KEEPALIVE_INTERVAL, SetOptions (nc_options cfg)],
          Inr (Accepted screen \<lparr>ver_major = ver_major v, ver_minor = min (ver_minor PROTOCOL_VERSION) (ver_minor v)\<rparr>))" for b
      using True a n by (simp add: handshake_def answer_def Let_def)
    obtain h' where reg: "register (fr_hub s) ?name (sanitize_monitors screen) = Some h'"
      using True by (simp add: register_def hub_contains_def Let_def)
    show ?thesis using assms h reg True register_clients(1) [OF reg] by (auto simp: admit_def Let_def)
  next
    case False
    have res: "snd (snd (handshake quote ?la (nc_options cfg) KEEPALIVE_INTERVAL (authorize fp now addr) (hub_contains (fr_hub s)) b (\<lambda>_. None) (Inr (Hello v screen)) tls))
        \<noteq> Inr (Accepted sc nv)" for b sc nv
      using False auth authorize_None [of fp now addr tls ?name] negotiate_ok_iff [of PROTOCOL_VERSION v]
      by (cases reason; cases "negotiate PROTOCOL_VERSION v") (auto simp: handshake_def answer_def Let_def)
    obtain t snt o2 where h: "handshake quote ?la (nc_options cfg) KEEPALIVE_INTERVAL (authorize fp now addr) (hub_contains (fr_hub s)) (tls \<noteq> None) (\<lambda>_. None) (Inr (Hello v screen)) tls = (t, snt, o2)"
      by (metis prod_cases3)
    have "o2 \<noteq> Inr (Accepted sc nv)" for sc nv using res [of "tls \<noteq> None" sc nv] h by simp
    then have refused: "r = None \<and> s' = s \<and> tls' = t"
      using assms unfolding admit_def h Let_def prod.case by (auto split: sum.splits handshake_outcome.splits)
    have t: "t = (if is_compatible_with PROTOCOL_VERSION v \<and> (has_screen ?la ?name \<or> tls \<noteq> None \<and> valid_screen_name ?name)
        then fst (authorize fp now addr tls ?name) else tls)"
      using handshake_trust [of quote ?la "nc_options cfg" KEEPALIVE_INTERVAL fp now addr "hub_contains (fr_hub s)" "tls \<noteq> None" "\<lambda>_. None" v screen tls]
      unfolding h by simp
    show ?thesis
      using False refused unfolding t authorize_trust by (cases tls; cases fp) (auto simp: note_pending_keeps)
  qed
qed

text \<open>A desk of two screens, a server that trusts one client, and that client.\<close>

definition desk_config :: net_config where
  "desk_config = \<lparr>nc_layout = la_new [''server'', ''win''], nc_options = options_default, nc_demo = False\<rparr>"

definition win_screen :: screen_info where
  "win_screen = \<lparr>si_name = ''win'', si_bounds = Rect 0 0 800 600, si_monitors = [Rect 0 0 800 600, Rect 0 0 0 5], si_cursor = Pt 0 0\<rparr>"

definition win_print :: fingerprint where
  "win_print = replicate 32 (CHR ''w'')"

definition desk_trust :: "trust option" where
  "desk_trust = Some (tr_new [(''win'', win_print)])"

definition desk_router :: file_router where
  "desk_router = froute_new (load_disabled hub_new {})"

lemma client_let_in_iff_witness:
  "\<exists>tls' s' sent r. admit id desk_config (Some win_print) 0 ''10.0.0.2'' (\<lambda>_. None) (Inr (Hello PROTOCOL_VERSION win_screen)) desk_trust desk_router
      = (tls', s', sent, r) \<and> r \<noteq> None \<and> hub_contains (fr_hub s') ''win''"
proof -
  obtain tls' s' sent r where ad: "admit id desk_config (Some win_print) 0 ''10.0.0.2'' (\<lambda>_. None) (Inr (Hello PROTOCOL_VERSION win_screen)) desk_trust desk_router
      = (tls', s', sent, r)" by (metis prod_cases4)
  have r: "r \<noteq> None"
    using client_let_in_iff [OF ad]
    by (simp add: is_compatible_with_def known_layout_def desk_router_def froute_new_def load_disabled_def hub_new_def desk_config_def
        la_new_def has_screen_def win_screen_def trusts_def desk_trust_def tr_new_def hub_contains_def bm_has_iff)
  have n: "si_name win_screen = ''win''" by (simp add: win_screen_def)
  have "hub_contains (fr_hub s') ''win''"
    using client_let_in_iff [OF ad] r unfolding n hub_contains_def by simp
  then show ?thesis using ad r by blast
qed

section \<open>The server's sessions\<close>

text \<open>
  C34: Through any connections, inputs and endings of sessions, and whatever the rest of the server does,
  the hub's clients are exactly the sessions that run, and every routed file read still waiting waits for
  one of them, so none waits for somebody who is gone.
\<close>

theorem clients_are_sessions:
  assumes "list_all elsewhere ops"
    and "sv = server_run env (server_new tls (froute_new (load_disabled hub_new names))) ops"
  shows "(hub_contains (fr_hub (sv_router sv)) n \<longleftrightarrow> bm_has (sv_sessions sv) n)
    \<and> (bm_get (fr_pending (sv_router sv)) req = Some p \<longrightarrow> bm_has (sv_sessions sv) (pd_sent_to p))"
  using server_ok_run [OF server_ok_new assms(1), of env tls names] assms(2)
  by (auto simp: server_ok_def waits_ok_def)

definition desk_env :: server_env where
  "desk_env = \<lparr>sve_quote = id, sve_pc = \<lparr>pc_enc_content = (\<lambda>_. []), pc_dec_content = (\<lambda>_. None), pc_enc_manifest = (\<lambda>_. []), pc_dec_manifest = (\<lambda>_. None)\<rparr>,
     sve_config = desk_config\<rparr>"

definition win_session :: "server_op list" where
  "win_session =
     [SvConnect (Some win_print) 0 ''10.0.0.2'' (\<lambda>_. None) (Inr (Hello PROTOCOL_VERSION win_screen)),
      SvElsewhere (FAnnounce (OwnClient ''win'') 1 \<lparr>fm_entries = []\<rparr>),
      SvElsewhere (FRequestLocal 5 1 0 0 4)]"

lemma clients_are_sessions_witness:
  "bm_has (sv_sessions (server_run desk_env (server_new desk_trust (froute_new (load_disabled hub_new {}))) win_session)) ''win''"
proof -
  let ?sv = "server_run desk_env (server_new desk_trust (froute_new (load_disabled hub_new {}))) win_session"
  have "list_all elsewhere win_session" by (simp add: win_session_def)
  note c = clients_are_sessions [OF this refl, of desk_env desk_trust "{}"]
  have "hub_contains (fr_hub (sv_router ?sv)) ''win''" by code_simp
  then show ?thesis using c by blast
qed

section \<open>Keep-alives\<close>

text \<open>How many probes are unanswered after these inputs, when \<open>n\<close> were before.\<close>

fun quiet_ticks :: "nat \<Rightarrow> session_input list \<Rightarrow> nat" where
  "quiet_ticks n [] = n"
| "quiet_ticks n (InTick # is) = quiet_ticks (n + 1) is"
| "quiet_ticks n (InMsg _ # is) = quiet_ticks 0 is"
| "quiet_ticks n (_ # is) = quiet_ticks n is"

fun session_loop :: "postcard \<Rightarrow> options \<Rightarrow> (server_msg list \<Rightarrow> codec_error option) \<Rightarrow> session_input list
    \<Rightarrow> file_router \<Rightarrow> session \<Rightarrow> file_router \<times> session \<times> session_end option" where
  "session_loop pc opts fails [] s st = (s, st, None)"
| "session_loop pc opts fails (i # is) s st =
     (case session_step pc opts fails i s st of
        (s, st, None) \<Rightarrow> session_loop pc opts fails is s st
      | (s, st, Some e) \<Rightarrow> (s, st, Some e))"

lemma se_send_missed: "se_send fails m st = (st', e) \<Longrightarrow> se_missed st' = se_missed st"
  by (auto simp: se_send_def split: option.splits)

lemma se_receive_missed: "se_missed (snd (se_receive pc opts m s st)) = 0"
  by (cases m) (auto simp: se_receive_def se_data_def Let_def split: prod.split option.split sum.split)

lemma session_step_missed:
  assumes "session_step pc opts fails inp s st = (s', st', e)"
  shows "e = None \<Longrightarrow> se_missed st' = quiet_ticks (se_missed st) [inp] \<and> (inp = InTick \<longrightarrow> se_missed st + 1 < KEEPALIVE_MISSES)"
    and "e = Some EndMissed \<Longrightarrow> inp = InTick \<and> KEEPALIVE_MISSES \<le> se_missed st + 1"
proof -
  have "(e = None \<longrightarrow> se_missed st' = quiet_ticks (se_missed st) [inp] \<and> (inp = InTick \<longrightarrow> se_missed st + 1 < KEEPALIVE_MISSES))
    \<and> (e = Some EndMissed \<longrightarrow> inp = InTick \<and> KEEPALIVE_MISSES \<le> se_missed st + 1)"
  proof (cases inp)
    case InDemo
    then show ?thesis using assms
      by (auto simp: session_step_def Let_def dest: se_send_missed split: list.splits prod.splits option.splits)
  next
    case InOutbox
    let ?q = "hub_delivered (fr_hub s) (se_name st)"
    obtain st1 err where sent: "se_send fails (?q ! se_taken st) (st\<lparr>se_taken := se_taken st + 1\<rparr>) = (st1, err)" by fastforce
    have m: "se_missed st1 = se_missed st" using se_send_missed [OF sent] by simp
    show ?thesis
    proof (cases "se_taken st < length ?q")
      case True
      then have "st' = st1 \<and> e \<noteq> Some EndMissed"
        using assms sent by (cases err; cases "?q ! se_taken st") (simp_all add: InOutbox session_step_def Let_def, auto)
      then show ?thesis using m by (simp add: InOutbox)
    next
      case False
      then show ?thesis using assms by (auto simp: InOutbox session_step_def Let_def)
    qed
  next
    case InTick
    then show ?thesis using assms
      by (auto simp: session_step_def Let_def dest: se_send_missed split: prod.splits option.splits if_splits)
  next
    case (InMsg m)
    then show ?thesis using assms se_receive_missed [of pc opts m s st] by (auto simp: session_step_def split: prod.splits)
  next
    case (InFailed c)
    then show ?thesis using assms by (cases c) (auto simp: session_step_def)
  qed
  then show "e = None \<Longrightarrow> se_missed st' = quiet_ticks (se_missed st) [inp] \<and> (inp = InTick \<longrightarrow> se_missed st + 1 < KEEPALIVE_MISSES)"
    and "e = Some EndMissed \<Longrightarrow> inp = InTick \<and> KEEPALIVE_MISSES \<le> se_missed st + 1" by simp_all
qed

lemma quiet_ticks_Cons: "quiet_ticks n (i # is) = quiet_ticks (quiet_ticks n [i]) is"
  by (cases i) simp_all

lemma session_loop_missed:
  assumes "se_missed st < KEEPALIVE_MISSES" "session_loop pc opts fails ins s st = (s', st', e)"
  shows "(e = None \<longrightarrow> se_missed st' = quiet_ticks (se_missed st) ins \<and> se_missed st' < KEEPALIVE_MISSES)
    \<and> (e = Some EndMissed \<longrightarrow> (\<exists>pre post. ins = pre @ InTick # post \<and> KEEPALIVE_MISSES \<le> quiet_ticks (se_missed st) pre + 1))"
  using assms
proof (induction ins arbitrary: s st)
  case (Cons i ins)
  obtain s1 st1 e1 where step: "session_step pc opts fails i s st = (s1, st1, e1)" by (metis prod_cases3)
  show ?case
  proof (cases e1)
    case None
    have m: "se_missed st1 = quiet_ticks (se_missed st) [i]" using session_step_missed(1) [OF step None] by simp
    have lt: "se_missed st1 < KEEPALIVE_MISSES"
      using session_step_missed(1) [OF step None] Cons.prems(1) by (cases i) (auto simp: KEEPALIVE_MISSES_def)
    have "session_loop pc opts fails ins s1 st1 = (s', st', e)" using Cons.prems(2) step None by simp
    note ih = Cons.IH [OF lt this]
    have "\<exists>pre post. i # ins = pre @ InTick # post \<and> KEEPALIVE_MISSES \<le> quiet_ticks (se_missed st) pre + 1"
      if "ins = pre @ InTick # post" "KEEPALIVE_MISSES \<le> quiet_ticks (se_missed st1) pre + 1" for pre post
      using that m quiet_ticks_Cons [of "se_missed st" i pre] by (intro exI [of _ "i # pre"] exI [of _ post]) simp
    moreover have "quiet_ticks (se_missed st) (i # ins) = quiet_ticks (se_missed st1) ins"
      using m quiet_ticks_Cons [of "se_missed st" i ins] by simp
    ultimately show ?thesis using ih by metis
  next
    case (Some x)
    have "\<exists>pre post. i # ins = pre @ InTick # post \<and> KEEPALIVE_MISSES \<le> quiet_ticks (se_missed st) pre + 1" if "x = EndMissed"
      using session_step_missed(2) [OF step] that Some by (intro exI [of _ "[]"] exI [of _ ins]) simp
    then show ?thesis using Cons.prems(2) step Some by auto
  qed
qed simp

text \<open>
  A session that still runs has at most two probes unanswered, and one is only given up for missed
  keep-alives at a probe that finds the two before it unanswered, with nothing at all heard in between:
  a client that answers every probe, or says anything else, is never given up.
\<close>

theorem given_up_only_when_silent:
  assumes "session_loop pc opts fails ins s (session_new cfg screen sent) = (s', st', e)"
  shows "(e = None \<longrightarrow> quiet_ticks 0 ins \<le> 2)
    \<and> (e = Some EndMissed \<longrightarrow> (\<exists>pre post. ins = pre @ InTick # post \<and> 2 \<le> quiet_ticks 0 pre))"
proof -
  have m: "se_missed (session_new cfg screen sent) = 0" by (simp add: session_new_def)
  then show ?thesis
    using session_loop_missed [OF _ assms] by (auto simp: KEEPALIVE_MISSES_def)
qed

lemma given_up_only_when_silent_witness:
  "\<exists>s' st' e. session_loop (sve_pc desk_env) options_default (\<lambda>_. None) [InTick, InTick, InMsg CKeepAlive, InTick, InTick, InTick] desk_router
      (session_new desk_config win_screen []) = (s', st', e) \<and> e = Some EndMissed
    \<and> (\<exists>pre post. [InTick, InTick, InMsg CKeepAlive, InTick, InTick, InTick] = pre @ InTick # post \<and> 2 \<le> quiet_ticks 0 pre)"
proof -
  let ?ins = "[InTick, InTick, InMsg CKeepAlive, InTick, InTick, InTick]"
  obtain s' st' e where r: "session_loop (sve_pc desk_env) options_default (\<lambda>_. None) ?ins desk_router (session_new desk_config win_screen []) = (s', st', e)"
    by (metis prod_cases3)
  have "snd (snd (session_loop (sve_pc desk_env) options_default (\<lambda>_. None) ?ins desk_router (session_new desk_config win_screen []))) = Some EndMissed"
    by (simp add: session_step_def se_send_def session_new_def se_receive_def KEEPALIVE_MISSES_def Let_def)
  then have "e = Some EndMissed" using r by simp
  then show ?thesis using r given_up_only_when_silent [OF r] by blast
qed

section \<open>What a client may say\<close>

text \<open>
  Whatever monitors a client reports, the list used for it has at least one and at most thirty-two,
  each with an area and no larger than a million a side, and each of its coordinates within a million of
  the origin, or the one coordinate whose magnitude wraps around.
\<close>

theorem reported_monitors_bounded:
  "sanitize_monitors screen \<noteq> [] \<and> length (sanitize_monitors screen) \<le> 32
   \<and> list_all (\<lambda>r. 0 < r_w r \<and> r_w r \<le> 1000000 \<and> 0 < r_h r \<and> r_h r \<le> 1000000
       \<and> (is_i32 (r_x r) \<longrightarrow> \<bar>r_x r\<bar> \<le> 1000000 \<or> r_x r = -2147483648)
       \<and> (is_i32 (r_y r) \<longrightarrow> \<bar>r_y r\<bar> \<le> 1000000 \<or> r_y r = -2147483648)) (sanitize_monitors screen)"
proof -
  have sane: "0 < r_w r \<and> r_w r \<le> 1000000 \<and> 0 < r_h r \<and> r_h r \<le> 1000000
       \<and> (is_i32 (r_x r) \<longrightarrow> \<bar>r_x r\<bar> \<le> 1000000 \<or> r_x r = -2147483648)
       \<and> (is_i32 (r_y r) \<longrightarrow> \<bar>r_y r\<bar> \<le> 1000000 \<or> r_y r = -2147483648)" if "sane_rect r" for r
    using that i32_abs_id [of "r_x r"] i32_abs_id [of "r_y r"] by (auto simp: sane_rect_def is_i32_def)
  have "sane_rect (Rect 0 0 1920 1080)" by (simp add: sane_rect_def i32_abs_def)
  then have "list_all sane_rect (sanitize_monitors screen)"
    by (auto simp: sanitize_monitors_def Let_def list_all_iff dest: in_set_takeD)
  moreover have "sanitize_monitors screen \<noteq> []" "length (sanitize_monitors screen) \<le> 32"
    by (auto simp: sanitize_monitors_def Let_def MAX_MONITORS_def)
  ultimately show ?thesis using sane by (auto simp: list_all_iff)
qed

lemma reported_monitors_bounded_witness:
  "sanitize_monitors win_screen = [Rect 0 0 800 600] \<and> sanitize_monitors win_screen \<noteq> []"
  using reported_monitors_bounded [of win_screen]
  by (simp add: sanitize_monitors_def win_screen_def sane_rect_def i32_abs_def MAX_MONITORS_def)

text \<open>The wrap-around is real: a monitor two thousand million to the left of everything is accepted.\<close>

lemma monitor_abs_wraps: "sane_rect (Rect (-2147483648) 0 800 600)"
  by (simp add: sane_rect_def i32_abs_min i32_abs_id)

definition push_allowed :: "postcard \<Rightarrow> options \<Rightarrow> content \<Rightarrow> bool" where
  "push_allowed pc opts ct \<longleftrightarrow> cc_data_len ct \<le> effective_max (clipboard_max_bytes opts)
     \<and> (if cc_files pc ct \<noteq> None then clipboard_files opts else clipboard_sharing opts)"

definition pushes_ok :: "server_env \<Rightarrow> server \<Rightarrow> bool" where
  "pushes_ok env sv \<longleftrightarrow>
     list_all (\<lambda>sc. push_allowed (sve_pc env) (nc_options (sve_config env)) (sc_content sc)) (hb_clipboard (fr_hub (sv_router sv)))
     \<and> (\<forall>n st. bm_get (sv_sessions sv) n = Some st \<longrightarrow>
          inb_ok (effective_max (clipboard_max_bytes (nc_options (sve_config env)))) (se_pushed st))"

lemma clipboard_send [simp]: "hb_clipboard (fst (hub_send h n m)) = hb_clipboard h"
  by (auto simp: hub_send_def split: option.split)

lemma clipboard_deliver [simp]: "hb_clipboard (fr_hub (fr_deliver s w res)) = hb_clipboard (fr_hub s)"
  by (auto simp: fr_deliver_def Let_def split: waiting.split)

lemma clipboard_fail [simp]: "hb_clipboard (fr_hub (fail_pending req s)) = hb_clipboard (fr_hub s)"
  by (auto simp: fail_pending_def split: option.split)

lemma clipboard_fold_fail [simp]: "hb_clipboard (fr_hub (fold fail_pending rs s)) = hb_clipboard (fr_hub s)"
  by (induction rs arbitrary: s) auto

lemma clipboard_route [simp]: "hb_clipboard (fr_hub (fr_route s seq i off len w)) = hb_clipboard (fr_hub s)"
  by (auto simp: fr_route_def Let_def split: option.split owner_id.split)

lemma clipboard_disconnected [simp]: "hb_clipboard (fr_hub (on_disconnected s n)) = hb_clipboard (fr_hub s)"
  by (simp add: on_disconnected_def Let_def)

fun says_nothing :: "froute_op \<Rightarrow> bool" where
  "says_nothing (FHub (OClipboardIn _ _)) = False"
| "says_nothing _ = True"

lemma clipboard_hub_step: "says_nothing (FHub op) \<Longrightarrow> hb_clipboard (hub_step h op) = hb_clipboard h"
  by (cases op) (auto simp: hub_defs Let_def split: option.split)

lemma clipboard_froute_step: "says_nothing op \<Longrightarrow> hb_clipboard (fr_hub (froute_step s op)) = hb_clipboard (fr_hub s)"
  by (cases op) (auto simp: fr_announce_def request_for_client_def request_local_def run_job_def reply_from_client_def Let_def
      clipboard_hub_step split: option.split)

lemma se_send_pushed: "se_send fails m st = (st', e) \<Longrightarrow> se_pushed st' = se_pushed st"
  by (auto simp: se_send_def split: option.splits)

lemma se_data_push:
  assumes "inb_ok (effective_max (clipboard_max_bytes opts)) (se_pushed st)" "se_data pc opts cid seq c s st = (s', st')"
  shows "inb_ok (effective_max (clipboard_max_bytes opts)) (se_pushed st')
    \<and> (hb_clipboard (fr_hub s') = hb_clipboard (fr_hub s)
       \<or> (\<exists>ct. hb_clipboard (fr_hub s') = hb_clipboard (fr_hub s) @ [\<lparr>sc_from = se_name st, sc_content = ct\<rparr>] \<and> push_allowed pc opts ct))"
proof -
  let ?mx = "effective_max (clipboard_max_bytes opts)"
  obtain inb r where i: "inb_data pc (se_pushed st) cid seq c = (inb, r)" by fastforce
  have inb: "inb_ok ?mx inb" using inb_data_ok [OF assms(1), of pc cid seq c] i by simp
  have bound: "cc_data_len ct \<le> ?mx" if "r = Inr (Some ct)" for ct
    using inb_step_bound [OF assms(1), of pc "Chunk cid seq c" inb ct] i that by simp
  show ?thesis
  proof (cases "r = Inr None \<or> (\<exists>e. r = Inl e)")
    case True
    then show ?thesis using assms inb i by (auto simp: se_data_def Let_def split: if_splits)
  next
    case False
    then obtain ct where ct: "r = Inr (Some ct)" by (cases r) auto
    then show ?thesis using assms inb i bound [OF ct]
      by (auto simp: se_data_def Let_def push_allowed_def clipboard_in_def split: if_splits)
  qed
qed

lemma session_step_pushes:
  assumes "inb_ok (effective_max (clipboard_max_bytes opts)) (se_pushed st)" "session_step pc opts fails inp s st = (s', st', e)"
  shows "inb_ok (effective_max (clipboard_max_bytes opts)) (se_pushed st')
    \<and> (hb_clipboard (fr_hub s') = hb_clipboard (fr_hub s)
       \<or> (\<exists>ct. hb_clipboard (fr_hub s') = hb_clipboard (fr_hub s) @ [\<lparr>sc_from = se_name st, sc_content = ct\<rparr>] \<and> push_allowed pc opts ct))"
proof (cases inp)
  case (InMsg m)
  obtain s1 st1 where rc: "se_receive pc opts m s st = (s1, st1)" by fastforce
  have eq: "s' = s1" "st' = st1" using assms(2) rc by (simp_all add: InMsg session_step_def)
  show ?thesis
  proof (cases m)
    case (CClipboardData cid seq c)
    then show ?thesis
      using se_data_push [of opts "st\<lparr>se_missed := 0\<rparr>" pc cid seq c s s1 st1] assms(1) rc by (simp add: se_receive_def Let_def eq)
  next
    case (CClipboardGrab cid seq)
    have "inb_ok mx (inb_grab cid seq mx)" for mx
      using inb_step_ok [of mx None pc "Grab cid seq"] by (simp add: inb_ok_def)
    then show ?thesis using CClipboardGrab assms(1) rc by (auto simp: se_receive_def Let_def eq)
  next
    case (CFileReply req result)
    then show ?thesis using assms(1) rc clipboard_froute_step [of "FReply (se_name st) req result" s]
      by (auto simp: se_receive_def Let_def eq)
  next
    case (CFileRead seq req i off len)
    then show ?thesis using assms(1) rc clipboard_froute_step [of "FRequest (se_name st) seq req i off len" s]
      by (auto simp: se_receive_def Let_def eq)
  next
    case (ScreenChanged info)
    then show ?thesis using assms(1) rc clipboard_hub_step [of "OSetMonitors (se_name st) (sanitize_monitors info)" "fr_hub s"]
      by (auto simp: se_receive_def Let_def eq)
  qed (use assms(1) rc in \<open>auto simp: se_receive_def Let_def eq\<close>)
next
  case InDemo
  then show ?thesis using assms by (auto simp: session_step_def Let_def dest: se_send_pushed split: list.splits prod.splits)
next
  case InOutbox
  then show ?thesis using assms by (auto simp: session_step_def Let_def dest: se_send_pushed split: prod.splits if_splits)
next
  case InTick
  obtain st1 err where sent: "se_send fails SKeepAlive st = (st1, err)" by fastforce
  obtain st2 err2 where sent2: "se_send fails (Close Timeout) (st1\<lparr>se_missed := se_missed st1 + 1\<rparr>) = (st2, err2)" by fastforce
  have "s' = s \<and> se_pushed st' = se_pushed st"
    using assms(2) sent sent2 se_send_pushed [OF sent] se_send_pushed [OF sent2]
    by (cases err) (auto simp: InTick session_step_def Let_def split: if_splits)
  then show ?thesis using assms(1) by simp
next
  case (InFailed c)
  then show ?thesis using assms by (cases c) (auto simp: session_step_def)
qed

lemma pushes_ok_step:
  assumes "pushes_ok env sv" "server_ok sv" "elsewhere op" "(case op of SvElsewhere fop \<Rightarrow> says_nothing fop | _ \<Rightarrow> True)"
  shows "pushes_ok env (server_step env sv op)"
proof (cases op)
  case (SvElsewhere fop)
  then show ?thesis using assms clipboard_froute_step [of fop "sv_router sv"] by (simp add: pushes_ok_def)
next
  case (SvTrust top)
  then show ?thesis using assms by (simp add: pushes_ok_def)
next
  case (SvConnect fp now addr fails hello)
  obtain tls s sent r where ad: "admit (sve_quote env) (sve_config env) fp now addr fails hello (sv_trust sv) (sv_router sv) = (tls, s, sent, r)"
    by (metis prod_cases4)
  have reg: "hb_clipboard h' = hb_clipboard h" if "register h n ms = Some h'" for h n ms h'
    using that by (auto simp: register_def Let_def emit_def split: if_splits)
  from admit_cases [OF ad] show ?thesis
  proof (elim disjE exE conjE)
    assume "r = None" "s = sv_router sv"
    then show ?thesis using assms ad by (simp add: SvConnect sv_connect_def pushes_ok_def)
  next
    fix v screen
    assume r: "r = Some (session_new (sve_config env) screen sent)"
      and h: "register (fr_hub (sv_router sv)) (si_name screen) (sanitize_monitors screen) = Some (fr_hub s)"
    let ?st = "session_new (sve_config env) screen sent"
    have eq: "server_step env sv op = \<lparr>sv_router = s, sv_trust = tls, sv_sessions = bm_insert (se_name ?st) ?st (sv_sessions sv)\<rparr>"
      using ad r by (simp add: SvConnect sv_connect_def)
    have new: "inb_ok mx (se_pushed ?st)" for mx by (simp add: session_new_def inb_new_def inb_ok_def)
    show ?thesis using assms(1) reg [OF h] new unfolding eq by (auto simp: pushes_ok_def)
  qed
next
  case (SvSession name fails inp)
  show ?thesis
  proof (cases "bm_get (sv_sessions sv) name")
    case None
    then show ?thesis using assms by (simp add: SvSession sv_session_def)
  next
    case (Some st)
    obtain s1 st1 e where step: "session_step (sve_pc env) (nc_options (sve_config env)) fails inp (sv_router sv) st = (s1, st1, e)"
      by (metis prod_cases3)
    have inb: "inb_ok (effective_max (clipboard_max_bytes (nc_options (sve_config env)))) (se_pushed st)"
      using assms(1) Some by (auto simp: pushes_ok_def)
    note pushed = session_step_pushes [OF inb step]
    have allowed: "list_all (\<lambda>sc. push_allowed (sve_pc env) (nc_options (sve_config env)) (sc_content sc)) (hb_clipboard (fr_hub s1))"
      using pushed assms(1) by (auto simp: pushes_ok_def)
    have "hb_clipboard (fr_hub (fst (finish_session fails s1 st1))) = hb_clipboard (fr_hub s1)"
      by (simp add: finish_session_def Let_def unregister_def emit_def)
    note fin = this
    have inb1: "inb_ok (effective_max (clipboard_max_bytes (nc_options (sve_config env)))) (se_pushed st1)" using pushed by simp
    have old: "inb_ok (effective_max (clipboard_max_bytes (nc_options (sve_config env)))) (se_pushed x)" if "bm_get (sv_sessions sv) n = Some x" for n x
      using assms(1) that by (auto simp: pushes_ok_def)
    show ?thesis
    proof (cases e)
      case None
      then have "server_step env sv op = sv\<lparr>sv_router := s1, sv_sessions := bm_insert name st1 (sv_sessions sv)\<rparr>"
        using Some step by (simp add: SvSession sv_session_def)
      then show ?thesis using allowed inb1 old by (auto simp: pushes_ok_def)
    next
      case (Some x)
      then have "server_step env sv op = sv\<lparr>sv_router := fst (finish_session fails s1 st1), sv_sessions := bm_remove name (sv_sessions sv)\<rparr>"
        using \<open>bm_get (sv_sessions sv) name = Some st\<close> step by (simp add: SvSession sv_session_def)
      then show ?thesis using allowed old fin by (auto simp: pushes_ok_def)
    qed
  qed
qed

lemma pushes_ok_run:
  assumes "server_ok sv" "pushes_ok env sv"
  shows "list_all elsewhere ops \<Longrightarrow> list_all (\<lambda>op. case op of SvElsewhere fop \<Rightarrow> says_nothing fop | _ \<Rightarrow> True) ops \<Longrightarrow>
    pushes_ok env (server_run env sv ops)"
proof (induction ops rule: rev_induct)
  case (snoc op ops)
  then show ?case using pushes_ok_step [of env "server_run env sv ops" op] server_ok_run [OF assms(1), of ops env] by simp
qed (simp add: assms)

text \<open>
  Whatever the clients send, in any order and cut up in any way, everything the sessions hand to the
  clipboard's relay holds no more data than the configured limit, and is of a kind (files, or text,
  style and pictures) that the options share.
\<close>

theorem relayed_pushes_allowed:
  assumes "list_all elsewhere ops" "list_all (\<lambda>op. case op of SvElsewhere fop \<Rightarrow> says_nothing fop | _ \<Rightarrow> True) ops"
    and "sv = server_run env (server_new tls (froute_new (load_disabled hub_new names))) ops"
    and "sc \<in> set (hb_clipboard (fr_hub (sv_router sv)))"
  shows "cc_data_len (sc_content sc) \<le> effective_max (clipboard_max_bytes (nc_options (sve_config env)))
    \<and> (if cc_files (sve_pc env) (sc_content sc) \<noteq> None then clipboard_files (nc_options (sve_config env))
       else clipboard_sharing (nc_options (sve_config env)))"
proof -
  have "pushes_ok env (server_new tls (froute_new (load_disabled hub_new names)))"
    by (simp add: pushes_ok_def server_new_def froute_new_def load_disabled_def hub_new_def)
  from pushes_ok_run [OF server_ok_new this assms(1,2)] show ?thesis
    using assms(3,4) by (auto simp: pushes_ok_def push_allowed_def list_all_iff)
qed

definition one_text :: postcard where
  "one_text = \<lparr>pc_enc_content = (\<lambda>_. ''x''), pc_dec_content = (\<lambda>bs. if bs = ''x'' then Some (cc_new (Some ''hi'') None) else None),
     pc_enc_manifest = (\<lambda>_. []), pc_dec_manifest = (\<lambda>_. None)\<rparr>"

definition win_pushes :: "server_op list" where
  "win_pushes =
     SvConnect (Some win_print) 0 ''10.0.0.2'' (\<lambda>_. None) (Inr (Hello PROTOCOL_VERSION win_screen)) #
     map (\<lambda>m. SvSession ''win'' (\<lambda>_. None) (InMsg m))
       [CClipboardGrab Clipboard 1, CClipboardData Clipboard 1 (Start 1), CClipboardData Clipboard 1 (Data ''x''), CClipboardData Clipboard 1 End]"

lemma relayed_pushes_allowed_witness:
  "\<exists>sc. sc \<in> set (hb_clipboard (fr_hub (sv_router (server_run (desk_env\<lparr>sve_pc := one_text\<rparr>)
        (server_new desk_trust (froute_new (load_disabled hub_new {}))) win_pushes)))) \<and> cc_data_len (sc_content sc) \<le> effective_max 0"
proof -
  let ?env = "desk_env\<lparr>sve_pc := one_text\<rparr>"
  let ?sv = "server_run ?env (server_new desk_trust (froute_new (load_disabled hub_new {}))) win_pushes"
  have "map sc_from (hb_clipboard (fr_hub (sv_router ?sv))) = [''win'']" by code_simp
  then obtain sc where sc: "sc \<in> set (hb_clipboard (fr_hub (sv_router ?sv)))" by (cases "hb_clipboard (fr_hub (sv_router ?sv))") auto
  have e: "list_all elsewhere win_pushes" "list_all (\<lambda>op. case op of SvElsewhere fop \<Rightarrow> says_nothing fop | _ \<Rightarrow> True) win_pushes"
    by (simp_all add: win_pushes_def)
  have "cc_data_len (sc_content sc) \<le> effective_max 0"
    using relayed_pushes_allowed [OF e refl sc] by (simp add: desk_env_def desk_config_def options_default_def)
  then show ?thesis using sc by blast
qed

section \<open>The client's side\<close>

text \<open>
  C36: Both ends of a handshake agree on how it went: the client is connected with the version and the
  options the server chose exactly when the server accepted it; it gives up for good exactly when the
  versions are incompatible, and is told a reason, after which it may try again, in every other case.
\<close>

theorem handshake_agrees:
  assumes "handshake quote la opts keepalive auth taken accept_new (\<lambda>_. None) (Inr (Hello v screen)) t = (t', sent, res)"
  shows "(case res of
      Inr (Accepted sc nv) \<Rightarrow> sc = screen \<and> negotiate PROTOCOL_VERSION v = Inr nv
        \<and> client_handshake None (map Inr sent) = Some (Inr \<lparr>cn_version = nv, cn_keepalive = keepalive, cn_options = opts\<rparr>)
    | Inr (IncompatibleWith w) \<Rightarrow> w = v \<and> \<not> is_compatible_with PROTOCOL_VERSION v
        \<and> client_handshake None (map Inr sent) = Some (Inl (CIncompatible PROTOCOL_VERSION)) \<and> is_fatal (CIncompatible PROTOCOL_VERSION)
    | Inr out \<Rightarrow> is_compatible_with PROTOCOL_VERSION v \<and> out \<in> {UnknownScreen (si_name screen), Untrusted (si_name screen), NameTaken (si_name screen)}
        \<and> (\<exists>reason. client_handshake None (map Inr sent) = Some (Inl (CRejected reason)) \<and> \<not> is_fatal (CRejected reason))
    | Inl e \<Rightarrow> False)"
proof (cases "negotiate PROTOCOL_VERSION v")
  case (Inl e)
  then have "\<not> is_compatible_with PROTOCOL_VERSION v" using negotiate_ok_iff [of PROTOCOL_VERSION v] by auto
  moreover have "sent = [Incompatible PROTOCOL_VERSION] \<and> res = Inr (IncompatibleWith v)"
    using assms Inl by (auto simp: handshake_def answer_def Let_def)
  ultimately show ?thesis by (simp add: client_handshake_def)
next
  case (Inr nv)
  have c: "is_compatible_with PROTOCOL_VERSION v" using negotiate_ok_iff [of PROTOCOL_VERSION v] Inr by auto
  obtain t1 reason where a: "auth t (si_name screen) = (t1, reason)" by fastforce
  show ?thesis
    using assms Inr c a
    by (cases reason) (auto simp: handshake_def answer_def Let_def client_handshake_def split: if_splits)
qed

lemma handshake_agrees_witness:
  "\<exists>t' sent res. handshake id (la_new [''win'']) options_default 3000 (\<lambda>t name. (t, None)) (\<lambda>_. False) True (\<lambda>_. None)
      (Inr (client_hello win_screen)) () = (t', sent, res)
    \<and> client_handshake None (map Inr sent) = Some (Inr \<lparr>cn_version = PROTOCOL_VERSION, cn_keepalive = 3000, cn_options = options_default\<rparr>)"
proof -
  obtain t' sent res where h: "handshake id (la_new [''win'']) options_default 3000 (\<lambda>t name. (t, None)) (\<lambda>_. False) True (\<lambda>_. None)
      (Inr (Hello PROTOCOL_VERSION win_screen)) () = (t', sent, res)" by (metis prod_cases3)
  then have r: "res = Inr (Accepted win_screen PROTOCOL_VERSION)"
    by (auto simp: handshake_def answer_def Let_def negotiate_def has_screen_def la_new_def win_screen_def PROTOCOL_VERSION_def)
  show ?thesis using handshake_agrees [OF h] h unfolding r client_hello_def by auto
qed

text \<open>
  With TLS a client gets a link, over which its first message goes, only to a server whose
  certificate was pinned for that address, or that a person confirmed in a connection over which nothing
  was sent, and that then presented the same certificate again; and two connections always settle it.
\<close>

theorem link_only_to_trusted_server:
  assumes "connect_loop of_cert (prompt_trust writable says) server None as known = (known', Some (Inr (l, fp)))"
  shows "(bm_get known server = Some fp \<and> known' = known) \<or>
    (bm_get known server = None \<and> says fp = Some True \<and> 2 \<le> length as
     \<and> known' = (if writable then bm_insert server fp known else known))"
  using connect_trusted [OF assms]
  by (auto simp: prompt_trust_def confirm_new_def split: option.splits if_splits)

lemma link_only_to_trusted_server_witness:
  "\<exists>known' l. connect_loop id (prompt_trust True (\<lambda>fp. Some True)) ''10.0.0.1:24810'' None
      (replicate 2 \<lparr>at_tcp = True, at_tls = TlsPresents win_print, at_link = (0::nat)\<rparr>) [] = (known', Some (Inr (l, win_print)))
    \<and> known' = [(''10.0.0.1:24810'', win_print)]"
proof -
  let ?as = "replicate 2 \<lparr>at_tcp = True, at_tls = TlsPresents win_print, at_link = (0::nat)\<rparr>"
  have c: "\<exists>known'. connect_loop id (prompt_trust True (\<lambda>fp. Some True)) ''10.0.0.1:24810'' None ?as [] = (known', Some (Inr (0, win_print)))"
    by (simp add: numeral_2_eq_2 verify_server_cert_def prompt_trust_def confirm_new_def)
  then obtain known' where k: "connect_loop id (prompt_trust True (\<lambda>fp. Some True)) ''10.0.0.1:24810'' None ?as [] = (known', Some (Inr (0, win_print)))" ..
  show ?thesis using link_only_to_trusted_server [OF k] k by auto
qed

text \<open>
  C35: However its connections go, in whatever way they end, a client waiting for its next attempt, or
  that has given up, remembers no key and no button as held, and none is still down that the system did
  not refuse to release.
\<close>

theorem nothing_held_between_connections:
  assumes "drains_all env"
    and "s = fst (snd (connect_with_status pol (enigo_input env) rounds (with_perform sink_new perform)))"
  shows "sk_keys s = [] \<and> sk_buttons s = [] \<and> keys_down (sk_log s) \<subseteq> {k. (KeyCall Release k, False) \<in> set (sk_log s)}
    \<and> buttons_down (sk_log s) \<subseteq> {b. (ButtonCall Release b, False) \<in> set (sk_log s)}"
proof -
  have "let_go (with_perform sink_new perform)"
    by (simp add: let_go_def with_perform_def sink_new_def log_defs)
  then have "let_go s"
    using enigo.retry_released [of "with_perform sink_new perform" env] assms sink_new_inv by (simp add: connect_with_status_def)
  then show ?thesis by (simp add: let_go_def stuck_keys_def stuck_buttons_def)
qed

definition plain_env :: enigo_env where
  "plain_env = \<lparr>en_os = Unix, en_works = (\<lambda>_ _. True), en_vk_scan = (\<lambda>_. -1), en_cursor = (\<lambda>_. None), en_desktop = (0, 0, 0, 0),
     en_key_order = rev, en_button_order = rev\<rparr>"

definition key_press :: "nat \<Rightarrow> nat \<Rightarrow> key_action \<Rightarrow> server_msg" where
  "key_press hid c a = Key \<lparr>ke_hid = hid, ke_ch = Some c, ke_mods = mm_empty, ke_action = a\<rparr>"

lemma nothing_held_between_connections_witness:
  "keys_down (sk_log (fst (snd (connect_with_status rp_default (enigo_input plain_env)
       [Session 60000 [key_press 4 97 Down, Mouse (MouseButton BtnLeft True)] Over, Unconnected 5 CTls] (with_perform sink_new Map.empty))))) = {}"
proof -
  let ?s = "fst (snd (connect_with_status rp_default (enigo_input plain_env)
       [Session 60000 [key_press 4 97 Down, Mouse (MouseButton BtnLeft True)] Over, Unconnected 5 CTls] (with_perform sink_new Map.empty)))"
  have d: "drains_all plain_env" by (simp add: drains_all_def plain_env_def)
  have "list_all snd (sk_log ?s)" by code_simp
  then have "\<not> (KeyCall Release k, False) \<in> set (sk_log ?s)" for k by (auto simp: list_all_iff)
  then show ?thesis using nothing_held_between_connections [OF d refl, of rp_default _ Map.empty] by blast
qed

text \<open>
  While its connections keep failing quickly, a client waits the initial delay, then twice that and
  so on up to the maximum, and never longer, before every new attempt; only a fatal error ends this.
\<close>

theorem retries_back_off:
  assumes "list_all (\<lambda>r. round_elapsed r < rp_stable pol) rounds" "rp_initial pol \<le> rp_max pol"
    and "connect_with_status pol sk rounds s = (steps, s', None)" "j < length steps"
  shows "snd (steps ! j) = min (rp_initial pol * 2 ^ j) (rp_max pol) \<and> length steps = length rounds"
proof -
  have len: "snd (snd (retry_loop pol sk delay rs s)) = None \<Longrightarrow> length (fst (retry_loop pol sk delay rs s)) = length rs" for delay rs s
  proof (induction rs arbitrary: delay s)
    case (Cons r rs)
    obtain st1 s1 err where "retry_loop pol sk (next_delay pol (delay_slept pol delay r)) rs (is_leave sk (round_input sk r s)) = (st1, s1, err)"
      by (metis prod_cases3)
    then show ?case using Cons.prems Cons.IH [of "next_delay pol (delay_slept pol delay r)" "is_leave sk (round_input sk r s)"]
      by (auto simp: Let_def split: option.splits if_splits)
  qed simp
  have "rp_initial pol = min (rp_initial pol * 2 ^ 0) (rp_max pol)" using assms(2) by simp
  from retry_slept_quick [OF assms(1) this, of j sk s] assms(3,4) len [of "rp_initial pol" rounds s]
  show ?thesis by (simp add: connect_with_status_def)
qed

lemma retries_back_off_witness:
  "\<exists>steps s'. connect_with_status rp_default null_sink (replicate 6 (Unconnected 5 CTls)) () = (steps, s', None)
    \<and> snd (steps ! 5) = 10000 \<and> snd (steps ! 2) = 4000"
proof -
  obtain steps s' err where c: "connect_with_status rp_default null_sink (replicate 6 (Unconnected 5 CTls)) () = (steps, s', err)"
    by (metis prod_cases3)
  have "snd (snd (connect_with_status rp_default null_sink (replicate 6 (Unconnected 5 CTls)) ())) = None
    \<and> length (fst (connect_with_status rp_default null_sink (replicate 6 (Unconnected 5 CTls)) ())) = 6" by code_simp
  then have e: "err = None" "length steps = 6" using c by simp_all
  have q: "list_all (\<lambda>r. round_elapsed r < rp_stable rp_default) (replicate 6 (Unconnected 5 CTls))" "rp_initial rp_default \<le> rp_max rp_default"
    by (simp_all add: rp_default_def list_all_iff)
  show ?thesis
    using c e retries_back_off [OF q, of null_sink "()" steps s' 5] retries_back_off [OF q, of null_sink "()" steps s' 2]
    by (simp add: rp_default_def)
qed

end
