(* ===== verification/Client_Spec.thy ===== *)
theory Client_Spec
  imports Net_Spec Clip_Spec
begin

text \<open>What a client does with what it is sent: keys go down and up in pairs, and its own files come to be known.\<close>

section \<open>Keys\<close>

fun lets_go_of :: "nat \<Rightarrow> sink_op \<Rightarrow> bool" where
  "lets_go_of h OpLeave = True"
| "lets_go_of h (OpKey ev) = (ke_action ev = Up \<and> ke_hid ev = h)"
| "lets_go_of h _ = False"

lemma held_key_kept:
  assumes "bm_get (sk_keys s) h = Some k" "\<not> lets_go_of h x"
  shows "bm_get (sk_keys (sink_step env s x)) h = Some k"
proof (cases x)
  case (OpEnter p)
  then show ?thesis using assms keeps_held_move_to [of s env "pt_x p" "pt_y p"] by (simp add: sink_enter_def keeps_held_def)
next
  case OpLeave
  then show ?thesis using assms(2) by simp
next
  case (OpKey ev)
  have press: "bm_get (sk_keys (sink_press env ev s)) h = Some k"
    using assms(1) by (auto simp: sink_press_def Let_def inject_def split: option.split)
  then show ?thesis using assms
    by (cases "ke_action ev") (auto simp: OpKey sink_key_def inject_def split: option.split)
next
  case (OpMouse ev)
  then show ?thesis using assms(1) keeps_held_move_to [of s env] keeps_held_move_by [of s env]
    by (cases ev) (auto simp: sink_mouse_def Let_def keeps_held_def os_do_def)
qed

lemma held_key_kept_run:
  "bm_get (sk_keys s) h = Some k \<Longrightarrow> list_all (\<lambda>x. \<not> lets_go_of h x) ops \<Longrightarrow> bm_get (sk_keys (sink_run env s ops)) h = Some k"
  by (induction ops rule: rev_induct) (simp_all add: held_key_kept)

lemma sink_run_append: "sink_run env s (xs @ ys) = sink_run env (sink_run env s xs) ys"
  by (simp add: sink_run_def)

text \<open>
  The release of a key lifts exactly the key its press put down, whatever the events in between did
  and whatever character the release says it makes, and the key is then no longer remembered as held.
\<close>

theorem release_lifts_pressed_key:
  assumes "ke_action down = Down" "ke_action up = Up" "ke_hid up = ke_hid down"
    and "bm_get (sk_keys s) (ke_hid down) = None" "chosen_key env (sk_perform s) down = Some k"
    and "\<not> typed_as_text env (os_key_of env k)" "list_all (\<lambda>x. \<not> lets_go_of (ke_hid down) x) ops"
  shows "fst (last (sk_log (sink_run env s ([OpKey down] @ ops @ [OpKey up])))) = KeyCall Release (os_key_of env k)
    \<and> fst (last (sk_log (sink_run env s [OpKey down]))) = KeyCall Press (os_key_of env k)
    \<and> bm_get (sk_keys (sink_run env s ([OpKey down] @ ops @ [OpKey up]))) (ke_hid down) = None"
proof -
  let ?h = "ke_hid down" and ?k = "os_key_of env k"
  have press: "sink_step env s (OpKey down) = inject env ?k Press (s\<lparr>sk_keys := bm_insert ?h ?k (sk_keys s)\<rparr>)"
    using assms by (simp add: sink_key_def sink_press_def Let_def)
  let ?s1 = "sink_run env s [OpKey down]"
  have s1: "?s1 = sink_step env s (OpKey down)" by (simp add: sink_run_def)
  have held: "bm_get (sk_keys (sink_run env ?s1 ops)) ?h = Some ?k"
    using held_key_kept_run [OF _ assms(7)] unfolding s1 press by (simp add: inject_def)
  let ?s2 = "sink_run env ?s1 ops"
  have run: "sink_run env s ([OpKey down] @ ops @ [OpKey up]) = sink_step env ?s2 (OpKey up)"
    using sink_run_append [of env s "[OpKey down]" "ops @ [OpKey up]"] by simp
  have release: "sink_step env ?s2 (OpKey up) = inject env ?k Release (?s2\<lparr>sk_keys := bm_remove ?h (sk_keys ?s2)\<rparr>)"
    using assms(2,3) held by (simp add: sink_key_def)
  have "fst (last (sk_log (sink_step env ?s2 (OpKey up)))) = KeyCall Release ?k"
    "bm_get (sk_keys (sink_step env ?s2 (OpKey up))) ?h = None"
    unfolding release by (simp_all add: inject_def)
  moreover have "fst (last (sk_log ?s1)) = KeyCall Press ?k" unfolding s1 press by (simp add: inject_def)
  ultimately show ?thesis unfolding run by blast
qed

definition an_event :: "nat \<Rightarrow> nat \<Rightarrow> key_action \<Rightarrow> key_event" where
  "an_event hid c a = \<lparr>ke_hid = hid, ke_ch = Some c, ke_mods = mm_empty, ke_action = a\<rparr>"

lemma release_lifts_pressed_key_witness:
  "fst (last (sk_log (sink_run plain_env sink_new
      ([OpKey (an_event 4 97 Down)] @ [OpKey (an_event 225 0 Down), OpMouse (MoveRel 3 0)] @ [OpKey (an_event 4 65 Up)]))))
    = KeyCall Release (KUnicode 97)"
proof -
  have k: "chosen_key plain_env (sk_perform sink_new) (an_event 4 97 Down) = Some (KUnicode 97)" by code_simp
  have o2: "os_key_of plain_env (KUnicode 97) = KUnicode 97" by (simp add: os_key_of_def plain_env_def)
  have t: "\<not> typed_as_text plain_env (os_key_of plain_env (KUnicode 97))" by (simp add: typed_as_text_def plain_env_def)
  show ?thesis
    using release_lifts_pressed_key [of "an_event 4 97 Down" "an_event 4 65 Up" sink_new plain_env "KUnicode 97"
        "[OpKey (an_event 225 0 Down), OpMouse (MoveRel 3 0)]"] k t o2
    by (simp add: an_event_def sink_new_def)
qed

text \<open>
  For every special key a rule can name, this machine is said to press it unaided exactly when there
  is a key of its system for it, on either system.
\<close>

theorem built_in_actions_have_keys:
  "list_all (\<lambda>(name, hid). has_built_in sys hid \<longleftrightarrow> named_key sys hid \<noteq> None) ACTIONS"
proof (cases sys)
  case Unix
  show ?thesis unfolding Unix by code_simp
next
  case Windows
  show ?thesis unfolding Windows by code_simp
qed

section \<open>What the server sends of the clipboard\<close>

fun take_clip :: "'c clip_env \<Rightarrow> clip_msg \<Rightarrow> 'c client_clip \<Rightarrow> 'c client_clip" where
  "take_clip env (Grab cid seq) c = cb_grab cid seq c"
| "take_clip env (Chunk cid seq ck) c = cb_data env cid seq ck c"

lemma take_clip_is_message:
  "clip_of m = Some cm \<Longrightarrow> on_message env sk w m st = (st\<lparr>cs_clip := take_clip env cm (cs_clip st)\<rparr>, None)"
  by (cases m rule: clip_of.cases) (auto simp: on_message_def)

lemma take_stream:
  assumes "as_limit asm = 0 \<or> length (as_buf asm) + length (concat ds) \<le> as_limit asm" "as_started asm" "\<not> as_finished asm"
    and "as_expected asm = 0 \<or> as_expected asm = length (as_buf asm @ concat ds)"
    and "pc_dec_content (ve_pc env) (as_buf asm @ concat ds) = Some ct" "cc_data_len ct \<le> mb"
    and "cb_inbound c = Some (seq, mb, asm)" "clipboard_files (cb_options c)" "cc_files (ve_pc env) ct = Some m"
  shows "fold (take_clip env) (map (Chunk Clipboard seq) (map Data ds @ [End])) c = cb_announced seq m (c\<lparr>cb_inbound := None\<rparr>)"
  using assms
proof (induction ds arbitrary: asm c)
  case Nil
  then show ?case by (auto simp: cb_data_def inb_data_def)
next
  case (Cons d ds)
  let ?c = "c\<lparr>cb_inbound := Some (seq, mb, asm\<lparr>as_buf := as_buf asm @ d\<rparr>)\<rparr>"
  have "fold (take_clip env) (map (Chunk Clipboard seq) (map Data ds @ [End])) ?c = cb_announced seq m (?c\<lparr>cb_inbound := None\<rparr>)"
    using Cons.prems by (intro Cons.IH [of "asm\<lparr>as_buf := as_buf asm @ d\<rparr>"]) auto
  moreover have "take_clip env (Chunk Clipboard seq (Data d)) c = ?c"
    using Cons.prems by (auto simp: cb_data_def inb_data_def Let_def)
  ultimately show ?case by simp
qed

lemma take_transfer:
  assumes "shareable (ve_pc env) (cb_max_bytes c) ct" "pc_dec_content (ve_pc env) (pc_enc_content (ve_pc env) ct) = Some ct"
    and "cb_files_active c" "cc_files (ve_pc env) ct = Some m"
  shows "fold (take_clip env) (transfer (ve_pc env) seq ct) c = cb_announced seq m (c\<lparr>cb_inbound := None\<rparr>)"
proof -
  let ?bs = "pc_enc_content (ve_pc env) ct" and ?lim = "saturating_add (cb_max_bytes c) ENCODING_SLACK"
  let ?asm = "(as_with_limit ?lim)\<lparr>as_started := True, as_expected := length ?bs, as_reserved := min (length ?bs) MAX_PREALLOCATE\<rparr>"
  let ?c = "c\<lparr>cb_inbound := Some (seq, cb_max_bytes c, ?asm)\<rparr>"
  have on: "clipboard_files (cb_options c)" using assms(3) by (simp add: cb_files_active_def)
  have cc: "concat (slice_chunks CHUNK_SIZE ?bs) = ?bs" by (rule concat_slice_chunks) (simp add: CHUNK_SIZE_def)
  have "fold (take_clip env) (map (Chunk Clipboard seq) (map Data (slice_chunks CHUNK_SIZE ?bs) @ [End])) ?c
      = cb_announced seq m (?c\<lparr>cb_inbound := None\<rparr>)"
    using assms on by (intro take_stream) (auto simp: cc as_with_limit_def as_new_def shareable_def)
  moreover have "take_clip env (Chunk Clipboard seq (Start (length ?bs))) (take_clip env (Grab Clipboard seq) c) = ?c"
    using assms on by (auto simp: cb_grab_def cb_data_def inb_grab_def inb_data_def Let_def as_with_limit_def as_new_def shareable_def)
  ultimately show ?thesis by (simp add: transfer_def outbound_def chunk_stream_def Let_def)
qed

section \<open>Files this client copied\<close>

text \<open>
  Files copied on a client come to be owned by it everywhere: when the limits let the announcement
  through, the server hands exactly it on, makes the client the owner under the number it gives out, and
  the echo of it, taken by the client, makes the client answer reads under that same number with the
  very files it copied.
\<close>

theorem own_files_confirmed:
  assumes "cb_pending_own c = Some (m, ps)" "fm_entries m \<noteq> []" "cb_files_active c" "postcard_ok (ve_pc env)" "re_pc renv = ve_pc env" "re_files renv"
    and "ct = cc_with_files (ve_pc env) m" "shareable (ve_pc env) mx ct" "shareable (ve_pc env) (cb_max_bytes c) ct"
    and "hub_reachable (fr_hub (rl_router r)) name" "\<not> is_disabled (fr_hub (rl_router r)) name"
    and "r' = relay_shared renv \<lparr>sc_from = name, sc_content = ct\<rparr> r"
  shows "inb_run (ve_pc env) mx inb (transfer (ve_pc env) seq ct) = (None, [Inr ct])
    \<and> fr_current (rl_router r') = Some (OwnClient name, u64 (rl_seq r + 1), m)
    \<and> clip_queue r' name = clip_queue r name @ transfer (ve_pc env) (u64 (rl_seq r + 1)) ct
    \<and> (let c' = fold (take_clip env) (transfer (ve_pc env) (u64 (rl_seq r + 1)) ct) c
       in cb_owner c' = fo_set (u64 (rl_seq r + 1)) m ps \<and> cb_pending_own c' = None)"
proof -
  have pc: "pc_dec_content (ve_pc env) (pc_enc_content (ve_pc env) ct) = Some ct" "cc_files (ve_pc env) ct = Some m"
    using assms(2,4,7) by (auto simp: postcard_ok_def cc_with_files_def cc_files_def cc_find_def)
  have took: "fold (take_clip env) (transfer (ve_pc env) (u64 (rl_seq r + 1)) ct) c = cb_announced (u64 (rl_seq r + 1)) m (c\<lparr>cb_inbound := None\<rparr>)"
    using take_transfer [OF assms(9) pc(1) assms(3) pc(2)] .
  have r': "r' = share (ve_pc env) None ct ((next_seq r)\<lparr>rl_router := fr_announce (rl_router (next_seq r)) (OwnClient name) (rl_seq (next_seq r)) m\<rparr>)"
    using assms(5,6,12) pc(2) by (simp add: relay_shared_def Let_def)
  show ?thesis
    using inb_run_transfer [OF assms(8) pc(1)] took assms(1,3,10,11)
    by (simp add: r' clip_queue_share next_seq_def fr_announce_def cb_announced_def cb_files_active_def Let_def)
      (simp add: clip_queue_def share_def)
qed

definition own_manifest :: file_manifest where
  "own_manifest = \<lparr>fm_entries = [\<lparr>fe_path = ''f'', fe_size = 3, fe_dir = False\<rparr>]\<rparr>"

definition sharing_client :: "slot client_clip" where
  "sharing_client = (cb_new (Some (sy_new mem_new)) options_default)\<lparr>cb_pending_own := Some (own_manifest, [[''home'', ''f'']])\<rparr>"

definition sample_clip_env :: "slot clip_env" where
  "sample_clip_env = \<lparr>ve_pc = sample_postcard, ve_oc = mem_clipboard, ve_hs = \<lparr>hs_content = length \<circ> cc_items, hs_paths = length\<rparr>\<rparr>"

lemma own_files_confirmed_witness:
  "fr_current (rl_router (relay_shared sample_env \<lparr>sc_from = ''a'', sc_content = cc_with_files sample_postcard own_manifest\<rparr>
      (relay_start sample_env sample_hub (sy_new mem_new)))) = Some (OwnClient ''a'', 1, own_manifest)"
proof -
  let ?r = "relay_start sample_env sample_hub (sy_new mem_new)" and ?ct = "cc_with_files sample_postcard own_manifest"
  have s: "rl_seq ?r = 0" "rl_router ?r = sample_hub" by (simp_all add: relay_start_def Let_def)
  have h: "hub_reachable (fr_hub sample_hub) ''a''" "\<not> is_disabled (fr_hub sample_hub) ''a''"
    by (simp_all add: sample_hub_def froute_new_def hub_run_def hub_defs hub_new_def hub_reachable_def bm_has_iff)
  have f: "shareable sample_postcard 100 ?ct"
    by (simp add: shareable_def saturating_add_def ENCODING_SLACK_def sample_postcard_def cc_with_files_def own_manifest_def
        cc_data_len_def MIME_FILES_def numeral_3_eq_3)
  then have g: "shareable sample_postcard (cb_max_bytes sharing_client) ?ct"
    by (simp add: shareable_def saturating_add_def ENCODING_SLACK_def cb_max_bytes_def sharing_client_def cb_new_def options_default_def
        effective_max_def HARD_MAX_BYTES_def)
  show ?thesis
    using own_files_confirmed [of sharing_client own_manifest "[[''home'', ''f'']]" sample_clip_env sample_env ?ct 100 ?r "''a''" _ None 1]
      sample_postcard_ok f g h s
    by (simp add: sharing_client_def cb_new_def cb_files_active_def options_default_def sample_clip_env_def sample_env_def own_manifest_def u64_def)
qed

text \<open>
  The echo is the only thing that confirms a push of files, and it may never come: the announcement is
  subject to the limit on text, and an empty one is no announcement at all. Until one comes, files copied
  later are not pushed.
\<close>

lemma unconfirmed_push_blocks_files:
  assumes "cb_pending_own c = Some own"
  shows "cb_changed env look c = push_text env c" "cb_pending_own (fst (cb_changed env look c)) = Some own"
proof -
  show eq: "cb_changed env look c = push_text env c" using assms by (simp add: cb_changed_def split: option.split)
  show "cb_pending_own (fst (cb_changed env look c)) = Some own"
    unfolding eq using assms by (auto simp: push_text_def Let_def split: option.split prod.split)
qed

lemma oversized_announcement_dropped:
  assumes "cc_data_len ct > mx"
  shows "Inr ct \<notin> set (snd (inb_run pc mx inb_new (transfer pc seq ct)))"
  using inb_run_bound [of mx inb_new ct pc "transfer pc seq ct"] assms by (auto simp: inb_ok_def inb_new_def)

lemma empty_copy_announces_nothing: "cc_files pc (cc_with_files pc \<lparr>fm_entries = []\<rparr>) = None"
  by (simp add: cc_files_def cc_with_files_def cc_find_def cc_default_def)

text \<open>And what another machine announces meanwhile is taken for the echo, and lost.\<close>

lemma announcement_lost_while_unconfirmed:
  assumes "cb_pending_own c = Some (mine, ps)" "mine \<noteq> theirs" "clipboard_files (cb_options c)"
  shows "cb_remote (cb_announced seq theirs c) = None \<and> cb_owner (cb_announced seq theirs c) = cb_owner c
    \<and> cb_pending_own (cb_announced seq theirs c) = None"
  using assms by (simp add: cb_announced_def Let_def)

end
