(* ===== verification/Config.thy ===== *)
theory Config
  imports Key_Rules Layout Wire Trust
begin

text \<open>
  \<^verbatim>\<open>crates/geserdesk-server/src/config.rs\<close>: the server's configuration file, what its sections
  deserialize to, the checks that turn them into a configuration, and the settings the app's
  window edits in place.

  The TOML text itself is read and printed by third-party code (\<^verbatim>\<open>toml\<close>, \<^verbatim>\<open>toml_edit\<close>); a file
  is represented by the document it parses to. Comments and spacing, which the edits keep, are
  not part of it. Socket addresses are the parameter \<open>al\<close>: how one is read and printed.
\<close>

section \<open>Documents\<close>

datatype toml =
    VStr string
  | VInt int
  | VBool bool
  | VOther \<comment> \<open>a float or a date, which no key of this file takes\<close>
  | VArray "toml list"
  | VInline "(string \<times> toml) list" \<comment> \<open>a table written as a value\<close>
  | VTable "(string \<times> toml) list" \<comment> \<open>a table under a header\<close>
  | VTables "(string \<times> toml) list list" \<comment> \<open>tables under repeated headers\<close>

type_synonym table = "(string \<times> toml) list"
type_synonym document = table

fun tb_put :: "string \<Rightarrow> toml \<Rightarrow> table \<Rightarrow> table" where
  "tb_put k v [] = [(k, v)]"
| "tb_put k v ((k', v') # t) = (if k' = k then (k, v) # t else (k', v') # tb_put k v t)"

definition tb_remove :: "string \<Rightarrow> table \<Rightarrow> table" where
  "tb_remove k t = filter (\<lambda>(k', _). k' \<noteq> k) t"

definition as_str :: "toml \<Rightarrow> string option" where
  "as_str v = (case v of VStr s \<Rightarrow> Some s | _ \<Rightarrow> None)"

lemma tb_get_put [simp]: "map_of (tb_put k v t) k' = (if k' = k then Some v else map_of t k')"
  by (induction t) auto

lemma tb_get_remove [simp]: "map_of (tb_remove k t) k' = (if k' = k then None else map_of t k')"
  by (induction t) (auto simp: tb_remove_def)

section \<open>The raw shapes\<close>

record server_section =
  srv_listen :: "string option"
  srv_screen :: "string option"
  srv_ui :: "string option"
  srv_tls :: "bool option"

record screen_entry =
  sn_name :: string
  sn_x :: "int option"
  sn_y :: "int option"
  sn_w :: "int option"
  sn_h :: "int option"
  sn_fingerprint :: "string option"
  sn_disabled :: "bool option"

record link_entry =
  lk_left :: "string option"
  lk_right :: "string option"
  lk_up :: "string option"
  lk_down :: "string option"

record options_section =
  op_switch_delay_ms :: "nat option"
  op_switch_double_tap_ms :: "nat option"
  op_switch_corner_size :: "int option"
  op_jump_zone_size :: "int option"
  op_scroll_lock_locks :: "bool option"
  op_clipboard_sharing :: "bool option"
  op_clipboard_max_bytes :: "nat option"
  op_clipboard_files :: "bool option"
  op_clipboard_files_max_bytes :: "nat option"
  op_screensaver_sync :: "bool option"
  op_relative_mouse_moves :: "bool option"

record raw_config =
  rw_server :: "server_section option"
  rw_screens :: "screen_entry list"
  rw_links :: "(string, link_entry) bmap"
  rw_options :: "options_section option"

section \<open>Deserializing\<close>

text \<open>
  What the derived \<^verbatim>\<open>Deserialize\<close> does with a document: a missing key is \<^verbatim>\<open>None\<close> for an optional
  field (and the default where the struct says so), a value of another type or an integer out of
  the field's range is an error, and keys it does not know are ignored. \<^const>\<open>None\<close> is that error.
\<close>

definition de_str :: "toml \<Rightarrow> string option" where
  "de_str v = as_str v"

definition de_bool :: "toml \<Rightarrow> bool option" where
  "de_bool v = (case v of VBool b \<Rightarrow> Some b | _ \<Rightarrow> None)"

definition de_i32 :: "toml \<Rightarrow> int option" where
  "de_i32 v = (case v of VInt i \<Rightarrow> if is_i32 i then Some i else None | _ \<Rightarrow> None)"

definition de_u32 :: "toml \<Rightarrow> nat option" where
  "de_u32 v = (case v of VInt i \<Rightarrow> if 0 \<le> i \<and> i < 2 ^ 32 then Some (nat i) else None | _ \<Rightarrow> None)"

definition de_u64 :: "toml \<Rightarrow> nat option" where
  "de_u64 v = (case v of VInt i \<Rightarrow> if 0 \<le> i then Some (nat i) else None | _ \<Rightarrow> None)"

definition de_table :: "toml \<Rightarrow> table option" where
  "de_table v = (case v of VInline t \<Rightarrow> Some t | VTable t \<Rightarrow> Some t | _ \<Rightarrow> None)"

definition de_opt :: "(toml \<Rightarrow> 'a option) \<Rightarrow> string \<Rightarrow> table \<Rightarrow> 'a option option" where
  "de_opt de k t = (case map_of t k of None \<Rightarrow> Some None | Some v \<Rightarrow> map_option Some (de v))"

definition de_server :: "toml \<Rightarrow> server_section option" where
  "de_server v = do {
     t \<leftarrow> de_table v;
     listen \<leftarrow> de_opt de_str ''listen'' t;
     screen \<leftarrow> de_opt de_str ''screen'' t;
     ui \<leftarrow> de_opt de_str ''ui'' t;
     tls \<leftarrow> de_opt de_bool ''tls'' t;
     Some \<lparr>srv_listen = listen, srv_screen = screen, srv_ui = ui, srv_tls = tls\<rparr>
   }"

definition de_screen :: "table \<Rightarrow> screen_entry option" where
  "de_screen t = do {
     name \<leftarrow> Option.bind (map_of t ''name'') de_str;
     x \<leftarrow> de_opt de_i32 ''x'' t;
     y \<leftarrow> de_opt de_i32 ''y'' t;
     w \<leftarrow> de_opt de_i32 ''w'' t;
     h \<leftarrow> de_opt de_i32 ''h'' t;
     fingerprint \<leftarrow> de_opt de_str ''fingerprint'' t;
     disabled \<leftarrow> de_opt de_bool ''disabled'' t;
     Some \<lparr>sn_name = name, sn_x = x, sn_y = y, sn_w = w, sn_h = h, sn_fingerprint = fingerprint,
           sn_disabled = disabled\<rparr>
   }"

definition de_screens :: "toml \<Rightarrow> screen_entry list option" where
  "de_screens v =
     (case v of
        VTables ts \<Rightarrow> those (map de_screen ts)
      | VArray vs \<Rightarrow> Option.bind (those (map de_table vs)) (\<lambda>ts. those (map de_screen ts))
      | _ \<Rightarrow> None)"

definition de_link :: "toml \<Rightarrow> link_entry option" where
  "de_link v = do {
     t \<leftarrow> de_table v;
     l \<leftarrow> de_opt de_str ''left'' t;
     r \<leftarrow> de_opt de_str ''right'' t;
     u \<leftarrow> de_opt de_str ''up'' t;
     d \<leftarrow> de_opt de_str ''down'' t;
     Some \<lparr>lk_left = l, lk_right = r, lk_up = u, lk_down = d\<rparr>
   }"

definition de_links :: "toml \<Rightarrow> (string, link_entry) bmap option" where
  "de_links v = do {
     t \<leftarrow> de_table v;
     kvs \<leftarrow> those (map (\<lambda>(k, v). map_option (Pair k) (de_link v)) t);
     Some (bm_of_list kvs)
   }"

definition de_options :: "toml \<Rightarrow> options_section option" where
  "de_options v = do {
     t \<leftarrow> de_table v;
     delay \<leftarrow> de_opt de_u32 ''switch_delay_ms'' t;
     tap \<leftarrow> de_opt de_u32 ''switch_double_tap_ms'' t;
     corner \<leftarrow> de_opt de_i32 ''switch_corner_size'' t;
     jump \<leftarrow> de_opt de_i32 ''jump_zone_size'' t;
     scroll \<leftarrow> de_opt de_bool ''scroll_lock_locks'' t;
     sharing \<leftarrow> de_opt de_bool ''clipboard_sharing'' t;
     bytes \<leftarrow> de_opt de_u64 ''clipboard_max_bytes'' t;
     files \<leftarrow> de_opt de_bool ''clipboard_files'' t;
     fbytes \<leftarrow> de_opt de_u64 ''clipboard_files_max_bytes'' t;
     saver \<leftarrow> de_opt de_bool ''screensaver_sync'' t;
     rel \<leftarrow> de_opt de_bool ''relative_mouse_moves'' t;
     Some \<lparr>op_switch_delay_ms = delay, op_switch_double_tap_ms = tap, op_switch_corner_size = corner,
           op_jump_zone_size = jump, op_scroll_lock_locks = scroll, op_clipboard_sharing = sharing,
           op_clipboard_max_bytes = bytes, op_clipboard_files = files, op_clipboard_files_max_bytes = fbytes,
           op_screensaver_sync = saver, op_relative_mouse_moves = rel\<rparr>
   }"

definition de_config :: "document \<Rightarrow> raw_config option" where
  "de_config d = do {
     server \<leftarrow> de_opt de_server ''server'' d;
     screens \<leftarrow> de_opt de_screens ''screens'' d;
     links \<leftarrow> de_opt de_links ''links'' d;
     opts \<leftarrow> de_opt de_options ''options'' d;
     Some \<lparr>rw_server = server, rw_screens = (case screens of Some ss \<Rightarrow> ss | None \<Rightarrow> []),
           rw_links = (case links of Some ls \<Rightarrow> ls | None \<Rightarrow> []), rw_options = opts\<rparr>
   }"

section \<open>The configuration\<close>

type_synonym 'ip sock_addr = "'ip \<times> nat"

record 'ip addr_lib =
  al_parse :: "string \<Rightarrow> 'ip sock_addr option" \<comment> \<open>\<^verbatim>\<open>str::parse::<SocketAddr>()\<close>\<close>
  al_show :: "'ip sock_addr \<Rightarrow> string" \<comment> \<open>\<^verbatim>\<open>SocketAddr::to_string()\<close>\<close>
  al_any :: 'ip \<comment> \<open>\<^verbatim>\<open>0.0.0.0\<close>\<close>

text \<open>What an address prints as reads back as it.\<close>

definition al_ok :: "'ip addr_lib \<Rightarrow> bool" where
  "al_ok al \<longleftrightarrow> (\<forall>ip port. port < 2 ^ 16 \<longrightarrow> al_parse al (al_show al (ip, port)) = Some (ip, port))"

record 'ip config =
  cf_listen :: "'ip sock_addr"
  cf_local_screen :: string
  cf_positions :: "(string, point) bmap"
  cf_sizes :: "(string, size2) bmap"
  cf_path :: "string option"
  cf_tls :: bool
  cf_identity_dir :: "string option"
  cf_trusted :: "(string, fingerprint) bmap"
  cf_key_rules :: "rule list"
  cf_disabled :: "string set"
  cf_layout :: layout
  cf_policy :: switch_policy
  cf_options :: options
  cf_demo :: bool

datatype config_error =
    EToml
  | EListenAddr string
  | EFingerprint string
  | ENoScreens
  | EDuplicateScreen string
  | EUnknownLocalScreen string
  | EUnknownScreen link_error

definition default_listen :: "'ip addr_lib \<Rightarrow> 'ip sock_addr" where
  "default_listen al = (al_any al, 24810)"

fun first_duplicate :: "string list \<Rightarrow> string list \<Rightarrow> string option" where
  "first_duplicate names [] = None"
| "first_duplicate names (n # ns) = (if n \<in> set names then Some n else first_duplicate (names @ [n]) ns)"

definition local_screen :: "string option \<Rightarrow> string list \<Rightarrow> config_error + string" where
  "local_screen chosen names =
     (case chosen of
        Some name \<Rightarrow> if name \<in> set names then Inr name else Inl (EUnknownLocalScreen name)
      | None \<Rightarrow> Inr (hd names))"

definition unwrap_or :: "'a \<Rightarrow> 'a option \<Rightarrow> 'a" where
  "unwrap_or d x = (case x of Some v \<Rightarrow> v | None \<Rightarrow> d)"

definition entry_position :: "screen_entry \<Rightarrow> (string \<times> point) list" where
  "entry_position s =
     (if sn_x s \<noteq> None \<or> sn_y s \<noteq> None
      then [(sn_name s, Pt (unwrap_or 0 (sn_x s)) (unwrap_or 0 (sn_y s)))] else [])"

text \<open>Only a complete, positive size counts.\<close>

definition entry_size :: "screen_entry \<Rightarrow> (string \<times> size2) list" where
  "entry_size s =
     (case (sn_w s, sn_h s) of
        (Some w, Some h) \<Rightarrow> if w > 0 \<and> h > 0 then [(sn_name s, \<lparr>sz_w = w, sz_h = h\<rparr>)] else []
      | _ \<Rightarrow> [])"

fun read_trusted :: "(string, fingerprint) bmap \<Rightarrow> screen_entry list \<Rightarrow> config_error + (string, fingerprint) bmap" where
  "read_trusted m [] = Inr m"
| "read_trusted m (s # ss) =
     (case sn_fingerprint s of
        None \<Rightarrow> read_trusted m ss
      | Some text \<Rightarrow>
          (case fp_parse text of
             None \<Rightarrow> Inl (EFingerprint (sn_name s))
           | Some fp \<Rightarrow> read_trusted (bm_insert (sn_name s) fp m) ss))"

definition link_edges :: "link_entry \<Rightarrow> (edge \<times> string) list" where
  "link_edges l =
     concat (map (\<lambda>(e, d). case d of None \<Rightarrow> [] | Some s \<Rightarrow> [(e, s)])
       [(Left, lk_left l), (Right, lk_right l), (Top, lk_up l), (Bottom, lk_down l)])"

fun link_loop :: "layout \<Rightarrow> (string \<times> edge \<times> string) list \<Rightarrow> config_error + layout" where
  "link_loop l [] = Inr l"
| "link_loop l ((from, e, dest) # ls) =
     (case la_link l from e dest of Inl er \<Rightarrow> Inl (EUnknownScreen er) | Inr l \<Rightarrow> link_loop l ls)"

definition all_links :: "(string, link_entry) bmap \<Rightarrow> (string \<times> edge \<times> string) list" where
  "all_links m = concat (map (\<lambda>(from, l). map (Pair from) (link_edges l)) m)"

definition options_section_default :: options_section where
  "options_section_default =
     \<lparr>op_switch_delay_ms = None, op_switch_double_tap_ms = None, op_switch_corner_size = None,
      op_jump_zone_size = None, op_scroll_lock_locks = None, op_clipboard_sharing = None,
      op_clipboard_max_bytes = None, op_clipboard_files = None, op_clipboard_files_max_bytes = None,
      op_screensaver_sync = None, op_relative_mouse_moves = None\<rparr>"

definition policy_of :: "options_section \<Rightarrow> switch_policy" where
  "policy_of opt =
     \<lparr>sp_delay_ms = unwrap_or 0 (op_switch_delay_ms opt),
      sp_double_tap_ms = unwrap_or 0 (op_switch_double_tap_ms opt),
      sp_corner_size = unwrap_or 0 (op_switch_corner_size opt),
      sp_jump_zone = unwrap_or 1 (op_jump_zone_size opt),
      sp_scroll_lock_locks = unwrap_or True (op_scroll_lock_locks opt)\<rparr>"

definition options_of :: "options_section \<Rightarrow> options" where
  "options_of opt =
     \<lparr>clipboard_sharing = unwrap_or True (op_clipboard_sharing opt),
      clipboard_max_bytes = unwrap_or 0 (op_clipboard_max_bytes opt),
      scroll_lock_locks = sp_scroll_lock_locks (policy_of opt),
      screensaver_sync = unwrap_or False (op_screensaver_sync opt),
      relative_mouse_moves = unwrap_or True (op_relative_mouse_moves opt),
      clipboard_files = unwrap_or True (op_clipboard_files opt),
      clipboard_files_max_bytes = unwrap_or 0 (op_clipboard_files_max_bytes opt)\<rparr>"

definition read_listen :: "'ip addr_lib \<Rightarrow> string option \<Rightarrow> config_error + 'ip sock_addr" where
  "read_listen al s =
     (let text = (case s of Some t \<Rightarrow> t | None \<Rightarrow> al_show al (default_listen al))
      in case al_parse al text of None \<Rightarrow> Inl (EListenAddr text) | Some a \<Rightarrow> Inr a)"

definition config_checked :: "'ip addr_lib \<Rightarrow> raw_config \<Rightarrow> config_error + 'ip config" where
  "config_checked al raw =
     (case read_listen al (Option.bind (rw_server raw) srv_listen) of Inl e \<Rightarrow> Inl e
      | Inr listen \<Rightarrow>
     if rw_screens raw = [] then Inl ENoScreens
     else let names = map sn_name (rw_screens raw) in
     (case first_duplicate [] names of Some n \<Rightarrow> Inl (EDuplicateScreen n)
      | None \<Rightarrow>
     (case local_screen (Option.bind (rw_server raw) srv_screen) names of Inl e \<Rightarrow> Inl e
      | Inr local \<Rightarrow>
     (case read_trusted [] (rw_screens raw) of Inl e \<Rightarrow> Inl e
      | Inr trusted \<Rightarrow>
     (case link_loop (la_new names) (all_links (rw_links raw)) of Inl e \<Rightarrow> Inl e
      | Inr l \<Rightarrow>
        let opt = unwrap_or options_section_default (rw_options raw)
        in Inr \<lparr>cf_listen = listen, cf_local_screen = local,
            cf_positions = bm_of_list (concat (map entry_position (rw_screens raw))),
            cf_sizes = bm_of_list (concat (map entry_size (rw_screens raw))),
            cf_path = None,
            cf_tls = unwrap_or True (Option.bind (rw_server raw) srv_tls),
            cf_identity_dir = None,
            cf_trusted = trusted,
            cf_key_rules = [],
            cf_disabled = sn_name ` set (filter (\<lambda>s. sn_disabled s = Some True) (rw_screens raw)),
            cf_layout = l, cf_policy = policy_of opt, cf_options = options_of opt, cf_demo = False\<rparr>)))))"

definition config_parse :: "'ip addr_lib \<Rightarrow> document \<Rightarrow> config_error + 'ip config" where
  "config_parse al d = (case de_config d of None \<Rightarrow> Inl EToml | Some raw \<Rightarrow> config_checked al raw)"

end
