(* ===== verification/Config_File.thy ===== *)
theory Config_File
  imports Config
begin

text \<open>
  Editing the configuration file in place: \<^verbatim>\<open>Tuning\<close> and \<^verbatim>\<open>write_tuning\<close> of \<^verbatim>\<open>config.rs\<close>, and the
  edits of its \<^verbatim>\<open>[[screens]]\<close> tables in \<^verbatim>\<open>admin.rs\<close> (\<^verbatim>\<open>edit_screens\<close>, \<^verbatim>\<open>write_layout\<close>,
  \<^verbatim>\<open>write_disabled\<close>, \<^verbatim>\<open>write_fingerprint\<close>, \<^verbatim>\<open>add_screen_to_config\<close>), with what each edit does to the
  configuration the file parses to.
\<close>

section \<open>Reading the file, changing it, replacing it\<close>

datatype save_error =
    SCheck string \<comment> \<open>the settings cannot be used\<close>
  | SRead \<comment> \<open>the file cannot be read, or is not TOML\<close>
  | SNotTable string
  | SNoScreens
  | SHasScreen string
  | SWrite

text \<open>
  A file is the document it parses to, \<^const>\<open>None\<close> when there is none. The new text goes to a
  temporary file that replaces the old one, so a write that fails (\<open>writes\<close> is false) leaves it.
\<close>

definition edit_file :: "(document \<Rightarrow> save_error + document) \<Rightarrow> bool \<Rightarrow> document option \<Rightarrow> document option \<times> save_error option" where
  "edit_file f writes file =
     (case file of
        None \<Rightarrow> (file, Some SRead)
      | Some d \<Rightarrow>
          (case f d of
             Inl e \<Rightarrow> (file, Some e)
           | Inr d' \<Rightarrow> if writes then (Some d', None) else (file, Some SWrite)))"

section \<open>The settings of the app's window\<close>

record tuning =
  tu_port :: nat
  tu_switch_delay_ms :: nat
  tu_switch_double_tap_ms :: nat
  tu_switch_corner_size :: int
  tu_jump_zone_size :: int
  tu_scroll_lock_locks :: bool
  tu_clipboard_sharing :: bool
  tu_clipboard_files :: bool

definition tuning_default :: "'ip addr_lib \<Rightarrow> tuning" where
  "tuning_default al =
     \<lparr>tu_port = snd (default_listen al), tu_switch_delay_ms = 0, tu_switch_double_tap_ms = 0,
      tu_switch_corner_size = 0, tu_jump_zone_size = 1, tu_scroll_lock_locks = True,
      tu_clipboard_sharing = True, tu_clipboard_files = True\<rparr>"

definition tuning_of :: "'ip config \<Rightarrow> tuning" where
  "tuning_of c =
     \<lparr>tu_port = snd (cf_listen c), tu_switch_delay_ms = sp_delay_ms (cf_policy c),
      tu_switch_double_tap_ms = sp_double_tap_ms (cf_policy c),
      tu_switch_corner_size = sp_corner_size (cf_policy c), tu_jump_zone_size = sp_jump_zone (cf_policy c),
      tu_scroll_lock_locks = sp_scroll_lock_locks (cf_policy c),
      tu_clipboard_sharing = clipboard_sharing (cf_options c), tu_clipboard_files = clipboard_files (cf_options c)\<rparr>"

definition tuning_check :: "tuning \<Rightarrow> string option" where
  "tuning_check t =
     (if tu_port t = 0 then Some ''port harus antara 1 dan 65535''
      else if tu_jump_zone_size t < 1 then Some ''jump zone minimal 1 px''
      else if tu_switch_corner_size t < 0 then Some ''ukuran sudut tidak boleh negatif''
      else None)"

text \<open>The ranges of the struct's types.\<close>

definition tuning_typed :: "tuning \<Rightarrow> bool" where
  "tuning_typed t \<longleftrightarrow> tu_port t < 2 ^ 16 \<and> tu_switch_delay_ms t < 2 ^ 32 \<and> tu_switch_double_tap_ms t < 2 ^ 32
     \<and> is_i32 (tu_switch_corner_size t) \<and> is_i32 (tu_jump_zone_size t)"

text \<open>The section of that name, made if there is none; it must be a table under a header.\<close>

definition section_of :: "document \<Rightarrow> string \<Rightarrow> save_error + table" where
  "section_of d name =
     (case map_of d name of None \<Rightarrow> Inr [] | Some (VTable t) \<Rightarrow> Inr t | Some _ \<Rightarrow> Inl (SNotTable name))"

definition set_key :: "string \<Rightarrow> toml \<Rightarrow> toml \<Rightarrow> table \<Rightarrow> table" where
  "set_key k v std t = (if v = std then tb_remove k t else tb_put k v t)"

definition set_listen :: "'ip addr_lib \<Rightarrow> tuning \<Rightarrow> table \<Rightarrow> table" where
  "set_listen al t server =
     (let host = (case Option.bind (Option.bind (map_of server ''listen'') as_str) (al_parse al) of
                    None \<Rightarrow> fst (default_listen al) | Some a \<Rightarrow> fst a)
      in if map_of server ''listen'' \<noteq> None \<or> tu_port t \<noteq> snd (default_listen al)
         then tb_put ''listen'' (VStr (al_show al (host, tu_port t))) server else server)"

definition set_options :: "'ip addr_lib \<Rightarrow> tuning \<Rightarrow> table \<Rightarrow> table" where
  "set_options al t opts =
     (let def = tuning_default al;
          opts = set_key ''switch_delay_ms'' (VInt (int (tu_switch_delay_ms t))) (VInt (int (tu_switch_delay_ms def))) opts;
          opts = set_key ''switch_double_tap_ms'' (VInt (int (tu_switch_double_tap_ms t)))
                   (VInt (int (tu_switch_double_tap_ms def))) opts;
          opts = set_key ''switch_corner_size'' (VInt (tu_switch_corner_size t)) (VInt (tu_switch_corner_size def)) opts;
          opts = set_key ''jump_zone_size'' (VInt (tu_jump_zone_size t)) (VInt (tu_jump_zone_size def)) opts;
          opts = set_key ''scroll_lock_locks'' (VBool (tu_scroll_lock_locks t)) (VBool (tu_scroll_lock_locks def)) opts;
          opts = set_key ''clipboard_sharing'' (VBool (tu_clipboard_sharing t)) (VBool (tu_clipboard_sharing def)) opts
      in set_key ''clipboard_files'' (VBool (tu_clipboard_files t)) (VBool (tu_clipboard_files def)) opts)"

definition tuning_edit :: "'ip addr_lib \<Rightarrow> tuning \<Rightarrow> document \<Rightarrow> save_error + document" where
  "tuning_edit al t d =
     (case section_of d ''server'' of Inl e \<Rightarrow> Inl e
      | Inr server \<Rightarrow>
          let d = tb_put ''server'' (VTable (set_listen al t server)) d
          in case section_of d ''options'' of Inl e \<Rightarrow> Inl e
             | Inr opts \<Rightarrow>
                 let opts = set_options al t opts
                 in Inr (if opts = [] then tb_remove ''options'' d else tb_put ''options'' (VTable opts) d))"

definition write_tuning :: "'ip addr_lib \<Rightarrow> tuning \<Rightarrow> bool \<Rightarrow> document option \<Rightarrow> document option \<times> save_error option" where
  "write_tuning al t writes file =
     (case tuning_check t of
        Some e \<Rightarrow> (file, Some (SCheck e))
      | None \<Rightarrow> edit_file (tuning_edit al t) writes file)"

section \<open>The tables of the screens\<close>

definition edit_table :: "(string \<Rightarrow> table \<Rightarrow> table) \<Rightarrow> table \<Rightarrow> table" where
  "edit_table f t = (case Option.bind (map_of t ''name'') as_str of None \<Rightarrow> t | Some n \<Rightarrow> f n t)"

definition edit_screens :: "(string \<Rightarrow> table \<Rightarrow> table) \<Rightarrow> document \<Rightarrow> save_error + document" where
  "edit_screens f d =
     (case map_of d ''screens'' of
        Some (VTables ts) \<Rightarrow> Inr (tb_put ''screens'' (VTables (map (edit_table f) ts)) d)
      | _ \<Rightarrow> Inl SNoScreens)"

definition layout_entry :: "(string, point) bmap \<Rightarrow> (string, size2) bmap \<Rightarrow> string \<Rightarrow> table \<Rightarrow> table" where
  "layout_entry positions sizes name t =
     (let t = (case bm_get positions name of None \<Rightarrow> t
               | Some p \<Rightarrow> tb_put ''y'' (VInt (pt_y p)) (tb_put ''x'' (VInt (pt_x p)) t))
      in case bm_get sizes name of
           Some s \<Rightarrow> tb_put ''h'' (VInt (sz_h s)) (tb_put ''w'' (VInt (sz_w s)) t)
         | None \<Rightarrow> tb_remove ''h'' (tb_remove ''w'' t))"

definition write_layout :: "(string, point) bmap \<Rightarrow> (string, size2) bmap \<Rightarrow> bool \<Rightarrow> document option
    \<Rightarrow> document option \<times> save_error option" where
  "write_layout positions sizes = edit_file (edit_screens (layout_entry positions sizes))"

definition disabled_entry :: "string \<Rightarrow> bool \<Rightarrow> string \<Rightarrow> table \<Rightarrow> table" where
  "disabled_entry screen disabled name t =
     (if name = screen then (if disabled then tb_put ''disabled'' (VBool True) t else tb_remove ''disabled'' t) else t)"

definition write_disabled :: "string \<Rightarrow> bool \<Rightarrow> bool \<Rightarrow> document option \<Rightarrow> document option \<times> save_error option" where
  "write_disabled screen disabled = edit_file (edit_screens (disabled_entry screen disabled))"

definition fingerprint_entry :: "string \<Rightarrow> fingerprint option \<Rightarrow> string \<Rightarrow> table \<Rightarrow> table" where
  "fingerprint_entry screen fp name t =
     (if name = screen
      then (case fp of Some f \<Rightarrow> tb_put ''fingerprint'' (VStr (fp_display f)) t | None \<Rightarrow> tb_remove ''fingerprint'' t)
      else t)"

definition write_fingerprint :: "string \<Rightarrow> fingerprint option \<Rightarrow> bool \<Rightarrow> document option
    \<Rightarrow> document option \<times> save_error option" where
  "write_fingerprint screen fp = edit_file (edit_screens (fingerprint_entry screen fp))"

definition add_screen_edit :: "string \<Rightarrow> fingerprint \<Rightarrow> document \<Rightarrow> save_error + document" where
  "add_screen_edit screen fp d =
     (let d = (if map_of d ''screens'' = None then tb_put ''screens'' (VTables []) d else d)
      in case map_of d ''screens'' of
           Some (VTables ts) \<Rightarrow>
             if \<exists>t \<in> set ts. Option.bind (map_of t ''name'') as_str = Some screen then Inl (SHasScreen screen)
             else Inr (tb_put ''screens'' (VTables (ts @ [[(''name'', VStr screen), (''fingerprint'', VStr (fp_display fp))]])) d)
         | _ \<Rightarrow> Inl (SNotTable ''screens''))"

definition add_screen_to_config :: "string \<Rightarrow> fingerprint \<Rightarrow> bool \<Rightarrow> document option \<Rightarrow> document option \<times> save_error option" where
  "add_screen_to_config screen fp = edit_file (add_screen_edit screen fp)"

section \<open>What the file parses to after the settings were written\<close>

lemma de_opt_put [simp]: "de_opt de k (tb_put k' v t) = (if k = k' then map_option Some (de v) else de_opt de k t)"
  by (simp add: de_opt_def)

lemma de_opt_remove [simp]: "de_opt de k (tb_remove k' t) = (if k = k' then Some None else de_opt de k t)"
  by (simp add: de_opt_def)

lemma de_opt_Nil [simp]: "de_opt de k [] = Some None"
  by (simp add: de_opt_def)

lemma de_table_VTable [simp]: "de_table (VTable t) = Some t"
  by (simp add: de_table_def)

lemma de_opt_set_key [simp]:
  "de_opt de k (set_key k' v std t)
     = (if k = k' then (if v = std then Some None else map_option Some (de v)) else de_opt de k t)"
  by (simp add: set_key_def)

definition server_section_empty :: server_section where
  "server_section_empty = \<lparr>srv_listen = None, srv_screen = None, srv_ui = None, srv_tls = None\<rparr>"

text \<open>The section as the rest of the file sees it, the same as none where it is empty.\<close>

lemma section_of_VTable: "section_of d k = Inr t \<Longrightarrow> map_of d k = Some (VTable t) \<or> map_of d k = None \<and> t = []"
  by (auto simp: section_of_def split: option.splits toml.splits)

lemma de_server_section:
  assumes "section_of d ''server'' = Inr t" "de_opt de_server ''server'' d = Some srv"
  shows "de_server (VTable t) = Some (unwrap_or server_section_empty srv)"
  using section_of_VTable [OF assms(1)] assms(2)
  by (auto simp: de_opt_def unwrap_or_def server_section_empty_def de_server_def)

lemma de_options_section:
  assumes "section_of d ''options'' = Inr t" "de_opt de_options ''options'' d = Some opts"
  shows "de_options (VTable t) = Some (unwrap_or options_section_default opts)"
  using section_of_VTable [OF assms(1)] assms(2)
  by (auto simp: de_opt_def unwrap_or_def options_section_default_def de_options_def)

lemma de_str_VStr [simp]: "de_str (VStr s) = Some s"
  by (simp add: de_str_def as_str_def)

lemma de_server_fields:
  "de_server (VTable t) = Some s \<longleftrightarrow> de_opt de_str ''listen'' t = Some (srv_listen s)
     \<and> de_opt de_str ''screen'' t = Some (srv_screen s) \<and> de_opt de_str ''ui'' t = Some (srv_ui s)
     \<and> de_opt de_bool ''tls'' t = Some (srv_tls s)"
  by (cases s) (auto simp: de_server_def bind_eq_Some_conv)

lemma set_listen_reads:
  assumes "de_server (VTable t) = Some s" "read_listen al (srv_listen s) = Inr a"
    and "al_ok al" "tuning_typed tu"
  shows "\<exists>l. de_server (VTable (set_listen al tu t)) = Some (s\<lparr>srv_listen := l\<rparr>)
           \<and> read_listen al l = Inr (fst a, tu_port tu)"
proof (cases "map_of t ''listen''")
  case None
  have "srv_listen s = None" using assms(1) None by (simp add: de_server_fields de_opt_def)
  moreover have "fst a = al_any al"
    using assms(2,3) calculation by (auto simp: read_listen_def default_listen_def al_ok_def)
  ultimately show ?thesis
    using assms None
    by (intro exI [of _ "if tu_port tu = 24810 then None else Some (al_show al (al_any al, tu_port tu))"])
       (auto simp: set_listen_def de_server_fields default_listen_def read_listen_def al_ok_def tuning_typed_def)
next
  case (Some v)
  then obtain la where v: "v = VStr la" and l: "srv_listen s = Some la"
    using assms(1) by (cases v) (auto simp: de_server_fields de_opt_def de_str_def as_str_def)
  have "al_parse al la = Some a"
    using assms(2) by (simp add: l read_listen_def split: option.splits)
  then show ?thesis
    using assms Some v
    by (intro exI [of _ "Some (al_show al (fst a, tu_port tu))"])
       (auto simp: set_listen_def de_server_fields as_str_def read_listen_def al_ok_def tuning_typed_def)
qed

lemma de_options_fields:
  "de_options (VTable t) = Some opt \<longleftrightarrow>
     de_opt de_u32 ''switch_delay_ms'' t = Some (op_switch_delay_ms opt)
   \<and> de_opt de_u32 ''switch_double_tap_ms'' t = Some (op_switch_double_tap_ms opt)
   \<and> de_opt de_i32 ''switch_corner_size'' t = Some (op_switch_corner_size opt)
   \<and> de_opt de_i32 ''jump_zone_size'' t = Some (op_jump_zone_size opt)
   \<and> de_opt de_bool ''scroll_lock_locks'' t = Some (op_scroll_lock_locks opt)
   \<and> de_opt de_bool ''clipboard_sharing'' t = Some (op_clipboard_sharing opt)
   \<and> de_opt de_u64 ''clipboard_max_bytes'' t = Some (op_clipboard_max_bytes opt)
   \<and> de_opt de_bool ''clipboard_files'' t = Some (op_clipboard_files opt)
   \<and> de_opt de_u64 ''clipboard_files_max_bytes'' t = Some (op_clipboard_files_max_bytes opt)
   \<and> de_opt de_bool ''screensaver_sync'' t = Some (op_screensaver_sync opt)
   \<and> de_opt de_bool ''relative_mouse_moves'' t = Some (op_relative_mouse_moves opt)"
  by (cases opt) (auto simp: de_options_def bind_eq_Some_conv)

definition kept :: "'a \<Rightarrow> 'a \<Rightarrow> 'a option" where
  "kept v std = (if v = std then None else Some v)"

lemma unwrap_kept [simp]: "unwrap_or std (kept v std) = v"
  by (simp add: kept_def unwrap_or_def)

definition tuned_options :: "tuning \<Rightarrow> options_section \<Rightarrow> options_section" where
  "tuned_options t opt = opt\<lparr>op_switch_delay_ms := kept (tu_switch_delay_ms t) 0,
     op_switch_double_tap_ms := kept (tu_switch_double_tap_ms t) 0,
     op_switch_corner_size := kept (tu_switch_corner_size t) 0,
     op_jump_zone_size := kept (tu_jump_zone_size t) 1,
     op_scroll_lock_locks := kept (tu_scroll_lock_locks t) True,
     op_clipboard_sharing := kept (tu_clipboard_sharing t) True,
     op_clipboard_files := kept (tu_clipboard_files t) True\<rparr>"

lemma set_options_reads:
  assumes "de_options (VTable t) = Some opt" "tuning_typed tu"
  shows "de_options (VTable (set_options al tu t)) = Some (tuned_options tu opt)"
  using assms
  by (simp add: de_options_fields set_options_def tuned_options_def tuning_default_def Let_def kept_def
      de_bool_def de_u32_def de_i32_def tuning_typed_def del: of_nat_0 of_nat_eq_0_iff)

text \<open>The configuration with the settings replaced.\<close>

definition tuned :: "tuning \<Rightarrow> 'ip config \<Rightarrow> 'ip config" where
  "tuned t c = c\<lparr>cf_listen := (fst (cf_listen c), tu_port t),
     cf_policy := \<lparr>sp_delay_ms = tu_switch_delay_ms t, sp_double_tap_ms = tu_switch_double_tap_ms t,
       sp_corner_size = tu_switch_corner_size t, sp_jump_zone = tu_jump_zone_size t,
       sp_scroll_lock_locks = tu_scroll_lock_locks t\<rparr>,
     cf_options := (cf_options c)\<lparr>clipboard_sharing := tu_clipboard_sharing t,
       clipboard_files := tu_clipboard_files t, scroll_lock_locks := tu_scroll_lock_locks t\<rparr>\<rparr>"

lemma tuning_of_tuned [simp]: "tuning_of (tuned t c) = t"
  by (simp add: tuning_of_def tuned_def)

lemma policy_of_tuned: "policy_of (tuned_options t opt) =
    \<lparr>sp_delay_ms = tu_switch_delay_ms t, sp_double_tap_ms = tu_switch_double_tap_ms t,
     sp_corner_size = tu_switch_corner_size t, sp_jump_zone = tu_jump_zone_size t,
     sp_scroll_lock_locks = tu_scroll_lock_locks t\<rparr>"
  by (simp add: policy_of_def tuned_options_def)

lemma options_of_tuned: "options_of (tuned_options t opt) =
    (options_of opt)\<lparr>clipboard_sharing := tu_clipboard_sharing t, clipboard_files := tu_clipboard_files t,
      scroll_lock_locks := tu_scroll_lock_locks t\<rparr>"
  by (simp add: options_of_def policy_of_def tuned_options_def)

lemma set_options_empty:
  "set_options al t opts = [] \<Longrightarrow> de_options (VTable (set_options al t opts)) = Some options_section_default"
  by (simp add: de_options_fields options_section_default_def)

lemma de_config_sections:
  assumes "de_config d = Some raw"
  shows "de_opt de_server ''server'' d = Some (rw_server raw)" "de_opt de_options ''options'' d = Some (rw_options raw)"
    "\<exists>ss. de_opt de_screens ''screens'' d = Some ss \<and> rw_screens raw = (case ss of Some ss \<Rightarrow> ss | None \<Rightarrow> [])"
    "\<exists>ls. de_opt de_links ''links'' d = Some ls \<and> rw_links raw = (case ls of Some ls \<Rightarrow> ls | None \<Rightarrow> [])"
  using assms by (auto simp: de_config_def bind_eq_Some_conv)

text \<open>What the raw configuration becomes.\<close>

lemma tuning_edit_raw:
  assumes raw: "de_config d = Some raw" and d': "tuning_edit al t d = Inr d'"
    and a: "read_listen al (Option.bind (rw_server raw) srv_listen) = Inr a"
    and al: "al_ok al" and t: "tuning_typed t"
  shows "\<exists>l opt. de_config d' = Some (raw\<lparr>
             rw_server := Some ((unwrap_or server_section_empty (rw_server raw))\<lparr>srv_listen := l\<rparr>),
             rw_options := opt\<rparr>)
           \<and> read_listen al l = Inr (fst a, tu_port t)
           \<and> unwrap_or options_section_default opt
               = tuned_options t (unwrap_or options_section_default (rw_options raw))"
proof -
  note opts0 = de_config_sections [OF raw]
  obtain st where st: "section_of d ''server'' = Inr st"
    using d' by (auto simp: tuning_edit_def Let_def split: sum.splits)
  let ?d = "tb_put ''server'' (VTable (set_listen al t st)) d"
  have same: "section_of ?d ''options'' = section_of d ''options''" by (simp add: section_of_def)
  obtain ot where ot: "section_of d ''options'' = Inr ot"
    using d' st same by (auto simp: tuning_edit_def Let_def split: sum.splits)
  have srv: "de_server (VTable st) = Some (unwrap_or server_section_empty (rw_server raw))"
    by (rule de_server_section [OF st opts0(1)])
  have "srv_listen (unwrap_or server_section_empty (rw_server raw)) = Option.bind (rw_server raw) srv_listen"
    by (cases "rw_server raw") (auto simp: unwrap_or_def server_section_empty_def)
  then obtain l where l: "de_server (VTable (set_listen al t st))
      = Some ((unwrap_or server_section_empty (rw_server raw))\<lparr>srv_listen := l\<rparr>)"
    "read_listen al l = Inr (fst a, tu_port t)"
    using set_listen_reads [OF srv _ al t] a by metis
  define opts where "opts = set_options al t ot"
  have od: "de_options (VTable opts) = Some (tuned_options t (unwrap_or options_section_default (rw_options raw)))"
    unfolding opts_def by (rule set_options_reads [OF de_options_section [OF ot opts0(2)] t])
  have d'_eq: "d' = (if opts = [] then tb_remove ''options'' ?d else tb_put ''options'' (VTable opts) ?d)"
    using d' by (auto simp: tuning_edit_def st ot same opts_def Let_def)
  define opt where "opt = (if opts = [] then None else Some (tuned_options t (unwrap_or options_section_default (rw_options raw))))"
  have opt: "unwrap_or options_section_default opt = tuned_options t (unwrap_or options_section_default (rw_options raw))"
    using od set_options_empty [of al t ot] by (auto simp: opt_def unwrap_or_def opts_def [symmetric])
  have "de_config d' = Some (raw\<lparr>
             rw_server := Some ((unwrap_or server_section_empty (rw_server raw))\<lparr>srv_listen := l\<rparr>),
             rw_options := opt\<rparr>)"
    using opts0(3,4) l(1) od by (cases raw) (auto simp: de_config_def d'_eq opt_def)
  then show ?thesis using l(2) opt by blast
qed

lemma config_checked_tuned:
  assumes c: "config_checked al raw = Inr c"
    and a: "read_listen al (Option.bind (rw_server raw) srv_listen) = Inr a"
    and srv: "rw_server raw' = Some ((unwrap_or server_section_empty (rw_server raw))\<lparr>srv_listen := l\<rparr>)"
    and l: "read_listen al l = Inr (fst a, tu_port t)"
    and opt: "unwrap_or options_section_default (rw_options raw')
               = tuned_options t (unwrap_or options_section_default (rw_options raw))"
    and same: "rw_screens raw' = rw_screens raw" "rw_links raw' = rw_links raw"
  shows "config_checked al raw' = Inr (tuned t c)"
proof -
  have "Option.bind (rw_server raw') srv_screen = Option.bind (rw_server raw) srv_screen"
    "Option.bind (rw_server raw') srv_tls = Option.bind (rw_server raw) srv_tls"
    "Option.bind (rw_server raw') srv_listen = l"
    by (cases "rw_server raw"; simp add: srv unwrap_or_def server_section_empty_def)+
  then show ?thesis
    using c a l unfolding config_checked_def same opt policy_of_tuned options_of_tuned
    by (auto simp: Let_def tuned_def policy_of_tuned options_of_tuned split: sum.splits option.splits if_splits)
qed

text \<open>Saving needs the two sections to be tables under headers; reading does not.\<close>

definition headed :: "document \<Rightarrow> bool" where
  "headed d \<longleftrightarrow> (\<forall>k \<in> {''server'', ''options''}. \<forall>v. map_of d k = Some v \<longrightarrow> (\<exists>t. v = VTable t))"

lemma tuning_edit_runs: "(\<exists>d'. tuning_edit al t d = Inr d') \<longleftrightarrow> headed d"
proof -
  have "(\<exists>d'. tuning_edit al t d = Inr d') \<longleftrightarrow> (\<exists>s. section_of d ''server'' = Inr s) \<and> (\<exists>s. section_of d ''options'' = Inr s)"
    by (auto simp: tuning_edit_def Let_def section_of_def split: option.splits toml.splits)
  moreover have "(\<exists>s. section_of d k = Inr s) \<longleftrightarrow> (\<forall>v. map_of d k = Some v \<longrightarrow> (\<exists>t. v = VTable t))" for k
    by (auto simp: section_of_def split: option.splits toml.splits)
  ultimately show ?thesis by (simp add: headed_def)
qed

lemma write_tuning_parse:
  assumes c: "config_parse al d = Inr c" and al: "al_ok al" and t: "tuning_typed t"
    and w: "write_tuning al t writes (Some d) = (Some d', None)"
  shows "config_parse al d' = Inr (tuned t c)"
proof -
  obtain raw where raw: "de_config d = Some raw" "config_checked al raw = Inr c"
    using c by (auto simp: config_parse_def split: option.splits)
  obtain a where a: "read_listen al (Option.bind (rw_server raw) srv_listen) = Inr a"
    using raw(2) by (auto simp: config_checked_def split: sum.splits)
  have "tuning_edit al t d = Inr d'"
    using w by (auto simp: write_tuning_def edit_file_def split: option.splits sum.splits if_splits)
  from tuning_edit_raw [OF raw(1) this a al t] obtain l opt where
    *: "de_config d' = Some (raw\<lparr>rw_server := Some ((unwrap_or server_section_empty (rw_server raw))\<lparr>srv_listen := l\<rparr>),
             rw_options := opt\<rparr>)" "read_listen al l = Inr (fst a, tu_port t)"
       "unwrap_or options_section_default opt = tuned_options t (unwrap_or options_section_default (rw_options raw))"
    by blast
  show ?thesis
    unfolding config_parse_def *(1) option.case
    by (rule config_checked_tuned [OF raw(2) a _ *(2)]) (simp_all add: *(3))
qed

end
