(* ===== verification/Config_Screens.thy ===== *)
theory Config_Screens
  imports Config_File
begin

text \<open>
  What the edits of the \<^verbatim>\<open>[[screens]]\<close> tables do to the configuration the file parses to: each
  changes the one thing it is for.
\<close>

section \<open>Looking an entry up\<close>

definition entry_of :: "string \<Rightarrow> screen_entry list \<Rightarrow> screen_entry option" where
  "entry_of n es = find (\<lambda>e. sn_name e = n) es"

lemma entry_of_simps [simp]:
  "entry_of n [] = None"
  "entry_of n (e # es) = (if sn_name e = n then Some e else entry_of n es)"
  by (simp_all add: entry_of_def)

lemma entry_of_None: "entry_of n es = None \<longleftrightarrow> n \<notin> sn_name ` set es"
  by (induction es) auto

lemma entry_of_SomeD: "entry_of n es = Some e \<Longrightarrow> e \<in> set es \<and> sn_name e = n"
  by (induction es) (auto split: if_splits)

lemma entry_of_map: "(\<And>e. sn_name (h e) = sn_name e) \<Longrightarrow> entry_of n (map h es) = map_option h (entry_of n es)"
  by (induction es) auto

lemma entry_of_append: "entry_of n (es @ es') = (case entry_of n es of Some e \<Rightarrow> Some e | None \<Rightarrow> entry_of n es')"
  by (induction es) auto

lemma entry_of_mem: "distinct (map sn_name es) \<Longrightarrow> e \<in> set es \<Longrightarrow> entry_of (sn_name e) es = Some e"
  by (induction es) (auto simp: image_iff)

lemma bm_get_fold:
  "bm_get (fold (\<lambda>(k, v). bm_insert k v) kvs m) k = (case map_of (rev kvs) k of Some v \<Rightarrow> Some v | None \<Rightarrow> bm_get m k)"
  by (induction kvs arbitrary: m) (auto simp: map_add_def split: option.splits)

lemma map_of_rev: "distinct (map fst kvs) \<Longrightarrow> map_of (rev kvs) = map_of kvs"
proof (induction kvs)
  case (Cons kv kvs)
  then have "map_of kvs (fst kv) = None" by (simp add: map_of_eq_None_iff)
  then show ?case using Cons by (auto simp: map_add_def fun_eq_iff split: option.splits)
qed simp

lemma bm_get_of_list: "distinct (map fst kvs) \<Longrightarrow> bm_get (bm_of_list kvs) k = map_of kvs k"
  unfolding bm_of_list_def bm_get_fold by (simp add: map_of_rev split: option.splits)

definition keyed :: "(screen_entry \<Rightarrow> (string \<times> 'v) list) \<Rightarrow> bool" where
  "keyed g \<longleftrightarrow> (\<forall>e. g e = [] \<or> (\<exists>v. g e = [(sn_name e, v)]))"

lemma keyed_cases: "keyed g \<Longrightarrow> g e = [] \<or> (\<exists>v. g e = [(sn_name e, v)])"
  by (simp add: keyed_def)

lemma keyed_keys: "keyed g \<Longrightarrow> set (map fst (concat (map g es))) \<subseteq> sn_name ` set es"
proof (induction es)
  case (Cons e es)
  then show ?case using keyed_cases [of g e] by auto
qed simp

lemma keyed_distinct:
  assumes "keyed g" shows "distinct (map sn_name es) \<Longrightarrow> distinct (map fst (concat (map g es)))"
proof (induction es)
  case (Cons e es)
  have "sn_name e \<notin> set (map fst (concat (map g es)))"
    using Cons.prems keyed_keys [OF assms, of es] by auto
  then show ?case using Cons keyed_cases [OF assms, of e] by (auto simp del: set_map)
qed simp

lemma map_of_keyed_absent: "keyed g \<Longrightarrow> n \<notin> sn_name ` set es \<Longrightarrow> map_of (concat (map g es)) n = None"
  using keyed_keys [of g es] by (auto simp: map_of_eq_None_iff)

lemma entries_get:
  assumes g: "keyed g" and d: "distinct (map sn_name es)"
  shows "bm_get (bm_of_list (concat (map g es))) n = (case entry_of n es of None \<Rightarrow> None | Some e \<Rightarrow> map_of (g e) n)"
proof -
  have "distinct (map sn_name es) \<Longrightarrow>
      map_of (concat (map g es)) n = (case entry_of n es of None \<Rightarrow> None | Some e \<Rightarrow> map_of (g e) n)"
  proof (induction es)
    case (Cons e es)
    then show ?case
      using keyed_cases [OF g, of e] map_of_keyed_absent [OF g, of n es] by (auto simp: map_add_def split: option.splits)
  qed simp
  then show ?thesis using d bm_get_of_list [OF keyed_distinct [OF g d]] by simp
qed

lemma keyed_position [simp]: "keyed entry_position"
  by (simp add: keyed_def entry_position_def)

lemma keyed_size [simp]: "keyed entry_size"
  by (simp add: keyed_def entry_size_def split: option.splits)

lemma first_duplicate_None: "first_duplicate ns ms = None \<longleftrightarrow> distinct ms \<and> set ns \<inter> set ms = {}"
  by (induction ns ms rule: first_duplicate.induct) auto

section \<open>The trusted certificates\<close>

lemma read_trusted_get:
  "read_trusted m es = Inr t \<Longrightarrow> distinct (map sn_name es) \<Longrightarrow>
     bm_get t n = (case Option.bind (entry_of n es) sn_fingerprint of None \<Rightarrow> bm_get m n | Some s \<Rightarrow> fp_parse s)"
proof (induction m es rule: read_trusted.induct)
  case (2 m e es)
  have "entry_of (sn_name e) es = None" using "2.prems"(2) by (simp add: entry_of_None)
  with 2 show ?case by (auto split: option.splits)
qed simp

lemma read_trusted_ok: "read_trusted m es = Inr t \<Longrightarrow> bm_ok m \<Longrightarrow> bm_ok t"
  by (induction m es rule: read_trusted.induct) (auto split: option.splits)

lemma read_trusted_runs:
  "(\<exists>t. read_trusted m es = Inr t) \<longleftrightarrow> (\<forall>e \<in> set es. \<forall>s. sn_fingerprint e = Some s \<longrightarrow> fp_parse s \<noteq> None)"
  by (induction m es rule: read_trusted.induct) (auto split: option.splits)

section \<open>Links survive a new screen\<close>

lemma link_loop_more:
  assumes "link_loop l ls = Inr l'"
  shows "link_loop (l\<lparr>la_screens := la_screens l @ ns\<rparr>) ls = Inr (l'\<lparr>la_screens := la_screens l' @ ns\<rparr>)"
  using assms
proof (induction l ls rule: link_loop.induct)
  case (2 l fr e dest ls)
  then obtain l1 where l1: "la_link l fr e dest = Inr l1" "link_loop l1 ls = Inr l'"
    by (auto split: sum.splits)
  have "la_link (l\<lparr>la_screens := la_screens l @ ns\<rparr>) fr e dest = Inr (l1\<lparr>la_screens := la_screens l1 @ ns\<rparr>)"
    using l1(1) by (auto simp: la_link_def has_screen_def Let_def split: if_splits)
  then show ?case using 2(1) [OF l1] by simp
qed simp

lemma link_loop_screens: "link_loop l ls = Inr l' \<Longrightarrow> la_screens l' = la_screens l"
  by (induction l ls rule: link_loop.induct) (auto split: sum.splits dest: la_link_screens)

lemma link_loop_ok: "link_loop l ls = Inr l' \<Longrightarrow> la_ok l \<Longrightarrow> la_ok l'"
  by (induction l ls rule: link_loop.induct) (auto split: sum.splits dest: la_ok_link)

section \<open>The fields of a parsed configuration\<close>

lemma config_checked_fields:
  assumes "config_checked al raw = Inr c"
  shows "distinct (map sn_name (rw_screens raw))" "rw_screens raw \<noteq> []"
    and "read_trusted [] (rw_screens raw) = Inr (cf_trusted c)"
    and "link_loop (la_new (map sn_name (rw_screens raw))) (all_links (rw_links raw)) = Inr (cf_layout c)"
    and "cf_positions c = bm_of_list (concat (map entry_position (rw_screens raw)))"
    and "cf_sizes c = bm_of_list (concat (map entry_size (rw_screens raw)))"
    and "cf_disabled c = sn_name ` set (filter (\<lambda>s. sn_disabled s = Some True) (rw_screens raw))"
    and "local_screen (Option.bind (rw_server raw) srv_screen) (map sn_name (rw_screens raw)) = Inr (cf_local_screen c)"
  using assms by (auto simp: config_checked_def Let_def first_duplicate_None split: sum.splits option.splits if_splits)

lemma config_screens:
  assumes "config_checked al raw = Inr c"
  shows "la_screens (cf_layout c) = map sn_name (rw_screens raw)"
  using link_loop_screens [OF config_checked_fields(4) [OF assms]] by (simp add: la_new_def)

text \<open>Changing the entries without renaming them changes only what is read from them.\<close>

lemma config_checked_entries:
  assumes c: "config_checked al raw = Inr c" and es: "map sn_name es = map sn_name (rw_screens raw)"
    and t: "read_trusted [] es = Inr t"
  shows "config_checked al (raw\<lparr>rw_screens := es\<rparr>) = Inr (c\<lparr>cf_trusted := t,
           cf_positions := bm_of_list (concat (map entry_position es)),
           cf_sizes := bm_of_list (concat (map entry_size es)),
           cf_disabled := sn_name ` set (filter (\<lambda>s. sn_disabled s = Some True) es)\<rparr>)"
proof -
  have "es = [] \<longleftrightarrow> rw_screens raw = []" using es by auto
  then show ?thesis using c t unfolding config_checked_def es
    by (auto simp: Let_def es split: sum.splits option.splits if_splits)
qed

lemma config_checked_added:
  assumes c: "config_checked al raw = Inr c" and new: "sn_name e \<notin> sn_name ` set (rw_screens raw)"
    and t: "read_trusted [] (rw_screens raw @ [e]) = Inr t"
    and plain: "entry_position e = []" "entry_size e = []" "sn_disabled e = None"
  shows "config_checked al (raw\<lparr>rw_screens := rw_screens raw @ [e]\<rparr>)
           = Inr (c\<lparr>cf_trusted := t, cf_layout := fst (add_screen (cf_layout c) (sn_name e))\<rparr>)"
proof -
  note f = config_checked_fields [OF c]
  have fd: "first_duplicate [] (map sn_name (rw_screens raw @ [e])) = None"
    using f(1) new by (auto simp: first_duplicate_None)
  have lk: "link_loop (la_new (map sn_name (rw_screens raw @ [e]))) (all_links (rw_links raw))
      = Inr (fst (add_screen (cf_layout c) (sn_name e)))"
    using link_loop_more [OF f(4), of "[sn_name e]"] new config_screens [OF c]
    by (auto simp: la_new_def add_screen_def has_screen_def)
  have ls: "local_screen (Option.bind (rw_server raw) srv_screen) (map sn_name (rw_screens raw @ [e])) = Inr (cf_local_screen c)"
    using f(2,8) by (auto simp: local_screen_def split: option.splits if_splits)
  have "config_checked al (raw\<lparr>rw_screens := rw_screens raw @ [e]\<rparr>)
      = (case config_checked al raw of Inl er \<Rightarrow> Inl er | Inr c' \<Rightarrow>
          Inr (c'\<lparr>cf_trusted := t, cf_layout := fst (add_screen (cf_layout c) (sn_name e))\<rparr>))"
    using f(2) c fd lk ls t plain
    unfolding config_checked_def Let_def
    by (auto split: sum.splits option.splits if_splits)
  then show ?thesis by (simp add: c)
qed

section \<open>The edits\<close>

lemma de_screen_fields:
  "de_screen t = Some e \<longleftrightarrow> map_of t ''name'' = Some (VStr (sn_name e))
     \<and> de_opt de_i32 ''x'' t = Some (sn_x e) \<and> de_opt de_i32 ''y'' t = Some (sn_y e)
     \<and> de_opt de_i32 ''w'' t = Some (sn_w e) \<and> de_opt de_i32 ''h'' t = Some (sn_h e)
     \<and> de_opt de_str ''fingerprint'' t = Some (sn_fingerprint e)
     \<and> de_opt de_bool ''disabled'' t = Some (sn_disabled e)"
proof -
  have "Option.bind (map_of t ''name'') de_str = Some n \<longleftrightarrow> map_of t ''name'' = Some (VStr n)" for n
  proof (cases "map_of t ''name''")
    case (Some v)
    then show ?thesis by (cases v) (simp_all add: de_str_def as_str_def)
  qed simp
  then show ?thesis by (cases e) (auto simp: de_screen_def bind_eq_Some_conv)
qed

lemma those_edit:
  assumes "\<And>t e. de_screen t = Some e \<Longrightarrow> de_screen (f (sn_name e) t) = Some (h e)"
  shows "those (map de_screen ts) = Some es \<Longrightarrow> those (map de_screen (map (edit_table f) ts)) = Some (map h es)"
proof (induction ts arbitrary: es)
  case (Cons t ts)
  then obtain e es' where e: "de_screen t = Some e" "those (map de_screen ts) = Some es'" "es = e # es'"
    by (auto split: option.splits)
  then have "edit_table f t = f (sn_name e) t" by (simp add: edit_table_def de_screen_fields as_str_def)
  then show ?case using Cons.IH [OF e(2)] assms [OF e(1)] e(3) by simp
qed simp

lemma edit_screens_raw:
  assumes raw: "de_config d = Some raw" and d': "edit_screens f d = Inr d'"
    and h: "\<And>t e. de_screen t = Some e \<Longrightarrow> de_screen (f (sn_name e) t) = Some (h e)"
  shows "de_config d' = Some (raw\<lparr>rw_screens := map h (rw_screens raw)\<rparr>)"
proof -
  obtain ts where ts: "map_of d ''screens'' = Some (VTables ts)"
    and d'_eq: "d' = tb_put ''screens'' (VTables (map (edit_table f) ts)) d"
    using d' by (auto simp: edit_screens_def split: option.splits toml.splits)
  then have "those (map de_screen ts) = Some (rw_screens raw)"
    using raw by (auto simp: de_config_def bind_eq_Some_conv de_opt_def de_screens_def)
  from those_edit [where f = f and h = h, OF h this] show ?thesis
    using raw ts by (cases raw) (auto simp: de_config_def bind_eq_Some_conv d'_eq de_screens_def de_opt_def)
qed

text \<open>A configuration that parses, and what it parses to after an edit of its entries.\<close>

lemma edit_screens_parse:
  assumes c: "config_parse al d = Inr c" and d': "edit_screens f d = Inr d'"
    and h: "\<And>t e. de_screen t = Some e \<Longrightarrow> de_screen (f (sn_name e) t) = Some (h e)"
    and n: "\<And>e. sn_name (h e) = sn_name e"
    and t: "\<And>es. read_trusted [] es = Inr (cf_trusted c) \<Longrightarrow> map sn_name es = la_screens (cf_layout c) \<Longrightarrow>
              distinct (map sn_name es) \<Longrightarrow> read_trusted [] (map h es) = Inr tr"
  shows "\<exists>es. map sn_name es = la_screens (cf_layout c) \<and> distinct (map sn_name es)
     \<and> cf_positions c = bm_of_list (concat (map entry_position es))
     \<and> cf_sizes c = bm_of_list (concat (map entry_size es))
     \<and> cf_disabled c = sn_name ` set (filter (\<lambda>s. sn_disabled s = Some True) es)
     \<and> config_parse al d' = Inr (c\<lparr>cf_trusted := tr,
           cf_positions := bm_of_list (concat (map entry_position (map h es))),
           cf_sizes := bm_of_list (concat (map entry_size (map h es))),
           cf_disabled := sn_name ` set (filter (\<lambda>s. sn_disabled s = Some True) (map h es))\<rparr>)"
proof -
  obtain raw where raw: "de_config d = Some raw" "config_checked al raw = Inr c"
    using c by (auto simp: config_parse_def split: option.splits)
  note f = config_checked_fields [OF raw(2)] and scr = config_screens [OF raw(2)]
  have nm: "map sn_name (map h (rw_screens raw)) = map sn_name (rw_screens raw)" using n by simp
  note step = config_checked_entries [OF raw(2) nm t [OF f(3) scr [symmetric] f(1)]]
  have "config_parse al d' = config_checked al (raw\<lparr>rw_screens := map h (rw_screens raw)\<rparr>)"
    by (simp add: config_parse_def edit_screens_raw [OF raw(1) d' h])
  then show ?thesis using f scr step by (intro exI [of _ "rw_screens raw"]) simp
qed

text \<open>Saving a layout: the positions and the sizes become those given.\<close>

definition placed_entry :: "(string, point) bmap \<Rightarrow> (string, size2) bmap \<Rightarrow> screen_entry \<Rightarrow> screen_entry" where
  "placed_entry ps ss e =
     (let e = (case bm_get ps (sn_name e) of None \<Rightarrow> e | Some p \<Rightarrow> e\<lparr>sn_x := Some (pt_x p), sn_y := Some (pt_y p)\<rparr>)
      in e\<lparr>sn_w := map_option sz_w (bm_get ss (sn_name e)), sn_h := map_option sz_h (bm_get ss (sn_name e))\<rparr>)"

definition placeable :: "string set \<Rightarrow> (string, point) bmap \<Rightarrow> (string, size2) bmap \<Rightarrow> bool" where
  "placeable names ps ss \<longleftrightarrow> bm_ok ps \<and> bm_ok ss \<and> dom (bm_get ps) = names \<and> dom (bm_get ss) \<subseteq> names
     \<and> (\<forall>n p. bm_get ps n = Some p \<longrightarrow> is_i32 (pt_x p) \<and> is_i32 (pt_y p))
     \<and> (\<forall>n s. bm_get ss n = Some s \<longrightarrow> is_i32 (sz_w s) \<and> is_i32 (sz_h s) \<and> sz_w s > 0 \<and> sz_h s > 0)"

lemma placed_entry_name [simp]: "sn_name (placed_entry ps ss e) = sn_name e"
  and placed_entry_keeps [simp]: "sn_disabled (placed_entry ps ss e) = sn_disabled e"
    "sn_fingerprint (placed_entry ps ss e) = sn_fingerprint e"
  by (simp_all add: placed_entry_def Let_def split: option.splits)

lemma entry_of_placed [simp]: "entry_of n (map (placed_entry ps ss) es) = map_option (placed_entry ps ss) (entry_of n es)"
  by (rule entry_of_map) simp

lemma de_layout_entry:
  assumes "placeable names ps ss" "de_screen t = Some e"
  shows "de_screen (layout_entry ps ss (sn_name e) t) = Some (placed_entry ps ss e)"
  using assms
  by (auto simp: de_screen_fields layout_entry_def placed_entry_def placeable_def de_i32_def Let_def split: option.splits)

lemma read_trusted_same:
  "(\<And>e. sn_name (h e) = sn_name e) \<Longrightarrow> (\<And>e. sn_fingerprint (h e) = sn_fingerprint e)
     \<Longrightarrow> read_trusted m (map h es) = read_trusted m es"
  by (induction m es rule: read_trusted.induct) (auto split: option.splits)

lemma filter_map_same:
  "(\<And>e. sn_name (h e) = sn_name e) \<Longrightarrow> (\<And>e. sn_disabled (h e) = sn_disabled e)
     \<Longrightarrow> sn_name ` set (filter (\<lambda>s. sn_disabled s = Some True) (map h es))
           = sn_name ` set (filter (\<lambda>s. sn_disabled s = Some True) es)"
  by (induction es) auto

lemma layout_saved:
  assumes c: "config_parse al d = Inr c" and d': "edit_screens (layout_entry ps ss) d = Inr d'"
    and pl: "placeable (set (la_screens (cf_layout c))) ps ss"
  shows "config_parse al d' = Inr (c\<lparr>cf_positions := ps, cf_sizes := ss\<rparr>)"
proof -
  let ?h = "placed_entry ps ss"
  obtain es where es: "map sn_name es = la_screens (cf_layout c)" "distinct (map sn_name es)"
    "cf_disabled c = sn_name ` set (filter (\<lambda>s. sn_disabled s = Some True) es)"
    "config_parse al d' = Inr (c\<lparr>cf_trusted := cf_trusted c,
           cf_positions := bm_of_list (concat (map entry_position (map ?h es))),
           cf_sizes := bm_of_list (concat (map entry_size (map ?h es))),
           cf_disabled := sn_name ` set (filter (\<lambda>s. sn_disabled s = Some True) (map ?h es))\<rparr>)"
    using edit_screens_parse [OF c d' de_layout_entry [OF pl], of "cf_trusted c"] by (force simp: read_trusted_same)
  have dis: "distinct (map sn_name (map ?h es))" using es(2) by (simp add: comp_def)
  have names: "set (la_screens (cf_layout c)) = sn_name ` set es" using es(1) by (metis list.set_map)
  have "bm_of_list (concat (map entry_position (map ?h es))) = ps"
  proof (rule bm_ext)
    fix n
    note get = entries_get [OF keyed_position dis, of n]
    show "bm_get (bm_of_list (concat (map entry_position (map ?h es)))) n = bm_get ps n"
    proof (cases "entry_of n es")
      case None
      then have "bm_get ps n = None" using pl names by (auto simp: placeable_def entry_of_None)
      then show ?thesis unfolding get by (simp add: None)
    next
      case (Some e)
      then have "n \<in> dom (bm_get ps)" using pl names by (auto simp: placeable_def dest: entry_of_SomeD)
      then show ?thesis using entry_of_SomeD [OF Some] unfolding get
        by (auto simp: Some entry_position_def placed_entry_def
            Let_def unwrap_or_def)
    qed
  qed (use pl in \<open>auto simp: placeable_def\<close>)
  moreover have "bm_of_list (concat (map entry_size (map ?h es))) = ss"
  proof (rule bm_ext)
    fix n
    note get = entries_get [OF keyed_size dis, of n]
    show "bm_get (bm_of_list (concat (map entry_size (map ?h es)))) n = bm_get ss n"
    proof (cases "entry_of n es")
      case None
      then have "bm_get ss n = None" using pl names by (auto simp: placeable_def entry_of_None)
      then show ?thesis unfolding get by (simp add: None)
    next
      case (Some e)
      then show ?thesis using entry_of_SomeD [OF Some] pl unfolding get
        by (auto simp: Some entry_size_def placed_entry_def Let_def
            placeable_def split: option.splits)
    qed
  qed (use pl in \<open>auto simp: placeable_def\<close>)
  ultimately show ?thesis using es(3,4) filter_map_same [of ?h es] by simp
qed

text \<open>An edit that leaves the positions and the sizes.\<close>

lemma edit_screens_keeps:
  assumes c: "config_parse al d = Inr c" and d': "edit_screens f d = Inr d'"
    and h: "\<And>t e. de_screen t = Some e \<Longrightarrow> de_screen (f (sn_name e) t) = Some (h e)"
    and keeps: "\<And>e. sn_name (h e) = sn_name e" "\<And>e. entry_position (h e) = entry_position e"
      "\<And>e. entry_size (h e) = entry_size e"
    and t: "\<And>es. read_trusted [] es = Inr (cf_trusted c) \<Longrightarrow> map sn_name es = la_screens (cf_layout c) \<Longrightarrow>
              distinct (map sn_name es) \<Longrightarrow> read_trusted [] (map h es) = Inr tr"
  shows "\<exists>es. map sn_name es = la_screens (cf_layout c) \<and> distinct (map sn_name es)
     \<and> cf_disabled c = sn_name ` set (filter (\<lambda>s. sn_disabled s = Some True) es)
     \<and> config_parse al d' = Inr (c\<lparr>cf_trusted := tr,
           cf_disabled := sn_name ` set (filter (\<lambda>s. sn_disabled s = Some True) (map h es))\<rparr>)"
proof -
  have same: "map entry_position (map h es) = map entry_position es" "map entry_size (map h es) = map entry_size es" for es
    by (simp_all add: keeps)
  show ?thesis
    using edit_screens_parse [where h = h and tr = tr, OF c d' h keeps(1) t, unfolded same] by fastforce
qed

definition switched_entry :: "string \<Rightarrow> bool \<Rightarrow> screen_entry \<Rightarrow> screen_entry" where
  "switched_entry screen b e = (if sn_name e = screen then e\<lparr>sn_disabled := (if b then Some True else None)\<rparr> else e)"

lemma switched_entry_keeps [simp]:
  "sn_name (switched_entry n b e) = sn_name e" "entry_position (switched_entry n b e) = entry_position e"
  "entry_size (switched_entry n b e) = entry_size e" "sn_fingerprint (switched_entry n b e) = sn_fingerprint e"
  by (simp_all add: switched_entry_def entry_position_def entry_size_def split: option.splits)

lemma de_disabled_entry:
  "de_screen t = Some e \<Longrightarrow> de_screen (disabled_entry n b (sn_name e) t) = Some (switched_entry n b e)"
  by (auto simp: de_screen_fields disabled_entry_def switched_entry_def de_bool_def)

lemma switched_off:
  assumes "n \<in> sn_name ` set es" "distinct (map sn_name es)"
  shows "sn_name ` set (filter (\<lambda>s. sn_disabled s = Some True) (map (switched_entry n b) es))
    = (if b then insert n else (\<lambda>D. D - {n})) (sn_name ` set (filter (\<lambda>s. sn_disabled s = Some True) es))"
proof -
  have off: "m \<in> sn_name ` set (filter (\<lambda>s. sn_disabled s = Some True) (map (switched_entry n b) es))
      \<longleftrightarrow> (\<exists>e \<in> set es. sn_name e = m \<and> sn_disabled (switched_entry n b e) = Some True)" for m
    by (auto intro!: rev_image_eqI)
  have "m \<in> sn_name ` set (filter (\<lambda>s. sn_disabled s = Some True) (map (switched_entry n b) es))
      \<longleftrightarrow> m \<in> (if b then insert n else (\<lambda>D. D - {n})) (sn_name ` set (filter (\<lambda>s. sn_disabled s = Some True) es))" for m
    using assms(1) unfolding off by (cases "m = n") (auto simp: switched_entry_def split: if_splits)
  then show ?thesis by blast
qed

lemma disabled_saved:
  assumes c: "config_parse al d = Inr c" and d': "edit_screens (disabled_entry n b) d = Inr d'"
    and n: "n \<in> set (la_screens (cf_layout c))"
  shows "config_parse al d' = Inr (c\<lparr>cf_disabled := (if b then insert n (cf_disabled c) else cf_disabled c - {n})\<rparr>)"
proof -
  have t: "read_trusted [] es = Inr (cf_trusted c) \<Longrightarrow> read_trusted [] (map (switched_entry n b) es) = Inr (cf_trusted c)" for es
    by (simp add: read_trusted_same)
  obtain es where es: "map sn_name es = la_screens (cf_layout c)" "distinct (map sn_name es)"
     "cf_disabled c = sn_name ` set (filter (\<lambda>s. sn_disabled s = Some True) es)"
     "config_parse al d' = Inr (c\<lparr>cf_trusted := cf_trusted c,
           cf_disabled := sn_name ` set (filter (\<lambda>s. sn_disabled s = Some True) (map (switched_entry n b) es))\<rparr>)"
    using edit_screens_keeps [where h = "switched_entry n b", OF c d' de_disabled_entry switched_entry_keeps(1-3) t] by blast
  have "n \<in> sn_name ` set es" using n by (simp flip: es(1))
  then show ?thesis unfolding es(4) switched_off [OF \<open>n \<in> sn_name ` set es\<close> es(2)] es(3) by simp
qed

definition certified_entry :: "string \<Rightarrow> fingerprint option \<Rightarrow> screen_entry \<Rightarrow> screen_entry" where
  "certified_entry screen fp e = (if sn_name e = screen then e\<lparr>sn_fingerprint := map_option fp_display fp\<rparr> else e)"

lemma certified_entry_keeps [simp]:
  "sn_name (certified_entry n fp e) = sn_name e" "entry_position (certified_entry n fp e) = entry_position e"
  "entry_size (certified_entry n fp e) = entry_size e" "sn_disabled (certified_entry n fp e) = sn_disabled e"
  by (simp_all add: certified_entry_def entry_position_def entry_size_def split: option.splits)

lemma de_fingerprint_entry:
  "de_screen t = Some e \<Longrightarrow> de_screen (fingerprint_entry n fp (sn_name e) t) = Some (certified_entry n fp e)"
  by (auto simp: de_screen_fields fingerprint_entry_def certified_entry_def split: option.splits)

lemma read_trusted_certified:
  assumes t: "read_trusted [] es = Inr t" and dis: "distinct (map sn_name es)" and n: "n \<in> sn_name ` set es"
    and fp: "\<And>f. fp = Some f \<Longrightarrow> fp_ok f"
  shows "read_trusted [] (map (certified_entry n fp) es) = Inr (case fp of Some f \<Rightarrow> bm_insert n f t | None \<Rightarrow> bm_remove n t)"
proof -
  let ?es = "map (certified_entry n fp) es"
  have parse: "fp = Some f \<Longrightarrow> fp_parse (fp_display f) = Some f" for f
    using fp fp_parse_display by blast
  have "\<forall>e \<in> set ?es. \<forall>s. sn_fingerprint e = Some s \<longrightarrow> fp_parse s \<noteq> None"
    using t read_trusted_runs [of "[]" es] parse by (auto simp: certified_entry_def)
  then obtain t' where t': "read_trusted [] ?es = Inr t'" using read_trusted_runs by metis
  have "t' = (case fp of Some f \<Rightarrow> bm_insert n f t | None \<Rightarrow> bm_remove n t)"
  proof (rule bm_ext)
    show "bm_ok t'" "bm_ok (case fp of Some f \<Rightarrow> bm_insert n f t | None \<Rightarrow> bm_remove n t)"
      using read_trusted_ok [OF t'] read_trusted_ok [OF t] by (auto split: option.splits)
    fix m
    have dis': "distinct (map sn_name ?es)" using dis by (simp add: comp_def)
    have ent: "entry_of m ?es = map_option (certified_entry n fp) (entry_of m es)" by (rule entry_of_map) simp
    show "bm_get t' m = bm_get (case fp of Some f \<Rightarrow> bm_insert n f t | None \<Rightarrow> bm_remove n t) m"
    proof (cases "entry_of m es")
      case None
      then have "m \<noteq> n" using n entry_of_None [of m es] by metis
      then show ?thesis
        by (auto simp: read_trusted_get [OF t' dis'] read_trusted_get [OF t dis] ent None split: option.splits)
    next
      case (Some e)
      then show ?thesis using parse entry_of_SomeD [OF Some]
        by (auto simp: read_trusted_get [OF t' dis'] read_trusted_get [OF t dis] ent certified_entry_def split: option.splits)
    qed
  qed
  then show ?thesis using t' by simp
qed

lemma fingerprint_saved:
  assumes c: "config_parse al d = Inr c" and d': "edit_screens (fingerprint_entry n fp) d = Inr d'"
    and n: "n \<in> set (la_screens (cf_layout c))" and fp: "\<And>f. fp = Some f \<Longrightarrow> fp_ok f"
  shows "config_parse al d' = Inr (c\<lparr>cf_trusted :=
     (case fp of Some f \<Rightarrow> bm_insert n f (cf_trusted c) | None \<Rightarrow> bm_remove n (cf_trusted c))\<rparr>)"
proof -
  have t: "read_trusted [] (map (certified_entry n fp) es)
      = Inr (case fp of Some f \<Rightarrow> bm_insert n f (cf_trusted c) | None \<Rightarrow> bm_remove n (cf_trusted c))"
    if "read_trusted [] es = Inr (cf_trusted c)" "map sn_name es = la_screens (cf_layout c)" "distinct (map sn_name es)" for es
    by (rule read_trusted_certified [OF that(1,3) _ fp]) (use n in \<open>simp_all flip: that(2)\<close>)
  obtain es where es: "cf_disabled c = sn_name ` set (filter (\<lambda>s. sn_disabled s = Some True) es)"
     "config_parse al d' = Inr (c\<lparr>cf_trusted := (case fp of Some f \<Rightarrow> bm_insert n f (cf_trusted c) | None \<Rightarrow> bm_remove n (cf_trusted c)),
           cf_disabled := sn_name ` set (filter (\<lambda>s. sn_disabled s = Some True) (map (certified_entry n fp) es))\<rparr>)"
    using edit_screens_keeps [where h = "certified_entry n fp", OF c d' de_fingerprint_entry certified_entry_keeps(1-3) t] by blast
  then show ?thesis using filter_map_same [of "certified_entry n fp" es] by simp
qed

text \<open>A new screen joins at the end, trusted under its certificate.\<close>

lemma those_snoc: "those (xs @ [x]) = (case those xs of None \<Rightarrow> None | Some ys \<Rightarrow> map_option (\<lambda>y. ys @ [y]) x)"
  by (induction xs) (auto split: option.splits simp: option.map_comp comp_def)

lemma read_trusted_snoc:
  "read_trusted m es = Inr t \<Longrightarrow> sn_fingerprint e = Some s \<Longrightarrow> fp_parse s = Some f
     \<Longrightarrow> read_trusted m (es @ [e]) = Inr (bm_insert (sn_name e) f t)"
  by (induction m es rule: read_trusted.induct) (auto split: option.splits)

lemma screen_saved:
  assumes c: "config_parse al d = Inr c" and d': "add_screen_edit n fp d = Inr d'"
    and n: "n \<notin> set (la_screens (cf_layout c))" and fp: "fp_ok fp"
  shows "config_parse al d' = Inr (c\<lparr>cf_trusted := bm_insert n fp (cf_trusted c),
     cf_layout := fst (add_screen (cf_layout c) n)\<rparr>)"
proof -
  obtain raw where raw: "de_config d = Some raw" "config_checked al raw = Inr c"
    using c by (auto simp: config_parse_def split: option.splits)
  note f = config_checked_fields [OF raw(2)] and scr = config_screens [OF raw(2)]
  define e where "e = \<lparr>sn_name = n, sn_x = None, sn_y = None, sn_w = None, sn_h = None,
    sn_fingerprint = Some (fp_display fp), sn_disabled = None\<rparr>"
  let ?t = "[(''name'', VStr n), (''fingerprint'', VStr (fp_display fp))]"
  have e: "de_screen ?t = Some e"
    by (simp add: de_screen_fields e_def de_opt_def)
  have "map_of d ''screens'' \<noteq> None"
    using de_config_sections(3) [OF raw(1)] f(2) by (cases "map_of d ''screens''") (auto simp: de_opt_def)
  then obtain ts where ts: "map_of d ''screens'' = Some (VTables ts)"
    and d'_eq: "d' = tb_put ''screens'' (VTables (ts @ [?t])) d"
    using d' by (auto simp: add_screen_edit_def Let_def split: option.splits toml.splits if_splits)
  have "those (map de_screen ts) = Some (rw_screens raw)"
    using raw ts by (auto simp: de_config_def bind_eq_Some_conv de_opt_def de_screens_def)
  then have raw': "de_config d' = Some (raw\<lparr>rw_screens := rw_screens raw @ [e]\<rparr>)"
    using raw(1) e by (cases raw) (auto simp: de_config_def bind_eq_Some_conv d'_eq de_screens_def those_snoc)
  have "read_trusted [] (rw_screens raw @ [e]) = Inr (bm_insert n fp (cf_trusted c))"
    using read_trusted_snoc [OF f(3), of e "fp_display fp" fp] fp_parse_display [OF fp] by (simp add: e_def)
  from config_checked_added [OF raw(2) _ this]
  show ?thesis using n by (simp add: config_parse_def raw' scr e_def entry_position_def entry_size_def)
qed

text \<open>Ports and the parts of an address are digits.\<close>

lemma show_nat_digits: "c \<in> set (show_nat n) \<Longrightarrow> is_digit c"
proof (induction n rule: show_nat.induct)
  case (1 n)
  show ?case
  proof (cases "n < 10")
    case True
    then show ?thesis using "1.prems" by (subst (asm) show_nat.simps) (simp add: is_digit_def)
  next
    case False
    then show ?thesis using 1 by (subst (asm) (2) show_nat.simps) (auto simp: is_digit_def)
  qed
qed

lemma show_nat_plain: "CHR ''.'' \<notin> set (show_nat n)" "CHR '':'' \<notin> set (show_nat n)"
  using show_nat_digits by (fastforce simp: is_digit_def)+

end
