(* ===== verification/Admin.thy ===== *)
theory Admin
  imports Config_Screens Hub
begin

text \<open>
  \<^verbatim>\<open>crates/geserdesk-server/src/admin.rs\<close>: what a front end reads and changes on a running server
  (\<^verbatim>\<open>DeskState\<close>), and \<^verbatim>\<open>watch_local_monitors\<close> of \<^verbatim>\<open>net.rs\<close>. A change goes into the configuration file
  and into the running router at once; each operation returns the new state and its result.
\<close>

section \<open>State\<close>

definition MAX_COORD :: int where
  "MAX_COORD = 1000000"

definition MIN_SIZE :: int where
  "MIN_SIZE = 64"

record tls_context =
  tc_fingerprint :: fingerprint
  tc_trust :: trust

record desk_state =
  ds_tls :: "tls_context option"
  ds_hub :: hub
  ds_path :: "string option"
  ds_file :: "document option" \<comment> \<open>what the file at \<open>ds_path\<close> holds\<close>
  ds_local :: string
  ds_local_monitors :: "rect list"
  ds_layout :: layout
  ds_positions :: "(string, point) bmap"
  ds_sizes :: "(string, size2) bmap"
  ds_known :: "(string, rect list) bmap"

record screen_view =
  vw_name :: string
  vw_local :: bool
  vw_connected :: bool
  vw_placeholder :: bool
  vw_origin :: point
  vw_size :: size2
  vw_monitors :: "rect list"
  vw_trusted_fingerprint :: "string option"
  vw_disabled :: bool

record pending_view =
  pv_name :: string
  pv_fingerprint :: string
  pv_addr :: string
  pv_replaces :: "string option"
  pv_age_s :: nat
  pv_new_screen :: bool

record desk_snapshot =
  dn_local :: string
  dn_screens :: "screen_view list"
  dn_config_path :: "string option"
  dn_tls :: bool
  dn_server_fingerprint :: "string option"
  dn_pending :: "pending_view list"

datatype admin_error =
    UnknownScreen string
  | OutOfRange string
  | BadSize string
  | Overlap string string
  | TlsOff
  | BadFingerprint
  | NotPending
  | NotTrusted
  | LocalScreen
  | Save save_error

definition ds_new :: "hub \<Rightarrow> string option \<Rightarrow> document option \<Rightarrow> string \<Rightarrow> rect list \<Rightarrow> layout
    \<Rightarrow> (string, point) bmap \<Rightarrow> tls_context option \<Rightarrow> desk_state" where
  "ds_new h path file local ms l ps tls =
     \<lparr>ds_tls = tls, ds_hub = h, ds_path = path, ds_file = file, ds_local = local, ds_local_monitors = ms,
      ds_layout = l, ds_positions = ps, ds_sizes = [], ds_known = []\<rparr>"

definition ds_set_sizes :: "desk_state \<Rightarrow> (string, size2) bmap \<Rightarrow> desk_state" where
  "ds_set_sizes ds ss = ds\<lparr>ds_sizes := ss\<rparr>"

definition ds_set_local_monitors :: "desk_state \<Rightarrow> rect list \<Rightarrow> desk_state" where
  "ds_set_local_monitors ds ms = ds\<lparr>ds_local_monitors := ms\<rparr>"

section \<open>What the front end sees\<close>

definition monitors_for :: "desk_state \<Rightarrow> string \<Rightarrow> (string, rect list) bmap \<Rightarrow> desk_state \<times> rect list \<times> bool" where
  "monitors_for ds name live =
     (if name = ds_local ds then (ds, ds_local_monitors ds, True)
      else case bm_get live name of
             Some m \<Rightarrow> (ds\<lparr>ds_known := bm_insert name m (ds_known ds)\<rparr>, m, True)
           | None \<Rightarrow>
               (case bm_get (ds_known ds) name of
                  Some m \<Rightarrow> (ds, m, True)
                | None \<Rightarrow> (ds, [Rect 0 0 (fst DEFAULT_SIZE) (snd DEFAULT_SIZE)], False)))"

fun all_monitors :: "desk_state \<Rightarrow> (string, rect list) bmap \<Rightarrow> string list \<Rightarrow> desk_state \<times> (string \<times> rect list \<times> bool) list" where
  "all_monitors ds live [] = (ds, [])"
| "all_monitors ds live (n # ns) =
     (let (ds, ms) = monitors_for ds n live; (ds, rest) = all_monitors ds live ns in (ds, (n, ms) # rest))"

definition view_size :: "(string \<times> rect list \<times> bool) list \<Rightarrow> (string, size2) bmap \<Rightarrow> string \<Rightarrow> int \<times> int" where
  "view_size mons sizes n =
     (case map_of mons n of None \<Rightarrow> DEFAULT_SIZE | Some (m, _) \<Rightarrow> desk_size m (bm_get sizes n))"

definition view_of :: "desk_state \<Rightarrow> (string, rect list) bmap \<Rightarrow> (string \<times> rect list \<times> bool) list \<Rightarrow> origins \<Rightarrow> string \<Rightarrow> screen_view option" where
  "view_of ds live mons og n = do {
     (ms, real) \<leftarrow> map_of mons n;
     o' \<leftarrow> bm_get og n;
     Some \<lparr>vw_name = n, vw_local = (n = ds_local ds),
           vw_connected = (n = ds_local ds \<or> bm_has live n),
           vw_placeholder = (\<not> real), vw_origin = o',
           vw_size = \<lparr>sz_w = fst (view_size mons (ds_sizes ds) n), sz_h = snd (view_size mons (ds_sizes ds) n)\<rparr>,
           vw_monitors = ms,
           vw_trusted_fingerprint = (case ds_tls ds of None \<Rightarrow> None
             | Some t \<Rightarrow> map_option fp_display (bm_get (tr_trusted (tc_trust t)) n)),
           vw_disabled = is_disabled (ds_hub ds) n\<rparr>
   }"

text \<open>\<^const>\<open>None\<close> is a panic of one of the lookups.\<close>

definition screens :: "desk_state \<Rightarrow> (desk_state \<times> screen_view list) option" where
  "screens ds =
     (let live = snapshot (ds_hub ds);
          names = la_screens (ds_layout ds);
          (ds, mons) = all_monitors ds live names
      in do {
        og \<leftarrow> effective_origins names (ds_local ds) (ds_layout ds) (ds_positions ds) (view_size mons (ds_sizes ds));
        vs \<leftarrow> those (map (view_of ds live mons og) names);
        Some (ds, vs)
      })"

definition pending_view_of :: "layout \<Rightarrow> nat \<Rightarrow> pending \<Rightarrow> pending_view" where
  "pending_view_of l now p =
     \<lparr>pv_name = pe_name p, pv_fingerprint = fp_display (pe_fingerprint p), pv_addr = pe_addr p,
      pv_replaces = map_option fp_display (pe_replaces p), pv_age_s = (now - pe_last_seen p) div 1000,
      pv_new_screen = (\<not> has_screen l (pe_name p))\<rparr>"

definition ds_snapshot :: "desk_state \<Rightarrow> nat \<Rightarrow> (desk_state \<times> desk_snapshot) option" where
  "ds_snapshot ds now =
     (let (ds, pend) = (case ds_tls ds of None \<Rightarrow> (ds, [])
            | Some t \<Rightarrow> (let (tr, ps) = tr_list (tc_trust t) now
                         in (ds\<lparr>ds_tls := Some (t\<lparr>tc_trust := tr\<rparr>)\<rparr>, map (pending_view_of (ds_layout ds) now) ps)))
      in do {
        (ds, vs) \<leftarrow> screens ds;
        Some (ds, \<lparr>dn_local = ds_local ds, dn_screens = vs, dn_config_path = ds_path ds, dn_tls = (ds_tls ds \<noteq> None),
          dn_server_fingerprint = map_option (\<lambda>t. fp_display (tc_fingerprint t)) (ds_tls ds), dn_pending = pend\<rparr>)
      })"

section \<open>Changing the layout\<close>

definition intersects :: "rect \<Rightarrow> rect \<Rightarrow> bool" where
  "intersects a b \<longleftrightarrow> r_left a < r_right b \<and> r_left b < r_right a \<and> r_top a < r_bottom b \<and> r_top b < r_bottom a"

fun place_requested :: "(string, point) bmap \<Rightarrow> (string \<times> point) list \<Rightarrow> admin_error + (string, point) bmap" where
  "place_requested nxt [] = Inr nxt"
| "place_requested nxt ((name, p) # rs) =
     (if \<not> bm_has nxt name then Inl (UnknownScreen name)
      else if i32_abs (pt_x p) > MAX_COORD \<or> i32_abs (pt_y p) > MAX_COORD then Inl (OutOfRange name)
      else place_requested (bm_insert name p nxt) rs)"

fun resize_requested :: "screen_view list \<Rightarrow> (string, size2) bmap \<Rightarrow> (string \<times> size2 option) list
    \<Rightarrow> admin_error + (string, size2) bmap" where
  "resize_requested views sizes [] = Inr sizes"
| "resize_requested views sizes ((name, sz) # rs) =
     (case find (\<lambda>v. vw_name v = name) views of
        None \<Rightarrow> Inl (UnknownScreen name)
      | Some view \<Rightarrow>
          (case sz of
             None \<Rightarrow> resize_requested views (bm_remove name sizes) rs
           | Some s \<Rightarrow>
               if (sz_w s, sz_h s) = desk_size (vw_monitors view) None
               then resize_requested views (bm_remove name sizes) rs
               else if sz_w s < MIN_SIZE \<or> sz_h s < MIN_SIZE \<or> sz_w s > MAX_COORD \<or> sz_h s > MAX_COORD
               then Inl (BadSize name)
               else resize_requested views (bm_insert name s sizes) rs))"

definition desk_of :: "(string, point) bmap \<Rightarrow> (string, size2) bmap \<Rightarrow> screen_view \<Rightarrow> (string \<times> rect list) option" where
  "desk_of nxt sizes v = do {
     o' \<leftarrow> bm_get nxt (vw_name v);
     let f = fr_new o' (union_all (vw_monitors v)) (bm_get sizes (vw_name v));
     Some (vw_name v, map (desk_rect f) (vw_monitors v))
   }"

fun first_overlap :: "(string \<times> rect list) list \<Rightarrow> (string \<times> string) option" where
  "first_overlap [] = None"
| "first_overlap ((a, ma) # desk) =
     (case find (\<lambda>(b, mb). \<exists>x \<in> set ma. \<exists>y \<in> set mb. intersects x y) desk of
        Some (b, _) \<Rightarrow> Some (a, b)
      | None \<Rightarrow> first_overlap desk)"

definition validate :: "desk_state \<Rightarrow> (string, point) bmap \<Rightarrow> (string, size2 option) bmap
    \<Rightarrow> (desk_state \<times> (admin_error + (string, point) bmap \<times> (string, size2) bmap)) option" where
  "validate ds requested resized = do {
     (ds, views) \<leftarrow> screens ds;
     case place_requested (bm_of_list (map (\<lambda>v. (vw_name v, vw_origin v)) views)) requested of
       Inl e \<Rightarrow> Some (ds, Inl e)
     | Inr nxt \<Rightarrow>
         (case resize_requested views (ds_sizes ds) resized of
            Inl e \<Rightarrow> Some (ds, Inl e)
          | Inr sizes \<Rightarrow> do {
              desk \<leftarrow> those (map (desk_of nxt sizes) (filter vw_connected views));
              Some (ds, case first_overlap desk of Some (a, b) \<Rightarrow> Inl (Overlap a b) | None \<Rightarrow> Inr (nxt, sizes))
            })
   }"

text \<open>Saving, where there is a file to save to: the result and whether it was saved.\<close>

definition save :: "desk_state \<Rightarrow> (document option \<Rightarrow> document option \<times> save_error option) \<Rightarrow> desk_state \<times> (admin_error + bool)" where
  "save ds write =
     (case ds_path ds of
        None \<Rightarrow> (ds, Inr False)
      | Some _ \<Rightarrow>
          (let (file, e) = write (ds_file ds)
           in (ds\<lparr>ds_file := file\<rparr>, case e of None \<Rightarrow> Inr True | Some e \<Rightarrow> Inl (Save e))))"

definition apply_layout :: "desk_state \<Rightarrow> bool \<Rightarrow> (string, point) bmap \<Rightarrow> (string, size2 option) bmap
    \<Rightarrow> (desk_state \<times> (admin_error + bool)) option" where
  "apply_layout ds writes requested resized = do {
     (ds, r) \<leftarrow> validate ds requested resized;
     Some (case r of Inl e \<Rightarrow> (ds, Inl e)
       | Inr (nxt, sizes) \<Rightarrow>
           (case save ds (write_layout nxt sizes writes) of
              (ds, Inl e) \<Rightarrow> (ds, Inl e)
            | (ds, Inr saved) \<Rightarrow>
                (ds\<lparr>ds_positions := nxt, ds_sizes := sizes,
                    ds_hub := apply_positions (apply_sizes (ds_hub ds) sizes) nxt\<rparr>, Inr saved)))
   }"

section \<open>Trust and turning screens off\<close>

definition with_trust :: "desk_state \<Rightarrow> trust \<Rightarrow> desk_state" where
  "with_trust ds tr = ds\<lparr>ds_tls := map_option (\<lambda>t. t\<lparr>tc_trust := tr\<rparr>) (ds_tls ds)\<rparr>"

definition ds_approve :: "desk_state \<Rightarrow> bool \<Rightarrow> string \<Rightarrow> string \<Rightarrow> desk_state \<times> (admin_error + unit)" where
  "ds_approve ds writes name fptext =
     (case ds_tls ds of None \<Rightarrow> (ds, Inl TlsOff)
      | Some tls \<Rightarrow>
     (case fp_parse fptext of None \<Rightarrow> (ds, Inl BadFingerprint)
      | Some fp \<Rightarrow>
        let listed = has_screen (ds_layout ds) name
        in if \<not> listed \<and> \<not> valid_screen_name name then (ds, Inl (UnknownScreen name))
        else let previous = bm_get (tr_trusted (tc_trust tls)) name
        in case approve (tc_trust tls) name fp of
             (tr, False) \<Rightarrow> (with_trust ds tr, Inl NotPending)
           | (tr, True) \<Rightarrow>
               (case save (with_trust ds tr)
                       (if listed then write_fingerprint name (Some fp) writes else add_screen_to_config name fp writes) of
                  (ds, Inl e) \<Rightarrow> (with_trust ds (restore tr name previous), Inl e)
                | (ds, Inr _) \<Rightarrow>
                    if \<not> listed
                    then (ds\<lparr>ds_layout := fst (add_screen (ds_layout ds) name),
                             ds_hub := fst (hub_add_screen (ds_hub ds) name)\<rparr>, Inr ())
                    else (ds, Inr ()))))"

definition ds_dismiss :: "desk_state \<Rightarrow> string \<Rightarrow> string \<Rightarrow> desk_state \<times> (admin_error + unit)" where
  "ds_dismiss ds name fptext =
     (case ds_tls ds of None \<Rightarrow> (ds, Inl TlsOff)
      | Some tls \<Rightarrow>
          (case fp_parse fptext of None \<Rightarrow> (ds, Inl BadFingerprint)
           | Some fp \<Rightarrow> (with_trust ds (fst (dismiss (tc_trust tls) name fp)), Inr ())))"

definition ds_set_disabled :: "desk_state \<Rightarrow> bool \<Rightarrow> string \<Rightarrow> bool \<Rightarrow> desk_state \<times> (admin_error + unit)" where
  "ds_set_disabled ds writes name disabled =
     (if name = ds_local ds then (ds, Inl LocalScreen)
      else if name \<notin> set (la_screens (ds_layout ds)) then (ds, Inl (UnknownScreen name))
      else case save ds (write_disabled name disabled writes) of
             (ds, Inl e) \<Rightarrow> (ds, Inl e)
           | (ds, Inr _) \<Rightarrow> (ds\<lparr>ds_hub := set_disabled (ds_hub ds) name disabled\<rparr>, Inr ()))"

definition ds_revoke :: "desk_state \<Rightarrow> bool \<Rightarrow> string \<Rightarrow> desk_state \<times> (admin_error + unit)" where
  "ds_revoke ds writes name =
     (case ds_tls ds of None \<Rightarrow> (ds, Inl TlsOff)
      | Some tls \<Rightarrow>
          (case revoke (tc_trust tls) name of
             (tr, None) \<Rightarrow> (with_trust ds tr, Inl NotTrusted)
           | (tr, Some old) \<Rightarrow>
               (case save (with_trust ds tr) (write_fingerprint name None writes) of
                  (ds, Inl e) \<Rightarrow> (with_trust ds (restore tr name (Some old)), Inl e)
                | (ds, Inr _) \<Rightarrow> (ds\<lparr>ds_hub := fst (hub_disconnect (ds_hub ds) name Reconfigured)\<rparr>, Inr ()))))"

text \<open>
  One look at this machine's monitors: \<^const>\<open>None\<close> is a failed detection. \<open>current\<close> is what the
  watcher last saw.
\<close>

definition watch_tick :: "desk_state \<Rightarrow> rect list \<Rightarrow> rect list option \<Rightarrow> desk_state \<times> rect list" where
  "watch_tick ds current detected =
     (case detected of
        None \<Rightarrow> (ds, current)
      | Some now \<Rightarrow>
          if now = [] \<or> now = current then (ds, current)
          else ((ds_set_local_monitors ds now)\<lparr>ds_hub := apply_local_monitors (ds_hub ds) now\<rparr>, now))"

end
