(* ===== verification/Admin_Layout.thy ===== *)
theory Admin_Layout
  imports Admin
begin

text \<open>
  What the front end is shown and what a layout it asks for must pass: the views name every screen of
  the layout, and in a layout that passes no two machines that are there share a point of the desk.
\<close>

section \<open>Origins are points of 32-bit coordinates\<close>

definition points_i32 :: "origins \<Rightarrow> bool" where
  "points_i32 og \<longleftrightarrow> (\<forall>n p. bm_get og n = Some p \<longrightarrow> is_i32 (pt_x p) \<and> is_i32 (pt_y p))"

lemma is_i32_i32 [simp]: "is_i32 (i32 x)"
  by (simp add: is_i32_def i32_def)

lemma is_i32_0 [simp]: "is_i32 0"
  by (simp add: is_i32_def)

lemma points_i32_insert: "points_i32 og \<Longrightarrow> is_i32 (pt_x p) \<Longrightarrow> is_i32 (pt_y p) \<Longrightarrow> points_i32 (bm_insert n p og)"
  by (simp add: points_i32_def)

lemma points_i32_edges:
  "points_i32 placed \<Longrightarrow> is_i32 (pt_x oa) \<Longrightarrow> is_i32 (pt_y oa) \<Longrightarrow>
     points_i32 (fst (fold (place_edge order l sf a oa) es (placed, queue)))"
proof (induction es arbitrary: placed queue)
  case (Cons e es)
  obtain p q where pq: "place_edge order l sf a oa e (placed, queue) = (p, q)" by fastforce
  then have "points_i32 p" using Cons.prems
    by (auto simp: place_edge_def beside_def intro: points_i32_insert split: option.splits if_splits edge.splits)
  then show ?case using Cons.IH Cons.prems by (simp add: pq)
qed simp

lemma points_i32_links:
  "place_links order l sf placed queue = Some r \<Longrightarrow> points_i32 placed \<Longrightarrow> points_i32 r"
proof (induction order l sf placed queue arbitrary: r rule: place_links.induct)
  case (2 order l sf placed a queue)
  then obtain oa where oa: "bm_get placed a = Some oa" by (auto split: option.splits)
  then have "points_i32 (fst (fold (place_edge order l sf a oa) edge_all (placed, queue)))"
    using 2(3) by (intro points_i32_edges) (auto simp: points_i32_def)
  then show ?case using 2 oa by (simp add: Let_def)
qed simp

lemma fold_max_mem: "fold max xs (x :: int) \<in> set (x # xs)"
proof (induction xs arbitrary: x)
  case (Cons y ys)
  then show ?case using Cons [of "max y x"] by (auto simp: max_def split: if_splits)
qed simp

lemma rightmost_i32: "is_i32 (rightmost order sf placed)"
proof -
  have pick: "\<forall>x \<in> set xs. is_i32 x \<Longrightarrow> is_i32 (case xs of [] \<Rightarrow> 0 | x # xs \<Rightarrow> fold max xs x)" for xs
    using fold_max_mem by (cases xs) fastforce+
  show ?thesis unfolding rightmost_def by (rule pick) (auto split: option.splits)
qed

lemma points_i32_right:
  "points_i32 placed \<Longrightarrow> is_i32 x \<Longrightarrow> points_i32 (fst (fold (place_right sf) order (placed, x)))"
proof (induction order arbitrary: placed x)
  case (Cons n ns)
  have "place_right sf n (placed, x)
      = (if bm_has placed n then (placed, x) else (bm_insert n (Pt x 0) placed, i32 (x + fst (sf n))))"
    by (simp add: place_right_def)
  then show ?case
    using Cons.IH [OF points_i32_insert [OF Cons.prems(1), of "Pt x 0" n], of "i32 (x + fst (sf n))"] Cons.IH Cons.prems
    by simp
qed simp

lemma effective_origins_i32:
  assumes "effective_origins order local l conf sf = Some r" "points_i32 conf"
  shows "points_i32 r"
proof -
  define p0 where "p0 = filter (\<lambda>(n, _). n \<in> set order) conf"
  define p1 where "p1 = (if bm_has p0 local then p0 else bm_insert local (Pt 0 0) p0)"
  have 0: "points_i32 p0" using assms(2) by (auto simp: p0_def points_i32_def bm_get_filter_key)
  then have 1: "points_i32 p1" by (auto simp: p1_def intro: points_i32_insert)
  obtain p2 where 2: "place_links order l sf p1 (filter (\<lambda>n. bm_has p1 n) order) = Some p2"
    "r = fst (fold (place_right sf) order (p2, rightmost order sf p2))"
    using assms(1) by (auto simp: effective_origins_def Let_def p0_def [symmetric] p1_def [symmetric] bind_eq_Some_conv)
  show ?thesis unfolding 2(2)
    by (rule points_i32_right [OF points_i32_links [OF 2(1) 1] rightmost_i32])
qed

section \<open>The views\<close>

lemma all_monitors_spec:
  "all_monitors ds live ns = (ds', mons) \<Longrightarrow>
     (\<exists>k. ds' = ds\<lparr>ds_known := k\<rparr>) \<and> map fst mons = ns
     \<and> (\<forall>x \<in> set mons.
          (fst x = ds_local ds \<longrightarrow> fst (snd x) = ds_local_monitors ds)
        \<and> (fst x \<noteq> ds_local ds \<longrightarrow> (\<forall>m. bm_get live (fst x) = Some m \<longrightarrow> fst (snd x) = m)))"
proof (induction ns arbitrary: ds ds' mons)
  case (Cons n ns)
  obtain d1 ms where 1: "monitors_for ds n live = (d1, ms)" by (cases "monitors_for ds n live")
  obtain d2 rest where 2: "all_monitors d1 live ns = (d2, rest)" by (cases "all_monitors d1 live ns")
  obtain k where k: "d1 = ds\<lparr>ds_known := k\<rparr>"
    using 1 that [of "ds_known ds"] by (auto simp: monitors_for_def split: if_splits option.splits)
  have "(n = ds_local ds \<longrightarrow> fst ms = ds_local_monitors ds)
      \<and> (n \<noteq> ds_local ds \<longrightarrow> (\<forall>m. bm_get live n = Some m \<longrightarrow> fst ms = m))"
    using 1 by (auto simp: monitors_for_def split: if_splits option.splits)
  then show ?case
    using Cons.IH [OF 2] Cons.prems 1 2 k by (auto simp: Let_def)
next
  case (Nil ds)
  then have "ds' = ds\<lparr>ds_known := ds_known ds\<rparr>" by simp
  then have "\<exists>k. ds' = ds\<lparr>ds_known := k\<rparr>" by (rule exI)
  then show ?case using Nil by simp
qed

lemma screens_spec:
  assumes "bm_ok (ds_positions ds)" "points_i32 (ds_positions ds)"
  shows "\<exists>k vs. screens ds = Some (ds\<lparr>ds_known := k\<rparr>, vs) \<and> map vw_name vs = la_screens (ds_layout ds)
    \<and> (\<forall>v \<in> set vs. is_i32 (pt_x (vw_origin v)) \<and> is_i32 (pt_y (vw_origin v))
        \<and> (vw_connected v \<longleftrightarrow> vw_name v = ds_local ds \<or> bm_has (hb_clients (ds_hub ds)) (vw_name v))
        \<and> (vw_name v = ds_local ds \<longrightarrow> vw_monitors v = ds_local_monitors ds)
        \<and> (vw_name v \<noteq> ds_local ds \<longrightarrow>
             (\<forall>en. bm_get (hb_clients (ds_hub ds)) (vw_name v) = Some en \<longrightarrow> vw_monitors v = ce_monitors en)))"
proof -
  let ?live = "snapshot (ds_hub ds)" and ?names = "la_screens (ds_layout ds)"
  have live: "bm_get ?live n = map_option ce_monitors (bm_get (hb_clients (ds_hub ds)) n)" for n
    by (simp add: snapshot_def bm_get_map_values [where f = "\<lambda>n. ce_monitors"])
  obtain d mons where am: "all_monitors ds ?live ?names = (d, mons)" by fastforce
  note m = all_monitors_spec [OF am]
  obtain k where k: "d = ds\<lparr>ds_known := k\<rparr>" using m by auto
  obtain og where og: "effective_origins ?names (ds_local ds) (ds_layout ds) (ds_positions ds) (view_size mons (ds_sizes ds)) = Some og"
    "\<forall>n \<in> set ?names. bm_has og n"
    using effective_origins_spec [OF assms(1)] by metis
  note oi = effective_origins_i32 [OF og(1) assms(2)]
  have "\<exists>v. view_of d ?live mons og n = Some v \<and> vw_name v = n \<and> is_i32 (pt_x (vw_origin v)) \<and> is_i32 (pt_y (vw_origin v))
        \<and> (vw_connected v \<longleftrightarrow> n = ds_local ds \<or> bm_has (hb_clients (ds_hub ds)) n)
        \<and> (n = ds_local ds \<longrightarrow> vw_monitors v = ds_local_monitors ds)
        \<and> (n \<noteq> ds_local ds \<longrightarrow>
             (\<forall>en. bm_get (hb_clients (ds_hub ds)) n = Some en \<longrightarrow> vw_monitors v = ce_monitors en))"
    if n: "n \<in> set ?names" for n
  proof -
    obtain p where p: "bm_get og n = Some p" using og(2) n by (auto simp: bm_has_iff)
    have "n \<in> fst ` set mons" using m n by (metis list.set_map)
    then obtain ms real where mm: "map_of mons n = Some (ms, real)"
      by (metis map_of_eq_None_iff not_Some_eq surj_pair)
    then have "n = ds_local ds \<longrightarrow> ms = ds_local_monitors ds"
      "n \<noteq> ds_local ds \<longrightarrow> (\<forall>m. bm_get ?live n = Some m \<longrightarrow> ms = m)"
      using m map_of_SomeD [OF mm] by fastforce+
    then show ?thesis
      using p mm oi by (simp add: view_of_def k points_i32_def live bm_has_iff)
  qed
  then obtain f where f: "\<forall>n \<in> set ?names. view_of d ?live mons og n = Some (f n) \<and> vw_name (f n) = n
        \<and> is_i32 (pt_x (vw_origin (f n))) \<and> is_i32 (pt_y (vw_origin (f n)))
        \<and> (vw_connected (f n) \<longleftrightarrow> n = ds_local ds \<or> bm_has (hb_clients (ds_hub ds)) n)
        \<and> (n = ds_local ds \<longrightarrow> vw_monitors (f n) = ds_local_monitors ds)
        \<and> (n \<noteq> ds_local ds \<longrightarrow>
             (\<forall>en. bm_get (hb_clients (ds_hub ds)) n = Some en \<longrightarrow> vw_monitors (f n) = ce_monitors en))"
    by metis
  have "those (map (view_of d ?live mons og) ?names) = Some (map f ?names)"
    using f by (intro those_map_Some) auto
  then have "screens ds = Some (ds\<lparr>ds_known := k\<rparr>, map f ?names)"
    using am og(1) by (simp add: screens_def k)
  moreover have "map vw_name (map f ?names) = ?names" using f by (simp add: map_idI)
  ultimately show ?thesis using f by (intro exI [of _ k] exI [of _ "map f ?names"]) auto
qed

section \<open>What a validated layout guarantees\<close>

definition sizes_typed :: "(string, size2) bmap \<Rightarrow> bool" where
  "sizes_typed ss \<longleftrightarrow> (\<forall>n s. bm_get ss n = Some s \<longrightarrow> is_i32 (sz_w s) \<and> is_i32 (sz_h s) \<and> sz_w s > 0 \<and> sz_h s > 0)"

lemma place_requested_spec:
  "place_requested nxt rs = Inr nxt' \<Longrightarrow> bm_ok nxt \<Longrightarrow> points_i32 nxt \<Longrightarrow>
     \<forall>(n, p) \<in> set rs. is_i32 (pt_x p) \<and> is_i32 (pt_y p) \<Longrightarrow>
     bm_ok nxt' \<and> points_i32 nxt' \<and> (\<forall>n. bm_has nxt' n = bm_has nxt n)"
proof (induction nxt rs rule: place_requested.induct)
  case (2 nxt name p rs)
  then have *: "bm_has nxt name" "place_requested (bm_insert name p nxt) rs = Inr nxt'"
    "\<not> (i32_abs (pt_x p) > MAX_COORD \<or> i32_abs (pt_y p) > MAX_COORD)"
    by (auto split: if_splits)
  then have "bm_has (bm_insert name p nxt) n = bm_has nxt n" for n by auto
  then show ?case using 2 * by (auto intro: points_i32_insert)
qed simp

lemma resize_requested_spec:
  "resize_requested views sizes rs = Inr sizes' \<Longrightarrow> bm_ok sizes \<Longrightarrow> sizes_typed sizes \<Longrightarrow>
     bm_ok sizes' \<and> sizes_typed sizes' \<and> (\<forall>n. bm_has sizes' n \<longrightarrow> bm_has sizes n \<or> n \<in> vw_name ` set views)"
proof (induction views sizes rs rule: resize_requested.induct)
  case (2 views sizes name sz rs)
  obtain view where v: "find (\<lambda>v. vw_name v = name) views = Some view"
    using "2.prems"(1) by (auto split: option.splits)
  have mem: "name \<in> vw_name ` set views" using find_SomeD [OF v] by auto
  have rm: "sizes_typed (bm_remove name sizes)" using "2.prems"(3) by (auto simp: sizes_typed_def)
  show ?case
  proof (cases sz)
    case None
    then show ?thesis using 2(1) [OF v None] "2.prems" v rm by auto
  next
    case (Some s)
    show ?thesis
    proof (cases "(sz_w s, sz_h s) = desk_size (vw_monitors view) None")
      case True
      then show ?thesis using 2(2) [OF v Some True] "2.prems" v Some rm by auto
    next
      case False
      then have b: "\<not> (sz_w s < MIN_SIZE \<or> sz_h s < MIN_SIZE \<or> sz_w s > MAX_COORD \<or> sz_h s > MAX_COORD)"
        using "2.prems"(1) v Some by (auto split: if_splits)
      have "sizes_typed (bm_insert name s sizes)"
        using "2.prems"(3) b by (auto simp: sizes_typed_def MIN_SIZE_def MAX_COORD_def is_i32_def)
      then show ?thesis using 2(3) [OF v Some False b] "2.prems" v Some False b mem by auto
    qed
  qed
qed simp

lemma first_overlap_None:
  "first_overlap desk = None \<Longrightarrow> distinct (map fst desk) \<Longrightarrow> (a, ma) \<in> set desk \<Longrightarrow> (b, mb) \<in> set desk \<Longrightarrow> a \<noteq> b
     \<Longrightarrow> x \<in> set ma \<Longrightarrow> y \<in> set mb \<Longrightarrow> \<not> intersects x y"
proof (induction desk rule: first_overlap.induct)
  case (2 n mn desk)
  have f: "find (\<lambda>(b, mb). \<exists>x \<in> set mn. \<exists>y \<in> set mb. intersects x y) desk = None" "first_overlap desk = None"
    using "2.prems"(1) by (auto split: option.splits)
  have sym: "intersects x y \<longleftrightarrow> intersects y x" by (auto simp: intersects_def)
  have none: "\<forall>(b, mb) \<in> set desk. \<forall>x \<in> set mn. \<forall>y \<in> set mb. \<not> intersects x y"
    using f(1) by (auto simp: find_None_iff)
  consider "a = n" "ma = mn" "(b, mb) \<in> set desk" | "b = n" "mb = mn" "(a, ma) \<in> set desk"
    | "(a, ma) \<in> set desk" "(b, mb) \<in> set desk"
    using "2.prems"(3-5) by auto
  then show ?case
  proof cases
    case 1 then show ?thesis using none "2.prems"(6,7) by blast
  next
    case 2 then show ?thesis using none "2.prems"(6,7) sym by blast
  next
    case 3 then show ?thesis using 2(1) [OF f] "2.prems" by auto
  qed
qed simp

lemma contains_intersects: "rect_contains a p \<Longrightarrow> rect_contains b p \<Longrightarrow> intersects a b"
  by (auto simp: rect_contains_def intersects_def r_left_def r_top_def)

text \<open>The frames a layout puts the machines in, and what it means that they are apart.\<close>

definition frame_at :: "(string, point) bmap \<Rightarrow> (string, size2) bmap \<Rightarrow> string \<Rightarrow> rect list \<Rightarrow> frame" where
  "frame_at ps ss n ms = fr_new (case bm_get ps n of Some p \<Rightarrow> p | None \<Rightarrow> Pt 0 0) (union_all ms) (bm_get ss n)"

definition apart :: "(string, point) bmap \<Rightarrow> (string, size2) bmap \<Rightarrow> (string \<Rightarrow> rect list) \<Rightarrow> string set \<Rightarrow> bool" where
  "apart ps ss mons names \<longleftrightarrow> (\<forall>a \<in> names. \<forall>b \<in> names. a \<noteq> b \<longrightarrow>
     (\<forall>x \<in> set (mons a). \<forall>y \<in> set (mons b). \<forall>p.
        \<not> (rect_contains (desk_rect (frame_at ps ss a (mons a)) x) p
           \<and> rect_contains (desk_rect (frame_at ps ss b (mons b)) y) p)))"

definition machine_monitors :: "desk_state \<Rightarrow> string \<Rightarrow> rect list" where
  "machine_monitors ds n =
     (if n = ds_local ds then ds_local_monitors ds
      else case bm_get (hb_clients (ds_hub ds)) n of Some en \<Rightarrow> ce_monitors en | None \<Rightarrow> [])"

definition machines :: "desk_state \<Rightarrow> string set" where
  "machines ds = {n \<in> set (la_screens (ds_layout ds)). n = ds_local ds \<or> bm_has (hb_clients (ds_hub ds)) n}"

definition desk_ok :: "desk_state \<Rightarrow> bool" where
  "desk_ok ds \<longleftrightarrow> bm_ok (ds_positions ds) \<and> points_i32 (ds_positions ds) \<and> bm_ok (ds_sizes ds) \<and> sizes_typed (ds_sizes ds)
     \<and> (\<forall>n. bm_has (ds_sizes ds) n \<longrightarrow> n \<in> set (la_screens (ds_layout ds)))
     \<and> distinct (la_screens (ds_layout ds)) \<and> ds_local ds \<in> set (la_screens (ds_layout ds)) \<and> in_step (ds_hub ds)
     \<and> (\<forall>n. bm_has (hb_clients (ds_hub ds)) n \<longrightarrow> n \<in> set (la_screens (ds_layout ds)))"

lemma desk_ok_known [simp]: "desk_ok (ds\<lparr>ds_known := k\<rparr>) = desk_ok ds"
  by (simp add: desk_ok_def)

lemma those_fst:
  "those (map f xs) = Some ys \<Longrightarrow> (\<And>x y. f x = Some y \<Longrightarrow> g y = h x) \<Longrightarrow> map g ys = map h xs"
  by (induction xs arbitrary: ys) (auto split: option.splits)

lemma validate_spec:
  assumes ok: "desk_ok ds" and req: "\<forall>(n, p) \<in> set requested. is_i32 (pt_x p) \<and> is_i32 (pt_y p)"
  shows "\<exists>k r. validate ds requested resized = Some (ds\<lparr>ds_known := k\<rparr>, r)
    \<and> (\<forall>nxt sizes. r = Inr (nxt, sizes) \<longrightarrow>
         bm_ok nxt \<and> points_i32 nxt \<and> dom (bm_get nxt) = set (la_screens (ds_layout ds))
       \<and> bm_ok sizes \<and> sizes_typed sizes \<and> (\<forall>n. bm_has sizes n \<longrightarrow> n \<in> set (la_screens (ds_layout ds)))
       \<and> apart nxt sizes (machine_monitors ds) (machines ds))"
proof -
  obtain k vs where sc: "screens ds = Some (ds\<lparr>ds_known := k\<rparr>, vs)" "map vw_name vs = la_screens (ds_layout ds)"
    "\<forall>v \<in> set vs. is_i32 (pt_x (vw_origin v)) \<and> is_i32 (pt_y (vw_origin v))
        \<and> (vw_connected v \<longleftrightarrow> vw_name v = ds_local ds \<or> bm_has (hb_clients (ds_hub ds)) (vw_name v))
        \<and> (vw_name v = ds_local ds \<longrightarrow> vw_monitors v = ds_local_monitors ds)
        \<and> (vw_name v \<noteq> ds_local ds \<longrightarrow>
             (\<forall>en. bm_get (hb_clients (ds_hub ds)) (vw_name v) = Some en \<longrightarrow> vw_monitors v = ce_monitors en))"
    using screens_spec [of ds] ok unfolding desk_ok_def by metis
  define base where "base = bm_of_list (map (\<lambda>v. (vw_name v, vw_origin v)) vs)"
  have dis: "distinct (map vw_name vs)" using sc(2) ok by (simp add: desk_ok_def)
  have base: "bm_get base n = map_of (map (\<lambda>v. (vw_name v, vw_origin v)) vs) n" for n
    unfolding base_def by (rule bm_get_of_list) (use dis in \<open>simp add: comp_def\<close>)
  have names: "vw_name ` set vs = set (la_screens (ds_layout ds))" using sc(2) by (metis list.set_map)
  have base_has: "bm_has base n \<longleftrightarrow> n \<in> set (la_screens (ds_layout ds))" for n
    unfolding bm_has_iff base names [symmetric] by (simp add: map_of_eq_None_iff image_comp comp_def)
  have base_ok: "bm_ok base" "points_i32 base"
    using sc(3) by (auto simp: base_def points_i32_def) (auto simp: base_def [symmetric] base dest!: map_of_SomeD)
  show ?thesis
  proof (cases "place_requested base requested")
    case (Inl e)
    then show ?thesis by (intro exI [of _ k] exI [of _ "Inl e"]) (simp add: validate_def sc(1) base_def)
  next
    case nx: (Inr nxt)
    note p = place_requested_spec [OF nx base_ok req]
    show ?thesis
    proof (cases "resize_requested vs (ds_sizes ds) resized")
      case (Inl e)
      then show ?thesis
        using nx by (intro exI [of _ k] exI [of _ "Inl e"]) (simp add: validate_def sc(1) base_def)
    next
      case sz: (Inr sizes)
      have r: "bm_ok sizes" "sizes_typed sizes" "bm_has sizes n \<Longrightarrow> n \<in> set (la_screens (ds_layout ds))" for n
        using resize_requested_spec [OF sz] ok names by (auto simp: desk_ok_def)
      have get: "\<exists>o'. bm_get nxt (vw_name v) = Some o'" if "v \<in> set vs" for v
        using p base_has [of "vw_name v"] names that by (auto simp: bm_has_iff)
      obtain desk where desk: "those (map (desk_of nxt sizes) (filter vw_connected vs)) = Some desk"
      proof -
        have "\<forall>v \<in> set (filter vw_connected vs). desk_of nxt sizes v = Some (the (desk_of nxt sizes v))"
          using get by (force simp: desk_of_def Let_def)
        from those_map_Some [OF this] that show thesis by blast
      qed
      have fst_desk: "map fst desk = map vw_name (filter vw_connected vs)"
        by (rule those_fst [OF desk]) (auto simp: desk_of_def Let_def bind_eq_Some_conv)
      have ap: "apart nxt sizes (machine_monitors ds) (machines ds)" if none: "first_overlap desk = None"
      proof -
        have entry: "(n, map (desk_rect (frame_at nxt sizes n (machine_monitors ds n))) (machine_monitors ds n)) \<in> set desk"
          if n: "n \<in> machines ds" for n
        proof -
          have "n \<in> vw_name ` set vs" using n by (simp add: machines_def names)
          then obtain v where v: "v \<in> set vs" "vw_name v = n" by blast
          then have c: "vw_connected v" and m: "vw_monitors v = machine_monitors ds n"
            using sc(3) n by (auto simp: machines_def machine_monitors_def bm_has_iff)
          obtain o' where o': "bm_get nxt n = Some o'" using get v by blast
          have "desk_of nxt sizes v = Some (n, map (desk_rect (frame_at nxt sizes n (machine_monitors ds n))) (machine_monitors ds n))"
            using o' v m by (simp add: desk_of_def frame_at_def Let_def)
          then show ?thesis using those_SomeD [OF desk] v c by fastforce
        qed
        have dd: "distinct (map fst desk)" unfolding fst_desk by (rule distinct_map_filter [OF dis])
        show ?thesis
          unfolding apart_def using first_overlap_None [OF none dd entry entry] contains_intersects by fastforce
      qed
      have "dom (bm_get nxt) = set (la_screens (ds_layout ds))"
        using p base_has by (auto simp: bm_has_iff dom_def)
      then show ?thesis
        using p r ap nx sz desk
        by (intro exI [of _ k] exI [of _ "case first_overlap desk of Some (a, b) \<Rightarrow> Inl (Overlap a b) | None \<Rightarrow> Inr (nxt, sizes)"])
           (auto simp: validate_def sc(1) base_def split: option.splits)
    qed
  qed
qed

end
