(* ===== verification/Admin_Run.thy ===== *)
theory Admin_Run
  imports Admin_Layout
begin

text \<open>
  The operations of \<^verbatim>\<open>DeskState\<close> one after the other, with the sessions of the clients in between:
  what every one of them keeps. The file holds what runs, and the events sent to the router give it
  the desk the front end edits.
\<close>

section \<open>The settings the router was sent\<close>

record desk_settings =
  se_positions :: "(string, point) bmap"
  se_sizes :: "(string, size2) bmap"
  se_layout :: layout
  se_monitors :: "rect list"

fun settings_step :: "hub_event \<Rightarrow> desk_settings \<Rightarrow> desk_settings" where
  "settings_step (Positions ps) s = s\<lparr>se_positions := ps\<rparr>"
| "settings_step (Sizes ss) s = s\<lparr>se_sizes := ss\<rparr>"
| "settings_step (ScreenAdded n) s = s\<lparr>se_layout := fst (add_screen (se_layout s) n)\<rparr>"
| "settings_step (LocalMonitors ms) s = (if ms = [] then s else s\<lparr>se_monitors := ms\<rparr>)"
| "settings_step (Connected n ms) s = s"
| "settings_step (Disconnected n) s = s"

definition desk_settings_of :: "desk_state \<Rightarrow> desk_settings" where
  "desk_settings_of ds = \<lparr>se_positions = ds_positions ds, se_sizes = ds_sizes ds, se_layout = ds_layout ds,
     se_monitors = ds_local_monitors ds\<rparr>"

definition router_settings :: "desk_settings \<Rightarrow> desk_state \<Rightarrow> desk_settings" where
  "router_settings start ds = fold settings_step (hb_events (ds_hub ds)) start"

section \<open>Every operation as a step\<close>

text \<open>
  \<open>DHub\<close> is what the clients' sessions do to the hub, \<open>DAsk\<close> what they do to the trust; \<open>DTuning\<close> is
  the settings window of the app writing the same file. The flag of an operation that saves says
  whether the write succeeds.
\<close>

datatype desk_op =
    DLayout bool "(string, point) bmap" "(string, size2 option) bmap"
  | DApprove bool string string
  | DDismiss string string
  | DDisable bool string bool
  | DRevoke bool string
  | DLook nat
  | DMonitors "rect list option"
  | DTuning bool tuning
  | DAsk nat string fingerprint string
  | DHub hub_op

text \<open>A session registers only a screen of the layout, and never touches the settings.\<close>

fun session_hub_op :: "layout \<Rightarrow> hub_op \<Rightarrow> bool" where
  "session_hub_op l (ORegister n ms) = has_screen l n"
| "session_hub_op l (OSetDisabled n b) = False"
| "session_hub_op l (OPositions ps) = False"
| "session_hub_op l (OSizes ss) = False"
| "session_hub_op l (OAddScreen n) = False"
| "session_hub_op l (OLocalMonitors ms) = False"
| "session_hub_op l _ = True"

fun op_typed :: "desk_op \<Rightarrow> bool" where
  "op_typed (DLayout w req res) = (\<forall>(n, p) \<in> set req. is_i32 (pt_x p) \<and> is_i32 (pt_y p))"
| "op_typed (DTuning w t) = tuning_typed t"
| "op_typed _ = True"

fun desk_step :: "'ip addr_lib \<Rightarrow> desk_state \<Rightarrow> desk_op \<Rightarrow> desk_state option" where
  "desk_step al ds (DLayout w req res) = map_option fst (apply_layout ds w req res)"
| "desk_step al ds (DApprove w n fp) = Some (fst (ds_approve ds w n fp))"
| "desk_step al ds (DDismiss n fp) = Some (fst (ds_dismiss ds n fp))"
| "desk_step al ds (DDisable w n b) = Some (fst (ds_set_disabled ds w n b))"
| "desk_step al ds (DRevoke w n) = Some (fst (ds_revoke ds w n))"
| "desk_step al ds (DLook now) = map_option fst (ds_snapshot ds now)"
| "desk_step al ds (DMonitors ms) = Some (fst (watch_tick ds (ds_local_monitors ds) ms))"
| "desk_step al ds (DTuning w t) =
     Some (if ds_path ds = None then ds else ds\<lparr>ds_file := fst (write_tuning al t w (ds_file ds))\<rparr>)"
| "desk_step al ds (DAsk now n fp addr) =
     Some (case ds_tls ds of None \<Rightarrow> ds | Some t \<Rightarrow> with_trust ds (note_pending (tc_trust t) now n fp addr))"
| "desk_step al ds (DHub h) =
     Some (if session_hub_op (ds_layout ds) h then ds\<lparr>ds_hub := hub_step (ds_hub ds) h\<rparr> else ds)"

fun desk_run :: "'ip addr_lib \<Rightarrow> desk_state \<Rightarrow> desk_op list \<Rightarrow> desk_state option" where
  "desk_run al ds [] = Some ds"
| "desk_run al ds (op # ops) = Option.bind (desk_step al ds op) (\<lambda>ds. desk_run al ds ops)"

section \<open>The file holds what runs\<close>

definition trusted_of :: "desk_state \<Rightarrow> (string, fingerprint) bmap" where
  "trusted_of ds = (case ds_tls ds of None \<Rightarrow> [] | Some t \<Rightarrow> tr_trusted (tc_trust t))"

text \<open>
  The configuration the file parses to has the running layout, positions, sizes and screens turned
  off, and, with TLS, the trusted certificates.
\<close>

definition same_as_file :: "'ip config \<Rightarrow> desk_state \<Rightarrow> bool" where
  "same_as_file c ds \<longleftrightarrow> cf_layout c = ds_layout ds \<and> cf_positions c = ds_positions ds \<and> cf_sizes c = ds_sizes ds
     \<and> cf_disabled c = hb_disabled (ds_hub ds) \<and> (ds_tls ds \<noteq> None \<longrightarrow> cf_trusted c = trusted_of ds)"

definition file_mirrors :: "'ip addr_lib \<Rightarrow> desk_state \<Rightarrow> bool" where
  "file_mirrors al ds \<longleftrightarrow> (\<exists>d c. ds_file ds = Some d \<and> config_parse al d = Inr c \<and> same_as_file c ds)"

definition desk_inv :: "'ip addr_lib \<Rightarrow> desk_settings \<Rightarrow> desk_state \<Rightarrow> bool" where
  "desk_inv al start ds \<longleftrightarrow> desk_ok ds \<and> set (hb_added (ds_hub ds)) \<subseteq> set (la_screens (ds_layout ds))
     \<and> router_settings start ds = desk_settings_of ds
     \<and> bm_ok (trusted_of ds)
     \<and> (ds_path ds \<noteq> None \<longrightarrow> file_mirrors al ds)"

lemma save_cases:
  assumes "save ds (edit_file f writes) = (ds', r)"
  shows "(r = Inr False \<and> ds_path ds = None \<and> ds' = ds) \<or> (\<exists>e. r = Inl e \<and> ds' = ds)
    \<or> (\<exists>d d'. r = Inr True \<and> ds_path ds \<noteq> None \<and> ds_file ds = Some d \<and> f d = Inr d' \<and> ds' = ds\<lparr>ds_file := Some d'\<rparr>)"
proof (cases "ds_path ds")
  case (Some p)
  have keep: "ds\<lparr>ds_file := ds_file ds\<rparr> = ds" by simp
  show ?thesis
  proof (cases "ds_file ds")
    case None
    then show ?thesis using assms Some keep by (auto simp: save_def edit_file_def)
  next
    case f: (Some d)
    then show ?thesis using assms Some keep
      by (cases "f d") (auto simp: save_def edit_file_def split: if_splits)
  qed
qed (use assms in \<open>auto simp: save_def\<close>)

lemma trusted_screens:
  assumes "config_parse al d = Inr c" "bm_has (cf_trusted c) n"
  shows "n \<in> set (la_screens (cf_layout c))"
proof -
  obtain raw where raw: "config_checked al raw = Inr c"
    using assms(1) by (auto simp: config_parse_def split: option.splits)
  note f = config_checked_fields [OF raw]
  have "entry_of n (rw_screens raw) \<noteq> None"
    using read_trusted_get [OF f(3,1), of n] assms(2) by (auto simp: bm_has_iff bind_eq_Some_conv split: option.splits)
  then show ?thesis by (simp add: config_screens [OF raw] entry_of_None)
qed

section \<open>Every operation keeps the invariant\<close>

lemma bm_has_map_values [simp]: "bm_has (map (\<lambda>(n, e). (n, f n e)) m) k = bm_has m k"
  by (simp add: bm_has_iff bm_get_map_values)

lemma session_op_keeps:
  assumes "session_hub_op l op"
  shows "hb_disabled (hub_step h op) = hb_disabled h" "hb_added (hub_step h op) = hb_added h"
    and "fold settings_step (hb_events (hub_step h op)) s = fold settings_step (hb_events h) s"
    and "bm_has (hb_clients (hub_step h op)) n \<Longrightarrow> bm_has (hb_clients h) n \<or> has_screen l n"
  using assms
  by (cases op; auto simp: hub_defs Let_def bm_has_iff
      bm_get_map_values [where f = "\<lambda>n en. if Some n \<noteq> ex \<and> n \<notin> hb_disabled h then push_all msgs en else en" for ex msgs]
      split: option.splits if_splits)+

lemma desk_inv_known [simp]: "desk_inv al start (ds\<lparr>ds_known := k\<rparr>) = desk_inv al start ds"
  by (simp add: desk_inv_def router_settings_def desk_settings_of_def trusted_of_def file_mirrors_def same_as_file_def)

lemma with_trust_fields [simp]:
  "ds_hub (with_trust ds tr) = ds_hub ds" "ds_file (with_trust ds tr) = ds_file ds" "ds_path (with_trust ds tr) = ds_path ds"
  "ds_layout (with_trust ds tr) = ds_layout ds" "ds_positions (with_trust ds tr) = ds_positions ds"
  "ds_sizes (with_trust ds tr) = ds_sizes ds" "ds_local_monitors (with_trust ds tr) = ds_local_monitors ds"
  "ds_local (with_trust ds tr) = ds_local ds" "ds_tls (with_trust ds tr) = None \<longleftrightarrow> ds_tls ds = None"
  "trusted_of (with_trust ds tr) = (if ds_tls ds = None then [] else tr_trusted tr)"
  by (auto simp: with_trust_def trusted_of_def split: option.splits)

lemma trusted_of_upd [simp]:
  "trusted_of (ds\<lparr>ds_hub := h\<rparr>) = trusted_of ds" "trusted_of (ds\<lparr>ds_layout := l\<rparr>) = trusted_of ds"
  "trusted_of (ds\<lparr>ds_file := f\<rparr>) = trusted_of ds"
  by (simp_all add: trusted_of_def)

lemma desk_ok_trust [simp]: "desk_ok (with_trust ds tr) = desk_ok ds"
  by (simp add: desk_ok_def)

text \<open>A change of the trust that leaves the trusted certificates.\<close>

lemma desk_inv_trust:
  "desk_inv al start ds \<Longrightarrow> ds_tls ds \<noteq> None \<Longrightarrow> tr_trusted tr = trusted_of ds \<Longrightarrow> desk_inv al start (with_trust ds tr)"
  by (auto simp: desk_inv_def router_settings_def desk_settings_of_def file_mirrors_def same_as_file_def)

lemma with_trust_file [simp]: "(with_trust ds tr)\<lparr>ds_file := f\<rparr> = with_trust (ds\<lparr>ds_file := f\<rparr>) tr"
  by (simp add: with_trust_def)

lemma tr_list_trusted [simp]: "tr_trusted (fst (tr_list t now)) = tr_trusted t"
  by (simp add: tr_list_def Let_def)

lemma note_pending_trusted [simp]: "tr_trusted (note_pending t now n fp a) = tr_trusted t"
  by (simp add: note_pending_def Let_def)

lemma dismiss_trusted [simp]: "tr_trusted (fst (dismiss t n fp)) = tr_trusted t"
  by (simp add: dismiss_def Let_def)

lemma screens_total:
  "desk_ok ds \<Longrightarrow> \<exists>k vs. screens ds = Some (ds\<lparr>ds_known := k\<rparr>, vs)"
  using screens_spec [of ds] by (auto simp: desk_ok_def)

lemma look_inv:
  assumes "desk_inv al start ds"
  shows "\<exists>ds' v. ds_snapshot ds now = Some (ds', v) \<and> desk_inv al start ds' \<and> ds_path ds' = ds_path ds"
proof (cases "ds_tls ds")
  case None
  obtain k vs where "screens ds = Some (ds\<lparr>ds_known := k\<rparr>, vs)" using screens_total assms by (metis desk_inv_def)
  then show ?thesis using assms None by (simp add: ds_snapshot_def)
next
  case (Some t)
  obtain tr ps where l: "tr_list (tc_trust t) now = (tr, ps)" by fastforce
  have "tr_trusted tr = trusted_of ds" using tr_list_trusted [of "tc_trust t" now] Some by (simp add: l trusted_of_def)
  then have i: "desk_inv al start (with_trust ds tr)" using desk_inv_trust [OF assms] Some by simp
  obtain k vs where "screens (with_trust ds tr) = Some ((with_trust ds tr)\<lparr>ds_known := k\<rparr>, vs)"
    using screens_total i by (metis desk_inv_def)
  moreover have "ds\<lparr>ds_tls := Some (t\<lparr>tc_trust := tr\<rparr>)\<rparr> = with_trust ds tr" using Some by (simp add: with_trust_def)
  ultimately show ?thesis using i Some by (simp add: ds_snapshot_def l)
qed

lemma layout_inv:
  assumes inv: "desk_inv al start ds" and ty: "op_typed (DLayout w req res)"
  shows "\<exists>ds' r. apply_layout ds w req res = Some (ds', r) \<and> desk_inv al start ds' \<and> ds_path ds' = ds_path ds"
proof -
  have ok: "desk_ok ds" using inv by (simp add: desk_inv_def)
  obtain k r where v: "validate ds req res = Some (ds\<lparr>ds_known := k\<rparr>, r)"
    and r: "\<And>nxt sizes. r = Inr (nxt, sizes) \<Longrightarrow>
         bm_ok nxt \<and> points_i32 nxt \<and> dom (bm_get nxt) = set (la_screens (ds_layout ds))
       \<and> bm_ok sizes \<and> sizes_typed sizes \<and> (\<forall>n. bm_has sizes n \<longrightarrow> n \<in> set (la_screens (ds_layout ds)))"
    using validate_spec [OF ok, of req res] ty by auto
  show ?thesis
  proof (cases r)
    case (Inl e)
    then show ?thesis using v inv by (simp add: apply_layout_def)
  next
    case (Inr p)
    obtain nxt sizes where p: "p = (nxt, sizes)" by fastforce
    note r = r [OF Inr [unfolded p]]
    let ?d = "ds\<lparr>ds_known := k\<rparr>"
    obtain d1 x where s: "save ?d (write_layout nxt sizes w) = (d1, x)" by fastforce
    note cs = save_cases [OF s [unfolded write_layout_def]]
    let ?h = "apply_positions (apply_sizes (ds_hub ds) sizes) nxt"
    let ?n = "\<lambda>d. d\<lparr>ds_positions := nxt, ds_sizes := sizes, ds_hub := ?h\<rparr>"
    have step: "apply_layout ds w req res = Some (case x of Inl e \<Rightarrow> (d1, Inl e) | Inr sv \<Rightarrow> (?n d1, Inr sv))"
      using v s cs by (auto simp: apply_layout_def Inr p split: sum.splits)
    have "?h = hub_step (hub_step (ds_hub ds) (OSizes sizes)) (OPositions nxt)" by simp
    then have ins: "in_step ?h" using ok hub_step_in_step by (metis desk_ok_def)
    have ok': "desk_ok (?n (ds\<lparr>ds_known := k, ds_file := f\<rparr>))" for f
      using ok ins r by (auto simp: desk_ok_def hub_defs)
    have st: "router_settings start (?n (ds\<lparr>ds_known := k, ds_file := f\<rparr>)) = desk_settings_of (?n (ds\<lparr>ds_known := k, ds_file := f\<rparr>))" for f
      using inv by (simp add: desk_inv_def router_settings_def desk_settings_of_def hub_defs)
    have rest: "desk_inv al start (?n (ds\<lparr>ds_known := k, ds_file := f\<rparr>))"
      if "ds_path ds \<noteq> None \<Longrightarrow> file_mirrors al (?n (ds\<lparr>ds_known := k, ds_file := f\<rparr>))" for f
      unfolding desk_inv_def using ok' [of f] st [of f] inv that
      by (simp add: desk_inv_def hub_defs trusted_of_def)
    consider "x = Inr False" "ds_path ds = None" "d1 = ?d" | e where "x = Inl e" "d1 = ?d"
      | d d' where "x = Inr True" "ds_path ds \<noteq> None" "ds_file ds = Some d"
        "edit_screens (layout_entry nxt sizes) d = Inr d'" "d1 = ?d\<lparr>ds_file := Some d'\<rparr>"
      using cs by fastforce
    then show ?thesis
    proof cases
      case 1
      then show ?thesis using step rest [of "ds_file ds"] by simp
    next
      case 2
      then show ?thesis using step inv by simp
    next
      case 3
      obtain c where c: "config_parse al d = Inr c" "same_as_file c ds"
        using inv 3 by (auto simp: desk_inv_def file_mirrors_def)
      have "placeable (set (la_screens (cf_layout c))) nxt sizes"
        using r c(2) by (auto simp: placeable_def same_as_file_def points_i32_def sizes_typed_def bm_has_iff)
      from layout_saved [OF c(1) 3(4) this]
      have "file_mirrors al (?n (ds\<lparr>ds_known := k, ds_file := Some d'\<rparr>))"
        using c(2) by (simp add: file_mirrors_def same_as_file_def hub_defs trusted_of_def)
      then show ?thesis using step rest [of "Some d'"] 3 by simp
    qed
  qed
qed

lemma desk_ok_file [simp]: "desk_ok (ds\<lparr>ds_file := f\<rparr>) = desk_ok ds"
  by (simp add: desk_ok_def)

lemma desk_ok_hub:
  assumes "desk_ok ds" "in_step h" "\<And>n. bm_has (hb_clients h) n \<Longrightarrow> bm_has (hb_clients (ds_hub ds)) n"
  shows "desk_ok (ds\<lparr>ds_hub := h\<rparr>)"
  using assms by (simp add: desk_ok_def)

lemma disable_inv:
  assumes inv: "desk_inv al start ds"
  shows "desk_inv al start (fst (ds_set_disabled ds w n b)) \<and> ds_path (fst (ds_set_disabled ds w n b)) = ds_path ds"
proof (cases "n = ds_local ds \<or> n \<notin> set (la_screens (ds_layout ds))")
  case True
  then show ?thesis using inv by (auto simp: ds_set_disabled_def)
next
  case False
  obtain d1 x where s: "save ds (write_disabled n b w) = (d1, x)" by fastforce
  note cs = save_cases [OF s [unfolded write_disabled_def]]
  let ?h = "set_disabled (ds_hub ds) n b"
  have step: "fst (ds_set_disabled ds w n b) = (case x of Inl e \<Rightarrow> d1 | Inr sv \<Rightarrow> d1\<lparr>ds_hub := ?h\<rparr>)"
    using False s cs by (auto simp: ds_set_disabled_def split: sum.splits)
  have h: "hb_added ?h = hb_added (ds_hub ds)"
    "hb_disabled ?h = (if b then insert n (hb_disabled (ds_hub ds)) else hb_disabled (ds_hub ds) - {n})"
    "fold settings_step (hb_events ?h) start = fold settings_step (hb_events (ds_hub ds)) start"
    "hb_clients ?h = hb_clients (ds_hub ds)"
    by (auto simp: hub_defs Let_def split: option.splits)
  have "in_step ?h" using hub_step_in_step [of "ds_hub ds" "OSetDisabled n b"] inv by (simp add: desk_inv_def desk_ok_def)
  then have ok: "desk_ok (ds\<lparr>ds_hub := ?h\<rparr>)" using inv h by (intro desk_ok_hub) (auto simp: desk_inv_def)
  have rest: "desk_inv al start (ds\<lparr>ds_file := f, ds_hub := ?h\<rparr>)"
    if "ds_path ds \<noteq> None \<Longrightarrow> file_mirrors al (ds\<lparr>ds_file := f, ds_hub := ?h\<rparr>)" for f
    using inv ok h that by (simp add: desk_inv_def router_settings_def desk_settings_of_def trusted_of_def desk_ok_def)
  consider "x = Inr False" "ds_path ds = None" "d1 = ds" | e where "x = Inl e" "d1 = ds"
    | d d' where "x = Inr True" "ds_path ds \<noteq> None" "ds_file ds = Some d"
      "edit_screens (disabled_entry n b) d = Inr d'" "d1 = ds\<lparr>ds_file := Some d'\<rparr>"
    using cs by fastforce
  then show ?thesis
  proof cases
    case 1
    then show ?thesis using step rest [of "ds_file ds"] by simp
  next
    case 2
    then show ?thesis using step inv by simp
  next
    case 3
    obtain c where c: "config_parse al d = Inr c" "same_as_file c ds"
      using inv 3 by (auto simp: desk_inv_def file_mirrors_def)
    have "n \<in> set (la_screens (cf_layout c))" using c(2) False by (simp add: same_as_file_def)
    from disabled_saved [OF c(1) 3(4) this]
    have "file_mirrors al (ds\<lparr>ds_file := Some d', ds_hub := ?h\<rparr>)"
      using c(2) h by (simp add: file_mirrors_def same_as_file_def trusted_of_def)
    then show ?thesis using step rest [of "Some d'"] 3 by simp
  qed
qed

text \<open>Undoing a change of the trusted certificates.\<close>

lemma restore_undoes:
  assumes "bm_ok m" "tr_trusted tr = bm_insert n f m \<or> tr_trusted tr = bm_remove n m"
  shows "tr_trusted (restore tr n (bm_get m n)) = m"
proof (rule bm_ext)
  show "bm_ok (tr_trusted (restore tr n (bm_get m n)))" "bm_ok m"
    using assms by (auto simp: restore_def split: option.splits)
  show "bm_get (tr_trusted (restore tr n (bm_get m n))) k = bm_get m k" for k
    using assms(2) by (auto simp: restore_def split: option.splits)
qed

text \<open>The trusted certificates and the file change together.\<close>

lemma desk_inv_certified:
  assumes inv: "desk_inv al start ds" and tls: "ds_tls ds \<noteq> None" and m: "bm_ok (tr_trusted tr)"
    and wr: "\<And>d c. ds_path ds \<noteq> None \<Longrightarrow> config_parse al d = Inr c \<Longrightarrow> same_as_file c ds \<Longrightarrow> ds_file ds = Some d \<Longrightarrow>
                 \<exists>d'. f = Some d' \<and> config_parse al d' = Inr (c\<lparr>cf_trusted := tr_trusted tr\<rparr>)"
    and f: "ds_path ds = None \<Longrightarrow> f = ds_file ds"
  shows "desk_inv al start (with_trust (ds\<lparr>ds_file := f\<rparr>) tr)"
proof -
  have "file_mirrors al (with_trust (ds\<lparr>ds_file := f\<rparr>) tr)" if p: "ds_path ds \<noteq> None"
  proof -
    obtain d c where c: "config_parse al d = Inr c" "same_as_file c ds" "ds_file ds = Some d"
      using inv p unfolding desk_inv_def file_mirrors_def by blast
    from wr [OF p c] show ?thesis using c(2) by (force simp: file_mirrors_def same_as_file_def tls)
  qed
  then show ?thesis using inv m tls by (simp add: desk_inv_def router_settings_def desk_settings_of_def)
qed

lemma consider_saved:
  assumes "save ds (edit_file f w) = (d1, x)"
  obtains "x = Inr False" "ds_path ds = None" "d1 = ds"
  | e where "x = Inl e" "d1 = ds"
  | d d' where "x = Inr True" "ds_path ds \<noteq> None" "ds_file ds = Some d" "f d = Inr d'" "d1 = ds\<lparr>ds_file := Some d'\<rparr>"
  using save_cases [OF assms] by fastforce

lemma revoke_inv:
  assumes inv: "desk_inv al start ds"
  shows "desk_inv al start (fst (ds_revoke ds w n)) \<and> ds_path (fst (ds_revoke ds w n)) = ds_path ds"
proof (cases "ds_tls ds")
  case None
  then show ?thesis using inv by (simp add: ds_revoke_def)
next
  case (Some t)
  let ?m = "tr_trusted (tc_trust t)"
  obtain tr old where rv: "revoke (tc_trust t) n = (tr, old)" by fastforce
  then have tr: "tr_trusted tr = bm_remove n ?m" "old = bm_get ?m n" by (auto simp: revoke_def)
  have m: "trusted_of ds = ?m" "bm_ok ?m" using inv Some by (auto simp: desk_inv_def trusted_of_def)
  show ?thesis
  proof (cases old)
    case None
    then have "bm_remove n ?m = ?m" using tr(2) m(2) by (simp add: bm.del_absent)
    then show ?thesis
      using desk_inv_trust [OF inv, of tr] Some None tr m(1) rv by (simp add: ds_revoke_def)
  next
    case old: (Some f)
    let ?d = "with_trust ds tr"
    obtain d1 x where s: "save ?d (write_fingerprint n None w) = (d1, x)" by fastforce
    have step: "fst (ds_revoke ds w n) = (case x of Inl e \<Rightarrow> with_trust d1 (restore tr n old)
        | Inr sv \<Rightarrow> d1\<lparr>ds_hub := fst (hub_disconnect (ds_hub d1) n Reconfigured)\<rparr>)"
      using Some rv old s by (auto simp: ds_revoke_def split: sum.splits)
    have undone: "with_trust (with_trust ds tr) tr' = with_trust ds tr'" for tr' by (simp add: with_trust_def option.map_comp comp_def)
    have disc: "desk_inv al start (d\<lparr>ds_hub := fst (hub_disconnect (ds_hub d) n Reconfigured)\<rparr>)"
      if d: "desk_inv al start d" for d
    proof -
      let ?op = "OSend n (Close Reconfigured)"
      have "session_hub_op (ds_layout d) ?op" by simp
      note k = session_op_keeps [OF this, of "ds_hub d"]
      have "fst (hub_disconnect (ds_hub d) n Reconfigured) = hub_step (ds_hub d) ?op" by (simp add: hub_disconnect_def)
      moreover have "bm_has (hb_clients (hub_step (ds_hub d) ?op)) m = bm_has (hb_clients (ds_hub d)) m" for m
        by (auto simp: hub_send_def bm_has_iff split: option.splits)
      ultimately show ?thesis
        using d k hub_step_in_step [of "ds_hub d" ?op]
        by (auto simp: desk_inv_def router_settings_def desk_settings_of_def trusted_of_def file_mirrors_def same_as_file_def desk_ok_def)
    qed
    note same = desk_inv_certified [OF inv, of tr]
    show ?thesis
    proof (cases rule: consider_saved [OF s [unfolded write_fingerprint_def]])
      case 1
      have "desk_inv al start (with_trust (ds\<lparr>ds_file := ds_file ds\<rparr>) tr)"
        by (rule same) (use 1 Some tr m in auto)
      then show ?thesis using disc [of "with_trust ds tr"] 1 step by simp
    next
      case 2
      have "tr_trusted (restore tr n old) = ?m" using restore_undoes [OF m(2)] tr by simp
      then show ?thesis using desk_inv_trust [OF inv] 2 step Some m(1) by (simp add: undone)
    next
      case (3 d d')
      have "desk_inv al start (with_trust (ds\<lparr>ds_file := Some d'\<rparr>) tr)"
      proof (rule same)
        fix e c
        assume c: "config_parse al e = Inr c" "same_as_file c ds" "ds_file ds = Some e"
        then have t: "cf_trusted c = ?m" using Some m(1) by (simp add: same_as_file_def)
        then have "n \<in> set (la_screens (cf_layout c))" using trusted_screens [OF c(1)] old tr(2) by (simp add: bm_has_iff)
        from fingerprint_saved [OF c(1) _ this, of None d'] 3 c(3) t tr
        show "\<exists>d''. Some d' = Some d'' \<and> config_parse al d'' = Inr (c\<lparr>cf_trusted := tr_trusted tr\<rparr>)" by simp
      qed (use 3 Some tr m in auto)
      then show ?thesis using disc [of "with_trust (ds\<lparr>ds_file := Some d'\<rparr>) tr"] 3 step by simp
    qed
  qed
qed

lemma approve_inv:
  assumes inv: "desk_inv al start ds"
  shows "desk_inv al start (fst (ds_approve ds w n fptext)) \<and> ds_path (fst (ds_approve ds w n fptext)) = ds_path ds"
proof -
  consider "ds_tls ds = None" | t where "ds_tls ds = Some t" "fp_parse fptext = None"
    | t fp where "ds_tls ds = Some t" "fp_parse fptext = Some fp" "\<not> has_screen (ds_layout ds) n \<and> \<not> valid_screen_name n"
    | t fp tr where "ds_tls ds = Some t" "fp_parse fptext = Some fp" "has_screen (ds_layout ds) n \<or> valid_screen_name n"
        "approve (tc_trust t) n fp = (tr, False)"
    | t fp tr where "ds_tls ds = Some t" "fp_parse fptext = Some fp" "has_screen (ds_layout ds) n \<or> valid_screen_name n"
        "approve (tc_trust t) n fp = (tr, True)"
    by (metis (full_types) old.prod.exhaust option.exhaust)
  then show ?thesis
  proof cases
    case (4 t fp tr)
    then have "tr = tc_trust t" by (auto simp: approve_def split: if_splits)
    then show ?thesis
      using desk_inv_trust [OF inv, of tr] 4 by (auto simp: ds_approve_def Let_def trusted_of_def)
  next
    case (5 t fp tr)
    let ?m = "tr_trusted (tc_trust t)"
    have m: "trusted_of ds = ?m" "bm_ok ?m" using inv 5 by (auto simp: desk_inv_def trusted_of_def)
    have tr: "tr_trusted tr = bm_insert n fp ?m" using 5(4) by (auto simp: approve_def split: if_splits)
    have fp: "fp_ok fp" using fp_parse_ok 5(2) by blast
    define listed where "listed = has_screen (ds_layout ds) n"
    define ed where "ed = (if listed then edit_screens (fingerprint_entry n (Some fp)) else add_screen_edit n fp)"
    have wr: "(if listed then write_fingerprint n (Some fp) w else add_screen_to_config n fp w) = edit_file ed w"
      by (simp add: ed_def write_fingerprint_def add_screen_to_config_def)
    obtain d1 x where s: "save (with_trust ds tr) (edit_file ed w) = (d1, x)" by fastforce
    define join where "join = (\<lambda>d :: desk_state. if listed then d else d\<lparr>ds_layout := fst (add_screen (ds_layout d) n),
        ds_hub := fst (hub_add_screen (ds_hub d) n)\<rparr>)"
    have step: "fst (ds_approve ds w n fptext)
        = (case x of Inl e \<Rightarrow> with_trust d1 (restore tr n (bm_get ?m n)) | Inr sv \<Rightarrow> join d1)"
      using 5 s wr by (auto simp: ds_approve_def Let_def listed_def join_def split: sum.splits)
    have undone: "with_trust (with_trust ds tr) tr' = with_trust ds tr'" for tr' by (simp add: with_trust_def option.map_comp comp_def)
    have joined: "desk_inv al start (join (with_trust (ds\<lparr>ds_file := f\<rparr>) tr))"
      if none: "ds_path ds = None \<Longrightarrow> f = ds_file ds"
        and wr: "\<And>d c. ds_path ds \<noteq> None \<Longrightarrow> config_parse al d = Inr c \<Longrightarrow> same_as_file c ds \<Longrightarrow> ds_file ds = Some d \<Longrightarrow>
            \<exists>d'. f = Some d' \<and> ed d = Inr d'" for f
    proof (cases listed)
      case True
      have "\<exists>d'. f = Some d' \<and> config_parse al d' = Inr (c\<lparr>cf_trusted := tr_trusted tr\<rparr>)"
        if p: "ds_path ds \<noteq> None" and c: "config_parse al d = Inr c" "same_as_file c ds" "ds_file ds = Some d" for d c
      proof -
        obtain d' where d': "f = Some d'" "edit_screens (fingerprint_entry n (Some fp)) d = Inr d'"
          using wr [OF p c] True by (auto simp: ed_def)
        have "n \<in> set (la_screens (cf_layout c))" using True c(2) by (simp add: listed_def has_screen_def same_as_file_def)
        from fingerprint_saved [OF c(1) d'(2) this] fp show ?thesis
          using d'(1) tr c(2) m(1) 5(1) by (simp add: same_as_file_def)
      qed
      then show ?thesis
        using desk_inv_certified [OF inv, of tr f] none True tr m(2) 5(1) by (simp add: join_def)
    next
      case False
      let ?l = "fst (add_screen (ds_layout ds) n)" and ?h = "fst (hub_add_screen (ds_hub ds) n)"
      have new: "n \<notin> set (la_screens (ds_layout ds))" using False by (simp add: listed_def has_screen_def)
      have l: "la_screens ?l = la_screens (ds_layout ds) @ [n]" using new by (simp add: add_screen_def has_screen_def)
      have ad: "n \<notin> set (hb_added (ds_hub ds))" using new inv by (auto simp: desk_inv_def)
      have h: "hb_added ?h = hb_added (ds_hub ds) @ [n]" "hb_events ?h = hb_events (ds_hub ds) @ [ScreenAdded n]"
        "hb_clients ?h = hb_clients (ds_hub ds)" "hb_disabled ?h = hb_disabled (ds_hub ds)"
        using ad by (simp_all add: hub_add_screen_def emit_def)
      have "in_step ?h" using hub_step_in_step [of "ds_hub ds" "OAddScreen n"] inv by (simp add: desk_inv_def desk_ok_def)
      then have ok: "desk_ok (join (with_trust (ds\<lparr>ds_file := f\<rparr>) tr))"
        using inv l h new False by (auto simp: join_def desk_inv_def desk_ok_def)
      have "file_mirrors al (join (with_trust (ds\<lparr>ds_file := f\<rparr>) tr))" if p: "ds_path ds \<noteq> None"
      proof -
        obtain d c where c: "config_parse al d = Inr c" "same_as_file c ds" "ds_file ds = Some d"
          using inv p unfolding desk_inv_def file_mirrors_def by blast
        obtain d' where d': "f = Some d'" "add_screen_edit n fp d = Inr d'" using wr [OF p c] False by (auto simp: ed_def)
        have "n \<notin> set (la_screens (cf_layout c))" using new c(2) by (simp add: same_as_file_def)
        from screen_saved [OF c(1) d'(2) this fp] show ?thesis
          using d'(1) c(2) h tr m(1) 5(1) False by (simp add: file_mirrors_def same_as_file_def join_def)
      qed
      then show ?thesis
        using inv ok h l tr m 5(1) False
        by (auto simp: desk_inv_def router_settings_def desk_settings_of_def join_def)
    qed
    have path: "ds_path (join d) = ds_path d" for d by (simp add: join_def)
    show ?thesis
    proof (cases rule: consider_saved [OF s])
      case 1
      have "ds\<lparr>ds_file := ds_file ds\<rparr> = ds" by simp
      then show ?thesis using joined [of "ds_file ds"] 1 step path by simp
    next
      case (2 e)
      have "tr_trusted (restore tr n (bm_get ?m n)) = ?m" using restore_undoes [OF m(2), of tr n fp] tr by simp
      then show ?thesis using desk_inv_trust [OF inv] 2 step 5(1) m(1) by (simp add: undone)
    next
      case (3 d d')
      have "desk_inv al start (join (with_trust (ds\<lparr>ds_file := Some d'\<rparr>) tr))"
        by (rule joined) (use 3 in auto)
      then show ?thesis using 3 step path by simp
    qed
  qed (use inv in \<open>auto simp: ds_approve_def\<close>)
qed

lemma tuning_inv:
  assumes inv: "desk_inv al start ds" and al: "al_ok al" and t: "tuning_typed t" and p: "ds_path ds \<noteq> None"
  shows "desk_inv al start (ds\<lparr>ds_file := fst (write_tuning al t w (ds_file ds))\<rparr>)"
proof -
  obtain d c where c: "config_parse al d = Inr c" "same_as_file c ds" "ds_file ds = Some d"
    using inv p unfolding desk_inv_def file_mirrors_def by blast
  obtain f e where we: "write_tuning al t w (Some d) = (f, e)" by fastforce
  have "\<exists>d' c'. f = Some d' \<and> config_parse al d' = Inr c' \<and> same_as_file c' ds"
  proof (cases e)
    case None
    then obtain d' where "f = Some d'"
      using we by (auto simp: write_tuning_def edit_file_def split: option.splits sum.splits if_splits)
    then have "config_parse al d' = Inr (tuned t c)" using write_tuning_parse [OF c(1) al t] we None by simp
    then show ?thesis using c(2) \<open>f = Some d'\<close> by (simp add: same_as_file_def tuned_def)
  next
    case (Some e')
    then have "f = Some d"
      using we by (auto simp: write_tuning_def edit_file_def split: option.splits sum.splits if_splits)
    then show ?thesis using c by auto
  qed
  then have "file_mirrors al (ds\<lparr>ds_file := f\<rparr>)" by (auto simp: file_mirrors_def same_as_file_def)
  then show ?thesis
    using inv c(3) we by (simp add: desk_inv_def router_settings_def desk_settings_of_def)
qed

lemma hub_op_inv:
  assumes inv: "desk_inv al start ds" and op: "session_hub_op (ds_layout ds) h"
  shows "desk_inv al start (ds\<lparr>ds_hub := hub_step (ds_hub ds) h\<rparr>)"
proof -
  note k = session_op_keeps [OF op, of "ds_hub ds"]
  have "desk_ok (ds\<lparr>ds_hub := hub_step (ds_hub ds) h\<rparr>)"
    using inv k(4) hub_step_in_step [of "ds_hub ds" h] by (fastforce simp: desk_inv_def desk_ok_def has_screen_def)
  then show ?thesis
    using inv k(1-3) by (auto simp: desk_inv_def router_settings_def desk_settings_of_def file_mirrors_def same_as_file_def)
qed

lemma watch_inv:
  assumes inv: "desk_inv al start ds"
  shows "desk_inv al start (fst (watch_tick ds cur ms))"
proof (cases "\<exists>now. ms = Some now \<and> now \<noteq> [] \<and> now \<noteq> cur")
  case True
  then obtain now where now: "ms = Some now" "now \<noteq> []" "now \<noteq> cur" by auto
  let ?h = "apply_local_monitors (ds_hub ds) now"
  have h: "hb_clients ?h = hb_clients (ds_hub ds)" "hb_disabled ?h = hb_disabled (ds_hub ds)" "hb_added ?h = hb_added (ds_hub ds)"
    "hb_events ?h = hb_events (ds_hub ds) @ [LocalMonitors now]"
    by (simp_all add: apply_local_monitors_def emit_def)
  have "in_step ?h" using hub_step_in_step [of "ds_hub ds" "OLocalMonitors now"] inv by (simp add: desk_inv_def desk_ok_def)
  then show ?thesis
    using inv h now
    by (auto simp: watch_tick_def ds_set_local_monitors_def desk_inv_def desk_ok_def router_settings_def desk_settings_of_def
        trusted_of_def file_mirrors_def same_as_file_def)
qed (use inv in \<open>auto simp: watch_tick_def split: option.splits\<close>)

lemma desk_step_inv:
  assumes inv: "desk_inv al start ds" and al: "al_ok al" and ty: "op_typed op"
  shows "\<exists>ds'. desk_step al ds op = Some ds' \<and> desk_inv al start ds' \<and> ds_path ds' = ds_path ds"
proof (cases op)
  case (DLayout w req res)
  then show ?thesis using layout_inv [OF inv] ty by fastforce
next
  case (DLook now)
  then show ?thesis using look_inv [OF inv, of now] by auto
next
  case (DDismiss n fp)
  have "desk_inv al start (fst (ds_dismiss ds n fp)) \<and> ds_path (fst (ds_dismiss ds n fp)) = ds_path ds"
    using inv desk_inv_trust [OF inv] by (auto simp: ds_dismiss_def trusted_of_def split: option.splits)
  then show ?thesis using DDismiss by simp
next
  case (DMonitors ms)
  have "ds_path (fst (watch_tick ds (ds_local_monitors ds) ms)) = ds_path ds"
    by (simp add: watch_tick_def ds_set_local_monitors_def split: option.splits)
  then show ?thesis using DMonitors watch_inv [OF inv] by simp
next
  case (DTuning w t)
  then show ?thesis using tuning_inv [OF inv al] ty inv by simp
next
  case (DAsk now n fp a)
  then show ?thesis using inv desk_inv_trust [OF inv] by (auto simp: trusted_of_def split: option.splits)
qed (use inv approve_inv [OF inv] disable_inv [OF inv] revoke_inv [OF inv] hub_op_inv [OF inv] in auto)

lemma desk_run_inv:
  "desk_inv al start ds \<Longrightarrow> al_ok al \<Longrightarrow> list_all op_typed ops \<Longrightarrow>
     \<exists>ds'. desk_run al ds ops = Some ds' \<and> desk_inv al start ds' \<and> ds_path ds' = ds_path ds"
proof (induction ops arbitrary: ds)
  case (Cons op ops)
  then obtain d where d: "desk_step al ds op = Some d" "desk_inv al start d" "ds_path d = ds_path ds"
    using desk_step_inv [OF Cons.prems(1,2), of op] by auto
  then show ?case using Cons.IH [OF d(2)] Cons.prems by auto
qed simp

section \<open>The server as it starts\<close>

text \<open>
  From a loaded configuration: the hub with its screens turned off, the trust with its certificates,
  the desk with its layout, positions and sizes; the router starts with the same.
\<close>

definition desk_start :: "'ip config \<Rightarrow> document \<Rightarrow> rect list \<Rightarrow> fingerprint \<Rightarrow> desk_state" where
  "desk_start c d ms own =
     ds_set_sizes
       (ds_new (load_disabled hub_new (cf_disabled c)) (cf_path c) (Some d) (cf_local_screen c) ms (cf_layout c)
          (cf_positions c) (if cf_tls c then Some \<lparr>tc_fingerprint = own, tc_trust = tr_new (cf_trusted c)\<rparr> else None))
       (cf_sizes c)"

definition settings_start :: "'ip config \<Rightarrow> rect list \<Rightarrow> desk_settings" where
  "settings_start c ms = \<lparr>se_positions = cf_positions c, se_sizes = cf_sizes c, se_layout = cf_layout c, se_monitors = ms\<rparr>"

definition entry_i32 :: "screen_entry \<Rightarrow> bool" where
  "entry_i32 e \<longleftrightarrow> is_i32 (unwrap_or 0 (sn_x e)) \<and> is_i32 (unwrap_or 0 (sn_y e))
     \<and> (\<forall>w. sn_w e = Some w \<longrightarrow> is_i32 w) \<and> (\<forall>h. sn_h e = Some h \<longrightarrow> is_i32 h)"

lemma de_opt_i32: "de_opt de_i32 k t = Some x \<Longrightarrow> is_i32 (unwrap_or 0 x) \<and> (\<forall>w. x = Some w \<longrightarrow> is_i32 w)"
  by (cases "map_of t k") (auto simp: de_opt_def de_i32_def unwrap_or_def split: toml.splits if_splits)

lemma de_screen_i32: "de_screen t = Some e \<Longrightarrow> entry_i32 e"
  unfolding de_screen_fields entry_i32_def using de_opt_i32 by metis

lemma those_all:
  "those (map f xs) = Some ys \<Longrightarrow> (\<And>x y. f x = Some y \<Longrightarrow> P y) \<Longrightarrow> \<forall>y \<in> set ys. P y"
  by (induction xs arbitrary: ys) (auto split: option.splits)

lemma de_config_i32:
  assumes "de_config d = Some raw"
  shows "\<forall>e \<in> set (rw_screens raw). entry_i32 e"
proof -
  have "\<forall>e \<in> set ss. entry_i32 e" if "de_screens v = Some ss" for v ss
  proof -
    have "\<exists>ts. those (map de_screen ts) = Some ss"
      using that by (cases v) (auto simp: de_screens_def bind_eq_Some_conv)
    then show ?thesis using those_all [of de_screen _ ss entry_i32] de_screen_i32 by blast
  qed
  then show ?thesis
    using de_config_sections(3) [OF assms] by (auto simp: de_opt_def split: option.splits)
qed

lemma config_typed:
  assumes "config_parse al d = Inr c"
  shows "bm_ok (cf_positions c)" "points_i32 (cf_positions c)" "bm_ok (cf_sizes c)" "sizes_typed (cf_sizes c)"
    "bm_has (cf_sizes c) n \<Longrightarrow> n \<in> set (la_screens (cf_layout c))" "distinct (la_screens (cf_layout c))"
    "bm_ok (cf_trusted c)" "cf_local_screen c \<in> set (la_screens (cf_layout c))"
proof -
  obtain raw where raw: "de_config d = Some raw" "config_checked al raw = Inr c"
    using assms by (auto simp: config_parse_def split: option.splits)
  note f = config_checked_fields [OF raw(2)] and scr = config_screens [OF raw(2)] and ty = de_config_i32 [OF raw(1)]
  show "bm_ok (cf_positions c)" "bm_ok (cf_sizes c)" "distinct (la_screens (cf_layout c))" "bm_ok (cf_trusted c)"
    using f scr read_trusted_ok [OF f(3)] by simp_all
  show "cf_local_screen c \<in> set (la_screens (cf_layout c))"
    using f(2,8) scr by (cases "rw_screens raw") (auto simp: local_screen_def split: option.splits if_splits)
  have pos: "bm_get (cf_positions c) n = (case entry_of n (rw_screens raw) of None \<Rightarrow> None | Some e \<Rightarrow> map_of (entry_position e) n)" for n
    unfolding f(5) by (rule entries_get [OF keyed_position f(1)])
  have sz: "bm_get (cf_sizes c) n = (case entry_of n (rw_screens raw) of None \<Rightarrow> None | Some e \<Rightarrow> map_of (entry_size e) n)" for n
    unfolding f(6) by (rule entries_get [OF keyed_size f(1)])
  show "points_i32 (cf_positions c)"
    unfolding points_i32_def pos using ty
    by (auto simp: entry_position_def entry_i32_def dest!: entry_of_SomeD split: option.splits if_splits)
  show "sizes_typed (cf_sizes c)"
    unfolding sizes_typed_def sz using ty
    by (auto simp: entry_size_def entry_i32_def dest!: entry_of_SomeD split: option.splits if_splits)
  show "bm_has (cf_sizes c) n \<Longrightarrow> n \<in> set (la_screens (cf_layout c))"
    unfolding bm_has_iff sz scr by (auto dest: entry_of_SomeD split: option.splits)
qed

lemma desk_start_inv:
  assumes c: "config_parse al d = Inr c0" and c0: "c = c0\<lparr>cf_path := path\<rparr>"
  shows "desk_inv al (settings_start c ms) (desk_start c d ms own)"
proof -
  let ?ds = "desk_start c d ms own"
  have f: "ds_positions ?ds = cf_positions c0" "ds_sizes ?ds = cf_sizes c0" "ds_layout ?ds = cf_layout c0"
    "ds_hub ?ds = load_disabled hub_new (cf_disabled c0)" "ds_file ?ds = Some d" "ds_local_monitors ?ds = ms"
    "trusted_of ?ds = (if cf_tls c0 then cf_trusted c0 else [])" "ds_local ?ds = cf_local_screen c0" "ds_tls ?ds \<noteq> None \<longleftrightarrow> cf_tls c0"
    by (simp_all add: desk_start_def ds_set_sizes_def ds_new_def c0 trusted_of_def tr_new_def)
  have ok: "desk_ok ?ds"
    unfolding desk_ok_def f using config_typed [OF c] hub_new_in_step by (simp add: load_disabled_def hub_new_def)
  have "same_as_file c0 ?ds" unfolding same_as_file_def f by (simp add: load_disabled_def)
  then have "file_mirrors al ?ds" using c by (auto simp: file_mirrors_def f)
  then show ?thesis
    using ok config_typed(7) [OF c]
    unfolding desk_inv_def router_settings_def desk_settings_of_def f settings_start_def
    by (simp add: c0 load_disabled_def hub_new_def)
qed

section \<open>Whose desk it is never changes, nor does the server start or stop using TLS\<close>

definition tls_on :: "desk_state \<Rightarrow> bool" where
  "tls_on ds \<longleftrightarrow> ds_tls ds \<noteq> None"

lemma tls_on_upd [simp]:
  "tls_on (with_trust ds tr) = tls_on ds" "tls_on (ds\<lparr>ds_hub := h\<rparr>) = tls_on ds" "tls_on (ds\<lparr>ds_file := f\<rparr>) = tls_on ds"
  "tls_on (ds\<lparr>ds_layout := l\<rparr>) = tls_on ds" "tls_on (ds\<lparr>ds_positions := ps\<rparr>) = tls_on ds"
  "tls_on (ds\<lparr>ds_sizes := ss\<rparr>) = tls_on ds" "tls_on (ds\<lparr>ds_known := k\<rparr>) = tls_on ds"
  "tls_on (ds\<lparr>ds_local_monitors := ms\<rparr>) = tls_on ds" "tls_on (ds\<lparr>ds_tls := Some x\<rparr>)"
  by (simp_all add: tls_on_def)

lemma save_host: "save ds wr = (ds', r) \<Longrightarrow> ds_local ds' = ds_local ds \<and> (tls_on ds' \<longleftrightarrow> tls_on ds)"
  by (auto simp: save_def split: option.splits prod.splits)

lemma all_monitors_host: "all_monitors ds live ns = (ds', mons) \<Longrightarrow> ds_local ds' = ds_local ds \<and> (tls_on ds' \<longleftrightarrow> tls_on ds)"
  using all_monitors_spec [of ds live ns ds' mons] by auto

lemma screens_host: "screens ds = Some (ds', vs) \<Longrightarrow> ds_local ds' = ds_local ds \<and> (tls_on ds' \<longleftrightarrow> tls_on ds)"
  by (auto simp: screens_def Let_def bind_eq_Some_conv dest: all_monitors_host split: prod.splits)

lemma validate_host:
  assumes "validate ds req res = Some (ds', r)"
  shows "ds_local ds' = ds_local ds \<and> (tls_on ds' \<longleftrightarrow> tls_on ds)"
proof -
  obtain d vs where d: "screens ds = Some (d, vs)"
    using assms by (auto simp: validate_def bind_eq_Some_conv)
  have "ds' = d"
  proof (cases "place_requested (bm_of_list (map (\<lambda>v. (vw_name v, vw_origin v)) vs)) req")
    case (Inl e)
    then show ?thesis using assms d by (simp add: validate_def)
  next
    case (Inr nxt)
    then show ?thesis using assms d
      by (cases "resize_requested vs (ds_sizes d) res") (auto simp: validate_def bind_eq_Some_conv)
  qed
  then show ?thesis using screens_host [OF d] by simp
qed

lemma apply_layout_host:
  assumes "apply_layout ds w req res = Some (ds', r)"
  shows "ds_local ds' = ds_local ds \<and> (tls_on ds' \<longleftrightarrow> tls_on ds)"
proof -
  obtain d v where d: "validate ds req res = Some (d, v)"
    using assms by (auto simp: apply_layout_def bind_eq_Some_conv)
  show ?thesis
  proof (cases v)
    case (Inl e)
    then show ?thesis using assms d validate_host [OF d] by (simp add: apply_layout_def)
  next
    case (Inr p)
    obtain d1 x where s: "save d (write_layout (fst p) (snd p) w) = (d1, x)" by fastforce
    then show ?thesis using assms d validate_host [OF d] save_host [OF s] Inr
      by (cases p; cases x) (auto simp: apply_layout_def)
  qed
qed

lemma desk_step_host:
  assumes "desk_step al ds op = Some ds'"
  shows "ds_local ds' = ds_local ds \<and> (tls_on ds' \<longleftrightarrow> tls_on ds)"
proof (cases "ds_tls ds")
  case None
  then show ?thesis
    using assms
    by (cases op) (auto simp: ds_approve_def ds_dismiss_def ds_set_disabled_def ds_revoke_def watch_tick_def
        ds_set_local_monitors_def ds_snapshot_def bind_eq_Some_conv
        dest!: apply_layout_host save_host screens_host split: option.splits prod.splits sum.splits if_splits)
next
  case (Some t)
  then have "tls_on ds" by (simp add: tls_on_def)
  then show ?thesis
    using assms Some
    by (cases op) (auto simp: ds_approve_def ds_dismiss_def ds_set_disabled_def ds_revoke_def watch_tick_def Let_def
        ds_set_local_monitors_def ds_snapshot_def bind_eq_Some_conv
        dest!: apply_layout_host save_host screens_host split: option.splits prod.splits bool.splits sum.splits if_splits)
qed

lemma desk_run_host: "desk_run al ds ops = Some ds' \<Longrightarrow> ds_local ds' = ds_local ds \<and> (tls_on ds' \<longleftrightarrow> tls_on ds)"
  by (induction ops arbitrary: ds) (auto simp: bind_eq_Some_conv dest: desk_step_host)

end
