(* ===== verification/Admin_Spec.thy ===== *)
theory Admin_Spec
  imports Admin_Run Hub_Spec
begin

text \<open>
  What the front end can rely on: what it changed is in the file a restart reads, settings written to
  the file are the settings read from it, and a layout it was allowed to save leaves no point of the
  router's desk to two machines.
\<close>

section \<open>The settings of a running router\<close>

definition core_settings :: "core \<Rightarrow> desk_settings" where
  "core_settings c = \<lparr>se_positions = c_positions c, se_sizes = c_sizes c, se_layout = c_layout c,
     se_monitors = c_local_monitors c\<rparr>"

text \<open>The origins are those of the settings and of the clients it knows.\<close>

definition placed :: "core \<Rightarrow> bool" where
  "placed c \<longleftrightarrow> effective_origins (la_screens (c_layout c)) (c_local c) (c_layout c) (c_positions c) (size_of c)
     = Some (c_origins c)"

lemma refresh_placed:
  assumes "refresh_origins c = Some c'"
  shows "placed c' \<and> core_settings c' = core_settings c \<and> c_local c' = c_local c"
proof -
  obtain og where og: "effective_origins (la_screens (c_layout c)) (c_local c) (c_layout c) (c_positions c) (size_of c) = Some og"
    "c' = c\<lparr>c_origins := og\<rparr>"
    using assms by (auto simp: refresh_origins_def bind_eq_Some_conv)
  have "size_of c' = size_of c" by (rule ext) (simp add: size_of_def og(2))
  then show ?thesis using og by (simp add: placed_def core_settings_def)
qed

lemma moved_placed:
  assumes "moved c c'" shows "placed c' = placed c" "core_settings c' = core_settings c"
proof -
  have "size_of c' = size_of c"
    by (rule ext) (simp add: size_of_def moved_monitors [OF assms] movedD [OF assms])
  then show "placed c' = placed c" "core_settings c' = core_settings c"
    by (simp_all add: placed_def core_settings_def movedD [OF assms])
qed

lemma core_step_settings:
  assumes "core_inv local c" "core_step c e = Some (c', as)"
  shows "core_settings c' = (case e of HubEv h \<Rightarrow> settings_step h (core_settings c) | Ev _ _ \<Rightarrow> core_settings c)
    \<and> (placed c \<longrightarrow> placed c')"
proof (cases e)
  case (Ev ev now)
  then have "handle c ev now = Some (c', as)" using assms(2) by simp
  then have "turn c as c'" using handle_SomeD(1) assms(1) by (auto simp: core_inv_def)
  then show ?thesis using moved_placed [OF turn_moved] Ev by simp
next
  case (HubEv h)
  show ?thesis
  proof (cases h)
    case (Disconnected n)
    have cd: "client_disconnected c n = Some (c', as)" using assms(2) HubEv Disconnected by simp
    then obtain d where d: "refresh_origins (c\<lparr>c_connected := bm_remove n (c_connected c)\<rparr>) = Some d"
      by (auto simp: client_disconnected_def bind_eq_Some_conv)
    have "moved d c'"
      using cd d by (cases "c_state d") (auto simp: client_disconnected_def Let_def bind_eq_Some_conv split: if_splits)
    note d = d this
    then show ?thesis using refresh_placed [OF d(1)] moved_placed [OF d(2)] HubEv Disconnected by (simp add: core_settings_def)
  next
    case (ScreenAdded n)
    obtain l b where l: "add_screen (c_layout c) n = (l, b)" by fastforce
    show ?thesis
    proof (cases b)
      case True
      then have "refresh_origins (c\<lparr>c_layout := l\<rparr>) = Some c'"
        using assms(2) HubEv ScreenAdded l by (auto simp: core_add_screen_def)
      then show ?thesis using refresh_placed HubEv ScreenAdded l by (fastforce simp: core_settings_def)
    next
      case False
      then have "c' = c" "l = c_layout c"
        using assms(2) HubEv ScreenAdded l by (auto simp: core_add_screen_def add_screen_def split: if_splits)
      then show ?thesis using HubEv ScreenAdded l by (simp add: core_settings_def)
    qed
  next
    case (LocalMonitors ms)
    show ?thesis
    proof (cases "ms = [] \<or> ms = c_local_monitors c")
      case True
      then show ?thesis using assms(2) HubEv LocalMonitors by (auto simp: set_local_monitors_def core_settings_def)
    next
      case False
      obtain q where "refresh_origins q = Some c'" "core_settings q = (core_settings c)\<lparr>se_monitors := ms\<rparr>"
        using assms(2) HubEv LocalMonitors False
        by (cases "c_last_local c") (auto simp: set_local_monitors_def core_settings_def Let_def split: if_splits)
      with refresh_placed [OF this(1)] show ?thesis using False HubEv LocalMonitors by simp
    qed
  qed (use assms(2) HubEv in \<open>auto simp: client_connected_def set_positions_def set_sizes_def core_settings_def
      dest!: refresh_placed\<close>)
qed

lemma run_settings:
  "core_inv local c \<Longrightarrow> list_all (good_event local) es \<Longrightarrow> run_events core_step c es = Some (c', as) \<Longrightarrow>
   core_settings c' = fold settings_step (hub_part es) (core_settings c) \<and> (placed c \<longrightarrow> placed c')"
proof (induction es arbitrary: c as)
  case (Cons e es)
  obtain c1 a1 a2 where s: "core_step c e = Some (c1, a1)" "run_events core_step c1 es = Some (c', a2)"
    using Cons.prems(3) by (auto split: option.splits)
  have i: "core_inv local c1" using router.step_inv Cons.prems(1,2) s(1) by auto
  have "core_settings c' = fold settings_step (hub_part es) (core_settings c1) \<and> (placed c1 \<longrightarrow> placed c')"
    using Cons.IH [OF i _ s(2)] Cons.prems(2) by simp
  then show ?case using core_step_settings [OF Cons.prems(1) s(1)] by (cases e) simp_all
qed simp

section \<open>A saved layout leaves the machines apart\<close>

text \<open>No point of the desk belongs to monitors of two machines the router knows.\<close>

definition router_apart :: "core \<Rightarrow> bool" where
  "router_apart c \<longleftrightarrow> (\<forall>a b x y p. a \<noteq> b \<and> (a = c_local c \<or> bm_has (c_connected c) a) \<and> (b = c_local c \<or> bm_has (c_connected c) b)
     \<and> x \<in> set (monitors_of c a) \<and> y \<in> set (monitors_of c b)
     \<longrightarrow> \<not> (rect_contains (desk_rect (frame_of c a) x) p \<and> rect_contains (desk_rect (frame_of c b) y) p))"

lemma apart_router_apart:
  assumes ap: "apart (ds_positions ds) (ds_sizes ds) (machine_monitors ds) (machines ds)"
    and ok: "desk_ok ds" and dm: "dom (bm_get (ds_positions ds)) = set (la_screens (ds_layout ds))"
    and s: "core_settings c = desk_settings_of ds" and pl: "placed c" and loc: "c_local c = ds_local ds"
    and con: "c_connected c = enabled_view (ds_hub ds)"
  shows "router_apart c"
proof -
  have f: "c_positions c = ds_positions ds" "c_sizes c = ds_sizes ds" "c_layout c = ds_layout ds"
    "c_local_monitors c = ds_local_monitors ds"
    using s by (simp_all add: core_settings_def desk_settings_of_def)
  have known: "a \<in> machines ds \<and> monitors_of c a = machine_monitors ds a"
    if a: "a = c_local c \<or> bm_has (c_connected c) a" for a
  proof (cases "a = c_local c")
    case True
    then show ?thesis using ok by (simp add: machines_def desk_ok_def loc monitors_of_def machine_monitors_def f)
  next
    case False
    then have "bm_get (enabled_view (ds_hub ds)) a \<noteq> None" using a by (simp add: con bm_has_iff)
    then show ?thesis using False ok
      by (auto simp: enabled_view_get machines_def desk_ok_def bm_has_iff monitors_of_def machine_monitors_def con loc split: if_splits)
  qed
  have frame: "frame_of c a = frame_at (ds_positions ds) (ds_sizes ds) a (machine_monitors ds a)" if a: "a \<in> machines ds" "monitors_of c a = machine_monitors ds a" for a
  proof -
    have "a \<in> set (la_screens (ds_layout ds))" using a(1) by (simp add: machines_def)
    then obtain p where p: "bm_get (ds_positions ds) a = Some p" using dm by blast
    have "bm_ok (c_positions c)" using ok by (simp add: f desk_ok_def)
    then have "bm_get (c_origins c) a = Some p"
      using effective_origins_spec [of "c_positions c" "la_screens (c_layout c)" "c_local c" "c_layout c" "size_of c"]
        pl p \<open>a \<in> set (la_screens (ds_layout ds))\<close>
      by (auto simp: placed_def f)
    then show ?thesis using p by (simp add: frame_of_def origin_of_def frame_at_def a(2) f)
  qed
  show ?thesis
    unfolding router_apart_def
  proof (intro allI impI)
    fix a b x y p
    assume "a \<noteq> b \<and> (a = c_local c \<or> bm_has (c_connected c) a) \<and> (b = c_local c \<or> bm_has (c_connected c) b)
       \<and> x \<in> set (monitors_of c a) \<and> y \<in> set (monitors_of c b)"
    then show "\<not> (rect_contains (desk_rect (frame_of c a) x) p \<and> rect_contains (desk_rect (frame_of c b) y) p)"
      using known [of a] known [of b] frame [of a] frame [of b] ap unfolding apart_def by auto
  qed
qed

lemma apply_layout_apart:
  assumes inv: "desk_inv al start ds" and ty: "op_typed (DLayout w req res)"
    and ap: "apply_layout ds w req res = Some (ds', Inr sv)"
  shows "apart (ds_positions ds') (ds_sizes ds') (machine_monitors ds') (machines ds')
    \<and> dom (bm_get (ds_positions ds')) = set (la_screens (ds_layout ds'))"
proof -
  have ok: "desk_ok ds" using inv by (simp add: desk_inv_def)
  obtain k r where v: "validate ds req res = Some (ds\<lparr>ds_known := k\<rparr>, r)"
    and r: "\<And>nxt sizes. r = Inr (nxt, sizes) \<Longrightarrow> dom (bm_get nxt) = set (la_screens (ds_layout ds))
       \<and> apart nxt sizes (machine_monitors ds) (machines ds)"
    using validate_spec [OF ok, of req res] ty by auto
  obtain p where p: "r = Inr p" using ap v by (cases r) (auto simp: apply_layout_def)
  obtain d1 x where s: "save (ds\<lparr>ds_known := k\<rparr>) (write_layout (fst p) (snd p) w) = (d1, x)" by fastforce
  have d1: "ds_layout d1 = ds_layout ds" "ds_local d1 = ds_local ds" "ds_local_monitors d1 = ds_local_monitors ds"
    "ds_hub d1 = ds_hub ds"
    using s by (auto simp: save_def split: option.splits prod.splits)
  have "ds' = d1\<lparr>ds_positions := fst p, ds_sizes := snd p,
      ds_hub := apply_positions (apply_sizes (ds_hub d1) (snd p)) (fst p)\<rparr>"
    using ap v p s by (cases x; cases p) (auto simp: apply_layout_def)
  moreover have "machine_monitors ds' = machine_monitors ds" "machines ds' = machines ds"
    using calculation d1 by (auto simp: machine_monitors_def machines_def apply_positions_def apply_sizes_def emit_def fun_eq_iff)
  ultimately show ?thesis using r [of "fst p" "snd p"] p d1 by simp
qed

section \<open>A text form of addresses\<close>

text \<open>
  IPv4 socket addresses, an instance of the parameter \<open>al\<close>: four numbers and a port, printed and read
  in decimal.
\<close>

type_synonym ipv4 = "8 word \<times> 8 word \<times> 8 word \<times> 8 word"

definition v4_show :: "ipv4 sock_addr \<Rightarrow> string" where
  "v4_show a = (case a of ((p, q, r, s), port) \<Rightarrow>
     join (CHR ''.'') (map (\<lambda>w. show_nat (unat w)) [p, q, r, s]) @ CHR '':'' # show_nat port)"

definition v4_octet :: "string \<Rightarrow> 8 word option" where
  "v4_octet s = map_option of_nat (parse_nat 255 s)"

definition v4_parse :: "string \<Rightarrow> ipv4 sock_addr option" where
  "v4_parse text =
     (case split_on (CHR '':'') text of
        [host, port] \<Rightarrow>
          (case split_on (CHR ''.'') host of
             [p, q, r, s] \<Rightarrow> do {
               p \<leftarrow> v4_octet p; q \<leftarrow> v4_octet q; r \<leftarrow> v4_octet r; s \<leftarrow> v4_octet s;
               port \<leftarrow> parse_nat 65535 port;
               Some ((p, q, r, s), port)
             }
           | _ \<Rightarrow> None)
      | _ \<Rightarrow> None)"

definition v4_lib :: "ipv4 addr_lib" where
  "v4_lib = \<lparr>al_parse = v4_parse, al_show = v4_show, al_any = (0, 0, 0, 0)\<rparr>"

lemma split_plain: "c \<notin> set x \<Longrightarrow> split_on c (x @ c # y) = x # split_on c y"
  by (induction x) auto

lemma octet_show: "v4_octet (show_nat (unat (w :: 8 word))) = Some w"
proof -
  have "unat w < 2 ^ 8" using unsigned_less [of w] by simp
  then show ?thesis by (simp add: v4_octet_def parse_show_nat)
qed

lemma v4_ok: "al_ok v4_lib"
  unfolding al_ok_def v4_lib_def addr_lib.simps
proof (intro allI impI)
  fix ip :: ipv4 and port :: nat
  assume port: "port < 2 ^ 16"
  obtain p q r s where ip: "ip = (p, q, r, s)" by (cases ip) auto
  let ?h = "join (CHR ''.'') (map (\<lambda>w. show_nat (unat w)) [p, q, r, s])"
  have "CHR '':'' \<notin> set ?h" by (simp add: show_nat_plain)
  from split_plain [OF this, of "show_nat port"]
  have "split_on (CHR '':'') (v4_show (ip, port)) = [?h, show_nat port]"
    by (simp only: v4_show_def ip prod.case split_on_single [OF show_nat_plain(2)])
  moreover have "split_on (CHR ''.'') ?h = map (\<lambda>w. show_nat (unat w)) [p, q, r, s]"
    by (simp add: split_plain split_on_single show_nat_plain)
  ultimately show "v4_parse (v4_show (ip, port)) = Some (ip, port)"
    using port by (simp add: v4_parse_def octet_show parse_show_nat ip)
qed

section \<open>Properties\<close>

text \<open>
  C10: Whatever a front end, the clients' sessions, the settings window and the monitors do to a server
  started from a configuration file, and whichever of the writes fail, no operation panics, and the
  file afterwards parses to a configuration with exactly the running layout, positions, sizes, screens
  turned off and, with TLS, trusted certificates: a restart resumes where it was.
\<close>

theorem running_desk_is_saved:
  assumes "config_parse al d = Inr c" "al_ok al" "list_all op_typed ops"
  shows "\<exists>ds d' c'. desk_run al (desk_start (c\<lparr>cf_path := Some path\<rparr>) d ms own) ops = Some ds
    \<and> ds_file ds = Some d' \<and> config_parse al d' = Inr c'
    \<and> cf_layout c' = ds_layout ds \<and> cf_positions c' = ds_positions ds \<and> cf_sizes c' = ds_sizes ds
    \<and> cf_disabled c' = hb_disabled (ds_hub ds) \<and> (cf_tls c \<longrightarrow> cf_trusted c' = trusted_of ds)"
proof -
  let ?s = "desk_start (c\<lparr>cf_path := Some path\<rparr>) d ms own"
  obtain ds where ds: "desk_run al ?s ops = Some ds" "desk_inv al (settings_start (c\<lparr>cf_path := Some path\<rparr>) ms) ds"
    "ds_path ds = ds_path ?s"
    using desk_run_inv [OF desk_start_inv [OF assms(1) refl] assms(2,3)] by blast
  have "ds_path ds \<noteq> None" using ds(3) by (simp add: desk_start_def ds_set_sizes_def ds_new_def)
  moreover have "ds_tls ds = None \<longleftrightarrow> ds_tls ?s = None" using desk_run_host [OF ds(1)] by (auto simp: tls_on_def)
  moreover have "ds_tls ?s = None \<longleftrightarrow> \<not> cf_tls c" by (simp add: desk_start_def ds_set_sizes_def ds_new_def)
  ultimately show ?thesis using ds(1,2) unfolding desk_inv_def file_mirrors_def same_as_file_def by blast
qed

text \<open>
  C12: Settings that pass their check are written whenever the file can be and its sections are tables
  under headers, and reading the file back gives exactly those settings, everything else as it was;
  settings that do not pass write nothing.
\<close>

theorem saved_settings_read_back:
  assumes "config_parse al d = Inr c" "al_ok al" "tuning_typed t" "headed d"
  shows "if tuning_check t = None
    then (\<exists>d'. write_tuning al t True (Some d) = (Some d', None) \<and> config_parse al d' = Inr (tuned t c)
           \<and> tuning_of (tuned t c) = t)
    else \<forall>writes. \<exists>e. write_tuning al t writes (Some d) = (Some d, Some (SCheck e))"
proof (cases "tuning_check t")
  case None
  obtain d' where "tuning_edit al t d = Inr d'" using tuning_edit_runs [of al t d] assms(4) by blast
  then have "write_tuning al t True (Some d) = (Some d', None)" using None by (simp add: write_tuning_def edit_file_def)
  then show ?thesis using write_tuning_parse [OF assms(1-3)] None by simp
qed (simp add: write_tuning_def)

text \<open>
  C11: Take a server and a router started from the same configuration, any operations on the desk, and
  then a layout the front end is allowed to apply. A router that has handled every event the hub sent,
  mixed with the cursor's own, has no point of its desk on monitors of two machines, connected
  clients or its own: a cursor there is on one machine.
\<close>

theorem applied_layout_leaves_machines_apart:
  assumes c: "config_parse al d = Inr c" "al_ok al" "list_all op_typed ops" "op_typed (DLayout w req res)"
    and run: "desk_run al (desk_start (c\<lparr>cf_path := path\<rparr>) d ms own) ops = Some ds"
    and ap: "apply_layout ds w req res = Some (ds', Inr saved)"
    and core: "core_new (cf_layout c) policy (cf_local_screen c) ms (cf_positions c) = Some k0" "with_sizes k0 (cf_sizes c) = Some k"
    and ok: "mons_ok ms" "sp_jump_zone policy \<le> 1000000" "list_all (good_event (cf_local_screen c)) es"
    and es: "hub_part es = hb_events (ds_hub ds')"
  shows "\<exists>k' as. run_events core_step k es = Some (k', as) \<and> router_apart k'"
proof -
  let ?c = "c\<lparr>cf_path := path\<rparr>"
  let ?s = "desk_start ?c d ms own"
  have inv: "desk_inv al (settings_start ?c ms) ds"
    using desk_run_inv [OF desk_start_inv [OF c(1) refl, of path ms own] c(2,3)] run by auto
  have inv': "desk_inv al (settings_start ?c ms) ds'"
    using desk_step_inv [OF inv c(2,4)] ap by auto
  have local: "ds_local ds' = cf_local_screen c"
    using apply_layout_host [OF ap] desk_run_host [OF run] by (simp add: desk_start_def ds_set_sizes_def ds_new_def)
  obtain q where q: "core_inv (cf_local_screen c) q" "core_new (cf_layout c) policy (cf_local_screen c) ms (cf_positions c) = Some q"
    using core_new_inv [OF ok(1) config_typed(1) [OF c(1)] ok(2)] by blast
  then have k0: "core_inv (cf_local_screen c) k0" using core(1) by simp
  have s0: "c_connected k0 = []" "core_settings k0 = \<lparr>se_positions = cf_positions c, se_sizes = [], se_layout = cf_layout c, se_monitors = ms\<rparr>"
    "c_local k0 = cf_local_screen c"
    using core(1) refresh_placed [of _ k0] refresh_connected [of _ k0] by (auto simp: core_new_def core_settings_def)
  have ws: "refresh_origins (k0\<lparr>c_sizes := cf_sizes c\<rparr>) = Some k" using core(2) by (simp add: with_sizes_def)
  have k: "core_inv (cf_local_screen c) k"
    using k0 ws by (auto simp: core_inv_def core_ok_def refresh_origins_def bind_eq_Some_conv)
  have s: "placed k" "core_settings k = settings_start ?c ms" "c_connected k = []"
    using refresh_placed [OF ws] refresh_connected [OF ws] s0 by (auto simp: core_settings_def settings_start_def)
  obtain k' as where r: "run_events core_step k es = Some (k', as)" "core_inv (cf_local_screen c) k'"
    using router.run_total [OF k ok(3)] by blast
  note st = run_settings [OF k ok(3) r(1)]
  have ins: "in_step (ds_hub ds')" using inv' by (simp add: desk_inv_def desk_ok_def)
  have "router_apart k'"
  proof (rule apart_router_apart [of ds'])
    show "apart (ds_positions ds') (ds_sizes ds') (machine_monitors ds') (machines ds')"
      "dom (bm_get (ds_positions ds')) = set (la_screens (ds_layout ds'))"
      using apply_layout_apart [OF inv c(4) ap] by simp_all
    show "desk_ok ds'" using inv' by (simp add: desk_inv_def)
    show "core_settings k' = desk_settings_of ds'"
      using st inv' es s(2) by (simp add: desk_inv_def router_settings_def)
    show "placed k'" using st s(1) by simp
    show "c_local k' = ds_local ds'" using r(2) local by (simp add: core_inv_def)
    show "c_connected k' = enabled_view (ds_hub ds')"
      using run_connected [OF k ok(3) r(1)] s(3) es in_step_replay [OF ins] by (simp add: replay_def)
  qed
  then show ?thesis using r(1) by blast
qed

text \<open>
  The check of the coordinates lets one point through that is far outside: the absolute value of the
  smallest 32-bit integer wraps to itself.
\<close>

lemma layout_abs_wraps:
  "place_requested [(''win'', Pt 0 0)] [(''win'', Pt (- (2 ^ 31)) 0)] = Inr [(''win'', Pt (- (2 ^ 31)) 0)]"
  by code_simp

section \<open>Witnesses\<close>

definition sample_doc :: document where
  "sample_doc = [(''server'', VTable [(''listen'', VStr ''127.0.0.1:24810''), (''tls'', VBool False)]),
     (''screens'', VTables [[(''name'', VStr ''pc'')],
        [(''name'', VStr ''win''), (''x'', VInt 1920), (''y'', VInt 0)]])]"

definition sample_config :: "ipv4 config" where
  "sample_config = projr (config_parse v4_lib sample_doc)"

lemma sample_isl: "\<not> isl (config_parse v4_lib sample_doc)"
  by code_simp

lemma sample_parse: "config_parse v4_lib sample_doc = Inr sample_config"
  using sample_isl by (simp add: sample_config_def)

lemma saved_settings_read_back_witness:
  "if tuning_check \<lparr>tu_port = 30000, tu_switch_delay_ms = 150, tu_switch_double_tap_ms = 0, tu_switch_corner_size = 40,
       tu_jump_zone_size = 1, tu_scroll_lock_locks = False, tu_clipboard_sharing = True, tu_clipboard_files = True\<rparr> = None
    then (\<exists>d'. write_tuning v4_lib \<lparr>tu_port = 30000, tu_switch_delay_ms = 150, tu_switch_double_tap_ms = 0, tu_switch_corner_size = 40,
       tu_jump_zone_size = 1, tu_scroll_lock_locks = False, tu_clipboard_sharing = True, tu_clipboard_files = True\<rparr> True (Some sample_doc) = (Some d', None)
       \<and> config_parse v4_lib d' = Inr (tuned \<lparr>tu_port = 30000, tu_switch_delay_ms = 150, tu_switch_double_tap_ms = 0, tu_switch_corner_size = 40,
       tu_jump_zone_size = 1, tu_scroll_lock_locks = False, tu_clipboard_sharing = True, tu_clipboard_files = True\<rparr> sample_config)
       \<and> tuning_of (tuned \<lparr>tu_port = 30000, tu_switch_delay_ms = 150, tu_switch_double_tap_ms = 0, tu_switch_corner_size = 40,
       tu_jump_zone_size = 1, tu_scroll_lock_locks = False, tu_clipboard_sharing = True, tu_clipboard_files = True\<rparr> sample_config)
         = \<lparr>tu_port = 30000, tu_switch_delay_ms = 150, tu_switch_double_tap_ms = 0, tu_switch_corner_size = 40,
       tu_jump_zone_size = 1, tu_scroll_lock_locks = False, tu_clipboard_sharing = True, tu_clipboard_files = True\<rparr>)
    else \<forall>writes. \<exists>e. write_tuning v4_lib \<lparr>tu_port = 30000, tu_switch_delay_ms = 150, tu_switch_double_tap_ms = 0, tu_switch_corner_size = 40,
       tu_jump_zone_size = 1, tu_scroll_lock_locks = False, tu_clipboard_sharing = True, tu_clipboard_files = True\<rparr> writes (Some sample_doc) = (Some sample_doc, Some (SCheck e))"
  by (rule saved_settings_read_back [OF sample_parse v4_ok])
    (simp_all add: tuning_typed_def is_i32_def headed_def sample_doc_def)

lemma running_desk_is_saved_witness:
  "\<exists>ds d' c'. desk_run v4_lib (desk_start (sample_config\<lparr>cf_path := Some ''server.toml''\<rparr>) sample_doc [Rect 0 0 1920 1080] [])
      [DHub (ORegister ''win'' [Rect 0 0 1280 1024]), DLayout True [(''win'', Pt 1920 100)] [], DDisable False ''win'' True] = Some ds
    \<and> ds_file ds = Some d' \<and> config_parse v4_lib d' = Inr c'
    \<and> cf_layout c' = ds_layout ds \<and> cf_positions c' = ds_positions ds \<and> cf_sizes c' = ds_sizes ds
    \<and> cf_disabled c' = hb_disabled (ds_hub ds) \<and> (cf_tls sample_config \<longrightarrow> cf_trusted c' = trusted_of ds)"
  by (rule running_desk_is_saved [OF sample_parse v4_ok]) (simp add: is_i32_def)

definition sample_ops :: "desk_op list" where
  "sample_ops = [DHub (ORegister ''win'' [Rect 0 0 1280 1024])]"

definition sample_desk :: desk_state where
  "sample_desk = the (desk_run v4_lib (desk_start (sample_config\<lparr>cf_path := Some ''server.toml''\<rparr>) sample_doc [Rect 0 0 1920 1080] []) sample_ops)"

lemma sample_desk_run:
  "desk_run v4_lib (desk_start (sample_config\<lparr>cf_path := Some ''server.toml''\<rparr>) sample_doc [Rect 0 0 1920 1080] []) sample_ops = Some sample_desk"
  by (simp add: sample_desk_def desk_start_def sample_ops_def)

definition sample_applied :: desk_state where
  "sample_applied = fst (the (apply_layout sample_desk True [(''win'', Pt 1920 100)] []))"

lemma sample_apply: "apply_layout sample_desk True [(''win'', Pt 1920 100)] [] = Some (sample_applied, Inr True)"
proof -
  have "map_option snd (apply_layout sample_desk True [(''win'', Pt 1920 100)] []) = Some (Inr True)" by code_simp
  then show ?thesis by (auto simp: sample_applied_def)
qed

definition sample_core :: core where
  "sample_core = the (Option.bind (core_new (cf_layout sample_config) sp_default (cf_local_screen sample_config)
     [Rect 0 0 1920 1080] (cf_positions sample_config)) (\<lambda>k. with_sizes k (cf_sizes sample_config)))"

lemma applied_layout_leaves_machines_apart_witness:
  "\<exists>k0. core_new (cf_layout sample_config) sp_default (cf_local_screen sample_config) [Rect 0 0 1920 1080] (cf_positions sample_config) = Some k0
    \<and> with_sizes k0 (cf_sizes sample_config) = Some sample_core
    \<and> (\<exists>k' as. run_events core_step sample_core (map HubEv (hb_events (ds_hub sample_applied))) = Some (k', as) \<and> router_apart k')"
proof -
  have "\<not> Option.is_none (Option.bind (core_new (cf_layout sample_config) sp_default (cf_local_screen sample_config)
     [Rect 0 0 1920 1080] (cf_positions sample_config)) (\<lambda>k. with_sizes k (cf_sizes sample_config)))" by code_simp
  then obtain k0 where k0: "core_new (cf_layout sample_config) sp_default (cf_local_screen sample_config) [Rect 0 0 1920 1080] (cf_positions sample_config) = Some k0"
    "with_sizes k0 (cf_sizes sample_config) = Some sample_core"
    by (auto simp: Option.is_none_def sample_core_def bind_eq_Some_conv)
  have good: "list_all (good_event (cf_local_screen sample_config)) (map HubEv (hb_events (ds_hub sample_applied)))" by code_simp
  have part: "hub_part (map HubEv es) = es" for es by (induction es) simp_all
  have "\<exists>k' as. run_events core_step sample_core (map HubEv (hb_events (ds_hub sample_applied))) = Some (k', as) \<and> router_apart k'"
    by (rule applied_layout_leaves_machines_apart [OF sample_parse v4_ok _ _ sample_desk_run sample_apply k0 _ _ good part])
      (simp_all add: sample_ops_def is_i32_def mons_ok_def rect_ok_def sp_default_def)
  with k0 show ?thesis by blast
qed

end
