(* ===== verification/Keymap.thy ===== *)
theory Keymap
  imports Key_Rules
begin

text \<open>
  \<^verbatim>\<open>crates/geserdesk-platform/src/keymap.rs\<close>: the identity of a physical key. A Linux key code and a
  Windows key event are both turned into a HID usage (or a code of \<^verbatim>\<open>consumer.rs\<close>), the only thing the
  wire carries. A \<^verbatim>\<open>match\<close> is the list of its arms, looked up from the first.
\<close>

section \<open>Linux key codes\<close>

definition evdev_keys :: "(nat \<times> nat) list" where
  "evdev_keys =
     [(30, 0x04), (48, 0x05), (46, 0x06), (32, 0x07), (18, 0x08), (33, 0x09), (34, 0x0A), (35, 0x0B),
      (23, 0x0C), (36, 0x0D), (37, 0x0E), (38, 0x0F), (50, 0x10), (49, 0x11), (24, 0x12), (25, 0x13),
      (16, 0x14), (19, 0x15), (31, 0x16), (20, 0x17), (22, 0x18), (47, 0x19), (17, 0x1A), (45, 0x1B),
      (21, 0x1C), (44, 0x1D)]
     @ map (\<lambda>i. (2 + i, 0x1E + i)) [0..<9]
     @ [(11, 0x27), (28, 0x28), (1, 0x29), (14, 0x2A), (15, 0x2B), (57, 0x2C), (12, 0x2D), (13, 0x2E),
      (26, 0x2F), (27, 0x30), (43, 0x31), (39, 0x33), (40, 0x34), (41, 0x35), (51, 0x36), (52, 0x37),
      (53, 0x38), (58, 0x39)]
     @ map (\<lambda>i. (59 + i, 0x3A + i)) [0..<10]
     @ [(87, 0x44), (88, 0x45), (99, 0x46), (70, 0x47), (119, 0x48), (110, 0x49), (102, 0x4A), (104, 0x4B),
      (111, 0x4C), (107, 0x4D), (109, 0x4E), (106, 0x4F), (105, 0x50), (108, 0x51), (103, 0x52),
      (69, 0x53), (98, 0x54), (55, 0x55), (74, 0x56), (78, 0x57), (96, 0x58), (79, 0x59), (80, 0x5A),
      (81, 0x5B), (75, 0x5C), (76, 0x5D), (77, 0x5E), (71, 0x5F), (72, 0x60), (73, 0x61), (82, 0x62),
      (83, 0x63), (86, 0x64), (127, 0x65), (29, 0xE0), (42, 0xE1), (56, 0xE2), (125, 0xE3), (97, 0xE4),
      (54, 0xE5), (100, 0xE6), (126, 0xE7), (113, MUTE), (114, VOLUME_DOWN), (115, VOLUME_UP),
      (248, MIC_MUTE), (163, NEXT_TRACK), (164, PLAY_PAUSE), (165, PREVIOUS_TRACK), (166, STOP),
      (224, BRIGHTNESS_DOWN), (225, BRIGHTNESS_UP), (155, MAIL), (140, CALCULATOR), (157, EXPLORER),
      (150, BROWSER), (217, BROWSER_SEARCH), (172, BROWSER_HOME), (158, BROWSER_BACK),
      (159, BROWSER_FORWARD), (128, BROWSER_STOP), (173, BROWSER_REFRESH), (156, BROWSER_FAVORITES)]"

definition evdev_to_hid :: "nat \<Rightarrow> nat option" where
  "evdev_to_hid code = map_of evdev_keys code"

section \<open>Windows key events\<close>

text \<open>Keys that go by their virtual key, then by scan code: with the extended prefix, and without.\<close>

definition win_vks :: "(nat \<times> nat) list" where
  "win_vks =
     [(0x90, 0x53), (0x13, 0x48), (0x2C, 0x46)]
     @ map (\<lambda>i. (0x7C + i, 0x68 + i)) [0..<8]
     @ [(0xAD, MUTE), (0xAE, VOLUME_DOWN), (0xAF, VOLUME_UP), (0xB0, NEXT_TRACK), (0xB1, PREVIOUS_TRACK),
      (0xB2, STOP), (0xB3, PLAY_PAUSE), (0xB4, MAIL), (0xB6, EXPLORER), (0xB7, CALCULATOR),
      (0xA6, BROWSER_BACK), (0xA7, BROWSER_FORWARD), (0xA8, BROWSER_REFRESH), (0xA9, BROWSER_STOP),
      (0xAA, BROWSER_SEARCH), (0xAB, BROWSER_FAVORITES), (0xAC, BROWSER_HOME)]"

definition win_extended :: "(nat \<times> nat) list" where
  "win_extended =
     [(0x1C, 0x58), (0x1D, 0xE4), (0x35, 0x54), (0x38, 0xE6), (0x47, 0x4A), (0x48, 0x52), (0x49, 0x4B),
      (0x4B, 0x50), (0x4D, 0x4F), (0x4F, 0x4D), (0x50, 0x51), (0x51, 0x4E), (0x52, 0x49), (0x53, 0x4C),
      (0x5B, 0xE3), (0x5C, 0xE7), (0x5D, 0x65)]"

definition win_plain :: "(nat \<times> nat) list" where
  "win_plain =
     [(0x01, 0x29)]
     @ map (\<lambda>i. (0x02 + i, 0x1E + i)) [0..<9]
     @ [(0x0B, 0x27), (0x0C, 0x2D), (0x0D, 0x2E), (0x0E, 0x2A), (0x0F, 0x2B), (0x10, 0x14), (0x11, 0x1A),
      (0x12, 0x08), (0x13, 0x15), (0x14, 0x17), (0x15, 0x1C), (0x16, 0x18), (0x17, 0x0C), (0x18, 0x12),
      (0x19, 0x13), (0x1A, 0x2F), (0x1B, 0x30), (0x1C, 0x28), (0x1D, 0xE0), (0x1E, 0x04), (0x1F, 0x16),
      (0x20, 0x07), (0x21, 0x09), (0x22, 0x0A), (0x23, 0x0B), (0x24, 0x0D), (0x25, 0x0E), (0x26, 0x0F),
      (0x27, 0x33), (0x28, 0x34), (0x29, 0x35), (0x2A, 0xE1), (0x2B, 0x31), (0x2C, 0x1D), (0x2D, 0x1B),
      (0x2E, 0x06), (0x2F, 0x19), (0x30, 0x05), (0x31, 0x11), (0x32, 0x10), (0x33, 0x36), (0x34, 0x37),
      (0x35, 0x38), (0x36, 0xE5), (0x37, 0x55), (0x38, 0xE2), (0x39, 0x2C), (0x3A, 0x39)]
     @ map (\<lambda>i. (0x3B + i, 0x3A + i)) [0..<10]
     @ [(0x46, 0x47), (0x47, 0x5F), (0x48, 0x60), (0x49, 0x61), (0x4A, 0x56), (0x4B, 0x5C), (0x4C, 0x5D),
      (0x4D, 0x5E), (0x4E, 0x57), (0x4F, 0x59), (0x50, 0x5A), (0x51, 0x5B), (0x52, 0x62), (0x53, 0x63),
      (0x56, 0x64), (0x57, 0x44), (0x58, 0x45)]"

definition win_key_to_hid :: "nat \<Rightarrow> nat \<Rightarrow> bool \<Rightarrow> nat option" where
  "win_key_to_hid vk scan extended =
     (case map_of win_vks vk of
        Some hid \<Rightarrow> Some hid
      | None \<Rightarrow> map_of (if extended then win_extended else win_plain) scan)"

definition hid_is_printable :: "nat \<Rightarrow> bool" where
  "hid_is_printable hid \<longleftrightarrow>
     0x04 \<le> hid \<and> hid \<le> 0x27 \<or> 0x2D \<le> hid \<and> hid \<le> 0x38 \<or> 0x54 \<le> hid \<and> hid \<le> 0x57
     \<or> 0x59 \<le> hid \<and> hid \<le> 0x63 \<or> hid = 0x64"

section \<open>What the tables say\<close>

text \<open>No arm of a table hides another.\<close>

lemma key_tables_distinct:
  "distinct (map fst evdev_keys)" "distinct (map fst win_vks)"
  "distinct (map fst win_extended)" "distinct (map fst win_plain)"
  by code_simp+

lemma evdev_keys_once: "distinct (map snd evdev_keys)"
  by code_simp

lemma evdev_iff: "evdev_to_hid code = Some hid \<longleftrightarrow> (code, hid) \<in> set evdev_keys"
  using key_tables_distinct(1) by (simp add: evdev_to_hid_def map_of_eq_Some_iff)

lemma evdev_inj: "evdev_to_hid a = Some hid \<Longrightarrow> evdev_to_hid b = Some hid \<Longrightarrow> a = b"
  unfolding evdev_iff using evdev_keys_once by (fastforce simp: distinct_map inj_on_def)

lemma win_key_cases:
  assumes "win_key_to_hid vk scan extended = Some hid"
  shows "hid \<in> snd ` set (win_vks @ win_extended @ win_plain)"
  using assms by (force simp: win_key_to_hid_def split: option.splits if_splits dest: map_of_SomeD)

text \<open>Any key named in a Windows table is produced by some event.\<close>

lemma win_key_exists:
  assumes "hid \<in> snd ` set (win_vks @ win_extended @ win_plain)"
  shows "\<exists>vk scan extended. vk < 256 \<and> scan < 128 \<and> win_key_to_hid vk scan extended = Some hid"
proof -
  have none: "map_of win_vks 0 = None" by code_simp
  have small: "list_all (\<lambda>(k, _). k < 128) (win_extended @ win_plain)" "list_all (\<lambda>(k, _). k < 256) win_vks"
    by code_simp+
  from assms consider vk where "(vk, hid) \<in> set win_vks" | scan where "(scan, hid) \<in> set win_extended"
    | scan where "(scan, hid) \<in> set win_plain" by auto
  then show ?thesis
  proof cases
    case 1
    then have "win_key_to_hid vk 0 False = Some hid"
      using key_tables_distinct(2) by (simp add: win_key_to_hid_def map_of_eq_Some_iff)
    moreover have "vk < 256" using small(2) 1 by (auto simp: list_all_iff)
    ultimately show ?thesis by (intro exI [of _ vk] exI [of _ 0] exI [of _ False]) simp
  next
    case 2
    then have "win_key_to_hid 0 scan True = Some hid"
      using key_tables_distinct(3) none by (simp add: win_key_to_hid_def map_of_eq_Some_iff)
    moreover have "scan < 128" using small(1) 2 by (auto simp: list_all_iff)
    ultimately show ?thesis by (intro exI [of _ 0] exI [of _ scan] exI [of _ True]) simp
  next
    case 3
    then have "win_key_to_hid 0 scan False = Some hid"
      using key_tables_distinct(4) none by (simp add: win_key_to_hid_def map_of_eq_Some_iff)
    moreover have "scan < 128" using small(1) 3 by (auto simp: list_all_iff)
    ultimately show ?thesis by (intro exI [of _ 0] exI [of _ scan] exI [of _ False]) simp
  qed
qed

text \<open>A Windows server can produce whatever a Linux one can, four laptop keys apart.\<close>

lemma windows_covers_linux:
  assumes "evdev_to_hid code = Some hid" "hid \<notin> {BRIGHTNESS_UP, BRIGHTNESS_DOWN, MIC_MUTE, BROWSER}"
  shows "\<exists>vk scan extended. vk < 256 \<and> scan < 128 \<and> win_key_to_hid vk scan extended = Some hid"
proof (rule win_key_exists)
  have "list_all (\<lambda>(_, h). h \<in> {BRIGHTNESS_UP, BRIGHTNESS_DOWN, MIC_MUTE, BROWSER}
      \<or> h \<in> set (map snd (win_vks @ win_extended @ win_plain))) evdev_keys"
    by code_simp
  then show "hid \<in> snd ` set (win_vks @ win_extended @ win_plain)"
    using assms by (fastforce simp: evdev_iff list_all_iff)
qed

end
