(* ===== verification/Capture.thy ===== *)
theory Capture
  imports Router
begin

text \<open>
  What the server expects of a capture backend (\<^verbatim>\<open>crates/geserdesk-platform/src/lib.rs\<close>), as an
  interface: which events it sends while the input belongs to this machine, which while it is taken,
  and that the key events it sends tell of keys that go down, repeat and come up in turn. The two
  backends, \<open>Capture_Win\<close> and \<open>Capture_X11\<close>, are its instances.
\<close>

section \<open>Events\<close>

fun local_event :: "capture_event \<Rightarrow> bool" where
  "local_event (Pointer p) = True"
| "local_event Hotkey = True"
| "local_event GrabFailed = True"
| "local_event _ = False"

fun taken_event :: "capture_event \<Rightarrow> bool" where
  "taken_event (Pointer p) = False"
| "taken_event GrabFailed = False"
| "taken_event _ = True"

text \<open>
  The key events sent so far, as whoever receives them understands them: the keys that are down, with
  the number of the last repeat. A key cannot go down twice or repeat while it is up; with \<open>strict\<close> it
  cannot come up either.
\<close>

definition replay_key :: "bool \<Rightarrow> (nat \<rightharpoonup> nat) \<Rightarrow> key_event \<Rightarrow> (nat \<rightharpoonup> nat) option" where
  "replay_key strict m ev =
     (let hid = ke_hid ev
      in case ke_action ev of
           Down \<Rightarrow> (if m hid = None then Some (m(hid \<mapsto> 0)) else None)
         | Repeat n \<Rightarrow> (case m hid of
               Some k \<Rightarrow> if n = min (k + 1) 65535 then Some (m(hid \<mapsto> n)) else None
             | None \<Rightarrow> None)
         | Up \<Rightarrow> (if strict \<and> m hid = None then None else Some (m(hid := None))))"

fun replay_keys :: "bool \<Rightarrow> (nat \<rightharpoonup> nat) \<Rightarrow> capture_event list \<Rightarrow> (nat \<rightharpoonup> nat) option" where
  "replay_keys strict m [] = Some m"
| "replay_keys strict m (CKey ev # evs) = Option.bind (replay_key strict m ev) (\<lambda>m. replay_keys strict m evs)"
| "replay_keys strict m (_ # evs) = replay_keys strict m evs"

lemma replay_keys_append:
  "replay_keys strict m (evs @ evs') = Option.bind (replay_keys strict m evs) (\<lambda>m. replay_keys strict m evs')"
  by (induction strict m evs rule: replay_keys.induct) (auto split: Option.bind_splits)

fun pointing_event :: "capture_event \<Rightarrow> bool" where
  "pointing_event (Motion dx dy) = True"
| "pointing_event (CButton b down) = True"
| "pointing_event (CWheel dx dy) = True"
| "pointing_event _ = False"

text \<open>What the mouse makes leaves the keys alone.\<close>

lemma pointing_events:
  assumes "list_all pointing_event evs"
  shows "replay_keys strict m evs = Some m" "list_all taken_event evs" "GrabFailed \<notin> set evs" "Hotkey \<notin> set evs"
proof -
  have "replay_keys strict m evs = Some m \<and> list_all taken_event evs \<and> GrabFailed \<notin> set evs \<and> Hotkey \<notin> set evs"
    using assms
  proof (induction evs)
    case (Cons ev evs)
    then show ?case by (cases ev) auto
  qed simp
  then show "replay_keys strict m evs = Some m" "list_all taken_event evs" "GrabFailed \<notin> set evs" "Hotkey \<notin> set evs" by simp_all
qed

lemma taken_not_failed: "list_all taken_event evs \<Longrightarrow> GrabFailed \<notin> set evs"
  by (auto simp: list_all_iff)

section \<open>Running a backend\<close>

fun run_steps :: "('i \<Rightarrow> 'c \<Rightarrow> ('c \<times> 'e list) option) \<Rightarrow> 'i list \<Rightarrow> 'c \<Rightarrow> ('c \<times> 'e list) option" where
  "run_steps step [] c = Some (c, [])"
| "run_steps step (i # rest) c =
     (case step i c of
        None \<Rightarrow> None
      | Some (c', evs) \<Rightarrow> (case run_steps step rest c' of None \<Rightarrow> None | Some (c'', evs') \<Rightarrow> Some (c'', evs @ evs')))"

text \<open>\<open>cmd i\<close>: the input is a command of the server; \<open>asks i\<close>: it is the command to take the input.\<close>

locale capture_backend =
  fixes step :: "'i \<Rightarrow> 'c \<Rightarrow> ('c \<times> capture_event list) option"
    and grabbed :: "'c \<Rightarrow> bool"
    and cmd :: "'i \<Rightarrow> bool"
    and asks :: "'i \<Rightarrow> bool"
  assumes local_only: "step i c = Some (c', evs) \<Longrightarrow> \<not> grabbed c \<Longrightarrow> list_all local_event evs"
    and taken_only: "step i c = Some (c', evs) \<Longrightarrow> grabbed c \<Longrightarrow> list_all taken_event evs"
    and stays_local: "step i c = Some (c', evs) \<Longrightarrow> \<not> grabbed c \<Longrightarrow> \<not> asks i \<Longrightarrow> \<not> grabbed c'"
    and stays_taken: "step i c = Some (c', evs) \<Longrightarrow> grabbed c \<Longrightarrow> \<not> cmd i \<Longrightarrow> grabbed c'"
    and failed: "step i c = Some (c', evs) \<Longrightarrow> GrabFailed \<in> set evs \<Longrightarrow> \<not> grabbed c'"
begin

text \<open>Nothing of the keyboard, the buttons or the wheel is sent before somebody asked for it.\<close>

lemma untaken_run:
  assumes "run_steps step is c = Some (c', evs)" "\<not> grabbed c" "\<forall>i \<in> set is. \<not> asks i"
  shows "list_all local_event evs \<and> \<not> grabbed c'"
  using assms
proof (induction "is" arbitrary: c evs)
  case (Cons i rest)
  then obtain c1 evs1 evs2 where s: "step i c = Some (c1, evs1)" "run_steps step rest c1 = Some (c', evs2)" "evs = evs1 @ evs2"
    by (auto split: option.splits)
  with Cons.prems Cons.IH [OF s(2)] show ?case by (auto dest: local_only stays_local)
qed simp

lemma taken_run:
  assumes "run_steps step is c = Some (c', evs)" "grabbed c" "\<forall>i \<in> set is. \<not> cmd i"
  shows "list_all taken_event evs \<and> grabbed c'"
  using assms
proof (induction "is" arbitrary: c evs)
  case (Cons i rest)
  then obtain c1 evs1 evs2 where s: "step i c = Some (c1, evs1)" "run_steps step rest c1 = Some (c', evs2)" "evs = evs1 @ evs2"
    by (auto split: option.splits)
  with Cons.prems Cons.IH [OF s(2)] show ?case by (auto dest: taken_only stays_taken)
qed simp

end

text \<open>A backend that keeps track of the keys that are down, and forgets them when it takes the input.\<close>

locale capture_keys = capture_backend +
  fixes held :: "'b \<Rightarrow> nat \<rightharpoonup> nat"
    and strict :: bool
  assumes held_replayed: "step i c = Some (c', evs) \<Longrightarrow> grabbed c \<Longrightarrow> \<not> cmd i \<Longrightarrow> replay_keys strict (held c) evs = Some (held c')"
    and grab_forgets: "step i c = Some (c', evs) \<Longrightarrow> \<not> grabbed c \<Longrightarrow> grabbed c' \<Longrightarrow> held c' = Map.empty"
begin

lemma held_run:
  assumes "run_steps step is c = Some (c', evs)" "grabbed c" "\<forall>i \<in> set is. \<not> cmd i"
  shows "replay_keys strict (held c) evs = Some (held c')"
  using assms
proof (induction "is" arbitrary: c evs)
  case (Cons i rest)
  then obtain c1 evs1 evs2 where s: "step i c = Some (c1, evs1)" "run_steps step rest c1 = Some (c', evs2)" "evs = evs1 @ evs2"
    by (auto split: option.splits)
  moreover have "grabbed c1" using stays_taken [OF s(1)] Cons.prems by simp
  ultimately show ?case using Cons.prems Cons.IH [OF s(2)] held_replayed [OF s(1)] by (simp add: replay_keys_append)
qed simp

text \<open>From the step that takes the input on, what is sent replays from nothing.\<close>

lemma grab_run:
  assumes "step g c = Some (c1, evs1)" "\<not> grabbed c" "grabbed c1"
    and "run_steps step is c1 = Some (c', evs)" "\<forall>i \<in> set is. \<not> cmd i"
  shows "replay_keys strict Map.empty evs = Some (held c') \<and> list_all taken_event evs \<and> grabbed c'"
  using held_run [OF assms(4,3,5)] taken_run [OF assms(4,3,5)] grab_forgets [OF assms(1-3)] by simp

end

end
