(* ===== verification/Capture_Win.thy ===== *)
theory Capture_Win
  imports Capture Keymap
begin

text \<open>
  \<^verbatim>\<open>crates/geserdesk-platform/src/windows.rs\<close>: capturing input on Windows with low-level hooks. What
  Windows answers (\<^verbatim>\<open>GetCursorPos\<close>, \<^verbatim>\<open>GetAsyncKeyState\<close>, \<^verbatim>\<open>ToUnicodeEx\<close>, ...) is a record of answers that
  every operation takes, so it may change from one call to the next. An operation returns the new state
  and the events it sends; a hook also says whether it swallows what it was shown.
\<close>

section \<open>Windows\<close>

definition IDLE_WAIT_MS :: nat where "IDLE_WAIT_MS = 2"
definition RESYNC_EVERY :: nat where "RESYNC_EVERY = 100"
definition FAKE_LCONTROL_SCAN :: nat where "FAKE_LCONTROL_SCAN = 0x21D"
definition VK_SHIFT :: nat where "VK_SHIFT = 0x10"
definition VK_CONTROL :: nat where "VK_CONTROL = 0x11"
definition VK_MENU :: nat where "VK_MENU = 0x12"
definition VK_CAPITAL :: nat where "VK_CAPITAL = 0x14"
definition VK_HOME :: nat where "VK_HOME = 0x24"
definition VK_LWIN :: nat where "VK_LWIN = 0x5B"
definition VK_RWIN :: nat where "VK_RWIN = 0x5C"
definition VK_NUMLOCK :: nat where "VK_NUMLOCK = 0x90"
definition VK_LCONTROL :: nat where "VK_LCONTROL = 0xA2"
definition VK_LSHIFT :: nat where "VK_LSHIFT = 0xA0"
definition VK_RSHIFT :: nat where "VK_RSHIFT = 0xA1"
definition VK_RCONTROL :: nat where "VK_RCONTROL = 0xA3"
definition VK_LMENU :: nat where "VK_LMENU = 0xA4"
definition VK_RMENU :: nat where "VK_RMENU = 0xA5"
definition BTN_LEFT :: nat where "BTN_LEFT = 1"
definition BTN_MIDDLE :: nat where "BTN_MIDDLE = 2"
definition BTN_RIGHT :: nat where "BTN_RIGHT = 3"
definition BTN_BACK :: nat where "BTN_BACK = 8"
definition BTN_FORWARD :: nat where "BTN_FORWARD = 9"

lemmas btn_defs = BTN_LEFT_def BTN_MIDDLE_def BTN_RIGHT_def BTN_BACK_def BTN_FORWARD_def

text \<open>
  The answers of Windows: the cursor, the virtual desktop, the rectangle (left, top, right, bottom) of
  the monitor nearest to a point, whether the cursor can be moved, which virtual keys are down and which
  are toggled, what a key types in the focused window's layout (\<^verbatim>\<open>ToUnicodeEx\<close>: its result and its
  buffer), whether the two hooks and the window that hides the cursor can be made.
\<close>

record win_desk =
  wd_cursor :: "point option"
  wd_virtual :: rect
  wd_monitor :: "point \<Rightarrow> (int \<times> int \<times> int \<times> int) option"
  wd_can_move :: bool
  wd_down :: "nat \<Rightarrow> bool"
  wd_toggled :: "nat \<Rightarrow> bool"
  wd_unicode :: "nat \<Rightarrow> nat \<Rightarrow> nat list \<Rightarrow> int \<times> nat list"
  wd_hooks :: "bool \<times> bool"
  wd_window :: bool

datatype mouse_msg =
    WmMove | WmLeft bool | WmRight bool | WmMiddle bool | WmX bool | WmWheel | WmHWheel | WmOther nat

record mouse_info =
  mi_x :: int
  mi_y :: int
  mi_data :: nat

datatype key_msg = WmKeyDown | WmSysKeyDown | WmKeyUp | WmSysKeyUp

record kb_info =
  kb_vk :: nat
  kb_scan :: nat
  kb_flags :: nat

section \<open>The state of the hooks\<close>

record hook_state =
  hs_grabbed :: bool
  hs_center :: "int \<times> int"
  hs_keys :: "(nat, nat) bmap"
  hs_buttons :: "nat list"
  hs_hotkey_down :: bool
  hs_held :: "16 word"
  hs_caps :: bool
  hs_num :: bool

definition modifier_bit :: "nat \<Rightarrow> 16 word option" where
  "modifier_bit hid = (if 0xE0 \<le> hid \<and> hid \<le> 0xE7 then Some (push_bit (hid - 0xE0) 1) else None)"

definition is_held :: "hook_state \<Rightarrow> nat \<Rightarrow> bool" where
  "is_held st hid = (case modifier_bit hid of Some b \<Rightarrow> hs_held st AND b \<noteq> 0 | None \<Rightarrow> False)"

definition ctrl_and_alt_held :: "hook_state \<Rightarrow> bool" where
  "ctrl_and_alt_held st \<longleftrightarrow>
     (is_held st 0xE0 \<or> is_held st 0xE4) \<and> (is_held st 0xE2 \<or> is_held st 0xE6)"

definition resync_keys :: "(nat \<times> nat) list" where
  "resync_keys =
     [(VK_LCONTROL, 0xE0), (VK_LSHIFT, 0xE1), (VK_LMENU, 0xE2), (VK_LWIN, 0xE3),
      (VK_RCONTROL, 0xE4), (VK_RSHIFT, 0xE5), (VK_RMENU, 0xE6), (VK_RWIN, 0xE7)]"

definition resync :: "win_desk \<Rightarrow> hook_state \<Rightarrow> hook_state" where
  "resync d st =
     st\<lparr>hs_held := fold (\<lambda>(vk, hid) held. if wd_down d vk
                    then held OR (case modifier_bit hid of Some b \<Rightarrow> b | None \<Rightarrow> 0) else held) resync_keys 0,
        hs_caps := wd_toggled d VK_CAPITAL,
        hs_num := wd_toggled d VK_NUMLOCK\<rparr>"

definition win_mods :: "hook_state \<Rightarrow> mod_mask" where
  "win_mods st =
     (let m = mm_empty;
          m = mm_set m SHIFT (is_held st 0xE1 \<or> is_held st 0xE5);
          m = mm_set m CAPS_LOCK (hs_caps st);
          m = mm_set m CONTROL (is_held st 0xE4 \<or> is_held st 0xE0);
          m = mm_set m ALT (is_held st 0xE2);
          m = mm_set m NUM_LOCK (hs_num st);
          m = mm_set m SUPER (is_held st 0xE3 \<or> is_held st 0xE7)
      in mm_set m ALT_GR (is_held st 0xE6))"

section \<open>What a key types\<close>

record typing =
  ty_shift :: bool
  ty_caps :: bool
  ty_num :: bool
  ty_alt_gr :: bool

text \<open>The first character of UTF-16 units; an unpaired surrogate is an error.\<close>

definition utf16_first :: "nat list \<Rightarrow> nat option" where
  "utf16_first units =
     (case units of
        [] \<Rightarrow> None
      | u # rest \<Rightarrow>
          if u < 0xD800 \<or> 0xDFFF < u then Some u
          else if 0xDC00 \<le> u then None
          else case rest of
                 v # _ \<Rightarrow> if 0xDC00 \<le> v \<and> v \<le> 0xDFFF then Some (0x10000 + (u - 0xD800) * 0x400 + (v - 0xDC00)) else None
               | [] \<Rightarrow> None)"

definition typing_keys :: "typing \<Rightarrow> bool \<Rightarrow> nat list" where
  "typing_keys ty alt_gr =
     (let keys = replicate 256 0;
          keys = (if ty_shift ty then keys[VK_SHIFT := 0x80] else keys);
          keys = (if ty_caps ty then keys[VK_CAPITAL := 1] else keys);
          keys = (if ty_num ty then keys[VK_NUMLOCK := 1] else keys)
      in if alt_gr then keys[VK_CONTROL := 0x80, VK_MENU := 0x80] else keys)"

definition attempt :: "win_desk \<Rightarrow> nat \<Rightarrow> nat \<Rightarrow> typing \<Rightarrow> bool \<Rightarrow> nat option" where
  "attempt d vk scan ty alt_gr =
     (let (n, buf) = wd_unicode d vk scan (typing_keys ty alt_gr)
      in if n < 1 then None
         else case utf16_first (take (nat n) buf) of
                None \<Rightarrow> None
              | Some c \<Rightarrow> if is_control c then None else Some c)"

definition translate :: "win_desk \<Rightarrow> nat \<Rightarrow> nat \<Rightarrow> typing \<Rightarrow> nat option" where
  "translate d vk scan ty =
     (case attempt d vk scan ty (ty_alt_gr ty) of
        Some c \<Rightarrow> Some c
      | None \<Rightarrow> if ty_alt_gr ty then attempt d vk scan ty False else None)"

definition win_char_for :: "win_desk \<Rightarrow> hook_state \<Rightarrow> nat \<Rightarrow> nat \<Rightarrow> nat option" where
  "win_char_for d st vk scan =
     translate d vk scan
       \<lparr>ty_shift = is_held st 0xE1 \<or> is_held st 0xE5, ty_caps = hs_caps st, ty_num = hs_num st,
        ty_alt_gr = is_held st 0xE6\<rparr>"

section \<open>The hooks\<close>

type_synonym hooked = "hook_state \<times> capture_event list \<times> bool"

definition on_button :: "button \<Rightarrow> nat \<Rightarrow> bool \<Rightarrow> hook_state \<Rightarrow> hooked" where
  "on_button b bid down st =
     (if down then (st\<lparr>hs_buttons := List.insert bid (hs_buttons st)\<rparr>, [CButton b down], True)
      else if bid \<notin> set (hs_buttons st) then (st, [], False)
      else (st\<lparr>hs_buttons := removeAll bid (hs_buttons st)\<rparr>, [CButton b down], True))"

definition as_i16 :: "nat \<Rightarrow> int" where
  "as_i16 h = (if h < 32768 then int h else int h - 65536)"

definition win_on_mouse :: "mouse_msg \<Rightarrow> mouse_info \<Rightarrow> hook_state \<Rightarrow> hooked" where
  "win_on_mouse msg info st =
     (if \<not> hs_grabbed st then (st, [], False)
      else let high = mi_data info div 65536 mod 65536
      in case msg of
           WmMove \<Rightarrow>
             (let (cx, cy) = hs_center st; dx = i32 (mi_x info - cx); dy = i32 (mi_y info - cy)
              in (st, if dx \<noteq> 0 \<or> dy \<noteq> 0 then [Motion dx dy] else [], True))
         | WmLeft down \<Rightarrow> on_button BtnLeft BTN_LEFT down st
         | WmRight down \<Rightarrow> on_button BtnRight BTN_RIGHT down st
         | WmMiddle down \<Rightarrow> on_button BtnMiddle BTN_MIDDLE down st
         | WmX down \<Rightarrow>
             (if high = 1 then on_button BtnBack BTN_BACK down st
              else if high = 2 then on_button BtnForward BTN_FORWARD down st
              else (st, [], True))
         | WmWheel \<Rightarrow> (st, [CWheel 0 (as_i16 high)], True)
         | WmHWheel \<Rightarrow> (st, [CWheel (as_i16 high) 0], True)
         | WmOther _ \<Rightarrow> (st, [], True))"

definition key_down :: "key_msg \<Rightarrow> bool" where
  "key_down msg \<longleftrightarrow> msg = WmKeyDown \<or> msg = WmSysKeyDown"

definition kb_extended :: "kb_info \<Rightarrow> bool" where
  "kb_extended info \<longleftrightarrow> odd (kb_flags info)"

definition kb_hid :: "kb_info \<Rightarrow> nat option" where
  "kb_hid info = win_key_to_hid (kb_vk info) (kb_scan info mod 65536) (kb_extended info)"

text \<open>The first part of \<^verbatim>\<open>on_key\<close>: which modifiers are held.\<close>

definition track_modifier :: "kb_info \<Rightarrow> bool \<Rightarrow> hook_state \<Rightarrow> hook_state" where
  "track_modifier info down st =
     (if kb_scan info \<noteq> FAKE_LCONTROL_SCAN
      then case Option.bind (kb_hid info) modifier_bit of
             Some b \<Rightarrow> st\<lparr>hs_held := (if down then hs_held st OR b else hs_held st AND NOT b)\<rparr>
           | None \<Rightarrow> st
      else st)"

text \<open>The last part: a key of the grab, reported with its action.\<close>

definition grabbed_key :: "win_desk \<Rightarrow> kb_info \<Rightarrow> nat \<Rightarrow> bool \<Rightarrow> hook_state \<Rightarrow> hooked" where
  "grabbed_key d info hid down st =
     (let report = (\<lambda>st a. (st, [CKey \<lparr>ke_hid = hid,
                       ke_ch = (if hid_is_printable hid then win_char_for d st (kb_vk info) (kb_scan info) else None),
                       ke_mods = win_mods st, ke_action = a\<rparr>], True))
      in if down then
           (case bm_get (hs_keys st) hid of
              Some n \<Rightarrow> (let n = min (n + 1) 65535
                         in report (st\<lparr>hs_keys := bm_insert hid n (hs_keys st)\<rparr>) (Repeat n))
            | None \<Rightarrow>
                (let st = st\<lparr>hs_keys := bm_insert hid 0 (hs_keys st)\<rparr>;
                     st = (if hid = 0x39 then st\<lparr>hs_caps := \<not> hs_caps st\<rparr>
                           else if hid = 0x53 then st\<lparr>hs_num := \<not> hs_num st\<rparr> else st)
                 in report st Down))
         else if bm_has (hs_keys st) hid then report (st\<lparr>hs_keys := bm_remove hid (hs_keys st)\<rparr>) Up
         else (st, [], False))"

definition is_home :: "kb_info \<Rightarrow> bool" where
  "is_home info \<longleftrightarrow> kb_vk info = VK_HOME \<and> kb_extended info"

definition win_on_key :: "win_desk \<Rightarrow> kb_info \<Rightarrow> key_msg \<Rightarrow> hook_state \<Rightarrow> hooked" where
  "win_on_key d info msg st =
     (let down = key_down msg; st = track_modifier info down st
      in if is_home info \<and> down \<and> ctrl_and_alt_held st
         then (st\<lparr>hs_hotkey_down := True\<rparr>, if hs_hotkey_down st then [] else [Hotkey], True)
         else if is_home info \<and> hs_hotkey_down st
         then (if down then st else st\<lparr>hs_hotkey_down := False\<rparr>, [], True)
         else if \<not> hs_grabbed st then (st, [], False)
         else if kb_scan info = FAKE_LCONTROL_SCAN then (st, [], True)
         else case kb_hid info of
                None \<Rightarrow> (st, [], True)
              | Some hid \<Rightarrow> grabbed_key d info hid down st)"

section \<open>The capture thread\<close>

definition monitor_center :: "win_desk \<Rightarrow> point \<Rightarrow> point" where
  "monitor_center d p =
     (case wd_monitor d p of
        Some (l, t, r, b) \<Rightarrow> r_center (Rect l t (i32 (r - l)) (i32 (b - t)))
      | None \<Rightarrow> r_center (wd_virtual d))"

text \<open>
  \<open>wc_window\<close>: the window that hides the cursor exists; \<open>wc_shown\<close>: it covers the desktop;
  \<open>wc_moves\<close>: the positions the cursor was put at, the last one first.
\<close>

record win_capture =
  wc_bounds :: rect
  wc_hooks :: hook_state
  wc_window :: bool
  wc_shown :: bool
  wc_moves :: "point list"
  wc_last_local :: "point option"
  wc_last_resync :: nat

datatype win_start_error = NoSize | NoMouseHook | NoKeyboardHook

definition win_new :: "win_desk \<Rightarrow> nat \<Rightarrow> win_start_error + win_capture" where
  "win_new d now =
     (let bounds = wd_virtual d
      in if r_w bounds \<le> 0 \<or> r_h bounds \<le> 0 then Inl NoSize
         else let c = r_center bounds;
                  st = resync d \<lparr>hs_grabbed = False, hs_center = (pt_x c, pt_y c), hs_keys = [], hs_buttons = [],
                         hs_hotkey_down = False, hs_held = 0, hs_caps = False, hs_num = False\<rparr>
              in if \<not> fst (wd_hooks d) then Inl NoMouseHook
                 else if \<not> snd (wd_hooks d) then Inl NoKeyboardHook
                 else Inr \<lparr>wc_bounds = bounds, wc_hooks = st, wc_window = wd_window d, wc_shown = False, wc_moves = [],
                           wc_last_local = None, wc_last_resync = now\<rparr>)"

definition win_grab :: "win_desk \<Rightarrow> win_capture \<Rightarrow> win_capture \<times> bool" where
  "win_grab d c =
     (let c = c\<lparr>wc_hooks := resync d (wc_hooks c)\<rparr>;
          here = (case wd_cursor d of Some p \<Rightarrow> p | None \<Rightarrow> r_center (wd_virtual d));
          center = monitor_center d here
      in if \<not> wd_can_move d then (c, False)
         else let c = c\<lparr>wc_moves := center # wc_moves c,
                       wc_hooks := (wc_hooks c)\<lparr>hs_center := (pt_x center, pt_y center), hs_keys := [], hs_buttons := []\<rparr>\<rparr>;
                  c = (if wc_window c then c\<lparr>wc_shown := True\<rparr> else c)
              in (c\<lparr>wc_hooks := (wc_hooks c)\<lparr>hs_grabbed := True\<rparr>\<rparr>, True))"

definition win_release :: "win_desk \<Rightarrow> point option \<Rightarrow> win_capture \<Rightarrow> win_capture option" where
  "win_release d warp_to c =
     (let c = c\<lparr>wc_hooks := (wc_hooks c)\<lparr>hs_grabbed := False, hs_keys := [], hs_buttons := []\<rparr>\<rparr>;
          c = (if wc_window c then c\<lparr>wc_shown := False\<rparr> else c)
      in case warp_to of
           None \<Rightarrow> Some c
         | Some p \<Rightarrow> do {
             p \<leftarrow> rect_clamp (wd_virtual d) p;
             Some (c\<lparr>wc_moves := (if wd_can_move d then p # wc_moves c else wc_moves c), wc_last_local := Some p\<rparr>) })"

definition win_cmd :: "win_desk \<Rightarrow> capture_cmd \<Rightarrow> win_capture \<Rightarrow> (win_capture \<times> capture_event list) option" where
  "win_cmd d cmd c =
     (case cmd of
        Grab \<Rightarrow>
          Some (if hs_grabbed (wc_hooks c) then (c, [])
                else case win_grab d c of (c, True) \<Rightarrow> (c, []) | (c, False) \<Rightarrow> (c, [GrabFailed]))
      | Ungrab warp \<Rightarrow> map_option (\<lambda>c. (c, [])) (win_release d (Some warp) c))"

text \<open>
  What the loop of \<^verbatim>\<open>run\<close> does: it takes the waiting commands, stops when nobody is there to talk to,
  lets Windows call the hooks, and while not grabbed reads the cursor and, every now and then, the
  modifiers. \<open>now\<close> is the time in milliseconds.
\<close>

definition win_poll :: "win_desk \<Rightarrow> nat \<Rightarrow> win_capture \<Rightarrow> win_capture \<times> capture_event list" where
  "win_poll d now c =
     (if hs_grabbed (wc_hooks c) then (c, [])
      else let c = (if now - wc_last_resync c \<ge> RESYNC_EVERY
                    then c\<lparr>wc_hooks := resync d (wc_hooks c), wc_last_resync := now\<rparr> else c)
           in case wd_cursor d of
                None \<Rightarrow> (c, [])
              | Some pos \<Rightarrow> if wc_last_local c \<noteq> Some pos then (c\<lparr>wc_last_local := Some pos\<rparr>, [Pointer pos]) else (c, []))"

definition win_stop :: "win_desk \<Rightarrow> win_capture \<Rightarrow> win_capture option" where
  "win_stop d c = (if hs_grabbed (wc_hooks c) then win_release d None c else Some c)"

datatype win_input =
    WinMouse mouse_msg mouse_info
  | WinKey key_msg kb_info
  | WinCmd capture_cmd
  | WinPoll nat

fun win_step :: "win_desk \<Rightarrow> win_input \<Rightarrow> win_capture \<Rightarrow> (win_capture \<times> capture_event list \<times> bool) option" where
  "win_step d (WinMouse msg info) c =
     (let (st, evs, swallow) = win_on_mouse msg info (wc_hooks c) in Some (c\<lparr>wc_hooks := st\<rparr>, evs, swallow))"
| "win_step d (WinKey msg info) c =
     (let (st, evs, swallow) = win_on_key d info msg (wc_hooks c) in Some (c\<lparr>wc_hooks := st\<rparr>, evs, swallow))"
| "win_step d (WinCmd cmd) c = map_option (\<lambda>(c, evs). (c, evs, False)) (win_cmd d cmd c)"
| "win_step d (WinPoll now) c = (let (c, evs) = win_poll d now c in Some (c, evs, False))"

text \<open>A run, with what each step sent and whether Windows was kept from seeing the input.\<close>

type_synonym win_trace = "(win_input \<times> capture_event list \<times> bool) list"

fun win_run :: "(win_desk \<times> win_input) list \<Rightarrow> win_capture \<Rightarrow> (win_capture \<times> win_trace) option" where
  "win_run [] c = Some (c, [])"
| "win_run ((d, i) # rest) c = do {
     (c, evs, swallow) \<leftarrow> win_step d i c;
     (c, tr) \<leftarrow> win_run rest c;
     Some (c, (i, evs, swallow) # tr) }"


section \<open>What the operations leave alone\<close>

lemma resync_fields [simp]:
  "hs_grabbed (resync d st) = hs_grabbed st" "hs_keys (resync d st) = hs_keys st"
  "hs_buttons (resync d st) = hs_buttons st" "hs_hotkey_down (resync d st) = hs_hotkey_down st"
  "hs_center (resync d st) = hs_center st"
  by (simp_all add: resync_def)

lemma track_modifier_fields [simp]:
  "hs_grabbed (track_modifier info down st) = hs_grabbed st" "hs_keys (track_modifier info down st) = hs_keys st"
  "hs_buttons (track_modifier info down st) = hs_buttons st"
  "hs_hotkey_down (track_modifier info down st) = hs_hotkey_down st"
  by (auto simp: track_modifier_def split: option.splits)

text \<open>The mouse: no key of the grab is touched, and without a grab nothing at all.\<close>

lemma on_button_result:
  assumes "on_button b bid down st = (st', evs, sw)"
  shows "hs_grabbed st' = hs_grabbed st" "hs_keys st' = hs_keys st" "hs_hotkey_down st' = hs_hotkey_down st"
    "evs = (if sw then [CButton b down] else [])" "st' = st\<lparr>hs_buttons := hs_buttons st'\<rparr>"
    "set (hs_buttons st') = (if down then insert bid (set (hs_buttons st)) else set (hs_buttons st) - {bid})"
    "sw \<longleftrightarrow> down \<or> bid \<in> set (hs_buttons st)"
  using assms by (auto simp: on_button_def split: if_splits)

lemma on_mouse_result:
  assumes "win_on_mouse msg info st = (st', evs, sw)"
  shows "hs_grabbed st' = hs_grabbed st" "hs_keys st' = hs_keys st" "hs_hotkey_down st' = hs_hotkey_down st"
    "\<not> hs_grabbed st \<Longrightarrow> st' = st \<and> evs = [] \<and> \<not> sw"
    "list_all pointing_event evs"
proof -
  note r = on_button_result
  have "hs_grabbed st' = hs_grabbed st \<and> hs_keys st' = hs_keys st \<and> hs_hotkey_down st' = hs_hotkey_down st
      \<and> (\<not> hs_grabbed st \<longrightarrow> st' = st \<and> evs = [] \<and> \<not> sw)
      \<and> list_all pointing_event evs"
  proof (cases "hs_grabbed st")
    case True
    with assms show ?thesis
      by (cases msg) (auto simp: win_on_mouse_def r Let_def split: prod.splits if_splits dest!: r(1-4))
  next
    case False
    with assms show ?thesis by (simp add: win_on_mouse_def)
  qed
  then show "hs_grabbed st' = hs_grabbed st" "hs_keys st' = hs_keys st" "hs_hotkey_down st' = hs_hotkey_down st"
    "\<not> hs_grabbed st \<Longrightarrow> st' = st \<and> evs = [] \<and> \<not> sw"
    "list_all pointing_event evs"
    by simp_all
qed

lemma on_mouse_keys:
  "win_on_mouse msg info st = (st', evs, sw) \<Longrightarrow> replay_keys True (map_of (hs_keys st)) evs = Some (map_of (hs_keys st'))"
  using on_mouse_result(2,5) pointing_events(1) by metis

text \<open>A key of the grab: one event, in turn with those before it, and swallowed exactly when it is reported.\<close>

lemma grabbed_key_result:
  assumes "grabbed_key d info hid down st = (st', evs, sw)"
  shows "hs_grabbed st' = hs_grabbed st" "hs_buttons st' = hs_buttons st" "hs_hotkey_down st' = hs_hotkey_down st"
    "sw \<longleftrightarrow> down \<or> bm_has (hs_keys st) hid" "list_all taken_event evs" "Hotkey \<notin> set evs"
    "map_of (hs_keys st') = (if down then (map_of (hs_keys st))(hid \<mapsto> the (bm_get (hs_keys st') hid))
                             else (map_of (hs_keys st))(hid := None))"
    "replay_keys True (map_of (hs_keys st)) evs = Some (map_of (hs_keys st'))"
proof -
  have "hs_grabbed st' = hs_grabbed st \<and> hs_buttons st' = hs_buttons st \<and> hs_hotkey_down st' = hs_hotkey_down st
    \<and> (sw \<longleftrightarrow> down \<or> bm_has (hs_keys st) hid) \<and> list_all taken_event evs \<and> Hotkey \<notin> set evs
    \<and> map_of (hs_keys st') = (if down then (map_of (hs_keys st))(hid \<mapsto> the (bm_get (hs_keys st') hid))
                             else (map_of (hs_keys st))(hid := None))
    \<and> replay_keys True (map_of (hs_keys st)) evs = Some (map_of (hs_keys st'))"
  proof (cases down)
    case True
    with assms show ?thesis
      by (auto simp: grabbed_key_def Let_def replay_key_def bm_has_iff fun_eq_iff split: option.splits if_splits)
  next
    case False
    with assms show ?thesis
      by (auto simp: grabbed_key_def Let_def replay_key_def bm_has_iff fun_eq_iff split: option.splits if_splits)
  qed
  then show "hs_grabbed st' = hs_grabbed st" "hs_buttons st' = hs_buttons st" "hs_hotkey_down st' = hs_hotkey_down st"
    "sw \<longleftrightarrow> down \<or> bm_has (hs_keys st) hid" "list_all taken_event evs" "Hotkey \<notin> set evs"
    "map_of (hs_keys st') = (if down then (map_of (hs_keys st))(hid \<mapsto> the (bm_get (hs_keys st') hid))
                             else (map_of (hs_keys st))(hid := None))"
    "replay_keys True (map_of (hs_keys st)) evs = Some (map_of (hs_keys st'))"
    by simp_all
qed

text \<open>Which way \<^const>\<open>win_on_key\<close> takes.\<close>

lemma on_key_cases:
  assumes "win_on_key d info msg st = (st', evs, sw)"
  obtains (hotkey) "is_home info" "key_down msg" "st' = (track_modifier info True st)\<lparr>hs_hotkey_down := True\<rparr>"
      "evs = (if hs_hotkey_down st then [] else [Hotkey])" "sw"
    | (chord) "is_home info" "hs_hotkey_down st" "evs = []" "sw"
      "st' = (if key_down msg then track_modifier info True st else (track_modifier info False st)\<lparr>hs_hotkey_down := False\<rparr>)"
    | (passed) "\<not> hs_grabbed st" "\<not> (is_home info \<and> hs_hotkey_down st)" "st' = track_modifier info (key_down msg) st" "evs = []" "\<not> sw"
    | (nameless) "hs_grabbed st" "\<not> (is_home info \<and> hs_hotkey_down st)" "st' = track_modifier info (key_down msg) st" "evs = []" "sw"
      "kb_scan info = FAKE_LCONTROL_SCAN \<or> kb_hid info = None"
    | (key) hid where "hs_grabbed st" "\<not> (is_home info \<and> hs_hotkey_down st)" "kb_hid info = Some hid" "kb_scan info \<noteq> FAKE_LCONTROL_SCAN"
      "grabbed_key d info hid (key_down msg) (track_modifier info (key_down msg) st) = (st', evs, sw)"
  using assms by (auto simp: win_on_key_def Let_def split: if_splits option.splits)

lemma on_key_result:
  assumes "win_on_key d info msg st = (st', evs, sw)"
  shows "hs_grabbed st' = hs_grabbed st" "hs_buttons st' = hs_buttons st"
    "\<not> hs_grabbed st \<Longrightarrow> hs_keys st' = hs_keys st \<and> list_all local_event evs"
    "list_all taken_event evs"
    "replay_keys True (map_of (hs_keys st)) evs = Some (map_of (hs_keys st'))"
proof -
  have "hs_grabbed st' = hs_grabbed st \<and> hs_buttons st' = hs_buttons st
     \<and> (\<not> hs_grabbed st \<longrightarrow> hs_keys st' = hs_keys st \<and> list_all local_event evs)
     \<and> list_all taken_event evs \<and> replay_keys True (map_of (hs_keys st)) evs = Some (map_of (hs_keys st'))"
    using assms
  proof (cases rule: on_key_cases)
    case (key hid)
    then show ?thesis using grabbed_key_result [OF key(5)] by simp
  qed auto
  then show "hs_grabbed st' = hs_grabbed st" "hs_buttons st' = hs_buttons st"
    "\<not> hs_grabbed st \<Longrightarrow> hs_keys st' = hs_keys st \<and> list_all local_event evs"
    "list_all taken_event evs"
    "replay_keys True (map_of (hs_keys st)) evs = Some (map_of (hs_keys st'))" by simp_all
qed

section \<open>The backend keeps its contract\<close>

definition win_events :: "win_desk \<times> win_input \<Rightarrow> win_capture \<Rightarrow> (win_capture \<times> capture_event list) option" where
  "win_events di c = (case di of (d, i) \<Rightarrow> map_option (\<lambda>(c, evs, _). (c, evs)) (win_step d i c))"

fun is_cmd :: "win_desk \<times> win_input \<Rightarrow> bool" where
  "is_cmd (_, WinCmd _) = True"
| "is_cmd _ = False"

lemma win_release_fields:
  assumes "win_release d w c = Some c'"
  shows "\<not> hs_grabbed (wc_hooks c')" "hs_keys (wc_hooks c') = []" "hs_buttons (wc_hooks c') = []"
    "hs_hotkey_down (wc_hooks c') = hs_hotkey_down (wc_hooks c)"
    "wc_window c' = wc_window c" "wc_shown c' = (if wc_window c then False else wc_shown c)"
  using assms by (auto simp: win_release_def Let_def bind_eq_Some_conv split: option.splits if_splits)

lemma win_grab_fields:
  assumes "win_grab d c = (c', ok)"
  shows "hs_grabbed (wc_hooks c') = (ok \<or> hs_grabbed (wc_hooks c))"
    "hs_keys (wc_hooks c') = (if ok then [] else hs_keys (wc_hooks c))"
    "hs_buttons (wc_hooks c') = (if ok then [] else hs_buttons (wc_hooks c))"
    "hs_hotkey_down (wc_hooks c') = hs_hotkey_down (wc_hooks c)"
    "wc_window c' = wc_window c" "wc_shown c' = (if ok \<and> wc_window c then True else wc_shown c)"
  using assms by (auto simp: win_grab_def Let_def split: if_splits)

lemma win_poll_fields:
  assumes "win_poll d now c = (c', evs)"
  shows "hs_grabbed (wc_hooks c') = hs_grabbed (wc_hooks c)" "hs_keys (wc_hooks c') = hs_keys (wc_hooks c)"
    "hs_buttons (wc_hooks c') = hs_buttons (wc_hooks c)" "hs_hotkey_down (wc_hooks c') = hs_hotkey_down (wc_hooks c)"
    "wc_window c' = wc_window c" "wc_shown c' = wc_shown c"
    "hs_grabbed (wc_hooks c) \<Longrightarrow> c' = c \<and> evs = []" "list_all local_event evs" "GrabFailed \<notin> set evs" "Hotkey \<notin> set evs"
  using assms by (auto simp: win_poll_def Let_def split: if_splits option.splits)

lemma win_cmd_cases:
  assumes "win_cmd d cmd c = Some (c', evs)"
  obtains (kept) "cmd = Grab" "hs_grabbed (wc_hooks c)" "c' = c" "evs = []"
    | (grab) ok where "cmd = Grab" "\<not> hs_grabbed (wc_hooks c)" "win_grab d c = (c', ok)" "evs = (if ok then [] else [GrabFailed])"
    | (release) p where "cmd = Ungrab p" "win_release d (Some p) c = Some c'" "evs = []"
  using assms by (cases cmd) (auto simp: win_cmd_def split: if_splits prod.splits bool.splits)

interpretation win: capture_keys win_events "\<lambda>c. hs_grabbed (wc_hooks c)" is_cmd "\<lambda>i. snd i = WinCmd Grab"
  "\<lambda>c. map_of (hs_keys (wc_hooks c))" True
proof
  fix i c c' evs
  assume s: "win_events i c = Some (c', evs)"
  obtain d j where i: "i = (d, j)" by (cases i)
  from s obtain sw where w: "win_step d j c = Some (c', evs, sw)" by (auto simp: win_events_def i)
  note res = on_mouse_result on_mouse_keys pointing_events(2-4) [OF on_mouse_result(5)] taken_not_failed [OF on_key_result(4)] on_key_result win_grab_fields win_release_fields win_poll_fields
  show "list_all local_event evs" if "\<not> hs_grabbed (wc_hooks c)"
    using w that by (cases j) (auto split: prod.splits elim!: win_cmd_cases dest: res)
  show "list_all taken_event evs" if "hs_grabbed (wc_hooks c)"
    using w that by (cases j) (auto split: prod.splits elim!: win_cmd_cases dest: res)
  show "\<not> hs_grabbed (wc_hooks c')" if "\<not> hs_grabbed (wc_hooks c)" "snd i \<noteq> WinCmd Grab"
    using w that i by (cases j) (auto split: prod.splits elim!: win_cmd_cases dest: res)
  show "hs_grabbed (wc_hooks c')" if "hs_grabbed (wc_hooks c)" "\<not> is_cmd i"
    using w that i by (cases j) (auto split: prod.splits elim!: win_cmd_cases dest: res)
  show "\<not> hs_grabbed (wc_hooks c')" if "GrabFailed \<in> set evs"
    using w that by (cases j) (auto split: prod.splits elim!: win_cmd_cases dest: res)
  show "replay_keys True (map_of (hs_keys (wc_hooks c))) evs = Some (map_of (hs_keys (wc_hooks c')))"
    if "hs_grabbed (wc_hooks c)" "\<not> is_cmd i"
    using w that i by (cases j) (auto split: prod.splits elim!: win_cmd_cases dest: res)
  show "map_of (hs_keys (wc_hooks c')) = Map.empty" if "\<not> hs_grabbed (wc_hooks c)" "hs_grabbed (wc_hooks c')"
    using w that
    by (cases j)
      (auto split: prod.splits elim!: win_cmd_cases simp: win_grab_fields(1,2) dest: on_mouse_result(1) on_key_result(1) win_release_fields(1) win_poll_fields(1))
qed

end
