(* ===== verification/Capture_Win_Run.thy ===== *)
theory Capture_Win_Run
  imports Capture_Win
begin

text \<open>
  Runs of the Windows backend: what the local desktop is shown. A key or button is followed from its
  press to its release; the hooks either show the desktop both or, as long as the grab lasts, neither.
\<close>

section \<open>Taking a run apart\<close>

lemma win_run_split:
  assumes "win_run is c = Some (c', tr)" "tr = before @ (i, evs, sw) # after"
  obtains d is1 is2 c1 c2 where "win_run is1 c = Some (c1, before)" "win_step d i c1 = Some (c2, evs, sw)"
    "win_run is2 c2 = Some (c', after)" "is = is1 @ (d, i) # is2"
  using assms
proof (induction before arbitrary: "is" c tr thesis)
  case Nil
  then obtain d rest c2 tr' where "is = (d, i) # rest" "win_step d i c = Some (c2, evs, sw)" "win_run rest c2 = Some (c', after)"
    by (cases "is") (auto split: prod.splits bind_splits)
  then show ?case using Nil.prems(1) [of "[]" c d c2 rest] by simp
next
  case (Cons x before)
  obtain j e s where x: "x = (j, e, s)" by (cases x)
  with Cons.prems obtain d rest c2 where r: "is = (d, j) # rest" "win_step d j c = Some (c2, e, s)"
    "win_run rest c2 = Some (c', before @ (i, evs, sw) # after)"
    by (cases "is") (auto split: prod.splits bind_splits)
  show ?case
  proof (rule Cons.IH [OF _ r(3) refl])
    fix is1 c1 d' c3 is2
    assume "win_run is1 c2 = Some (c1, before)" "win_step d' i c1 = Some (c3, evs, sw)"
      "win_run is2 c3 = Some (c', after)" "rest = is1 @ (d', i) # is2"
    then show thesis using Cons.prems(1) [of "(d, j) # is1" c1 d' c3 is2] r x by simp
  qed
qed

lemma win_run_keeps:
  assumes "win_run is c = Some (c', tr)" "P c"
    and "\<And>d i c c' evs sw. P c \<Longrightarrow> i \<in> fst ` set tr \<Longrightarrow> win_step d i c = Some (c', evs, sw) \<Longrightarrow> P c'"
  shows "P c'"
  using assms
proof (induction "is" arbitrary: c tr)
  case (Cons di rest)
  from Cons.prems(1) obtain d i c1 evs sw tr' where r: "di = (d, i)" "win_step d i c = Some (c1, evs, sw)" "win_run rest c1 = Some (c', tr')"
    "tr = (i, evs, sw) # tr'"
    by (cases di) (auto split: prod.splits bind_splits)
  have "P c1" by (rule Cons.prems(3) [OF Cons.prems(2) _ r(2)]) (simp add: r(4))
  then show ?case
  proof (rule Cons.IH [OF r(3)])
    fix d i c c' evs sw
    assume "P c" "i \<in> fst ` set tr'" "win_step d i c = Some (c', evs, sw)"
    then show "P c'" using Cons.prems(3) [of c i d c' evs sw] r(4) by simp
  qed
qed simp

section \<open>The state between two steps\<close>

text \<open>Without a grab nothing counts as swallowed, and the window that hides the cursor is out of the way.\<close>

definition win_inv :: "win_capture \<Rightarrow> bool" where
  "win_inv c \<longleftrightarrow>
     (\<not> hs_grabbed (wc_hooks c) \<longrightarrow> hs_keys (wc_hooks c) = [] \<and> hs_buttons (wc_hooks c) = [])
     \<and> (wc_shown c \<longleftrightarrow> hs_grabbed (wc_hooks c) \<and> wc_window c)"

lemma win_new_inv: "win_new d now = Inr c \<Longrightarrow> win_inv c"
  by (auto simp: win_new_def win_inv_def Let_def split: if_splits)

lemma on_mouse_state:
  "win_on_mouse msg info st = (st', evs, sw) \<Longrightarrow> hs_grabbed st' = hs_grabbed st \<and> (\<not> hs_grabbed st \<longrightarrow> st' = st)"
  using on_mouse_result(1,4) by simp

lemma win_step_inv:
  assumes "win_inv c" "win_step d i c = Some (c', evs, sw)"
  shows "win_inv c'"
proof (cases i)
  case (WinMouse msg info)
  with assms show ?thesis by (auto simp: win_inv_def split: prod.splits dest: on_mouse_state)
next
  case (WinKey msg info)
  with assms(2) obtain st' where k: "win_on_key d info msg (wc_hooks c) = (st', evs, sw)" "c' = c\<lparr>wc_hooks := st'\<rparr>"
    by (auto split: prod.splits)
  show ?thesis using assms(1) on_key_result(1-3) [OF k(1)] k(2) by (auto simp: win_inv_def)
next
  case (WinCmd cmd)
  with assms have "win_cmd d cmd c = Some (c', evs)" by auto
  then show ?thesis using assms(1)
    by (cases rule: win_cmd_cases) (simp_all add: win_inv_def win_grab_fields win_release_fields split: if_splits)
next
  case (WinPoll now)
  with assms show ?thesis by (auto simp: win_inv_def split: prod.splits dest: win_poll_fields(1-6))
qed

lemma win_run_inv: "win_inv c \<Longrightarrow> win_run is c = Some (c', tr) \<Longrightarrow> win_inv c'"
  by (erule win_run_keeps) (auto intro: win_step_inv)

section \<open>Keys and buttons\<close>

datatype control = KeyControl nat | ButtonControl nat

text \<open>
  Which key or button an input is about, and whether it goes down. The Ctrl that Windows makes up for
  AltGr and the keys and buttons without a code have none.
\<close>

definition mouse_control :: "mouse_msg \<Rightarrow> mouse_info \<Rightarrow> nat option" where
  "mouse_control msg info =
     (case msg of
        WmLeft _ \<Rightarrow> Some BTN_LEFT | WmRight _ \<Rightarrow> Some BTN_RIGHT | WmMiddle _ \<Rightarrow> Some BTN_MIDDLE
      | WmX _ \<Rightarrow> (if mi_data info div 65536 mod 65536 = 1 then Some BTN_BACK
                  else if mi_data info div 65536 mod 65536 = 2 then Some BTN_FORWARD else None)
      | _ \<Rightarrow> None)"

fun control_of :: "win_input \<Rightarrow> control option" where
  "control_of (WinMouse msg info) = map_option ButtonControl (mouse_control msg info)"
| "control_of (WinKey msg info) =
     (if kb_scan info = FAKE_LCONTROL_SCAN then None else map_option KeyControl (kb_hid info))"
| "control_of _ = None"

fun goes_down :: "win_input \<Rightarrow> bool" where
  "goes_down (WinMouse (WmLeft down) _) = down"
| "goes_down (WinMouse (WmRight down) _) = down"
| "goes_down (WinMouse (WmMiddle down) _) = down"
| "goes_down (WinMouse (WmX down) _) = down"
| "goes_down (WinKey msg _) = key_down msg"
| "goes_down _ = False"

text \<open>Windows reports the Home key with its own scan code, and no other key with it.\<close>

fun ordinary :: "win_input \<Rightarrow> bool" where
  "ordinary (WinKey msg info) \<longleftrightarrow> (is_home info \<longleftrightarrow> kb_hid info = Some 0x4A \<and> kb_scan info \<noteq> FAKE_LCONTROL_SCAN)"
| "ordinary _ = True"

text \<open>The press of \<open>k\<close> was kept from the desktop, as far as the hooks remember.\<close>

fun taken :: "control \<Rightarrow> win_capture \<Rightarrow> bool" where
  "taken (KeyControl hid) c \<longleftrightarrow> bm_has (hs_keys (wc_hooks c)) hid \<or> hid = 0x4A \<and> hs_hotkey_down (wc_hooks c)"
| "taken (ButtonControl b) c \<longleftrightarrow> b \<in> set (hs_buttons (wc_hooks c))"

text \<open>A mouse input: of the button it is about, or of none.\<close>

lemma on_mouse_control:
  assumes "win_on_mouse msg info st = (st', evs, sw)" "hs_grabbed st"
  shows "case mouse_control msg info of
      None \<Rightarrow> st' = st
    | Some b \<Rightarrow> (\<exists>btn. on_button btn b (goes_down (WinMouse msg info)) st = (st', evs, sw))"
  using assms by (cases msg) (auto simp: win_on_mouse_def mouse_control_def Let_def split: prod.splits if_splits)

lemma on_mouse_taken:
  assumes "win_on_mouse msg info st = (st', evs, sw)" "hs_grabbed st"
  shows "mouse_control msg info \<noteq> Some b \<Longrightarrow> b \<in> set (hs_buttons st') \<longleftrightarrow> b \<in> set (hs_buttons st)"
    "mouse_control msg info = Some b \<Longrightarrow> sw \<longleftrightarrow> goes_down (WinMouse msg info) \<or> b \<in> set (hs_buttons st)"
    "mouse_control msg info = Some b \<Longrightarrow> goes_down (WinMouse msg info) \<Longrightarrow> b \<in> set (hs_buttons st')"
proof -
  have "case mouse_control msg info of None \<Rightarrow> st' = st
    | Some b' \<Rightarrow> set (hs_buttons st') = (if goes_down (WinMouse msg info) then insert b' (set (hs_buttons st)) else set (hs_buttons st) - {b'})
        \<and> (sw \<longleftrightarrow> goes_down (WinMouse msg info) \<or> b' \<in> set (hs_buttons st))"
    using on_mouse_control [OF assms] on_button_result(6,7) by (cases "mouse_control msg info") (simp, fastforce)
  then show "mouse_control msg info \<noteq> Some b \<Longrightarrow> b \<in> set (hs_buttons st') \<longleftrightarrow> b \<in> set (hs_buttons st)"
    "mouse_control msg info = Some b \<Longrightarrow> sw \<longleftrightarrow> goes_down (WinMouse msg info) \<or> b \<in> set (hs_buttons st)"
    "mouse_control msg info = Some b \<Longrightarrow> goes_down (WinMouse msg info) \<Longrightarrow> b \<in> set (hs_buttons st')"
    by (cases "mouse_control msg info"; simp)+
qed

text \<open>A key input: of the key it is about, or of none.\<close>

lemma grabbed_key_has:
  assumes "grabbed_key d info hid down st = (st', evs, sw)"
  shows "bm_has (hs_keys st') h \<longleftrightarrow> (if h = hid then down else bm_has (hs_keys st) h)"
  using grabbed_key_result(7) [OF assms] by (cases "bm_get (hs_keys st') h") (auto simp: bm_has_iff split: if_splits dest: fun_cong [where x = h])

lemma on_key_taken:
  assumes "win_on_key d info msg st = (st', evs, sw)" "ordinary (WinKey msg info)" "control_of (WinKey msg info) \<noteq> Some (KeyControl hid)"
  shows "bm_has (hs_keys st') hid \<longleftrightarrow> bm_has (hs_keys st) hid"
    "hid = 0x4A \<Longrightarrow> hs_hotkey_down st' = hs_hotkey_down st"
proof -
  have "(bm_has (hs_keys st') hid \<longleftrightarrow> bm_has (hs_keys st) hid) \<and> (hid = 0x4A \<longrightarrow> hs_hotkey_down st' = hs_hotkey_down st)"
    using assms(1)
  proof (cases rule: on_key_cases)
    case (key hid')
    then show ?thesis using grabbed_key_result(3) [OF key(5)] grabbed_key_has [OF key(5)] assms(3) by auto
  qed (use assms(2,3) in \<open>auto split: if_splits\<close>)
  then show "bm_has (hs_keys st') hid \<longleftrightarrow> bm_has (hs_keys st) hid" "hid = 0x4A \<Longrightarrow> hs_hotkey_down st' = hs_hotkey_down st"
    by simp_all
qed

lemma on_key_press:
  assumes "win_on_key d info msg st = (st', evs, sw)" "ordinary (WinKey msg info)"
    "control_of (WinKey msg info) = Some (KeyControl hid)" "key_down msg"
    "\<not> hs_grabbed st \<Longrightarrow> hs_keys st = []"
  shows "sw \<longleftrightarrow> bm_has (hs_keys st') hid \<or> hid = 0x4A \<and> hs_hotkey_down st'"
  using assms(1)
proof (cases rule: on_key_cases)
  case (key hid')
  then show ?thesis using grabbed_key_result(4) [OF key(5)] grabbed_key_has [OF key(5)] assms(3,4) by (auto split: if_splits)
qed (use assms(2-5) in \<open>auto split: if_splits\<close>)

lemma on_key_release:
  assumes "win_on_key d info msg st = (st', evs, sw)" "ordinary (WinKey msg info)"
    "control_of (WinKey msg info) = Some (KeyControl hid)" "\<not> key_down msg"
    "\<not> hs_grabbed st \<Longrightarrow> hs_keys st = []"
  shows "sw \<longleftrightarrow> bm_has (hs_keys st) hid \<or> hid = 0x4A \<and> hs_hotkey_down st"
  using assms(1)
proof (cases rule: on_key_cases)
  case (key hid')
  then show ?thesis using grabbed_key_result(4) [OF key(5)] assms(2-4) by (auto split: if_splits)
qed (use assms(2-5) in \<open>auto split: if_splits\<close>)

text \<open>Together, for a step of the backend.\<close>

lemma step_other:
  assumes "win_step d i c = Some (c', evs, sw)" "win_inv c" "ordinary i" "control_of i \<noteq> Some k"
  shows "\<not> taken k c \<Longrightarrow> \<not> taken k c'" "\<forall>cmd. i \<noteq> WinCmd cmd \<Longrightarrow> taken k c \<Longrightarrow> taken k c'"
proof -
  have "(\<not> taken k c \<longrightarrow> \<not> taken k c') \<and> ((\<forall>cmd. i \<noteq> WinCmd cmd) \<longrightarrow> taken k c \<longrightarrow> taken k c')"
  proof (cases i)
    case (WinMouse msg info)
    with assms(1) obtain st' where m: "win_on_mouse msg info (wc_hooks c) = (st', evs, sw)" "c' = c\<lparr>wc_hooks := st'\<rparr>"
      by (auto split: prod.splits)
    then show ?thesis
      using on_mouse_taken(1) [OF m(1)] on_mouse_result(2,3,4) [OF m(1)] assms(4) WinMouse
      by (cases k; cases "hs_grabbed (wc_hooks c)") auto
  next
    case (WinKey msg info)
    with assms(1) obtain st' where m: "win_on_key d info msg (wc_hooks c) = (st', evs, sw)" "c' = c\<lparr>wc_hooks := st'\<rparr>"
      by (auto split: prod.splits)
    then show ?thesis
      using on_key_taken [OF m(1)] on_key_result(2) [OF m(1)] assms(3,4) WinKey by (cases k) auto
  next
    case (WinCmd cmd)
    with assms(1) have "win_cmd d cmd c = Some (c', evs)" by auto
    then show ?thesis using WinCmd
      by (cases rule: win_cmd_cases; cases k) (simp_all add: win_grab_fields(2-4) win_release_fields(2-4) split: if_splits)
  next
    case (WinPoll now)
    then show ?thesis using assms(1) by (cases k) (auto dest: win_poll_fields(1-4) split: prod.splits)
  qed
  then show "\<not> taken k c \<Longrightarrow> \<not> taken k c'" "\<forall>cmd. i \<noteq> WinCmd cmd \<Longrightarrow> taken k c \<Longrightarrow> taken k c'" by blast+
qed

lemma step_control:
  assumes "win_step d i c = Some (c', evs, sw)" "win_inv c" "ordinary i" "control_of i = Some k"
  shows "sw \<longleftrightarrow> taken k (if goes_down i then c' else c)"
proof (cases i)
  case (WinMouse msg info)
  with assms obtain st' b where m: "win_on_mouse msg info (wc_hooks c) = (st', evs, sw)" "c' = c\<lparr>wc_hooks := st'\<rparr>"
      "k = ButtonControl b" "mouse_control msg info = Some b"
    by (auto split: prod.splits)
  then show ?thesis
    using on_mouse_taken(2,3) [OF m(1) _ m(4)] on_mouse_result(4) [OF m(1)] assms(2) WinMouse
    by (cases "hs_grabbed (wc_hooks c)") (auto simp: win_inv_def)
next
  case (WinKey msg info)
  with assms obtain st' hid where m: "win_on_key d info msg (wc_hooks c) = (st', evs, sw)" "c' = c\<lparr>wc_hooks := st'\<rparr>" "k = KeyControl hid"
    by (auto split: prod.splits if_splits)
  then show ?thesis
    using on_key_press [OF m(1)] on_key_release [OF m(1)] assms WinKey by (auto simp: win_inv_def)
qed (use assms in auto)


section \<open>From the press to the release\<close>

lemma win_run_inputs: "win_run is c = Some (c', tr) \<Longrightarrow> map fst tr = map snd is"
  by (induction "is" c arbitrary: c' tr rule: win_run.induct) (auto split: prod.splits bind_splits)

lemma control_followed:
  assumes run: "win_run is c = Some (c', tr)" "win_inv c" "\<forall>i \<in> snd ` set is. ordinary i"
    and tr: "tr = before @ (i, e, sw) # mid @ (j, e', sw') # after"
    and about: "control_of i = Some k" "control_of j = Some k" "goes_down i" "\<not> goes_down j"
      "\<forall>x \<in> fst ` set mid. control_of x \<noteq> Some k"
  shows "\<not> sw \<Longrightarrow> \<not> sw'" "(\<forall>x \<in> fst ` set mid. \<forall>cmd. x \<noteq> WinCmd cmd) \<Longrightarrow> sw' = sw"
proof -
  have "map fst tr = map snd is" by (rule win_run_inputs [OF run(1)])
  then have ord: "\<forall>x \<in> fst ` set tr. ordinary x" using run(3) by (metis list.set_map)
  obtain d is1 is2 c1 c2 where s: "win_run is1 c = Some (c1, before)" "win_step d i c1 = Some (c2, e, sw)"
      "win_run is2 c2 = Some (c', mid @ (j, e', sw') # after)"
    using win_run_split [OF run(1) tr] by metis
  obtain d' is3 is4 c3 c4 where t: "win_run is3 c2 = Some (c3, mid)" "win_step d' j c3 = Some (c4, e', sw')"
    using win_run_split [OF s(3) refl] by metis
  have inv: "win_inv c2" by (rule win_step_inv [OF win_run_inv [OF run(2) s(1)] s(2)])
  have now: "sw \<longleftrightarrow> taken k c2"
    using step_control [OF s(2) win_run_inv [OF run(2) s(1)] _ about(1)] ord tr about(3) by simp
  have later: "sw' \<longleftrightarrow> taken k c3"
    using step_control [OF t(2) win_run_inv [OF inv t(1)] _ about(2)] ord tr about(4) by simp
  have quiet: "ordinary x \<and> control_of x \<noteq> Some k" if "x \<in> fst ` set mid" for x
    using that ord tr about(5) by auto
  have free: "win_inv c3 \<and> \<not> taken k c3" if "\<not> taken k c2"
  proof (rule win_run_keeps [OF t(1), where P = "\<lambda>c. win_inv c \<and> \<not> taken k c"])
    show "win_inv c2 \<and> \<not> taken k c2" using that inv by simp
    show "win_inv c' \<and> \<not> taken k c'" if "win_inv c \<and> \<not> taken k c" "x \<in> fst ` set mid" "win_step d x c = Some (c', evs, sw)"
      for d x c c' evs sw
      using that quiet step_other(1) [OF that(3)] win_step_inv [OF _ that(3)] by blast
  qed
  show "\<not> sw'" if "\<not> sw" using that now later free by simp
  show "sw' = sw" if none: "\<forall>x \<in> fst ` set mid. \<forall>cmd. x \<noteq> WinCmd cmd"
  proof (cases "taken k c2")
    case True
    have "win_inv c3 \<and> taken k c3"
    proof (rule win_run_keeps [OF t(1), where P = "\<lambda>c. win_inv c \<and> taken k c"])
      show "win_inv c2 \<and> taken k c2" using True inv by simp
      show "win_inv c' \<and> taken k c'" if "win_inv c \<and> taken k c" "x \<in> fst ` set mid" "win_step d x c = Some (c', evs, sw)"
        for d x c c' evs sw
        using that none quiet step_other(2) [OF that(3)] win_step_inv [OF _ that(3)] by blast
    qed
    then show ?thesis using True now later by simp
  qed (use now later free in simp)
qed

section \<open>The hotkey\<close>

fun home_input :: "bool \<Rightarrow> win_input \<Rightarrow> bool" where
  "home_input down (WinKey msg info) \<longleftrightarrow> is_home info \<and> key_down msg = down"
| "home_input _ _ = False"

text \<open>Home goes down while Ctrl and Alt are held.\<close>

fun asks_hotkey :: "win_input \<Rightarrow> win_capture \<Rightarrow> bool" where
  "asks_hotkey (WinKey msg info) c \<longleftrightarrow>
     is_home info \<and> key_down msg \<and> ctrl_and_alt_held (track_modifier info True (wc_hooks c))"
| "asks_hotkey _ _ = False"

lemma on_key_hotkey:
  assumes "win_on_key d info msg st = (st', evs, sw)"
    and asks: "asks = (is_home info \<and> key_down msg \<and> ctrl_and_alt_held (track_modifier info True st))"
  shows "Hotkey \<in> set evs \<longleftrightarrow> asks \<and> \<not> hs_hotkey_down st"
    "Hotkey \<in> set evs \<Longrightarrow> evs = [Hotkey] \<and> sw"
    "hs_hotkey_down st' \<longleftrightarrow> asks \<or> hs_hotkey_down st \<and> \<not> (is_home info \<and> \<not> key_down msg)"
    "hs_hotkey_down st \<Longrightarrow> is_home info \<Longrightarrow> evs = [] \<and> sw"
proof -
  have "(Hotkey \<in> set evs \<longleftrightarrow> asks \<and> \<not> hs_hotkey_down st) \<and> (Hotkey \<in> set evs \<longrightarrow> evs = [Hotkey] \<and> sw)
    \<and> (hs_hotkey_down st' \<longleftrightarrow> asks \<or> hs_hotkey_down st \<and> \<not> (is_home info \<and> \<not> key_down msg))
    \<and> (hs_hotkey_down st \<longrightarrow> is_home info \<longrightarrow> evs = [] \<and> sw)"
  proof (cases asks)
    case True
    then show ?thesis using assms by (auto simp: win_on_key_def)
  next
    case False
    then have na: "\<not> (is_home info \<and> key_down msg \<and> ctrl_and_alt_held (track_modifier info (key_down msg) st))"
      using asks by (cases "key_down msg") auto
    have r: "win_on_key d info msg st =
      (let st = track_modifier info (key_down msg) st
       in if is_home info \<and> hs_hotkey_down st
          then (if key_down msg then st else st\<lparr>hs_hotkey_down := False\<rparr>, [], True)
          else if \<not> hs_grabbed st then (st, [], False)
          else if kb_scan info = FAKE_LCONTROL_SCAN then (st, [], True)
          else case kb_hid info of
                 None \<Rightarrow> (st, [], True)
               | Some hid \<Rightarrow> grabbed_key d info hid (key_down msg) st)"
      using na by (cases "key_down msg") (auto simp: win_on_key_def Let_def split: option.split)
    show ?thesis
      using assms(1) False unfolding r
      by (auto simp: Let_def split: if_splits option.splits dest: grabbed_key_result(3,6))
  qed
  then show "Hotkey \<in> set evs \<longleftrightarrow> asks \<and> \<not> hs_hotkey_down st"
    "Hotkey \<in> set evs \<Longrightarrow> evs = [Hotkey] \<and> sw"
    "hs_hotkey_down st' \<longleftrightarrow> asks \<or> hs_hotkey_down st \<and> \<not> (is_home info \<and> \<not> key_down msg)"
    "hs_hotkey_down st \<Longrightarrow> is_home info \<Longrightarrow> evs = [] \<and> sw" by blast+
qed

lemma hotkey_step:
  assumes "win_step d i c = Some (c', evs, sw)"
  shows "Hotkey \<in> set evs \<longleftrightarrow> asks_hotkey i c \<and> \<not> hs_hotkey_down (wc_hooks c)"
    "Hotkey \<in> set evs \<Longrightarrow> evs = [Hotkey] \<and> sw"
    "hs_hotkey_down (wc_hooks c') \<longleftrightarrow> asks_hotkey i c \<or> hs_hotkey_down (wc_hooks c) \<and> \<not> home_input False i"
    "hs_hotkey_down (wc_hooks c) \<Longrightarrow> home_input b i \<Longrightarrow> evs = [] \<and> sw"
proof -
  have "(Hotkey \<in> set evs \<longleftrightarrow> asks_hotkey i c \<and> \<not> hs_hotkey_down (wc_hooks c))
    \<and> (Hotkey \<in> set evs \<longrightarrow> evs = [Hotkey] \<and> sw)
    \<and> (hs_hotkey_down (wc_hooks c') \<longleftrightarrow> asks_hotkey i c \<or> hs_hotkey_down (wc_hooks c) \<and> \<not> home_input False i)
    \<and> (hs_hotkey_down (wc_hooks c) \<longrightarrow> home_input b i \<longrightarrow> evs = [] \<and> sw)"
  proof (cases i)
    case (WinMouse msg info)
    with assms obtain st' where m: "win_on_mouse msg info (wc_hooks c) = (st', evs, sw)" "c' = c\<lparr>wc_hooks := st'\<rparr>"
      by (auto split: prod.splits)
    then show ?thesis
      using on_mouse_result(3) [OF m(1)] pointing_events(4) [OF on_mouse_result(5) [OF m(1)]] WinMouse by simp
  next
    case (WinKey msg info)
    with assms obtain st' where m: "win_on_key d info msg (wc_hooks c) = (st', evs, sw)" "c' = c\<lparr>wc_hooks := st'\<rparr>"
      by (auto split: prod.splits)
    show ?thesis
      using on_key_hotkey(1,3,4) [OF m(1) refl] on_key_hotkey(2) [OF m(1) refl] WinKey m(2) by simp
  next
    case (WinCmd cmd)
    with assms have "win_cmd d cmd c = Some (c', evs)" by auto
    then show ?thesis using WinCmd
      by (cases rule: win_cmd_cases) (simp_all add: win_grab_fields(4) win_release_fields(4))
  next
    case (WinPoll now)
    then show ?thesis using assms by (auto dest: win_poll_fields(4,10) split: prod.splits)
  qed
  then show "Hotkey \<in> set evs \<longleftrightarrow> asks_hotkey i c \<and> \<not> hs_hotkey_down (wc_hooks c)"
    "Hotkey \<in> set evs \<Longrightarrow> evs = [Hotkey] \<and> sw"
    "hs_hotkey_down (wc_hooks c') \<longleftrightarrow> asks_hotkey i c \<or> hs_hotkey_down (wc_hooks c) \<and> \<not> home_input False i"
    "hs_hotkey_down (wc_hooks c) \<Longrightarrow> home_input b i \<Longrightarrow> evs = [] \<and> sw" by blast+
qed

lemma hotkey_followed:
  assumes "win_step d i c = Some (c1, e, sw)" "Hotkey \<in> set e"
    and "win_run is c1 = Some (c2, mid)" "\<forall>x \<in> fst ` set mid. \<not> home_input False x"
  shows "hs_hotkey_down (wc_hooks c2)"
proof (rule win_run_keeps [OF assms(3), where P = "\<lambda>c. hs_hotkey_down (wc_hooks c)"])
  show "hs_hotkey_down (wc_hooks c1)" using hotkey_step(1,3) [OF assms(1)] assms(2) by blast
  show "hs_hotkey_down (wc_hooks c')" if "hs_hotkey_down (wc_hooks c)" "x \<in> fst ` set mid" "win_step d x c = Some (c', evs, sw)"
    for d x c c' evs sw
    using hotkey_step(3) [OF that(3)] that(1,2) assms(4) by blast
qed

section \<open>What the hooks keep for themselves\<close>

text \<open>
  A key without a HID usage, and the Ctrl that Windows makes up for AltGr, are swallowed in a grab
  whether they go down or come up: one that was already down when the grab began stays down for the
  local desktop.
\<close>

lemma nameless_release_swallowed:
  assumes "hs_grabbed st" "\<not> is_home info" "kb_scan info = FAKE_LCONTROL_SCAN \<or> kb_hid info = None"
  shows "\<exists>st'. win_on_key d info msg st = (st', [], True)"
  using assms by (auto simp: win_on_key_def Let_def)

end
