(* ===== verification/Capture_X11.thy ===== *)
theory Capture_X11
  imports Capture Keymap
begin

text \<open>
  \<^verbatim>\<open>crates/geserdesk-platform/src/x11.rs\<close>: capturing input under X11. What the X server answers is an
  argument of the operation that asks; what the backend asks of it in return (warping the pointer,
  giving up its grabs) is an output, beside the events. \<open>alive\<close> says whether somebody still listens to the
  events: an operation whose event nobody takes ends the thread, its last result. Making the blank
  cursor and turning on detectable auto-repeat are not modelled.
\<close>

section \<open>The keyboard mapping\<close>

definition KEYSYM_HOTKEY :: nat where "KEYSYM_HOTKEY = 0xff50"

record x_keymap =
  km_min :: nat
  km_per :: nat
  km_syms :: "nat list"

definition km_sym :: "x_keymap \<Rightarrow> nat \<Rightarrow> nat \<Rightarrow> nat" where
  "km_sym km keycode index =
     (if keycode < km_min km \<or> km_per km \<le> index then 0
      else let i = (keycode - km_min km) * km_per km + index
           in if i < length (km_syms km) then km_syms km ! i else 0)"

definition keycodes_for :: "x_keymap \<Rightarrow> nat \<Rightarrow> nat list" where
  "keycodes_for km keysym = filter (\<lambda>k. km_sym km k 0 = keysym) [km_min km..<256]"

definition keycode_for :: "x_keymap \<Rightarrow> nat \<Rightarrow> nat option" where
  "keycode_for km keysym = find (\<lambda>k. km_sym km k 0 = keysym) [km_min km..<256]"

text \<open>\<^verbatim>\<open>char::from_u32\<close>: a surrogate or a number past the last code point is no character.\<close>

definition char_from_u32 :: "nat \<Rightarrow> nat option" where
  "char_from_u32 n = (if n < 0xD800 \<or> 0xDFFF < n \<and> n \<le> 0x10FFFF then Some n else None)"

definition keysym_to_char :: "nat \<Rightarrow> nat option" where
  "keysym_to_char s =
     (if 0x20 \<le> s \<and> s \<le> 0x7e \<or> 0xa0 \<le> s \<and> s \<le> 0xff then char_from_u32 s
      else if 0x01000000 \<le> s \<and> s \<le> 0x0110ffff then char_from_u32 (s mod 0x1000000)
      else if 0xffb0 \<le> s \<and> s \<le> 0xffb9 then char_from_u32 (48 + (s - 0xffb0))
      else map_of [(0xffaa, 42), (0xffab, 43), (0xffac, 44), (0xffad, 45), (0xffae, 46), (0xffaf, 47), (0xffbd, 61)] s)"

text \<open>\<open>alphabetic\<close> is Unicode's table of letters, \<^verbatim>\<open>char::is_alphabetic\<close>.\<close>

definition x_char_for :: "(nat \<Rightarrow> bool) \<Rightarrow> x_keymap \<Rightarrow> nat \<Rightarrow> nat \<Rightarrow> nat option" where
  "x_char_for alphabetic km keycode st =
     (let shift = bit st 0; lock = bit st 1; numlock = bit st 4; altgr = bit st 7;
          base_sym = km_sym km keycode 0;
          is_keypad = (0xff80 \<le> base_sym \<and> base_sym \<le> 0xffbd);
          is_alpha = (case keysym_to_char base_sym of Some c \<Rightarrow> alphabetic c | None \<Rightarrow> False);
          level = (if is_keypad then of_bool (numlock \<noteq> shift)
                   else if altgr \<and> km_per km \<ge> 6 then 4 + of_bool shift
                   else if is_alpha then of_bool (shift \<noteq> lock)
                   else of_bool shift);
          sym = km_sym km keycode level;
          sym = (if sym = 0 then base_sym else sym)
      in keysym_to_char sym)"

definition mods_from_state :: "nat \<Rightarrow> mod_mask" where
  "mods_from_state st =
     (let m = mm_empty;
          m = mm_set m SHIFT (bit st 0);
          m = mm_set m CAPS_LOCK (bit st 1);
          m = mm_set m CONTROL (bit st 2);
          m = mm_set m ALT (bit st 3);
          m = mm_set m NUM_LOCK (bit st 4);
          m = mm_set m SUPER (bit st 6)
      in mm_set m ALT_GR (bit st 7))"

section \<open>The hotkey\<close>

record x_hotkey =
  hk_ctrl :: "nat list"
  hk_alt :: "nat list"
  hk_key :: "nat option"

definition hotkey_from_keymap :: "x_keymap \<Rightarrow> x_hotkey" where
  "hotkey_from_keymap km =
     \<lparr>hk_ctrl = keycodes_for km 0xffe3 @ keycodes_for km 0xffe4,
      hk_alt = keycodes_for km 0xffe9 @ keycodes_for km 0xffea,
      hk_key = keycode_for km KEYSYM_HOTKEY\<rparr>"

text \<open>The bitmap of \<^verbatim>\<open>QueryKeymap\<close>: 32 bytes, one bit for each key.\<close>

definition key_held :: "nat list \<Rightarrow> nat \<Rightarrow> bool" where
  "key_held keys code = bit (keys ! (code div 8)) (code mod 8)"

definition hotkey_is_down :: "x_hotkey \<Rightarrow> nat list \<Rightarrow> bool" where
  "hotkey_is_down hk keys \<longleftrightarrow>
     (case hk_key hk of Some k \<Rightarrow> key_held keys k | None \<Rightarrow> False)
     \<and> list_ex (key_held keys) (hk_ctrl hk) \<and> list_ex (key_held keys) (hk_alt hk)"

section \<open>The backend\<close>

record x_capture =
  xc_bounds :: rect
  xc_keymap :: x_keymap
  xc_hotkey :: x_hotkey
  xc_hotkey_down :: bool
  xc_grabbed :: bool
  xc_center :: point
  xc_last :: point
  xc_expecting :: bool
  xc_pressed :: "(nat, nat) bmap"
  xc_last_local :: "point option"

datatype x_request = Warp int int | UngrabKeyboard | UngrabPointer

definition x_new :: "rect \<Rightarrow> x_keymap \<Rightarrow> x_capture" where
  "x_new bounds km =
     \<lparr>xc_bounds = bounds, xc_keymap = km, xc_hotkey = hotkey_from_keymap km, xc_hotkey_down = False,
      xc_grabbed = False, xc_center = r_center bounds, xc_last = r_center bounds, xc_expecting = False,
      xc_pressed = [], xc_last_local = None\<rparr>"

definition cast_i16 :: "int \<Rightarrow> int" where
  "cast_i16 v = (v + 32768) mod 65536 - 32768"

definition x_warp :: "x_capture \<Rightarrow> point \<Rightarrow> x_request list option" where
  "x_warp c p = map_option (\<lambda>p. [Warp (cast_i16 (pt_x p)) (cast_i16 (pt_y p))]) (rect_clamp (xc_bounds c) p)"

definition x_emit :: "bool \<Rightarrow> capture_event \<Rightarrow> capture_event list" where
  "x_emit alive ev = (if alive then [ev] else [])"

subsection \<open>Taking the pointer and the keyboard\<close>

text \<open>
  The answers of a grab: for each try at the pointer the status (0 is success; \<^const>\<open>None\<close> is a
  broken connection), that of the keyboard, and where the pointer is.
\<close>

record grab_replies =
  gr_pointer :: "nat \<Rightarrow> nat option"
  gr_keyboard :: "nat option"
  gr_position :: "point option"

datatype grab_error = GrabBroken | PointerTaken nat | KeyboardTaken

fun grab_tries :: "(nat \<Rightarrow> nat option) \<Rightarrow> nat \<Rightarrow> nat \<Rightarrow> nat \<Rightarrow> grab_error + unit" where
  "grab_tries reply i 0 status = Inl (PointerTaken status)"
| "grab_tries reply i (Suc left) status =
     (case reply i of
        None \<Rightarrow> Inl GrabBroken
      | Some 0 \<Rightarrow> Inr ()
      | Some st \<Rightarrow> grab_tries reply (i + 1) left st)"

definition x_grab :: "grab_replies \<Rightarrow> x_capture \<Rightarrow> (x_capture \<times> x_request list \<times> grab_error option) option" where
  "x_grab r c =
     (case grab_tries (gr_pointer r) 0 20 0 of
        Inl e \<Rightarrow> Some (c, [], Some e)
      | Inr _ \<Rightarrow>
          (case gr_keyboard r of
             None \<Rightarrow> Some (c, [], Some GrabBroken)
           | Some status \<Rightarrow>
               if status \<noteq> 0 then Some (c, [UngrabPointer], Some KeyboardTaken)
               else let c = c\<lparr>xc_last := (case gr_position r of Some p \<Rightarrow> p | None \<Rightarrow> xc_center c)\<rparr>
                    in do {
                      reqs \<leftarrow> x_warp c (xc_center c);
                      Some (c\<lparr>xc_expecting := True, xc_grabbed := True, xc_pressed := []\<rparr>, reqs, None) }))"

definition x_release :: "point option \<Rightarrow> x_capture \<Rightarrow> (x_capture \<times> x_request list) option" where
  "x_release warp_to c = do {
     (c, reqs) \<leftarrow> (case warp_to of
                     None \<Rightarrow> Some (c, [])
                   | Some p \<Rightarrow> map_option (\<lambda>reqs. (c\<lparr>xc_last_local := Some p\<rparr>, reqs)) (x_warp c p));
     Some (c\<lparr>xc_grabbed := False, xc_pressed := [], xc_hotkey_down := True\<rparr>,
           [UngrabKeyboard, UngrabPointer] @ reqs) }"

text \<open>The result of a step: the state, the requests, the events, and whether the thread goes on.\<close>

type_synonym x_result = "x_capture \<times> x_request list \<times> capture_event list \<times> bool"

definition x_cmd :: "bool \<Rightarrow> grab_replies \<Rightarrow> capture_cmd \<Rightarrow> x_capture \<Rightarrow> x_result option" where
  "x_cmd alive r cmd c =
     (case cmd of
        Grab \<Rightarrow>
          if xc_grabbed c then Some (c, [], [], True)
          else do {
            (c, reqs, err) \<leftarrow> x_grab r c;
            Some (c, reqs, (if err = None then [] else x_emit alive GrabFailed), True) }
      | Ungrab warp \<Rightarrow> map_option (\<lambda>(c, reqs). (c, reqs, [], True)) (x_release (Some warp) c))"

subsection \<open>Events of the X server\<close>

definition x_on_motion :: "bool \<Rightarrow> point \<Rightarrow> x_capture \<Rightarrow> x_result option" where
  "x_on_motion alive pos c =
     (if xc_expecting c then
        (if pos = xc_center c then Some (c\<lparr>xc_expecting := False, xc_last := pos\<rparr>, [], [], True)
         else let dx = i32 (pt_x pos - pt_x (xc_last c)); dy = i32 (pt_y pos - pt_y (xc_last c)); c = c\<lparr>xc_last := pos\<rparr>
              in if dx = 0 \<and> dy = 0 then Some (c, [], [], True)
                 else Some (c, [], x_emit alive (Motion dx dy), alive))
      else let dx = i32 (pt_x pos - pt_x (xc_center c)); dy = i32 (pt_y pos - pt_y (xc_center c))
           in if dx = 0 \<and> dy = 0 then Some (c, [], [], True)
              else let c = c\<lparr>xc_last := pos, xc_expecting := True\<rparr>
                   in do { reqs \<leftarrow> x_warp c (xc_center c); Some (c, reqs, x_emit alive (Motion dx dy), alive) })"

definition x_button :: "nat \<Rightarrow> bool \<Rightarrow> capture_event option" where
  "x_button detail down =
     (if detail = 1 then Some (CButton BtnLeft down)
      else if detail = 2 then Some (CButton BtnMiddle down)
      else if detail = 3 then Some (CButton BtnRight down)
      else if 4 \<le> detail \<and> detail \<le> 7 then
        (if \<not> down then None
         else Some (if detail = 4 then CWheel 0 120 else if detail = 5 then CWheel 0 (-120)
                    else if detail = 6 then CWheel (-120) 0 else CWheel 120 0))
      else if detail = 8 then Some (CButton BtnBack down)
      else if detail = 9 then Some (CButton BtnForward down)
      else Some (CButton (BtnExtra (detail - 9)) down))"

definition x_on_button :: "bool \<Rightarrow> nat \<Rightarrow> bool \<Rightarrow> x_capture \<Rightarrow> x_result" where
  "x_on_button alive detail down c =
     (case x_button detail down of None \<Rightarrow> (c, [], [], True) | Some ev \<Rightarrow> (c, [], x_emit alive ev, alive))"

text \<open>An X key code is the Linux one plus 8.\<close>

definition x_hid :: "nat \<Rightarrow> nat option" where
  "x_hid keycode = (if keycode < 8 then None else evdev_to_hid (keycode - 8))"

definition is_chord :: "x_capture \<Rightarrow> nat \<Rightarrow> nat \<Rightarrow> bool" where
  "is_chord c keycode st \<longleftrightarrow> hk_key (xc_hotkey c) = Some keycode \<and> bit st 2 \<and> bit st 3"

definition x_on_key :: "(nat \<Rightarrow> bool) \<Rightarrow> bool \<Rightarrow> nat \<Rightarrow> nat \<Rightarrow> bool \<Rightarrow> x_capture \<Rightarrow> x_result" where
  "x_on_key alphabetic alive keycode st down c =
     (if is_chord c keycode st
      then (if down then (c, [], x_emit alive Hotkey, alive) else (c, [], [], True))
      else if \<not> xc_grabbed c then (c, [], [], True)
      else case x_hid keycode of
             None \<Rightarrow> (c, [], [], True)
           | Some hid \<Rightarrow>
               (let (c, a) =
                      (if down then
                         (case bm_get (xc_pressed c) keycode of
                            Some n \<Rightarrow> (let n = min (n + 1) 65535
                                       in (c\<lparr>xc_pressed := bm_insert keycode n (xc_pressed c)\<rparr>, Repeat n))
                          | None \<Rightarrow> (c\<lparr>xc_pressed := bm_insert keycode 0 (xc_pressed c)\<rparr>, Down))
                       else (c\<lparr>xc_pressed := bm_remove keycode (xc_pressed c)\<rparr>, Up));
                    ch = (if hid_is_printable hid then x_char_for alphabetic (xc_keymap c) keycode st else None)
                in (c, [], x_emit alive (CKey \<lparr>ke_hid = hid, ke_ch = ch, ke_mods = mods_from_state st, ke_action = a\<rparr>), alive)))"

datatype x_event =
    XMotion point
  | XButton nat bool
  | XKey nat nat bool
  | XMapping "x_keymap option" \<comment> \<open>the mapping as it is read again, if it can be\<close>
  | XOther

definition x_on_event :: "(nat \<Rightarrow> bool) \<Rightarrow> bool \<Rightarrow> x_event \<Rightarrow> x_capture \<Rightarrow> x_result option" where
  "x_on_event alphabetic alive ev c =
     (case ev of
        XMotion p \<Rightarrow> if xc_grabbed c then x_on_motion alive p c else Some (c, [], [], True)
      | XButton detail down \<Rightarrow> Some (if xc_grabbed c then x_on_button alive detail down c else (c, [], [], True))
      | XKey keycode st down \<Rightarrow> Some (x_on_key alphabetic alive keycode st down c)
      | XMapping km \<Rightarrow> Some ((case km of Some km \<Rightarrow> c\<lparr>xc_keymap := km\<rparr> | None \<Rightarrow> c), [], [], True)
      | XOther \<Rightarrow> Some (c, [], [], True))"

subsection \<open>The loop\<close>

text \<open>
  While not grabbed the loop asks for the keys that are down and where the pointer is; either answer may
  be missing. An event nobody takes ends the thread before the rest of the pass.
\<close>

definition x_poll_keys :: "bool \<Rightarrow> nat list option \<Rightarrow> x_capture \<Rightarrow> x_capture \<times> capture_event list \<times> bool" where
  "x_poll_keys alive keys c =
     (case keys of
        None \<Rightarrow> (c, [], True)
      | Some keys \<Rightarrow>
          let down = hotkey_is_down (xc_hotkey c) keys
          in if down \<and> \<not> xc_hotkey_down c
             then (if alive then (c\<lparr>xc_hotkey_down := down\<rparr>, [Hotkey], True) else (c, [], False))
             else (c\<lparr>xc_hotkey_down := down\<rparr>, [], True))"

definition x_poll_pointer :: "bool \<Rightarrow> point option \<Rightarrow> x_capture \<Rightarrow> x_capture \<times> capture_event list \<times> bool" where
  "x_poll_pointer alive pos c =
     (case pos of
        None \<Rightarrow> (c, [], True)
      | Some pos \<Rightarrow>
          if xc_last_local c \<noteq> Some pos then (c\<lparr>xc_last_local := Some pos\<rparr>, x_emit alive (Pointer pos), alive)
          else (c, [], True))"

definition x_poll :: "bool \<Rightarrow> nat list option \<Rightarrow> point option \<Rightarrow> x_capture \<Rightarrow> x_result" where
  "x_poll alive keys pos c =
     (if xc_grabbed c then (c, [], [], True)
      else case x_poll_keys alive keys c of
             (c, evs, False) \<Rightarrow> (c, [], evs, False)
           | (c, evs, True) \<Rightarrow> (case x_poll_pointer alive pos c of (c, evs', go) \<Rightarrow> (c, [], evs @ evs', go)))"

text \<open>The server dropped its handle: the thread gives the devices back and ends.\<close>

definition x_stop :: "x_capture \<Rightarrow> x_result option" where
  "x_stop c = (if xc_grabbed c then map_option (\<lambda>(c, reqs). (c, reqs, [], False)) (x_release None c) else Some (c, [], [], False))"

datatype x_input =
    XCmd capture_cmd grab_replies
  | XEvent x_event
  | XPoll "nat list option" "point option"
  | XGone

fun x_step :: "(nat \<Rightarrow> bool) \<Rightarrow> bool \<Rightarrow> x_input \<Rightarrow> x_capture \<Rightarrow> x_result option" where
  "x_step alphabetic alive (XCmd cmd r) c = x_cmd alive r cmd c"
| "x_step alphabetic alive (XEvent ev) c = x_on_event alphabetic alive ev c"
| "x_step alphabetic alive (XPoll keys pos) c = Some (x_poll alive keys pos c)"
| "x_step alphabetic alive XGone c = x_stop c"

text \<open>A run ends with the step that ends the thread; its result holds all requests and events.\<close>

fun x_run :: "(nat \<Rightarrow> bool) \<Rightarrow> (bool \<times> x_input) list \<Rightarrow> x_capture \<Rightarrow> x_result option" where
  "x_run alphabetic [] c = Some (c, [], [], True)"
| "x_run alphabetic ((alive, i) # rest) c = do {
     (c, reqs, evs, go) \<leftarrow> x_step alphabetic alive i c;
     if go then do {
       (c, reqs', evs', go) \<leftarrow> x_run alphabetic rest c;
       Some (c, reqs @ reqs', evs @ evs', go) }
     else Some (c, reqs, evs, False) }"


section \<open>The backend keeps its contract\<close>

text \<open>No two key codes are the same HID usage, so what is down can be told by usage as well.\<close>

lemma x_hid_inj: "x_hid a = Some hid \<Longrightarrow> x_hid b = Some hid \<Longrightarrow> a = b"
  by (auto simp: x_hid_def split: if_splits dest: evdev_inj)

lemma x_hid_range: "x_hid k = Some hid \<Longrightarrow> k \<in> set [8..<257]"
proof -
  have "list_all (\<lambda>(c, _). c < 249) evdev_keys" by code_simp
  then show "x_hid k = Some hid \<Longrightarrow> k \<in> set [8..<257]"
    by (force simp: x_hid_def evdev_iff list_all_iff split: if_splits simp del: upt_rec_numeral upt.simps)
qed

text \<open>
  The table knows the microphone-mute key by the Linux code 248. Its X key code would be 256, which
  does not fit the eight bits that X has for it: the key is never seen.
\<close>

lemma mic_mute_out_of_reach: "x_hid k = Some MIC_MUTE \<longleftrightarrow> k = 256"
proof -
  have "evdev_to_hid 248 = Some MIC_MUTE" by code_simp
  then have "x_hid 256 = Some MIC_MUTE" by (simp add: x_hid_def)
  then show ?thesis using x_hid_inj by auto
qed

definition all_codes :: "nat list" where
  "all_codes = [8..<257]"

definition keycode_of :: "nat \<Rightarrow> nat option" where
  "keycode_of hid = find (\<lambda>k. x_hid k = Some hid) all_codes"

lemma keycode_of_iff: "keycode_of hid = Some k \<longleftrightarrow> x_hid k = Some hid"
proof
  show "x_hid k = Some hid" if "keycode_of hid = Some k" using that by (auto simp: keycode_of_def find_Some_iff)
next
  assume k: "x_hid k = Some hid"
  then have "keycode_of hid \<noteq> None" using x_hid_range unfolding keycode_of_def find_None_iff all_codes_def by blast
  then obtain k' where k': "keycode_of hid = Some k'" by auto
  then have "x_hid k' = Some hid" by (auto simp: keycode_of_def find_Some_iff)
  then show "keycode_of hid = Some k" using k k' x_hid_inj by blast
qed

definition x_held :: "x_capture \<Rightarrow> nat \<rightharpoonup> nat" where
  "x_held c hid = Option.bind (keycode_of hid) (bm_get (xc_pressed c))"

lemma x_held_at:
  assumes "x_hid k = Some hid"
  shows "x_held c hid = bm_get (xc_pressed c) k"
  using assms unfolding keycode_of_iff [symmetric] by (simp add: x_held_def)

lemma x_held_other:
  assumes "x_hid k = Some hid" "hid' \<noteq> hid" "\<And>k'. k' \<noteq> k \<Longrightarrow> bm_get (xc_pressed c') k' = bm_get (xc_pressed c) k'"
  shows "x_held c' hid' = x_held c hid'"
proof (cases "keycode_of hid'")
  case (Some k')
  then have "k' \<noteq> k" using assms(1,2) by (auto simp: keycode_of_iff)
  then show ?thesis using Some assms(3) by (simp add: x_held_def)
qed (simp add: x_held_def)

lemma x_held_pressed:
  "x_hid k = Some hid \<Longrightarrow> x_held (c\<lparr>xc_pressed := bm_insert k n (xc_pressed c)\<rparr>) = (x_held c)(hid \<mapsto> n)"
  "x_hid k = Some hid \<Longrightarrow> x_held (c\<lparr>xc_pressed := bm_remove k (xc_pressed c)\<rparr>) = (x_held c)(hid := None)"
  by (rule ext, auto simp: x_held_at intro: x_held_other)+

lemma x_held_cong: "xc_pressed c' = xc_pressed c \<Longrightarrow> x_held c' = x_held c"
  by (rule ext) (simp add: x_held_def)

text \<open>What each operation does to the grab and to the keys that are down.\<close>

lemma x_on_key_result:
  assumes "x_on_key al alive k st down c = (c', reqs, evs, go)"
  shows "xc_grabbed c' = xc_grabbed c" "list_all taken_event evs" "reqs = []"
    "\<not> xc_grabbed c \<Longrightarrow> c' = c \<and> list_all local_event evs"
    "alive \<Longrightarrow> replay_keys False (x_held c) evs = Some (x_held c')"
proof -
  have "xc_grabbed c' = xc_grabbed c \<and> list_all taken_event evs \<and> reqs = []
    \<and> (\<not> xc_grabbed c \<longrightarrow> c' = c \<and> list_all local_event evs)
    \<and> (alive \<longrightarrow> replay_keys False (x_held c) evs = Some (x_held c'))"
    using assms
    by (cases down)
      (auto simp: x_on_key_def x_emit_def Let_def replay_key_def x_held_at x_held_pressed split: if_splits option.splits)
  then show "xc_grabbed c' = xc_grabbed c" "list_all taken_event evs" "reqs = []"
    "\<not> xc_grabbed c \<Longrightarrow> c' = c \<and> list_all local_event evs"
    "alive \<Longrightarrow> replay_keys False (x_held c) evs = Some (x_held c')" by simp_all
qed

lemma x_button_result:
  assumes "x_on_button alive detail down c = (c', reqs, evs, go)"
  shows "c' = c" "list_all pointing_event evs" "reqs = []"
  using assms by (auto simp: x_on_button_def x_button_def x_emit_def split: if_splits option.splits)

lemma x_on_motion_result:
  assumes "x_on_motion alive pos c = Some (c', reqs, evs, go)"
  shows "xc_grabbed c' = xc_grabbed c" "xc_pressed c' = xc_pressed c" "list_all pointing_event evs"
  using assms by (auto simp: x_on_motion_def x_emit_def Let_def bind_eq_Some_conv split: if_splits)

lemma x_on_event_result:
  assumes "x_on_event al alive ev c = Some (c', reqs, evs, go)"
  shows "xc_grabbed c' = xc_grabbed c" "list_all taken_event evs"
    "\<not> xc_grabbed c \<Longrightarrow> list_all local_event evs"
    "alive \<Longrightarrow> replay_keys False (x_held c) evs = Some (x_held c')"
proof -
  have "xc_grabbed c' = xc_grabbed c \<and> list_all taken_event evs \<and> (\<not> xc_grabbed c \<longrightarrow> list_all local_event evs)
    \<and> (alive \<longrightarrow> replay_keys False (x_held c) evs = Some (x_held c'))"
  proof (cases ev)
    case (XMotion p)
    show ?thesis
    proof (cases "xc_grabbed c")
      case True
      with assms XMotion have m: "x_on_motion alive p c = Some (c', reqs, evs, go)" by (simp add: x_on_event_def)
      show ?thesis
        using x_on_motion_result(1) [OF m] x_held_cong [OF x_on_motion_result(2) [OF m]] pointing_events(1,2) [OF x_on_motion_result(3) [OF m]] True by simp
    qed (use assms XMotion in \<open>simp add: x_on_event_def\<close>)
  next
    case (XButton detail down)
    show ?thesis
    proof (cases "xc_grabbed c")
      case True
      with assms XButton have m: "x_on_button alive detail down c = (c', reqs, evs, go)" by (simp add: x_on_event_def)
      show ?thesis using x_button_result(1) [OF m] pointing_events(1,2) [OF x_button_result(2) [OF m]] True by simp
    qed (use assms XButton in \<open>simp add: x_on_event_def\<close>)
  next
    case (XKey k st down)
    with assms have k: "x_on_key al alive k st down c = (c', reqs, evs, go)" by (simp add: x_on_event_def)
    show ?thesis using x_on_key_result [OF k] by auto
  next
    case (XMapping km)
    with assms have m: "xc_pressed c' = xc_pressed c \<and> xc_grabbed c' = xc_grabbed c \<and> evs = []"
      by (auto simp: x_on_event_def split: option.splits)
    then show ?thesis using x_held_cong [of c' c] by simp
  qed (use assms in \<open>simp add: x_on_event_def\<close>)
  then show "xc_grabbed c' = xc_grabbed c" "list_all taken_event evs"
    "\<not> xc_grabbed c \<Longrightarrow> list_all local_event evs"
    "alive \<Longrightarrow> replay_keys False (x_held c) evs = Some (x_held c')" by simp_all
qed

lemma x_release_result:
  assumes "x_release w c = Some (c', reqs)"
  shows "\<not> xc_grabbed c'" "xc_pressed c' = []" "UngrabKeyboard \<in> set reqs" "UngrabPointer \<in> set reqs"
  using assms by (auto simp: x_release_def bind_eq_Some_conv)

lemma x_grab_result:
  assumes "x_grab r c = Some (c', reqs, err)"
  shows "err \<noteq> None \<Longrightarrow> c' = c" "err = None \<Longrightarrow> xc_grabbed c' \<and> xc_pressed c' = []"
  using assms by (auto simp: x_grab_def Let_def bind_eq_Some_conv split: sum.splits option.splits if_splits)

lemma x_poll_result:
  assumes "x_poll alive keys pos c = (c', reqs, evs, go)"
  shows "xc_grabbed c' = xc_grabbed c" "xc_pressed c' = xc_pressed c" "list_all local_event evs" "GrabFailed \<notin> set evs"
    "xc_grabbed c \<Longrightarrow> c' = c \<and> evs = []"
  using assms
  by (auto simp: x_poll_def x_poll_keys_def x_poll_pointer_def x_emit_def Let_def split: if_splits option.splits prod.splits bool.splits)

lemma x_cmd_cases:
  assumes "x_cmd alive r cmd c = Some (c', reqs, evs, go)"
  obtains (kept) "cmd = Grab" "xc_grabbed c" "c' = c" "evs = []"
    | (grab) err where "cmd = Grab" "\<not> xc_grabbed c" "x_grab r c = Some (c', reqs, err)" "evs = (if err = None then [] else x_emit alive GrabFailed)"
    | (release) p where "cmd = Ungrab p" "x_release (Some p) c = Some (c', reqs)" "evs = []"
  using assms by (cases cmd) (auto simp: x_cmd_def bind_eq_Some_conv split: if_splits)

definition x_events :: "(nat \<Rightarrow> bool) \<Rightarrow> x_input \<Rightarrow> x_capture \<Rightarrow> (x_capture \<times> capture_event list) option" where
  "x_events al i c = map_option (\<lambda>(c, _, evs, _). (c, evs)) (x_step al True i c)"

fun x_is_cmd :: "x_input \<Rightarrow> bool" where
  "x_is_cmd (XCmd _ _) = True"
| "x_is_cmd XGone = True"
| "x_is_cmd _ = False"

fun x_asks :: "x_input \<Rightarrow> bool" where
  "x_asks (XCmd Grab _) = True"
| "x_asks _ = False"

interpretation x11: capture_keys "x_events al" xc_grabbed x_is_cmd x_asks x_held False for al
proof
  fix i c c' evs
  assume s: "x_events al i c = Some (c', evs)"
  then obtain reqs go where w: "x_step al True i c = Some (c', reqs, evs, go)" by (auto simp: x_events_def)
  have none: "x_held c' = Map.empty" if "xc_pressed c' = []" using that by (auto simp: x_held_def fun_eq_iff split: bind_splits)
  have "(\<not> xc_grabbed c \<longrightarrow> list_all local_event evs) \<and> (xc_grabbed c \<longrightarrow> list_all taken_event evs)
    \<and> (\<not> xc_grabbed c \<longrightarrow> \<not> x_asks i \<longrightarrow> \<not> xc_grabbed c') \<and> (xc_grabbed c \<longrightarrow> \<not> x_is_cmd i \<longrightarrow> xc_grabbed c')
    \<and> (GrabFailed \<in> set evs \<longrightarrow> \<not> xc_grabbed c')
    \<and> (xc_grabbed c \<longrightarrow> \<not> x_is_cmd i \<longrightarrow> replay_keys False (x_held c) evs = Some (x_held c'))
    \<and> (\<not> xc_grabbed c \<longrightarrow> xc_grabbed c' \<longrightarrow> x_held c' = Map.empty)"
  proof (cases i)
    case (XCmd cmd r)
    with w have "x_cmd True r cmd c = Some (c', reqs, evs, go)" by simp
    then show ?thesis
    proof (cases rule: x_cmd_cases)
      case (grab err)
      then show ?thesis using x_grab_result [OF grab(3)] none XCmd by (cases err) (auto simp: x_emit_def)
    qed (use XCmd x_release_result(1) in auto)
  next
    case (XEvent ev)
    with w have e: "x_on_event al True ev c = Some (c', reqs, evs, go)" by simp
    show ?thesis using x_on_event_result [OF e] taken_not_failed [OF x_on_event_result(2) [OF e]] XEvent by simp
  next
    case (XPoll keys pos)
    with w have q: "x_poll True keys pos c = (c', reqs, evs, go)" by simp
    show ?thesis using x_poll_result [OF q] x_held_cong [OF x_poll_result(2) [OF q]] XPoll by auto
  next
    case XGone
    then show ?thesis using w by (auto simp: x_stop_def x_release_def split: if_splits)
  qed
  then show "\<not> xc_grabbed c \<Longrightarrow> list_all local_event evs" "xc_grabbed c \<Longrightarrow> list_all taken_event evs"
    "\<not> xc_grabbed c \<Longrightarrow> \<not> x_asks i \<Longrightarrow> \<not> xc_grabbed c'" "xc_grabbed c \<Longrightarrow> \<not> x_is_cmd i \<Longrightarrow> xc_grabbed c'"
    "GrabFailed \<in> set evs \<Longrightarrow> \<not> xc_grabbed c'"
    "xc_grabbed c \<Longrightarrow> \<not> x_is_cmd i \<Longrightarrow> replay_keys False (x_held c) evs = Some (x_held c')"
    "\<not> xc_grabbed c \<Longrightarrow> xc_grabbed c' \<Longrightarrow> x_held c' = Map.empty" by blast+
qed

text \<open>
  The chord is looked for in every press and not only in the first one: while the input is taken, each
  repeat of a held Home reports the hotkey again.
\<close>

lemma chord_repeats:
  assumes "is_chord c k st"
  shows "x_on_key al True k st True c = (c, [], [Hotkey], True)"
  using assms by (simp add: x_on_key_def x_emit_def)

end
