(* ===== verification/Capture_Motion.thy ===== *)
theory Capture_Motion
  imports Capture_X11
begin

text \<open>
  The X11 backend measures motion by warping the pointer back to the middle of the screen. Here it runs
  beside the pointer: the device moves it, the X server queues what it notifies, the backend reads the
  queue in order and what its warps cause is queued behind what is waiting. The X server is no part of
  this program and is a parameter: \<open>sv a b\<close> are the positions it notifies when the pointer goes from \<open>a\<close> to
  \<open>b\<close>, by the device or by a warp.
\<close>

section \<open>The pointer and the backend\<close>

type_synonym x_server = "point \<Rightarrow> point \<Rightarrow> point list"

text \<open>
  What the protocol says of \<^verbatim>\<open>MotionNotify\<close> and \<^verbatim>\<open>WarpPointer\<close>: the event comes when the pointer moves, and a
  warp generates events as if the user had moved the pointer. Where the pointer does not move there may be
  an event or none. The protocol lets a server merge movements into one event: a \<open>DeviceTo\<close> below is then
  what was merged, and no warp comes in between.
\<close>

definition notifies_moves :: "x_server \<Rightarrow> bool" where
  "notifies_moves sv \<longleftrightarrow> (\<forall>a b. a \<noteq> b \<longrightarrow> sv a b = [b]) \<and> (\<forall>a. sv a a = [] \<or> sv a a = [a])"

text \<open>A notification in the queue carries whether a warp made it, which the backend cannot see.\<close>

record pointer_world =
  pw_ptr :: point
  pw_queue :: "(point \<times> bool) list"
  pw_moved :: point
  pw_seen :: point
  pw_backend :: x_capture

definition pt_add :: "point \<Rightarrow> int \<Rightarrow> int \<Rightarrow> point" where
  "pt_add p dx dy = Pt (pt_x p + dx) (pt_y p + dy)"

definition notified :: "x_server \<Rightarrow> bool \<Rightarrow> point \<Rightarrow> pointer_world \<Rightarrow> pointer_world" where
  "notified sv warp p w =
     w\<lparr>pw_ptr := p, pw_queue := pw_queue w @ map (\<lambda>n. (n, warp)) (sv (pw_ptr w) p)\<rparr>"

fun apply_request :: "x_server \<Rightarrow> x_request \<Rightarrow> pointer_world \<Rightarrow> pointer_world" where
  "apply_request sv (Warp x y) w = notified sv True (Pt x y) w"
| "apply_request sv _ w = w"

fun count_motion :: "capture_event \<Rightarrow> point \<Rightarrow> point" where
  "count_motion (Motion dx dy) p = pt_add p dx dy"
| "count_motion _ p = p"

datatype world_move = DeviceTo point | BackendReads

fun world_step :: "(nat \<Rightarrow> bool) \<Rightarrow> x_server \<Rightarrow> world_move \<Rightarrow> pointer_world \<Rightarrow> pointer_world option" where
  "world_step al sv (DeviceTo p) w =
     Some ((notified sv False p w)
       \<lparr>pw_moved := pt_add (pw_moved w) (pt_x p - pt_x (pw_ptr w)) (pt_y p - pt_y (pw_ptr w))\<rparr>)"
| "world_step al sv BackendReads w =
     (case pw_queue w of
        [] \<Rightarrow> Some w
      | (p, _) # q \<Rightarrow> do {
          (c, reqs, evs, _) \<leftarrow> x_on_event al True (XMotion p) (pw_backend w);
          Some (fold (apply_request sv) reqs
                  (w\<lparr>pw_queue := q, pw_backend := c, pw_seen := fold count_motion evs (pw_seen w)\<rparr>)) })"

fun world_run :: "(nat \<Rightarrow> bool) \<Rightarrow> x_server \<Rightarrow> world_move list \<Rightarrow> pointer_world \<Rightarrow> pointer_world option" where
  "world_run al sv [] w = Some w"
| "world_run al sv (m # ms) w = do { w \<leftarrow> world_step al sv m w; world_run al sv ms w }"

text \<open>The moment after a grab that found the pointer at \<open>p\<close>.\<close>

definition world_grabbed :: "x_server \<Rightarrow> point \<Rightarrow> x_capture \<Rightarrow> x_request list \<Rightarrow> pointer_world" where
  "world_grabbed sv p c reqs =
     fold (apply_request sv) reqs \<lparr>pw_ptr = p, pw_queue = [], pw_moved = Pt 0 0, pw_seen = Pt 0 0, pw_backend = c\<rparr>"

section \<open>Motion that is still to be reported\<close>

text \<open>Along one axis: what the notifications in the queue will add, read from the position \<open>prev\<close> on.\<close>

fun pending :: "(point \<Rightarrow> int) \<Rightarrow> point \<Rightarrow> (point \<times> bool) list \<Rightarrow> int" where
  "pending ax prev [] = 0"
| "pending ax prev ((p, warp) # q) = (if warp then 0 else ax p - ax prev) + pending ax p q"

fun queue_end :: "point \<Rightarrow> (point \<times> bool) list \<Rightarrow> point" where
  "queue_end prev [] = prev"
| "queue_end prev ((p, _) # q) = queue_end p q"

definition warps :: "(point \<times> bool) list \<Rightarrow> nat" where
  "warps q = length (filter snd q)"

lemma pending_snoc: "pending ax prev (q @ [(p, warp)]) = pending ax prev q + (if warp then 0 else ax p - ax (queue_end prev q))"
  by (induction ax prev q rule: pending.induct) auto

lemma queue_end_snoc [simp]: "queue_end prev (q @ [(p, warp)]) = p"
  by (induction prev q rule: queue_end.induct) auto

lemma warps_simps [simp]:
  "warps [] = 0" "warps ((p, warp) # q) = (if warp then Suc (warps q) else warps q)"
  "warps (q @ [(p, warp)]) = (if warp then Suc (warps q) else warps q)"
  by (simp_all add: warps_def)

definition i16_point :: "point \<Rightarrow> bool" where
  "i16_point p \<longleftrightarrow> -32768 \<le> pt_x p \<and> pt_x p \<le> 32767 \<and> -32768 \<le> pt_y p \<and> pt_y p \<le> 32767"

text \<open>A screen whose middle is on it and can be warped to.\<close>

definition screen_ok :: "x_capture \<Rightarrow> bool" where
  "screen_ok c \<longleftrightarrow> rect_ok (xc_bounds c) \<and> rect_contains (xc_bounds c) (xc_center c) \<and> i16_point (xc_center c)"

lemma x_warp_center: "screen_ok c \<Longrightarrow> x_warp c (xc_center c) = Some [Warp (pt_x (xc_center c)) (pt_y (xc_center c))]"
  by (simp add: screen_ok_def x_warp_def rect_clamp_fix cast_i16_def i16_point_def)

text \<open>
  The invariant: a warp is on its way exactly while the backend waits for one; otherwise the last
  position it knows is the middle; and nothing is lost or counted twice.
\<close>

definition world_ok :: "pointer_world \<Rightarrow> bool" where
  "world_ok w \<longleftrightarrow>
     (let c = pw_backend w; q = pw_queue w; prev = xc_last c
      in xc_grabbed c \<and> screen_ok c \<and> i16_point prev
         \<and> warps q = (if xc_expecting c then 1 else 0) \<and> (\<not> xc_expecting c \<longrightarrow> prev = xc_center c)
         \<and> (\<forall>(p, warp) \<in> set q. i16_point p \<and> (warp \<longleftrightarrow> p = xc_center c))
         \<and> queue_end prev q = pw_ptr w
         \<and> pt_x (pw_seen w) + pending pt_x prev q = pt_x (pw_moved w)
         \<and> pt_y (pw_seen w) + pending pt_y prev q = pt_y (pw_moved w))"

lemma i16_diff: "i16_point p \<Longrightarrow> i16_point p' \<Longrightarrow> i32 (pt_x p - pt_x p') = pt_x p - pt_x p' \<and> i32 (pt_y p - pt_y p') = pt_y p - pt_y p'"
  by (simp add: i16_point_def i32_small)

lemma device_ok:
  assumes "world_ok w" "i16_point p" "p \<noteq> xc_center (pw_backend w)" "notifies_moves sv"
  obtains w' where "world_step al sv (DeviceTo p) w = Some w'" "world_ok w'" "pw_backend w' = pw_backend w"
proof -
  consider "sv (pw_ptr w) p = [p]" | "p = pw_ptr w" "sv (pw_ptr w) p = []"
    using assms(4) by (cases "p = pw_ptr w") (auto simp: notifies_moves_def)
  then show thesis
    using assms(1-3) by cases (auto simp: world_ok_def Let_def pending_snoc pt_add_def notified_def intro!: that)
qed

lemma queue_end_mem: "q \<noteq> [] \<Longrightarrow> \<exists>warp. (queue_end prev q, warp) \<in> set q"
  by (induction prev q rule: queue_end.induct) (auto, metis queue_end.simps(1))

text \<open>While no warp is on its way and something is waiting, the pointer is not in the middle.\<close>

lemma off_the_middle:
  assumes "world_ok w" "\<not> xc_expecting (pw_backend w)" "pw_queue w \<noteq> []"
  shows "pw_ptr w \<noteq> xc_center (pw_backend w)"
proof -
  have w: "warps (pw_queue w) = 0" "\<forall>(p, warp) \<in> set (pw_queue w). warp \<longleftrightarrow> p = xc_center (pw_backend w)"
    "queue_end (xc_last (pw_backend w)) (pw_queue w) = pw_ptr w"
    using assms(1,2) by (auto simp: world_ok_def Let_def)
  obtain warp where "(pw_ptr w, warp) \<in> set (pw_queue w)" using queue_end_mem [OF assms(3)] w(3) by metis
  then show ?thesis using w(1,2) by (fastforce simp: warps_def filter_empty_conv)
qed

text \<open>
  Reading one notification: it is taken off the queue, and a warp is queued for it only when none was
  on its way and the pointer had left the middle.
\<close>

lemma read_ok:
  assumes "world_ok w" "pw_queue w = (p, warp) # q" "notifies_moves sv"
  obtains w' where "world_step al sv BackendReads w = Some w'" "world_ok w'" "pw_moved w' = pw_moved w"
    "xc_center (pw_backend w') = xc_center (pw_backend w)"
    "pw_queue w' = q @ (if xc_expecting (pw_backend w) then [] else [(xc_center (pw_backend w), True)])"
    "xc_expecting (pw_backend w') = (\<not> warp)"
proof -
  let ?c = "pw_backend w"
  have ok: "xc_grabbed ?c" "screen_ok ?c" "i16_point (xc_last ?c)" "i16_point p" "warp \<longleftrightarrow> p = xc_center ?c"
    "\<not> xc_expecting ?c \<Longrightarrow> xc_last ?c = xc_center ?c" "\<not> xc_expecting ?c \<Longrightarrow> \<not> warp"
    using assms by (auto simp: world_ok_def Let_def)
  have center: "i16_point (xc_center ?c)" using ok(2) by (simp add: screen_ok_def)
  note diff = i16_diff [OF ok(4) ok(3)] i16_diff [OF ok(4) center]
  show thesis
  proof (cases "xc_expecting ?c")
    case True
    show thesis
    proof (cases warp)
      case warped: True
      have "world_step al sv BackendReads w = Some (w\<lparr>pw_queue := q, pw_backend := ?c\<lparr>xc_expecting := False, xc_last := p\<rparr>\<rparr>)"
        using assms(2) ok True warped by (simp add: x_on_event_def x_on_motion_def)
      then show thesis
        by (rule that) (use assms ok True warped in \<open>auto simp: world_ok_def Let_def screen_ok_def\<close>)
    next
      case False
      let ?dx = "pt_x p - pt_x (xc_last ?c)" and ?dy = "pt_y p - pt_y (xc_last ?c)"
      have "world_step al sv BackendReads w =
          Some (w\<lparr>pw_queue := q, pw_backend := ?c\<lparr>xc_last := p\<rparr>, pw_seen := pt_add (pw_seen w) ?dx ?dy\<rparr>)"
        using assms(2) ok True False diff by (auto simp: x_on_event_def x_on_motion_def x_emit_def pt_add_def Let_def)
      then show thesis
        by (rule that) (use assms ok True False in \<open>auto simp: world_ok_def Let_def screen_ok_def pt_add_def\<close>)
    qed
  next
    case False
    then have "p \<noteq> xc_center ?c" using ok(5,7) by simp
    then have moved: "\<not> (pt_x p - pt_x (xc_center ?c) = 0 \<and> pt_y p - pt_y (xc_center ?c) = 0)"
      by (cases p; cases "xc_center ?c") auto
    let ?dx = "pt_x p - pt_x (xc_center ?c)" and ?dy = "pt_y p - pt_y (xc_center ?c)"
    let ?c' = "?c\<lparr>xc_last := p, xc_expecting := True\<rparr>"
    have "x_warp ?c' (xc_center ?c') = Some [Warp (pt_x (xc_center ?c')) (pt_y (xc_center ?c'))]"
      using ok(2) by (intro x_warp_center) (simp add: screen_ok_def)
    moreover have one: "sv (pw_ptr w) (xc_center ?c) = [xc_center ?c]"
      using off_the_middle [OF assms(1) False] assms(2,3) by (simp add: notifies_moves_def)
    ultimately have "world_step al sv BackendReads w =
        Some (w\<lparr>pw_ptr := xc_center ?c, pw_queue := q @ [(xc_center ?c, True)], pw_backend := ?c',
                pw_seen := pt_add (pw_seen w) ?dx ?dy\<rparr>)"
      using assms(2) ok False diff moved one by (auto simp: x_on_event_def x_on_motion_def x_emit_def notified_def)
    then show thesis
      by (rule that)
        (use assms(1,2) ok False center in \<open>auto simp: world_ok_def Let_def screen_ok_def pt_add_def pending_snoc\<close>)
  qed
qed

lemma world_run_ok:
  assumes "world_ok w" "\<forall>p. DeviceTo p \<in> set ms \<longrightarrow> i16_point p \<and> p \<noteq> xc_center (pw_backend w)"
    and sv: "notifies_moves sv"
  shows "\<exists>w'. world_run al sv ms w = Some w' \<and> world_ok w' \<and> xc_center (pw_backend w') = xc_center (pw_backend w)"
  using assms(1,2)
proof (induction ms arbitrary: w)
  case (Cons m ms)
  show ?case
  proof (cases m)
    case (DeviceTo p)
    with Cons.prems obtain w' where "world_step al sv m w = Some w'" "world_ok w'" "pw_backend w' = pw_backend w"
      using device_ok [of w p sv al] sv by auto
    then show ?thesis using Cons.IH [of w'] Cons.prems(2) by simp
  next
    case BackendReads
    show ?thesis
    proof (cases "pw_queue w")
      case Nil
      then show ?thesis using Cons.IH [of w] Cons.prems BackendReads by simp
    next
      case (Cons x q)
      obtain p warp where "x = (p, warp)" by (cases x)
      with Cons obtain w' where "world_step al sv m w = Some w'" "world_ok w'" "xc_center (pw_backend w') = xc_center (pw_backend w)"
        using read_ok [OF Cons.prems(1) _ sv, of p warp q al] BackendReads by auto
      then show ?thesis using Cons.IH [of w'] Cons.prems(2) by simp
    qed
  qed
qed simp

text \<open>Once the device rests, the backend reads the queue empty, and at most one warp comes back.\<close>

definition reads_left :: "(point \<times> bool) list \<Rightarrow> nat" where
  "reads_left q = (if q = [] then 0 else length q + (if snd (last q) then 0 else 1))"

lemma read_progress:
  assumes "world_ok w" "pw_queue w = (p, warp) # q"
    "q' = q @ (if xc_expecting (pw_backend w) then [] else [(xc_center (pw_backend w), True)])"
  shows "reads_left (pw_queue w) = Suc (reads_left q')"
proof -
  have "warps (pw_queue w) = (if xc_expecting (pw_backend w) then 1 else 0)" using assms(1) by (simp add: world_ok_def Let_def)
  then have "xc_expecting (pw_backend w) \<Longrightarrow> q = [] \<Longrightarrow> warp" "\<not> xc_expecting (pw_backend w) \<Longrightarrow> \<forall>x \<in> set (pw_queue w). \<not> snd x"
    using assms(2) by (auto simp: warps_def filter_empty_conv split: if_splits)
  then show ?thesis using assms(2,3) by (cases q) (auto simp: reads_left_def)
qed

lemma world_drains:
  assumes "world_ok w" and sv: "notifies_moves sv"
  shows "\<exists>w'. world_run al sv (replicate (reads_left (pw_queue w)) BackendReads) w = Some w' \<and> world_ok w'
    \<and> pw_queue w' = [] \<and> pw_moved w' = pw_moved w \<and> xc_center (pw_backend w') = xc_center (pw_backend w)"
  using assms(1)
proof (induction "reads_left (pw_queue w)" arbitrary: w)
  case 0
  then have "pw_queue w = []" by (auto simp: reads_left_def split: if_splits)
  then show ?case using 0 by simp
next
  case (Suc n)
  then obtain p warp q where q: "pw_queue w = (p, warp) # q" by (cases "pw_queue w") (auto simp: reads_left_def)
  obtain w' where w': "world_step al sv BackendReads w = Some w'" "world_ok w'" "pw_moved w' = pw_moved w"
    "xc_center (pw_backend w') = xc_center (pw_backend w)"
    "pw_queue w' = q @ (if xc_expecting (pw_backend w) then [] else [(xc_center (pw_backend w), True)])"
    by (rule read_ok [OF Suc.prems q sv, of al]) blast
  have "reads_left (pw_queue w) = Suc (reads_left (pw_queue w'))" by (rule read_progress [OF Suc.prems q w'(5)])
  then show ?case using Suc.hyps(1) [of w'] Suc.hyps(2) w'(1-4) by simp
qed

text \<open>When nothing is waiting, everything has been reported and the pointer is back in the middle.\<close>

lemma world_at_rest:
  assumes "world_ok w" "pw_queue w = []"
  shows "pw_seen w = pw_moved w" "pw_ptr w = xc_center (pw_backend w)"
  using assms by (auto simp: world_ok_def Let_def intro!: point.equality split: if_splits)

lemma world_grabbed_ok:
  assumes "x_grab r c0 = Some (c, reqs, None)" "gr_position r = Some p" "i16_point p" "screen_ok c0"
    and "notifies_moves sv" "p \<noteq> xc_center c0"
  shows "world_ok (world_grabbed sv p c reqs)" "pw_backend (world_grabbed sv p c reqs) = c" "xc_center c = xc_center c0"
proof -
  have w: "x_warp (c0\<lparr>xc_last := p\<rparr>) (xc_center c0) = Some [Warp (pt_x (xc_center c0)) (pt_y (xc_center c0))]"
    using x_warp_center [of "c0\<lparr>xc_last := p\<rparr>"] assms(4) by (simp add: screen_ok_def)
  from assms(1,2) w have c: "c = c0\<lparr>xc_last := p, xc_expecting := True, xc_grabbed := True, xc_pressed := []\<rparr>"
    "reqs = [Warp (pt_x (xc_center c0)) (pt_y (xc_center c0))]"
    by (auto simp: x_grab_def Let_def bind_eq_Some_conv split: sum.splits option.splits if_splits)
  moreover have "sv p (xc_center c0) = [xc_center c0]" using assms(5,6) by (simp add: notifies_moves_def)
  ultimately show "world_ok (world_grabbed sv p c reqs)" "pw_backend (world_grabbed sv p c reqs) = c" "xc_center c = xc_center c0"
    using assms(3,4) by (auto simp: world_grabbed_def world_ok_def Let_def screen_ok_def notified_def)
qed

text \<open>
  What the warp cannot be told from: a movement of the device onto the very middle, read while the warp
  is on its way, is taken for the warp, and is not reported.
\<close>

definition idle_capture :: x_capture where
  "idle_capture =
     \<lparr>xc_bounds = Rect 0 0 1920 1080, xc_keymap = \<lparr>km_min = 8, km_per = 1, km_syms = []\<rparr>,
      xc_hotkey = \<lparr>hk_ctrl = [37, 105], hk_alt = [64, 108], hk_key = Some 110\<rparr>, xc_hotkey_down = False, xc_grabbed = False,
      xc_center = Pt 960 540, xc_last = Pt 960 540, xc_expecting = False, xc_pressed = [], xc_last_local = None\<rparr>"

definition moves_only :: x_server where
  "moves_only a b = (if a = b then [] else [b])"

definition middle_world :: pointer_world where
  "middle_world =
     \<lparr>pw_ptr = Pt 960 540, pw_queue = [(Pt 960 540, False), (Pt 960 540, True)], pw_moved = Pt 10 0, pw_seen = Pt 0 0,
      pw_backend = idle_capture\<lparr>xc_grabbed := True, xc_expecting := True, xc_last := Pt 950 540\<rparr>\<rparr>"

lemma movement_onto_the_middle_lost:
  "map_option (\<lambda>w. (pw_queue w, pw_seen w, pw_moved w)) (world_run (\<lambda>_. False) moves_only [BackendReads, BackendReads] middle_world)
     = Some ([], Pt 0 0, Pt 10 0)"
  by code_simp

end
