(* ===== verification/Capture_Spec.thy ===== *)
theory Capture_Spec
  imports Capture_Win_Run Capture_Motion Inject
begin

text \<open>
  Properties of the two capture backends, each with a concrete run at which its hypotheses hold.
\<close>

section \<open>Sample machines\<close>

text \<open>A Windows desktop of one monitor, and a US layout as far as the letter A goes.\<close>

definition sample_desk :: win_desk where
  "sample_desk =
     \<lparr>wd_cursor = Some (Pt 5 5), wd_virtual = Rect 0 0 1920 1080, wd_monitor = (\<lambda>_. Some (0, 0, 1920, 1080)), wd_can_move = True,
      wd_down = (\<lambda>_. False), wd_toggled = (\<lambda>_. False),
      wd_unicode = (\<lambda>vk scan keys. if vk = 0x41 then (1, [if keys ! VK_SHIFT = 0 then 97 else 65]) else (0, [])),
      wd_hooks = (True, True), wd_window = True\<rparr>"

definition key_a :: kb_info where "key_a = \<lparr>kb_vk = 0x41, kb_scan = 0x1E, kb_flags = 0\<rparr>"
definition key_ctrl :: kb_info where "key_ctrl = \<lparr>kb_vk = 0xA2, kb_scan = 0x1D, kb_flags = 0\<rparr>"
definition key_alt :: kb_info where "key_alt = \<lparr>kb_vk = 0xA4, kb_scan = 0x38, kb_flags = 0\<rparr>"
definition key_home :: kb_info where "key_home = \<lparr>kb_vk = 0x24, kb_scan = 0x47, kb_flags = 1\<rparr>"

definition sample_win :: win_capture where
  "sample_win =
     \<lparr>wc_bounds = Rect 0 0 1920 1080,
      wc_hooks = \<lparr>hs_grabbed = False, hs_center = (960, 540), hs_keys = [], hs_buttons = [], hs_hotkey_down = False,
        hs_held = 0, hs_caps = False, hs_num = False\<rparr>,
      wc_window = True, wc_shown = False, wc_moves = [], wc_last_local = None, wc_last_resync = 0\<rparr>"


section \<open>Only what was asked for\<close>

text \<open>
  C13: Nothing that is typed or clicked leaves the machine unasked. As long as the server has not asked
  for the input, both backends send nothing but the position of the pointer, the hotkey and the news
  of a failed grab, whatever the hooks or the X server report to them, and they stay out of the grab.
\<close>

theorem input_stays_until_asked:
  "(run_steps win_events wis w = Some (w', evs) \<and> \<not> hs_grabbed (wc_hooks w) \<and> (\<forall>i \<in> set wis. snd i \<noteq> WinCmd Grab)
      \<longrightarrow> list_all local_event evs \<and> \<not> hs_grabbed (wc_hooks w'))
   \<and> (run_steps (x_events al) xis x = Some (x', evs') \<and> \<not> xc_grabbed x \<and> (\<forall>i \<in> set xis. \<not> x_asks i)
      \<longrightarrow> list_all local_event evs' \<and> \<not> xc_grabbed x')"
  using win.untaken_run x11.untaken_run by blast

definition quiet_win :: "(win_desk \<times> win_input) list" where
  "quiet_win = [(sample_desk, WinKey WmKeyDown key_a), (sample_desk, WinMouse (WmLeft True) \<lparr>mi_x = 1, mi_y = 1, mi_data = 0\<rparr>),
     (sample_desk, WinPoll 7), (sample_desk, WinKey WmKeyUp key_a)]"

definition granted :: grab_replies where
  "granted = \<lparr>gr_pointer = (\<lambda>i. Some (if i < 2 then 1 else 0)), gr_keyboard = Some 0, gr_position = Some (Pt 100 200)\<rparr>"

definition quiet_x11 :: "x_input list" where
  "quiet_x11 = [XEvent (XKey 38 0 True), XPoll None (Some (Pt 3 4)), XEvent (XButton 1 True), XCmd (Ungrab (Pt 7 7)) granted]"

lemma input_stays_until_asked_witness:
  "\<exists>w' evs x' evs'. run_steps win_events quiet_win sample_win = Some (w', evs) \<and> evs = [Pointer (Pt 5 5)] \<and> \<not> hs_grabbed (wc_hooks w')
     \<and> run_steps (x_events (\<lambda>_. False)) quiet_x11 idle_capture = Some (x', evs') \<and> evs' = [Pointer (Pt 3 4)] \<and> \<not> xc_grabbed x'"
proof -
  have "map_option snd (run_steps win_events quiet_win sample_win) = Some [Pointer (Pt 5 5)]" by code_simp
  then obtain w' where w: "run_steps win_events quiet_win sample_win = Some (w', [Pointer (Pt 5 5)])" by auto
  have "map_option snd (run_steps (x_events (\<lambda>_. False)) quiet_x11 idle_capture) = Some [Pointer (Pt 3 4)]" by code_simp
  then obtain x' where x: "run_steps (x_events (\<lambda>_. False)) quiet_x11 idle_capture = Some (x', [Pointer (Pt 3 4)])" by auto
  have "\<not> hs_grabbed (wc_hooks sample_win)" "\<forall>i \<in> set quiet_win. snd i \<noteq> WinCmd Grab" "\<not> xc_grabbed idle_capture" "\<forall>i \<in> set quiet_x11. \<not> x_asks i"
    by (simp_all add: sample_win_def quiet_win_def idle_capture_def quiet_x11_def)
  then show ?thesis using w x input_stays_until_asked [of quiet_win sample_win w' _ "\<lambda>_. False" quiet_x11 idle_capture x'] by blast
qed


section \<open>Keys go down, repeat and come up in turn\<close>

text \<open>
  C17: Within a grab the key events are in turn. Replayed from no key at all, they never press a key
  that is down or repeat one that is up, the repeats are numbered one after the other (up to 65535),
  and what the replay holds at the end is what the backend counts as down. On Windows a release is sent
  only for a key whose press was; under X11 one for a key from before the grab may be among them.
\<close>

theorem captured_keys_in_turn:
  "(win_events g w = Some (w1, evs1) \<and> \<not> hs_grabbed (wc_hooks w) \<and> hs_grabbed (wc_hooks w1)
      \<and> run_steps win_events wis w1 = Some (w', evs) \<and> (\<forall>i \<in> set wis. \<not> is_cmd i)
      \<longrightarrow> replay_keys True Map.empty evs = Some (map_of (hs_keys (wc_hooks w'))) \<and> list_all taken_event evs)
   \<and> (x_events al h x = Some (x1, evs2) \<and> \<not> xc_grabbed x \<and> xc_grabbed x1
      \<and> run_steps (x_events al) xis x1 = Some (x', evs') \<and> (\<forall>i \<in> set xis. \<not> x_is_cmd i)
      \<longrightarrow> replay_keys False Map.empty evs' = Some (x_held x') \<and> list_all taken_event evs')"
  using win.grab_run x11.grab_run by blast

definition typed_win :: "(win_desk \<times> win_input) list" where
  "typed_win = map (Pair sample_desk) [WinKey WmKeyDown key_a, WinKey WmKeyDown key_a, WinKey WmKeyUp key_a, WinKey WmKeyDown key_ctrl]"

definition typed_x11 :: "x_input list" where
  "typed_x11 = map XEvent [XKey 36 0 False, XKey 65 0 True, XKey 65 0 True]"

definition win_taken :: win_capture where
  "win_taken = fst (the (win_events (sample_desk, WinCmd Grab) sample_win))"

definition x11_taken :: x_capture where
  "x11_taken = fst (the (x_events (\<lambda>_. False) (XCmd Grab granted) idle_capture))"

lemma captured_keys_in_turn_witness:
  "\<exists>w' evs x' evs'. run_steps win_events typed_win win_taken = Some (w', evs) \<and> length evs = 4
     \<and> replay_keys True Map.empty evs = Some (map_of (hs_keys (wc_hooks w')))
     \<and> run_steps (x_events (\<lambda>_. False)) typed_x11 x11_taken = Some (x', evs') \<and> length evs' = 3
     \<and> replay_keys False Map.empty evs' = Some (x_held x')"
proof -
  have "map_option (\<lambda>(c, evs). evs = [] \<and> hs_grabbed (wc_hooks c)) (win_events (sample_desk, WinCmd Grab) sample_win) = Some True"
    by code_simp
  then have g: "win_events (sample_desk, WinCmd Grab) sample_win = Some (win_taken, [])" "hs_grabbed (wc_hooks win_taken)"
    by (auto simp: win_taken_def)
  have "map_option (\<lambda>(c, evs). evs = [] \<and> xc_grabbed c) (x_events (\<lambda>_. False) (XCmd Grab granted) idle_capture) = Some True"
    by code_simp
  then have h: "x_events (\<lambda>_. False) (XCmd Grab granted) idle_capture = Some (x11_taken, [])" "xc_grabbed x11_taken"
    by (auto simp: x11_taken_def)
  have "map_option (length \<circ> snd) (run_steps win_events typed_win win_taken) = Some 4" by code_simp
  then obtain w' evs where w: "run_steps win_events typed_win win_taken = Some (w', evs)" "length evs = 4" by auto
  have "map_option (length \<circ> snd) (run_steps (x_events (\<lambda>_. False)) typed_x11 x11_taken) = Some 3" by code_simp
  then obtain x' evs' where x: "run_steps (x_events (\<lambda>_. False)) typed_x11 x11_taken = Some (x', evs')" "length evs' = 3" by auto
  have "\<not> hs_grabbed (wc_hooks sample_win)" "\<forall>i \<in> set typed_win. \<not> is_cmd i" "\<not> xc_grabbed idle_capture" "\<forall>i \<in> set typed_x11. \<not> x_is_cmd i"
    by (simp_all add: sample_win_def typed_win_def idle_capture_def typed_x11_def)
  then show ?thesis
    using captured_keys_in_turn [of "(sample_desk, WinCmd Grab)" sample_win win_taken "[]" typed_win w' evs
        "\<lambda>_. False" "XCmd Grab granted" idle_capture x11_taken "[]" typed_x11 x' evs'] g h w x by blast
qed

section \<open>The local desktop\<close>




text \<open>
  C16: On Windows the hotkey is reported once for each time it is pressed. A step reports it exactly when
  Home goes down with Ctrl and Alt held and the hotkey is not down already, and then reports nothing else
  and swallows the press. From there until Home comes up it is not reported again, and every repeat and
  the final release of Home is swallowed and sent to nobody, grabbed or not; the release lets the next
  press report again.
\<close>

theorem hotkey_reported_once:
  assumes "win_step d i c = Some (c1, e, sw)" "win_run is c1 = Some (c2, mid)"
    and "\<forall>x \<in> fst ` set mid. \<not> home_input False x" "win_step d' j c2 = Some (c3, e', sw')"
  shows "(Hotkey \<in> set e \<longleftrightarrow> asks_hotkey i c \<and> \<not> hs_hotkey_down (wc_hooks c))
    \<and> (Hotkey \<in> set e \<longrightarrow> e = [Hotkey] \<and> sw \<and> Hotkey \<notin> set e' \<and> (home_input down j \<longrightarrow> e' = [] \<and> sw')
         \<and> (hs_hotkey_down (wc_hooks c3) \<longleftrightarrow> \<not> home_input False j))"
proof -
  have "\<not> asks_hotkey j c2" if "home_input False j" using that by (cases j) auto
  then show ?thesis
    using hotkey_step(1,2) [OF assms(1)] hotkey_step(1,3) [OF assms(4)] hotkey_step(4) [OF assms(4), of down]
      hotkey_followed [OF assms(1) _ assms(2,3)] by blast
qed

definition chord :: "(win_desk \<times> win_input) list" where
  "chord = map (Pair sample_desk) [WinKey WmKeyDown key_ctrl, WinKey WmSysKeyDown key_alt]"

definition held_chord :: "(win_desk \<times> win_input) list" where
  "held_chord = map (Pair sample_desk) [WinCmd Grab, WinKey WmSysKeyDown key_home]"

definition at_chord :: win_capture where
  "at_chord = fst (the (win_run chord sample_win))"

lemma hotkey_reported_once_witness:
  "\<exists>c1 e sw c2 mid c3 e' sw'. win_step sample_desk (WinKey WmSysKeyDown key_home) at_chord = Some (c1, e, sw)
     \<and> win_run held_chord c1 = Some (c2, mid) \<and> win_step sample_desk (WinKey WmKeyUp key_home) c2 = Some (c3, e', sw')
     \<and> e = [Hotkey] \<and> sw \<and> e' = [] \<and> sw' \<and> \<not> hs_hotkey_down (wc_hooks c3)"
proof -
  have "case win_step sample_desk (WinKey WmSysKeyDown key_home) at_chord of None \<Rightarrow> False
    | Some (c1, e, sw) \<Rightarrow> e = [Hotkey] \<and>
        (case win_run held_chord c1 of None \<Rightarrow> False
         | Some (c2, mid) \<Rightarrow> list_all (\<lambda>x. \<not> home_input False (fst x)) mid
             \<and> win_step sample_desk (WinKey WmKeyUp key_home) c2 \<noteq> None)"
    by code_simp
  then obtain c1 e sw c2 mid c3 e' sw' where r: "win_step sample_desk (WinKey WmSysKeyDown key_home) at_chord = Some (c1, e, sw)"
    "win_run held_chord c1 = Some (c2, mid)" "\<forall>x \<in> fst ` set mid. \<not> home_input False x"
    "win_step sample_desk (WinKey WmKeyUp key_home) c2 = Some (c3, e', sw')" "e = [Hotkey]"
    by (auto split: option.splits simp: list_all_iff)
  have "home_input False (WinKey WmKeyUp key_home)" by code_simp
  then show ?thesis using hotkey_reported_once [OF r(1-4), of False] r by auto
qed

section \<open>Motion\<close>

text \<open>
  C14: Under X11, with a server that notifies every movement of the pointer and while the device does not
  land on the very middle of the screen, no movement is lost and none is counted twice. From a successful
  grab that found the pointer off the middle, however late the backend reads, what it has reported and
  what still waits in the queue add up to the way the device has gone; and once the device rests, the
  backend empties the queue within one notification more than waits there, has then reported everything,
  and has the pointer back in the middle. A movement onto the middle can be lost, as shown with the model.
\<close>

theorem pointer_motion_accounted:
  assumes "x_grab r c0 = Some (c, reqs, None)" "gr_position r = Some p" "i16_point p" "screen_ok c0" "p \<noteq> xc_center c0"
    and "notifies_moves sv" "\<forall>p. DeviceTo p \<in> set moves \<longrightarrow> i16_point p \<and> p \<noteq> xc_center c0"
  shows "\<exists>w. world_run al sv moves (world_grabbed sv p c reqs) = Some w
    \<and> pt_x (pw_seen w) + pending pt_x (xc_last (pw_backend w)) (pw_queue w) = pt_x (pw_moved w)
    \<and> pt_y (pw_seen w) + pending pt_y (xc_last (pw_backend w)) (pw_queue w) = pt_y (pw_moved w)
    \<and> (\<exists>n w'. n \<le> Suc (length (pw_queue w)) \<and> world_run al sv (replicate n BackendReads) w = Some w'
         \<and> pw_queue w' = [] \<and> pw_seen w' = pw_moved w \<and> pw_ptr w' = xc_center c0)"
proof -
  note g = world_grabbed_ok [OF assms(1-4,6,5)]
  obtain w where w: "world_run al sv moves (world_grabbed sv p c reqs) = Some w" "world_ok w" "xc_center (pw_backend w) = xc_center c0"
    using world_run_ok [OF g(1) _ assms(6), of moves al] assms(7) g(2,3) by auto
  obtain w' where w': "world_run al sv (replicate (reads_left (pw_queue w)) BackendReads) w = Some w'" "world_ok w'" "pw_queue w' = []"
    "pw_moved w' = pw_moved w" "xc_center (pw_backend w') = xc_center (pw_backend w)"
    using world_drains [OF w(2) assms(6)] by blast
  have "reads_left (pw_queue w) \<le> Suc (length (pw_queue w))" by (simp add: reads_left_def)
  then show ?thesis using w w' world_at_rest [OF w'(2,3)] by (auto simp: world_ok_def Let_def)
qed

definition x11_grab :: "x_capture \<times> x_request list \<times> grab_error option" where
  "x11_grab = the (x_grab granted idle_capture)"

lemma pointer_motion_accounted_witness:
  "\<exists>w n w'. world_run (\<lambda>_. False) moves_only [DeviceTo (Pt 970 540), BackendReads, DeviceTo (Pt 970 530), BackendReads]
        (world_grabbed moves_only (Pt 100 200) (fst x11_grab) (fst (snd x11_grab))) = Some w
     \<and> world_run (\<lambda>_. False) moves_only (replicate n BackendReads) w = Some w' \<and> pw_seen w' = Pt 10 (-10) \<and> pw_ptr w' = Pt 960 540"
proof -
  let ?ms = "[DeviceTo (Pt 970 540), BackendReads, DeviceTo (Pt 970 530), BackendReads]"
  have "map_option (\<lambda>(_, _, err). err) (x_grab granted idle_capture) = Some None" by code_simp
  then have g: "x_grab granted idle_capture = Some (fst x11_grab, fst (snd x11_grab), None)"
    by (auto simp: x11_grab_def split: prod.splits)
  have "map_option pw_moved (world_run (\<lambda>_. False) moves_only ?ms (world_grabbed moves_only (Pt 100 200) (fst x11_grab) (fst (snd x11_grab)))) = Some (Pt 10 (-10))"
    by code_simp
  moreover have "\<exists>w. world_run (\<lambda>_. False) moves_only ?ms (world_grabbed moves_only (Pt 100 200) (fst x11_grab) (fst (snd x11_grab))) = Some w
      \<and> (\<exists>n w'. world_run (\<lambda>_. False) moves_only (replicate n BackendReads) w = Some w' \<and> pw_seen w' = pw_moved w \<and> pw_ptr w' = Pt 960 540)"
    using pointer_motion_accounted [OF g, of "Pt 100 200" moves_only ?ms "\<lambda>_. False"]
    by (auto simp: notifies_moves_def moves_only_def granted_def i16_point_def screen_ok_def idle_capture_def rect_ok_def is_i32_def rect_contains_def
        r_left_def r_top_def r_right_def r_bottom_def i32_small)
  ultimately show ?thesis by fastforce
qed

section \<open>From the key to the other machine\<close>

text \<open>
  C18: A key that one machine captures is a key the other can press. Apart from the character keys, which
  are typed by their character, every key either backend can report has a key of the other machine's
  system, on Linux all but Scroll Lock and Menu, on Windows all but the four that Windows has no key
  for.
\<close>

theorem captured_keys_can_be_pressed:
  assumes "evdev_to_hid code = Some hid \<or> win_key_to_hid vk scan extended = Some hid" "\<not> hid_is_printable hid"
    and "sys = Unix \<Longrightarrow> hid \<notin> {0x47, 0x65}" "has_built_in sys hid"
  shows "named_key sys hid \<noteq> None"
proof -
  define able where "able h \<longleftrightarrow> hid_is_printable h
      \<or> (named_key Unix h \<noteq> None \<or> h \<in> {0x47, 0x65}) \<and> (named_key Windows h \<noteq> None \<or> \<not> has_built_in Windows h)" for h
  have "list_all able (map snd (evdev_keys @ win_vks @ win_extended @ win_plain))"
    unfolding able_def by code_simp
  then have "\<forall>h \<in> set (map snd (evdev_keys @ win_vks @ win_extended @ win_plain)). able h" unfolding list_all_iff .
  moreover have "hid \<in> set (map snd (evdev_keys @ win_vks @ win_extended @ win_plain))"
  proof -
    have "hid \<in> snd ` set evdev_keys" if "evdev_to_hid code = Some hid"
      using that unfolding evdev_iff by (intro image_eqI [where x = "(code, hid)"]) simp_all
    then show ?thesis
      using assms(1) win_key_cases [of vk scan extended hid] unfolding set_map set_append image_Un by blast
  qed
  ultimately have "able hid" by (rule bspec)
  then show ?thesis using assms(2-4) unfolding able_def by (cases sys) auto
qed

lemma captured_keys_can_be_pressed_witness: "named_key Unix (CONSUMER + 0xE9) \<noteq> None"
proof -
  have "evdev_to_hid 115 = Some (CONSUMER + 0xE9)" "\<not> hid_is_printable (CONSUMER + 0xE9)" "CONSUMER + 0xE9 \<notin> {0x47, 0x65}"
    "has_built_in Unix (CONSUMER + 0xE9)"
    by code_simp+
  then show ?thesis using captured_keys_can_be_pressed [of 115 "CONSUMER + 0xE9" 0 0 False Unix] by simp
qed

end
