(* ===== verification/Key_Setup.thy ===== *)
theory Key_Setup
  imports Config_Screens Inject
begin

text \<open>
  \<^verbatim>\<open>crates/geserdesk-app/src/keys.rs\<close>: a machine's own key setup, the file \<^verbatim>\<open>keys.toml\<close>. Reading it for
  a session, showing its entries in the window, checking edited entries and writing them back. As for
  the server's file, a file is the document it parses to.
\<close>

section \<open>Reading the file\<close>

record key_config =
  kc_rules :: "rule list"
  kc_perform :: "(nat, perform) bmap"

definition key_config_default :: key_config where
  "key_config_default = \<lparr>kc_rules = [], kc_perform = []\<rparr>"

datatype key_problem =
    PToml
  | PCapture string rule_error
  | PNoAction string
  | PPerform string perform_error

definition de_strings :: "toml \<Rightarrow> (string, string) bmap option" where
  "de_strings v = do {
     t \<leftarrow> de_table v;
     kvs \<leftarrow> those (map (\<lambda>(k, v). map_option (Pair k) (de_str v)) t);
     Some (bm_of_list kvs)
   }"

definition de_keys :: "document \<Rightarrow> ((string, string) bmap \<times> (string, string) bmap) option" where
  "de_keys d = do {
     c \<leftarrow> de_opt de_strings ''capture'' d;
     p \<leftarrow> de_opt de_strings ''perform'' d;
     Some (unwrap_or [] c, unwrap_or [] p)
   }"

fun read_rules :: "(string \<times> string) list \<Rightarrow> rule list \<times> key_problem list" where
  "read_rules [] = ([], [])"
| "read_rules ((trigger, action) # kvs) =
     (let (rules, problems) = read_rules kvs
      in case rule_parse trigger action of
           Inr rule \<Rightarrow> (rule # rules, problems)
         | Inl e \<Rightarrow> (rules, PCapture trigger e # problems))"

fun read_ways :: "(nat, perform) bmap \<Rightarrow> (string \<times> string) list \<Rightarrow> (nat, perform) bmap \<times> key_problem list" where
  "read_ways m [] = (m, [])"
| "read_ways m ((action, way) # kvs) =
     (case from_name action of
        None \<Rightarrow> (let (m, problems) = read_ways m kvs in (m, PNoAction action # problems))
      | Some hid \<Rightarrow>
          (case perform_parse way of
             Inr p \<Rightarrow> read_ways (bm_insert hid p m) kvs
           | Inl e \<Rightarrow> (let (m, problems) = read_ways m kvs in (m, PPerform action e # problems))))"

text \<open>\<^const>\<open>None\<close>: the text is not TOML.\<close>

definition keys_parse :: "document option \<Rightarrow> key_config \<times> key_problem list" where
  "keys_parse d =
     (case Option.bind d de_keys of
        None \<Rightarrow> (key_config_default, [PToml])
      | Some (capture, perform) \<Rightarrow>
          (let (rules, problems) = read_rules capture; (ways, problems') = read_ways [] perform
           in (\<lparr>kc_rules = rules, kc_perform = ways\<rparr>, problems @ problems')))"

text \<open>What came of reading a file's text.\<close>

datatype file_text = NoFile | Unreadable | Text "document option"

definition load_keys :: "file_text option \<Rightarrow> key_config" where
  "load_keys path =
     (case path of Some (Text d) \<Rightarrow> fst (keys_parse d) | _ \<Rightarrow> key_config_default)"

section \<open>The window's entries\<close>

definition key_actions :: "os \<Rightarrow> (string \<times> bool) list" where
  "key_actions sys = map (\<lambda>(name, hid). (name, has_built_in sys hid)) ACTIONS"

record rule_entry =
  re_trigger :: string
  re_action :: string

record way_entry =
  we_action :: string
  we_way :: string

record key_entries =
  ke_rules :: "rule_entry list"
  ke_ways :: "way_entry list"
  ke_problems :: "key_problem list"

definition key_entries_default :: key_entries where
  "key_entries_default = \<lparr>ke_rules = [], ke_ways = [], ke_problems = []\<rparr>"

definition entries_of :: "document option \<Rightarrow> key_entries option" where
  "entries_of d =
     (case Option.bind d de_keys of
        None \<Rightarrow> None
      | Some (capture, perform) \<Rightarrow>
          Some \<lparr>ke_rules = map (\<lambda>(t, a). \<lparr>re_trigger = t, re_action = a\<rparr>) capture,
                ke_ways = map (\<lambda>(a, w). \<lparr>we_action = a, we_way = w\<rparr>) perform,
                ke_problems = snd (keys_parse d)\<rparr>)"

definition read_entries :: "file_text option \<Rightarrow> key_entries option" where
  "read_entries path =
     (case path of
        None \<Rightarrow> Some key_entries_default
      | Some NoFile \<Rightarrow> Some key_entries_default
      | Some Unreadable \<Rightarrow> None
      | Some (Text d) \<Rightarrow> entries_of d)"

section \<open>Checking and writing\<close>

datatype key_error =
    KRule string rule_error
  | KTwice string
  | KNoAction string
  | KActionTwice string
  | KWay string perform_error
  | KToml
  | KNoFolder
  | KRead
  | KWrite

text \<open>The part of a rule that must be unique.\<close>

definition combination :: "rule \<Rightarrow> mod_mask \<times> nat" where
  "combination rule = (ru_mods rule, ru_hid rule)"

fun check_rules :: "(mod_mask \<times> nat) set \<Rightarrow> rule_entry list \<Rightarrow> key_error option" where
  "check_rules seen [] = None"
| "check_rules seen (r # rs) =
     (case rule_parse (re_trigger r) (re_action r) of
        Inl e \<Rightarrow> Some (KRule (re_trigger r) e)
      | Inr rule \<Rightarrow>
          if combination rule \<in> seen then Some (KTwice (re_trigger r))
          else check_rules (insert (combination rule) seen) rs)"

fun check_ways :: "string set \<Rightarrow> way_entry list \<Rightarrow> key_error option" where
  "check_ways actions [] = None"
| "check_ways actions (w # ws) =
     (if from_name (we_action w) = None then Some (KNoAction (we_action w))
      else if we_action w \<in> actions then Some (KActionTwice (we_action w))
      else case perform_parse (we_way w) of
             Inl e \<Rightarrow> Some (KWay (we_action w) e)
           | Inr _ \<Rightarrow> check_ways (insert (we_action w) actions) ws)"

definition check_entries :: "key_entries \<Rightarrow> key_error option" where
  "check_entries e =
     (case check_rules {} (ke_rules e) of Some er \<Rightarrow> Some er | None \<Rightarrow> check_ways {} (ke_ways e))"

definition put_table :: "string \<Rightarrow> (string \<times> string) list \<Rightarrow> document \<Rightarrow> document" where
  "put_table name pairs d =
     (if pairs = [] then tb_remove name d
      else tb_put name (VTable (fold (\<lambda>(k, v). tb_put k (VStr v)) pairs [])) d)"

definition rule_pairs :: "key_entries \<Rightarrow> (string \<times> string) list" where
  "rule_pairs e = map (\<lambda>r. (trim (re_trigger r), trim (re_action r))) (ke_rules e)"

definition way_pairs :: "key_entries \<Rightarrow> (string \<times> string) list" where
  "way_pairs e = map (\<lambda>w. (trim (we_action w), trim (we_way w))) (ke_ways e)"

definition keys_edited :: "document option \<Rightarrow> key_entries \<Rightarrow> key_error + document" where
  "keys_edited d e =
     (case check_entries e of
        Some er \<Rightarrow> Inl er
      | None \<Rightarrow>
          (case d of
             None \<Rightarrow> Inl KToml
           | Some d \<Rightarrow> Inr (put_table ''perform'' (way_pairs e) (put_table ''capture'' (rule_pairs e) d))))"

text \<open>\<open>left\<close> is what a write that fails leaves of the file.\<close>

definition write_entries :: "file_text option \<Rightarrow> key_entries \<Rightarrow> bool \<Rightarrow> bool \<Rightarrow> file_text \<Rightarrow> file_text option \<times> key_error option" where
  "write_entries path e makes_dir writes left =
     (case path of
        None \<Rightarrow> (None, Some KNoFolder)
      | Some Unreadable \<Rightarrow> (path, Some KRead)
      | Some f \<Rightarrow>
          (case keys_edited (case f of Text d \<Rightarrow> d | _ \<Rightarrow> Some []) e of
             Inl er \<Rightarrow> (path, Some er)
           | Inr d \<Rightarrow>
               if \<not> makes_dir then (path, Some KWrite)
               else if writes then (Some (Text (Some d)), None) else (Some left, Some KWrite)))"

end
