(* ===== verification/Key_Setup_Spec.thy ===== *)
theory Key_Setup_Spec
  imports Key_Setup
begin

text \<open>
  What is saved from the window is what the machine reads. The two sides trim differently (the check
  sees an entry as it was typed, the file gets it trimmed, the reader trims each part of a combination),
  so the first section is about trimming.
\<close>

section \<open>Trimming before and after splitting\<close>

fun split_points :: "nat \<Rightarrow> nat list \<Rightarrow> nat list list" where
  "split_points c [] = [[]]"
| "split_points c (x # xs) =
     (if x = c then [] # split_points c xs
      else case split_points c xs of p # ps \<Rightarrow> (x # p) # ps | [] \<Rightarrow> [[x]])"

lemma split_points_nonempty [simp]: "split_points c xs \<noteq> []"
  by (induction xs) (auto split: list.splits)

lemma trim_points_Cons: "is_whitespace x \<Longrightarrow> trim_points (x # xs) = trim_points xs"
  by (simp add: trim_points_def)

lemma trim_points_snoc: "is_whitespace x \<Longrightarrow> trim_points (xs @ [x]) = trim_points xs"
proof (cases "\<forall>y \<in> set xs. is_whitespace y")
  case True
  then have "dropWhile is_whitespace xs = []" "dropWhile is_whitespace (xs @ [x]) = dropWhile is_whitespace [x]"
    by (simp_all add: dropWhile_append)
  then show "is_whitespace x \<Longrightarrow> ?thesis" by (simp only: trim_points_def) simp
next
  case False
  then have "dropWhile is_whitespace (xs @ [x]) = dropWhile is_whitespace xs @ [x]"
    by (auto simp: dropWhile_append)
  then show "is_whitespace x \<Longrightarrow> ?thesis" by (simp add: trim_points_def)
qed

lemma trim_points_idem: "trim_points (trim_points xs) = trim_points xs"
proof -
  define d where "d = dropWhile is_whitespace xs"
  define t where "t = rev (dropWhile is_whitespace (rev d))"
  have "t @ rev (takeWhile is_whitespace (rev d)) = d"
    by (simp add: t_def flip: rev_append)
  then have "t \<noteq> [] \<Longrightarrow> hd t = hd d \<and> d \<noteq> []" by (metis append_is_Nil_conv hd_append2)
  moreover have "d \<noteq> [] \<Longrightarrow> \<not> is_whitespace (hd d)" unfolding d_def by (rule hd_dropWhile)
  ultimately have "dropWhile is_whitespace t = t" by (cases t) auto
  then show ?thesis by (simp add: trim_points_def t_def d_def)
qed

lemma trim_split_lead: "is_whitespace x \<Longrightarrow> \<not> is_whitespace c \<Longrightarrow> map trim_points (split_points c (x # xs)) = map trim_points (split_points c xs)"
  by (cases "split_points c xs") (auto simp: trim_points_Cons)

lemma split_points_snoc:
  "x \<noteq> c \<Longrightarrow> split_points c (xs @ [x]) = butlast (split_points c xs) @ [last (split_points c xs) @ [x]]"
  by (induction xs) (auto split: list.splits)

lemma trim_split_trail:
  assumes "is_whitespace x" "\<not> is_whitespace c"
  shows "map trim_points (split_points c (xs @ [x])) = map trim_points (split_points c xs)"
proof -
  have "x \<noteq> c" using assms by auto
  then have "map trim_points (split_points c (xs @ [x]))
      = map trim_points (butlast (split_points c xs) @ [last (split_points c xs)])"
    by (simp add: split_points_snoc trim_points_snoc [OF assms(1)] del: append_butlast_last_id)
  also have "butlast (split_points c xs) @ [last (split_points c xs)] = split_points c xs" by (rule append_butlast_last_id) simp
  finally show ?thesis .
qed

lemma trim_split_dropWhile: "\<not> is_whitespace c \<Longrightarrow> map trim_points (split_points c (dropWhile is_whitespace xs)) = map trim_points (split_points c xs)"
  by (induction xs) (auto simp: trim_split_lead simp del: split_points.simps)

lemma trim_split_points:
  assumes "\<not> is_whitespace c"
  shows "map trim_points (split_points c (trim_points xs)) = map trim_points (split_points c xs)"
proof -
  have "map trim_points (split_points c (rev (dropWhile is_whitespace ys))) = map trim_points (split_points c (rev ys))" for ys
    by (induction ys) (auto simp: trim_split_trail [OF _ assms] simp del: split_points.simps)
  from this [of "rev (dropWhile is_whitespace xs)"] show ?thesis
    by (simp add: trim_points_def trim_split_dropWhile [OF assms])
qed

text \<open>A Rust \<^verbatim>\<open>String\<close> is the encoding of its characters.\<close>

definition rust_string :: "string \<Rightarrow> bool" where
  "rust_string s \<longleftrightarrow> (\<forall>c \<in> set (chars s). is_scalar c) \<and> s = utf8_encode (chars s)"

lemma chars_encode [simp]: "\<forall>c \<in> set cs. is_scalar c \<Longrightarrow> chars (utf8_encode cs) = cs"
  by (simp add: chars_def utf8_decode_encode)

lemma set_trim_points: "set (trim_points cs) \<subseteq> set cs"
  unfolding trim_points_def by (auto dest!: set_dropWhileD)

lemma trim_encode: "\<forall>c \<in> set cs. is_scalar c \<Longrightarrow> trim (utf8_encode cs) = utf8_encode (trim_points cs)"
  by (simp add: trim_def)

lemma trim_trim: "rust_string s \<Longrightarrow> trim (trim s) = trim s"
  unfolding rust_string_def using set_trim_points [of "chars s"]
  by (metis (no_types, lifting) subsetD trim_def trim_encode trim_points_idem)

lemma utf8_char_high: "128 \<le> n \<Longrightarrow> is_scalar n \<Longrightarrow> b \<in> set (utf8_char n) \<Longrightarrow> 128 \<le> ord b"
  by (auto simp: utf8_char_def is_scalar_def split: if_splits)

lemma split_on_skip: "c \<notin> set w \<Longrightarrow> split_on c (w @ s) = (w @ hd (split_on c s)) # tl (split_on c s)"
  by (induction w) (auto split: list.splits)

lemma split_on_encode:
  assumes "\<forall>x \<in> set cs. is_scalar x"
  shows "split_on CHR ''+'' (utf8_encode cs) = map utf8_encode (split_points 43 cs)"
  using assms
proof (induction cs)
  case Nil
  then show ?case by (simp add: utf8_encode_def)
next
  case (Cons x cs)
  then have IH: "split_on CHR ''+'' (utf8_encode cs) = map utf8_encode (split_points 43 cs)" by simp
  show ?case
  proof (cases "x = 43")
    case True
    have "byte 43 = CHR ''+''" by code_simp
    then show ?thesis using IH True by (simp add: utf8_encode_def utf8_char_def)
  next
    case False
    have "CHR ''+'' \<notin> set (utf8_char x)"
    proof (cases "x < 128")
      case True
      have "byte x \<noteq> byte 43"
      proof
        assume "byte x = byte 43"
        then have "ord (byte x) = ord (byte 43)" by simp
        then show False using True False by simp
      qed
      moreover have "byte 43 = CHR ''+''" by code_simp
      ultimately show ?thesis using True by (simp add: utf8_char_def)
    next
      case False
      then show ?thesis using utf8_char_high [of x "CHR ''+''"] Cons.prems by auto
    qed
    then show ?thesis
      using split_on_skip [of "CHR ''+''" "utf8_char x" "utf8_encode cs"] IH False
      by (cases "split_points 43 cs") (auto simp: utf8_encode_def)
  qed
qed

lemma split_points_within: "p \<in> set (split_points c xs) \<Longrightarrow> set p \<subseteq> set xs"
proof (induction xs arbitrary: p)
  case (Cons x xs)
  then show ?case by (cases "split_points c xs") (fastforce split: if_splits)+
qed simp

text \<open>The reader, which trims each part of a combination, does not mind whether the whole was trimmed.\<close>

lemma trim_parts:
  assumes "rust_string t"
  shows "map trim (split_on CHR ''+'' (trim t)) = map trim (split_on CHR ''+'' t)"
proof -
  define cs where "cs = chars t"
  have cs: "\<forall>c \<in> set cs. is_scalar c" "t = utf8_encode cs" using assms by (simp_all add: rust_string_def cs_def)
  have cs': "\<forall>c \<in> set (trim_points cs). is_scalar c" using cs(1) set_trim_points by blast
  have parts: "map trim (map utf8_encode (split_points 43 xs)) = map utf8_encode (map trim_points (split_points 43 xs))"
    if "\<forall>x \<in> set xs. is_scalar x" for xs
  proof -
    have "trim (utf8_encode p) = utf8_encode (trim_points p)" if "p \<in> set (split_points 43 xs)" for p
      using split_points_within [OF that] \<open>\<forall>x \<in> set xs. is_scalar x\<close> by (intro trim_encode) blast
    then show ?thesis by simp
  qed
  have "map trim (split_on CHR ''+'' (trim t)) = map utf8_encode (map trim_points (split_points 43 (trim_points cs)))"
    unfolding cs(2) trim_encode [OF cs(1)] split_on_encode [OF cs'] by (rule parts [OF cs'])
  also have "\<dots> = map utf8_encode (map trim_points (split_points 43 cs))"
    by (subst trim_split_points) (simp_all add: is_whitespace_def)
  also have "\<dots> = map trim (split_on CHR ''+'' t)" unfolding cs(2) split_on_encode [OF cs(1)] by (rule parts [OF cs(1), symmetric])
  finally show ?thesis .
qed

section \<open>Reading what was written\<close>

lemma trigger_loop_text: "trigger_loop t mods key parts = Inr r \<Longrightarrow> trigger_loop t' mods key parts = Inr r"
  by (induction t mods key parts rule: trigger_loop.induct) (auto split: option.splits)

lemma rule_parse_trim:
  assumes "rust_string t" "rust_string a" "rule_parse t a = Inr rule"
  shows "rule_parse (trim t) (trim a) = Inr rule"
proof -
  have "map (\<lambda>p. to_ascii_lower (trim p)) (split_on CHR ''+'' (trim t)) = map (\<lambda>p. to_ascii_lower (trim p)) (split_on CHR ''+'' t)"
    using arg_cong [OF trim_parts [OF assms(1)], of "map to_ascii_lower"] by (simp add: comp_def)
  then show ?thesis
    using assms(3) trigger_loop_text [where t' = "trim t"]
    by (fastforce simp: rule_parse_def trim_trim [OF assms(2)] split: option.splits sum.splits)
qed

lemma perform_parse_trim: "rust_string w \<Longrightarrow> perform_parse (trim w) = perform_parse w"
  by (simp add: perform_parse_def trim_trim)

lemma action_names_trimmed: "from_name a = Some hid \<Longrightarrow> trim a = a"
proof -
  have "list_all (\<lambda>(n, _). trim n = n) ACTIONS" by code_simp
  then show "from_name a = Some hid \<Longrightarrow> trim a = a" by (auto simp: from_name_iff list_all_iff)
qed

lemma from_name_inj: "from_name a = Some hid \<Longrightarrow> from_name b = Some hid \<Longrightarrow> a = b"
  using ACTIONS_distinct(2) by (fastforce simp: from_name_iff distinct_map inj_on_def)


text \<open>An entry of the table that was written is a pair of the list, and the other way round.\<close>

lemma fold_put_keys:
  "distinct (map fst kvs) \<Longrightarrow> fst ` set kvs \<inter> fst ` set t = {} \<Longrightarrow> fold (\<lambda>(k, v). tb_put k (VStr v)) kvs t = t @ map (\<lambda>(k, v). (k, VStr v)) kvs"
proof (induction kvs arbitrary: t)
  case (Cons kv kvs)
  obtain k v where kv: "kv = (k, v)" by (cases kv)
  have "k \<notin> fst ` set t' \<Longrightarrow> tb_put k w t' = t' @ [(k, w)]" for t' and w :: toml by (induction t') auto
  then have "tb_put k (VStr v) t = t @ [(k, VStr v)]" using Cons.prems(2) kv by auto
  moreover have "fst ` set kvs \<inter> fst ` set (t @ [(k, VStr v)]) = {}" using Cons.prems kv by auto
  ultimately show ?case using Cons.IH [of "t @ [(k, VStr v)]"] Cons.prems(1) kv by simp
qed simp

lemma de_strings_written:
  assumes "distinct (map fst kvs)"
  shows "de_strings (VTable (fold (\<lambda>(k, v). tb_put k (VStr v)) kvs [])) = Some (bm_of_list kvs)"
proof -
  have "those (map (\<lambda>(k, v). map_option (Pair k) (de_str v)) (map (\<lambda>(k, v). (k, VStr v)) kvs)) = Some kvs"
    by (induction kvs) (auto simp: de_str_def as_str_def)
  then show ?thesis using fold_put_keys [OF assms, of "[]"] by (simp add: de_strings_def de_table_def)
qed

lemma set_bm_of_list:
  assumes "distinct (map fst kvs)"
  shows "set (bm_of_list kvs) = set kvs"
proof -
  have "(k, v) \<in> set (bm_of_list kvs) \<longleftrightarrow> (k, v) \<in> set kvs" for k v
    using bm_get_of_list [OF assms, of k] bm_getI [OF bm_ok_of_list, of k v kvs] bm_getD [of "bm_of_list kvs" k v]
      map_of_eq_Some_iff [OF assms, of k v] by metis
  then show ?thesis by auto
qed

lemma de_opt_put_table:
  assumes "distinct (map fst kvs)"
  shows "de_opt de_strings k (put_table k' kvs d) =
    (if k = k' then (if kvs = [] then Some None else Some (Some (bm_of_list kvs))) else de_opt de_strings k d)"
  by (simp add: put_table_def de_opt_def de_strings_written [OF assms])

lemma de_keys_written:
  assumes "distinct (map fst c)" "distinct (map fst p)"
  shows "de_keys (put_table ''perform'' p (put_table ''capture'' c d)) = Some (bm_of_list c, bm_of_list p)"
  by (simp add: de_keys_def de_opt_put_table assms unwrap_or_def bm_of_list_def)

lemma put_table_other: "k \<noteq> k' \<Longrightarrow> map_of (put_table k' kvs d) k = map_of d k"
  by (simp add: put_table_def)

text \<open>What the check accepts.\<close>

lemma check_rules_ok:
  "check_rules seen rs = None \<Longrightarrow>
     \<exists>rules. map (\<lambda>r. rule_parse (re_trigger r) (re_action r)) rs = map Inr rules
       \<and> distinct (map combination rules) \<and> combination ` set rules \<inter> seen = {}"
proof (induction seen rs rule: check_rules.induct)
  case (2 seen r rs)
  then obtain rule where p: "rule_parse (re_trigger r) (re_action r) = Inr rule" "combination rule \<notin> seen"
    "check_rules (insert (combination rule) seen) rs = None"
    by (auto split: sum.splits if_splits)
  from 2(1) [OF p(1)] p(2,3) obtain rules where "map (\<lambda>r. rule_parse (re_trigger r) (re_action r)) rs = map Inr rules"
    "distinct (map combination rules)" "combination ` set rules \<inter> insert (combination rule) seen = {}"
    by auto
  then show ?case using p by (intro exI [of _ "rule # rules"]) auto
qed simp

lemma check_ways_ok:
  "check_ways seen ws = None \<Longrightarrow>
     (\<forall>w \<in> set ws. (\<exists>hid. from_name (we_action w) = Some hid) \<and> (\<exists>p. perform_parse (we_way w) = Inr p))
       \<and> distinct (map we_action ws) \<and> we_action ` set ws \<inter> seen = {}"
  by (induction seen ws rule: check_ways.induct) (auto split: sum.splits if_splits)

text \<open>What the reader makes of lines that can all be understood.\<close>

lemma read_rules_ok:
  "(\<forall>(t, a) \<in> set kvs. \<exists>rule. rule_parse t a = Inr rule) \<Longrightarrow>
     snd (read_rules kvs) = [] \<and> map Inr (fst (read_rules kvs)) = map (\<lambda>(t, a). rule_parse t a) kvs"
  by (induction kvs) (auto split: prod.splits sum.splits)

lemma read_ways_ok:
  assumes "\<forall>(a, w) \<in> set kvs. (\<exists>hid. from_name a = Some hid) \<and> (\<exists>p. perform_parse w = Inr p)" "distinct (map fst kvs)"
  shows "snd (read_ways m kvs) = [] \<and> (\<forall>hid p. bm_get (fst (read_ways m kvs)) hid = Some p \<longleftrightarrow>
    (\<exists>(a, w) \<in> set kvs. from_name a = Some hid \<and> perform_parse w = Inr p)
    \<or> bm_get m hid = Some p \<and> (\<forall>a \<in> fst ` set kvs. from_name a \<noteq> Some hid))"
  using assms
proof (induction kvs arbitrary: m)
  case (Cons kv kvs)
  obtain a w hid p where kv: "kv = (a, w)" "from_name a = Some hid" "perform_parse w = Inr p"
    using Cons.prems(1) by (cases kv) auto
  have other: "from_name a' \<noteq> Some hid" if "a' \<in> fst ` set kvs" for a'
    using that Cons.prems(2) kv from_name_inj by auto
  have IH: "snd (read_ways (bm_insert hid p m) kvs) = [] \<and> (\<forall>h q. bm_get (fst (read_ways (bm_insert hid p m) kvs)) h = Some q \<longleftrightarrow>
    (\<exists>(a, w) \<in> set kvs. from_name a = Some h \<and> perform_parse w = Inr q)
    \<or> bm_get (bm_insert hid p m) h = Some q \<and> (\<forall>a \<in> fst ` set kvs. from_name a \<noteq> Some h))"
    using Cons.IH [of "bm_insert hid p m"] Cons.prems by auto
  have "bm_get (fst (read_ways m (kv # kvs))) h = Some q \<longleftrightarrow>
    (\<exists>(a, w) \<in> set (kv # kvs). from_name a = Some h \<and> perform_parse w = Inr q)
    \<or> bm_get m h = Some q \<and> (\<forall>a \<in> fst ` set (kv # kvs). from_name a \<noteq> Some h)" for h q
  proof (cases "h = hid")
    case True
    have "\<not> (\<exists>(a, w) \<in> set kvs. from_name a = Some hid \<and> perform_parse w = Inr q)" using other by force
    then show ?thesis using IH kv other True by auto
  qed (use IH kv in auto)
  then show ?case using IH kv by auto
qed simp

lemma rule_parse_combination:
  "rule_parse t a = Inr r \<Longrightarrow> rule_parse t a' = Inr r' \<Longrightarrow> combination r = combination r'"
  by (auto simp: rule_parse_def combination_def split: option.splits sum.splits)

lemma triggers_distinct:
  assumes "map (\<lambda>(t, a). rule_parse t a) kvs = map Inr rules" "distinct (map combination rules)"
  shows "distinct (map fst kvs)"
proof -
  have len: "length kvs = length rules" using arg_cong [OF assms(1), of length] by simp
  have at: "rule_parse (fst (kvs ! i)) (snd (kvs ! i)) = Inr (rules ! i)" if "i < length kvs" for i
    using arg_cong [OF assms(1), of "\<lambda>xs. xs ! i"] that len by (simp add: case_prod_unfold)
  show ?thesis
    unfolding distinct_conv_nth
  proof (intro allI impI)
    fix i j
    assume ij: "i < length (map fst kvs)" "j < length (map fst kvs)" "i \<noteq> j"
    then have "combination (rules ! i) \<noteq> combination (rules ! j)"
      using assms(2) len by (simp add: distinct_conv_nth)
    moreover have "combination (rules ! i) = combination (rules ! j)" if "fst (kvs ! i) = fst (kvs ! j)"
      using rule_parse_combination [of "fst (kvs ! i)" "snd (kvs ! i)" "rules ! i" "snd (kvs ! j)" "rules ! j"] at [of i] at [of j] ij that
      by simp
    ultimately have "fst (kvs ! i) \<noteq> fst (kvs ! j)" by blast
    then show "map fst kvs ! i \<noteq> map fst kvs ! j" using ij by simp
  qed
qed

section \<open>The property\<close>

lemma combination_once:
  assumes "distinct (map combination rules)" "rule \<in> set rules" "rule_matches rule hid mods"
    "set rules' = set rules"
  shows "find (\<lambda>r. rule_matches r hid mods) rules' = Some rule"
proof -
  have only: "r = rule" if "r \<in> set rules'" "rule_matches r hid mods" for r
  proof -
    have "combination r = combination rule" using that(2) assms(3) by (simp add: combination_def rule_matches_def)
    then show ?thesis using assms(1,2,4) that(1) by (simp add: distinct_map inj_on_def)
  qed
  obtain r where r: "find (\<lambda>r. rule_matches r hid mods) rules' = Some r"
    using assms(2-4) by (cases "find (\<lambda>r. rule_matches r hid mods) rules'") (auto simp: find_None_iff)
  then have "r \<in> set rules'" "rule_matches r hid mods" by (auto simp: find_Some_iff in_set_conv_nth)
  then show ?thesis using r only by simp
qed

text \<open>
  C33: The key setup saved from the window is the one the machine reads. When the check lets the entries
  through, the file they are written to has no line the reader would skip; every combination that was
  entered is the only one that fires for its keys, and means its action; there is no other rule; an
  action is done in just the way that was entered for it; and every other part of the file is as it was.
\<close>

theorem saved_key_setup_is_read:
  assumes "keys_edited (Some d) e = Inr d'"
    and "\<forall>r \<in> set (ke_rules e). rust_string (re_trigger r) \<and> rust_string (re_action r)"
    and "\<forall>w \<in> set (ke_ways e). rust_string (we_way w)"
  shows "snd (keys_parse (Some d')) = []
    \<and> (\<forall>r \<in> set (ke_rules e). \<exists>rule. rule_parse (re_trigger r) (re_action r) = Inr rule
        \<and> (\<forall>hid mods. rule_matches rule hid mods \<longrightarrow>
              find (\<lambda>r. rule_matches r hid mods) (kc_rules (fst (keys_parse (Some d')))) = Some rule))
    \<and> (\<forall>rule \<in> set (kc_rules (fst (keys_parse (Some d')))).
        \<exists>r \<in> set (ke_rules e). rule_parse (re_trigger r) (re_action r) = Inr rule)
    \<and> (\<forall>hid p. bm_get (kc_perform (fst (keys_parse (Some d')))) hid = Some p \<longleftrightarrow>
        (\<exists>w \<in> set (ke_ways e). from_name (we_action w) = Some hid \<and> perform_parse (we_way w) = Inr p))
    \<and> (\<forall>k. k \<noteq> ''capture'' \<and> k \<noteq> ''perform'' \<longrightarrow> map_of d' k = map_of d k)"
proof -
  from assms(1) have ok: "check_rules {} (ke_rules e) = None" "check_ways {} (ke_ways e) = None"
    and d': "d' = put_table ''perform'' (way_pairs e) (put_table ''capture'' (rule_pairs e) d)"
    by (auto simp: keys_edited_def check_entries_def split: option.splits)
  obtain rules where rules: "map (\<lambda>r. rule_parse (re_trigger r) (re_action r)) (ke_rules e) = map Inr rules"
    "distinct (map combination rules)" using check_rules_ok [OF ok(1)] by blast
  have "map (\<lambda>(t, a). rule_parse t a) (rule_pairs e) = map (\<lambda>r. rule_parse (re_trigger r) (re_action r)) (ke_rules e)"
  proof -
    have "rule_parse (trim (re_trigger r)) (trim (re_action r)) = rule_parse (re_trigger r) (re_action r)"
      if "r \<in> set (ke_rules e)" for r
    proof -
      have "\<exists>rule. rule_parse (re_trigger r) (re_action r) = Inr rule"
        using that arg_cong [OF rules(1), of set] by auto
      then show ?thesis using rule_parse_trim assms(2) that by (metis)
    qed
    then show ?thesis by (simp add: rule_pairs_def)
  qed
  then have pairs: "map (\<lambda>(t, a). rule_parse t a) (rule_pairs e) = map Inr rules" using rules(1) by simp
  have keys: "distinct (map fst (rule_pairs e))" by (rule triggers_distinct [OF pairs rules(2)])
  note ways = check_ways_ok [OF ok(2)]
  have names: "trim (we_action w) = we_action w" if "w \<in> set (ke_ways e)" for w
    using ways that action_names_trimmed by blast
  have wset: "set (way_pairs e) = (\<lambda>w. (we_action w, trim (we_way w))) ` set (ke_ways e)" "map fst (way_pairs e) = map we_action (ke_ways e)"
    using names by (auto simp: way_pairs_def)
  then have wkeys: "distinct (map fst (way_pairs e))" using ways by simp
  have wok: "\<forall>(a, w) \<in> set (bm_of_list (way_pairs e)). (\<exists>hid. from_name a = Some hid) \<and> (\<exists>p. perform_parse w = Inr p)"
    unfolding set_bm_of_list [OF wkeys] wset(1) using ways assms(3) perform_parse_trim by auto
  note read = read_ways_ok [OF wok bm_ok_distinct [OF bm_ok_of_list], of "[]"]
  define R where "R = bm_of_list (rule_pairs e)"
  have img: "(\<lambda>(t, a). rule_parse t a) ` set R = Inr ` set rules"
    using arg_cong [OF pairs, of set] by (simp add: R_def set_bm_of_list [OF keys])
  have "\<forall>(t, a) \<in> set R. \<exists>rule. rule_parse t a = Inr rule"
  proof (intro ballI)
    fix x assume "x \<in> set R"
    then have "(\<lambda>(t, a). rule_parse t a) x \<in> Inr ` set rules" using img by blast
    then show "case x of (t, a) \<Rightarrow> \<exists>rule. rule_parse t a = Inr rule" by (cases x) auto
  qed
  note rr = read_rules_ok [OF this]
  have "(Inr :: rule \<Rightarrow> rule_error + rule) ` set (fst (read_rules R)) = Inr ` set rules"
    using img arg_cong [OF conjunct2 [OF rr], of set] by simp
  then have rset: "set (fst (read_rules R)) = set rules" by (simp add: inj_image_eq_iff)
  define K where "K = keys_parse (Some d')"
  have K: "K = (\<lparr>kc_rules = fst (read_rules R), kc_perform = fst (read_ways [] (bm_of_list (way_pairs e)))\<rparr>, [])"
    using rr read by (simp add: K_def keys_parse_def d' de_keys_written [OF keys wkeys] R_def Let_def case_prod_unfold)
  have all: "(\<lambda>r. rule_parse (re_trigger r) (re_action r)) ` set (ke_rules e) = Inr ` set rules"
    using arg_cong [OF rules(1), of set] by simp
  have mem: "(\<exists>r \<in> set (ke_rules e). rule_parse (re_trigger r) (re_action r) = Inr rule) \<longleftrightarrow> rule \<in> set rules" for rule
  proof -
    have "(\<exists>r \<in> set (ke_rules e). rule_parse (re_trigger r) (re_action r) = Inr rule)
      \<longleftrightarrow> Inr rule \<in> (\<lambda>r. rule_parse (re_trigger r) (re_action r)) ` set (ke_rules e)"
      by (simp only: image_iff eq_commute)
    then show ?thesis unfolding all by auto
  qed
  show ?thesis
    unfolding K_def [symmetric]
  proof (intro conjI)
    show "snd K = []" by (simp add: K)
    show "\<forall>r \<in> set (ke_rules e). \<exists>rule. rule_parse (re_trigger r) (re_action r) = Inr rule
        \<and> (\<forall>hid mods. rule_matches rule hid mods \<longrightarrow> find (\<lambda>r. rule_matches r hid mods) (kc_rules (fst K)) = Some rule)"
    proof
      fix r assume r: "r \<in> set (ke_rules e)"
      then have "rule_parse (re_trigger r) (re_action r) \<in> Inr ` set rules" using all by blast
      then show "\<exists>rule. rule_parse (re_trigger r) (re_action r) = Inr rule
        \<and> (\<forall>hid mods. rule_matches rule hid mods \<longrightarrow> find (\<lambda>r. rule_matches r hid mods) (kc_rules (fst K)) = Some rule)"
        using combination_once [OF rules(2) _ _ rset] by (auto simp: K)
    qed
    show "\<forall>rule \<in> set (kc_rules (fst K)). \<exists>r \<in> set (ke_rules e). rule_parse (re_trigger r) (re_action r) = Inr rule"
      using rset mem by (simp add: K)
    show "\<forall>hid p. bm_get (kc_perform (fst K)) hid = Some p \<longleftrightarrow>
        (\<exists>w \<in> set (ke_ways e). from_name (we_action w) = Some hid \<and> perform_parse (we_way w) = Inr p)"
      using read assms(3) perform_parse_trim by (auto simp: K set_bm_of_list [OF wkeys] wset(1))
    show "\<forall>k. k \<noteq> ''capture'' \<and> k \<noteq> ''perform'' \<longrightarrow> map_of d' k = map_of d k" by (simp add: d' put_table_other)
  qed
qed


definition sample_entries :: key_entries where
  "sample_entries =
     \<lparr>ke_rules = [\<lparr>re_trigger = '' ctrl + F5'', re_action = ''mute''\<rparr>, \<lparr>re_trigger = ''alt+m'', re_action = ''mic_mute''\<rparr>],
      ke_ways = [\<lparr>we_action = ''brightness_up'', we_way = '' keysym:0x1008ff02''\<rparr>], ke_problems = []\<rparr>"

definition sample_keys_doc :: document where
  "sample_keys_doc = [(''title'', VStr ''mine''), (''capture'', VTable [(''ctrl+banana'', VStr ''mute'')])]"

lemma saved_key_setup_is_read_witness:
  "\<exists>d'. keys_edited (Some sample_keys_doc) sample_entries = Inr d' \<and> snd (keys_parse (Some d')) = []
     \<and> map_of d' ''title'' = Some (VStr ''mine'')"
proof -
  have "isl (keys_edited (Some sample_keys_doc) sample_entries) = False" by code_simp
  then obtain d' where d': "keys_edited (Some sample_keys_doc) sample_entries = Inr d'"
    by (cases "keys_edited (Some sample_keys_doc) sample_entries") auto
  have "\<forall>r \<in> set (ke_rules sample_entries). (\<forall>c \<in> set (chars (re_trigger r)). is_scalar c) \<and> re_trigger r = utf8_encode (chars (re_trigger r))
      \<and> (\<forall>c \<in> set (chars (re_action r)). is_scalar c) \<and> re_action r = utf8_encode (chars (re_action r))"
    by code_simp
  moreover have "\<forall>w \<in> set (ke_ways sample_entries). (\<forall>c \<in> set (chars (we_way w)). is_scalar c) \<and> we_way w = utf8_encode (chars (we_way w))"
    by code_simp
  ultimately have "snd (keys_parse (Some d')) = [] \<and> map_of d' ''title'' = map_of sample_keys_doc ''title''"
    using saved_key_setup_is_read [OF d'] by (simp add: rust_string_def)
  then show ?thesis using d' by (simp add: sample_keys_doc_def)
qed

text \<open>A line that cannot be understood costs only itself: the others are read as if it were not there.\<close>

lemma bad_line_costs_itself:
  "rule_parse t a = Inl er \<Longrightarrow>
     fst (read_rules (kvs @ (t, a) # kvs')) = fst (read_rules (kvs @ kvs'))
     \<and> PCapture t er \<in> set (snd (read_rules (kvs @ (t, a) # kvs')))"
  by (induction kvs) (auto split: prod.splits sum.splits)

end
