(* ===== verification/Known.thy ===== *)
theory Known
  imports Connect Config
begin

text \<open>
  The client's record of trusted servers as a file, \<^verbatim>\<open>crates/geserdesk-client/src/trust_store.rs\<close>, and
  who decides with it: the app's question on the screen (\<^verbatim>\<open>crates/geserdesk-app/src/trust.rs\<close>, with
  the slot a front end answers it through) and the terminal of the command line
  (\<^verbatim>\<open>apps/cli/src/trust.rs\<close>). A file is the document it parses to, \<^const>\<open>None\<close> when it is missing or damaged.
\<close>

section \<open>The file of known servers\<close>

type_synonym known_file = "document option"

definition known_read :: "known_file \<Rightarrow> document" where
  "known_read file = (case file of Some d \<Rightarrow> d | None \<Rightarrow> [])"

definition known_get :: "known_file \<Rightarrow> string \<Rightarrow> fingerprint option" where
  "known_get file server = do {
     v \<leftarrow> map_of (known_read file) ''servers'';
     t \<leftarrow> de_table v;
     e \<leftarrow> map_of t server;
     s \<leftarrow> as_str e;
     fp_parse s }"

text \<open>A \<open>servers\<close> that is no table stays as it is.\<close>

definition known_with :: "document \<Rightarrow> string \<Rightarrow> fingerprint \<Rightarrow> document" where
  "known_with doc server fp =
     (let servers = (case map_of doc ''servers'' of Some v \<Rightarrow> v | None \<Rightarrow> VTable [])
      in case de_table servers of
           Some t \<Rightarrow> tb_put ''servers'' (VTable (tb_put server (VStr (fp_display fp)) t)) doc
         | None \<Rightarrow> doc)"

text \<open>
  What writing the file comes to: \<open>Written\<close>, or a failure that leaves the file as given, since the text
  is written over the old one.
\<close>

datatype write_end = Written | WriteFailed known_file

definition known_remember :: "write_end \<Rightarrow> known_file \<Rightarrow> string \<Rightarrow> fingerprint \<Rightarrow> known_file" where
  "known_remember w file server fp =
     (case w of Written \<Rightarrow> Some (known_with (known_read file) server fp) | WriteFailed left \<Rightarrow> left)"

section \<open>The question on the screen\<close>

text \<open>
  The slot shows one question and has one place for its answer. The question is named by a number here,
  the channel its answer goes to; an answer goes to the channel that is in the slot, once.
\<close>

record prompt_slot =
  ps_shown :: "(string \<times> string) option"
  ps_answer :: "nat option"
  ps_sent :: "(nat \<times> bool) list"

definition slot_new :: prompt_slot where
  "slot_new = \<lparr>ps_shown = None, ps_answer = None, ps_sent = []\<rparr>"

definition slot_answer :: "bool \<Rightarrow> prompt_slot \<Rightarrow> prompt_slot" where
  "slot_answer b s =
     (case ps_answer s of
        None \<Rightarrow> s
      | Some ch \<Rightarrow> s\<lparr>ps_answer := None, ps_sent := ps_sent s @ [(ch, b)]\<rparr>)"

definition slot_ask :: "nat \<Rightarrow> string \<Rightarrow> fingerprint \<Rightarrow> prompt_slot \<Rightarrow> prompt_slot" where
  "slot_ask ch server fp s = s\<lparr>ps_answer := Some ch, ps_shown := Some (server, fp_display fp)\<rparr>"

text \<open>What the asker finds when it stops waiting: the first answer sent to its channel, if any came in time.\<close>

definition slot_close :: "nat \<Rightarrow> prompt_slot \<Rightarrow> prompt_slot \<times> bool option" where
  "slot_close ch s = (s\<lparr>ps_answer := None, ps_shown := None\<rparr>, map_of (ps_sent s) ch)"

definition prompt_confirm :: "write_end \<Rightarrow> bool option \<Rightarrow> known_file \<Rightarrow> string \<Rightarrow> fingerprint \<Rightarrow> known_file \<times> bool" where
  "prompt_confirm w says file server fp =
     (let trusted = (case says of Some b \<Rightarrow> b | None \<Rightarrow> False)
      in (if trusted then known_remember w file server fp else file, trusted))"

definition app_trust :: "write_end \<Rightarrow> (fingerprint \<Rightarrow> bool option) \<Rightarrow> known_file server_trust" where
  "app_trust w says =
     \<lparr>st_pinned = known_get, st_confirm = (\<lambda>file server fp. prompt_confirm w (says fp) file server fp)\<rparr>"

section \<open>The terminal\<close>

text \<open>\<open>line\<close> is what was typed: \<^const>\<open>None\<close> without a terminal, or when it cannot be read.\<close>

definition terminal_says :: "string option \<Rightarrow> bool" where
  "terminal_says line =
     (case line of None \<Rightarrow> False | Some l \<Rightarrow> to_ascii_lower (trim l) \<in> {''y'', ''yes''})"

definition cli_confirm :: "write_end \<Rightarrow> string option \<Rightarrow> known_file \<Rightarrow> string \<Rightarrow> fingerprint \<Rightarrow> known_file \<times> bool" where
  "cli_confirm w line file server fp =
     (if \<not> terminal_says line then (file, False) else (known_remember w file server fp, True))"

definition cli_trust :: "fingerprint option \<Rightarrow> write_end \<Rightarrow> (fingerprint \<Rightarrow> string option) \<Rightarrow> known_file server_trust" where
  "cli_trust forced w typed =
     \<lparr>st_pinned = (\<lambda>file server. case forced of Some fp \<Rightarrow> Some fp | None \<Rightarrow> known_get file server),
      st_confirm = (\<lambda>file server fp. cli_confirm w (typed fp) file server fp)\<rparr>"

section \<open>What a record of servers promises\<close>

locale server_store =
  fixes pinned :: "'t \<Rightarrow> string \<Rightarrow> fingerprint option"
    and remember :: "'t \<Rightarrow> string \<Rightarrow> fingerprint \<Rightarrow> 't"
    and usable :: "'t \<Rightarrow> bool"
  assumes pinned_remembered: "usable t \<Longrightarrow> fp_ok fp \<Longrightarrow> pinned (remember t server fp) server = Some fp"
    and pinned_others: "server' \<noteq> server \<Longrightarrow> pinned (remember t server fp) server' = pinned t server'"
begin

text \<open>
  A trust that pins from the record and remembers what it accepts: whoever a connection was made to is
  whoever every later connection is made to.
\<close>

lemma first_use:
  assumes first: "connect_loop of_cert tr server None as t = (t', Some (Inr (l, fp)))"
    and again: "connect_loop of_cert tr' server None as' t' = (t'', Some (Inr (l', fp')))"
    and pins: "st_pinned tr = pinned" "st_pinned tr' = pinned"
    and keeps: "\<And>t0 t1. st_confirm tr t0 server fp = (t1, True) \<Longrightarrow> t1 = remember t0 server fp"
    and ok: "usable t" "fp_ok fp"
  shows "fp' = fp" "t'' = t'" "pinned t' server = Some fp" "server' \<noteq> server \<Longrightarrow> pinned t' server' = pinned t server'"
proof -
  have now: "pinned t' server = Some fp \<and> (server' \<noteq> server \<longrightarrow> pinned t' server' = pinned t server')"
  proof (cases "pinned t server")
    case None
    then have "t' = remember t server fp" using connect_trusted [OF first] pins(1) keeps by auto
    then show ?thesis using pinned_remembered [OF ok] pinned_others by simp
  next
    case (Some f)
    then show ?thesis using connect_trusted [OF first] pins(1) by auto
  qed
  then show "pinned t' server = Some fp" "server' \<noteq> server \<Longrightarrow> pinned t' server' = pinned t server'" by auto
  show "fp' = fp" "t'' = t'" using connect_trusted [OF again] pins(2) now by auto
qed

end

text \<open>The file can be used when its \<open>servers\<close> is a table, or not there.\<close>

definition known_usable :: "known_file \<Rightarrow> bool" where
  "known_usable file \<longleftrightarrow>
     (case map_of (known_read file) ''servers'' of Some v \<Rightarrow> de_table v \<noteq> None | None \<Rightarrow> True)"

lemma known_get_with:
  assumes "known_usable file" "fp_ok fp"
  shows "known_get (Some (known_with (known_read file) server fp)) server = Some fp"
  using assms
  by (auto simp: known_get_def known_with_def known_read_def known_usable_def de_table_def as_str_def fp_parse_display Let_def
      split: option.splits)

lemma known_get_with_other:
  assumes "server' \<noteq> server"
  shows "known_get (Some (known_with (known_read file) server fp)) server' = known_get file server'"
  using assms
  by (auto simp: known_get_def known_with_def known_read_def Let_def de_table_def split: option.splits toml.splits)

interpretation file_store: server_store known_get "known_remember Written" known_usable
  by unfold_locales (simp_all add: known_remember_def known_get_with known_get_with_other)

interpretation table_store: server_store bm_get "\<lambda>known server fp. bm_insert server fp known" "\<lambda>_. True"
  by unfold_locales simp_all

text \<open>A damaged file pins nobody; what it held is gone once a server is remembered.\<close>

lemma damaged_file: "known_get None server = None" "known_remember Written None server fp = Some [(''servers'', VTable [(server, VStr (fp_display fp))])]"
  by (simp_all add: known_get_def known_read_def known_remember_def known_with_def de_table_def Let_def)

text \<open>A \<open>servers\<close> that is no table never remembers anybody.\<close>

lemma unusable_file:
  assumes "\<not> known_usable (Some d)"
  shows "known_remember Written (Some d) server fp = Some d" "known_get (Some d) server = None"
  using assms
  by (auto simp: known_usable_def known_remember_def known_with_def known_read_def known_get_def Let_def split: option.splits)

section \<open>Answers\<close>

text \<open>The question that is closed gets the answer given while it was the one in the slot, or none.\<close>

lemma slot_answer_once:
  assumes "slot_close ch (slot_answer b s) = (s', says)" "ps_answer s = Some ch" "ch \<notin> fst ` set (ps_sent s)"
  shows "says = Some b" "slot_answer b' (slot_answer b s) = slot_answer b s" "ps_shown s' = None"
proof -
  have "map_of (ps_sent s) ch = None" using assms(3) by (simp add: map_of_eq_None_iff)
  then show "says = Some b" "slot_answer b' (slot_answer b s) = slot_answer b s" "ps_shown s' = None"
    using assms(1,2) by (auto simp: slot_close_def slot_answer_def map_add_def)
qed

lemma slot_answer_nothing_open: "ps_answer s = None \<Longrightarrow> slot_answer b s = s"
  by (simp add: slot_answer_def)

end
