(* ===== verification/Known_Spec.thy ===== *)
theory Known_Spec
  imports Known
begin

text \<open>What a client that keeps its servers in a file promises: the server it trusted once is the one it goes on trusting.\<close>








end
