(* ===== verification/App_Settings.thy ===== *)
theory App_Settings
  imports Config_Screens
begin

text \<open>
  \<^verbatim>\<open>crates/geserdesk-app/src/settings.rs\<close>: the address of a server, and what the app does to the server's
  configuration file when no server runs. How the window's own settings are kept (\<^verbatim>\<open>gui.toml\<close>) is the
  derived code of \<^verbatim>\<open>serde\<close> and is left out; the environment and the host's name are arguments.
\<close>

section \<open>Addresses and names\<close>

definition rsplit_once :: "char \<Rightarrow> string \<Rightarrow> (string \<times> string) option" where
  "rsplit_once c s = (case split_once c (rev s) of None \<Rightarrow> None | Some (b, a) \<Rightarrow> Some (rev a, rev b))"

definition with_default_port :: "string \<Rightarrow> string" where
  "with_default_port server =
     (let s = trim server
      in if s = [] \<or> (case rsplit_once (CHR '':'') s of Some (_, p) \<Rightarrow> parse_nat 65535 p \<noteq> None | None \<Rightarrow> False)
         then s else s @ '':24810'')"

text \<open>The first of the two variables that is set, or the file; \<open>lower\<close> is \<^verbatim>\<open>str::to_lowercase\<close>.\<close>

definition hostname :: "(string \<Rightarrow> string) \<Rightarrow> string option \<Rightarrow> string option \<Rightarrow> string option \<Rightarrow> string" where
  "hostname lower computername host_var etc_hostname =
     (case (case computername of Some h \<Rightarrow> Some h | None \<Rightarrow> (case host_var of Some h \<Rightarrow> Some h | None \<Rightarrow> etc_hostname)) of
        None \<Rightarrow> ''my-pc''
      | Some h \<Rightarrow> (let h = lower (trim h) in if h = [] then ''my-pc'' else h))"

section \<open>The server's file\<close>

text \<open>A path holds nothing, a text that cannot be read or parsed (\<^term>\<open>Some None\<close>), or a document.\<close>

type_synonym config_file = "document option option"

definition file_doc :: "config_file \<Rightarrow> document option" where
  "file_doc f = (case f of Some d \<Rightarrow> d | None \<Rightarrow> None)"

definition config_load :: "'ip addr_lib \<Rightarrow> string \<Rightarrow> config_file \<Rightarrow> config_error + 'ip config" where
  "config_load al path f =
     (case file_doc f of
        None \<Rightarrow> Inl EToml
      | Some d \<Rightarrow> (case config_parse al d of Inl e \<Rightarrow> Inl e | Inr c \<Rightarrow> Inr (c\<lparr>cf_path := Some path\<rparr>)))"

definition default_text :: "string \<Rightarrow> string" where
  "default_text name =
     ''# Dibuat oleh aplikasi GeserDesk. Atur susunan layar dan setujui komputer'' @ [CHR 0x0A]
     @ ''# di tab \"Pengaturan monitor\" setelah server dijalankan.'' @ [CHR 0x0A]
     @ ''[server]'' @ [CHR 0x0A] @ ''listen = \"0.0.0.0:24810\"'' @ [CHR 0x0A] @ ''screen = \"'' @ name @ ''\"'' @ [CHR 0x0A, CHR 0x0A]
     @ ''[[screens]]'' @ [CHR 0x0A] @ ''name = \"'' @ name @ ''\"'' @ [CHR 0x0A]"

text \<open>\<open>tp\<close> reads TOML; whether the directory could be made and the file written is \<open>writes\<close>.\<close>

definition create_default_config :: "(string \<Rightarrow> document option) \<Rightarrow> string \<Rightarrow> bool \<Rightarrow> config_file \<Rightarrow> config_file \<times> bool" where
  "create_default_config tp host writes f =
     (if f \<noteq> None then (f, True) else if writes then (Some (tp (default_text host)), True) else (f, False))"

definition ensure_default_config :: "(string \<Rightarrow> document option) \<Rightarrow> string \<Rightarrow> bool \<Rightarrow> bool \<Rightarrow> config_file \<Rightarrow> config_file \<times> bool" where
  "ensure_default_config tp host writes is_default f =
     (if is_default \<and> f = None then create_default_config tp host writes f else (f, True))"

definition read_tuning :: "'ip addr_lib \<Rightarrow> string \<Rightarrow> config_file \<Rightarrow> config_error + tuning" where
  "read_tuning al path f =
     (if f = None then Inr (tuning_default al)
      else case config_load al path f of Inl e \<Rightarrow> Inl e | Inr c \<Rightarrow> Inr (tuning_of c))"

text \<open>An edit of the file at a path: one that is missing or damaged is refused by it and stays as it is.\<close>

definition at_path :: "(document option \<Rightarrow> document option \<times> save_error option) \<Rightarrow> config_file \<Rightarrow> config_file \<times> save_error option" where
  "at_path edit f =
     (case f of
        Some (Some d) \<Rightarrow> (case edit (Some d) of (d', e) \<Rightarrow> (Some d', e))
      | _ \<Rightarrow> (f, snd (edit None)))"

definition save_tuning :: "'ip addr_lib \<Rightarrow> (string \<Rightarrow> document option) \<Rightarrow> string \<Rightarrow> bool \<Rightarrow> bool \<Rightarrow> tuning
    \<Rightarrow> config_file \<Rightarrow> config_file \<times> save_error option" where
  "save_tuning al tp host writes is_default t f =
     (case ensure_default_config tp host writes is_default f of
        (f, False) \<Rightarrow> (f, Some SWrite)
      | (f, True) \<Rightarrow> at_path (write_tuning al t writes) f)"

record trusted_client =
  tcl_name :: string
  tcl_fingerprint :: string
  tcl_disabled :: bool

definition trusted_clients :: "'ip addr_lib \<Rightarrow> string \<Rightarrow> config_file \<Rightarrow> config_error + trusted_client list" where
  "trusted_clients al path f =
     (if f = None then Inr []
      else case config_load al path f of
        Inl e \<Rightarrow> Inl e
      | Inr c \<Rightarrow> Inr (map (\<lambda>(name, fp). \<lparr>tcl_name = name, tcl_fingerprint = fp_display fp, tcl_disabled = name \<in> cf_disabled c\<rparr>)
                     (cf_trusted c)))"

definition revoke_trusted :: "bool \<Rightarrow> string \<Rightarrow> config_file \<Rightarrow> config_file \<times> save_error option" where
  "revoke_trusted writes name f = at_path (write_fingerprint name None writes) f"

definition set_disabled_in_config :: "bool \<Rightarrow> string \<Rightarrow> bool \<Rightarrow> config_file \<Rightarrow> config_file \<times> save_error option" where
  "set_disabled_in_config writes name disabled f = at_path (write_disabled name disabled writes) f"

section \<open>The first start\<close>

definition default_document :: "string \<Rightarrow> document" where
  "default_document name =
     [(''server'', VTable [(''listen'', VStr ''0.0.0.0:24810''), (''screen'', VStr name)]),
      (''screens'', VTables [[(''name'', VStr name)]])]"

lemma default_document_parses:
  assumes "al_parse al ''0.0.0.0:24810'' = Some (default_listen al)"
  shows "config_parse al (default_document name) = Inr
    \<lparr>cf_listen = default_listen al, cf_local_screen = name, cf_positions = [], cf_sizes = [], cf_path = None, cf_tls = True,
     cf_identity_dir = None, cf_trusted = [], cf_key_rules = [], cf_disabled = {}, cf_layout = la_new [name],
     cf_policy = policy_of options_section_default, cf_options = options_of options_section_default, cf_demo = False\<rparr>"
  using assms
  by (simp add: config_parse_def default_document_def de_config_def de_opt_def de_server_def de_table_def de_str_def as_str_def
      de_screens_def de_screen_def config_checked_def read_listen_def Let_def local_screen_def all_links_def unwrap_or_def
      entry_position_def entry_size_def bm_of_list_def)

lemma default_tuning:
  assumes "config_parse al (default_document name) = Inr c" "al_parse al ''0.0.0.0:24810'' = Some (default_listen al)"
  shows "tuning_of c = tuning_default al"
  using assms(1) unfolding default_document_parses [OF assms(2)]
  by (auto simp: tuning_of_def tuning_default_def default_listen_def policy_of_def options_of_def options_section_default_def unwrap_or_def)

lemma default_headed: "headed (default_document name)"
  by (simp add: headed_def default_document_def)

section \<open>Ports\<close>

lemma trim_nothing: "trim [] = []"
  by (simp add: trim_def chars_def trim_points_def utf8_encode_def)

text \<open>An address without a colon gets the default port, one that ends in a port keeps it.\<close>

lemma rsplit_once_last: "c \<notin> set b \<Longrightarrow> rsplit_once c (a @ c # b) = Some (a, b)"
  using split_once_here [of c "rev b" "rev a"] by (simp add: rsplit_once_def)

lemma default_port_added: "trim server \<noteq> [] \<Longrightarrow> CHR '':'' \<notin> set (trim server) \<Longrightarrow> with_default_port server = trim server @ '':24810''"
  by (simp add: with_default_port_def rsplit_once_def split_once_None Let_def)

lemma port_kept:
  assumes "trim server = host @ CHR '':'' # show_nat port" "port \<le> 65535"
  shows "with_default_port server = trim server"
  using assms by (simp add: with_default_port_def rsplit_once_last show_nat_plain parse_show_nat Let_def)

text \<open>A bare IPv6 address is taken to end in a port.\<close>

lemma bare_ipv6: "with_default_port ''fe80::1'' = ''fe80::1''"
  by code_simp

end
