(* ===== verification/App_Session.thy ===== *)
theory App_Session
  imports Sync Known App_Settings
begin

text \<open>
  \<^verbatim>\<open>crates/geserdesk-app/src/session.rs\<close> with the options of \<^verbatim>\<open>control/wire.rs\<close>: the one client or server a
  daemon runs, and the status it shows. Controllers call it at the same time, and the tasks it spawned go
  on by themselves: an operation that lets go of its locks in between is several steps here, each with the
  number of the controller whose call it is.
\<close>

section \<open>What is shown\<close>

datatype app_status =
    SStopped
  | SConnecting
  | SConnected
  | SAwaitingApproval string
  | SRetrying "connect_error option"
  | SFatal connect_error
  | SServerRunning
  | SError string

fun status_of :: "client_status \<Rightarrow> app_status" where
  "status_of StConnecting = SConnecting"
| "status_of StConnected = SConnected"
| "status_of (StAwaiting m) = SAwaitingApproval m"
| "status_of (StRetrying e) = SRetrying e"
| "status_of (StFatal e) = SFatal e"

section \<open>What a client is started with\<close>

record client_options =
  co_server :: string
  co_name :: string
  co_log_only :: bool
  co_reconnect :: bool
  co_tls :: bool
  co_identity_dir :: "string option"
  co_monitors :: "rect list option"
  co_clipboard :: bool
  co_clipboard_files :: bool

definition client_options_default :: client_options where
  "client_options_default =
     \<lparr>co_server = [], co_name = [], co_log_only = False, co_reconnect = True, co_tls = True, co_identity_dir = None,
      co_monitors = None, co_clipboard = True, co_clipboard_files = True\<rparr>"

record client_settings =
  cst_server :: string
  cst_name :: string
  cst_log_only :: bool

definition options_from :: "client_settings \<Rightarrow> client_options" where
  "options_from s =
     client_options_default\<lparr>co_server := with_default_port (cst_server s), co_name := trim (cst_name s), co_log_only := cst_log_only s\<rparr>"

datatype start_error = AlreadyRunning | NoAddress | NoName | NoConfigDir | IdentityFailed

datatype clipboard_use = NotShared | SharedNoFiles | SharedFiles

record client_config =
  cg_server :: string
  cg_name :: string
  cg_monitors :: "rect list"
  cg_detect :: bool
  cg_tls :: "string option" \<comment> \<open>the directory of its identity and its record of servers\<close>
  cg_clipboard :: clipboard_use
  cg_hooks :: bool

definition client_config :: "string option \<Rightarrow> (string \<Rightarrow> string \<Rightarrow> bool) \<Rightarrow> rect list option \<Rightarrow> client_options
    \<Rightarrow> start_error + client_config" where
  "client_config config_dir identity detected opts =
     (let server = with_default_port (co_server opts); name = trim (co_name opts)
      in if server = [] then Inl NoAddress
         else if name = [] then Inl NoName
         else let tls = (if \<not> co_tls opts then Inr None
                         else case (case co_identity_dir opts of Some d \<Rightarrow> Some d | None \<Rightarrow> config_dir) of
                                None \<Rightarrow> Inl NoConfigDir
                              | Some d \<Rightarrow> if identity d name then Inr (Some d) else Inl IdentityFailed)
              in case tls of
                   Inl e \<Rightarrow> Inl e
                 | Inr t \<Rightarrow> Inr \<lparr>cg_server = server, cg_name = name,
                     cg_monitors = (case co_monitors opts of Some ms \<Rightarrow> ms | None \<Rightarrow> (case detected of Some ms \<Rightarrow> ms | None \<Rightarrow> [])),
                     cg_detect = (co_monitors opts = None), cg_tls = t, cg_clipboard = NotShared, cg_hooks = False\<rparr>)"

definition with_clipboard :: "bool \<Rightarrow> client_options \<Rightarrow> client_config \<Rightarrow> client_config" where
  "with_clipboard available opts cg =
     (if co_clipboard opts \<and> \<not> co_log_only opts
      then cg\<lparr>cg_clipboard := (if \<not> available then NotShared else if co_clipboard_files opts then SharedFiles else SharedNoFiles),
              cg_hooks := True\<rparr>
      else cg)"

text \<open>\<^verbatim>\<open>NoFiles\<close>: the clipboard of a machine that keeps its files to itself.\<close>

definition no_files :: "'c os_clipboard \<Rightarrow> 'c os_clipboard" where
  "no_files oc = (plain_clipboard (oc_get oc) (oc_set oc))\<lparr>oc_change_count := oc_change_count oc\<rparr>"

section \<open>The state\<close>

datatype run_kind = RunClient | RunServer

record live_task =
  lt_kind :: run_kind
  lt_over :: bool
  lt_told :: bool \<comment> \<open>aborted, or told to stop\<close>
  lt_ready :: bool \<comment> \<open>its desk was handed over, and was not taken yet\<close>

text \<open>Where a controller's call to start or stop is.\<close>

datatype call_phase = CallIdle | CallPassed run_kind | CallAnnounced run_kind | CallSpawned nat | CallStopping nat

record app_session =
  ap_status :: app_status
  ap_running :: "nat option"
  ap_started :: nat
  ap_desk :: "nat option"
  ap_prompt :: prompt_slot
  ap_tasks :: "live_task list"
  ap_phase :: "nat \<Rightarrow> call_phase"

definition app_new :: app_session where
  "app_new =
     \<lparr>ap_status = SStopped, ap_running = None, ap_started = 0, ap_desk = None, ap_prompt = slot_new, ap_tasks = [], ap_phase = (\<lambda>_. CallIdle)\<rparr>"

definition on_task :: "nat \<Rightarrow> (live_task \<Rightarrow> live_task) \<Rightarrow> app_session \<Rightarrow> app_session" where
  "on_task t f s = s\<lparr>ap_tasks := (ap_tasks s)[t := f (ap_tasks s ! t)]\<rparr>"

definition to_phase :: "nat \<Rightarrow> call_phase \<Rightarrow> app_session \<Rightarrow> app_session" where
  "to_phase c p s = s\<lparr>ap_phase := (ap_phase s)(c := p)\<rparr>"

definition is_running :: "app_session \<Rightarrow> app_session \<times> bool" where
  "is_running s =
     (let s = (case ap_running s of
                 Some t \<Rightarrow> if lt_over (ap_tasks s ! t) then s\<lparr>ap_running := None, ap_desk := None\<rparr> else s
               | None \<Rightarrow> s)
      in (s, ap_running s \<noteq> None))"

definition session_mode :: "app_session \<Rightarrow> app_session \<times> run_kind option" where
  "session_mode s = (case is_running s of (s, b) \<Rightarrow> (s, if b then map_option (\<lambda>t. lt_kind (ap_tasks s ! t)) (ap_running s) else None))"

definition answer_prompt :: "bool \<Rightarrow> app_session \<Rightarrow> app_session" where
  "answer_prompt b s = s\<lparr>ap_prompt := slot_answer b (ap_prompt s)\<rparr>"

section \<open>Starting\<close>

definition start_check :: "nat \<Rightarrow> run_kind \<Rightarrow> app_session \<Rightarrow> app_session \<times> bool" where
  "start_check c k s = (case is_running s of (s, True) \<Rightarrow> (s, False) | (s, False) \<Rightarrow> (to_phase c (CallPassed k) s, True))"

fun first_status :: "run_kind \<Rightarrow> app_status" where
  "first_status RunClient = SConnecting"
| "first_status RunServer = SServerRunning"

definition start_announce :: "nat \<Rightarrow> run_kind \<Rightarrow> app_session \<Rightarrow> app_session" where
  "start_announce c k s = to_phase c (CallAnnounced k) (s\<lparr>ap_started := ap_started s + 1, ap_status := first_status k\<rparr>)"

definition start_spawn :: "nat \<Rightarrow> run_kind \<Rightarrow> app_session \<Rightarrow> app_session" where
  "start_spawn c k s =
     to_phase c (CallSpawned (length (ap_tasks s)))
       (s\<lparr>ap_tasks := ap_tasks s @ [\<lparr>lt_kind = k, lt_over = False, lt_told = False, lt_ready = False\<rparr>]\<rparr>)"

text \<open>Whatever was recorded before is dropped, which neither ends nor tells its task.\<close>

definition start_install :: "nat \<Rightarrow> nat \<Rightarrow> app_session \<Rightarrow> app_session" where
  "start_install c t s = to_phase c CallIdle (s\<lparr>ap_running := Some t\<rparr>)"

section \<open>What the tasks do\<close>

datatype task_end =
    NoInput string \<comment> \<open>this machine cannot be typed on\<close>
  | GaveUp \<comment> \<open>a client that tries again, reported before\<close>
  | LinkOver
  | ClientFailed connect_error
  | ServerStopped
  | ServerFailed string
  | CutOff \<comment> \<open>aborted\<close>

fun end_status :: "task_end \<Rightarrow> app_status option" where
  "end_status (NoInput why) = Some (SError why)"
| "end_status GaveUp = None"
| "end_status LinkOver = Some SStopped"
| "end_status (ClientFailed e) = Some (SFatal e)"
| "end_status ServerStopped = None"
| "end_status (ServerFailed why) = Some (SError why)"
| "end_status CutOff = None"

fun end_kind :: "task_end \<Rightarrow> run_kind \<Rightarrow> bool" where
  "end_kind ServerStopped k = (k = RunServer)"
| "end_kind (ServerFailed _) k = (k = RunServer)"
| "end_kind CutOff k = True"
| "end_kind _ k = (k = RunClient)"

definition task_ends :: "nat \<Rightarrow> task_end \<Rightarrow> app_session \<Rightarrow> app_session" where
  "task_ends t e s =
     (let s = on_task t (\<lambda>l. l\<lparr>lt_over := True\<rparr>) s
      in case end_status e of None \<Rightarrow> s | Some st \<Rightarrow> s\<lparr>ap_status := st\<rparr>)"

section \<open>CallStopping\<close>

definition stop_take :: "nat \<Rightarrow> app_session \<Rightarrow> app_session" where
  "stop_take c s =
     (let running = ap_running s; s = s\<lparr>ap_running := None, ap_desk := None\<rparr>
      in case running of
           None \<Rightarrow> answer_prompt False s
         | Some t \<Rightarrow>
             (let s = on_task t (\<lambda>l. l\<lparr>lt_told := True\<rparr>) s
              in case lt_kind (ap_tasks s ! t) of
                   RunClient \<Rightarrow> answer_prompt False (s\<lparr>ap_status := SStopped\<rparr>)
                 | RunServer \<Rightarrow> to_phase c (CallStopping t) s))"

text \<open>The server ended in time, or three seconds are over and it is aborted; it was told before either way.\<close>

definition stop_waited :: "nat \<Rightarrow> app_session \<Rightarrow> app_session" where
  "stop_waited c s =
     (let s = (case ap_status s of SError _ \<Rightarrow> s | _ \<Rightarrow> s\<lparr>ap_status := SStopped\<rparr>)
      in to_phase c CallIdle (answer_prompt False s))"

text \<open>The app closes.\<close>

definition app_drop :: "app_session \<Rightarrow> app_session" where
  "app_drop s =
     (case ap_running s of None \<Rightarrow> s | Some t \<Rightarrow> on_task t (\<lambda>l. l\<lparr>lt_told := True\<rparr>) (s\<lparr>ap_running := None\<rparr>))"

section \<open>Steps\<close>

datatype session_event =
    SeLook
  | SeCheck nat run_kind
  | SeRefuse nat \<comment> \<open>the options cannot be used\<close>
  | SeAnnounce nat
  | SeSpawn nat
  | SeInstall nat
  | SeReport nat client_status
  | SeEnd nat task_end
  | SeListening nat
  | SeDesk nat \<comment> \<open>the desk handed over is stored\<close>
  | SeTake nat
  | SeWaited nat
  | SeAsk nat string fingerprint
  | SeAnswer bool
  | SeClosed nat

definition task_alive :: "app_session \<Rightarrow> nat \<Rightarrow> bool" where
  "task_alive s t \<longleftrightarrow> t < length (ap_tasks s) \<and> \<not> lt_over (ap_tasks s ! t)"

text \<open>\<^const>\<open>None\<close>: this cannot happen now.\<close>

fun app_step :: "session_event \<Rightarrow> app_session \<Rightarrow> app_session option" where
  "app_step SeLook s = Some (fst (is_running s))"
| "app_step (SeCheck c k) s = (if ap_phase s c = CallIdle then Some (fst (start_check c k s)) else None)"
| "app_step (SeRefuse c) s = (if ap_phase s c = CallPassed RunClient then Some (to_phase c CallIdle s) else None)"
| "app_step (SeAnnounce c) s = (case ap_phase s c of CallPassed k \<Rightarrow> Some (start_announce c k s) | _ \<Rightarrow> None)"
| "app_step (SeSpawn c) s = (case ap_phase s c of CallAnnounced k \<Rightarrow> Some (start_spawn c k s) | _ \<Rightarrow> None)"
| "app_step (SeInstall c) s = (case ap_phase s c of CallSpawned t \<Rightarrow> Some (start_install c t s) | _ \<Rightarrow> None)"
| "app_step (SeReport t st) s =
     (if task_alive s t \<and> lt_kind (ap_tasks s ! t) = RunClient then Some (s\<lparr>ap_status := status_of st\<rparr>) else None)"
| "app_step (SeEnd t e) s =
     (if task_alive s t \<and> end_kind e (lt_kind (ap_tasks s ! t)) \<and> (e = CutOff \<longrightarrow> lt_told (ap_tasks s ! t))
      then Some (task_ends t e s) else None)"
| "app_step (SeListening t) s =
     (if task_alive s t \<and> lt_kind (ap_tasks s ! t) = RunServer then Some (on_task t (\<lambda>l. l\<lparr>lt_ready := True\<rparr>) s) else None)"
| "app_step (SeDesk t) s =
     (if t < length (ap_tasks s) \<and> lt_ready (ap_tasks s ! t)
      then Some (on_task t (\<lambda>l. l\<lparr>lt_ready := False\<rparr>) (s\<lparr>ap_desk := Some t\<rparr>)) else None)"
| "app_step (SeTake c) s = (if ap_phase s c = CallIdle then Some (stop_take c s) else None)"
| "app_step (SeWaited c) s = (case ap_phase s c of CallStopping t \<Rightarrow> Some (stop_waited c s) | _ \<Rightarrow> None)"
| "app_step (SeAsk ch server fp) s = Some (s\<lparr>ap_prompt := slot_ask ch server fp (ap_prompt s)\<rparr>)"
| "app_step (SeAnswer b) s = Some (answer_prompt b s)"
| "app_step (SeClosed ch) s = Some (s\<lparr>ap_prompt := fst (slot_close ch (ap_prompt s))\<rparr>)"

fun app_run :: "app_session \<Rightarrow> session_event list \<Rightarrow> app_session option" where
  "app_run s [] = Some s"
| "app_run s (e # es) = (case app_step e s of None \<Rightarrow> None | Some s \<Rightarrow> app_run s es)"

lemma app_run_append: "app_run s (es @ es') = (case app_run s es of None \<Rightarrow> None | Some s' \<Rightarrow> app_run s' es')"
  by (induction es arbitrary: s) (auto split: option.split)

end
