(* ===== verification/App_Spec.thy ===== *)
theory App_Spec
  imports App_Session Admin_Spec
begin

text \<open>What the daemon's session promises to its controllers: one thing runs at a time, and what is stopped is told so.\<close>

section \<open>Starting from one place\<close>

text \<open>Only the controller \<open>c\<close> starts anything; everybody may look, answer and stop.\<close>

fun starts_from :: "nat \<Rightarrow> session_event \<Rightarrow> bool" where
  "starts_from c (SeCheck c' k) = (c' = c)"
| "starts_from c _ = True"

fun starting :: "call_phase \<Rightarrow> bool" where
  "starting (CallPassed _) = True"
| "starting (CallAnnounced _) = True"
| "starting (CallSpawned _) = True"
| "starting _ = False"

text \<open>A task that runs and that nobody has told to end.\<close>

definition wanted :: "app_session \<Rightarrow> nat \<Rightarrow> bool" where
  "wanted s t \<longleftrightarrow> task_alive s t \<and> \<not> lt_told (ap_tasks s ! t)"

definition session_ok :: "nat \<Rightarrow> app_session \<Rightarrow> bool" where
  "session_ok c0 s \<longleftrightarrow>
     (\<forall>t. wanted s t \<longrightarrow> ap_running s = Some t \<or> ap_phase s c0 = CallSpawned t)
     \<and> (\<forall>t. ap_running s = Some t \<or> ap_phase s c0 = CallSpawned t \<longrightarrow> t < length (ap_tasks s) \<and> \<not> lt_told (ap_tasks s ! t))
     \<and> (starting (ap_phase s c0) \<longrightarrow> ap_running s = None)
     \<and> (\<forall>c. c \<noteq> c0 \<longrightarrow> \<not> starting (ap_phase s c))
     \<and> ap_started s = length (ap_tasks s) + (case ap_phase s c0 of CallAnnounced _ \<Rightarrow> 1 | _ \<Rightarrow> 0)"

lemma session_ok_new: "session_ok c0 app_new"
  by (simp add: session_ok_def app_new_def wanted_def task_alive_def)

lemma is_running_cases:
  "is_running s = (s\<lparr>ap_running := None, ap_desk := None\<rparr>, False) \<and> (\<exists>t. ap_running s = Some t \<and> lt_over (ap_tasks s ! t))
   \<or> is_running s = (s, ap_running s \<noteq> None) \<and> (\<forall>t. ap_running s = Some t \<longrightarrow> \<not> lt_over (ap_tasks s ! t))"
  by (auto simp: is_running_def Let_def split: option.split)

lemma session_ok_look:
  assumes "session_ok c0 s"
  shows "session_ok c0 (fst (is_running s))"
  using is_running_cases [of s]
proof
  assume "is_running s = (s\<lparr>ap_running := None, ap_desk := None\<rparr>, False) \<and> (\<exists>t. ap_running s = Some t \<and> lt_over (ap_tasks s ! t))"
  then obtain t where t: "fst (is_running s) = s\<lparr>ap_running := None, ap_desk := None\<rparr>" "ap_running s = Some t" "lt_over (ap_tasks s ! t)"
    by auto
  have "wanted (s\<lparr>ap_running := None, ap_desk := None\<rparr>) u \<Longrightarrow> wanted s u \<and> u \<noteq> t" for u
    using t(3) by (auto simp: wanted_def task_alive_def)
  then show ?thesis using assms t(2) unfolding t(1) session_ok_def by auto
qed (use assms in simp)

lemma on_task_fields [simp]:
  "ap_running (on_task t f s) = ap_running s" "ap_phase (on_task t f s) = ap_phase s" "ap_started (on_task t f s) = ap_started s"
  "length (ap_tasks (on_task t f s)) = length (ap_tasks s)" "ap_status (on_task t f s) = ap_status s" "ap_desk (on_task t f s) = ap_desk s"
  by (simp_all add: on_task_def)

lemma on_task_nth: "t < length (ap_tasks s) \<Longrightarrow> ap_tasks (on_task t f s) ! u = (if u = t then f (ap_tasks s ! t) else ap_tasks s ! u)"
  by (auto simp: on_task_def)

lemma to_phase_fields [simp]:
  "ap_running (to_phase c p s) = ap_running s" "ap_tasks (to_phase c p s) = ap_tasks s" "ap_started (to_phase c p s) = ap_started s"
  "ap_phase (to_phase c p s) = (ap_phase s)(c := p)" "ap_status (to_phase c p s) = ap_status s" "ap_desk (to_phase c p s) = ap_desk s"
  by (simp_all add: to_phase_def)

lemma answer_prompt_fields [simp]:
  "ap_running (answer_prompt b s) = ap_running s" "ap_tasks (answer_prompt b s) = ap_tasks s" "ap_started (answer_prompt b s) = ap_started s"
  "ap_phase (answer_prompt b s) = ap_phase s" "ap_status (answer_prompt b s) = ap_status s" "ap_desk (answer_prompt b s) = ap_desk s"
  by (simp_all add: answer_prompt_def)

lemma stop_waited_fields [simp]:
  "ap_running (stop_waited c s) = ap_running s" "ap_tasks (stop_waited c s) = ap_tasks s" "ap_started (stop_waited c s) = ap_started s"
  "ap_phase (stop_waited c s) = (ap_phase s)(c := CallIdle)"
  by (auto simp: stop_waited_def Let_def split: app_status.split)

text \<open>Only these fields matter to it.\<close>

lemma session_ok_same:
  assumes "session_ok c0 s" "ap_running s' = ap_running s" "ap_tasks s' = ap_tasks s" "ap_phase s' = ap_phase s" "ap_started s' = ap_started s"
  shows "session_ok c0 s'"
  using assms by (auto simp: session_ok_def wanted_def task_alive_def)

text \<open>A task that changes without a word about being told.\<close>

lemma session_ok_task:
  assumes "session_ok c0 s" "t < length (ap_tasks s)" "\<And>l. lt_told (f l) = lt_told l" "\<And>l. lt_over l \<Longrightarrow> lt_over (f l)"
  shows "session_ok c0 (on_task t f s)"
proof -
  have "wanted (on_task t f s) u \<Longrightarrow> wanted s u" for u
    using assms(2-4) by (auto simp: wanted_def task_alive_def on_task_nth split: if_splits)
  moreover have "lt_told (ap_tasks (on_task t f s) ! u) = lt_told (ap_tasks s ! u)" for u
    using assms(2,3) by (simp add: on_task_nth)
  ultimately show ?thesis using assms(1) by (auto simp: session_ok_def)
qed

lemma wanted_to_phase [simp]: "wanted (to_phase c p s) = wanted s"
  by (simp add: fun_eq_iff wanted_def task_alive_def)

lemma session_ok_phase:
  assumes "session_ok c0 s" "\<not> starting (ap_phase s c)" "\<not> starting p"
  shows "session_ok c0 (to_phase c p s)"
proof -
  have "ap_phase s c \<noteq> CallSpawned t" "p \<noteq> CallSpawned t" "ap_phase s c \<noteq> CallAnnounced k" "p \<noteq> CallAnnounced k" for t k
    using assms(2,3) by auto
  then show ?thesis
    using assms by (cases "c = c0") (auto simp: session_ok_def split: call_phase.split)
qed

lemma session_ok_pass:
  "session_ok c0 s \<Longrightarrow> ap_running s = None \<Longrightarrow> ap_phase s c0 = CallIdle \<Longrightarrow> session_ok c0 (to_phase c0 (CallPassed k) s)"
  by (auto simp: session_ok_def)

lemma starter:
  assumes "session_ok c0 s" "starting (ap_phase s c)"
  shows "c = c0" "ap_running s = None"
  using assms by (auto simp: session_ok_def)

lemma session_ok_announce:
  assumes "session_ok c0 s" "ap_phase s c0 = CallPassed k"
  shows "session_ok c0 (start_announce c0 k s)"
proof -
  have "wanted (start_announce c0 k s) = wanted s" by (simp add: fun_eq_iff start_announce_def wanted_def task_alive_def)
  then show ?thesis using assms by (auto simp: session_ok_def start_announce_def)
qed

lemma session_ok_spawn:
  assumes "session_ok c0 s" "ap_phase s c0 = CallAnnounced k"
  shows "session_ok c0 (start_spawn c0 k s)"
proof -
  have w: "wanted (start_spawn c0 k s) u \<longleftrightarrow> wanted s u \<or> u = length (ap_tasks s)" for u
    by (auto simp: start_spawn_def wanted_def task_alive_def nth_append split: if_splits)
  have none: "\<not> wanted s u" "ap_running s = None" for u using assms by (auto simp: session_ok_def)
  have st: "ap_phase (start_spawn c0 k s) = (ap_phase s)(c0 := CallSpawned (length (ap_tasks s)))"
    "ap_running (start_spawn c0 k s) = ap_running s" "ap_started (start_spawn c0 k s) = ap_started s"
    "length (ap_tasks (start_spawn c0 k s)) = Suc (length (ap_tasks s))"
    "\<not> lt_told (ap_tasks (start_spawn c0 k s) ! length (ap_tasks s))"
    by (simp_all add: start_spawn_def)
  show ?thesis
    unfolding session_ok_def w st using assms none st(5) by (auto simp: session_ok_def)
qed

lemma session_ok_install:
  assumes "session_ok c0 s" "ap_phase s c0 = CallSpawned t"
  shows "session_ok c0 (start_install c0 t s)"
proof -
  have "wanted (start_install c0 t s) = wanted s" by (simp add: fun_eq_iff start_install_def wanted_def task_alive_def)
  then show ?thesis using assms by (auto simp: session_ok_def start_install_def)
qed

lemma session_ok_take:
  assumes "session_ok c0 s" "ap_phase s c = CallIdle"
  shows "session_ok c0 (stop_take c s)"
proof (cases "ap_running s")
  case None
  then have "stop_take c s = answer_prompt False (s\<lparr>ap_running := None, ap_desk := None\<rparr>)" by (simp add: stop_take_def)
  then show ?thesis using session_ok_same [OF assms(1)] None by simp
next
  case (Some t)
  let ?s = "on_task t (\<lambda>l. l\<lparr>lt_told := True\<rparr>) (s\<lparr>ap_running := None, ap_desk := None\<rparr>)"
  have t: "t < length (ap_tasks s)" using assms(1) Some by (auto simp: session_ok_def)
  have free: "\<not> starting (ap_phase s c0)" using assms(1) Some by (auto simp: session_ok_def)
  have w: "wanted ?s u \<Longrightarrow> wanted s u \<and> u \<noteq> t" for u
    using t by (auto simp: wanted_def task_alive_def on_task_nth split: if_splits)
  have ok: "session_ok c0 ?s"
    using assms(1) w Some free by (auto simp: session_ok_def on_task_nth t)
  have "session_ok c0 (to_phase c (CallStopping t) ?s)"
    by (rule session_ok_phase [OF ok]) (simp_all add: assms(2))
  moreover have "session_ok c0 (answer_prompt False (?s\<lparr>ap_status := SStopped\<rparr>))"
    by (rule session_ok_same [OF ok]) simp_all
  ultimately show ?thesis
    using Some by (cases "lt_kind (ap_tasks ?s ! t)") (auto simp: stop_take_def Let_def)
qed

lemma session_ok_step:
  assumes "session_ok c0 s" "app_step e s = Some s'" "starts_from c0 e"
  shows "session_ok c0 s'"
proof (cases e)
  case SeLook
  then show ?thesis using assms session_ok_look by auto
next
  case (SeCheck c k)
  obtain s1 b where r: "is_running s = (s1, b)" by fastforce
  have ok: "session_ok c0 s1" using session_ok_look [OF assms(1)] r by simp
  have b: "b \<longleftrightarrow> ap_running s1 \<noteq> None" "ap_phase s1 = ap_phase s" using r is_running_cases [of s] by auto
  have c: "ap_phase s c = CallIdle" "s' = fst (start_check c k s)" "c = c0" using assms(2,3) SeCheck by (auto split: if_splits)
  show ?thesis
  proof (cases b)
    case True
    then show ?thesis using ok by (simp add: c(2) start_check_def r)
  next
    case False
    then show ?thesis using session_ok_pass [OF ok] b c by (simp add: start_check_def r)
  qed
next
  case (SeRefuse c)
  then have c: "ap_phase s c = CallPassed RunClient" "s' = to_phase c CallIdle s" using assms(2) by (auto split: if_splits)
  then have "c = c0" using starter(1) [OF assms(1), of c] by simp
  then show ?thesis using assms(1) c by (auto simp: session_ok_def)
next
  case (SeAnnounce c)
  then obtain k where k: "ap_phase s c = CallPassed k" "s' = start_announce c k s"
    using assms(2) by (auto split: call_phase.splits)
  then show ?thesis using starter(1) [OF assms(1), of c] session_ok_announce [OF assms(1)] by simp
next
  case (SeSpawn c)
  then obtain k where k: "ap_phase s c = CallAnnounced k" "s' = start_spawn c k s"
    using assms(2) by (auto split: call_phase.splits)
  then show ?thesis using starter(1) [OF assms(1), of c] session_ok_spawn [OF assms(1)] by simp
next
  case (SeInstall c)
  then obtain t where t: "ap_phase s c = CallSpawned t" "s' = start_install c t s"
    using assms(2) by (auto split: call_phase.splits)
  then show ?thesis using starter(1) [OF assms(1), of c] session_ok_install [OF assms(1)] by simp
next
  case (SeReport t st)
  then have "s' = s\<lparr>ap_status := status_of st\<rparr>" using assms(2) by (auto split: if_splits)
  then show ?thesis using session_ok_same [OF assms(1)] by simp
next
  case (SeEnd t en)
  then have "t < length (ap_tasks s)" "s' = task_ends t en s" using assms(2) by (auto simp: task_alive_def split: if_splits)
  then have "session_ok c0 (on_task t (\<lambda>l. l\<lparr>lt_over := True\<rparr>) s)" using session_ok_task [OF assms(1)] by simp
  from session_ok_same [OF this] show ?thesis using \<open>s' = task_ends t en s\<close>
    by (simp add: task_ends_def Let_def split: option.split)
next
  case (SeListening t)
  then show ?thesis using assms(2) session_ok_task [OF assms(1)] by (auto simp: task_alive_def split: if_splits)
next
  case (SeDesk t)
  then have t: "t < length (ap_tasks s)" "s' = on_task t (\<lambda>l. l\<lparr>lt_ready := False\<rparr>) (s\<lparr>ap_desk := Some t\<rparr>)"
    using assms(2) by (auto split: if_splits)
  have "session_ok c0 (s\<lparr>ap_desk := Some t\<rparr>)" by (rule session_ok_same [OF assms(1)]) simp_all
  then show ?thesis using session_ok_task t by simp
next
  case (SeTake c)
  then show ?thesis using assms(2) session_ok_take [OF assms(1)] by (auto split: if_splits)
next
  case (SeWaited c)
  then obtain t where t: "ap_phase s c = CallStopping t" "s' = stop_waited c s" using assms(2) by (auto split: call_phase.splits)
  then have "session_ok c0 (to_phase c CallIdle s)" using session_ok_phase [OF assms(1)] by simp
  from session_ok_same [OF this] show ?thesis by (simp add: t(2))
next
  case (SeAsk ch server fp)
  then show ?thesis using assms(2) session_ok_same [OF assms(1)] by auto
next
  case (SeAnswer b)
  then show ?thesis using assms(2) session_ok_same [OF assms(1)] by auto
next
  case (SeClosed ch)
  then show ?thesis using assms(2) session_ok_same [OF assms(1)] by auto
qed

lemma session_ok_run: "session_ok c0 s \<Longrightarrow> app_run s es = Some s' \<Longrightarrow> list_all (starts_from c0) es \<Longrightarrow> session_ok c0 s'"
proof (induction es arbitrary: s)
  case (Cons e es)
  then obtain s1 where "app_step e s = Some s1" "app_run s1 es = Some s'" by (auto split: option.splits)
  then show ?case using Cons.IH session_ok_step [OF Cons.prems(1)] Cons.prems(3) by auto
qed simp

text \<open>
  C29: While a single controller does the starting, whoever else looks, answers and stops, and whenever
  tasks report or end: at most one client or server runs that was not told to end. It is the one a stop
  will find, or the one this controller is just about to record; so when nothing is recorded and no start
  is under way, everything that still runs was told to end.
\<close>

theorem one_session_at_a_time:
  assumes "app_run app_new es = Some s" "list_all (starts_from c0) es"
  shows "(\<forall>t u. wanted s t \<longrightarrow> wanted s u \<longrightarrow> t = u)
    \<and> (\<forall>t. wanted s t \<longrightarrow> ap_running s = Some t \<or> ap_phase s c0 = CallSpawned t)
    \<and> (ap_running s = None \<and> \<not> starting (ap_phase s c0) \<longrightarrow> (\<forall>t. \<not> wanted s t))"
proof -
  have ok: "session_ok c0 s" by (rule session_ok_run [OF session_ok_new assms])
  have "starting (ap_phase s c0)" if "ap_phase s c0 = CallSpawned t" for t using that by simp
  then show ?thesis using ok unfolding session_ok_def by (metis call_phase.inject(3) option.distinct(1) option.inject)
qed

definition two_servers :: "session_event list" where
  "two_servers =
     [SeCheck 1 RunServer, SeAnnounce 1, SeSpawn 1, SeListening 0, SeInstall 1, SeDesk 0, SeCheck 1 RunClient,
      SeTake 2, SeCheck 1 RunClient, SeAnnounce 1, SeSpawn 1, SeWaited 2, SeReport 1 StConnecting, SeInstall 1]"

lemma one_session_at_a_time_witness:
  "\<exists>s. app_run app_new two_servers = Some s \<and> (\<forall>u. wanted s u \<longrightarrow> u = 1) \<and> task_alive s 0 \<and> wanted s 1"
proof -
  have "(case app_run app_new two_servers of Some s \<Rightarrow> wanted s 1 \<and> task_alive s 0 | None \<Rightarrow> False)" by code_simp
  then obtain s where s: "app_run app_new two_servers = Some s" "wanted s 1" "task_alive s 0" by (auto split: option.splits)
  have "list_all (starts_from 1) two_servers" by (simp add: two_servers_def)
  from one_session_at_a_time [OF s(1) this] show ?thesis using s by blast
qed

section \<open>Starting from two places\<close>

text \<open>
  Two controllers that both look before either has recorded what it started both start. The one recorded
  first is dropped, and no call ever tells it to end.
\<close>

definition overlapping :: "session_event list" where
  "overlapping =
     [SeCheck 1 RunServer, SeCheck 2 RunServer, SeAnnounce 1, SeSpawn 1, SeInstall 1, SeAnnounce 2, SeSpawn 2, SeInstall 2]"

definition overlapped :: app_session where
  "overlapped = the (app_run app_new overlapping)"

lemma overlapping_starts: "app_run app_new overlapping = Some overlapped" "wanted overlapped 0" "wanted overlapped 1"
  "ap_running overlapped = Some 1"
proof -
  have "app_run app_new overlapping \<noteq> None" by code_simp
  then show "app_run app_new overlapping = Some overlapped" by (simp add: overlapped_def)
  show "wanted overlapped 0" "wanted overlapped 1" "ap_running overlapped = Some 1" by code_simp+
qed

definition lost :: "nat \<Rightarrow> app_session \<Rightarrow> bool" where
  "lost t s \<longleftrightarrow> t < length (ap_tasks s) \<and> \<not> lt_told (ap_tasks s ! t) \<and> ap_running s \<noteq> Some t \<and> (\<forall>c. ap_phase s c \<noteq> CallSpawned t)"

lemma lost_step:
  assumes "lost t s" "app_step e s = Some s'"
  shows "lost t s'"
proof -
  have look: "lost t (fst (is_running s))" using assms(1) is_running_cases [of s] by (auto simp: lost_def)
  have task: "lost t (on_task u f s)" if "u < length (ap_tasks s)" "\<And>l. lt_told (f l) = lt_told l" for u f
    using assms(1) that by (auto simp: lost_def on_task_nth)
  show ?thesis
  proof (cases e)
    case (SeCheck c k)
    then show ?thesis using assms look by (auto simp: start_check_def lost_def split: if_splits prod.splits bool.splits)
  next
    case (SeEnd u en)
    then have "lost t (on_task u (\<lambda>l. l\<lparr>lt_over := True\<rparr>) s)" "s' = task_ends u en s"
      using assms(2) task by (auto simp: task_alive_def split: if_splits)
    then show ?thesis by (auto simp: task_ends_def lost_def Let_def split: option.split)
  next
    case (SeListening u)
    then show ?thesis using assms(2) task by (auto simp: task_alive_def split: if_splits)
  next
    case (SeDesk u)
    then have u: "u < length (ap_tasks s)" "s' = (on_task u (\<lambda>l. l\<lparr>lt_ready := False\<rparr>) s)\<lparr>ap_desk := Some u\<rparr>"
      using assms(2) by (auto simp: on_task_def split: if_splits)
    from task [OF u(1), of "\<lambda>l. l\<lparr>lt_ready := False\<rparr>"] show ?thesis by (simp add: u(2) lost_def)
  next
    case (SeTake c)
    then have s': "s' = stop_take c s" using assms(2) by (auto split: if_splits)
    show ?thesis
    proof (cases "ap_running s")
      case None
      then show ?thesis using assms(1) by (simp add: s' stop_take_def lost_def)
    next
      case (Some u)
      then have "lost t (on_task u (\<lambda>l. l\<lparr>lt_told := True\<rparr>) (s\<lparr>ap_running := None, ap_desk := None\<rparr>))"
        using assms(1) by (auto simp: lost_def on_task_def)
      then show ?thesis using Some by (auto simp: s' stop_take_def lost_def Let_def split: run_kind.split)
    qed
  next
    case (SeWaited c)
    then have "s' = stop_waited c s" using assms(2) by (auto split: call_phase.splits)
    then show ?thesis using assms(1) by (simp add: lost_def)
  next
    case (SeSpawn c)
    then show ?thesis using assms by (auto simp: start_spawn_def lost_def nth_append split: call_phase.splits if_splits)
  next
    case (SeInstall c)
    then show ?thesis using assms by (auto simp: start_install_def lost_def split: call_phase.splits if_splits)
  qed (use assms look in \<open>auto simp: start_announce_def lost_def split: if_splits call_phase.splits\<close>)
qed

lemma lost_for_good: "lost t s \<Longrightarrow> app_run s es = Some s' \<Longrightarrow> lost t s'"
  by (induction es arbitrary: s) (auto split: option.splits dest: lost_step)

lemma overlapped_lost: "app_run overlapped es = Some s \<Longrightarrow> \<not> lt_told (ap_tasks s ! 0)"
proof -
  assume run: "app_run overlapped es = Some s"
  have "ap_phase overlapped = (\<lambda>_. CallIdle)"
    by (auto simp: overlapped_def overlapping_def app_new_def start_check_def is_running_def start_announce_def start_spawn_def
        start_install_def to_phase_def Let_def)
  then have "lost 0 overlapped" using overlapping_starts by (simp add: lost_def wanted_def task_alive_def)
  from lost_for_good [OF this run] show ?thesis by (simp add: lost_def)
qed

section \<open>Stopping\<close>

text \<open>What a stop finds is told to end, and its question is answered with no once the stop is over.\<close>

lemma stop_tells:
  assumes "ap_running s = Some t" "t < length (ap_tasks s)"
  shows "lt_told (ap_tasks (stop_take c s) ! t)" "ap_running (stop_take c s) = None" "ap_desk (stop_take c s) = None"
  using assms by (auto simp: stop_take_def Let_def on_task_def split: run_kind.split)

text \<open>
  A start between the two halves of a stop: the new server runs, and the stop that ends after it shows
  that nothing does.
\<close>

lemma stop_hides_a_start:
  "map_option (\<lambda>s. (ap_status s, ap_running s))
     (app_run app_new [SeCheck 1 RunServer, SeAnnounce 1, SeSpawn 1, SeInstall 1, SeTake 2,
        SeCheck 1 RunServer, SeAnnounce 1, SeSpawn 1, SeInstall 1, SeWaited 2])
   = Some (SStopped, Some 1)"
  by code_simp

text \<open>The desk of a server that is already stopped is stored, and stays until the next look at a session that ended.\<close>

lemma desk_after_stop:
  "map_option (\<lambda>s. (ap_desk s, ap_running s))
     (app_run app_new [SeCheck 1 RunServer, SeAnnounce 1, SeSpawn 1, SeInstall 1, SeListening 0, SeTake 1, SeEnd 0 ServerStopped, SeWaited 1, SeDesk 0, SeLook])
   = Some (Some 0, None)"
  by code_simp

section \<open>Clipboards without files\<close>

context stable_clipboard
begin

lemma no_files_stable: "stable_clipboard (no_files oc)"
  by unfold_locales (simp_all add: no_files_def plain_clipboard_def get_looks change_count_looks)

end

interpretation kept_files: stable_clipboard "no_files mem_clipboard"
  by (rule mem.no_files_stable)

lemma no_files_never: "snd (oc_file_list (no_files oc) c) = IoOk None" "oc_set_file_list (no_files oc) c ps = (c, IoErr)"
  by (simp_all add: no_files_def plain_clipboard_def)

section \<open>The settings before the first start\<close>

text \<open>
  On a machine that never ran a server, saving settings from the window makes the configuration and
  keeps them: what it holds afterwards loads, with the settings saved, this machine's screen alone on the
  desk, every address to listen on, TLS on and nobody trusted; and the window shows the same settings
  before they are saved as the first start would use.
\<close>

theorem first_settings_are_kept:
  assumes "tp (default_text host) = Some (default_document host)" "al_ok al" "al_show al (default_listen al) = ''0.0.0.0:24810''"
    and "tuning_typed t" "tuning_check t = None"
  shows "\<exists>f c. save_tuning al tp host True True t None = (f, None) \<and> config_load al path f = Inr c
    \<and> read_tuning al path f = Inr t \<and> trusted_clients al path f = Inr []
    \<and> cf_local_screen c = host \<and> cf_layout c = la_new [host] \<and> cf_listen c = (al_any al, tu_port t) \<and> cf_tls c
    \<and> (\<exists>c0. config_parse al (default_document host) = Inr c0 \<and> read_tuning al path None = Inr (tuning_of c0))"
proof -
  have any: "al_parse al ''0.0.0.0:24810'' = Some (default_listen al)"
    using assms(2)[unfolded al_ok_def, rule_format, of 24810 "al_any al"] assms(3) by (simp add: default_listen_def)
  obtain c0 where c0: "config_parse al (default_document host) = Inr c0" "cf_local_screen c0 = host" "cf_layout c0 = la_new [host]"
    "cf_listen c0 = default_listen al" "cf_tls c0" "cf_trusted c0 = []"
    using default_document_parses [OF any, of host] by auto
  obtain d where "tuning_edit al t (default_document host) = Inr d" using tuning_edit_runs default_headed by blast
  then have w: "write_tuning al t True (Some (default_document host)) = (Some d, None)"
    using assms(5) by (simp add: write_tuning_def edit_file_def)
  have "config_parse al d = Inr (tuned t c0)" by (rule write_tuning_parse [OF c0(1) assms(2,4) w])
  then have load: "config_load al path (Some (Some d)) = Inr ((tuned t c0)\<lparr>cf_path := Some path\<rparr>)"
    by (simp add: config_load_def file_doc_def)
  have t: "tuning_of ((tuned t c0)\<lparr>cf_path := Some path\<rparr>) = t" using tuning_of_tuned [of t c0] by (simp add: tuning_of_def)
  have save: "save_tuning al tp host True True t None = (Some (Some d), None)"
    by (simp add: save_tuning_def ensure_default_config_def create_default_config_def assms(1) at_path_def w)
  show ?thesis
  proof (intro exI conjI)
    show "save_tuning al tp host True True t None = (Some (Some d), None)" by (rule save)
    show "config_load al path (Some (Some d)) = Inr ((tuned t c0)\<lparr>cf_path := Some path\<rparr>)" by (rule load)
    show "read_tuning al path (Some (Some d)) = Inr t" by (simp add: read_tuning_def load t)
    show "trusted_clients al path (Some (Some d)) = Inr []" by (simp add: trusted_clients_def load tuned_def c0)
    show "config_parse al (default_document host) = Inr c0" by (rule c0(1))
    show "read_tuning al path None = Inr (tuning_of c0)" by (simp add: read_tuning_def default_tuning [OF c0(1) any])
  qed (simp_all add: tuned_def c0 default_listen_def)
qed

definition window_settings :: tuning where
  "window_settings =
     \<lparr>tu_port = 30000, tu_switch_delay_ms = 150, tu_switch_double_tap_ms = 0, tu_switch_corner_size = 40,
      tu_jump_zone_size = 1, tu_scroll_lock_locks = True, tu_clipboard_sharing = True, tu_clipboard_files = False\<rparr>"

lemma first_settings_are_kept_witness:
  "\<exists>f. save_tuning v4_lib (\<lambda>_. Some (default_document ''desk'')) ''desk'' True True window_settings None = (f, None)
     \<and> read_tuning v4_lib ''server.toml'' f = Inr window_settings"
proof -
  have "al_show v4_lib (default_listen v4_lib) = ''0.0.0.0:24810''" "tuning_typed window_settings" "tuning_check window_settings = None"
    by code_simp+
  from first_settings_are_kept [where tp = "\<lambda>_. Some (default_document ''desk'')" and host = "''desk''" and path = "''server.toml''", OF refl v4_ok this]
  show ?thesis by blast
qed

end
