(* ===== verification/Transfers.thy ===== *)
theory Transfers
  imports Pull Key_Rules
begin

text \<open>
  What a front end is shown of copies of files: the copies this machine offered and the note left in a
  pulled folder (\<^verbatim>\<open>crates/geserdesk-clipboard/src/history.rs\<close>), the reports of a pull and the switch that
  cancels it (\<^verbatim>\<open>crates/geserdesk-clipboard/src/pull.rs\<close>, \<^verbatim>\<open>crates/geserdesk-app/src/transfer.rs\<close>), and
  the log (\<^verbatim>\<open>crates/geserdesk-app/src/log.rs\<close>). A broadcast channel is the list of what was sent on it.
\<close>

section \<open>Copies offered\<close>

record shared_copy =
  shc_names :: "string list"
  shc_files :: nat
  shc_bytes :: nat

definition top_names :: "file_manifest \<Rightarrow> string list" where
  "top_names m = map fe_path (filter (\<lambda>e. CHR ''/'' \<notin> set (fe_path e)) (fm_entries m))"

definition shared_copy_of :: "file_manifest \<Rightarrow> shared_copy" where
  "shared_copy_of m =
     \<lparr>shc_names = top_names m, shc_files = length (filter (\<lambda>e. \<not> fe_dir e) (fm_entries m)), shc_bytes = total_bytes m\<rparr>"

section \<open>The note in a pulled folder\<close>

definition NOTE :: string where
  "NOTE = ''.geserdesk-transfer''"

record staged_note =
  no_peer :: string
  no_time :: nat
  no_names :: "string list"

definition one_line :: "string \<Rightarrow> string" where
  "one_line t = map (\<lambda>c. if c = CHR 0x0A \<or> c = CHR 0x0D then CHR '' '' else c) t"

definition note_text :: "string \<Rightarrow> nat \<Rightarrow> file_manifest \<Rightarrow> string" where
  "note_text peer time m =
     ''peer '' @ one_line peer @ [CHR 0x0A] @ ''time '' @ show_nat time @ [CHR 0x0A]
     @ concat (map (\<lambda>n. ''name '' @ one_line n @ [CHR 0x0A]) (top_names m))"

definition write_note :: "(io_op \<Rightarrow> bool) \<Rightarrow> path \<Rightarrow> string \<Rightarrow> nat \<Rightarrow> file_manifest \<Rightarrow> disk \<Rightarrow> disk" where
  "write_note io dest peer time m d =
     (if io (IoWrite (dest @ [NOTE]))
      then (case create_file d (dest @ [NOTE]) of
              None \<Rightarrow> d
            | Some d \<Rightarrow> append_file d (dest @ [NOTE]) (note_text peer time m))
      else d)"

text \<open>In a folder reached without links it is one file more, where nothing or a file was before.\<close>

lemma write_note_plain:
  assumes "link_free d dest" "d dest = Some NDir" "d (dest @ [NOTE]) = None \<or> d (dest @ [NOTE]) = Some (NFile old)"
    "io (IoWrite (dest @ [NOTE]))"
  shows "write_note io dest peer time m d = d(dest @ [NOTE] \<mapsto> NFile (note_text peer time m))"
    and "link_free (write_note io dest peer time m d) (dest @ [NOTE])"
proof -
  have above: "link_free (d(dest @ [NOTE] \<mapsto> NFile bs)) (dest @ [NOTE])" for bs
    unfolding link_free_def
  proof (intro allI impI)
    fix r u t assume r: "dest @ [NOTE] = r @ u" "r \<noteq> []"
    then consider "r = dest @ [NOTE]" | u' where "dest = r @ u'" "r \<noteq> dest @ [NOTE]" by (cases u rule: rev_cases) auto
    then show "(d(dest @ [NOTE] \<mapsto> NFile bs)) r \<noteq> Some (NLink t)"
      by cases (use assms(1) r(2) in \<open>auto simp: link_free_def\<close>)
  qed
  have lf: "link_free d (dest @ [NOTE])"
    unfolding link_free_def
  proof (intro allI impI)
    fix r u t assume r: "dest @ [NOTE] = r @ u" "r \<noteq> []"
    show "d r \<noteq> Some (NLink t)"
      using above [of "[]", unfolded link_free_def] r assms(3) by (cases "r = dest @ [NOTE]") fastforce+
  qed
  show w: "write_note io dest peer time m d = d(dest @ [NOTE] \<mapsto> NFile (note_text peer time m))"
    using assms(2-4) create_file_plain [OF lf] append_file_plain [OF above [of "[]"]] by (auto simp: write_note_def)
  show "link_free (write_note io dest peer time m d) (dest @ [NOTE])" unfolding w by (rule above)
qed

text \<open>\<^verbatim>\<open>str::lines\<close>: without the last, empty part, and without a carriage return at the end of a line.\<close>

definition str_lines :: "string \<Rightarrow> string list" where
  "str_lines t =
     (let ls = split_on (CHR 0x0A) t;
          ls = (if last ls = [] then butlast ls else ls)
      in map (\<lambda>l. if l \<noteq> [] \<and> last l = CHR 0x0D then butlast l else l) ls)"

definition note_line :: "string \<Rightarrow> staged_note \<Rightarrow> staged_note" where
  "note_line l n =
     (case split_once (CHR '' '') l of
        Some (k, v) \<Rightarrow>
          if k = ''peer'' then n\<lparr>no_peer := v\<rparr>
          else if k = ''time'' then n\<lparr>no_time := (case parse_nat (2 ^ 64 - 1) v of Some t \<Rightarrow> t | None \<Rightarrow> 0)\<rparr>
          else if k = ''name'' then n\<lparr>no_names := no_names n @ [v]\<rparr> else n
      | None \<Rightarrow> n)"

definition note_parse :: "string \<Rightarrow> staged_note" where
  "note_parse t = fold note_line (str_lines t) \<lparr>no_peer = [], no_time = 0, no_names = []\<rparr>"

definition read_note :: "disk \<Rightarrow> path \<Rightarrow> staged_note option" where
  "read_note d dir =
     (case stat d (dir @ [NOTE]) of Some (NFile t) \<Rightarrow> if utf8_valid t then Some (note_parse t) else None | _ \<Rightarrow> None)"

section \<open>Cancelling\<close>

text \<open>The switch counts its flips; a pull remembers the count it started with.\<close>

definition cancel_flip :: "nat \<Rightarrow> nat" where
  "cancel_flip g = u64 (g + 1)"

definition is_cancelled :: "nat option \<Rightarrow> nat \<Rightarrow> bool" where
  "is_cancelled start g = (case start of Some s \<Rightarrow> g \<noteq> s | None \<Rightarrow> False)"

section \<open>Reports of a pull\<close>

datatype pull_failure = PullFailure pull_error | ClipboardFailure

datatype pull_event = PeProgress progress | PeDone | PeCancelled | PeFailed pull_failure

definition ended_with :: "pull_error \<Rightarrow> pull_event" where
  "ended_with e = (if e = PCancelled then PeCancelled else PeFailed (PullFailure e))"

record pull_report =
  rp_peer :: string
  rp_event :: pull_event

datatype transfer_state = TRunning | TDone | TCancelled | TFailed pull_failure

record transfer_progress =
  tp_seq :: nat
  tp_peer :: string
  tp_file :: string
  tp_file_index :: nat
  tp_file_count :: nat
  tp_bytes_done :: nat
  tp_bytes_total :: nat
  tp_state :: transfer_state

definition from_report :: "pull_report \<Rightarrow> nat \<Rightarrow> transfer_progress" where
  "from_report r last_seq =
     (let over = (\<lambda>st. \<lparr>tp_seq = last_seq, tp_peer = rp_peer r, tp_file = [], tp_file_index = 0, tp_file_count = 0,
                        tp_bytes_done = 0, tp_bytes_total = 0, tp_state = st\<rparr>)
      in case rp_event r of
           PeProgress p \<Rightarrow> \<lparr>tp_seq = pr_seq p, tp_peer = rp_peer r, tp_file = pr_file p, tp_file_index = pr_file_index p,
             tp_file_count = pr_file_count p, tp_bytes_done = pr_bytes_done p, tp_bytes_total = pr_bytes_total p, tp_state = TRunning\<rparr>
         | PeDone \<Rightarrow> over TDone
         | PeCancelled \<Rightarrow> over TCancelled
         | PeFailed e \<Rightarrow> over (TFailed e))"

record shared_entry =
  she_id :: nat
  she_time :: nat
  she_names :: "string list"
  she_files :: nat
  she_bytes :: nat

definition SHARED_KEPT :: nat where
  "SHARED_KEPT = 200"

record transfer_hub =
  th_live :: "transfer_progress list"
  th_cancel :: nat
  th_last_id :: nat
  th_shared :: "shared_entry list"

definition transfer_new :: transfer_hub where
  "transfer_new = \<lparr>th_live = [], th_cancel = 0, th_last_id = 0, th_shared = []\<rparr>"

definition cancel_all :: "transfer_hub \<Rightarrow> transfer_hub" where
  "cancel_all h = h\<lparr>th_cancel := cancel_flip (th_cancel h)\<rparr>"

definition offered_copy :: "nat \<Rightarrow> file_manifest \<Rightarrow> transfer_hub \<Rightarrow> transfer_hub" where
  "offered_copy now m h =
     (let n = u64 (th_last_id h + 1); copy = shared_copy_of m;
          all = th_shared h @ [\<lparr>she_id = n, she_time = now, she_names = shc_names copy, she_files = shc_files copy, she_bytes = shc_bytes copy\<rparr>]
      in h\<lparr>th_last_id := n, th_shared := (if length all > SHARED_KEPT then tl all else all)\<rparr>)"

definition shared_files :: "transfer_hub \<Rightarrow> shared_entry list" where
  "shared_files h = rev (th_shared h)"

definition forget_shared :: "nat option \<Rightarrow> transfer_hub \<Rightarrow> transfer_hub" where
  "forget_shared which h =
     h\<lparr>th_shared := (case which of Some i \<Rightarrow> filter (\<lambda>e. she_id e \<noteq> i) (th_shared h) | None \<Rightarrow> [])\<rparr>"

text \<open>A sink, with the last number it saw; all pulls of a session report through one.\<close>

definition sink_report :: "pull_report \<Rightarrow> nat \<times> transfer_hub \<Rightarrow> nat \<times> transfer_hub" where
  "sink_report r s =
     (let last_seq = (case rp_event r of PeProgress p \<Rightarrow> pr_seq p | _ \<Rightarrow> fst s)
      in (last_seq, (snd s)\<lparr>th_live := th_live (snd s) @ [from_report r last_seq]\<rparr>))"

section \<open>The log\<close>

datatype level = LError | LWarn | LInfo | LDebug | LTrace

fun level_rank :: "level \<Rightarrow> nat" where
  "level_rank LError = 0"
| "level_rank LWarn = 1"
| "level_rank LInfo = 2"
| "level_rank LDebug = 3"
| "level_rank LTrace = 4"

instantiation level :: linorder
begin

definition less_eq_level :: "level \<Rightarrow> level \<Rightarrow> bool" where
  "less_eq_level a b \<longleftrightarrow> level_rank a \<le> level_rank b"

definition less_level :: "level \<Rightarrow> level \<Rightarrow> bool" where
  "less_level a b \<longleftrightarrow> level_rank a < level_rank b"

instance
proof
  fix a b c :: level
  show "a < b \<longleftrightarrow> a \<le> b \<and> \<not> b \<le> a" "a \<le> a" "a \<le> b \<or> b \<le> a" by (auto simp: less_eq_level_def less_level_def)
  show "a \<le> b \<Longrightarrow> b \<le> c \<Longrightarrow> a \<le> c" by (simp add: less_eq_level_def)
  show "a \<le> b \<Longrightarrow> b \<le> a \<Longrightarrow> a = b" by (cases a; cases b) (auto simp: less_eq_level_def)
qed

end

record log_line =
  ll_time :: string
  ll_level :: level
  ll_text :: string

definition MAX_LINES :: nat where
  "MAX_LINES = 3000"

record log_buffer =
  lb_lines :: "log_line list"
  lb_live :: "log_line list"

definition log_new :: log_buffer where
  "log_new = \<lparr>lb_lines = [], lb_live = []\<rparr>"

definition log_push :: "string \<Rightarrow> level \<Rightarrow> string \<Rightarrow> log_buffer \<Rightarrow> log_buffer" where
  "log_push time lvl t b =
     (let line = \<lparr>ll_time = time, ll_level = lvl, ll_text = t\<rparr>;
          ls = (if length (lb_lines b) \<ge> MAX_LINES then tl (lb_lines b) else lb_lines b)
      in b\<lparr>lb_lines := ls @ [line], lb_live := lb_live b @ [line]\<rparr>)"

definition log_snapshot :: "level \<Rightarrow> log_buffer \<Rightarrow> log_line list" where
  "log_snapshot lvl b = filter (\<lambda>l. ll_level l \<le> lvl) (lb_lines b)"

definition log_clear :: "log_buffer \<Rightarrow> log_buffer" where
  "log_clear b = b\<lparr>lb_lines := []\<rparr>"

fun level_name :: "level \<Rightarrow> string" where
  "level_name LError = ''ERROR''"
| "level_name LWarn = ''WARN''"
| "level_name LInfo = ''INFO''"
| "level_name LDebug = ''DEBUG''"
| "level_name LTrace = ''TRACE''"

text \<open>The text of an event: its message, and then its other fields in the order they came.\<close>

definition visitor_finish :: "string \<Rightarrow> string list \<Rightarrow> string" where
  "visitor_finish message fs =
     (if fs = [] then message else message @ '' '' @ join (CHR '' '') fs)"

definition as_text :: "level \<Rightarrow> log_buffer \<Rightarrow> string" where
  "as_text lvl b =
     concat (map (\<lambda>l. ll_time l @ '' '' @ level_name (ll_level l) @ replicate (5 - length (level_name (ll_level l))) (CHR '' '')
       @ '' '' @ ll_text l @ [CHR 0x0A]) (log_snapshot lvl b))"

section \<open>What is kept\<close>

text \<open>The lines kept are the newest of all since the last clear.\<close>

lemma log_push_keeps: "length (lb_lines b) \<le> MAX_LINES \<Longrightarrow> length (lb_lines (log_push time lvl t b)) \<le> MAX_LINES"
  by (auto simp: log_push_def Let_def MAX_LINES_def)

lemma log_newest:
  assumes "lb_lines b = drop (length ls - MAX_LINES) ls"
  shows "lb_lines (log_push time lvl t b) = drop (length ls + 1 - MAX_LINES) (ls @ [\<lparr>ll_time = time, ll_level = lvl, ll_text = t\<rparr>])"
proof (cases "length ls < MAX_LINES")
  case True
  then show ?thesis using assms by (simp add: log_push_def Let_def)
next
  case False
  then have "length (lb_lines b) = MAX_LINES" using assms by simp
  moreover have "tl (lb_lines b) = drop (length ls + 1 - MAX_LINES) ls"
    using False by (simp add: assms tl_drop drop_Suc Suc_diff_le)
  ultimately show ?thesis using False by (simp add: log_push_def Let_def MAX_LINES_def)
qed

text \<open>The history of offered copies: never more than two hundred, under rising numbers.\<close>

definition history_ok :: "transfer_hub \<Rightarrow> bool" where
  "history_ok h \<longleftrightarrow> length (th_shared h) \<le> SHARED_KEPT \<and> sorted_wrt (\<lambda>a b. she_id a < she_id b) (th_shared h)
     \<and> (\<forall>e \<in> set (th_shared h). she_id e \<le> th_last_id h)"

lemma history_new: "history_ok transfer_new"
  by (simp add: history_ok_def transfer_new_def)

lemma sorted_wrt_tl: "sorted_wrt P xs \<Longrightarrow> sorted_wrt P (tl xs)"
  by (cases xs) auto

lemma history_offered:
  assumes "history_ok h" "th_last_id h < 2 ^ 64 - 1"
  shows "history_ok (offered_copy now m h)"
proof -
  let ?e = "\<lparr>she_id = th_last_id h + 1, she_time = now, she_names = shc_names (shared_copy_of m),
    she_files = shc_files (shared_copy_of m), she_bytes = shc_bytes (shared_copy_of m)\<rparr>"
  have n: "u64 (th_last_id h + 1) = th_last_id h + 1" using assms(2) by (simp add: u64_def)
  have all: "sorted_wrt (\<lambda>a b. she_id a < she_id b) (th_shared h @ [?e])" "\<forall>e \<in> set (th_shared h @ [?e]). she_id e \<le> th_last_id h + 1"
    using assms(1) by (auto simp: history_ok_def sorted_wrt_append less_Suc_eq_le)
  then have "sorted_wrt (\<lambda>a b. she_id a < she_id b) (tl (th_shared h @ [?e]))" "\<forall>e \<in> set (tl (th_shared h @ [?e])). she_id e \<le> th_last_id h + 1"
    using sorted_wrt_tl by (blast, meson list.set_sel(2) append_is_Nil_conv not_Cons_self2)
  then show ?thesis using assms(1) all n by (simp add: offered_copy_def Let_def history_ok_def)
qed

lemma history_forget: "history_ok h \<Longrightarrow> history_ok (forget_shared which h)"
  by (auto simp: history_ok_def forget_shared_def sorted_wrt_filter split: option.split intro: le_trans [OF length_filter_le])

text \<open>Forgetting one copy forgets just that one.\<close>

lemma forget_one: "e \<in> set (shared_files (forget_shared (Some i) h)) \<longleftrightarrow> e \<in> set (shared_files h) \<and> she_id e \<noteq> i"
  by (auto simp: shared_files_def forget_shared_def)

text \<open>
  A pull that reports alone ends under its own number; when another one reported since, it ends under
  that one's.
\<close>

lemma end_under_last_number:
  assumes "rp_event r = PeProgress p" "rp_event r' \<in> {PeDone, PeCancelled, PeFailed e}"
  shows "tp_seq (last (th_live (snd (sink_report r' (sink_report r s))))) = pr_seq p"
  using assms by (auto simp: sink_report_def from_report_def Let_def)

text \<open>A pull sees every flip after it started, short of a count that went all the way around.\<close>

lemma cancel_seen: "is_cancelled (Some (th_cancel h)) (th_cancel (cancel_all h)) \<longleftrightarrow> cancel_flip (th_cancel h) \<noteq> th_cancel h"
  by (simp add: is_cancelled_def cancel_all_def)

lemma cancel_flip_changes: "g < 2 ^ 64 \<Longrightarrow> cancel_flip g \<noteq> g"
  by (cases "g = 2 ^ 64 - 1") (simp_all add: cancel_flip_def u64_def)

section \<open>Notes\<close>

lemma split_on_lines: "\<forall>l \<in> set ls. c \<notin> set l \<Longrightarrow> split_on c (concat (map (\<lambda>l. l @ [c]) ls)) = ls @ [[]]"
proof (induction ls)
  case (Cons l ls)
  have "c \<notin> set l \<Longrightarrow> split_on c (l @ c # x) = l # split_on c x" for x by (induction l) auto
  then show ?case using Cons by simp
qed simp

lemma str_lines_of:
  assumes "\<forall>l \<in> set ls. CHR 0x0A \<notin> set l \<and> CHR 0x0D \<notin> set l"
  shows "str_lines (concat (map (\<lambda>l. l @ [CHR 0x0A]) ls)) = ls"
proof -
  have "(if l \<noteq> [] \<and> last l = CHR 0x0D then butlast l else l) = l" if "l \<in> set ls" for l
    using assms that last_in_set [of l] by (metis (full_types))
  then have "map (\<lambda>l. if l \<noteq> [] \<and> last l = CHR 0x0D then butlast l else l) ls = ls" by (simp add: map_idI)
  then show ?thesis using split_on_lines [of ls "CHR 0x0A"] assms by (simp add: str_lines_def Let_def)
qed

lemma one_line_plain: "CHR 0x0A \<notin> set (one_line t)" "CHR 0x0D \<notin> set (one_line t)"
  by (auto simp: one_line_def)

lemma note_line_peer: "note_line (''peer '' @ v) n = n\<lparr>no_peer := v\<rparr>"
  using split_once_here [of "CHR '' ''" "''peer''" v] by (simp add: note_line_def)

lemma note_line_time: "t < 2 ^ 64 \<Longrightarrow> note_line (''time '' @ show_nat t) n = n\<lparr>no_time := t\<rparr>"
  using split_once_here [of "CHR '' ''" "''time''" "show_nat t"] parse_show_nat [of t "2 ^ 64 - 1"] by (simp add: note_line_def)

lemma note_line_name: "note_line (''name '' @ v) n = n\<lparr>no_names := no_names n @ [v]\<rparr>"
  using split_once_here [of "CHR '' ''" "''name''" v] by (simp add: note_line_def)

lemma note_names: "fold note_line (map (\<lambda>v. ''name '' @ v) vs) n = n\<lparr>no_names := no_names n @ vs\<rparr>"
  by (induction vs arbitrary: n) (simp_all add: note_line_name [simplified])

lemma note_parse_text:
  assumes "time < 2 ^ 64" "CHR 0x0A \<notin> set (show_nat time)" "CHR 0x0D \<notin> set (show_nat time)"
  shows "note_parse (note_text peer time m) = \<lparr>no_peer = one_line peer, no_time = time, no_names = map one_line (top_names m)\<rparr>"
proof -
  let ?ls = "(''peer '' @ one_line peer) # (''time '' @ show_nat time) # map (\<lambda>v. ''name '' @ v) (map one_line (top_names m))"
  have "note_text peer time m = concat (map (\<lambda>l. l @ [CHR 0x0A]) ?ls)" by (simp add: note_text_def comp_def)
  moreover have "\<forall>l \<in> set ?ls. CHR 0x0A \<notin> set l \<and> CHR 0x0D \<notin> set l"
    using assms(2,3) one_line_plain by auto
  ultimately have "str_lines (note_text peer time m) = ?ls" using str_lines_of [of ?ls] by simp
  then show ?thesis
    using note_line_time [OF assms(1)] note_names [of "map one_line (top_names m)", simplified]
    by (simp add: note_parse_def note_line_peer [simplified] comp_def)
qed

end
