(* ===== verification/Received.thy ===== *)
theory Received
  imports Transfers
begin

text \<open>
  The copies of files this machine received, \<^verbatim>\<open>crates/geserdesk-app/src/received.rs\<close>: one folder for each
  transfer under the two staging roots, listed with their notes and removed from the disk. What a listing
  of a folder gives, when a folder was last changed and what a removal that fails leaves are parameters.
  The two roots are real paths, which no link is part of.
  How many files and bytes a folder holds (\<^verbatim>\<open>size\<close>) is only shown and is left out.
\<close>

section \<open>Listing\<close>

record received =
  rcv_path :: path
  rcv_peer :: string
  rcv_time :: nat
  rcv_names :: "string list"

record received_env =
  rx_ls :: "path \<Rightarrow> string list option"
  rx_modified :: "path \<Rightarrow> nat"
  rx_removes :: "path \<Rightarrow> bool"
  rx_gone :: "path \<Rightarrow> bool" \<comment> \<open>what a removal that failed had removed by then\<close>

definition received_at :: "received_env \<Rightarrow> disk \<Rightarrow> path \<Rightarrow> received" where
  "received_at env d p =
     (let note = read_note d p
      in \<lparr>rcv_path = p,
          rcv_peer = (case note of Some n \<Rightarrow> no_peer n | None \<Rightarrow> []),
          rcv_time = (case note of Some n \<Rightarrow> if no_time n > 0 then no_time n else rx_modified env p | None \<Rightarrow> rx_modified env p),
          rcv_names = (case note of Some n \<Rightarrow> no_names n
                       | None \<Rightarrow> filter (\<lambda>n. n \<noteq> NOTE) (case rx_ls env p of Some ns \<Rightarrow> ns | None \<Rightarrow> []))\<rparr>)"

text \<open>\<^verbatim>\<open>Path::is_dir\<close> for a name in a real folder: a folder, or a link that leads to one.\<close>

definition is_dir :: "disk \<Rightarrow> path \<Rightarrow> bool" where
  "is_dir d p =
     (case d p of Some NDir \<Rightarrow> True | Some (NLink _) \<Rightarrow> stat d p = Some NDir | _ \<Rightarrow> False)"

definition folders_in :: "received_env \<Rightarrow> disk \<Rightarrow> path \<Rightarrow> path list" where
  "folders_in env d dir =
     filter (is_dir d) (map (\<lambda>n. dir @ [n]) (case rx_ls env dir of Some ns \<Rightarrow> ns | None \<Rightarrow> []))"

text \<open>The newest first.\<close>

definition list_in :: "received_env \<Rightarrow> path list \<Rightarrow> disk \<Rightarrow> received list" where
  "list_in env roots d = sort_key (\<lambda>r. - int (rcv_time r)) (map (received_at env d) (concat (map (folders_in env d) roots)))"

section \<open>Removing\<close>

text \<open>\<^verbatim>\<open>fs::remove_dir_all\<close> removes a folder with what is in it, and a link alone.\<close>

definition folder_or_link :: "disk \<Rightarrow> path \<Rightarrow> bool" where
  "folder_or_link d p = (case d p of Some NDir \<Rightarrow> True | Some (NLink _) \<Rightarrow> True | _ \<Rightarrow> False)"

definition remove_dir_all :: "received_env \<Rightarrow> path \<Rightarrow> disk \<Rightarrow> disk \<times> bool" where
  "remove_dir_all env p d =
     (if rx_removes env p \<and> folder_or_link d p then (remove_tree d p, True)
      else (\<lambda>q. if starts_with q p \<and> rx_gone env q then None else d q, False))"

definition directly_under :: "path list \<Rightarrow> path \<Rightarrow> bool" where
  "directly_under roots p \<longleftrightarrow> p \<noteq> [] \<and> butlast p \<in> set roots \<and> last p \<noteq> ''.'' \<and> last p \<noteq> ''..''"

definition remove_in :: "received_env \<Rightarrow> path list \<Rightarrow> path \<Rightarrow> disk \<Rightarrow> disk \<times> bool" where
  "remove_in env roots p d = (if \<not> directly_under roots p then (d, False) else remove_dir_all env p d)"

fun remove_each :: "received_env \<Rightarrow> path list \<Rightarrow> path list \<Rightarrow> disk \<Rightarrow> disk \<times> path list" where
  "remove_each env roots [] d = (d, [])"
| "remove_each env roots (p # ps) d =
     (let (d, ok) = remove_in env roots p d; (d, removed) = remove_each env roots ps d
      in (d, if ok then p # removed else removed))"

text \<open>The copies that could not be removed.\<close>

definition remove_all :: "received_env \<Rightarrow> path list \<Rightarrow> disk \<Rightarrow> disk \<times> path list" where
  "remove_all env roots d =
     (let ps = map rcv_path (list_in env roots d); (d, removed) = remove_each env roots ps d
      in (d, filter (\<lambda>p. p \<notin> set removed) ps))"

definition old_limit :: "nat \<Rightarrow> nat \<Rightarrow> nat" where
  "old_limit days now = now - days * 24 * 60 * 60"

definition clean_in :: "received_env \<Rightarrow> path list \<Rightarrow> nat \<Rightarrow> nat \<Rightarrow> disk \<Rightarrow> disk \<times> nat" where
  "clean_in env roots days now d =
     (if days = 0 then (d, 0)
      else let old = filter (\<lambda>r. rcv_time r < old_limit days now) (list_in env roots d);
               (d, removed) = remove_each env roots (map rcv_path old) d
           in (d, length removed))"

section \<open>What a removal reaches\<close>

lemma remove_in_reaches:
  assumes "remove_in env roots p d = (d', ok)" "d' q \<noteq> d q"
  shows "directly_under roots p \<and> starts_with q p \<and> d' q = None"
  using assms by (auto simp: remove_in_def remove_dir_all_def remove_tree_def split: if_splits)

lemma remove_in_ok:
  assumes "remove_in env roots p d = (d', ok)"
  shows "ok \<longleftrightarrow> directly_under roots p \<and> rx_removes env p \<and> folder_or_link d p"
    and "ok \<Longrightarrow> d' = remove_tree d p"
  using assms by (auto simp: remove_in_def remove_dir_all_def split: if_splits)

lemma remove_each_reaches:
  "remove_each env roots ps d = (d', removed) \<Longrightarrow> d' q \<noteq> d q \<Longrightarrow>
     d' q = None \<and> (\<exists>p \<in> set ps. directly_under roots p \<and> starts_with q p)"
proof (induction ps arbitrary: d removed)
  case (Cons p ps)
  obtain d1 ok where d1: "remove_in env roots p d = (d1, ok)" by fastforce
  obtain removed1 where r: "remove_each env roots ps d1 = (d', removed1)" using Cons.prems(1) d1 by (auto simp: Let_def split: prod.splits)
  show ?case
  proof (cases "d1 q = d q")
    case True
    then show ?thesis using Cons.IH [OF r] Cons.prems(2) by auto
  next
    case False
    then have "directly_under roots p \<and> starts_with q p \<and> d1 q = None" using remove_in_reaches [OF d1] by blast
    moreover have "d' q = None" using Cons.IH [OF r] calculation by (cases "d' q = d1 q") auto
    ultimately show ?thesis by auto
  qed
qed simp

lemma starts_with_same_length: "starts_with q p \<Longrightarrow> length q = length p \<Longrightarrow> q = p"
  by (auto simp: starts_with_def)

text \<open>Folders next to each other do not get in each other's way.\<close>

lemma remove_each_all:
  assumes "remove_each env roots ps d = (d', removed)" "distinct ps"
    and "\<forall>p \<in> set ps. directly_under roots p \<and> rx_removes env p \<and> length p = k \<and> folder_or_link d p"
  shows "removed = ps \<and> (\<forall>p \<in> set ps. \<forall>q. starts_with q p \<longrightarrow> d' q = None)"
  using assms
proof (induction ps arbitrary: d removed)
  case (Cons p ps)
  obtain d1 ok where d1: "remove_in env roots p d = (d1, ok)" by fastforce
  have ok: "ok" using remove_in_ok(1) [OF d1] Cons.prems(3) by simp
  then have d1_eq: "d1 = remove_tree d p" by (rule remove_in_ok(2) [OF d1])
  obtain removed1 where r: "remove_each env roots ps d1 = (d', removed1)" "removed = p # removed1"
    using Cons.prems(1) d1 ok by (auto simp: Let_def split: prod.splits)
  have "folder_or_link d1 p'" if "p' \<in> set ps" for p'
  proof -
    have "\<not> starts_with p' p" using that Cons.prems(2,3) starts_with_same_length [of p' p] by auto
    then show ?thesis using that Cons.prems(3) by (simp add: d1_eq remove_tree_def folder_or_link_def)
  qed
  then have IH: "removed1 = ps \<and> (\<forall>p \<in> set ps. \<forall>q. starts_with q p \<longrightarrow> d' q = None)"
    using Cons.IH [OF r(1)] Cons.prems(2,3) by auto
  have "d' q = None" if "starts_with q p" for q
    using remove_each_reaches [OF r(1), of q] that by (cases "d' q = d1 q") (auto simp: d1_eq remove_tree_def)
  then show ?case using IH r(2) by simp
qed simp

lemma is_dir_removable: "is_dir d p \<Longrightarrow> folder_or_link d p"
  by (auto simp: is_dir_def folder_or_link_def split: option.splits node.splits)

lemma listed:
  assumes "r \<in> set (list_in env roots d)"
  shows "\<exists>root \<in> set roots. \<exists>n. rcv_path r = root @ [n] \<and> n \<in> set (case rx_ls env root of Some ns \<Rightarrow> ns | None \<Rightarrow> []) \<and> folder_or_link d (root @ [n])"
  using assms by (auto simp: list_in_def folders_in_def received_at_def Let_def intro: is_dir_removable)

lemma list_newest_first: "sorted (map (\<lambda>r. - int (rcv_time r)) (list_in env roots d))"
  by (simp add: list_in_def)

text \<open>What a listing of folders is like: names once, and never the two that mean another folder.\<close>

definition listing_ok :: "received_env \<Rightarrow> path list \<Rightarrow> bool" where
  "listing_ok env roots \<longleftrightarrow>
     (\<forall>root \<in> set roots. \<forall>ns. rx_ls env root = Some ns \<longrightarrow> distinct ns \<and> ''.'' \<notin> set ns \<and> ''..'' \<notin> set ns)"

lemma distinct_listed:
  assumes "listing_ok env roots" "distinct roots"
  shows "distinct (map rcv_path (list_in env roots d))"
proof -
  have inj: "inj (\<lambda>n. dir @ [n])" for dir :: path by (simp add: inj_def)
  have one: "distinct (folders_in env d root)" if "root \<in> set roots" for root
    using assms(1) that inj_on_subset [OF inj]
    by (auto simp: folders_in_def listing_ok_def distinct_map split: option.split intro!: distinct_filter)
  have apart: "set (folders_in env d r) \<inter> set (folders_in env d r') = {}" if "r \<noteq> r'" for r r'
    using that by (auto simp: folders_in_def)
  have "distinct (concat (map (folders_in env d) rs))" if "set rs \<subseteq> set roots" "distinct rs" for rs
    using that
  proof (induction rs)
    case (Cons r rs)
    have "set (folders_in env d r) \<inter> set (folders_in env d r') = {}" if "r' \<in> set rs" for r'
      using apart [of r r'] that Cons.prems(2) by auto
    then show ?case using Cons one by fastforce
  qed simp
  then have d: "distinct (concat (map (folders_in env d) roots))" using assms(2) by simp
  let ?l = "map (received_at env d) (concat (map (folders_in env d) roots))"
  have paths: "map rcv_path ?l = concat (map (folders_in env d) roots)"
    by (simp add: received_at_def Let_def comp_def)
  have "distinct (map rcv_path ?l)" using d unfolding paths .
  then have "distinct ?l \<and> inj_on rcv_path (set ?l)" by (rule distinct_map [THEN iffD1])
  then show ?thesis
    unfolding list_in_def by (intro distinct_map [THEN iffD2] conjI) (simp_all only: distinct_sort set_sort)
qed

end
