(* ===== verification/Received_Spec.thy ===== *)
theory Received_Spec
  imports Received Key_Setup_Spec
begin

text \<open>What the front end's lists of copies rest on: notes read back as they were written, and only old copies are removed.\<close>

section \<open>Notes\<close>

lemma one_line_char:
  assumes "is_scalar c"
  shows "one_line (utf8_char c) = utf8_char (if c = 10 \<or> c = 13 then 32 else c)"
proof (cases "c < 128")
  case True
  have "byte c = CHR 0x0A \<longleftrightarrow> c = 10" "byte c = CHR 0x0D \<longleftrightarrow> c = 13"
    using True by (auto simp: byte_def char_of_eq_iff take_bit_eq_mod)
  moreover have "byte 32 = CHR '' ''" by code_simp
  ultimately show ?thesis using True by (simp add: utf8_char_def one_line_def)
next
  case False
  have "byte n \<noteq> CHR 0x0A \<and> byte n \<noteq> CHR 0x0D" if "128 \<le> n" "n < 256" for n
    using that by (auto simp: byte_def char_of_eq_iff take_bit_eq_mod)
  moreover have "c < 1114112" using assms by (auto simp: is_scalar_def)
  ultimately show ?thesis using False by (auto simp: utf8_char_def one_line_def)
qed

lemma one_line_encode:
  "\<forall>c \<in> set cs. is_scalar c \<Longrightarrow> one_line (utf8_encode cs) = utf8_encode (map (\<lambda>c. if c = 10 \<or> c = 13 then 32 else c) cs)"
proof (induction cs)
  case (Cons c cs)
  have "one_line (a @ b) = one_line a @ one_line b" for a b by (simp add: one_line_def)
  then show ?case using Cons one_line_char [of c] by (simp add: utf8_encode_def)
qed (simp add: utf8_encode_def one_line_def)

text \<open>Strings that are the UTF-8 of some characters, as every string of the program is.\<close>

definition encoded :: "string \<Rightarrow> bool" where
  "encoded s \<longleftrightarrow> (\<exists>cs. (\<forall>c \<in> set cs. is_scalar c) \<and> s = utf8_encode cs)"

lemma encoded_append: "encoded a \<Longrightarrow> encoded b \<Longrightarrow> encoded (a @ b)"
  unfolding encoded_def
proof (elim exE conjE)
  fix cs ds assume "\<forall>c \<in> set cs. is_scalar c" "a = utf8_encode cs" "\<forall>c \<in> set ds. is_scalar c" "b = utf8_encode ds"
  then show "\<exists>es. (\<forall>c \<in> set es. is_scalar c) \<and> a @ b = utf8_encode es"
    by (intro exI [of _ "cs @ ds"]) (auto simp: utf8_encode_def)
qed

lemma encoded_ascii: "\<forall>c \<in> set s. ord c < 128 \<Longrightarrow> encoded s"
  unfolding encoded_def
proof (intro exI [of _ "map ord s"] conjI)
  assume a: "\<forall>c \<in> set s. ord c < 128"
  then show "\<forall>c \<in> set (map ord s). is_scalar c" by (auto simp: is_scalar_def)
  show "s = utf8_encode (map ord s)" using a by (induction s) (auto simp: utf8_encode_def utf8_char_def byte_def)
qed

lemma encoded_one_line: "encoded s \<Longrightarrow> encoded (one_line s)"
  unfolding encoded_def
proof (elim exE conjE)
  fix cs assume cs: "\<forall>c \<in> set cs. is_scalar c" "s = utf8_encode cs"
  then show "\<exists>es. (\<forall>c \<in> set es. is_scalar c) \<and> one_line s = utf8_encode es"
    using one_line_encode [OF cs(1)] by (intro exI [of _ "map (\<lambda>c. if c = 10 \<or> c = 13 then 32 else c) cs"]) (auto simp: is_scalar_def)
qed

lemma encoded_valid: "encoded s \<Longrightarrow> utf8_valid s"
  unfolding encoded_def utf8_valid_def using utf8_decode_encode by (metis option.distinct(1))

lemma show_nat_ascii: "c \<in> set (show_nat n) \<Longrightarrow> ord c < 128 \<and> c \<noteq> CHR 0x0A \<and> c \<noteq> CHR 0x0D"
  using show_nat_digits [of c n] by (auto simp: is_digit_def)

lemma note_text_encoded:
  assumes "encoded peer" "\<forall>n \<in> set (top_names m). encoded n"
  shows "encoded (note_text peer time m)"
proof -
  have name: "encoded (concat (map (\<lambda>n. ''name '' @ one_line n @ [CHR 0x0A]) ns))" if "\<forall>n \<in> set ns. encoded n" for ns
    using that
  proof (induction ns)
    case Nil
    then show ?case using encoded_ascii [of "[]"] by simp
  next
    case (Cons n ns)
    have "encoded ''name ''" "encoded [CHR 0x0A]" by (rule encoded_ascii; simp)+
    moreover have "encoded n" using Cons.prems by simp
    ultimately have "encoded (''name '' @ one_line n @ [CHR 0x0A])" by (intro encoded_append encoded_one_line)
    moreover have "encoded (concat (map (\<lambda>n. ''name '' @ one_line n @ [CHR 0x0A]) ns))" using Cons by simp
    ultimately show ?case unfolding list.map concat.simps by (rule encoded_append)
  qed
  have "encoded ''peer ''" "encoded ''time ''" "encoded [CHR 0x0A]" by (rule encoded_ascii; simp)+
  moreover have "encoded (show_nat time)" using show_nat_ascii by (intro encoded_ascii) blast
  ultimately show ?thesis
    unfolding note_text_def using assms name encoded_one_line by (intro encoded_append) blast+
qed

text \<open>
  The note a pull leaves in its folder is read back as it was meant: who the copy came from, when, and
  every name that was selected, each on one line; nothing else of the disk changes. No link leads to the
  folder, and neither a folder nor a link has the note's name.
\<close>

theorem note_reads_back:
  assumes "encoded peer" "\<forall>n \<in> set (top_names m). encoded n" "time < 2 ^ 64" "io (IoWrite (dest @ [NOTE]))"
    and "link_free d dest" "d dest = Some NDir" "d (dest @ [NOTE]) = None \<or> d (dest @ [NOTE]) = Some (NFile old)"
  shows "read_note (write_note io dest peer time m d) dest
      = Some \<lparr>no_peer = one_line peer, no_time = time, no_names = map one_line (top_names m)\<rparr>
    \<and> (\<forall>q. q \<noteq> dest @ [NOTE] \<longrightarrow> write_note io dest peer time m d q = d q)"
proof -
  have "utf8_valid (note_text peer time m)" by (rule encoded_valid [OF note_text_encoded [OF assms(1,2)]])
  moreover have "CHR 0x0A \<notin> set (show_nat time)" "CHR 0x0D \<notin> set (show_nat time)" using show_nat_ascii by blast+
  ultimately show ?thesis
    using note_parse_text [OF assms(3)] write_note_plain [where io = io, OF assms(5-7,4)]
    by (simp add: read_note_def stat_plain)
qed

definition two_lines_copy :: file_manifest where
  "two_lines_copy = \<lparr>fm_entries = [\<lparr>fe_path = ''a'' @ [CHR 0x0A] @ ''b.txt'', fe_size = 3, fe_dir = False\<rparr>,
     \<lparr>fe_path = ''docs'', fe_size = 0, fe_dir = True\<rparr>, \<lparr>fe_path = ''docs/x'', fe_size = 1, fe_dir = False\<rparr>]\<rparr>"

lemma note_reads_back_witness:
  "read_note (write_note (\<lambda>_. True) [''tmp'', ''7''] ''win'' 1700000000 two_lines_copy [[''tmp'', ''7''] \<mapsto> NDir]) [''tmp'', ''7'']
     = Some \<lparr>no_peer = ''win'', no_time = 1700000000, no_names = [''a b.txt'', ''docs'']\<rparr>"
proof -
  have names: "top_names two_lines_copy = [''a'' @ [CHR 0x0A] @ ''b.txt'', ''docs'']" by (simp add: top_names_def two_lines_copy_def)
  have "encoded ''win''" "\<forall>n \<in> set (top_names two_lines_copy). encoded n"
    unfolding names by (auto intro!: encoded_ascii)
  from note_reads_back [OF this, of 1700000000 "\<lambda>_. True" "[''tmp'', ''7'']" "[[''tmp'', ''7''] \<mapsto> NDir]"] names
  show ?thesis by (auto simp: one_line_def link_free_def)
qed

text \<open>
  A copied file that itself has the note's name is overwritten by the note: what is pasted under its name
  is the note's text.
\<close>

lemma note_overwrites_a_file:
  "link_free d dest \<Longrightarrow> d dest = Some NDir \<Longrightarrow> d (dest @ [NOTE]) = Some (NFile content) \<Longrightarrow> io (IoWrite (dest @ [NOTE])) \<Longrightarrow>
     write_note io dest peer time m d (dest @ [NOTE]) = Some (NFile (note_text peer time m))"
  by (simp add: write_note_plain)

section \<open>Removing old copies\<close>

text \<open>
  C25: Cleaning up before a session removes the copies received before the limit and nothing else: whatever
  goes from the disk lies in a folder directly under a staging root, listed as older than the limit (none
  with a limit of 0 days); and where removals work every such folder is gone and counted.
\<close>

theorem only_old_copies_removed:
  assumes "clean_in env roots days now d = (d', n)" "listing_ok env roots" "distinct roots" "\<forall>root \<in> set roots. length root = k"
  shows "(\<forall>q. d' q \<noteq> d q \<longrightarrow> days \<noteq> 0 \<and> d' q = None \<and> (\<exists>r \<in> set (list_in env roots d).
        rcv_time r < old_limit days now \<and> starts_with q (rcv_path r) \<and> butlast (rcv_path r) \<in> set roots))
    \<and> ((\<forall>p. rx_removes env p) \<and> days \<noteq> 0 \<longrightarrow>
        n = length (filter (\<lambda>r. rcv_time r < old_limit days now) (list_in env roots d))
        \<and> (\<forall>r \<in> set (list_in env roots d). rcv_time r < old_limit days now \<longrightarrow> (\<forall>q. starts_with q (rcv_path r) \<longrightarrow> d' q = None)))"
proof (cases "days = 0")
  case True
  then show ?thesis using assms(1) by (simp add: clean_in_def)
next
  case False
  let ?old = "filter (\<lambda>r. rcv_time r < old_limit days now) (list_in env roots d)"
  obtain removed where r: "remove_each env roots (map rcv_path ?old) d = (d', removed)" "n = length removed"
    using assms(1) False by (auto simp: clean_in_def Let_def split: prod.splits)
  have listed_ok: "directly_under roots (rcv_path x) \<and> length (rcv_path x) = Suc k \<and> folder_or_link d (rcv_path x)"
    if "x \<in> set (list_in env roots d)" for x
    using listed [OF that] assms(2,4) by (auto simp: directly_under_def listing_ok_def split: option.splits)
  have reach: "d' q = None \<and> (\<exists>r \<in> set (list_in env roots d). rcv_time r < old_limit days now \<and> starts_with q (rcv_path r)
      \<and> butlast (rcv_path r) \<in> set roots)" if "d' q \<noteq> d q" for q
    using remove_each_reaches [OF r(1) that] by (auto simp: directly_under_def)
  have all: "n = length ?old \<and> (\<forall>r \<in> set (list_in env roots d). rcv_time r < old_limit days now \<longrightarrow> (\<forall>q. starts_with q (rcv_path r) \<longrightarrow> d' q = None))"
    if "\<forall>p. rx_removes env p"
  proof -
    have "distinct (map rcv_path ?old)" using distinct_listed [OF assms(2,3)] by (rule distinct_map_filter)
    moreover have "\<forall>p \<in> set (map rcv_path ?old). directly_under roots p \<and> rx_removes env p \<and> length p = Suc k \<and> folder_or_link d p"
      using listed_ok that by auto
    ultimately have "removed = map rcv_path ?old \<and> (\<forall>p \<in> set (map rcv_path ?old). \<forall>q. starts_with q p \<longrightarrow> d' q = None)"
      by (rule remove_each_all [OF r(1)])
    then show ?thesis using r(2) by auto
  qed
  show ?thesis using reach all False by blast
qed

definition tmp_disk :: disk where
  "tmp_disk = [[''tmp'', ''in'', ''1''] \<mapsto> NDir, [''tmp'', ''in'', ''1'', ''a''] \<mapsto> NFile ''x'', [''tmp'', ''in'', ''2''] \<mapsto> NDir, [''tmp'', ''b''] \<mapsto> NFile ''y'']"

definition tmp_env :: received_env where
  "tmp_env = \<lparr>rx_ls = (\<lambda>p. if p = [''tmp'', ''in''] then Some [''1'', ''2''] else None), rx_modified = (\<lambda>p. if p = [''tmp'', ''in'', ''1''] then 5 else 900000),
     rx_removes = (\<lambda>_. True), rx_gone = (\<lambda>_. False)\<rparr>"

lemma only_old_copies_removed_witness:
  "\<exists>d' n. clean_in tmp_env [[''tmp'', ''in''], [''tmp'', ''out'']] 7 1000000 tmp_disk = (d', n)
     \<and> d' [''tmp'', ''in'', ''1'', ''a''] = None \<and> d' [''tmp'', ''b''] = Some (NFile ''y'')"
proof -
  let ?roots = "[[''tmp'', ''in''], [''tmp'', ''out'']]"
  obtain d' n where c: "clean_in tmp_env ?roots 7 1000000 tmp_disk = (d', n)" by fastforce
  have "listing_ok tmp_env ?roots" "distinct ?roots" "\<forall>root \<in> set ?roots. length root = 2" by (simp_all add: listing_ok_def tmp_env_def)
  note only = only_old_copies_removed [OF c this]
  have l: "list_in tmp_env ?roots tmp_disk =
      [\<lparr>rcv_path = [''tmp'', ''in'', ''2''], rcv_peer = [], rcv_time = 900000, rcv_names = []\<rparr>,
       \<lparr>rcv_path = [''tmp'', ''in'', ''1''], rcv_peer = [], rcv_time = 5, rcv_names = []\<rparr>]"
    by code_simp
  have "d' [''tmp'', ''in'', ''1'', ''a''] = None"
    using only l by (auto simp: old_limit_def starts_with_def tmp_env_def)
  moreover have "d' [''tmp'', ''b''] = tmp_disk [''tmp'', ''b'']"
    using only l by (auto simp: old_limit_def starts_with_def)
  ultimately show ?thesis using c by (simp add: tmp_disk_def)
qed

end
