(* ===== verification/Control.thy ===== *)
theory Control
  imports App_Session Transfers Admin_Run
begin

text \<open>
  The control channel of the daemon: what controllers and the daemon say to each other
  (\<^verbatim>\<open>crates/geserdesk-app/src/control/wire.rs\<close>), the comparison of tokens (\<^verbatim>\<open>control/transport.rs\<close>)
  and what the daemon does with each line (\<^verbatim>\<open>control/service.rs\<close>). The socket is the bytes that come out
  of it; reading JSON is the parameter \<open>cev_parse\<close>. Here a command runs to its end before the next: how the
  commands of several controllers mix is in \<^verbatim>\<open>App_Session\<close>.
\<close>

section \<open>Messages\<close>

definition PROTOCOL :: nat where
  "PROTOCOL = 7"

definition MAX_LINE :: nat where
  "MAX_LINE = 4 * 1024 * 1024"

datatype start_spec = StartClient client_options | StartServer string bool

datatype command =
    CmdHello nat string
  | CmdInfo
  | CmdStart start_spec
  | CmdStop
  | CmdShutdown
  | CmdStatus
  | CmdDesk
  | CmdSaveLayout "(string, point) bmap" "(string, size2 option) bmap"
  | CmdApprove string string
  | CmdDismiss string string
  | CmdRevoke string
  | CmdSetDisabled string bool
  | CmdCurrentPrompt
  | CmdAnswerPrompt bool
  | CmdLogSnapshot
  | CmdClearLog
  | CmdCancelTransfer
  | CmdSharedFiles
  | CmdForgetShared "nat option"
  | CmdSubscribe

record request =
  rq_id :: nat
  rq_cmd :: command

record daemon_info =
  di_protocol :: nat
  di_version :: string
  di_pid :: nat
  di_mode :: "run_kind option"
  di_started_by :: string

datatype reply =
    RDone
  | RInfo daemon_info
  | RStatus app_status
  | RDesk "desk_snapshot option"
  | RSaved bool
  | RPrompt "(string \<times> string) option"
  | RLog "log_line list"
  | RShared "shared_entry list"

datatype control_error =
    CeWrongToken
  | CeHelloFirst
  | CeHelloOnce
  | CeOtherVersion
  | CeUnknownMessage
  | CeNoServer
  | CeStart start_error
  | CeNoConfig
  | CeConfig config_error
  | CeDesk admin_error

datatype control_event =
    EvStatus app_status
  | EvPrompt "(string \<times> string) option"
  | EvLog log_line
  | EvTransfer transfer_progress
  | EvClientRequest string string string
  | EvClosing

datatype to_controller = Response nat "control_error + reply" | PushedEvent control_event

section \<open>The daemon\<close>

text \<open>The desk of a server that runs, or ran, is found under the number of its task.\<close>

record daemon =
  dm_session :: app_session
  dm_desks :: "nat \<Rightarrow> desk_state option"
  dm_transfers :: transfer_hub
  dm_log :: log_buffer
  dm_started_by :: string
  dm_exit_on_stop :: bool
  dm_token :: string
  dm_closing :: bool

text \<open>What is around it while a command runs: the parser, the machine, the files found and whether writing works.\<close>

record 'ip control_env =
  cev_parse :: "string \<Rightarrow> request option"
  cev_version :: string
  cev_pid :: nat
  cev_now :: nat
  cev_config_dir :: "string option"
  cev_identity :: "string \<Rightarrow> string \<Rightarrow> bool"
  cev_monitors :: "rect list option"
  cev_addr :: "'ip addr_lib"
  cev_toml :: "string \<Rightarrow> document option"
  cev_host :: string
  cev_default_path :: string
  cev_file :: "string \<Rightarrow> config_file"
  cev_writes :: bool

definition same_token :: "string \<Rightarrow> string \<Rightarrow> bool" where
  "same_token a b \<longleftrightarrow>
     length a = length b \<and> fold (\<lambda>(x, y) d. or d (xor x y)) (zip (map of_char a) (map of_char b)) (0 :: 8 word) = 0"

definition info :: "'ip control_env \<Rightarrow> daemon \<Rightarrow> daemon \<times> daemon_info" where
  "info env d =
     (case session_mode (dm_session d) of
        (s, mode) \<Rightarrow> (d\<lparr>dm_session := s\<rparr>, \<lparr>di_protocol = PROTOCOL, di_version = cev_version env, di_pid = cev_pid env,
                        di_mode = mode, di_started_by = dm_started_by d\<rparr>))"

definition close :: "daemon \<Rightarrow> daemon" where
  "close d = d\<lparr>dm_closing := True\<rparr>"

section \<open>Starting and stopping\<close>

text \<open>A session that starts offers no copies yet.\<close>

definition new_session_files :: "daemon \<Rightarrow> daemon" where
  "new_session_files d = d\<lparr>dm_transfers := forget_shared None (dm_transfers d)\<rparr>"

definition launch :: "nat \<Rightarrow> run_kind \<Rightarrow> daemon \<Rightarrow> daemon" where
  "launch c k d =
     (let s = start_announce c k (dm_session d);
          t = length (ap_tasks s)
      in new_session_files (d\<lparr>dm_session := start_install c t (start_spawn c k s)\<rparr>))"

definition start_client_options :: "'ip control_env \<Rightarrow> nat \<Rightarrow> client_options \<Rightarrow> daemon \<Rightarrow> daemon \<times> (control_error + unit)" where
  "start_client_options env c opts d =
     (case start_check c RunClient (dm_session d) of
        (s, False) \<Rightarrow> (d\<lparr>dm_session := s\<rparr>, Inl (CeStart AlreadyRunning))
      | (s, True) \<Rightarrow>
          (case client_config (cev_config_dir env) (cev_identity env) (cev_monitors env) opts of
             Inl e \<Rightarrow> (d\<lparr>dm_session := to_phase c CallIdle s\<rparr>, Inl (CeStart e))
           | Inr cg \<Rightarrow> (launch c RunClient (d\<lparr>dm_session := s\<rparr>), Inr ())))"

definition start_server_config :: "nat \<Rightarrow> daemon \<Rightarrow> daemon \<times> (control_error + unit)" where
  "start_server_config c d =
     (case start_check c RunServer (dm_session d) of
        (s, False) \<Rightarrow> (d\<lparr>dm_session := s\<rparr>, Inl (CeStart AlreadyRunning))
      | (s, True) \<Rightarrow> (launch c RunServer (d\<lparr>dm_session := s\<rparr>), Inr ()))"

definition service_start :: "'ip control_env \<Rightarrow> nat \<Rightarrow> start_spec \<Rightarrow> daemon \<Rightarrow> daemon \<times> (control_error + unit)" where
  "service_start env c spec d =
     (case spec of
        StartClient opts \<Rightarrow> start_client_options env c opts d
      | StartServer config capture \<Rightarrow>
          (let path = trim config in
           case ensure_default_config (cev_toml env) (cev_host env) (cev_writes env) (path = cev_default_path env) (cev_file env path) of
             (f, False) \<Rightarrow> (d, Inl CeNoConfig)
           | (f, True) \<Rightarrow>
               (case config_load (cev_addr env) path f of
                  Inl e \<Rightarrow> (d, Inl (CeConfig e))
                | Inr config \<Rightarrow> start_server_config c d)))"

text \<open>The whole of a stop: a server is waited for.\<close>

definition session_stop :: "nat \<Rightarrow> daemon \<Rightarrow> daemon" where
  "session_stop c d =
     (let s = stop_take c (dm_session d)
      in d\<lparr>dm_session := (case ap_phase s c of CallStopping t \<Rightarrow> stop_waited c s | _ \<Rightarrow> s)\<rparr>)"

section \<open>Commands\<close>

definition session_desk :: "daemon \<Rightarrow> (nat \<times> desk_state) option" where
  "session_desk d =
     (case ap_desk (dm_session d) of
        None \<Rightarrow> None
      | Some t \<Rightarrow> (case dm_desks d t of None \<Rightarrow> None | Some ds \<Rightarrow> Some (t, ds)))"

text \<open>An operation on the desk; \<^const>\<open>None\<close> is a panic.\<close>

definition on_desk :: "daemon \<Rightarrow> (desk_state \<Rightarrow> (desk_state \<times> (admin_error + reply)) option)
    \<Rightarrow> (daemon \<times> (control_error + reply)) option" where
  "on_desk d f =
     (case session_desk d of
        None \<Rightarrow> Some (d, Inl CeNoServer)
      | Some (t, ds) \<Rightarrow>
          (case f ds of
             None \<Rightarrow> None
           | Some (ds, r) \<Rightarrow> Some (d\<lparr>dm_desks := (dm_desks d)(t := Some ds)\<rparr>, map_sum CeDesk id r)))"

definition done_with :: "desk_state \<times> (admin_error + unit) \<Rightarrow> (desk_state \<times> (admin_error + reply)) option" where
  "done_with r = Some (fst r, map_sum id (\<lambda>_. RDone) (snd r))"

definition dispatch :: "'ip control_env \<Rightarrow> nat \<Rightarrow> command \<Rightarrow> daemon \<Rightarrow> (daemon \<times> (control_error + reply)) option" where
  "dispatch env c cmd d =
     (case cmd of
        CmdHello p t \<Rightarrow> Some (d, Inl CeHelloOnce)
      | CmdInfo \<Rightarrow> (case info env d of (d, i) \<Rightarrow> Some (d, Inr (RInfo i)))
      | CmdStart spec \<Rightarrow> (case service_start env c spec d of (d, r) \<Rightarrow> Some (d, map_sum id (\<lambda>_. RDone) r))
      | CmdStop \<Rightarrow> (let d = session_stop c d in Some (if dm_exit_on_stop d then close d else d, Inr RDone))
      | CmdShutdown \<Rightarrow> Some (close (session_stop c d), Inr RDone)
      | CmdStatus \<Rightarrow> Some (d, Inr (RStatus (ap_status (dm_session d))))
      | CmdDesk \<Rightarrow>
          (case session_desk d of
             None \<Rightarrow> Some (d, Inr (RDesk None))
           | Some (t, ds) \<Rightarrow>
               (case ds_snapshot ds (cev_now env) of
                  None \<Rightarrow> None
                | Some (ds, sn) \<Rightarrow> Some (d\<lparr>dm_desks := (dm_desks d)(t := Some ds)\<rparr>, Inr (RDesk (Some sn)))))
      | CmdSaveLayout positions sizes \<Rightarrow>
          on_desk d (\<lambda>ds. map_option (\<lambda>(ds, r). (ds, map_sum id RSaved r)) (apply_layout ds (cev_writes env) positions sizes))
      | CmdApprove name fp \<Rightarrow> on_desk d (\<lambda>ds. done_with (ds_approve ds (cev_writes env) name fp))
      | CmdDismiss name fp \<Rightarrow> on_desk d (\<lambda>ds. done_with (ds_dismiss ds name fp))
      | CmdRevoke name \<Rightarrow> on_desk d (\<lambda>ds. done_with (ds_revoke ds (cev_writes env) name))
      | CmdSetDisabled name off \<Rightarrow> on_desk d (\<lambda>ds. done_with (ds_set_disabled ds (cev_writes env) name off))
      | CmdCurrentPrompt \<Rightarrow> Some (d, Inr (RPrompt (ps_shown (ap_prompt (dm_session d)))))
      | CmdAnswerPrompt trust \<Rightarrow> Some (d\<lparr>dm_session := answer_prompt trust (dm_session d)\<rparr>, Inr RDone)
      | CmdLogSnapshot \<Rightarrow> Some (d, Inr (RLog (log_snapshot LTrace (dm_log d))))
      | CmdClearLog \<Rightarrow> Some (d\<lparr>dm_log := log_clear (dm_log d)\<rparr>, Inr RDone)
      | CmdCancelTransfer \<Rightarrow> Some (d\<lparr>dm_transfers := cancel_all (dm_transfers d)\<rparr>, Inr RDone)
      | CmdSharedFiles \<Rightarrow> Some (d, Inr (RShared (shared_files (dm_transfers d))))
      | CmdForgetShared which \<Rightarrow> Some (d\<lparr>dm_transfers := forget_shared which (dm_transfers d)\<rparr>, Inr RDone)
      | CmdSubscribe \<Rightarrow> Some (d, Inr RDone))"

section \<open>A connection\<close>

datatype conn_phase = Greeting | Talking bool | Gone

record connection =
  cn_no :: nat
  cn_phase :: conn_phase
  cn_line :: string \<comment> \<open>what the read that waits has taken\<close>
  cn_subscribed :: bool
  cn_sent :: "to_controller list"

definition conn_new :: "nat \<Rightarrow> connection" where
  "conn_new c = \<lparr>cn_no = c, cn_phase = Greeting, cn_line = [], cn_subscribed = False, cn_sent = []\<rparr>"

definition conn_send :: "to_controller \<Rightarrow> connection \<Rightarrow> connection" where
  "conn_send m cn = cn\<lparr>cn_sent := cn_sent cn @ [m]\<rparr>"

definition conn_gone :: "connection \<Rightarrow> connection" where
  "conn_gone cn = cn\<lparr>cn_phase := Gone\<rparr>"

text \<open>The first line must be a \<open>Hello\<close> with the token.\<close>

definition greet :: "'ip control_env \<Rightarrow> string \<Rightarrow> connection \<times> daemon \<Rightarrow> connection \<times> daemon" where
  "greet env line s =
     (let (cn, d) = s in
      case cev_parse env line of
        None \<Rightarrow> (conn_gone cn, d)
      | Some rq \<Rightarrow>
          (case rq_cmd rq of
             CmdHello protocol token \<Rightarrow>
               if \<not> same_token token (dm_token d) then (conn_gone (conn_send (Response (rq_id rq) (Inl CeWrongToken)) cn), d)
               else (case info env d of
                       (d, i) \<Rightarrow> ((conn_send (Response (rq_id rq) (Inr (RInfo i))) cn)\<lparr>cn_phase := Talking (protocol \<noteq> PROTOCOL)\<rparr>, d))
           | _ \<Rightarrow> (conn_gone (conn_send (Response (rq_id rq) (Inl CeHelloFirst)) cn), d)))"

definition answer_line :: "'ip control_env \<Rightarrow> bool \<Rightarrow> string \<Rightarrow> connection \<times> daemon \<Rightarrow> (connection \<times> daemon) option" where
  "answer_line env limited line s =
     (let (cn, d) = s in
      case cev_parse env line of
        None \<Rightarrow> Some (conn_send (Response 0 (Inl CeUnknownMessage)) cn, d)
      | Some rq \<Rightarrow>
          if limited \<and> rq_cmd rq \<noteq> CmdInfo \<and> rq_cmd rq \<noteq> CmdShutdown
          then Some (conn_send (Response (rq_id rq) (Inl CeOtherVersion)) cn, d)
          else (case dispatch env (cn_no cn) (rq_cmd rq) d of
                  None \<Rightarrow> None
                | Some (d, r) \<Rightarrow>
                    Some ((conn_send (Response (rq_id rq) r) cn)\<lparr>cn_subscribed := (cn_subscribed cn \<or> rq_cmd rq = CmdSubscribe)\<rparr>, d)))"

definition trim_end :: "string \<Rightarrow> string" where
  "trim_end s = utf8_encode (rev (dropWhile is_whitespace (rev (chars s))))"

definition on_line :: "'ip control_env \<Rightarrow> string \<Rightarrow> connection \<times> daemon \<Rightarrow> (connection \<times> daemon) option" where
  "on_line env line s =
     (let (cn, d) = s; cn = cn\<lparr>cn_line := []\<rparr> in
      if \<not> utf8_valid line then Some (conn_gone cn, d)
      else case cn_phase cn of
             Greeting \<Rightarrow> Some (greet env (trim_end line) (cn, d))
           | Talking limited \<Rightarrow> answer_line env limited (trim_end line) (cn, d)
           | Gone \<Rightarrow> Some (cn, d))"

text \<open>Bytes as a read takes them; a line that reaches the limit without an end is an error.\<close>

fun conn_bytes :: "'ip control_env \<Rightarrow> string \<Rightarrow> connection \<times> daemon \<Rightarrow> (connection \<times> daemon) option" where
  "conn_bytes env [] s = Some s"
| "conn_bytes env (b # bs) (cn, d) =
     (if cn_phase cn = Gone then Some (cn, d)
      else let line = cn_line cn @ [b]
           in if b = CHR 0x0A
              then (case on_line env line (cn, d) of None \<Rightarrow> None | Some s \<Rightarrow> conn_bytes env bs s)
              else if length line \<ge> MAX_LINE then Some (conn_gone (cn\<lparr>cn_line := []\<rparr>), d)
              else conn_bytes env bs (cn\<lparr>cn_line := line\<rparr>, d))"

datatype conn_input =
    CiBytes string
  | CiEnd \<comment> \<open>of the stream; a line without an end is a line\<close>
  | CiBroken
  | CiTimeout \<comment> \<open>five seconds without a first line\<close>
  | CiEvent control_event
  | CiClosing

text \<open>
  While a controller talks, a read that waits is given up for an event or for the closing of the daemon,
  and what it had taken of a line goes with it.
\<close>

fun conn_step :: "'ip control_env \<Rightarrow> conn_input \<Rightarrow> connection \<times> daemon \<Rightarrow> (connection \<times> daemon) option" where
  "conn_step env (CiBytes bs) s = conn_bytes env bs s"
| "conn_step env CiEnd (cn, d) =
     (if cn_phase cn = Gone \<or> cn_line cn = [] then Some (conn_gone cn, d)
      else map_option (\<lambda>(cn, d). (conn_gone cn, d)) (on_line env (cn_line cn) (cn, d)))"
| "conn_step env CiBroken (cn, d) = Some (conn_gone cn, d)"
| "conn_step env CiTimeout (cn, d) = Some (if cn_phase cn = Greeting then conn_gone cn else cn, d)"
| "conn_step env (CiEvent ev) (cn, d) =
     (case cn_phase cn of
        Talking _ \<Rightarrow> Some (if cn_subscribed cn then (conn_send (PushedEvent ev) cn)\<lparr>cn_line := []\<rparr> else cn, d)
      | _ \<Rightarrow> Some (cn, d))"
| "conn_step env CiClosing (cn, d) =
     (case cn_phase cn of
        Talking _ \<Rightarrow> Some (if dm_closing d then conn_gone (conn_send (PushedEvent EvClosing) cn) else cn, d)
      | _ \<Rightarrow> Some (cn, d))"

fun conn_run :: "'ip control_env \<Rightarrow> conn_input list \<Rightarrow> connection \<times> daemon \<Rightarrow> (connection \<times> daemon) option" where
  "conn_run env [] s = Some s"
| "conn_run env (i # is) s = (case conn_step env i s of None \<Rightarrow> None | Some s \<Rightarrow> conn_run env is s)"

end
