(* ===== verification/Control_Spec.thy ===== *)
theory Control_Spec
  imports Control App_Spec
begin

text \<open>What the control channel promises: who may do what, whatever bytes come in.\<close>

section \<open>Tokens\<close>

lemma xor_zero_iff: "xor a b = 0 \<longleftrightarrow> a = (b :: 8 word)"
proof
  assume "xor a b = 0"
  moreover have "xor (xor a b) b = a" by (simp add: xor.assoc)
  ultimately show "a = b" by simp
qed simp

lemma xor_fold:
  "fold (\<lambda>(x, y) d. or d (xor x y)) ps (acc :: 8 word) = 0 \<longleftrightarrow> acc = 0 \<and> (\<forall>(x, y) \<in> set ps. x = y)"
  by (induction ps arbitrary: acc) (auto simp: or_eq_0_iff xor_zero_iff)

lemma of_char_inj: "(of_char a :: 8 word) = of_char b \<Longrightarrow> a = b"
proof -
  assume eq: "(of_char a :: 8 word) = of_char b"
  have "unat (of_char c :: 8 word) = of_char c" for c :: char
  proof -
    have "unat (of_nat (of_char c) :: 8 word) = of_char c mod 2 ^ 8" by (simp add: unat_of_nat)
    then show ?thesis by (simp add: of_nat_of_char)
  qed
  then show "a = b" using eq by (metis char_of_char)
qed

text \<open>The comparison looks at every byte, and accepts just the token.\<close>

lemma same_token_eq: "same_token a b \<longleftrightarrow> a = b"
proof
  assume s: "same_token a b"
  then have l: "length a = length b" by (simp add: same_token_def)
  show "a = b"
  proof (rule nth_equalityI [OF l])
    fix i assume i: "i < length a"
    have "(of_char (a ! i), of_char (b ! i)) \<in> set (zip (map of_char a) (map of_char b :: 8 word list))"
      using i l by (auto simp: set_zip intro!: exI [of _ i])
    then have "(of_char (a ! i) :: 8 word) = of_char (b ! i)" using s by (auto simp: same_token_def xor_fold)
    then show "a ! i = b ! i" by (rule of_char_inj)
  qed
next
  assume "a = b"
  then show "same_token a b" by (auto simp: same_token_def xor_fold set_zip)
qed

section \<open>Without the token\<close>

fun input_bytes :: "conn_input \<Rightarrow> string" where
  "input_bytes (CiBytes bs) = bs"
| "input_bytes _ = []"

text \<open>The first line of what came in, or all of it when no line ended.\<close>

fun upto_newline :: "string \<Rightarrow> string" where
  "upto_newline [] = []"
| "upto_newline (b # bs) = (if b = CHR 0x0A then [b] else b # upto_newline bs)"

definition first_line :: "conn_input list \<Rightarrow> string" where
  "first_line is = upto_newline (concat (map input_bytes (takeWhile (\<lambda>i. i \<noteq> CiEnd) is)))"

definition says_hello :: "'ip control_env \<Rightarrow> string \<Rightarrow> string \<Rightarrow> bool" where
  "says_hello env token line \<longleftrightarrow> (\<exists>rq p. cev_parse env (trim_end line) = Some rq \<and> rq_cmd rq = CmdHello p token)"

text \<open>
  A connection before its first line. Whatever a first line leads to holds of the connection from then on,
  when every step keeps it.
\<close>

definition not_yet :: "nat \<Rightarrow> daemon \<Rightarrow> string \<Rightarrow> connection \<times> daemon \<Rightarrow> bool" where
  "not_yet c d pre s \<longleftrightarrow> s = ((conn_new c)\<lparr>cn_line := pre\<rparr>, d) \<and> CHR 0x0A \<notin> set pre"

lemma upto_newline_append: "CHR 0x0A \<notin> set pre \<Longrightarrow> upto_newline (pre @ bs) = pre @ upto_newline bs"
  by (induction pre) auto

lemma upto_newline_none: "CHR 0x0A \<notin> set pre \<Longrightarrow> upto_newline pre = pre"
  by (induction pre) auto

lemma conn_new_line [simp]: "cn_phase ((conn_new c)\<lparr>cn_line := pre\<rparr>) = Greeting" "(conn_new c)\<lparr>cn_line := []\<rparr> = conn_new c"
  by (simp_all add: conn_new_def)

locale first_line_decides =
  fixes env :: "'ip control_env" and c :: nat and d :: daemon and sort_of :: "string \<Rightarrow> bool"
    and ok :: "connection \<times> daemon \<Rightarrow> bool"
  assumes first: "sort_of line \<Longrightarrow> on_line env line ((conn_new c)\<lparr>cn_line := pre\<rparr>, d) = Some s \<Longrightarrow> ok s"
    and gone: "ok (conn_gone ((conn_new c)\<lparr>cn_line := pre\<rparr>), d)"
    and kept: "ok s \<Longrightarrow> conn_step env i s = Some s' \<Longrightarrow> ok s'"
begin

lemma kept_run: "ok s \<Longrightarrow> conn_run env is s = Some s' \<Longrightarrow> ok s'"
  by (induction "is" arbitrary: s) (auto split: option.splits dest: kept)

lemma first_bytes:
  assumes "not_yet c d pre s" "conn_bytes env bs s = Some s'" "sort_of (upto_newline (pre @ bs @ later))"
  shows "ok s' \<or> not_yet c d (pre @ bs) s'"
  using assms
proof (induction bs arbitrary: pre s)
  case Nil
  then show ?case by simp
next
  case (Cons b bs)
  let ?cn = "(conn_new c)\<lparr>cn_line := pre\<rparr>"
  have s: "s = (?cn, d)" "CHR 0x0A \<notin> set pre" using Cons.prems(1) by (simp_all add: not_yet_def)
  show ?case
  proof (cases "b = CHR 0x0A")
    case True
    then obtain s1 where s1: "on_line env (pre @ [b]) (?cn, d) = Some s1" "conn_bytes env bs s1 = Some s'"
      using Cons.prems(2) s by (auto split: option.splits)
    have "upto_newline (pre @ (b # bs) @ later) = pre @ [b]" using True s(2) by (simp add: upto_newline_append)
    then have "ok s1" using first [OF _ s1(1)] Cons.prems(3) by simp
    then show ?thesis using kept [of s1 "CiBytes bs" s'] s1(2) by simp
  next
    case False
    show ?thesis
    proof (cases "length (pre @ [b]) \<ge> MAX_LINE")
      case True
      then have "s' = (conn_gone ((conn_new c)\<lparr>cn_line := []\<rparr>), d)" using Cons.prems(2) s False by (simp add: conn_new_def)
      then show ?thesis using gone [of "[]"] by simp
    next
      case short: False
      then have "conn_bytes env bs ((conn_new c)\<lparr>cn_line := pre @ [b]\<rparr>, d) = Some s'"
        using Cons.prems(2) s False by (simp add: conn_new_def)
      moreover have "not_yet c d (pre @ [b]) ((conn_new c)\<lparr>cn_line := pre @ [b]\<rparr>, d)" using s(2) False by (simp add: not_yet_def)
      ultimately show ?thesis using Cons.IH [of "pre @ [b]"] Cons.prems(3) by simp
    qed
  qed
qed

lemma first_step:
  assumes "not_yet c d pre s" "conn_step env i s = Some s'" "sort_of (upto_newline (pre @ input_bytes i @ later))"
    and "i = CiEnd \<longrightarrow> sort_of pre"
  shows "ok s' \<or> i \<noteq> CiEnd \<and> not_yet c d (pre @ input_bytes i) s'"
proof (cases i)
  case (CiBytes bs)
  then show ?thesis using first_bytes [OF assms(1), of bs s' later] assms(2,3) by simp
next
  case CiEnd
  have s: "s = ((conn_new c)\<lparr>cn_line := pre\<rparr>, d)" using assms(1) by (simp add: not_yet_def)
  show ?thesis
  proof (cases "pre = []")
    case True
    then show ?thesis using assms(2) CiEnd s gone [of pre] by (simp add: conn_new_def)
  next
    case False
    then obtain s1 where l: "on_line env pre s = Some s1" "s' = (conn_gone (fst s1), snd s1)"
      using assms(2) CiEnd s by auto
    have "ok s1" using first [OF _ l(1) [unfolded s]] assms(4) CiEnd by simp
    then show ?thesis using kept [of s1 CiBroken s'] l(2) by (cases s1) simp
  qed
qed (use assms(1,2) gone in \<open>auto simp: not_yet_def\<close>)

lemma first_run:
  assumes "not_yet c d pre s" "conn_run env is s = Some s'"
    and "sort_of (upto_newline (pre @ concat (map input_bytes (takeWhile (\<lambda>i. i \<noteq> CiEnd) is))))"
  shows "ok s' \<or> (\<exists>pre'. not_yet c d pre' s')"
  using assms
proof (induction "is" arbitrary: pre s)
  case Nil
  then show ?case by auto
next
  case (Cons i "is")
  obtain s1 where s1: "conn_step env i s = Some s1" "conn_run env is s1 = Some s'" using Cons.prems(2) by (auto split: option.splits)
  have pre: "CHR 0x0A \<notin> set pre" using Cons.prems(1) by (simp add: not_yet_def)
  show ?case
  proof (cases "i = CiEnd")
    case True
    then have "sort_of pre" using Cons.prems(3) upto_newline_none [OF pre] by simp
    then have "ok s1" using first_step [OF Cons.prems(1) s1(1), of "[]"] True upto_newline_none [OF pre] by simp
    then show ?thesis using kept_run [OF _ s1(2)] by blast
  next
    case False
    then have line: "sort_of (upto_newline (pre @ input_bytes i @ concat (map input_bytes (takeWhile (\<lambda>i. i \<noteq> CiEnd) is))))"
      using Cons.prems(3) by simp
    consider "ok s1" | "not_yet c d (pre @ input_bytes i) s1"
      using first_step [OF Cons.prems(1) s1(1) line] False by blast
    then show ?thesis
    proof cases
      case 1
      then show ?thesis using kept_run [OF _ s1(2)] by blast
    next
      case 2
      then show ?thesis using Cons.IH [OF 2 s1(2)] line by simp
    qed
  qed
qed

lemma from_the_start:
  assumes "conn_run env is (conn_new c, d) = Some s'" "sort_of (first_line is)"
  shows "ok s' \<or> (\<exists>pre. not_yet c d pre s')"
  using first_run [of "[]" "(conn_new c, d)" "is" s'] assms by (simp add: not_yet_def first_line_def)

end

text \<open>A connection that was not let in has changed nothing and was told at most that it is refused.\<close>

definition kept_out :: "daemon \<Rightarrow> connection \<times> daemon \<Rightarrow> bool" where
  "kept_out d0 s \<longleftrightarrow> cn_phase (fst s) = Gone \<and> snd s = d0 \<and> length (cn_sent (fst s)) \<le> 1
     \<and> (\<forall>m \<in> set (cn_sent (fst s)). \<exists>i e. m = Response i (Inl e))"

lemma gone_bytes: "cn_phase (fst s) = Gone \<Longrightarrow> conn_bytes env bs s = Some s"
  by (cases s; cases bs) auto

interpretation no_token: first_line_decides env c d "\<lambda>line. \<not> says_hello env (dm_token d) line" "kept_out d"
  for env :: "'ip control_env" and c d
proof unfold_locales
  show "kept_out d s" if "\<not> says_hello env (dm_token d) line" "on_line env line ((conn_new c)\<lparr>cn_line := pre\<rparr>, d) = Some s" for line pre s
    using that
    by (auto simp: on_line_def greet_def says_hello_def kept_out_def conn_gone_def conn_send_def conn_new_def same_token_eq Let_def
        split: if_splits option.splits command.splits)
  show "kept_out d (conn_gone ((conn_new c)\<lparr>cn_line := pre\<rparr>), d)" for pre
    by (simp add: kept_out_def conn_gone_def conn_new_def)
  show "kept_out d s'" if "kept_out d s" "conn_step env i s = Some s'" for s s' i
    using that by (cases s; cases i) (auto simp: kept_out_def conn_gone_def gone_bytes)
qed

text \<open>
  C30: Whatever bytes come in over a new connection, however they are cut into reads and wherever it ends:
  unless its first line is a Hello with the daemon's own token, nothing of the daemon changes, it is
  never subscribed to anything, and all it is ever sent is at most one refusal.
\<close>

theorem control_needs_token:
  assumes "conn_run env is (conn_new c, d) = Some (cn, d')" "\<not> says_hello env (dm_token d) (first_line is)"
  shows "d' = d \<and> length (cn_sent cn) \<le> 1 \<and> (\<forall>m \<in> set (cn_sent cn). \<exists>i e. m = Response i (Inl e)) \<and> (\<forall>l. cn_phase cn \<noteq> Talking l)"
  using no_token.from_the_start [OF assms] by (auto simp: kept_out_def not_yet_def conn_new_def)

text \<open>A daemon with nothing running, and a line that shuts it down.\<close>

definition idle_daemon :: daemon where
  "idle_daemon =
     \<lparr>dm_session = app_new, dm_desks = (\<lambda>_. None), dm_transfers = transfer_new, dm_log = log_new, dm_started_by = ''cli'',
      dm_exit_on_stop = True, dm_token = ''s3cret'', dm_closing = False\<rparr>"

definition control_here :: "ipv4 control_env" where
  "control_here =
     \<lparr>cev_parse = (\<lambda>l. if l = ''end'' then Some \<lparr>rq_id = 1, rq_cmd = CmdShutdown\<rparr>
                     else if l = ''stop'' then Some \<lparr>rq_id = 2, rq_cmd = CmdStop\<rparr> else None),
      cev_version = ''1'', cev_pid = 7, cev_now = 0, cev_config_dir = None, cev_identity = (\<lambda>_ _. True), cev_monitors = None,
      cev_addr = v4_lib, cev_toml = (\<lambda>_. None), cev_host = ''desk'', cev_default_path = ''server.toml'', cev_file = (\<lambda>_. None),
      cev_writes = True\<rparr>"

definition shut_down_now :: "conn_input list" where
  "shut_down_now = [CiBytes ''en'', CiBytes (''d'' @ [CHR 0x0A] @ ''end'' @ [CHR 0x0A]), CiEnd]"

lemma some_pair: "(case x of None \<Rightarrow> False | Some (a, b) \<Rightarrow> P b) \<Longrightarrow> \<exists>a b. x = Some (a, b) \<and> P b"
  by (auto split: option.splits)

lemma control_needs_token_witness:
  "\<exists>cn. conn_run control_here shut_down_now (conn_new 1, idle_daemon) = Some (cn, idle_daemon) \<and> length (cn_sent cn) \<le> 1"
proof -
  have some: "(case conn_run control_here shut_down_now (conn_new 1, idle_daemon) of None \<Rightarrow> False | Some (_, d) \<Rightarrow> True)" by code_simp
  obtain cn d' where run: "conn_run control_here shut_down_now (conn_new 1, idle_daemon) = Some (cn, d')"
    using some_pair [OF some] by blast
  have "trim_end (first_line shut_down_now) = ''end''" by code_simp
  then have "\<not> says_hello control_here (dm_token idle_daemon) (first_line shut_down_now)" by (simp add: says_hello_def control_here_def)
  from control_needs_token [OF run this] show ?thesis using run by auto
qed

section \<open>With another version\<close>

text \<open>What is left to such a controller: to ask who the daemon is and, with \<open>True\<close>, to shut it down.\<close>

definition look_or_end :: "'ip control_env \<Rightarrow> nat \<Rightarrow> bool \<Rightarrow> daemon \<Rightarrow> daemon \<times> reply" where
  "look_or_end env c ends d =
     (if ends then (close (session_stop c d), RDone) else case info env d of (d, i) \<Rightarrow> (d, RInfo i))"

fun looks_and_ends :: "'ip control_env \<Rightarrow> nat \<Rightarrow> bool list \<Rightarrow> daemon \<Rightarrow> daemon \<times> reply list" where
  "looks_and_ends env c [] d = (d, [])"
| "looks_and_ends env c (e # es) d =
     (case look_or_end env c e d of (d, r) \<Rightarrow> (case looks_and_ends env c es d of (d, rs) \<Rightarrow> (d, r # rs)))"

lemma looks_and_ends_snoc:
  "looks_and_ends env c es d = (d1, rs) \<Longrightarrow> look_or_end env c e d1 = (d2, r) \<Longrightarrow> looks_and_ends env c (es @ [e]) d = (d2, rs @ [r])"
  by (induction es arbitrary: d rs) (auto split: prod.splits)

text \<open>What a controller was told that is no error.\<close>

fun told :: "to_controller list \<Rightarrow> reply list" where
  "told [] = []"
| "told (Response _ (Inr r) # ms) = r # told ms"
| "told (_ # ms) = told ms"

lemma told_snoc: "told (ms @ [m]) = told ms @ (case m of Response _ (Inr r) \<Rightarrow> [r] | _ \<Rightarrow> [])"
  by (induction ms rule: told.induct) (auto split: to_controller.split sum.split)

text \<open>A connection that may only look and end, and what it has done so far.\<close>

definition held_back :: "'ip control_env \<Rightarrow> nat \<Rightarrow> daemon \<Rightarrow> connection \<times> daemon \<Rightarrow> bool" where
  "held_back env c d0 s \<longleftrightarrow> (cn_phase (fst s) = Talking True \<or> cn_phase (fst s) = Gone) \<and> \<not> cn_subscribed (fst s) \<and> cn_no (fst s) = c
     \<and> (\<forall>ev. PushedEvent ev \<in> set (cn_sent (fst s)) \<longrightarrow> ev = EvClosing)
     \<and> (\<exists>es. looks_and_ends env c es d0 = (snd s, told (cn_sent (fst s))))"

lemma held_back_error: "held_back env c d0 (cn, d) \<Longrightarrow> held_back env c d0 (conn_send (Response i (Inl e)) cn, d)"
  by (simp add: held_back_def conn_send_def told_snoc)

lemma held_back_same:
  "held_back env c d0 (cn, d) \<Longrightarrow> held_back env c d0 (cn\<lparr>cn_line := l\<rparr>, d)"
  "held_back env c d0 (cn, d) \<Longrightarrow> held_back env c d0 (conn_gone cn, d)"
  by (simp_all add: held_back_def conn_gone_def)

lemma held_back_answer:
  assumes "held_back env c d0 (cn, d)" "look_or_end env c e d = (d1, r)" "cn_phase cn = Talking True"
  shows "held_back env c d0 (conn_send (Response i (Inr r)) cn, d1)"
proof -
  obtain es where "looks_and_ends env c es d0 = (d, told (cn_sent cn))" using assms(1) by (auto simp: held_back_def)
  from looks_and_ends_snoc [OF this assms(2)]
  have "looks_and_ends env c (es @ [e]) d0 = (d1, told (cn_sent cn @ [Response i (Inr r)]))" by (simp add: told_snoc)
  then show ?thesis using assms(1) unfolding held_back_def conn_send_def by auto
qed

lemma dispatch_look_or_end:
  "look_or_end env c e d = (d1, r) \<Longrightarrow> dispatch env c (if e then CmdShutdown else CmdInfo) d = Some (d1, Inr r)"
  by (auto simp: look_or_end_def dispatch_def split: prod.splits if_splits)

lemma held_back_line:
  assumes "held_back env c d0 s" "on_line env line s = Some s'"
  shows "held_back env c d0 s'"
proof -
  obtain cn d where s: "s = (cn, d)" by fastforce
  have h: "held_back env c d0 (cn\<lparr>cn_line := []\<rparr>, d)" "cn_no cn = c" "cn_phase cn = Talking True \<or> cn_phase cn = Gone" "\<not> cn_subscribed cn"
    using held_back_same(1) assms(1) s by (auto simp: held_back_def)
  show ?thesis
  proof (cases "utf8_valid line \<and> cn_phase cn = Talking True")
    case False
    then show ?thesis using assms(2) s h held_back_same(2) by (auto simp: on_line_def Let_def split: if_splits)
  next
    case True
    let ?cn = "cn\<lparr>cn_line := []\<rparr>"
    have a: "answer_line env True (trim_end line) (?cn, d) = Some s'" using assms(2) s True by (simp add: on_line_def Let_def)
    show ?thesis
    proof (cases "cev_parse env (trim_end line)")
      case None
      then have "s' = (conn_send (Response 0 (Inl CeUnknownMessage)) ?cn, d)"
        using a by (simp add: answer_line_def conn_send_def)
      then show ?thesis using held_back_error [OF h(1)] by simp
    next
      case (Some rq)
      show ?thesis
      proof (cases "rq_cmd rq = CmdInfo \<or> rq_cmd rq = CmdShutdown")
        case False
        then have "s' = (conn_send (Response (rq_id rq) (Inl CeOtherVersion)) ?cn, d)"
          using a Some by (simp add: answer_line_def conn_send_def)
        then show ?thesis using held_back_error [OF h(1)] by simp
      next
        case ok: True
        let ?e = "rq_cmd rq = CmdShutdown"
        obtain d1 r where e: "look_or_end env c ?e d = (d1, r)" by fastforce
        have "dispatch env (cn_no ?cn) (rq_cmd rq) d = Some (d1, Inr r)" using dispatch_look_or_end [OF e] ok h(2) by (auto split: if_splits)
        then have "s' = (conn_send (Response (rq_id rq) (Inr r)) ?cn, d1)"
          using a Some ok h(4) by (auto simp: answer_line_def conn_send_def)
        then show ?thesis using held_back_answer [OF h(1) e] True by simp
      qed
    qed
  qed
qed

lemma held_back_bytes: "held_back env c d0 s \<Longrightarrow> conn_bytes env bs s = Some s' \<Longrightarrow> held_back env c d0 s'"
proof (induction bs arbitrary: s)
  case (Cons b bs)
  obtain cn d where s: "s = (cn, d)" by fastforce
  show ?case
  proof (cases "cn_phase cn = Gone \<or> (b \<noteq> CHR 0x0A \<and> length (cn_line cn @ [b]) \<ge> MAX_LINE)")
    case True
    then show ?thesis
      using Cons.prems s by (auto simp: held_back_def conn_gone_def split: if_splits)
  next
    case False
    show ?thesis
    proof (cases "b = CHR 0x0A")
      case other: False
      have "held_back env c d0 (cn\<lparr>cn_line := cn_line cn @ [b]\<rparr>, d)" using held_back_same(1) Cons.prems(1) s by simp
      moreover have "conn_bytes env bs (cn\<lparr>cn_line := cn_line cn @ [b]\<rparr>, d) = Some s'" using Cons.prems(2) s False other by simp
      ultimately show ?thesis by (rule Cons.IH)
    next
      case True
      then obtain s1 where "on_line env (cn_line cn @ [b]) (cn, d) = Some s1" "conn_bytes env bs s1 = Some s'"
        using Cons.prems(2) s False by (auto split: option.splits)
      then show ?thesis using Cons.IH held_back_line Cons.prems(1) s by blast
    qed
  qed
qed simp

lemma held_back_step:
  assumes "held_back env c d0 s" "conn_step env i s = Some s'"
  shows "held_back env c d0 s'"
proof -
  obtain cn d where s: "s = (cn, d)" by fastforce
  show ?thesis
  proof (cases i)
    case (CiBytes bs)
    then show ?thesis using held_back_bytes [OF assms(1)] assms(2) by simp
  next
    case CiEnd
    show ?thesis
    proof (cases "cn_phase cn = Gone \<or> cn_line cn = []")
      case True
      then show ?thesis using assms CiEnd s held_back_same(2) by auto
    next
      case False
      then obtain s1 where s1: "on_line env (cn_line cn) s = Some s1" "s' = (conn_gone (fst s1), snd s1)" using assms(2) CiEnd s by auto
      then show ?thesis using held_back_line [OF assms(1) s1(1)] held_back_same(2) [of env c d0 "fst s1" "snd s1"] by simp
    qed
  next
    case CiClosing
    have "held_back env c d0 (conn_gone (conn_send (PushedEvent EvClosing) cn), d)"
      using assms(1) s by (auto simp: held_back_def conn_gone_def conn_send_def told_snoc)
    then show ?thesis using assms CiClosing s by (auto split: conn_phase.splits if_splits)
  qed (use assms s in \<open>auto simp: held_back_def conn_gone_def split: conn_phase.splits if_splits\<close>)
qed

text \<open>The first line is a \<open>Hello\<close> with the token and this version.\<close>

definition same_version :: "'ip control_env \<Rightarrow> string \<Rightarrow> string \<Rightarrow> bool" where
  "same_version env token line \<longleftrightarrow> (\<exists>rq. cev_parse env (trim_end line) = Some rq \<and> rq_cmd rq = CmdHello PROTOCOL token)"

interpretation other_version: first_line_decides env c d "\<lambda>line. \<not> same_version env (dm_token d) line" "held_back env c d"
  for env :: "'ip control_env" and c d
proof unfold_locales
  show "held_back env c d s" if "\<not> same_version env (dm_token d) line" "on_line env line ((conn_new c)\<lparr>cn_line := pre\<rparr>, d) = Some s" for line pre s
  proof (cases "says_hello env (dm_token d) line \<and> utf8_valid line")
    case True
    then obtain rq p where rq: "cev_parse env (trim_end line) = Some rq" "rq_cmd rq = CmdHello p (dm_token d)" "utf8_valid line"
      by (auto simp: says_hello_def)
    then have p: "p \<noteq> PROTOCOL" using that(1) by (auto simp: same_version_def)
    obtain d1 r where e: "look_or_end env c False d = (d1, r)" by fastforce
    then have i: "\<exists>i. info env d = (d1, i) \<and> r = RInfo i" by (auto simp: look_or_end_def split: prod.splits)
    have "held_back env c d ((conn_new c)\<lparr>cn_phase := Talking True\<rparr>, d)"
      using looks_and_ends.simps(1) [of env c d] unfolding held_back_def conn_new_def by (auto intro!: exI [of _ "[]"])
    from held_back_answer [OF this e, of "rq_id rq"] show ?thesis
      using that(2) rq p i by (auto simp: on_line_def greet_def same_token_eq conn_new_def conn_send_def Let_def)
  next
    case False
    then have "kept_out d s \<and> \<not> cn_subscribed (fst s) \<and> cn_no (fst s) = c"
      using that(2)
      by (auto simp: on_line_def greet_def says_hello_def kept_out_def conn_gone_def conn_send_def conn_new_def same_token_eq Let_def
          split: if_splits option.splits command.splits)
    then show ?thesis
      by (cases "cn_sent (fst s)") (auto simp: kept_out_def held_back_def intro!: exI [of _ "[]"])
  qed
  show "held_back env c d (conn_gone ((conn_new c)\<lparr>cn_line := pre\<rparr>), d)" for pre
    by (auto simp: held_back_def conn_gone_def conn_new_def intro!: exI [of _ "[]"])
  show "held_back env c d s'" if "held_back env c d s" "conn_step env i s = Some s'" for s s' i
    by (rule held_back_step [OF that])
qed

text \<open>
  C32: A connection that does not open with the daemon's token and the daemon's own version of the
  protocol can at most ask who the daemon is and shut it down. Whatever bytes come in after, the daemon is
  changed by such looks and shutdowns alone; the answers to just these, in order, are all it is told
  beside errors and the notice that the daemon closes; and it is never subscribed.
\<close>

theorem other_version_only_ends:
  assumes "conn_run env is (conn_new c, d) = Some (cn, d')" "\<not> same_version env (dm_token d) (first_line is)"
  shows "(\<exists>es. looks_and_ends env c es d = (d', told (cn_sent cn))) \<and> \<not> cn_subscribed cn
    \<and> (\<forall>ev. PushedEvent ev \<in> set (cn_sent cn) \<longrightarrow> ev = EvClosing)"
  using other_version.from_the_start [OF assms]
proof
  assume "\<exists>pre. not_yet c d pre (cn, d')"
  then show ?thesis by (auto simp: not_yet_def conn_new_def intro: exI [of _ "[]"])
qed (auto simp: held_back_def)

definition control_old :: "ipv4 control_env" where
  "control_old = control_here\<lparr>cev_parse := (\<lambda>l. if l = ''hi'' then Some \<lparr>rq_id = 3, rq_cmd = CmdHello 6 ''s3cret''\<rparr> else cev_parse control_here l)\<rparr>"

definition hello_and_end :: "conn_input list" where
  "hello_and_end = [CiBytes (''hi'' @ [CHR 0x0A]), CiBytes (''stop'' @ [CHR 0x0A] @ ''end'' @ [CHR 0x0A]), CiEvent (EvStatus SStopped)]"

lemma other_version_only_ends_witness:
  "\<exists>cn d'. conn_run control_old hello_and_end (conn_new 1, idle_daemon) = Some (cn, d') \<and> dm_closing d'
     \<and> (\<exists>es. looks_and_ends control_old 1 es idle_daemon = (d', told (cn_sent cn)))"
proof -
  have t: "trim_end (''hi'' @ [CHR 0x0A]) = ''hi''" "trim_end (''stop'' @ [CHR 0x0A]) = ''stop''" "trim_end (''end'' @ [CHR 0x0A]) = ''end''"
    "utf8_valid (''hi'' @ [CHR 0x0A])" "utf8_valid (''stop'' @ [CHR 0x0A])" "utf8_valid (''end'' @ [CHR 0x0A])" by code_simp+
  have some: "(case conn_run control_old hello_and_end (conn_new 1, idle_daemon) of None \<Rightarrow> False | Some (_, d) \<Rightarrow> dm_closing d)"
    using t by (simp add: hello_and_end_def control_old_def conn_new_def MAX_LINE_def on_line_def answer_line_def control_here_def dispatch_def
        greet_def same_token_eq info_def session_mode_def is_running_def PROTOCOL_def
        conn_send_def conn_gone_def session_stop_def stop_take_def idle_daemon_def app_new_def close_def answer_prompt_def Let_def)
  obtain cn d' where run: "conn_run control_old hello_and_end (conn_new 1, idle_daemon) = Some (cn, d')" "dm_closing d'"
    using some_pair [OF some] by blast
  have "trim_end (first_line hello_and_end) = ''hi''" using t by (simp add: first_line_def hello_and_end_def)
  then have "\<not> same_version control_old (dm_token idle_daemon) (first_line hello_and_end)"
    by (simp add: same_version_def control_old_def PROTOCOL_def)
  from other_version_only_ends [OF run(1) this] show ?thesis using run by blast
qed

section \<open>Lines and reads\<close>

text \<open>How the bytes are cut into reads makes no difference.\<close>

lemma conn_bytes_append:
  "conn_bytes env (xs @ ys) s = (case conn_bytes env xs s of None \<Rightarrow> None | Some s' \<Rightarrow> conn_bytes env ys s')"
proof (induction xs arbitrary: s)
  case (Cons x xs)
  obtain cn d where s: "s = (cn, d)" by fastforce
  show ?case
  proof (cases "cn_phase cn = Gone \<or> (x \<noteq> CHR 0x0A \<and> length (cn_line cn @ [x]) \<ge> MAX_LINE)")
    case True
    then show ?thesis using s by (auto simp: gone_bytes conn_gone_def)
  next
    case False
    then show ?thesis using s Cons by (cases "x = CHR 0x0A") (auto simp: Let_def split: option.splits)
  qed
qed simp

text \<open>A line whose first part was taken when an event came is lost up to there.\<close>

lemma event_loses_part_of_a_line:
  assumes "cn_phase cn = Talking l" "cn_subscribed cn" "CHR 0x0A \<notin> set xs" "length (cn_line cn) + length xs < MAX_LINE"
  shows "conn_run env [CiBytes xs, CiEvent ev] (cn, d) = Some ((conn_send (PushedEvent ev) cn)\<lparr>cn_line := []\<rparr>, d)"
proof -
  have "conn_bytes env xs (cn, d) = Some (cn\<lparr>cn_line := cn_line cn @ xs\<rparr>, d)"
    using assms by (induction xs arbitrary: cn) auto
  then show ?thesis using assms(1,2) by (simp add: conn_send_def)
qed

section \<open>Stop, and start again\<close>

text \<open>After a stop by a controller, its next start of a client with usable options succeeds.\<close>

lemma stop_then_start:
  assumes "ap_phase (dm_session d) c = CallIdle"
    and "client_config (cev_config_dir env) (cev_identity env) (cev_monitors env) opts = Inr cg"
  shows "snd (start_client_options env c opts (session_stop c d)) = Inr ()"
proof -
  have "ap_running (dm_session (session_stop c d)) = None"
    by (auto simp: session_stop_def stop_take_def Let_def split: option.split run_kind.split call_phase.split)
  then show ?thesis
    using assms(2) by (simp add: start_client_options_def start_check_def is_running_def)
qed

end
