(* ===== verification/Control_Remote.thy ===== *)
theory Control_Remote
  imports Control
begin

text \<open>
  A controller's side of the channel (\<^verbatim>\<open>crates/geserdesk-app/src/control/remote.rs\<close>), with the requests of
  its clones, the task that reads answers and the end of the connection as steps that may come in any
  order; and the loop in which the daemon decides to end (\<^verbatim>\<open>crates/geserdesk-app/src/daemon.rs\<close>).
\<close>

section \<open>Attaching\<close>

datatype attach_error = NotRunning | Refused | AttachIo

text \<open>What answers the \<open>Hello\<close>: nothing in five seconds, an end or an error of the stream, or a line.\<close>

datatype first_answer = FaTimeout | FaIo | FaEnd | FaLine "to_controller option"

definition attach :: "first_answer \<Rightarrow> attach_error + daemon_info" where
  "attach a =
     (case a of
        FaTimeout \<Rightarrow> Inl Refused
      | FaIo \<Rightarrow> Inl AttachIo
      | FaEnd \<Rightarrow> Inl Refused
      | FaLine m \<Rightarrow> (case m of Some (Response i (Inr (RInfo di))) \<Rightarrow> Inr di | _ \<Rightarrow> Inl Refused))"

definition compatible :: "daemon_info \<Rightarrow> bool" where
  "compatible i \<longleftrightarrow> di_protocol i = PROTOCOL"

section \<open>Requests\<close>

datatype remote_answer = Answer "control_error + reply" | Cut | NoAnswer

text \<open>
  \<open>rm_waiting\<close> is the table of requests that wait, \<open>rm_unsent\<close> those registered and not sent yet,
  \<open>rm_got\<close> what was put into their channels and \<open>rm_returned\<close> what they returned.
\<close>

record remote =
  rm_next :: nat
  rm_waiting :: "nat list"
  rm_unsent :: "(nat \<times> command) list"
  rm_out :: "request list"
  rm_got :: "(nat \<times> remote_answer) list"
  rm_returned :: "(nat \<times> remote_answer) list"
  rm_events :: "control_event list"
  rm_closed :: bool
  rm_drained :: bool

definition remote_new :: remote where
  "remote_new =
     \<lparr>rm_next = 1, rm_waiting = [], rm_unsent = [], rm_out = [], rm_got = [], rm_returned = [], rm_events = [],
      rm_closed = False, rm_drained = False\<rparr>"

definition request_register :: "command \<Rightarrow> remote \<Rightarrow> remote" where
  "request_register cmd r =
     r\<lparr>rm_next := rm_next r + 1, rm_waiting := rm_next r # rm_waiting r, rm_unsent := (rm_next r, cmd) # rm_unsent r\<rparr>"

text \<open>Looked at after registering; \<open>taken\<close> is that the writing task still takes messages.\<close>

definition request_send :: "nat \<Rightarrow> command \<Rightarrow> bool \<Rightarrow> remote \<Rightarrow> remote" where
  "request_send i cmd taken r =
     (let r = r\<lparr>rm_unsent := filter (\<lambda>(j, _). j \<noteq> i) (rm_unsent r)\<rparr>
      in if rm_closed r \<or> \<not> taken
         then r\<lparr>rm_waiting := removeAll i (rm_waiting r), rm_returned := (i, Cut) # rm_returned r\<rparr>
         else r\<lparr>rm_out := rm_out r @ [\<lparr>rq_id = i, rq_cmd = cmd\<rparr>]\<rparr>)"

definition reader_line :: "to_controller option \<Rightarrow> remote \<Rightarrow> remote" where
  "reader_line m r =
     (case m of
        Some (Response i res) \<Rightarrow>
          if i \<in> set (rm_waiting r)
          then r\<lparr>rm_waiting := removeAll i (rm_waiting r), rm_got := (i, Answer res) # rm_got r\<rparr> else r
      | Some (PushedEvent ev) \<Rightarrow> r\<lparr>rm_events := rm_events r @ [ev]\<rparr>
      | None \<Rightarrow> r)"

definition reader_drain :: "remote \<Rightarrow> remote" where
  "reader_drain r =
     r\<lparr>rm_got := map (\<lambda>i. (i, Cut)) (rm_waiting r) @ rm_got r, rm_waiting := [], rm_drained := True, rm_events := rm_events r @ [EvClosing]\<rparr>"

definition once :: "(nat \<times> 'a) list \<Rightarrow> bool" where
  "once xs \<longleftrightarrow> distinct (map fst xs)"

definition ids :: "(nat \<times> 'a) list \<Rightarrow> nat set" where
  "ids xs = fst ` set xs"

text \<open>A request that was sent and has not returned.\<close>

definition awaiting :: "remote \<Rightarrow> nat \<Rightarrow> bool" where
  "awaiting r i \<longleftrightarrow> 0 < i \<and> i < rm_next r \<and> i \<notin> ids (rm_unsent r) \<and> i \<notin> ids (rm_returned r)"

datatype remote_event =
    RmAsk command
  | RmSend nat bool
  | RmRead "to_controller option"
  | RmClose
  | RmDrain
  | RmTake nat
  | RmGiveUp nat \<comment> \<open>twenty seconds without an answer\<close>

fun remote_step :: "remote_event \<Rightarrow> remote \<Rightarrow> remote option" where
  "remote_step (RmAsk cmd) r = Some (request_register cmd r)"
| "remote_step (RmSend i taken) r =
     (case map_of (rm_unsent r) i of None \<Rightarrow> None | Some cmd \<Rightarrow> Some (request_send i cmd taken r))"
| "remote_step (RmRead m) r = (if rm_closed r then None else Some (reader_line m r))"
| "remote_step RmClose r = (if rm_closed r then None else Some (r\<lparr>rm_closed := True\<rparr>))"
| "remote_step RmDrain r = (if rm_closed r \<and> \<not> rm_drained r then Some (reader_drain r) else None)"
| "remote_step (RmTake i) r =
     (if awaiting r i then map_option (\<lambda>a. r\<lparr>rm_returned := (i, a) # rm_returned r\<rparr>) (map_of (rm_got r) i) else None)"
| "remote_step (RmGiveUp i) r =
     (if awaiting r i \<and> map_of (rm_got r) i = None
      then Some (r\<lparr>rm_waiting := removeAll i (rm_waiting r), rm_returned := (i, NoAnswer) # rm_returned r\<rparr>) else None)"

fun remote_run :: "remote \<Rightarrow> remote_event list \<Rightarrow> remote option" where
  "remote_run r [] = Some r"
| "remote_run r (e # es) = (case remote_step e r of None \<Rightarrow> None | Some r \<Rightarrow> remote_run r es)"

text \<open>What a command that expects nothing but its end makes of the answer.\<close>

definition expect_done :: "remote_answer \<Rightarrow> bool" where
  "expect_done a = (a = Answer (Inr RDone))"

section \<open>The loop of the daemon\<close>

text \<open>How long a session that is over stays visible, in milliseconds.\<close>

definition LINGER :: nat where
  "LINGER = 1000"

datatype daemon_event = DeTerminate | DeClosed | DeTick nat

record daemon_loop =
  dl_daemon :: daemon
  dl_ended_at :: "nat option"
  dl_over :: bool

definition daemon_tick :: "nat option \<Rightarrow> nat \<Rightarrow> nat \<Rightarrow> daemon_loop \<Rightarrow> daemon_loop" where
  "daemon_tick idle_timeout started now dl =
     (case is_running (dm_session (dl_daemon dl)) of
        (s, running) \<Rightarrow>
          (let dl = dl\<lparr>dl_daemon := (dl_daemon dl)\<lparr>dm_session := s\<rparr>\<rparr> in
           if running then dl\<lparr>dl_ended_at := None\<rparr>
           else if ap_started s > 0
           then if dm_exit_on_stop (dl_daemon dl)
                then (let since = (case dl_ended_at dl of Some t \<Rightarrow> t | None \<Rightarrow> now); dl = dl\<lparr>dl_ended_at := Some since\<rparr>
                      in if now - since \<ge> LINGER then dl\<lparr>dl_daemon := close (dl_daemon dl), dl_over := True\<rparr> else dl)
                else dl
           else if (case idle_timeout of Some t \<Rightarrow> now - started \<ge> t | None \<Rightarrow> False)
           then dl\<lparr>dl_daemon := close (dl_daemon dl), dl_over := True\<rparr> else dl))"

definition daemon_step :: "nat option \<Rightarrow> nat \<Rightarrow> nat \<Rightarrow> daemon_event \<Rightarrow> daemon_loop \<Rightarrow> daemon_loop" where
  "daemon_step idle_timeout started c e dl =
     (if dl_over dl then dl
      else case e of
        DeTerminate \<Rightarrow> dl\<lparr>dl_daemon := close (session_stop c (dl_daemon dl)), dl_over := True\<rparr>
      | DeClosed \<Rightarrow> if dm_closing (dl_daemon dl) then dl\<lparr>dl_over := True\<rparr> else dl
      | DeTick now \<Rightarrow> daemon_tick idle_timeout started now dl)"

text \<open>Whether the daemon ends in failure.\<close>

definition daemon_failed :: "daemon \<Rightarrow> bool" where
  "daemon_failed d = (case ap_status (dm_session d) of SError _ \<Rightarrow> True | SFatal _ \<Rightarrow> True | _ \<Rightarrow> False)"

section \<open>Requests are settled\<close>

definition remote_ok :: "remote_event list \<Rightarrow> remote \<Rightarrow> bool" where
  "remote_ok es r \<longleftrightarrow>
     0 < rm_next r
     \<and> (\<forall>i \<in> set (rm_waiting r). i < rm_next r)
     \<and> (\<forall>i \<in> ids (rm_unsent r). i < rm_next r \<and> i \<notin> ids (rm_returned r))
     \<and> (\<forall>i. 0 < i \<and> i < rm_next r \<and> i \<notin> ids (rm_returned r) \<longrightarrow> i \<in> set (rm_waiting r) \<or> i \<in> ids (rm_got r))
     \<and> (rm_drained r \<longrightarrow> rm_closed r \<and> set (rm_waiting r) \<subseteq> ids (rm_unsent r))
     \<and> once (rm_returned r) \<and> (\<forall>i \<in> ids (rm_returned r). i < rm_next r)
     \<and> (\<forall>i res. (i, Answer res) \<in> set (rm_got r) \<or> (i, Answer res) \<in> set (rm_returned r) \<longrightarrow> RmRead (Some (Response i res)) \<in> set es)"

lemma ids_simps [simp]:
  "ids [] = {}" "ids (x # xs) = insert (fst x) (ids xs)" "ids (xs @ ys) = ids xs \<union> ids ys"
  "ids (map (\<lambda>i. (i, a)) is) = set is" "ids (filter (\<lambda>(j, _). j \<noteq> i) xs) = ids xs - {i}"
  by (force simp: ids_def)+

lemma once_simps [simp]: "once []" "once (x # xs) \<longleftrightarrow> fst x \<notin> ids xs \<and> once xs"
  by (auto simp: once_def ids_def)

lemma map_of_ids: "map_of xs i \<noteq> None \<longleftrightarrow> i \<in> ids xs" "map_of xs i = Some a \<Longrightarrow> i \<in> ids xs"
  by (auto simp: ids_def map_of_eq_None_iff dest: map_of_SomeD intro: rev_image_eqI)

lemma remote_ok_new: "remote_ok [] remote_new"
  by (auto simp: remote_ok_def remote_new_def)

lemma remote_ok_more: "remote_ok es r \<Longrightarrow> remote_ok (es @ es') r"
  unfolding remote_ok_def by (auto simp: Un_def)

lemma remote_ok_ask:
  assumes "remote_ok es r"
  shows "remote_ok es (request_register cmd r)"
proof -
  have "rm_next r \<notin> ids (rm_returned r)" using assms unfolding remote_ok_def by blast
  then show ?thesis
    using assms unfolding remote_ok_def request_register_def by (auto simp: less_Suc_eq)
qed


lemma remote_ok_send:
  assumes "remote_ok es r" "i \<in> ids (rm_unsent r)"
  shows "remote_ok es (request_send i cmd taken r)"
proof (cases "rm_closed r \<or> \<not> taken")
  case True
  then have s: "request_send i cmd taken r = r\<lparr>rm_unsent := filter (\<lambda>(j, _). j \<noteq> i) (rm_unsent r),
      rm_waiting := removeAll i (rm_waiting r), rm_returned := (i, Cut) # rm_returned r\<rparr>"
    by (simp add: request_send_def)
  have "i < rm_next r" "i \<notin> ids (rm_returned r)" using assms by (auto simp: remote_ok_def)
  then show ?thesis
    using assms(1) unfolding remote_ok_def s by auto
next
  case False
  then have s: "request_send i cmd taken r = r\<lparr>rm_unsent := filter (\<lambda>(j, _). j \<noteq> i) (rm_unsent r),
      rm_out := rm_out r @ [\<lparr>rq_id = i, rq_cmd = cmd\<rparr>]\<rparr>"
    by (simp add: request_send_def Let_def)
  show ?thesis using assms(1) False unfolding remote_ok_def s by auto
qed

lemma remote_ok_return:
  assumes "remote_ok es r" "awaiting r i" "\<And>res. a = Answer res \<Longrightarrow> RmRead (Some (Response i res)) \<in> set es"
  shows "remote_ok es (r\<lparr>rm_waiting := removeAll i (rm_waiting r), rm_returned := (i, a) # rm_returned r\<rparr>)"
    and "remote_ok es (r\<lparr>rm_returned := (i, a) # rm_returned r\<rparr>)"
  using assms unfolding remote_ok_def awaiting_def by auto

lemma remote_ok_read:
  assumes "remote_ok es r"
  shows "remote_ok (es @ [RmRead m]) (reader_line m r)"
proof (cases "\<exists>i res. m = Some (Response i res) \<and> i \<in> set (rm_waiting r)")
  case True
  then obtain i res where m: "m = Some (Response i res)" "i \<in> set (rm_waiting r)" by blast
  then show ?thesis using assms unfolding remote_ok_def by (auto simp: reader_line_def)
next
  case False
  then have "remote_ok es (reader_line m r)"
    using assms unfolding remote_ok_def by (auto simp: reader_line_def split: option.split to_controller.split)
  then show ?thesis by (rule remote_ok_more)
qed

lemma remote_ok_step:
  assumes "remote_ok es r" "remote_step e r = Some r'"
  shows "remote_ok (es @ [e]) r'"
proof (cases e)
  case (RmAsk cmd)
  then show ?thesis using assms remote_ok_ask remote_ok_more by auto
next
  case (RmSend i taken)
  then obtain cmd where "map_of (rm_unsent r) i = Some cmd" "r' = request_send i cmd taken r" using assms(2) by (auto split: option.splits)
  moreover then have "i \<in> ids (rm_unsent r)" by (simp add: map_of_ids(2))
  ultimately show ?thesis using remote_ok_send [OF assms(1)] remote_ok_more by blast
next
  case (RmRead m)
  then show ?thesis using assms remote_ok_read by (auto split: if_splits)
next
  case RmClose
  then have "r' = r\<lparr>rm_closed := True\<rparr>" using assms(2) by (auto split: if_splits)
  then have "remote_ok es r'" using assms(1) unfolding remote_ok_def by auto
  then show ?thesis by (rule remote_ok_more)
next
  case RmDrain
  then have "r' = reader_drain r" "rm_closed r" using assms(2) by (auto split: if_splits)
  then have "remote_ok es r'" using assms(1) unfolding remote_ok_def reader_drain_def by (auto simp: image_iff)
  then show ?thesis by (rule remote_ok_more)
next
  case (RmTake i)
  then obtain a where a: "awaiting r i" "map_of (rm_got r) i = Some a" "r' = r\<lparr>rm_returned := (i, a) # rm_returned r\<rparr>"
    using assms(2) by (auto split: if_splits)
  have "RmRead (Some (Response i res)) \<in> set es" if "a = Answer res" for res
    using map_of_SomeD [OF a(2)] assms(1) that unfolding remote_ok_def by blast
  then show ?thesis using remote_ok_return(2) [OF assms(1) a(1)] remote_ok_more a(3) by blast
next
  case (RmGiveUp i)
  then have "awaiting r i" "r' = r\<lparr>rm_waiting := removeAll i (rm_waiting r), rm_returned := (i, NoAnswer) # rm_returned r\<rparr>"
    using assms(2) by (auto split: if_splits)
  then show ?thesis using remote_ok_return(1) [OF assms(1)] remote_ok_more by blast
qed

lemma remote_ok_run: "remote_ok es0 r \<Longrightarrow> remote_run r es = Some r' \<Longrightarrow> remote_ok (es0 @ es) r'"
proof (induction es arbitrary: r es0)
  case (Cons e es)
  then obtain r1 where "remote_step e r = Some r1" "remote_run r1 es = Some r'" by (auto split: option.splits)
  then show ?case using Cons.IH [of "es0 @ [e]" r1] remote_ok_step [OF Cons.prems(1)] by simp
qed simp

text \<open>
  C31: However requests, answers, timeouts and the end of the connection come: every request returns at most
  once, an answer it returns is one the daemon gave under its own number; and once the reader has
  noticed the end of the connection, every request that still waits has its answer in its channel, and
  every request sent from then on returns at once. Nobody waits for a daemon that is gone.
\<close>

theorem nobody_waits_for_a_gone_daemon:
  assumes "remote_run remote_new es = Some r"
  shows "distinct (map fst (rm_returned r))
    \<and> (\<forall>i res. (i, Answer res) \<in> set (rm_returned r) \<longrightarrow> RmRead (Some (Response i res)) \<in> set es)
    \<and> (rm_drained r \<longrightarrow> (\<forall>i. awaiting r i \<longrightarrow> remote_step (RmTake i) r \<noteq> None)
        \<and> (\<forall>i taken r'. remote_step (RmSend i taken) r = Some r' \<longrightarrow> i \<in> ids (rm_returned r')))"
proof -
  have ok: "remote_ok es r" using remote_ok_run [OF remote_ok_new assms] by simp
  have "remote_step (RmTake i) r \<noteq> None" if "rm_drained r" "awaiting r i" for i
  proof -
    have "i \<notin> set (rm_waiting r)" using ok that unfolding remote_ok_def awaiting_def by blast
    then have "i \<in> ids (rm_got r)" using ok that unfolding remote_ok_def awaiting_def by blast
    then have "map_of (rm_got r) i \<noteq> None" by (rule map_of_ids(1) [THEN iffD2])
    then show ?thesis using that by auto
  qed
  moreover have "i \<in> ids (rm_returned r')" if "rm_drained r" "remote_step (RmSend i taken) r = Some r'" for i taken r'
  proof -
    have "rm_closed r" using ok that(1) unfolding remote_ok_def by blast
    then show ?thesis using that(2) by (auto simp: request_send_def split: option.splits)
  qed
  ultimately show ?thesis using ok unfolding remote_ok_def once_def by blast
qed

definition cut_in_between :: "remote_event list" where
  "cut_in_between = [RmAsk CmdStatus, RmSend 1 True, RmAsk CmdStop, RmRead (Some (Response 1 (Inr RDone))), RmClose, RmDrain, RmTake 1]"

lemma nobody_waits_for_a_gone_daemon_witness:
  "\<exists>r. remote_run remote_new cut_in_between = Some r \<and> rm_drained r \<and> rm_returned r = [(1, Answer (Inr RDone))]
     \<and> (\<forall>taken r'. remote_step (RmSend 2 taken) r = Some r' \<longrightarrow> 2 \<in> ids (rm_returned r'))"
proof -
  have "\<exists>r. remote_run remote_new cut_in_between = Some r \<and> rm_drained r \<and> rm_returned r = [(1, Answer (Inr RDone))]"
    by (simp add: cut_in_between_def remote_new_def request_register_def request_send_def reader_line_def reader_drain_def awaiting_def)
  then obtain r where r: "remote_run remote_new cut_in_between = Some r" "rm_drained r" "rm_returned r = [(1, Answer (Inr RDone))]" by (elim exE conjE)
  have "\<forall>i taken r'. remote_step (RmSend i taken) r = Some r' \<longrightarrow> i \<in> ids (rm_returned r')"
    using nobody_waits_for_a_gone_daemon [OF r(1), THEN conjunct2, THEN conjunct2] r(2) by (elim impE conjE) assumption+
  note two = this [THEN spec, of 2]
  show ?thesis by (intro exI [of _ r] conjI; rule r two)
qed

section \<open>The daemon ends\<close>

text \<open>
  A daemon that is to end with its session does so at the first look a second after the one that found the
  session over, with nothing started in between; one that runs a session stays.
\<close>

lemma daemon_ends_with_session:
  assumes "\<not> dl_over dl" "dl_ended_at dl = None" "dm_exit_on_stop (dl_daemon dl)" "ap_started (dm_session (dl_daemon dl)) > 0"
    and "ap_running (dm_session (dl_daemon dl)) = None" "now + LINGER \<le> later"
  shows "dl_over (daemon_step idle started c (DeTick later) (daemon_step idle started c (DeTick now) dl))"
  using assms by (simp add: daemon_step_def daemon_tick_def is_running_def Let_def LINGER_def close_def)

lemma daemon_stays:
  assumes "ap_running (dm_session (dl_daemon dl)) = Some t" "\<not> lt_over (ap_tasks (dm_session (dl_daemon dl)) ! t)" "\<not> dl_over dl"
  shows "\<not> dl_over (daemon_step idle started c (DeTick now) dl)"
  using assms by (simp add: daemon_step_def daemon_tick_def is_running_def Let_def)

end
