(* ===== verification/Pull_Task.thy ===== *)
theory Pull_Task
  imports Transfers Sync Clip_Share Remote Received_Spec
begin

text \<open>
  The tasks that pull an announcement and paste it: \<^verbatim>\<open>spawn_pull\<close> of
  \<^verbatim>\<open>crates/geserdesk-client/src/files.rs\<close> and \<^verbatim>\<open>spawn_local_pull\<close> of
  \<^verbatim>\<open>crates/geserdesk-server/src/files.rs\<close>. Both pull, leave the note, set the clipboard and report how it
  went; they differ in who they pull from.
\<close>

section \<open>A pull that is watched\<close>

text \<open>The pull with the progress it reports on its way.\<close>

definition watched_pull :: "(string \<Rightarrow> string) \<Rightarrow> 'r reader \<Rightarrow> (io_op \<Rightarrow> bool) \<Rightarrow> pull_options \<Rightarrow> file_manifest
    \<Rightarrow> path \<Rightarrow> 'r \<Rightarrow> disk \<Rightarrow> disk \<times> progress list \<times> (pull_error + path list)" where
  "watched_pull lower rd io opt m dest r d =
     (if po_max_bytes opt > 0 \<and> total_bytes m > po_max_bytes opt then (d, [], Inl (PTooLarge (po_max_bytes opt)))
      else case sanitize_manifest lower (fm_entries m) dest of
        Inl e \<Rightarrow> (d, [], Inl (PSanitize e))
      | Inr resolved \<Rightarrow>
          if rd_cancelled rd r then (d, [], Inl PCancelled)
          else if \<not> io (IoMkdirs dest) then (d, [], Inl (PIo dest))
          else case create_dir_all d dest of
            None \<Rightarrow> (d, [], Inl (PIo dest))
          | Some d \<Rightarrow>
              (case pull_into rd io (po_seq opt) m resolved r d of
                 (s, Inr _) \<Rightarrow> (ps_disk s, ps_progress s, Inr (top_level m resolved))
               | (s, Inl e) \<Rightarrow>
                   (if io (IoRemove dest) then remove_dir (ps_disk s) dest else ps_disk s, ps_progress s, Inl e)))"

lemma watched_pull_same:
  "watched_pull lower rd io opt m dest r d = (d', ps, res) \<Longrightarrow> pull_with_options lower rd io opt m dest r d = (d', res)"
  by (auto simp: watched_pull_def pull_with_options_def split: sum.splits option.splits prod.splits if_splits)

lemma watched_pull_exists:
  "pull_with_options lower rd io opt m dest r d = (d', res) \<Longrightarrow> \<exists>ps. watched_pull lower rd io opt m dest r d = (d', ps, res)"
  by (metis prod_cases3 watched_pull_same prod.inject)

section \<open>The task\<close>

text \<open>
  \<open>hooked\<close> is whether anybody listens. The last report of a task is how it ended.
\<close>

definition pull_task :: "(string \<Rightarrow> string) \<Rightarrow> 'r reader \<Rightarrow> (io_op \<Rightarrow> bool) \<Rightarrow> 'c os_clipboard \<Rightarrow> hashes \<Rightarrow> nat \<Rightarrow> string \<Rightarrow> bool
    \<Rightarrow> pull_options \<Rightarrow> file_manifest \<Rightarrow> path \<Rightarrow> 'r \<Rightarrow> disk \<Rightarrow> 'c sync \<Rightarrow> disk \<times> 'c sync \<times> pull_report list" where
  "pull_task lower rd io oc hs now peer hooked opt m dest r d sy =
     (let (d, ps, res) = watched_pull lower rd io opt m dest r d;
          report = (\<lambda>sy evs. (sy, if hooked then map (\<lambda>ev. \<lparr>rp_peer = peer, rp_event = ev\<rparr>) (map PeProgress ps @ [evs]) else []))
      in case res of
           Inr tops \<Rightarrow>
             (let d = write_note io dest peer now m d in
              case sy_apply_files oc hs tops sy of
                (sy, IoOk _) \<Rightarrow> (d, report sy PeDone)
              | (sy, IoErr) \<Rightarrow> (d, report sy (PeFailed ClipboardFailure)))
         | Inl PCancelled \<Rightarrow> (d, report sy PeCancelled)
         | Inl e \<Rightarrow> (d, report sy (ended_with e)))"

definition spawn_pull :: "(string \<Rightarrow> string) \<Rightarrow> 'r reader \<Rightarrow> (io_op \<Rightarrow> bool) \<Rightarrow> 'c os_clipboard \<Rightarrow> hashes \<Rightarrow> nat \<Rightarrow> nat
    \<Rightarrow> file_manifest \<Rightarrow> path \<Rightarrow> nat \<Rightarrow> bool \<Rightarrow> 'r \<Rightarrow> disk \<Rightarrow> 'c sync \<Rightarrow> disk \<times> 'c sync \<times> pull_report list" where
  "spawn_pull lower rd io oc hs now sq m dest files_max hooked =
     pull_task lower rd io oc hs now ''server'' hooked \<lparr>po_max_bytes = effective_files_max files_max, po_seq = sq\<rparr> m dest"

definition spawn_local_pull :: "(string \<Rightarrow> string) \<Rightarrow> 'r reader \<Rightarrow> (io_op \<Rightarrow> bool) \<Rightarrow> 'c os_clipboard \<Rightarrow> hashes \<Rightarrow> nat \<Rightarrow> string \<Rightarrow> nat
    \<Rightarrow> file_manifest \<Rightarrow> path \<Rightarrow> nat \<Rightarrow> bool \<Rightarrow> 'r \<Rightarrow> disk \<Rightarrow> 'c sync \<Rightarrow> disk \<times> 'c sync \<times> pull_report list" where
  "spawn_local_pull lower rd io oc hs now peer sq m dest files_max hooked =
     pull_task lower rd io oc hs now peer hooked \<lparr>po_max_bytes = effective_files_max files_max, po_seq = sq\<rparr> m dest"

text \<open>Where either of them stages, one folder for each transfer.\<close>

definition client_staging_dir :: "path \<Rightarrow> nat \<Rightarrow> path" where
  "client_staging_dir tmp sq = tmp @ [''geserdesk-clipboard-files'', show_nat sq]"

definition server_staging_dir :: "path \<Rightarrow> nat \<Rightarrow> path" where
  "server_staging_dir tmp sq = tmp @ [''geserdesk-clipboard-files-server'', show_nat sq]"

section \<open>How a task ends\<close>

text \<open>A pull that failed leaves the clipboard exactly as it was, and tells how it ended, once and last.\<close>

lemma failed_task:
  assumes "pull_with_options lower rd io opt m dest r d = (d', Inl e)"
  shows "\<exists>ps. pull_task lower rd io oc hs now peer hooked opt m dest r d sy
    = (d', sy, if hooked then map (\<lambda>ev. \<lparr>rp_peer = peer, rp_event = ev\<rparr>) (map PeProgress ps @ [ended_with e]) else [])"
proof -
  obtain ps where "watched_pull lower rd io opt m dest r d = (d', ps, Inl e)" using watched_pull_exists [OF assms] by blast
  then show ?thesis by (intro exI [of _ ps]) (auto simp: pull_task_def Let_def ended_with_def split: pull_error.split)
qed

lemma done_task:
  assumes "pull_with_options lower rd io opt m dest r d = (d', Inr tops)" "sy_apply_files oc hs tops sy = (sy', IoOk u)"
  shows "\<exists>ps. pull_task lower rd io oc hs now peer hooked opt m dest r d sy
    = (write_note io dest peer now m d', sy', if hooked then map (\<lambda>ev. \<lparr>rp_peer = peer, rp_event = ev\<rparr>) (map PeProgress ps @ [PeDone]) else [])"
proof -
  obtain ps where "watched_pull lower rd io opt m dest r d = (d', ps, Inr tops)" using watched_pull_exists [OF assms(1)] by blast
  then show ?thesis by (intro exI [of _ ps]) (simp add: pull_task_def Let_def assms(2))
qed

lemma unpasted_task:
  assumes "pull_with_options lower rd io opt m dest r d = (d', Inr tops)" "sy_apply_files oc hs tops sy = (sy', IoErr)"
  shows "\<exists>ps. pull_task lower rd io oc hs now peer hooked opt m dest r d sy
    = (write_note io dest peer now m d', sy', if hooked then map (\<lambda>ev. \<lparr>rp_peer = peer, rp_event = ev\<rparr>) (map PeProgress ps @ [PeFailed ClipboardFailure]) else [])"
proof -
  obtain ps where "watched_pull lower rd io opt m dest r d = (d', ps, Inr tops)" using watched_pull_exists [OF assms(1)] by blast
  then show ?thesis by (intro exI [of _ ps]) (simp add: pull_task_def Let_def assms(2))
qed

text \<open>The two stage in different folders, each transfer in one of its own.\<close>

lemma staging_apart: "client_staging_dir tmp a \<noteq> server_staging_dir tmp b"
  by (simp add: client_staging_dir_def server_staging_dir_def)

lemma staging_inj: "client_staging_dir tmp a = client_staging_dir tmp b \<longleftrightarrow> a = b"
  by (metis client_staging_dir_def append_same_eq list.inject option.inject read_show_nat same_append_eq)

context stable_clipboard
begin

lemma files_set:
  assumes "oc_set_file_list oc (sy_clip s) ps = (c, IoOk ())"
  shows "\<exists>s'. sy_apply_files oc hs ps s = (s', IoOk ()) \<and> sy_clip s' = c"
proof -
  obtain got where "oc_file_list oc c = (c, got)" using file_list_looks [of c] by (cases "oc_file_list oc c") auto
  moreover obtain n where "oc_change_count oc c = (c, n)" using change_count_looks [of c] by (cases "oc_change_count oc c") auto
  ultimately show ?thesis using assms by (auto simp: sy_apply_files_def)
qed

end

section \<open>From a copy to a paste\<close>

text \<open>The note is a file of its own unless a file that was copied has its name.\<close>

lemma staged_not_note:
  assumes "sanitize_manifest lower (fm_entries m) dest = Inr ps" "\<forall>en \<in> set (fm_entries m). fe_path en \<noteq> NOTE"
    and "i < length (fm_entries m)"
  shows "ps ! i \<noteq> dest @ [NOTE]"
proof -
  let ?e = "fm_entries m ! i"
  have "resolved_under dest ?e (ps ! i)" using list_all2_nthD [OF sanitize_manifest_Inr(1) [OF assms(1)] assms(3)] .
  then have p: "ps ! i = dest @ split_on (CHR ''/'') (fe_path ?e)" by (simp add: resolved_under_def)
  have "CHR ''/'' \<notin> set NOTE" by (simp add: NOTE_def)
  then have "split_on (CHR ''/'') NOTE = [NOTE]" by (rule split_on_single)
  then have "split_on (CHR ''/'') (fe_path ?e) = [NOTE] \<Longrightarrow> fe_path ?e = NOTE" by (metis join_split)
  then show ?thesis using p assms(2,3) by auto
qed

lemma staged_note_place:
  assumes "sanitize_manifest lower (fm_entries m) dest = Inr ps" "\<forall>en \<in> set (fm_entries m). fe_path en \<noteq> NOTE"
    "mkdirs d2 dest \<noteq> None" "\<forall>q. q \<noteq> dest \<longrightarrow> starts_with q dest \<longrightarrow> d2 q = None"
    and same: "\<forall>q. q \<notin> set ps \<longrightarrow> d1 q = the (mkdirs d2 dest) q"
  shows "link_free d1 dest \<and> d1 dest = Some NDir \<and> d1 (dest @ [NOTE]) = None"
proof -
  obtain d' where d': "mkdirs d2 dest = Some d'" using assms(3) by blast
  have len: "length ps = length (fm_entries m)" by (rule sanitize_manifest_length [OF assms(1)])
  have under: "\<exists>r. r \<noteq> [] \<and> p = dest @ r" if mem: "p \<in> set ps" for p
  proof -
    obtain i where i: "i < length ps" "ps ! i = p" using mem unfolding in_set_conv_nth by blast
    then have "(fm_entries m ! i, p) \<in> set (zip (fm_entries m) ps)" using len by (auto simp: set_zip)
    then show ?thesis using resolved_strictly_under [OF assms(1)] by blast
  qed
  have d1: "d1 q = Some NDir" if "q \<in> set (prefixes_of dest)" for q
  proof -
    have "q \<notin> set ps" using under [of q] that by (auto simp: prefixes_of_iff)
    then show ?thesis using same d' mkdirs_rooted [OF d'] that by (simp add: rooted_def)
  qed
  have "dest @ [NOTE] \<notin> set ps" using staged_not_note [OF assms(1,2)] len by (metis in_set_conv_nth)
  moreover have "dest @ [NOTE] \<notin> set (prefixes_of dest)" by (auto simp: prefixes_of_iff)
  ultimately have "d1 (dest @ [NOTE]) = None"
    using same d' mkdirs_other [OF d', of "dest @ [NOTE]"] assms(4) by (simp add: starts_with_iff)
  moreover have "link_free d1 dest" using d1 by (fastforce simp: link_free_def prefixes_of_iff)
  moreover have "d1 dest = Some NDir" using d1 by (simp add: prefixes_of_iff)
  ultimately show ?thesis by simp
qed

text \<open>
  C9: From the copy on one machine to the paste on the other: the server's task for a client's files ends
  as done, having told nobody it failed; every file it staged holds the bytes of the original; the
  clipboard was set to exactly the top of what was copied, and the next look at it finds nothing new to
  share; and the note in the folder names the client, the time and what was selected.
\<close>

theorem copied_files_are_pasted:
  assumes "collect roots (effective_files_max cap) = Inr (m, src)" "\<forall>rt \<in> set roots. root_shown d rt"
    "sanitize_manifest lower (fm_entries m) dest = Inr ps"
    "\<forall>op. io op" "disk_ok d2" "mkdirs d2 dest \<noteq> None" "\<forall>q. q \<noteq> dest \<longrightarrow> starts_with q dest \<longrightarrow> d2 q = None"
    and "fr_current_owner s = Some (OwnClient name)" "hub_reachable (fr_hub s) name"
    and "stable_clipboard oc" "oc_set_file_list oc (sy_clip sy) (top_level m ps) = (c, IoOk ())"
    and "\<forall>en \<in> set (fm_entries m). fe_path en \<noteq> NOTE"
    and "encoded name" "\<forall>n \<in> set (top_names m). encoded n" "now < 2 ^ 64"
  shows "\<exists>d' sy' prs. spawn_local_pull lower (server_reader d (fo_set sq m src) name sq) io oc hs now name sq m dest cap True s d2 sy
      = (d', sy', map (\<lambda>ev. \<lparr>rp_peer = name, rp_event = ev\<rparr>) (map PeProgress prs @ [PeDone]))
    \<and> (\<forall>i < length (fm_entries m). d' (ps ! i) = (if fe_dir (fm_entries m ! i) then Some NDir else d (src ! i)))
    \<and> sy_clip sy' = c \<and> snd (sy_poll_files oc hs sy') = None
    \<and> read_note d' dest = Some \<lparr>no_peer = one_line name, no_time = now, no_names = map one_line (top_names m)\<rparr>"
proof -
  let ?opt = "\<lparr>po_max_bytes = effective_files_max cap, po_seq = sq\<rparr>"
  have ok: "routed_ok name s" using assms(8,9) by (simp add: routed_ok_def)
  have mx: "po_max_bytes ?opt = effective_files_max cap" by simp
  obtain d1 where d1: "pull_with_options lower (server_reader d (fo_set sq m src) name sq) io ?opt m dest s d2 = (d1, Inr (top_level m ps))"
    "\<forall>i < length (fm_entries m). d1 (ps ! i) = (if fe_dir (fm_entries m ! i) then Some NDir else d (src ! i))"
    "\<forall>q. q \<notin> set ps \<longrightarrow> d1 q = the (mkdirs d2 dest) q"
    using server_pull.copied_arrive [OF assms(1-3) mx assms(4-7) refl refl ok] by blast
  have place: "link_free d1 dest" "d1 dest = Some NDir" "d1 (dest @ [NOTE]) = None"
    using staged_note_place [OF assms(3,12,6,7) d1(3)] by auto
  obtain sy' where sy': "sy_apply_files oc hs (top_level m ps) sy = (sy', IoOk ())" "sy_clip sy' = c"
    using stable_clipboard.files_set [OF assms(10,11)] by blast
  let ?d' = "write_note io dest name now m d1"
  have nt: "read_note ?d' dest = Some \<lparr>no_peer = one_line name, no_time = now, no_names = map one_line (top_names m)\<rparr>"
    "\<And>q. q \<noteq> dest @ [NOTE] \<Longrightarrow> ?d' q = d1 q"
    using note_reads_back [OF assms(13-15), of io dest d1] place assms(4) by auto
  show ?thesis
    using done_task [OF d1(1) sy'(1), where hooked = True] nt(1) d1(2) nt(2) [OF staged_not_note [OF assms(3,12)]]
      sy'(2) stable_clipboard.apply_files_not_echoed [OF assms(10) sy'(1)]
    unfolding spawn_local_pull_def by fastforce
qed

lemma copied_files_are_pasted_witness:
  "\<exists>d' sy' prs. spawn_local_pull id (server_reader sample_disk (fo_set 7 sample_manifest sample_paths) ''a'' 7) (\<lambda>_. True)
      mem_clipboard \<lparr>hs_content = (\<lambda>_. 0), hs_paths = length\<rparr> 1700000000 ''a'' 7 sample_manifest [''stage''] 100 True two_screens
      [[] \<mapsto> NDir] (sy_new mem_new) = (d', sy', map (\<lambda>ev. \<lparr>rp_peer = ''a'', rp_event = ev\<rparr>) (map PeProgress prs @ [PeDone]))
    \<and> sl_files (sy_clip sy') = Some (top_level sample_manifest staged_paths)"
proof -
  let ?hs = "\<lparr>hs_content = (\<lambda>_. 0), hs_paths = length\<rparr> :: hashes"
  let ?c = "mem_new\<lparr>sl_files := Some (top_level sample_manifest staged_paths), sl_content := None\<rparr>"
  have cl: "collect sample_roots (effective_files_max 100) = Inr (sample_manifest, sample_paths)"
    using sample_collect by (simp add: effective_files_max_def HARD_FILES_MAX_BYTES_def)
  have st: "oc_set_file_list mem_clipboard (sy_clip (sy_new mem_new)) (top_level sample_manifest staged_paths) = (?c, IoOk ())"
    by (simp add: mem_clipboard_def sy_new_def)
  have nn: "\<forall>en \<in> set (fm_entries sample_manifest). fe_path en \<noteq> NOTE" by code_simp
  have en: "encoded ''a''" by (rule encoded_ascii) simp
  have "\<forall>n \<in> set (top_names sample_manifest). \<forall>x \<in> set n. ord x < 128" by code_simp
  then have ns: "\<forall>n \<in> set (top_names sample_manifest). encoded n" using encoded_ascii by blast
  have fresh: "\<forall>q. q \<noteq> [''stage''] \<longrightarrow> starts_with q [''stage''] \<longrightarrow> ([[] \<mapsto> NDir] :: disk) q = None" by (simp add: starts_with_def)
  have io: "\<forall>op. (\<lambda>_ :: io_op. True) op" by simp
  have t: "(1700000000 :: nat) < 2 ^ 64" by simp
  have clip: "sl_files ?c = Some (top_level sample_manifest staged_paths)" by simp
  show ?thesis
    using copied_files_are_pasted [OF cl sample_shown sample_sanitize io empty_disk_ok sample_mkdirs fresh two_screens_facts(1,2)
      mem.stable_clipboard_axioms st nn en ns t, of 7 ?hs] clip by metis
qed

end
