(* ===== verification/Desktop_Clipboard.thy ===== *)
theory Desktop_Clipboard
  imports Sync Received_Spec
begin

text \<open>
  The clipboard of a desktop: \<^verbatim>\<open>SystemClipboard\<close> of \<^verbatim>\<open>crates/geserdesk-clipboard/src/system.rs\<close> over the
  clipboard library, the pictures of \<^verbatim>\<open>picture.rs\<close> over the picture library, and the signal of
  \<^verbatim>\<open>watch.rs\<close>. What the two libraries do is a parameter.
\<close>

section \<open>Pictures\<close>

definition MAX_SIDE :: nat where "MAX_SIDE = 16384"
definition MAX_PIXELS :: nat where "MAX_PIXELS = 64 * 1024 * 1024"

record rgba =
  ra_width :: nat
  ra_height :: nat
  ra_bytes :: bytes

text \<open>Writing a PNG, the size its header gives, and its pixels; each can fail.\<close>

record png_lib =
  pl_encode :: "rgba \<Rightarrow> bytes option"
  pl_dimensions :: "bytes \<Rightarrow> (nat \<times> nat) option"
  pl_decode :: "bytes \<Rightarrow> bytes option"

datatype picture_error = WrongBytes nat nat nat nat | BadPicture | TooLargeToTake nat nat

definition to_png :: "png_lib \<Rightarrow> rgba \<Rightarrow> picture_error + bytes" where
  "to_png pl p =
     (let expected = u64 (u64 (ra_width p * ra_height p) * 4)
      in if length (ra_bytes p) \<noteq> expected then Inl (WrongBytes (ra_width p) (ra_height p) (length (ra_bytes p)) expected)
         else case pl_encode pl p of None \<Rightarrow> Inl BadPicture | Some png \<Rightarrow> Inr png)"

definition from_png :: "png_lib \<Rightarrow> bytes \<Rightarrow> picture_error + rgba" where
  "from_png pl png =
     (case pl_dimensions pl png of
        None \<Rightarrow> Inl BadPicture
      | Some (w, h) \<Rightarrow>
          if w = 0 \<or> h = 0 \<or> w > MAX_SIDE \<or> h > MAX_SIDE \<or> w * h > MAX_PIXELS then Inl (TooLargeToTake w h)
          else case pl_decode pl png of
            None \<Rightarrow> Inl BadPicture
          | Some raw \<Rightarrow> Inr \<lparr>ra_width = w, ra_height = h, ra_bytes = raw\<rparr>)"

section \<open>Paths\<close>

text \<open>
  \<^verbatim>\<open>to_string_lossy\<close>: what is no UTF-8 becomes U+FFFD, one for each piece that cannot go on.
\<close>

definition bad_piece :: "bytes \<Rightarrow> nat" where
  "bad_piece s =
     (case s of
        a # b # rest \<Rightarrow>
          if 224 \<le> ord a \<and> ord a < 240 then
            (if cont b \<and> (ord a = 224 \<longrightarrow> 160 \<le> ord b) \<and> (ord a = 237 \<longrightarrow> ord b < 160) then 2 else 1)
          else if 240 \<le> ord a \<and> ord a < 245 then
            (if cont b \<and> (ord a = 240 \<longrightarrow> 144 \<le> ord b) \<and> (ord a = 244 \<longrightarrow> ord b < 144)
             then (case rest of c # _ \<Rightarrow> if cont c then 3 else 2 | [] \<Rightarrow> 2) else 1)
          else 1
      | _ \<Rightarrow> 1)"

lemma bad_piece_pos [simp]: "0 < bad_piece s"
  by (auto simp: bad_piece_def split: list.split)

function utf8_lossy :: "bytes \<Rightarrow> bytes" where
  "utf8_lossy s =
     (if s = [] then []
      else case utf8_next s of
        Some (n, rest) \<Rightarrow> utf8_char n @ utf8_lossy rest
      | None \<Rightarrow> utf8_char 65533 @ utf8_lossy (drop (bad_piece s) s))"
  by pat_completeness auto
termination
  by (relation "measure length") (auto dest: utf8_next_shorter)

declare utf8_lossy.simps [simp del]

definition trim_cr :: "string \<Rightarrow> string" where
  "trim_cr s = rev (dropWhile (\<lambda>c. c = CHR 0x0D) (rev s))"

text \<open>The last name of a path that is nothing but carriage returns goes with them.\<close>

definition listed_path :: "path \<Rightarrow> path" where
  "listed_path p =
     (let p = map utf8_lossy p
      in if p = [] then [] else if trim_cr (last p) = [] then butlast p else butlast p @ [trim_cr (last p)])"

section \<open>The clipboard of the system\<close>

datatype 'x lib_result = LibOk 'x | NotAvailable | LibErr

record 'a desktop_lib =
  dl_get_text :: "'a \<Rightarrow> 'a \<times> string lib_result"
  dl_get_html :: "'a \<Rightarrow> 'a \<times> string lib_result"
  dl_get_image :: "'a \<Rightarrow> 'a \<times> rgba lib_result"
  dl_get_files :: "'a \<Rightarrow> 'a \<times> path list lib_result"
  dl_set_text :: "'a \<Rightarrow> string \<Rightarrow> 'a \<times> bool"
  dl_set_html :: "'a \<Rightarrow> string \<Rightarrow> string option \<Rightarrow> 'a \<times> bool"
  dl_set_image :: "'a \<Rightarrow> rgba \<Rightarrow> 'a \<times> bool"
  dl_set_files :: "'a \<Rightarrow> path list \<Rightarrow> 'a \<times> bool"
  dl_change_count :: "'a \<Rightarrow> 'a \<times> nat option"

definition sys_file_list :: "'a desktop_lib \<Rightarrow> 'a \<Rightarrow> 'a \<times> path list option io_result" where
  "sys_file_list dl c =
     (case dl_get_files dl c of
        (c, LibOk ps) \<Rightarrow> (c, IoOk (Some (map listed_path ps)))
      | (c, NotAvailable) \<Rightarrow> (c, IoOk None)
      | (c, LibErr) \<Rightarrow> (c, IoErr))"

text \<open>A picture goes along only where there is no text.\<close>

definition sys_picture :: "png_lib \<Rightarrow> 'a desktop_lib \<Rightarrow> content \<Rightarrow> 'a \<Rightarrow> 'a \<times> content io_result" where
  "sys_picture pl dl ct c =
     (if cc_text ct \<noteq> None then (c, IoOk ct)
      else case dl_get_image dl c of
        (c, LibOk img) \<Rightarrow> (c, case to_png pl img of Inl _ \<Rightarrow> IoErr | Inr png \<Rightarrow> IoOk (cc_with_image ct png))
      | (c, _) \<Rightarrow> (c, IoOk ct))"

definition sys_styled :: "postcard \<Rightarrow> png_lib \<Rightarrow> 'a desktop_lib \<Rightarrow> string option \<Rightarrow> 'a \<Rightarrow> 'a \<times> content option io_result" where
  "sys_styled pc pl dl txt c =
     (let (c, html) = dl_get_html dl c;
          (c, got) = sys_picture pl dl (cc_new txt (case html of LibOk h \<Rightarrow> Some h | _ \<Rightarrow> None)) c
      in (c, case got of IoErr \<Rightarrow> IoErr | IoOk ct \<Rightarrow> IoOk (if cc_is_empty pc ct then None else Some ct)))"

definition sys_get :: "postcard \<Rightarrow> png_lib \<Rightarrow> 'a desktop_lib \<Rightarrow> 'a \<Rightarrow> 'a \<times> content option io_result" where
  "sys_get pc pl dl c =
     (let (c, files) = sys_file_list dl c
      in case files of
           IoErr \<Rightarrow> (c, IoErr)
         | IoOk ps \<Rightarrow>
             if (case ps of Some ps \<Rightarrow> ps \<noteq> [] | None \<Rightarrow> False) then (c, IoOk None)
             else case dl_get_text dl c of
               (c, LibOk t) \<Rightarrow> sys_styled pc pl dl (Some t) c
             | (c, NotAvailable) \<Rightarrow> sys_styled pc pl dl None c
             | (c, LibErr) \<Rightarrow> (c, IoErr))"

definition io_of :: "'a \<times> bool \<Rightarrow> 'a \<times> unit io_result" where
  "io_of r = (fst r, if snd r then IoOk () else IoErr)"

definition sys_set :: "png_lib \<Rightarrow> 'a desktop_lib \<Rightarrow> 'a \<Rightarrow> content \<Rightarrow> 'a \<times> unit io_result" where
  "sys_set pl dl c ct =
     (case (cc_text ct, cc_html ct, cc_image ct) of
        (Some t, Some html, _) \<Rightarrow> io_of (dl_set_html dl c html (Some t))
      | (Some t, None, _) \<Rightarrow> io_of (dl_set_text dl c t)
      | (None, _, Some png) \<Rightarrow>
          (case from_png pl png of Inl _ \<Rightarrow> (c, IoErr) | Inr p \<Rightarrow> io_of (dl_set_image dl c p))
      | (None, Some html, None) \<Rightarrow> io_of (dl_set_html dl c html None)
      | (None, None, None) \<Rightarrow> (c, IoOk ()))"

definition system_clipboard :: "postcard \<Rightarrow> png_lib \<Rightarrow> 'a desktop_lib \<Rightarrow> 'a os_clipboard" where
  "system_clipboard pc pl dl =
     \<lparr>oc_get = sys_get pc pl dl, oc_set = sys_set pl dl, oc_file_list = sys_file_list dl,
      oc_set_file_list = (\<lambda>c ps. io_of (dl_set_files dl c ps)), oc_change_count = dl_change_count dl\<rparr>"

section \<open>The signal of a change\<close>

text \<open>Windows numbers the changes; 0 is no access.\<close>

definition win_change_count :: "nat \<Rightarrow> nat option" where
  "win_change_count n = (if n = 0 then None else Some n)"

text \<open>
  Under X11 the first question starts a thread that counts the notices of a new owner; when it cannot be
  started there is no signal for the life of the process.
\<close>

datatype x11_watch = NotAsked | NoSignal | Counting nat

definition x11_change_count :: "bool \<Rightarrow> x11_watch \<Rightarrow> x11_watch \<times> nat option" where
  "x11_change_count starts w =
     (let w = (case w of NotAsked \<Rightarrow> if starts then Counting 0 else NoSignal | _ \<Rightarrow> w)
      in (w, case w of Counting n \<Rightarrow> Some n | _ \<Rightarrow> None))"

definition x11_owner_notice :: "x11_watch \<Rightarrow> x11_watch" where
  "x11_owner_notice w = (case w of Counting n \<Rightarrow> Counting (u64 (n + 1)) | _ \<Rightarrow> w)"

section \<open>What is read and what is written\<close>

text \<open>A picture that is taken has a size within the bounds.\<close>

lemma picture_bounds:
  assumes "from_png pl png = Inr p"
  shows "0 < ra_width p \<and> ra_width p \<le> MAX_SIDE" "0 < ra_height p \<and> ra_height p \<le> MAX_SIDE" "ra_width p * ra_height p \<le> MAX_PIXELS"
  using assms by (auto simp: from_png_def split: option.splits prod.splits if_splits)

text \<open>
  What the picture library documents: what it wrote has the size and the pixels it was given.
\<close>

definition png_ok :: "png_lib \<Rightarrow> bool" where
  "png_ok pl \<longleftrightarrow> (\<forall>p png. pl_encode pl p = Some png \<longrightarrow>
     png \<noteq> [] \<and> pl_dimensions pl png = Some (ra_width p, ra_height p) \<and> pl_decode pl png = Some (ra_bytes p))"

definition fits_bounds :: "rgba \<Rightarrow> bool" where
  "fits_bounds p \<longleftrightarrow> 0 < ra_width p \<and> 0 < ra_height p \<and> ra_width p \<le> MAX_SIDE \<and> ra_height p \<le> MAX_SIDE
     \<and> ra_width p * ra_height p \<le> MAX_PIXELS"

lemma picture_round_trip:
  assumes "png_ok pl" "to_png pl p = Inr png"
  shows "from_png pl png = (if fits_bounds p then Inr p else Inl (TooLargeToTake (ra_width p) (ra_height p)))"
proof -
  have "pl_encode pl p = Some png" using assms(2) by (auto simp: to_png_def Let_def split: if_splits option.splits)
  then have "pl_dimensions pl png = Some (ra_width p, ra_height p)" "pl_decode pl png = Some (ra_bytes p)"
    using assms(1) unfolding png_ok_def by blast+
  then show ?thesis by (auto simp: from_png_def fits_bounds_def)
qed

text \<open>What a look finds is never text and a picture at once, never files, and never empty.\<close>

lemma find_filter_other: "(\<And>x. P x \<Longrightarrow> Q x) \<Longrightarrow> find P (filter Q xs) = find P xs"
  by (induction xs) auto

lemma find_snoc_other: "\<not> P x \<Longrightarrow> find P (xs @ [x]) = find P xs"
  by (induction xs) auto

lemma cc_text_with_image: "cc_text (cc_with_image ct png) = cc_text ct"
proof -
  have "find (\<lambda>i. ci_mime i = MIME_TEXT) (filter (\<lambda>i. ci_mime i \<noteq> MIME_IMAGE) xs) = find (\<lambda>i. ci_mime i = MIME_TEXT) xs" for xs :: "clip_item list"
    by (rule find_filter_other) simp
  then show ?thesis by (simp add: cc_with_image_def cc_text_def cc_string_def cc_find_def Let_def find_snoc_other)
qed

lemma sys_picture_one_kind:
  assumes "sys_picture pl dl (cc_new txt html) c = (c', IoOk ct)" "cc_text ct \<noteq> None"
  shows "cc_image ct = None"
proof (cases "cc_text (cc_new txt html) = None")
  case True
  then have "cc_text ct = None"
    using assms(1) by (auto simp: sys_picture_def cc_text_with_image split: prod.splits lib_result.splits sum.splits)
  then show ?thesis using assms(2) by simp
next
  case False
  then have "ct = cc_new txt html" using assms(1) by (simp add: sys_picture_def)
  then show ?thesis by (auto simp: cc_image_def cc_find_def cc_new_def item_of_def split: option.split)
qed

lemma sys_get_one_kind:
  assumes "sys_get pc pl dl c = (c', IoOk (Some ct))"
  shows "\<not> (cc_text ct \<noteq> None \<and> cc_image ct \<noteq> None)" "\<not> cc_is_empty pc ct"
proof -
  obtain t0 c1 where s: "sys_styled pc pl dl t0 c1 = (c', IoOk (Some ct))"
    using assms by (auto simp: sys_get_def Let_def split: prod.splits io_result.splits lib_result.splits if_splits)
  obtain html c2 where p: "sys_picture pl dl (cc_new t0 html) c2 = (c', IoOk ct)"
    using s by (auto simp: sys_styled_def Let_def split: prod.splits io_result.splits if_splits)
  have "cc_image ct = None" if "cc_text ct \<noteq> None" by (rule sys_picture_one_kind [OF p that])
  then show "\<not> (cc_text ct \<noteq> None \<and> cc_image ct \<noteq> None)" by metis
  show "\<not> cc_is_empty pc ct"
    using s by (auto simp: sys_styled_def Let_def split: prod.splits io_result.splits if_splits)
qed

text \<open>
  A desktop whose looks change nothing is one change detection can be used on: what it was just told to
  hold is not taken for a copy of its own.
\<close>

definition looks_only :: "'a desktop_lib \<Rightarrow> bool" where
  "looks_only dl \<longleftrightarrow> (\<forall>c. fst (dl_get_text dl c) = c \<and> fst (dl_get_html dl c) = c \<and> fst (dl_get_image dl c) = c
     \<and> fst (dl_get_files dl c) = c \<and> fst (dl_change_count dl c) = c)"

lemma sys_file_list_looks: "looks_only dl \<Longrightarrow> fst (sys_file_list dl c) = c"
  unfolding looks_only_def by (auto simp: sys_file_list_def split: prod.split lib_result.split) (metis fst_conv)+

lemma sys_picture_looks: "looks_only dl \<Longrightarrow> fst (sys_picture pl dl ct c) = c"
  unfolding looks_only_def by (auto simp: sys_picture_def split: prod.split lib_result.split) (metis fst_conv)+

lemma sys_styled_looks: "looks_only dl \<Longrightarrow> fst (sys_styled pc pl dl txt c) = c"
  using sys_picture_looks [of dl pl _ c] unfolding looks_only_def
  by (auto simp: sys_styled_def Let_def split: prod.split io_result.split) (metis fst_conv)+

lemma sys_get_looks:
  assumes "looks_only dl"
  shows "fst (sys_get pc pl dl c) = c"
proof -
  obtain ps where ps: "sys_file_list dl c = (c, ps)" using sys_file_list_looks [OF assms, of c] by (cases "sys_file_list dl c") auto
  obtain t where t: "dl_get_text dl c = (c, t)" using assms unfolding looks_only_def by (metis prod.collapse)
  show ?thesis using sys_styled_looks [OF assms] by (auto simp: sys_get_def ps t split: io_result.split lib_result.split)
qed

lemma system_stable: "looks_only dl \<Longrightarrow> stable_clipboard (system_clipboard pc pl dl)"
  by unfold_locales (auto simp: system_clipboard_def sys_get_looks sys_file_list_looks looks_only_def)

section \<open>Copies that cross\<close>

text \<open>
  A copy read on one desktop and written on another: text with its style as both, text alone as text, a
  picture with its very pixels, unless it is over the bounds: then nothing is written.
\<close>

lemma text_crosses:
  assumes "dl_get_files dl a = (a, NotAvailable)" "dl_get_text dl a = (a, LibOk t)" "utf8_valid t" "t \<noteq> []"
    and "dl_get_html dl a = (a, html)"
    and "html = LibOk h \<and> utf8_valid h \<and> h \<noteq> [] \<or> html = NotAvailable \<or> html = LibErr"
  shows "\<exists>ct. sys_get pc pl dl a = (a, IoOk (Some ct))
    \<and> sys_set pl dl' b ct = io_of (if html = LibOk h then dl_set_html dl' b h (Some t) else dl_set_text dl' b t)"
proof -
  let ?ct = "cc_new (Some t) (case html of LibOk h \<Rightarrow> Some h | _ \<Rightarrow> None)"
  have t: "cc_text ?ct = Some t" by (rule cc_text_new [OF assms(3,4)])
  have h: "cc_html ?ct = (if html = LibOk h then Some h else None)"
    using assms(4,6) by (auto simp: cc_html_def cc_string_def cc_find_def cc_new_def item_of_def)
  have "sys_get pc pl dl a = (a, IoOk (Some ?ct))"
    using t by (simp add: sys_get_def sys_file_list_def assms(1,2,5) sys_styled_def sys_picture_def cc_is_empty_def)
  moreover have "sys_set pl dl' b ?ct = io_of (if html = LibOk h then dl_set_html dl' b h (Some t) else dl_set_text dl' b t)"
    by (simp add: sys_set_def t h)
  ultimately show ?thesis by blast
qed

lemma picture_crosses:
  assumes "png_ok pl" "dl_get_files dl a = (a, NotAvailable)" "dl_get_text dl a = (a, NotAvailable)"
    and "dl_get_html dl a = (a, NotAvailable)" "dl_get_image dl a = (a, LibOk p)" "to_png pl p = Inr png"
  shows "\<exists>ct. sys_get pc pl dl a = (a, IoOk (Some ct))
    \<and> sys_set pl dl' b ct = (if fits_bounds p then io_of (dl_set_image dl' b p) else (b, IoErr))"
proof -
  let ?ct = "cc_with_image (cc_new None None) png"
  have "pl_encode pl p = Some png" using assms(6) by (auto simp: to_png_def Let_def split: if_splits option.splits)
  then have n: "png \<noteq> []" using assms(1) unfolding png_ok_def by blast
  then have i: "cc_image ?ct = Some png" "cc_text ?ct = None" "cc_html ?ct = None"
    by (simp_all add: cc_with_image_def cc_image_def cc_text_def cc_html_def cc_string_def cc_find_def cc_new_def item_of_def)
  have e: "cc_text (cc_new None None) = None" by (simp add: cc_text_def cc_string_def cc_find_def cc_new_def item_of_def)
  have "sys_get pc pl dl a = (a, IoOk (Some ?ct))"
    using i by (simp add: sys_get_def sys_file_list_def assms(2-6) sys_styled_def sys_picture_def e cc_is_empty_def)
  moreover have "sys_set pl dl' b ?ct = (if fits_bounds p then io_of (dl_set_image dl' b p) else (b, IoErr))"
    by (simp add: sys_set_def i picture_round_trip [OF assms(1,6)])
  ultimately show ?thesis by blast
qed

text \<open>Paths of proper text that do not end in a carriage return are listed as they are.\<close>

lemma utf8_lossy_encode: "\<forall>c \<in> set cs. is_scalar c \<Longrightarrow> utf8_lossy (utf8_encode cs) = utf8_encode cs"
proof (induction cs)
  case Nil
  then show ?case by (simp add: utf8_encode_def utf8_lossy.simps [of "[]"])
next
  case (Cons c cs)
  have ne: "utf8_char c @ utf8_encode cs \<noteq> []" by simp
  have nx: "utf8_next (utf8_char c @ utf8_encode cs) = Some (c, utf8_encode cs)" using Cons.prems by (intro utf8_next_char) simp
  have u: "utf8_encode (c # cs) = utf8_char c @ utf8_encode cs" by (simp add: utf8_encode_def)
  show ?case unfolding u utf8_lossy.simps [of "utf8_char c @ utf8_encode cs"] nx using ne Cons by simp
qed

lemma listed_plain:
  assumes "\<forall>n \<in> set p. encoded n" "p \<noteq> [] \<Longrightarrow> last p \<noteq> [] \<and> last (last p) \<noteq> CHR 0x0D"
  shows "listed_path p = p"
proof -
  have "utf8_lossy n = n" if "n \<in> set p" for n using assms(1) that utf8_lossy_encode by (auto simp: encoded_def)
  then have m: "map utf8_lossy p = p" by (simp add: map_idI)
  have "trim_cr (last p) = last p" if "p \<noteq> []"
    using assms(2) [OF that] by (cases "last p" rule: rev_cases) (auto simp: trim_cr_def)
  then show ?thesis using assms(2) by (auto simp: listed_path_def m)
qed

text \<open>A name that is no UTF-8 is listed as another one: the file that was copied is not found under it.\<close>

lemma listed_mangled: "listed_path [''home'', ''a'' @ [CHR 0xE9]] = [''home'', ''a'' @ [CHR 0xEF, CHR 0xBF, CHR 0xBD]]"
  by code_simp

lemma x11_counts_from_first:
  "x11_change_count True NotAsked = (Counting 0, Some 0)"
  "snd (x11_change_count s (x11_owner_notice (Counting n))) = Some (u64 (n + 1))"
  "snd (x11_change_count s NoSignal) = None"
  by (simp_all add: x11_change_count_def x11_owner_notice_def)

end
