(* ===== verification/Machine.thy ===== *)
theory Machine
  imports Geometry Trust "HOL-Library.Multiset"
begin

text \<open>
  What a machine is to the others: its monitors (\<^verbatim>\<open>crates/geserdesk-platform/src/monitors.rs\<close>) and its TLS
  identity (\<^verbatim>\<open>crates/geserdesk-tls/src/identity.rs\<close>). The answers of the display system, making a
  certificate and reading PEM text are parameters.
\<close>

section \<open>Monitors\<close>

datatype monitors_error = Connect | Unsupported

text \<open>
  X11: what RandR said, if it answered, as positions of 16 bits and sizes; without it, or when it names no
  monitor, the whole root window.
\<close>

record x11_monitor =
  xm_x :: int
  xm_y :: int
  xm_width :: int
  xm_height :: int

definition x11_monitors :: "(x11_monitor list option \<times> int \<times> int) option \<Rightarrow> monitors_error + rect list" where
  "x11_monitors answer =
     (case answer of
        None \<Rightarrow> Inl Connect
      | Some (randr, width, height) \<Rightarrow>
          (case map_option (map (\<lambda>m. Rect (xm_x m) (xm_y m) (xm_width m) (xm_height m))) randr of
             Some (r # rs) \<Rightarrow> Inr (r # rs)
           | _ \<Rightarrow> Inr [Rect 0 0 width height]))"

text \<open>Windows: the corners of each monitor that could be asked about.\<close>

record win_corners =
  wc_left :: int
  wc_top :: int
  wc_right :: int
  wc_bottom :: int

definition win_monitors :: "(bool \<times> win_corners option list) \<Rightarrow> monitors_error + rect list" where
  "win_monitors answer =
     (if \<not> fst answer then Inl Connect
      else Inr (map (\<lambda>r. Rect (wc_left r) (wc_top r) (i32 (wc_right r - wc_left r)) (i32 (wc_bottom r - wc_top r)))
                 (List.map_filter id (snd answer))))"

text \<open>A stable sort by top after one by left is the sort by both.\<close>

definition by_corner :: "rect list \<Rightarrow> rect list" where
  "by_corner rs = sort_key r_x (sort_key r_y rs)"

definition monitors :: "monitors_error + rect list \<Rightarrow> monitors_error + rect list" where
  "monitors platform =
     (case platform of
        Inl e \<Rightarrow> Inl e
      | Inr rs \<Rightarrow>
          (let rs = filter (\<lambda>r. r_w r > 0 \<and> r_h r > 0) rs
           in if rs = [] then Inl Connect else Inr (by_corner rs)))"

section \<open>Identity\<close>

text \<open>Reading the certificate and the key out of PEM text; \<open>of_cert\<close> is the digest of a certificate.\<close>

record 'k pem_lib =
  pe_cert :: "bytes \<Rightarrow> bytes option"
  pe_key :: "bytes \<Rightarrow> 'k option"

record 'k identity =
  idn_cert :: bytes
  idn_key :: 'k
  idn_fingerprint :: fingerprint

datatype identity_error = IdGenerate | IdIo | IdInvalid string

definition from_pem :: "'k pem_lib \<Rightarrow> (bytes \<Rightarrow> fingerprint) \<Rightarrow> bytes \<Rightarrow> identity_error + 'k identity" where
  "from_pem pe of_cert bs =
     (case pe_cert pe bs of
        None \<Rightarrow> Inl (IdInvalid ''no certificate found'')
      | Some cert \<Rightarrow>
          (case pe_key pe bs of
             None \<Rightarrow> Inl (IdInvalid ''no private key found'')
           | Some key \<Rightarrow> Inr \<lparr>idn_cert = cert, idn_key = key, idn_fingerprint = of_cert cert\<rparr>))"

text \<open>The text that is made: the certificate and then the key, or a failure to make one.\<close>

definition generate :: "'k pem_lib \<Rightarrow> (bytes \<Rightarrow> fingerprint) \<Rightarrow> (bytes \<times> bytes) option \<Rightarrow> identity_error + 'k identity" where
  "generate pe of_cert made =
     (case made of None \<Rightarrow> Inl IdGenerate | Some (cert, key) \<Rightarrow> from_pem pe of_cert (cert @ key))"

text \<open>The file: missing, there but not to be read, or its bytes.\<close>

datatype id_file = NoIdentity | NotReadable | Holds bytes

text \<open>
  A write that fails part way leaves what was written so far: \<open>WriteStops n\<close> after \<open>n\<close> bytes,
  \<open>NoCreate\<close> before the file is there (also when its folder cannot be made).
\<close>

datatype write_outcome = WriteOk | NoCreate | WriteStops nat

definition write_private :: "write_outcome \<Rightarrow> bytes \<Rightarrow> id_file \<times> bool" where
  "write_private w bs =
     (case w of WriteOk \<Rightarrow> (Holds bs, True) | NoCreate \<Rightarrow> (NoIdentity, False) | WriteStops n \<Rightarrow> (Holds (take n bs), False))"

definition load_or_create :: "'k pem_lib \<Rightarrow> (bytes \<Rightarrow> fingerprint) \<Rightarrow> (bytes \<times> bytes) option \<Rightarrow> write_outcome \<Rightarrow> id_file
    \<Rightarrow> id_file \<times> (identity_error + 'k identity)" where
  "load_or_create pe of_cert made w f =
     (case f of
        Holds bs \<Rightarrow> (f, from_pem pe of_cert bs)
      | NotReadable \<Rightarrow> (f, Inl IdIo)
      | NoIdentity \<Rightarrow>
          (case made of
             None \<Rightarrow> (f, Inl IdGenerate)
           | Some (cert, key) \<Rightarrow>
               (let pem = cert @ key in
                case write_private w pem of
                  (f, False) \<Rightarrow> (f, Inl IdIo)
                | (f, True) \<Rightarrow> (f, from_pem pe of_cert pem))))"

definition peer_fingerprint :: "(bytes \<Rightarrow> fingerprint) \<Rightarrow> bytes list option \<Rightarrow> fingerprint option" where
  "peer_fingerprint of_cert certs = (case certs of Some (c # _) \<Rightarrow> Some (of_cert c) | _ \<Rightarrow> None)"

section \<open>What the others can rely on\<close>

lemma by_corner_mset [simp]: "mset (by_corner rs) = mset rs"
  by (simp add: by_corner_def)

lemma insort_key_stable:
  fixes f :: "'a \<Rightarrow> 'b :: linorder"
  assumes "sorted_wrt (\<lambda>a b. f a < f b \<or> f a = f b \<and> R a b) xs" "\<forall>y \<in> set xs. R x y"
  shows "sorted_wrt (\<lambda>a b. f a < f b \<or> f a = f b \<and> R a b) (insort_key f x xs)"
  using assms
proof (induction xs)
  case (Cons y ys)
  show ?case
  proof (cases "f x \<le> f y")
    case True
    have "f y < f z \<or> f y = f z \<and> R y z" if "z \<in> set ys" for z using Cons.prems(1) that by simp
    then have "f x < f z \<or> f x = f z \<and> R x z" if "z \<in> set ys" for z using True Cons.prems(2) that by force
    then show ?thesis using True Cons.prems by auto
  next
    case False
    then show ?thesis using Cons by (auto simp: set_insort_key)
  qed
qed simp

lemma sort_key_stable:
  fixes f :: "'a \<Rightarrow> 'b :: linorder"
  assumes "sorted_wrt R xs"
  shows "sorted_wrt (\<lambda>a b. f a < f b \<or> f a = f b \<and> R a b) (sort_key f xs)"
  using assms
proof (induction xs)
  case (Cons x xs)
  then show ?case using insort_key_stable [of f R "sort_key f xs" x] by simp
qed simp

lemma by_corner_sorted: "sorted_wrt (\<lambda>a b. r_x a < r_x b \<or> r_x a = r_x b \<and> r_y a \<le> r_y b) (by_corner rs)"
proof -
  have "sorted_wrt (\<lambda>a b. r_y a \<le> r_y b) (sort_key r_y rs)" using sorted_sort_key [of r_y rs] by (simp add: sorted_wrt_map)
  from sort_key_stable [OF this, of r_x] show ?thesis by (simp add: by_corner_def)
qed

text \<open>Monitors that are announced have a size, are in order, and are just the ones with a size; there is at least one.\<close>

lemma monitors_announced:
  assumes "monitors platform = Inr rs"
  shows "rs \<noteq> []" "\<forall>r \<in> set rs. r_w r > 0 \<and> r_h r > 0"
    "sorted_wrt (\<lambda>a b. r_x a < r_x b \<or> r_x a = r_x b \<and> r_y a \<le> r_y b) rs"
    "\<exists>all. platform = Inr all \<and> mset rs = mset (filter (\<lambda>r. r_w r > 0 \<and> r_h r > 0) all)"
proof -
  obtain all where a: "platform = Inr all" "filter (\<lambda>r. r_w r > 0 \<and> r_h r > 0) all \<noteq> []"
    "rs = by_corner (filter (\<lambda>r. r_w r > 0 \<and> r_h r > 0) all)"
    using assms by (auto simp: monitors_def Let_def split: sum.splits if_splits)
  have m: "mset rs = mset (filter (\<lambda>r. r_w r > 0 \<and> r_h r > 0) all)" using a(3) by simp
  then have "set rs = set (filter (\<lambda>r. r_w r > 0 \<and> r_h r > 0) all)" by (rule mset_eq_setD)
  then show "rs \<noteq> []" "\<forall>r \<in> set rs. r_w r > 0 \<and> r_h r > 0" using a(2) by (force, simp)
  show "sorted_wrt (\<lambda>a b. r_x a < r_x b \<or> r_x a = r_x b \<and> r_y a \<le> r_y b) rs" using a(3) by_corner_sorted by simp
  show "\<exists>all. platform = Inr all \<and> mset rs = mset (filter (\<lambda>r. r_w r > 0 \<and> r_h r > 0) all)" using a(1) m by blast
qed

text \<open>An identity, once there, stays: whatever could be made later, and however writing would go.\<close>

lemma identity_kept:
  assumes "load_or_create pe of_cert made w f = (f', Inr i)"
  shows "load_or_create pe of_cert made' w' f' = (f', Inr i)" "idn_fingerprint i = of_cert (idn_cert i)"
  using assms
  by (auto simp: load_or_create_def write_private_def from_pem_def Let_def
      split: id_file.splits option.splits prod.splits bool.splits write_outcome.splits)

text \<open>A file that is there is never written, whatever it holds.\<close>

lemma identity_not_overwritten:
  "f \<noteq> NoIdentity \<Longrightarrow> fst (load_or_create pe of_cert made w f) = f"
  by (auto simp: load_or_create_def split: id_file.split)

text \<open>
  A write that stops before the key is complete leaves a file that is refused at every start from then on,
  although none of the identity was ever used.
\<close>

lemma stopped_write_refused:
  assumes "load_or_create pe of_cert (Some (cert, key)) (WriteStops n) NoIdentity = (f', res)"
    and "pe_key pe (take n (cert @ key)) = None"
  shows "\<exists>reason. load_or_create pe of_cert made w f' = (f', Inl (IdInvalid reason))"
  using assms by (auto simp: load_or_create_def write_private_def from_pem_def split: option.split)

end
