(* ===== verification/Command_Line.thy ===== *)
theory Command_Line
  imports App_Session Known Key_Setup_Spec
begin

text \<open>
  The command line: what \<^verbatim>\<open>apps/cli/src/main.rs\<close> makes of its arguments, and the terminal window that runs
  it (\<^verbatim>\<open>apps/desktop/src-tauri/src/terminal.rs\<close>).
\<close>

section \<open>Monitors given by hand\<close>

text \<open>\<^verbatim>\<open>str::parse::<i32>()\<close>: an optional sign, at least one digit, within the range.\<close>

definition parse_i32 :: "string \<Rightarrow> int option" where
  "parse_i32 s =
     (case s of
        c # ds \<Rightarrow> if c = CHR ''-'' then (if ds = [] then None else map_option (\<lambda>n. - int n) (case read_digits 0 ds of Some n \<Rightarrow> if n \<le> 2147483648 then Some n else None | None \<Rightarrow> None))
                  else map_option int (parse_nat 2147483647 s)
      | [] \<Rightarrow> None)"

definition parse_geometry :: "string \<Rightarrow> rect option" where
  "parse_geometry part = do {
     (sz, pos) \<leftarrow> split_once (CHR ''+'') (trim part);
     (w, h) \<leftarrow> split_once (CHR ''x'') sz;
     (x, y) \<leftarrow> split_once (CHR ''+'') pos;
     x \<leftarrow> parse_i32 x; y \<leftarrow> parse_i32 y; w \<leftarrow> parse_i32 w; h \<leftarrow> parse_i32 h;
     if w \<le> 0 \<or> h \<le> 0 then None else Some (Rect x y w h) }"

fun all_geometries :: "string list \<Rightarrow> string + rect list" where
  "all_geometries [] = Inr []"
| "all_geometries (part # parts) =
     (case parse_geometry part of
        None \<Rightarrow> Inl part
      | Some r \<Rightarrow> (case all_geometries parts of Inl e \<Rightarrow> Inl e | Inr rs \<Rightarrow> Inr (r # rs)))"

definition parse_monitors :: "string \<Rightarrow> string + rect list" where
  "parse_monitors s = all_geometries (split_on (CHR '','') s)"

section \<open>The flags\<close>

record server_flags =
  sf_demo :: bool
  sf_no_capture :: bool
  sf_no_tls :: bool
  sf_identity_dir :: "string option"

text \<open>The configuration the server runs with, and whether it captures.\<close>

definition cli_server :: "server_flags \<Rightarrow> 'ip config \<Rightarrow> 'ip config \<times> bool" where
  "cli_server fl cfg =
     (let cfg = cfg\<lparr>cf_demo := sf_demo fl\<rparr>;
          cfg = (if sf_no_tls fl then cfg\<lparr>cf_tls := False\<rparr> else cfg);
          cfg = cfg\<lparr>cf_identity_dir := sf_identity_dir fl\<rparr>
      in (cfg, \<not> (sf_demo fl \<or> sf_no_capture fl)))"

record client_flags =
  cl_name :: string
  cl_server :: string
  cl_dry_run :: bool
  cl_no_reconnect :: bool
  cl_no_tls :: bool
  cl_identity_dir :: "string option"
  cl_server_fingerprint :: "string option"
  cl_no_clipboard :: bool
  cl_no_clipboard_files :: bool
  cl_monitors :: "string option"

datatype flag_error = BadMonitors string | BadFingerprint | NoHome

text \<open>
  The options the client runs with and, with TLS, the folder of the known servers and the fingerprint that
  was given up front. \<open>injects\<close> is whether the program was built to.
\<close>

definition cli_client :: "bool \<Rightarrow> string option \<Rightarrow> client_flags \<Rightarrow> flag_error + client_options \<times> (string \<times> fingerprint option) option" where
  "cli_client injects default_dir fl =
     (case (case cl_monitors fl of None \<Rightarrow> Inr None
            | Some s \<Rightarrow> (case parse_monitors s of Inl p \<Rightarrow> Inl (BadMonitors p) | Inr rs \<Rightarrow> Inr (Some rs))) of
        Inl e \<Rightarrow> Inl e
      | Inr mons \<Rightarrow>
          (case (case cl_server_fingerprint fl of None \<Rightarrow> Inr None
                 | Some s \<Rightarrow> (case fp_parse s of None \<Rightarrow> Inl BadFingerprint | Some fp \<Rightarrow> Inr (Some fp))) of
             Inl e \<Rightarrow> Inl e
           | Inr forced \<Rightarrow>
               (let opts = \<lparr>co_server = cl_server fl, co_name = cl_name fl, co_log_only = cl_dry_run fl \<or> \<not> injects,
                            co_reconnect = \<not> cl_no_reconnect fl, co_tls = \<not> cl_no_tls fl, co_identity_dir = cl_identity_dir fl,
                            co_monitors = mons, co_clipboard = \<not> cl_no_clipboard fl,
                            co_clipboard_files = \<not> cl_no_clipboard_files fl\<rparr>
                in if cl_no_tls fl then Inr (opts, None)
                   else case (case cl_identity_dir fl of Some dir \<Rightarrow> Some dir | None \<Rightarrow> default_dir) of
                     None \<Rightarrow> Inl NoHome
                   | Some dir \<Rightarrow> Inr (opts, Some (dir, forced)))))"

section \<open>A typed line\<close>

text \<open>
  The words of a line, over code points: the words so far, the one under way and whether there is one, and
  the quote that is open.
\<close>

fun split_words :: "string list \<Rightarrow> nat list \<Rightarrow> bool \<Rightarrow> nat option \<Rightarrow> nat list \<Rightarrow> string list option" where
  "split_words args cur has None [] = Some (if has then args @ [utf8_encode cur] else args)"
| "split_words args cur has (Some q) [] = None"
| "split_words args cur has (Some q) (c # cs) =
     (if c = q then split_words args cur has None cs else split_words args (cur @ [c]) has (Some q) cs)"
| "split_words args cur has None (c # cs) =
     (if c = 34 \<or> c = 39 then split_words args cur True (Some c) cs
      else if is_whitespace c then (if has then split_words (args @ [utf8_encode cur]) [] False None cs else split_words args cur has None cs)
      else split_words args (cur @ [c]) True None cs)"

definition split_args :: "string \<Rightarrow> string list option" where
  "split_args line = split_words [] [] False None (chars line)"

definition without_own_name :: "string list \<Rightarrow> string list" where
  "without_own_name args =
     (case args of
        a # rest \<Rightarrow> if to_ascii_lower a \<in> {''geserdesk'', ''geserdesk.exe''} then rest else args
      | [] \<Rightarrow> [])"

section \<open>The terminal\<close>

text \<open>
  One program at a time. What was started is logged with its number; a program that was killed is still the
  current one until the thread that waits for it has seen its end.
\<close>

record terminal =
  tm_current :: "nat option"
  tm_next :: nat
  tm_started :: "(nat \<times> string list) list"
  tm_killed :: "nat list"
  tm_ended :: "nat list"

definition terminal_new :: terminal where
  "terminal_new = \<lparr>tm_current = None, tm_next = 0, tm_started = [], tm_killed = [], tm_ended = []\<rparr>"

datatype terminal_error = OpenQuote | StillRunning | NoProgram

definition terminal_run :: "bool \<Rightarrow> string \<Rightarrow> terminal \<Rightarrow> terminal \<times> (terminal_error + nat)" where
  "terminal_run spawns line t =
     (case split_args line of
        None \<Rightarrow> (t, Inl OpenQuote)
      | Some args \<Rightarrow>
          (let args = without_own_name args in
           if tm_current t \<noteq> None then (t, Inl StillRunning)
           else if \<not> spawns then (t, Inl NoProgram)
           else (let n = u64 (tm_next t + 1)
                 in (t\<lparr>tm_next := n, tm_current := Some n, tm_started := tm_started t @ [(n, args)]\<rparr>, Inr n))))"

definition terminal_kill :: "terminal \<Rightarrow> terminal" where
  "terminal_kill t = (case tm_current t of None \<Rightarrow> t | Some n \<Rightarrow> t\<lparr>tm_killed := tm_killed t @ [n]\<rparr>)"

text \<open>The thread that waits for program \<open>n\<close> has seen its end.\<close>

definition terminal_end :: "nat \<Rightarrow> terminal \<Rightarrow> terminal" where
  "terminal_end n t =
     (let t = (if tm_current t = Some n then t\<lparr>tm_current := None\<rparr> else t) in t\<lparr>tm_ended := tm_ended t @ [n]\<rparr>)"

section \<open>Geometry as it is printed\<close>

definition show_i32 :: "int \<Rightarrow> string" where
  "show_i32 n = (if n < 0 then ''-'' @ show_nat (nat (- n)) else show_nat (nat n))"

definition show_geometry :: "rect \<Rightarrow> string" where
  "show_geometry r = show_i32 (r_w r) @ ''x'' @ show_i32 (r_h r) @ ''+'' @ show_i32 (r_x r) @ ''+'' @ show_i32 (r_y r)"

lemma parse_show_i32:
  assumes "is_i32 n"
  shows "parse_i32 (show_i32 n) = Some n"
proof (cases "n < 0")
  case True
  then have "nat (- n) \<le> 2147483648" "int (nat (- n)) = - n" using assms by (auto simp: is_i32_def)
  then show ?thesis using True show_nat_hd [of "nat (- n)"] by (auto simp: show_i32_def parse_i32_def read_show_nat)
next
  case False
  then have n: "nat n \<le> 2147483647" "int (nat n) = n" using assms by (auto simp: is_i32_def)
  obtain c cs where s: "show_nat (nat n) = c # cs" and "is_digit c" using show_nat_hd by blast
  then have c: "c \<noteq> CHR ''-''" by (auto simp: is_digit_def)
  have "show_i32 n = c # cs" using False s by (simp add: show_i32_def)
  moreover have "parse_nat 2147483647 (c # cs) = Some (nat n)" using parse_show_nat [OF n(1)] s by simp
  ultimately show ?thesis using c n(2) by (simp add: parse_i32_def)
qed

lemma show_i32_chars:
  assumes "c \<in> set (show_i32 n)"
  shows "ord c < 128" "c \<noteq> CHR ''+''" "c \<noteq> CHR ''x''" "c \<noteq> CHR '',''" "\<not> is_whitespace (ord c)"
proof -
  have "is_digit c \<or> c = CHR ''-''" using assms show_nat_digits by (auto simp: show_i32_def split: if_splits)
  then show "ord c < 128" "c \<noteq> CHR ''+''" "c \<noteq> CHR ''x''" "c \<noteq> CHR '',''" "\<not> is_whitespace (ord c)"
    by (auto simp: is_digit_def is_whitespace_def)
qed

lemma show_i32_nonempty: "show_i32 n \<noteq> []"
  using show_nat_hd [of "nat n"] by (auto simp: show_i32_def)

definition geometry_ok :: "rect \<Rightarrow> bool" where
  "geometry_ok r \<longleftrightarrow> is_i32 (r_x r) \<and> is_i32 (r_y r) \<and> is_i32 (r_w r) \<and> is_i32 (r_h r) \<and> r_w r > 0 \<and> r_h r > 0"

lemma geometry_trim: "trim (show_geometry r) = show_geometry r"
proof (rule trim_ascii)
  show "\<forall>c \<in> set (show_geometry r). ord c < 128" using show_i32_chars(1) by (auto simp: show_geometry_def)
  show "show_geometry r \<noteq> []" by (simp add: show_geometry_def)
  have "hd (show_geometry r) \<in> set (show_i32 (r_w r))"
    using show_i32_nonempty [of "r_w r"] by (cases "show_i32 (r_w r)") (simp_all add: show_geometry_def)
  then show "\<not> is_whitespace (ord (hd (show_geometry r)))" by (rule show_i32_chars(5))
  have "last (show_geometry r) \<in> set (show_i32 (r_y r))"
    using show_i32_nonempty [of "r_y r"] by (simp add: show_geometry_def)
  then show "\<not> is_whitespace (ord (last (show_geometry r)))" by (rule show_i32_chars(5))
qed

lemma parse_show_geometry:
  assumes "geometry_ok r"
  shows "parse_geometry (show_geometry r) = Some r"
proof -
  have p: "CHR ''+'' \<notin> set (show_i32 n)" "CHR ''x'' \<notin> set (show_i32 n)" for n using show_i32_chars by blast+
  have "split_once (CHR ''+'') (show_geometry r) = Some (show_i32 (r_w r) @ ''x'' @ show_i32 (r_h r), show_i32 (r_x r) @ ''+'' @ show_i32 (r_y r))"
    using split_once_here [of "CHR ''+''" "show_i32 (r_w r) @ ''x'' @ show_i32 (r_h r)"] p by (simp add: show_geometry_def)
  moreover have "split_once (CHR ''x'') (show_i32 (r_w r) @ ''x'' @ show_i32 (r_h r)) = Some (show_i32 (r_w r), show_i32 (r_h r))"
    using split_once_here [OF p(2)] by simp
  moreover have "split_once (CHR ''+'') (show_i32 (r_x r) @ ''+'' @ show_i32 (r_y r)) = Some (show_i32 (r_x r), show_i32 (r_y r))"
    using split_once_here [OF p(1)] by simp
  ultimately show ?thesis using assms by (simp add: parse_geometry_def geometry_trim parse_show_i32 geometry_ok_def)
qed

lemma split_on_cons: "c \<notin> set p \<Longrightarrow> split_on c (p @ c # rest) = p # split_on c rest"
  by (induction p) auto

lemma split_on_join: "ps \<noteq> [] \<Longrightarrow> \<forall>p \<in> set ps. c \<notin> set p \<Longrightarrow> split_on c (join c ps) = ps"
proof (induction ps)
  case (Cons p ps)
  then show ?case by (cases "ps = []") (simp_all add: split_on_single join_Cons split_on_cons)
qed simp

text \<open>Monitors written as they are printed are read back, in their order.\<close>

lemma monitors_read_back:
  assumes "rs \<noteq> []" "\<forall>r \<in> set rs. geometry_ok r"
  shows "parse_monitors (join (CHR '','') (map show_geometry rs)) = Inr rs"
proof -
  have "CHR '','' \<notin> set (show_geometry r)" for r using show_i32_chars(4) by (auto simp: show_geometry_def)
  then have "split_on (CHR '','') (join (CHR '','') (map show_geometry rs)) = map show_geometry rs"
    using assms(1) by (intro split_on_join) auto
  moreover have "all_geometries (map show_geometry rs) = Inr rs"
    using assms(2) by (induction rs) (simp_all add: parse_show_geometry)
  ultimately show ?thesis by (simp add: parse_monitors_def)
qed

text \<open>Whatever is accepted has a size and fits the protocol's integers.\<close>

lemma parse_i32_range: "parse_i32 s = Some n \<Longrightarrow> is_i32 n"
  by (auto simp: parse_i32_def parse_nat_def is_i32_def Let_def split: list.splits option.splits if_splits)

lemma parse_geometry_ok: "parse_geometry part = Some r \<Longrightarrow> geometry_ok r"
  by (auto simp: parse_geometry_def geometry_ok_def parse_i32_range split: Option.bind_splits if_splits)

lemma all_geometries_ok: "all_geometries parts = Inr rs \<Longrightarrow> length rs = length parts \<and> (\<forall>r \<in> set rs. geometry_ok r)"
  by (induction parts arbitrary: rs) (auto simp: parse_geometry_ok split: option.splits sum.splits)

section \<open>Words\<close>

text \<open>Any words at all can be typed: in double quotes, as long as they hold none.\<close>

lemma split_words_quoted:
  "34 \<notin> set cs \<Longrightarrow> split_words args cur True (Some 34) (cs @ 34 # rest) = split_words args (cur @ cs) True None rest"
  by (induction cs arbitrary: cur) auto

lemma split_words_all:
  "\<forall>cs \<in> set css. 34 \<notin> set cs \<Longrightarrow>
   split_words args [] False None (concat (map (\<lambda>cs. 34 # cs @ [34, 32]) css)) = Some (args @ map utf8_encode css)"
proof (induction css arbitrary: args)
  case (Cons cs css)
  have "split_words args [] False None (concat (map (\<lambda>cs. 34 # cs @ [34, 32]) (cs # css)))
      = split_words (args @ [utf8_encode cs]) [] False None (concat (map (\<lambda>cs. 34 # cs @ [34, 32]) css))"
    using split_words_quoted [of cs args "[]" "32 # concat (map (\<lambda>cs. 34 # cs @ [34, 32]) css)"] Cons.prems
    by (simp add: is_whitespace_def)
  then show ?case using Cons by simp
qed simp

lemma quoted_words:
  assumes "\<forall>cs \<in> set css. 34 \<notin> set cs \<and> (\<forall>c \<in> set cs. is_scalar c)"
  shows "split_args (utf8_encode (concat (map (\<lambda>cs. 34 # cs @ [34, 32]) css))) = Some (map utf8_encode css)"
proof -
  have "chars (utf8_encode (concat (map (\<lambda>cs. 34 # cs @ [34, 32]) css))) = concat (map (\<lambda>cs. 34 # cs @ [34, 32]) css)"
    using assms by (intro chars_encode) (auto simp: is_scalar_def)
  then show ?thesis using split_words_all [of css "[]"] assms by (simp add: split_args_def)
qed

section \<open>One program at a time\<close>

definition program_runs :: "terminal \<Rightarrow> nat \<Rightarrow> bool" where
  "program_runs t n \<longleftrightarrow> n \<in> fst ` set (tm_started t) \<and> n \<notin> set (tm_ended t)"

definition numbered :: "terminal \<Rightarrow> bool" where
  "numbered t \<longleftrightarrow> (\<forall>n \<in> fst ` set (tm_started t) \<union> set (tm_ended t). n \<le> tm_next t)"

definition terminal_ok :: "terminal \<Rightarrow> bool" where
  "terminal_ok t \<longleftrightarrow> (\<forall>n. program_runs t n \<longleftrightarrow> tm_current t = Some n) \<and> numbered t"

lemma terminal_ok_new: "terminal_ok terminal_new"
  by (simp add: terminal_ok_def program_runs_def numbered_def terminal_new_def)

lemma terminal_ok_run:
  assumes "terminal_ok t" "tm_next t < 2 ^ 64 - 1" "terminal_run spawns line t = (t', res)"
  shows "terminal_ok t'"
proof (cases "t' = t")
  case False
  have n: "u64 (tm_next t + 1) = tm_next t + 1" using assms(2) by (simp add: u64_def)
  obtain args where c: "tm_current t = None" and t': "t' = t\<lparr>tm_next := tm_next t + 1, tm_current := Some (tm_next t + 1),
      tm_started := tm_started t @ [(tm_next t + 1, args)]\<rparr>"
    using assms(3) False n by (auto simp: terminal_run_def Let_def split: option.splits if_splits)
  have none: "\<not> program_runs t m" for m using assms(1) c by (simp add: terminal_ok_def)
  have fresh: "tm_next t + 1 \<notin> set (tm_ended t)" using assms(1) unfolding terminal_ok_def numbered_def by force
  have "program_runs t' m \<longleftrightarrow> m = tm_next t + 1" for m
    using none [of m] fresh by (auto simp: program_runs_def t')
  moreover have "numbered t'" using assms(1) by (auto simp: terminal_ok_def numbered_def t' le_Suc_eq)
  ultimately show ?thesis by (auto simp: terminal_ok_def t')
qed (simp add: assms(1))

lemma terminal_ok_kill: "terminal_ok t \<Longrightarrow> terminal_ok (terminal_kill t)"
  by (simp add: terminal_ok_def terminal_kill_def program_runs_def numbered_def split: option.split)

lemma terminal_ok_end:
  assumes "terminal_ok t" "n \<in> fst ` set (tm_started t)"
  shows "terminal_ok (terminal_end n t)"
proof -
  have "program_runs (terminal_end n t) m \<longleftrightarrow> program_runs t m \<and> m \<noteq> n" for m
    by (auto simp: program_runs_def terminal_end_def Let_def)
  moreover have "tm_current (terminal_end n t) = Some m \<longleftrightarrow> tm_current t = Some m \<and> m \<noteq> n" for m
    by (auto simp: terminal_end_def Let_def)
  moreover have "numbered (terminal_end n t)"
    using assms by (simp add: terminal_ok_def numbered_def terminal_end_def Let_def)
  ultimately show ?thesis using assms(1) by (simp add: terminal_ok_def)
qed

text \<open>So at most one of the programs that were started has not ended.\<close>

lemma one_program: "terminal_ok t \<Longrightarrow> program_runs t n \<Longrightarrow> program_runs t m \<Longrightarrow> n = m"
  by (simp add: terminal_ok_def)

end
