(* ===== verification/Desktop_App.thy ===== *)
theory Desktop_App
  imports Control_Remote App_Settings
begin

text \<open>
  The desktop app around its window: the state it shares, starting and stopping through a daemon
  (\<^verbatim>\<open>apps/desktop/src-tauri/src/state.rs\<close>), the link that mirrors a daemon (\<^verbatim>\<open>link.rs\<close>) and the commands
  that go to the daemon or to the file (\<^verbatim>\<open>commands/trust.rs\<close>). Drawing windows is not modelled; what asks for
  the person's attention is a list.
\<close>

section \<open>State\<close>

datatype theme = SystemTheme | LightTheme | DarkTheme

datatype language = LangId | LangEn

record app_settings =
  se_mode :: run_kind
  se_client :: client_settings
  se_server_config :: string
  se_theme :: theme
  se_language :: language
  se_keep_days :: nat

datatype notice = MainShown | ApprovalsShown | TransferShown

record app_state =
  as_remote :: "nat option" \<comment> \<open>the connection to the daemon\<close>
  as_status :: app_status
  as_info :: "(daemon_info \<times> bool) option"
  as_transfer :: "transfer_progress option"
  as_settings :: app_settings
  as_tray_ok :: bool
  as_prompt :: "(string \<times> string) option" \<comment> \<open>what the page was told last\<close>
  as_log :: "log_line list"
  as_notices :: "notice list"

definition app_state_new :: "app_settings \<Rightarrow> app_state" where
  "app_state_new se =
     \<lparr>as_remote = None, as_status = SStopped, as_info = None, as_transfer = None, as_settings = se, as_tray_ok = False,
      as_prompt = None, as_log = [], as_notices = []\<rparr>"

definition spec_for :: "bool \<Rightarrow> app_settings \<Rightarrow> start_spec" where
  "spec_for no_capture se =
     (case se_mode se of
        RunClient \<Rightarrow> StartClient (options_from (se_client se))
      | RunServer \<Rightarrow> StartServer (trim (se_server_config se)) (\<not> no_capture))"

fun is_active :: "app_status \<Rightarrow> bool" where
  "is_active SConnecting = True"
| "is_active SConnected = True"
| "is_active (SAwaitingApproval _) = True"
| "is_active (SRetrying _) = True"
| "is_active SServerRunning = True"
| "is_active _ = False"

definition hides_on_close :: "app_state \<Rightarrow> bool" where
  "hides_on_close a = as_tray_ok a"

section \<open>Starting and stopping\<close>

datatype app_error = Attach attach_error | NoSpawn | NotReady attach_error | ByDaemon

text \<open>
  The attempts to reach a daemon that was just started, each with whether it was made before the deadline;
  the flag of the result is that this call started it. Still trying is \<^const>\<open>None\<close>.
\<close>

fun await_daemon :: "((attach_error + daemon_info) \<times> bool) list \<Rightarrow> (app_error + bool) option" where
  "await_daemon [] = None"
| "await_daemon ((Inr i, early) # rest) = Some (Inr True)"
| "await_daemon ((Inl e, early) # rest) = (if e = NotRunning \<and> early then await_daemon rest else Some (Inl (NotReady e)))"

definition app_daemon :: "attach_error + daemon_info \<Rightarrow> bool \<Rightarrow> ((attach_error + daemon_info) \<times> bool) list \<Rightarrow> (app_error + bool) option" where
  "app_daemon now spawns later =
     (case now of
        Inr i \<Rightarrow> Some (Inr False)
      | Inl e \<Rightarrow> if e \<noteq> NotRunning then Some (Inl (Attach e)) else if \<not> spawns then Some (Inl NoSpawn) else await_daemon later)"

text \<open>What is sent to the daemon, and how the start ended.\<close>

definition app_start :: "bool \<Rightarrow> app_settings \<Rightarrow> app_error + bool \<Rightarrow> bool \<Rightarrow> command list \<times> (app_error + unit)" where
  "app_start no_capture se daemon takes =
     (case daemon of
        Inl e \<Rightarrow> ([], Inl e)
      | Inr spawned \<Rightarrow>
          if takes then ([CmdStart (spec_for no_capture se)], Inr ())
          else (CmdStart (spec_for no_capture se) # (if spawned then [CmdShutdown] else []), Inl ByDaemon))"

definition app_stop :: "app_state \<Rightarrow> command list" where
  "app_stop a = (if as_remote a \<noteq> None then [CmdStop] else [])"

definition app_shutdown_daemon :: "app_state \<Rightarrow> command list" where
  "app_shutdown_daemon a = (if as_remote a \<noteq> None then [CmdShutdown] else [])"

section \<open>The link\<close>

definition publish_status :: "app_status \<Rightarrow> app_state \<Rightarrow> app_state" where
  "publish_status st a = a\<lparr>as_status := st\<rparr>"

definition publish_info :: "bool \<Rightarrow> daemon_info option \<Rightarrow> app_state \<Rightarrow> app_state" where
  "publish_info same answer a = (case answer of Some i \<Rightarrow> a\<lparr>as_info := Some (i, same)\<rparr> | None \<Rightarrow> a)"

definition notify :: "notice \<Rightarrow> app_state \<Rightarrow> app_state" where
  "notify n a = a\<lparr>as_notices := as_notices a @ [n]\<rparr>"

definition forget :: "app_state \<Rightarrow> app_state" where
  "forget a = (publish_status SStopped (a\<lparr>as_remote := None, as_info := None\<rparr>))\<lparr>as_prompt := None\<rparr>"

text \<open>An event with what the daemon says about itself after it, events that fell behind, or the end.\<close>

datatype link_event = LkEvent control_event "daemon_info option" | LkLagged nat | LkClosed

definition link_event :: "control_event \<Rightarrow> daemon_info option \<Rightarrow> app_state \<Rightarrow> app_state" where
  "link_event ev answer a =
     (case ev of
        EvStatus st \<Rightarrow> publish_info True answer (publish_status st a)
      | EvPrompt p \<Rightarrow> (let a = a\<lparr>as_prompt := p\<rparr> in if p \<noteq> None then notify MainShown a else a)
      | EvLog l \<Rightarrow> a\<lparr>as_log := as_log a @ [l]\<rparr>
      | EvTransfer p \<Rightarrow>
          (let a = a\<lparr>as_transfer := Some p\<rparr> in if tp_state p = TRunning then notify TransferShown a else a)
      | EvClientRequest name fp addr \<Rightarrow> notify ApprovalsShown a
      | EvClosing \<Rightarrow> a)"

text \<open>Mirroring until the daemon goes away; the flag is whether it is still there.\<close>

fun mirror :: "link_event list \<Rightarrow> app_state \<Rightarrow> app_state \<times> bool" where
  "mirror [] a = (a, True)"
| "mirror (LkClosed # es) a = (forget a, False)"
| "mirror (LkLagged n # es) a = mirror es a"
| "mirror (LkEvent ev answer # es) a = (if ev = EvClosing then (forget a, False) else mirror es (link_event ev answer a))"

text \<open>
  Attaching: \<open>subscribes\<close>, and what the daemon answers about its status, itself, its question and the
  requests that wait.
\<close>

definition attached :: "nat \<Rightarrow> daemon_info \<Rightarrow> bool \<Rightarrow> app_status option \<Rightarrow> daemon_info option \<Rightarrow> (string \<times> string) option option
    \<Rightarrow> bool \<Rightarrow> link_event list \<Rightarrow> app_state \<Rightarrow> app_state \<times> bool" where
  "attached conn i subscribes status answer prompt waiting es a =
     (if \<not> compatible i then
        (let a = publish_info False answer (a\<lparr>as_remote := Some conn\<rparr>)
         in if LkClosed \<in> set es then (forget a, False) else (a, True))
      else if \<not> subscribes then (a, False)
      else
        (let a = a\<lparr>as_remote := Some conn\<rparr>;
             a = publish_status (case status of Some st \<Rightarrow> st | None \<Rightarrow> SStopped) a;
             a = publish_info True answer a;
             a = a\<lparr>as_prompt := (case prompt of Some p \<Rightarrow> p | None \<Rightarrow> None)\<rparr>;
             a = (if waiting then notify ApprovalsShown a else a)
         in mirror es a))"

section \<open>Through the server or in its file\<close>

text \<open>
  What the daemon says of its desk: \<^const>\<open>None\<close> without a daemon or an answer, \<open>Some None\<close> with no server
  running. A command goes to the daemon, or into a file.
\<close>

type_synonym desk_answer = "desk_snapshot option option"

definition config_path :: "string \<Rightarrow> desk_answer \<Rightarrow> app_settings \<Rightarrow> string" where
  "config_path default_path answer se =
     (case (case answer of Some (Some d) \<Rightarrow> dn_config_path d | _ \<Rightarrow> None) of
        Some p \<Rightarrow> p
      | None \<Rightarrow> if trim (se_server_config se) = [] then default_path else trim (se_server_config se))"

datatype routed = ToDaemon command | ToFile string

definition set_screen_disabled :: "string \<Rightarrow> desk_answer \<Rightarrow> desk_answer \<Rightarrow> string \<Rightarrow> bool \<Rightarrow> app_settings \<Rightarrow> routed" where
  "set_screen_disabled default_path answer answer' name disabled se =
     (case answer of
        Some (Some d) \<Rightarrow> ToDaemon (CmdSetDisabled name disabled)
      | _ \<Rightarrow> ToFile (config_path default_path answer' se))"

definition revoke_client :: "string \<Rightarrow> desk_answer \<Rightarrow> desk_answer \<Rightarrow> string \<Rightarrow> app_settings \<Rightarrow> routed" where
  "revoke_client default_path answer answer' name se =
     (case answer of
        Some (Some d) \<Rightarrow> ToDaemon (CmdRevoke name)
      | _ \<Rightarrow> ToFile (config_path default_path answer' se))"

section \<open>What the window shows\<close>

text \<open>The status of the events seen last.\<close>

fun last_status :: "app_status \<Rightarrow> link_event list \<Rightarrow> app_status" where
  "last_status st [] = st"
| "last_status st (LkEvent (EvStatus st') _ # es) = last_status st' es"
| "last_status st (_ # es) = last_status st es"

lemma link_event_status:
  "as_status (link_event ev answer a) = (case ev of EvStatus st \<Rightarrow> st | _ \<Rightarrow> as_status a)"
  by (auto simp: link_event_def publish_status_def publish_info_def notify_def Let_def split: control_event.split option.split)

lemma link_event_remote: "as_remote (link_event ev answer a) = as_remote a"
  by (auto simp: link_event_def publish_status_def publish_info_def notify_def Let_def split: control_event.split option.split)

lemma forget_fields: "as_status (forget a) = SStopped" "as_remote (forget a) = None" "as_info (forget a) = None" "as_prompt (forget a) = None"
  by (simp_all add: forget_def publish_status_def)

lemma mirror_status:
  assumes "mirror es a = (a', there)"
  shows "there \<longrightarrow> as_status a' = last_status (as_status a) es \<and> as_remote a' = as_remote a"
    and "\<not> there \<longrightarrow> as_status a' = SStopped \<and> as_remote a' = None \<and> as_info a' = None \<and> as_prompt a' = None"
proof -
  have "(there \<longrightarrow> as_status a' = last_status (as_status a) es \<and> as_remote a' = as_remote a)
    \<and> (\<not> there \<longrightarrow> as_status a' = SStopped \<and> as_remote a' = None \<and> as_info a' = None \<and> as_prompt a' = None)"
    using assms
  proof (induction es a rule: mirror.induct)
    case (4 ev answer es a)
    then show ?case
      by (cases ev) (auto simp: forget_fields link_event_status link_event_remote split: if_splits)
  qed (auto simp: forget_fields)
  then show "there \<longrightarrow> as_status a' = last_status (as_status a) es \<and> as_remote a' = as_remote a"
    and "\<not> there \<longrightarrow> as_status a' = SStopped \<and> as_remote a' = None \<and> as_info a' = None \<and> as_prompt a' = None" by blast+
qed

text \<open>
  Events that fell behind are gone: a status among them is never shown, and nothing asks for it again, so the
  window keeps the one before until the next change.
\<close>

lemma lagged_status_lost:
  "as_status (fst (mirror [LkEvent (EvStatus SConnected) i, LkLagged 3] a)) = SConnected"
  "as_status (fst (mirror [LkEvent (EvStatus SConnected) i, LkEvent (EvStatus SStopped) i] a)) = SStopped"
  by (simp_all add: link_event_def publish_status_def publish_info_def split: option.split)

text \<open>An attempt to reach a daemon ends, as soon as one is answered, refused or after the deadline.\<close>

lemma await_daemon_ends:
  "(\<exists>x \<in> set later. x \<noteq> (Inl NotRunning, True)) \<Longrightarrow> await_daemon later \<noteq> None"
  by (induction later rule: await_daemon.induct) auto

text \<open>A daemon that was started for nothing is ended again; one that was found never is.\<close>

lemma failed_start:
  assumes "app_daemon now spawns later = Some daemon" "app_start no_capture se daemon takes = (sent, Inl e)"
  shows "CmdShutdown \<in> set sent \<longleftrightarrow> daemon = Inr True"
    and "\<exists>i. now = Inr i \<Longrightarrow> CmdShutdown \<notin> set sent"
  using assms by (auto simp: app_start_def app_daemon_def split: sum.splits if_splits)

text \<open>
  A server that starts between the two questions has its file edited while it goes on with what it read.
\<close>

lemma edited_behind_its_back:
  assumes "dn_config_path d = Some p"
  shows "set_screen_disabled dflt (Some None) (Some (Some d)) name True se = ToFile p"
  using assms by (simp add: set_screen_disabled_def config_path_def)

end
