(* ===== verification/Endpoint.thy ===== *)
theory Endpoint
  imports Control_Remote
begin

text \<open>
  Where a daemon listens and how controllers find it, in the Unix build
  (\<^verbatim>\<open>crates/geserdesk-app/src/control/transport.rs\<close>, with \<^verbatim>\<open>Remote::connect\<close> of \<^verbatim>\<open>remote.rs\<close>): a directory with
  a socket and a file with the token. Every call of the system that others can see is a step of its own, so
  the steps of several processes mix. A socket's name refuses connections when nobody listens behind it.
  Making the directory and the modes of files are left out.
\<close>

section \<open>Names\<close>

definition MAX_SOCKET_PATH :: nat where
  "MAX_SOCKET_PATH = 100"

definition path_push :: "string \<Rightarrow> string \<Rightarrow> string" where
  "path_push d name = (if d = [] \<or> last d = CHR ''/'' then d @ name else d @ CHR ''/'' # name)"

text \<open>Two variables of the environment, and the configuration directory.\<close>

definition default_for_user :: "string option \<Rightarrow> string option \<Rightarrow> string option \<Rightarrow> string option" where
  "default_for_user own xdg config =
     (if own \<noteq> None \<and> own \<noteq> Some [] then own
      else if xdg \<noteq> None \<and> xdg \<noteq> Some [] then map_option (\<lambda>d. path_push d ''geserdesk'') xdg
      else map_option (\<lambda>d. path_push d ''run'') config)"

definition socket_path :: "string \<Rightarrow> string" where
  "socket_path d = path_push d ''control.sock''"

definition token_of :: "bytes \<Rightarrow> string" where
  "token_of raw = concat (map hex2 raw)"

section \<open>Binding\<close>

datatype bind_error = PathTooLong | AnotherDaemon | BindIo

datatype bind_phase = BpNone | BpClear | BpListen | BpToken | BpBound string | BpDropping | BpGone | BpFailed bind_error

text \<open>The process the socket leads to, the token file, and what each process is about.\<close>

record runtime_dir =
  rt_socket :: "nat option"
  rt_token :: "string option"
  rt_phase :: "nat \<Rightarrow> bind_phase"

definition runtime_new :: runtime_dir where
  "runtime_new = \<lparr>rt_socket = None, rt_token = None, rt_phase = (\<lambda>_. BpNone)\<rparr>"

fun listening :: "bind_phase \<Rightarrow> bool" where
  "listening BpToken = True"
| "listening (BpBound _) = True"
| "listening BpDropping = True"
| "listening _ = False"

fun binding :: "bind_phase \<Rightarrow> bool" where
  "binding BpClear = True"
| "binding BpListen = True"
| "binding BpToken = True"
| "binding _ = False"

definition answered :: "runtime_dir \<Rightarrow> bool" where
  "answered s = (case rt_socket s of Some q \<Rightarrow> listening (rt_phase s q) | None \<Rightarrow> False)"

definition rt_to :: "nat \<Rightarrow> bind_phase \<Rightarrow> runtime_dir \<Rightarrow> runtime_dir" where
  "rt_to p b s = s\<lparr>rt_phase := (rt_phase s)(p := b)\<rparr>"

definition bind_probe :: "string \<Rightarrow> nat \<Rightarrow> runtime_dir \<Rightarrow> runtime_dir" where
  "bind_probe dir p s =
     rt_to p (if length (socket_path dir) > MAX_SOCKET_PATH then BpFailed PathTooLong
              else if answered s then BpFailed AnotherDaemon else BpClear) s"

definition bind_clear :: "nat \<Rightarrow> bool \<Rightarrow> runtime_dir \<Rightarrow> runtime_dir" where
  "bind_clear p works s = (if works then rt_to p BpListen (s\<lparr>rt_socket := None\<rparr>) else rt_to p (BpFailed BindIo) s)"

definition bind_listen :: "nat \<Rightarrow> bool \<Rightarrow> runtime_dir \<Rightarrow> runtime_dir" where
  "bind_listen p works s =
     (if works \<and> rt_socket s = None then rt_to p BpToken (s\<lparr>rt_socket := Some p\<rparr>) else rt_to p (BpFailed BindIo) s)"

text \<open>
  A listener that is closed takes its name with it, or leaves it (\<open>reclaims\<close>). When the token cannot be
  made or written, the listener is closed, and \<open>left\<close> is what is in the file then.
\<close>

definition listener_close :: "bool \<Rightarrow> runtime_dir \<Rightarrow> runtime_dir" where
  "listener_close reclaims s = (if reclaims then s\<lparr>rt_socket := None\<rparr> else s)"

datatype token_result = TokenWritten bytes | TokenFailed "string option" bool

definition bind_token :: "nat \<Rightarrow> token_result \<Rightarrow> runtime_dir \<Rightarrow> runtime_dir" where
  "bind_token p r s =
     (case r of
        TokenWritten raw \<Rightarrow> rt_to p (BpBound (token_of raw)) (s\<lparr>rt_token := Some (token_of raw)\<rparr>)
      | TokenFailed left reclaims \<Rightarrow> rt_to p (BpFailed BindIo) (listener_close reclaims (s\<lparr>rt_token := left\<rparr>)))"

text \<open>Dropping a \<open>Bound\<close>: the token file first, then the listener.\<close>

definition bound_drop :: "nat \<Rightarrow> runtime_dir \<Rightarrow> runtime_dir" where
  "bound_drop p s = rt_to p BpDropping (s\<lparr>rt_token := None\<rparr>)"

datatype ep_event =
    EpProbe nat
  | EpClear nat bool
  | EpListen nat bool
  | EpToken nat token_result
  | EpDrop nat
  | EpClose nat bool
  | EpDie nat \<comment> \<open>killed: nothing is cleaned up\<close>

fun ep_step :: "string \<Rightarrow> ep_event \<Rightarrow> runtime_dir \<Rightarrow> runtime_dir option" where
  "ep_step dir (EpProbe p) s = (if rt_phase s p = BpNone then Some (bind_probe dir p s) else None)"
| "ep_step dir (EpClear p works) s = (if rt_phase s p = BpClear then Some (bind_clear p works s) else None)"
| "ep_step dir (EpListen p works) s = (if rt_phase s p = BpListen then Some (bind_listen p works s) else None)"
| "ep_step dir (EpToken p r) s = (if rt_phase s p = BpToken then Some (bind_token p r s) else None)"
| "ep_step dir (EpDrop p) s = (case rt_phase s p of BpBound _ \<Rightarrow> Some (bound_drop p s) | _ \<Rightarrow> None)"
| "ep_step dir (EpClose p reclaims) s =
     (if rt_phase s p = BpDropping then Some (rt_to p BpGone (listener_close reclaims s)) else None)"
| "ep_step dir (EpDie p) s =
     (if binding (rt_phase s p) \<or> listening (rt_phase s p) then Some (rt_to p BpGone s) else None)"

fun ep_run :: "string \<Rightarrow> ep_event list \<Rightarrow> runtime_dir \<Rightarrow> runtime_dir option" where
  "ep_run dir [] s = Some s"
| "ep_run dir (e # es) s = (case ep_step dir e s of None \<Rightarrow> None | Some s \<Rightarrow> ep_run dir es s)"

text \<open>What a controller finds: whom it reaches, and the token it will show there.\<close>

definition remote_connect :: "runtime_dir \<Rightarrow> attach_error + nat \<times> string" where
  "remote_connect s =
     (case rt_token s of
        None \<Rightarrow> Inl NotRunning
      | Some t \<Rightarrow>
          (case rt_socket s of
             Some p \<Rightarrow> if listening (rt_phase s p) then Inr (p, trim t) else Inl NotRunning
           | None \<Rightarrow> Inl NotRunning))"

section \<open>Tokens\<close>

lemma token_ascii: "c \<in> set (token_of raw) \<Longrightarrow> ord c < 128 \<and> \<not> is_whitespace (ord c)"
  by (auto simp: token_of_def hex2_def hex_char_facts)

lemma length_token: "length (token_of raw) = 2 * length raw"
  by (simp add: token_of_def)

lemma trim_token: "trim (token_of raw) = token_of raw"
proof (cases "token_of raw = []")
  case True
  then show ?thesis by (simp add: trim_nothing)
next
  case False
  note a = token_ascii [of _ raw]
  show ?thesis
    by (rule trim_ascii) (use a False in blast, use False in blast, use a [OF hd_in_set [OF False]] in blast,
        use a [OF last_in_set [OF False]] in blast)
qed

text \<open>Different random bytes are different tokens.\<close>

lemma token_of_inj: "token_of raw = token_of raw' \<Longrightarrow> raw = raw'"
  unfolding token_of_def by (drule arg_cong [where f = hex_pairs]) (simp only: hex_pairs_hex2 option.inject)

section \<open>Binding alone\<close>

text \<open>Nobody begins to bind while another process binds.\<close>

fun alone :: "string \<Rightarrow> ep_event list \<Rightarrow> runtime_dir \<Rightarrow> bool" where
  "alone dir [] s = True"
| "alone dir (e # es) s =
     ((case e of EpProbe p \<Rightarrow> (\<forall>q. \<not> binding (rt_phase s q)) | _ \<Rightarrow> True)
      \<and> (case ep_step dir e s of None \<Rightarrow> True | Some s \<Rightarrow> alone dir es s))"

definition one_daemon :: "runtime_dir \<Rightarrow> bool" where
  "one_daemon s \<longleftrightarrow>
     (\<forall>p. listening (rt_phase s p) \<longrightarrow> rt_socket s = Some p)
     \<and> (\<forall>p q. binding (rt_phase s p) \<and> (binding (rt_phase s q) \<or> listening (rt_phase s q)) \<longrightarrow> p = q)
     \<and> (\<forall>p tok. rt_phase s p = BpBound tok \<longrightarrow> rt_token s = Some tok \<and> (\<exists>raw. tok = token_of raw))"

lemma one_daemon_new: "one_daemon runtime_new"
  by (simp add: one_daemon_def runtime_new_def)

text \<open>A step moves one process and leaves the others: what the invariant asks of the move.\<close>

lemma one_daemon_to:
  assumes "one_daemon s"
    and alone: "listening b \<or> binding b \<Longrightarrow> (\<forall>q. q \<noteq> p \<longrightarrow> \<not> listening (rt_phase s q) \<and> \<not> binding (rt_phase s q))"
    and so: "listening b \<Longrightarrow> so = Some p" "so = rt_socket s \<or> (\<forall>q. q \<noteq> p \<longrightarrow> \<not> listening (rt_phase s q))"
    and tk: "tk = rt_token s \<or> (\<forall>q. q \<noteq> p \<longrightarrow> \<not> listening (rt_phase s q))"
    and bound: "\<And>tok. b = BpBound tok \<Longrightarrow> tk = Some tok \<and> (\<exists>raw. tok = token_of raw)"
  shows "one_daemon (rt_to p b (s\<lparr>rt_socket := so, rt_token := tk\<rparr>))" (is "one_daemon ?s")
proof -
  have l: "listening (rt_phase s q) \<Longrightarrow> rt_socket s = Some q" for q using assms(1) by (simp add: one_daemon_def)
  have bb: "binding (rt_phase s q) \<Longrightarrow> binding (rt_phase s r) \<or> listening (rt_phase s r) \<Longrightarrow> q = r" for q r
    using assms(1) by (simp add: one_daemon_def)
  have t: "rt_phase s q = BpBound tok \<Longrightarrow> rt_token s = Some tok \<and> (\<exists>raw. tok = token_of raw)" for q tok
    using assms(1) by (simp add: one_daemon_def)
  have ph: "rt_phase ?s q = (if q = p then b else rt_phase s q)" for q by (simp add: rt_to_def)
  have fields: "rt_socket ?s = so" "rt_token ?s = tk" by (simp_all add: rt_to_def)
  have 1: "rt_socket ?s = Some q" if "listening (rt_phase ?s q)" for q
  proof (cases "q = p")
    case False
    then show ?thesis using that so(2) l [of q] by (auto simp: ph fields)
  qed (use that so(1) in \<open>simp add: ph rt_to_def\<close>)
  have 2: "q = r" if q: "binding (rt_phase ?s q)" and r: "binding (rt_phase ?s r) \<or> listening (rt_phase ?s r)" for q r
  proof (cases "q = p")
    case True
    then show ?thesis using q r alone by (cases "r = p") (auto simp: ph)
  next
    case False
    then show ?thesis using q r alone bb [of q r] by (cases "r = p") (auto simp: ph)
  qed
  have 3: "rt_token ?s = Some tok \<and> (\<exists>raw. tok = token_of raw)" if q: "rt_phase ?s q = BpBound tok" for q tok
  proof (cases "q = p")
    case True
    then show ?thesis using q bound by (simp add: ph rt_to_def)
  next
    case False
    then have "rt_phase s q = BpBound tok" using q by (simp add: ph)
    moreover then have "tk = rt_token s" using tk False listening.simps(2) by metis
    ultimately show ?thesis using t fields by simp
  qed
  show ?thesis unfolding one_daemon_def using 1 2 3 by blast
qed

lemma rt_to_same:
  "rt_to p b s = rt_to p b (s\<lparr>rt_socket := rt_socket s, rt_token := rt_token s\<rparr>)"
  "rt_to p b (s\<lparr>rt_socket := so\<rparr>) = rt_to p b (s\<lparr>rt_socket := so, rt_token := rt_token s\<rparr>)"
  "rt_to p b (s\<lparr>rt_token := tk\<rparr>) = rt_to p b (s\<lparr>rt_socket := rt_socket s, rt_token := tk\<rparr>)"
  by (simp_all add: rt_to_def)

text \<open>One that binds or listens is the only one that does.\<close>

lemma one_daemon_only:
  assumes "one_daemon s" "binding (rt_phase s p)" "q \<noteq> p"
  shows "\<not> listening (rt_phase s q) \<and> \<not> binding (rt_phase s q)"
  using assms unfolding one_daemon_def by blast

lemma one_daemon_listening:
  assumes "one_daemon s" "listening (rt_phase s p)"
  shows "rt_socket s = Some p" "q \<noteq> p \<Longrightarrow> \<not> listening (rt_phase s q)"
proof -
  have l: "listening (rt_phase s q) \<Longrightarrow> rt_socket s = Some q" for q using assms(1) by (simp add: one_daemon_def)
  show "rt_socket s = Some p" by (rule l [OF assms(2)])
  then show "\<not> listening (rt_phase s q)" if "q \<noteq> p" using l [of q] that by auto
qed

text \<open>A process that is done with binding, well or not, asks little.\<close>

lemma one_daemon_failed:
  assumes "one_daemon s" "binding (rt_phase s p) \<or> listening (rt_phase s p)" "\<not> listening b" "\<not> binding b"
  shows "one_daemon (rt_to p b s)" "one_daemon (rt_to p b (s\<lparr>rt_socket := so, rt_token := tk\<rparr>))"
proof -
  have "q \<noteq> p \<Longrightarrow> \<not> listening (rt_phase s q)" for q
    using assms(2) one_daemon_only [OF assms(1)] one_daemon_listening(2) [OF assms(1)] by blast
  then show "one_daemon (rt_to p b (s\<lparr>rt_socket := so, rt_token := tk\<rparr>))"
    by (intro one_daemon_to [OF assms(1)]) (use assms(3,4) in auto)
  show "one_daemon (rt_to p b s)"
    by (subst rt_to_same(1), rule one_daemon_to [OF assms(1)]) (use assms(3,4) in auto)
qed

lemma nobody_answers: "one_daemon s \<Longrightarrow> \<not> answered s \<Longrightarrow> \<not> listening (rt_phase s q)"
  unfolding one_daemon_def answered_def by (auto split: option.splits)

lemma one_daemon_step:
  assumes ok: "one_daemon s" and step: "ep_step dir e s = Some s'"
    and alone: "\<And>p q. e = EpProbe p \<Longrightarrow> \<not> binding (rt_phase s q)"
  shows "one_daemon s'"
proof (cases e)
  case (EpProbe p)
  then have s': "s' = bind_probe dir p s" using step by (auto split: if_splits)
  note free = nobody_answers [OF ok] alone [OF EpProbe]
  have "one_daemon (rt_to p BpClear s)" if "\<not> answered s"
    by (subst rt_to_same(1), rule one_daemon_to [OF ok]) (use free that in auto)
  moreover have "one_daemon (rt_to p (BpFailed e) s)" for e
    by (subst rt_to_same(1), rule one_daemon_to [OF ok]) auto
  ultimately show ?thesis by (simp add: s' bind_probe_def)
next
  case (EpClear p works)
  then have p: "rt_phase s p = BpClear" and s': "s' = bind_clear p works s" using step by (auto split: if_splits)
  note only = one_daemon_only [OF ok, of p, unfolded p, simplified]
  have "one_daemon (rt_to p BpListen (s\<lparr>rt_socket := None\<rparr>))"
    by (subst rt_to_same(2), rule one_daemon_to [OF ok]) (use only in auto)
  then show ?thesis using one_daemon_failed(1) [OF ok, of p] p by (simp add: s' bind_clear_def)
next
  case (EpListen p works)
  then have p: "rt_phase s p = BpListen" and s': "s' = bind_listen p works s" using step by (auto split: if_splits)
  note only = one_daemon_only [OF ok, of p, unfolded p, simplified]
  have "one_daemon (rt_to p BpToken (s\<lparr>rt_socket := Some p\<rparr>))"
    by (subst rt_to_same(2), rule one_daemon_to [OF ok]) (use only in auto)
  then show ?thesis using one_daemon_failed(1) [OF ok, of p] p by (simp add: s' bind_listen_def)
next
  case (EpToken p r)
  then have p: "rt_phase s p = BpToken" and s': "s' = bind_token p r s" using step by (auto split: if_splits)
  note only = one_daemon_only [OF ok, of p, unfolded p, simplified]
  have so: "rt_socket s = Some p" using one_daemon_listening(1) [OF ok, of p] p by simp
  show ?thesis
  proof (cases r)
    case (TokenWritten raw)
    show ?thesis
      unfolding s' bind_token_def TokenWritten token_result.case
      by (subst rt_to_same(3), rule one_daemon_to [OF ok]) (use only so in auto)
  next
    case (TokenFailed left reclaims)
    have "s' = rt_to p (BpFailed BindIo) (s\<lparr>rt_socket := (if reclaims then None else rt_socket s), rt_token := left\<rparr>)"
      by (simp add: s' bind_token_def TokenFailed listener_close_def rt_to_def)
    then show ?thesis using one_daemon_failed(2) [OF ok, of p] p by simp
  qed
next
  case (EpDrop p)
  then obtain tok where p: "rt_phase s p = BpBound tok" and s': "s' = bound_drop p s"
    using step by (auto split: bind_phase.splits)
  note only = one_daemon_listening [OF ok, of p, unfolded p, simplified]
  have "q \<noteq> p \<Longrightarrow> \<not> binding (rt_phase s q)" for q using one_daemon_only [OF ok, of q p] p by auto
  then show ?thesis
    unfolding s' bound_drop_def by (subst rt_to_same(3)) (rule one_daemon_to [OF ok], use only in auto)
next
  case (EpClose p reclaims)
  then have p: "rt_phase s p = BpDropping" and "s' = rt_to p BpGone (listener_close reclaims s)"
    using step by (auto split: if_splits)
  then have s': "s' = rt_to p BpGone (s\<lparr>rt_socket := (if reclaims then None else rt_socket s), rt_token := rt_token s\<rparr>)"
    by (simp add: listener_close_def rt_to_def)
  show ?thesis unfolding s' by (rule one_daemon_failed(2) [OF ok, of p]) (simp_all add: p)
next
  case (EpDie p)
  then show ?thesis using step one_daemon_failed(1) [OF ok, of p BpGone] by (auto split: if_splits)
qed

lemma one_daemon_run: "one_daemon s \<Longrightarrow> alone dir es s \<Longrightarrow> ep_run dir es s = Some s' \<Longrightarrow> one_daemon s'"
proof (induction es arbitrary: s)
  case (Cons e es)
  then obtain s1 where s1: "ep_step dir e s = Some s1" "ep_run dir es s1 = Some s'" by (auto split: option.splits)
  have "one_daemon s1" by (rule one_daemon_step [OF Cons.prems(1) s1(1)]) (use Cons.prems(2) in auto)
  then show ?case using Cons.IH [of s1] Cons.prems(2) s1 by simp
qed simp

text \<open>
  If no two daemons bind at the same time, whatever crashes and ends there are: a daemon that has bound is
  the only one that listens, a controller reaches it with the token it expects, and is greeted.
\<close>

lemma same_token_refl: "same_token t t"
proof -
  have "fold (\<lambda>x d. d) t (0 :: 8 word) = 0" by (induction t) auto
  then show ?thesis by (simp add: same_token_def zip_same_conv_map fold_map comp_def split_def)
qed

theorem controllers_find_the_daemon:
  assumes "alone dir es runtime_new" "ep_run dir es runtime_new = Some s" "rt_phase s p = BpBound tok"
  shows "remote_connect s = Inr (p, tok) \<and> (\<forall>q. listening (rt_phase s q) \<longrightarrow> q = p)
    \<and> (dm_token d = tok \<and> cev_parse env line = Some \<lparr>rq_id = 0, rq_cmd = CmdHello PROTOCOL tok\<rparr>
       \<longrightarrow> cn_phase (fst (greet env line (conn_new c, d))) = Talking False)"
proof -
  have ok: "one_daemon s" by (rule one_daemon_run [OF one_daemon_new assms(1,2)])
  then obtain raw where t: "rt_token s = Some tok" "tok = token_of raw" "rt_socket s = Some p"
    using assms(3) unfolding one_daemon_def by fastforce
  have "q = p" if "listening (rt_phase s q)" for q using ok t(3) that unfolding one_daemon_def by simp
  moreover have "remote_connect s = Inr (p, tok)" by (simp add: remote_connect_def t trim_token assms(3))
  moreover have "cn_phase (fst (greet env line (conn_new c, d))) = Talking False"
    if "dm_token d = tok" "cev_parse env line = Some \<lparr>rq_id = 0, rq_cmd = CmdHello PROTOCOL tok\<rparr>"
    using that by (simp add: greet_def same_token_refl split: prod.split)
  ultimately show ?thesis by blast
qed

definition after_a_crash :: "ep_event list" where
  "after_a_crash =
     [EpProbe 1, EpClear 1 True, EpListen 1 True, EpToken 1 (TokenWritten ''a''), EpProbe 2, EpDie 1,
      EpProbe 3, EpClear 3 True, EpListen 3 True, EpToken 3 (TokenWritten ''b'')]"

lemma controllers_find_the_daemon_witness:
  "\<exists>s. ep_run ''/run/geserdesk'' after_a_crash runtime_new = Some s \<and> rt_phase s 2 = BpFailed AnotherDaemon
     \<and> remote_connect s = Inr (3, ''62'')"
proof -
  have len: "\<not> length (socket_path ''/run/geserdesk'') > MAX_SOCKET_PATH" by code_simp
  have toks: "token_of ''a'' = ''61''" "token_of ''b'' = ''62''" by code_simp+
  obtain s where s: "ep_run ''/run/geserdesk'' after_a_crash runtime_new = Some s"
    "rt_phase s 2 = BpFailed AnotherDaemon" "rt_phase s 3 = BpBound ''62''"
    using len by (simp add: after_a_crash_def runtime_new_def bind_probe_def bind_clear_def bind_listen_def bind_token_def
        rt_to_def answered_def toks)
  have "alone ''/run/geserdesk'' after_a_crash runtime_new"
    using len by (simp add: after_a_crash_def runtime_new_def bind_probe_def bind_clear_def bind_listen_def bind_token_def
        rt_to_def answered_def toks)
  from controllers_find_the_daemon [OF this s(1,3)] show ?thesis using s by blast
qed

section \<open>Binding at the same time\<close>

text \<open>
  Looking whether somebody answers and clearing the name are two calls. Two daemons that start together may
  both come up; the second takes the name of the first, and when the first writes its token last, no
  controller is let in by the one it reaches.
\<close>

definition started_together :: "ep_event list" where
  "started_together =
     [EpProbe 1, EpProbe 2, EpClear 1 True, EpListen 1 True, EpClear 2 True, EpListen 2 True,
      EpToken 2 (TokenWritten ''b''), EpToken 1 (TokenWritten ''a'')]"

lemma two_daemons_started_together:
  "\<exists>s. ep_run ''/run/geserdesk'' started_together runtime_new = Some s
     \<and> rt_phase s 1 = BpBound ''61'' \<and> rt_phase s 2 = BpBound ''62'' \<and> remote_connect s = Inr (2, ''61'')
     \<and> \<not> same_token ''61'' ''62''"
proof -
  have len: "\<not> length (socket_path ''/run/geserdesk'') > MAX_SOCKET_PATH" by code_simp
  have toks: "token_of ''a'' = ''61''" "token_of ''b'' = ''62''" "trim ''61'' = ''61''" "\<not> same_token ''61'' ''62''" by code_simp+
  show ?thesis
    using len by (simp add: started_together_def runtime_new_def bind_probe_def bind_clear_def bind_listen_def bind_token_def
        rt_to_def answered_def toks remote_connect_def)
qed

text \<open>
  The name answers before the token is written. After a crash, a controller that comes in between shows the
  token of the daemon that died: it is turned away, not told to wait.
\<close>

lemma token_of_the_dead:
  "\<exists>s. ep_run ''/run/geserdesk'' (butlast after_a_crash) runtime_new = Some s \<and> remote_connect s = Inr (3, ''61'')"
proof -
  have len: "\<not> length (socket_path ''/run/geserdesk'') > MAX_SOCKET_PATH" by code_simp
  have toks: "token_of ''a'' = ''61''" "trim ''61'' = ''61''" by code_simp+
  show ?thesis
    using len by (simp add: after_a_crash_def runtime_new_def bind_probe_def bind_clear_def bind_listen_def bind_token_def
        rt_to_def answered_def toks remote_connect_def)
qed

end
