(* ===== verification/Controllers.thy ===== *)
theory Controllers
  imports Endpoint Desktop_App Command_Line
begin

text \<open>
  What controllers do with a daemon: the calls of \<^verbatim>\<open>Remote\<close> (\<^verbatim>\<open>crates/geserdesk-app/src/control/remote.rs\<close>),
  the commands \<^verbatim>\<open>status\<close> and \<^verbatim>\<open>stop\<close> (\<^verbatim>\<open>apps/cli/src/control.rs\<close>), the tray and two commands of the window
  (\<^verbatim>\<open>apps/desktop/src-tauri/src\<close>); and the daemon as a process, with its arguments and its exit code
  (\<^verbatim>\<open>daemon.rs\<close>). Each call that is made comes with its answer.
\<close>

section \<open>Calls\<close>

datatype call_error = CallRefused control_error | CallCut | CallNoAnswer | CallUnexpected reply

definition request_result :: "remote_answer \<Rightarrow> call_error + reply" where
  "request_result a =
     (case a of
        Answer (Inr r) \<Rightarrow> Inr r
      | Answer (Inl e) \<Rightarrow> Inl (CallRefused e)
      | Cut \<Rightarrow> Inl CallCut
      | NoAnswer \<Rightarrow> Inl CallNoAnswer)"

text \<open>Each method sends one command; the one kind of reply it takes is the one of \<open>fits\<close>.\<close>

definition fits :: "command \<Rightarrow> reply \<Rightarrow> bool" where
  "fits cmd r =
     (case cmd of
        CmdHello p t \<Rightarrow> False
      | CmdStatus \<Rightarrow> (case r of RStatus _ \<Rightarrow> True | _ \<Rightarrow> False)
      | CmdInfo \<Rightarrow> (case r of RInfo _ \<Rightarrow> True | _ \<Rightarrow> False)
      | CmdDesk \<Rightarrow> (case r of RDesk _ \<Rightarrow> True | _ \<Rightarrow> False)
      | CmdSaveLayout positions sizes \<Rightarrow> (case r of RSaved _ \<Rightarrow> True | _ \<Rightarrow> False)
      | CmdCurrentPrompt \<Rightarrow> (case r of RPrompt _ \<Rightarrow> True | _ \<Rightarrow> False)
      | CmdSharedFiles \<Rightarrow> (case r of RShared _ \<Rightarrow> True | _ \<Rightarrow> False)
      | CmdLogSnapshot \<Rightarrow> (case r of RLog _ \<Rightarrow> True | _ \<Rightarrow> False)
      | _ \<Rightarrow> r = RDone)"

definition remote_call :: "command \<Rightarrow> remote_answer \<Rightarrow> call_error + reply" where
  "remote_call cmd a =
     (case request_result a of
        Inl e \<Rightarrow> Inl e
      | Inr r \<Rightarrow> if fits cmd r then Inr r else Inl (CallUnexpected r))"

section \<open>The daemon as a process\<close>

datatype initial = InitServer | InitClient client_options

record daemon_options =
  do_started_by :: string
  do_exit_on_stop :: bool
  do_idle_timeout :: "nat option"
  do_initial :: "initial option"

definition service_new :: "string \<Rightarrow> bool \<Rightarrow> string \<Rightarrow> log_buffer \<Rightarrow> daemon" where
  "service_new started_by exit_on_stop token lines =
     \<lparr>dm_session = app_new, dm_desks = (\<lambda>_. None), dm_transfers = transfer_new, dm_log = lines,
      dm_started_by = started_by, dm_exit_on_stop = exit_on_stop, dm_token = token, dm_closing = False\<rparr>"

text \<open>What runs as soon as the daemon is up; \<open>c\<close> is the number of the daemon's own calls.\<close>

definition start_initial :: "'ip control_env \<Rightarrow> nat \<Rightarrow> initial option \<Rightarrow> daemon \<Rightarrow> daemon \<times> (control_error + unit)" where
  "start_initial env c i d =
     (case i of
        Some InitServer \<Rightarrow> start_server_config c d
      | Some (InitClient opts) \<Rightarrow> start_client_options env c opts d
      | None \<Rightarrow> (d, Inr ()))"

text \<open>The loop's own events, with what controllers and tasks do to the daemon in between.\<close>

datatype run_event = RunLoop daemon_event | RunOther "daemon \<Rightarrow> daemon"

fun run_loop :: "nat option \<Rightarrow> nat \<Rightarrow> nat \<Rightarrow> run_event list \<Rightarrow> daemon_loop \<Rightarrow> daemon_loop" where
  "run_loop idle started c [] dl = dl"
| "run_loop idle started c (RunLoop e # es) dl = run_loop idle started c es (daemon_step idle started c e dl)"
| "run_loop idle started c (RunOther f # es) dl = run_loop idle started c es (dl\<lparr>dl_daemon := f (dl_daemon dl)\<rparr>)"

datatype daemon_end = EndNoChannel | EndNotStarted control_error | EndFailed | EndWell

text \<open>\<open>bound\<close> is the token of the channel, if it opened; still running is \<^const>\<open>None\<close>.\<close>

definition daemon_run :: "'ip control_env \<Rightarrow> nat \<Rightarrow> daemon_options \<Rightarrow> log_buffer \<Rightarrow> string option \<Rightarrow> nat \<Rightarrow> run_event list \<Rightarrow> daemon_end option" where
  "daemon_run env c opts lines bound started es =
     (case bound of
        None \<Rightarrow> Some EndNoChannel
      | Some token \<Rightarrow>
          (case start_initial env c (do_initial opts) (service_new (do_started_by opts) (do_exit_on_stop opts) token lines) of
             (d, Inl e) \<Rightarrow> Some (EndNotStarted e)
           | (d, Inr _) \<Rightarrow>
               (let dl = run_loop (do_idle_timeout opts) started c es \<lparr>dl_daemon = d, dl_ended_at = None, dl_over = False\<rparr>
                in if \<not> dl_over dl then None else Some (if daemon_failed (dl_daemon dl) then EndFailed else EndWell))))"

definition wants_daemon :: "string list \<Rightarrow> bool" where
  "wants_daemon args \<longleftrightarrow> ''--daemon'' \<in> set args"

text \<open>Milliseconds, as everywhere.\<close>

definition idle_of :: "string list \<Rightarrow> nat option" where
  "idle_of args =
     (case dropWhile (\<lambda>a. a \<noteq> ''--idle-timeout-secs'') args of
        _ # v # _ \<Rightarrow> map_option ((*) 1000) (parse_nat (2 ^ 64 - 1) v)
      | _ \<Rightarrow> None)"

definition daemon_args :: "string list \<Rightarrow> daemon_options" where
  "daemon_args args =
     \<lparr>do_started_by = ''app'', do_exit_on_stop = (''--exit-on-stop'' \<in> set args), do_idle_timeout = idle_of args, do_initial = None\<rparr>"

definition run_cli :: "bool \<Rightarrow> daemon_end \<Rightarrow> nat" where
  "run_cli has_dir e = (if has_dir \<and> e = EndWell then 0 else 1)"

definition DAEMON_IDLE_SECS :: string where
  "DAEMON_IDLE_SECS = ''30''"

definition spawn_args :: "string list" where
  "spawn_args = [''--daemon'', ''--exit-on-stop'', ''--idle-timeout-secs'', DAEMON_IDLE_SECS]"

section \<open>The command line\<close>

datatype cli_line =
    LineNoDaemon
  | LineDaemon nat string string
  | LineSession run_kind app_status
  | LineNoSession
  | LineScreen string bool bool nat point bool
  | LineWaiting string string
  | LineStopped

datatype cli_failure = CliNoDir | CliAttach attach_error | CliCall call_error

datatype cli_attached = Attached daemon_info | ExitCode nat | Failure cli_failure

definition cli_attach :: "bool \<Rightarrow> attach_error + daemon_info \<Rightarrow> cli_line list \<times> cli_attached" where
  "cli_attach has_dir conn =
     (if \<not> has_dir then ([], Failure CliNoDir)
      else case conn of
             Inr i \<Rightarrow> ([], Attached i)
           | Inl NotRunning \<Rightarrow> ([LineNoDaemon], ExitCode 1)
           | Inl e \<Rightarrow> ([], Failure (CliAttach e)))"

definition desk_lines :: "desk_snapshot \<Rightarrow> cli_line list" where
  "desk_lines dn =
     map (\<lambda>s. LineScreen (vw_name s) (vw_local s) (vw_connected s) (length (vw_monitors s)) (vw_origin s) (vw_trusted_fingerprint s \<noteq> None)) (dn_screens dn)
     @ map (\<lambda>p. LineWaiting (pv_name p) (pv_fingerprint p)) (dn_pending dn)"

text \<open>The answer to each command is asked for only when it is sent.\<close>

definition cli_status :: "cli_line list \<times> cli_attached \<Rightarrow> (command \<Rightarrow> remote_answer) \<Rightarrow> cli_line list \<times> (cli_failure + nat)" where
  "cli_status att ask =
     (case att of
        (out, ExitCode n) \<Rightarrow> (out, Inr n)
      | (out, Failure e) \<Rightarrow> (out, Inl e)
      | (out, Attached _) \<Rightarrow>
          (case remote_call CmdInfo (ask CmdInfo) of
             Inr (RInfo i) \<Rightarrow>
               (let out = out @ [LineDaemon (di_pid i) (di_version i) (di_started_by i)];
                    session = (case di_mode i of
                       None \<Rightarrow> Inr [LineNoSession]
                     | Some m \<Rightarrow> (case remote_call CmdStatus (ask CmdStatus) of
                                    Inr (RStatus st) \<Rightarrow> Inr [LineSession m st] | Inr r \<Rightarrow> Inl (CallUnexpected r) | Inl e \<Rightarrow> Inl e))
                in case session of
                     Inl e \<Rightarrow> (out, Inl (CliCall e))
                   | Inr ls \<Rightarrow>
                       (case remote_call CmdDesk (ask CmdDesk) of
                          Inr (RDesk dn) \<Rightarrow> (out @ ls @ (case dn of Some dn \<Rightarrow> desk_lines dn | None \<Rightarrow> []), Inr 0)
                        | Inr r \<Rightarrow> (out @ ls, Inl (CliCall (CallUnexpected r)))
                        | Inl e \<Rightarrow> (out @ ls, Inl (CliCall e))))
           | Inr r \<Rightarrow> (out, Inl (CliCall (CallUnexpected r)))
           | Inl e \<Rightarrow> (out, Inl (CliCall e))))"

text \<open>Waiting for the connection to end once the daemon took the command; \<open>closes\<close>: it did.\<close>

definition cli_stop :: "cli_line list \<times> cli_attached \<Rightarrow> remote_answer \<Rightarrow> bool \<Rightarrow> (cli_line list \<times> (cli_failure + nat)) option" where
  "cli_stop att got closes =
     (case att of
        (out, ExitCode n) \<Rightarrow> Some (out, Inr n)
      | (out, Failure e) \<Rightarrow> Some (out, Inl e)
      | (out, Attached _) \<Rightarrow>
          (case remote_call CmdShutdown got of
             Inl e \<Rightarrow> Some (out, Inl (CliCall e))
           | Inr _ \<Rightarrow> if closes then Some (out @ [LineStopped], Inr 0) else None))"

section \<open>The tray and the window\<close>

datatype tray_icon = IdleIcon | OnIcon | ErrorIcon

fun tray_look :: "app_status \<Rightarrow> tray_icon \<times> bool" where
  "tray_look SConnected = (OnIcon, True)"
| "tray_look SServerRunning = (OnIcon, True)"
| "tray_look SConnecting = (IdleIcon, True)"
| "tray_look (SAwaitingApproval _) = (IdleIcon, True)"
| "tray_look (SRetrying _) = (IdleIcon, True)"
| "tray_look SStopped = (IdleIcon, False)"
| "tray_look (SFatal _) = (ErrorIcon, False)"
| "tray_look (SError _) = (ErrorIcon, False)"

text \<open>The verb and the part the tray's entry names.\<close>

definition tray_entry :: "app_state \<Rightarrow> bool \<times> run_kind" where
  "tray_entry a =
     (snd (tray_look (as_status a)),
      case (case as_info a of Some (i, _) \<Rightarrow> di_mode i | None \<Rightarrow> None) of Some m \<Rightarrow> m | None \<Rightarrow> se_mode (as_settings a))"

text \<open>What the entry does, with the answers a start gets; \<open>daemon\<close> and \<open>takes\<close> as in \<^const>\<open>app_start\<close>.\<close>

definition toggle_session :: "bool \<Rightarrow> app_error + bool \<Rightarrow> bool \<Rightarrow> bool \<Rightarrow> app_state \<Rightarrow> command list \<times> app_state" where
  "toggle_session no_capture daemon takes stops a =
     (if is_active (as_status a)
      then (app_stop a, if as_remote a \<noteq> None \<and> \<not> stops then notify MainShown a else a)
      else (case app_start no_capture (as_settings a) daemon takes of
              (cmds, r) \<Rightarrow> (cmds, case r of Inl _ \<Rightarrow> notify MainShown a | Inr _ \<Rightarrow> a)))"

definition quit :: "bool \<Rightarrow> app_state \<Rightarrow> command list" where
  "quit stop_session a = (if stop_session then app_shutdown_daemon a else [])"

text \<open>\<open>None\<close> is that there is no daemon to ask.\<close>

definition cmd_desk_state :: "app_state \<Rightarrow> remote_answer \<Rightarrow> call_error + reply" where
  "cmd_desk_state a got = (if as_remote a \<noteq> None then remote_call CmdDesk got else Inr (RDesk None))"

definition cmd_save_layout :: "app_state \<Rightarrow> (string, point) bmap \<Rightarrow> (string, size2 option) bmap \<Rightarrow> remote_answer \<Rightarrow> (call_error + reply) option" where
  "cmd_save_layout a positions sizes got =
     (if as_remote a \<noteq> None then Some (remote_call (CmdSaveLayout positions sizes) got) else None)"

section \<open>Answers fit\<close>

lemma on_desk_reply:
  assumes "on_desk d f = Some (d', Inr r)" "\<And>ds ds' r. f ds = Some (ds', Inr r) \<Longrightarrow> P r"
  shows "P r"
proof -
  obtain t ds ds' q where f: "f ds = Some (ds', q)" "Inr r = map_sum CeDesk id q"
    using assms(1) by (auto simp: on_desk_def split: option.splits prod.splits)
  then show ?thesis using assms(2) [of ds ds' r] by (cases q) auto
qed

lemma done_with_reply: "done_with x = Some (ds, Inr r) \<Longrightarrow> r = RDone"
  by (cases "snd x") (auto simp: done_with_def)

lemma saved_reply:
  fixes x :: "(desk_state \<times> (admin_error + bool)) option"
  assumes "map_option (\<lambda>(ds, r). (ds, map_sum id RSaved r)) x = Some (ds', Inr r)"
  shows "\<exists>b. r = RSaved b"
proof -
  obtain q :: "admin_error + bool" where "map_sum id RSaved q = Inr r" using assms by (cases x) auto
  then show ?thesis by (cases q) auto
qed

text \<open>The daemon answers each command with the one kind of reply the method that sent it takes.\<close>

lemma answers_fit:
  assumes "dispatch env c cmd d = Some (d', Inr r)"
  shows "fits cmd r"
proof (cases cmd)
  case (CmdStart spec)
  then show ?thesis
    using assms by (cases "snd (service_start env c spec d)") (auto simp: dispatch_def fits_def split: prod.splits)
next
  case (CmdSaveLayout positions sizes)
  have "\<exists>b. r = RSaved b"
    by (rule on_desk_reply [OF assms [unfolded dispatch_def CmdSaveLayout command.case]]) (rule saved_reply)
  then show ?thesis by (auto simp: fits_def CmdSaveLayout)
next
  case (CmdApprove name fp)
  have "r = RDone"
    by (rule on_desk_reply [OF assms [unfolded dispatch_def CmdApprove command.case]]) (rule done_with_reply)
  then show ?thesis by (simp add: fits_def CmdApprove)
next
  case (CmdDismiss name fp)
  have "r = RDone"
    by (rule on_desk_reply [OF assms [unfolded dispatch_def CmdDismiss command.case]]) (rule done_with_reply)
  then show ?thesis by (simp add: fits_def CmdDismiss)
next
  case (CmdRevoke name)
  have "r = RDone"
    by (rule on_desk_reply [OF assms [unfolded dispatch_def CmdRevoke command.case]]) (rule done_with_reply)
  then show ?thesis by (simp add: fits_def CmdRevoke)
next
  case (CmdSetDisabled name off)
  have "r = RDone"
    by (rule on_desk_reply [OF assms [unfolded dispatch_def CmdSetDisabled command.case]]) (rule done_with_reply)
  then show ?thesis by (simp add: fits_def CmdSetDisabled)
next
  case CmdDesk
  then show ?thesis using assms by (auto simp: dispatch_def fits_def split: option.splits prod.splits)
qed (use assms in \<open>auto simp: dispatch_def fits_def Let_def split: prod.splits\<close>)

text \<open>So no method is ever given a reply it does not know, whatever line brought its command.\<close>

lemma calls_are_understood:
  assumes "answer_line env limited line (cn, d) = Some (cn', d')" "cev_parse env line = Some rq"
  shows "\<exists>a. cn_sent cn' = cn_sent cn @ [Response (rq_id rq) a] \<and> (\<forall>r. remote_call (rq_cmd rq) (Answer a) \<noteq> Inl (CallUnexpected r))"
proof (cases "limited \<and> rq_cmd rq \<noteq> CmdInfo \<and> rq_cmd rq \<noteq> CmdShutdown")
  case True
  then show ?thesis using assms by (auto simp: answer_line_def conn_send_def remote_call_def request_result_def)
next
  case False
  then obtain a where a: "dispatch env (cn_no cn) (rq_cmd rq) d = Some (d', a)" "cn_sent cn' = cn_sent cn @ [Response (rq_id rq) a]"
    using assms by (auto simp: answer_line_def conn_send_def split: option.splits prod.splits)
  have "remote_call (rq_cmd rq) (Answer a) \<noteq> Inl (CallUnexpected r)" for r
    using answers_fit [of env "cn_no cn" "rq_cmd rq" d d'] a(1)
    by (cases a) (auto simp: remote_call_def request_result_def)
  then show ?thesis using a(2) by blast
qed

text \<open>A command line that reached a daemon and was answered by it prints its status.\<close>

lemma status_is_printed:
  assumes "ask CmdInfo = Answer (Inr (RInfo i))" "ask CmdStatus = Answer (Inr (RStatus st))" "ask CmdDesk = Answer (Inr (RDesk dn))"
  shows "cli_status ([], Attached j) ask =
    (LineDaemon (di_pid i) (di_version i) (di_started_by i)
      # (case di_mode i of Some m \<Rightarrow> LineSession m st | None \<Rightarrow> LineNoSession)
      # (case dn of Some dn \<Rightarrow> desk_lines dn | None \<Rightarrow> []), Inr 0)"
  using assms by (cases "di_mode i"; cases dn) (simp_all add: cli_status_def remote_call_def request_result_def fits_def)

section \<open>The daemon of the app\<close>

text \<open>What the app starts is a daemon that ends with its session, or after thirty seconds without one.\<close>

lemma spawned_daemon:
  "wants_daemon spawn_args"
  "daemon_args spawn_args = \<lparr>do_started_by = ''app'', do_exit_on_stop = True, do_idle_timeout = Some 30000, do_initial = None\<rparr>"
proof -
  show "wants_daemon spawn_args" by (simp add: wants_daemon_def spawn_args_def)
  have "parse_nat (2 ^ 64 - 1) ''30'' = Some 30" by code_simp
  then show "daemon_args spawn_args = \<lparr>do_started_by = ''app'', do_exit_on_stop = True, do_idle_timeout = Some 30000, do_initial = None\<rparr>"
    by (simp add: daemon_args_def idle_of_def spawn_args_def DAEMON_IDLE_SECS_def)
qed

definition waits_idle :: "daemon_loop \<Rightarrow> bool" where
  "waits_idle dl \<longleftrightarrow> ap_running (dm_session (dl_daemon dl)) = None \<and> ap_started (dm_session (dl_daemon dl)) = 0
     \<and> ap_status (dm_session (dl_daemon dl)) = SStopped"

lemma idle_tick:
  assumes "waits_idle dl" "\<not> dl_over dl"
  shows "waits_idle (daemon_step (Some t) started c (DeTick now) dl)"
    and "dl_over (daemon_step (Some t) started c (DeTick now) dl) \<longleftrightarrow> t \<le> now - started"
  using assms by (simp_all add: waits_idle_def daemon_step_def daemon_tick_def is_running_def Let_def close_def)

text \<open>
  With controllers that look at it and start nothing, it is there until the first look after thirty seconds,
  and ends well then.
\<close>

definition only_looked_at :: "run_event \<Rightarrow> bool" where
  "only_looked_at e = (case e of RunLoop (DeTick _) \<Rightarrow> True | RunLoop _ \<Rightarrow> False | RunOther f \<Rightarrow> \<forall>d. dm_session (f d) = dm_session d)"

lemma run_loop_over: "dl_over dl \<Longrightarrow> waits_idle dl \<Longrightarrow> \<forall>e \<in> set es. only_looked_at e \<Longrightarrow>
    dl_over (run_loop idle started c es dl) \<and> waits_idle (run_loop idle started c es dl)"
proof (induction es arbitrary: dl)
  case (Cons e es)
  show ?case
  proof (cases e)
    case (RunLoop de)
    then show ?thesis using Cons by (simp add: daemon_step_def)
  next
    case (RunOther f)
    then show ?thesis using Cons.IH [of "dl\<lparr>dl_daemon := f (dl_daemon dl)\<rparr>"] Cons.prems by (simp add: only_looked_at_def waits_idle_def)
  qed
qed simp

lemma run_loop_idle:
  assumes "waits_idle dl" "\<not> dl_over dl" "\<forall>e \<in> set es. only_looked_at e"
  shows "waits_idle (run_loop (Some t) started c es dl)
    \<and> (dl_over (run_loop (Some t) started c es dl) \<longleftrightarrow> (\<exists>now. RunLoop (DeTick now) \<in> set es \<and> t \<le> now - started))"
  using assms
proof (induction es arbitrary: dl)
  case (Cons e es)
  have rest: "\<forall>e \<in> set es. only_looked_at e" using Cons.prems by simp
  show ?case
  proof (cases e)
    case (RunLoop de)
    then obtain now where e: "e = RunLoop (DeTick now)" using Cons.prems(3) by (cases de) (auto simp: only_looked_at_def)
    note tick = idle_tick [OF Cons.prems(1,2), of t started c now]
    show ?thesis
    proof (cases "t \<le> now - started")
      case True
      then show ?thesis using run_loop_over [OF _ tick(1) rest] tick(2) by (auto simp: e)
    next
      case False
      then show ?thesis using Cons.IH [OF tick(1) _ rest] tick(2) by (auto simp: e)
    qed
  next
    case (RunOther f)
    then show ?thesis using Cons.IH [of "dl\<lparr>dl_daemon := f (dl_daemon dl)\<rparr>", OF _ _ rest] Cons.prems
      by (auto simp: only_looked_at_def waits_idle_def)
  qed
qed simp

lemma unused_daemon_ends:
  assumes "\<forall>e \<in> set es. only_looked_at e"
  shows "daemon_run env c (daemon_args spawn_args) lines (Some token) started es =
    (if \<exists>now. RunLoop (DeTick now) \<in> set es \<and> 30000 \<le> now - started then Some EndWell else None)"
proof -
  let ?d = "service_new ''app'' True token lines"
  let ?dl = "\<lparr>dl_daemon = ?d, dl_ended_at = None, dl_over = False\<rparr>"
  have "waits_idle ?dl" by (simp add: waits_idle_def service_new_def app_new_def)
  note loop = run_loop_idle [OF this _ assms, of 30000 started c, simplified]
  have "\<not> daemon_failed (dl_daemon (run_loop (Some 30000) started c es ?dl))"
    using loop by (simp add: waits_idle_def daemon_failed_def)
  then show ?thesis
    unfolding daemon_run_def spawned_daemon(2) using loop by (simp add: start_initial_def Let_def)
qed

text \<open>A daemon that cannot open its channel or start what it was given ends in failure.\<close>

lemma failing_daemon:
  "run_cli has_dir EndNoChannel = 1" "run_cli has_dir (EndNotStarted e) = 1" "run_cli has_dir EndFailed = 1"
  "run_cli has_dir EndWell = (if has_dir then 0 else 1)"
  by (simp_all add: run_cli_def)

section \<open>Stopping\<close>

text \<open>
  A shutdown that the daemon took, from the command line or the tray, ends the daemon's loop and every
  connection, each told that the daemon closes; the command then says that it stopped.
\<close>

lemma shutdown_ends_daemon:
  assumes "dispatch env c CmdShutdown d = Some (d', r)"
  shows "r = Inr RDone" "dm_closing d'"
    and "dl_daemon dl = d' \<Longrightarrow> dl_over (daemon_step idle started c' DeClosed dl)"
    and "cn_phase cn = Talking limited \<Longrightarrow> \<exists>cn'. conn_step env' CiClosing (cn, d') = Some (cn', d')
          \<and> cn_phase cn' = Gone \<and> cn_sent cn' = cn_sent cn @ [PushedEvent EvClosing]"
    and "cli_stop ([], Attached i) (Answer r) True = Some ([LineStopped], Inr 0)"
proof -
  have d': "d' = close (session_stop c d)" "r = Inr RDone" using assms by (simp_all add: dispatch_def)
  then show "r = Inr RDone" "dm_closing d'" by (simp_all add: close_def)
  then show "dl_daemon dl = d' \<Longrightarrow> dl_over (daemon_step idle started c' DeClosed dl)" by (simp add: daemon_step_def)
  show "\<exists>cn'. conn_step env' CiClosing (cn, d') = Some (cn', d') \<and> cn_phase cn' = Gone \<and> cn_sent cn' = cn_sent cn @ [PushedEvent EvClosing]"
    if "cn_phase cn = Talking limited"
    using that \<open>dm_closing d'\<close> by (simp add: conn_gone_def conn_send_def)
  show "cli_stop ([], Attached i) (Answer r) True = Some ([LineStopped], Inr 0)"
    by (simp add: d'(2) cli_stop_def remote_call_def request_result_def fits_def)
qed

text \<open>The tray says \<^emph>\<open>Stop\<close> exactly when its entry stops, and does nothing else then.\<close>

lemma tray_look_active: "snd (tray_look st) = is_active st"
  by (cases st) auto

lemma tray_does_what_it_says:
  assumes "toggle_session no_capture daemon takes stops a = (cmds, a')"
  shows "fst (tray_entry a) \<Longrightarrow> set cmds \<subseteq> {CmdStop}"
    and "\<not> fst (tray_entry a) \<Longrightarrow> CmdStop \<notin> set cmds"
    and "\<not> fst (tray_entry a) \<Longrightarrow> daemon = Inr spawned \<Longrightarrow> hd cmds = CmdStart (spec_for no_capture (as_settings a))"
  using assms
  by (auto simp: tray_entry_def tray_look_active toggle_session_def app_stop_def app_start_def split: if_splits sum.splits prod.splits)

end
