(* ===== verification/Server_Start.thy ===== *)
theory Server_Start
  imports Net_Spec Admin_Spec Machine
begin

text \<open>
  A server from its configuration to its end (\<^verbatim>\<open>crates/geserdesk-server/src/net.rs\<close>): which parts it
  starts with, in \<^verbatim>\<open>run_server_with_progress\<close>, \<^verbatim>\<open>run_server_shared\<close> and \<^verbatim>\<open>serve_with_hub\<close>, and the loop that
  accepts connections. The sockets, the TLS library and what the machine reports are parameters.
\<close>

section \<open>The parts\<close>

datatype start_failure = NoIdentityDir | NoUsableIdentity identity_error | CaptureFailed | BindFailed

text \<open>The folder of the identity is the one given, else the default one; \<open>load\<close> reads or makes it there.\<close>

definition tls_load :: "string option \<Rightarrow> (string \<Rightarrow> identity_error + fingerprint) \<Rightarrow> string option \<Rightarrow> (string, fingerprint) bmap
    \<Rightarrow> start_failure + tls_context" where
  "tls_load default_dir load dir trusted =
     (case (case dir of Some d \<Rightarrow> Some d | None \<Rightarrow> default_dir) of
        None \<Rightarrow> Inl NoIdentityDir
      | Some d \<Rightarrow>
          (case load d of
             Inl e \<Rightarrow> Inl (NoUsableIdentity e)
           | Inr fp \<Rightarrow> Inr \<lparr>tc_fingerprint = fp, tc_trust = tr_new trusted\<rparr>))"

definition tls_for :: "string option \<Rightarrow> (string \<Rightarrow> identity_error + fingerprint) \<Rightarrow> 'ip config \<Rightarrow> start_failure + tls_context option" where
  "tls_for default_dir load cfg =
     (if \<not> cf_tls cfg then Inr None
      else case tls_load default_dir load (cf_identity_dir cfg) (cf_trusted cfg) of
        Inl e \<Rightarrow> Inl e
      | Inr ctx \<Rightarrow> Inr (Some ctx))"

definition shares_anything :: "options \<Rightarrow> bool" where
  "shares_anything o' \<longleftrightarrow> clipboard_sharing o' \<or> clipboard_files o'"

text \<open>The desktop's clipboard is used only by a server that captures; \<open>opens\<close> is whether it can be opened.\<close>

definition uses_clipboard :: "'ip config \<Rightarrow> bool \<Rightarrow> bool \<Rightarrow> bool" where
  "uses_clipboard cfg capture opens \<longleftrightarrow> capture \<and> shares_anything (cf_options cfg) \<and> opens"

text \<open>
  The router, when input is captured; this machine's monitors; whether the router pulls files for this
  screen and whether copies are relayed. \<open>bounds\<close> is the desktop as the capture backend reported it when
  it started, or its failure to. \<^const>\<open>None\<close> is a panic of the router's arithmetic.
\<close>

record server_parts =
  pt_router :: "core option"
  pt_hub :: hub
  pt_local :: "rect list"
  pt_pulls :: bool
  pt_relays :: bool

definition run_parts :: "'ip config \<Rightarrow> bool \<Rightarrow> rect option \<Rightarrow> monitors_error + rect list \<Rightarrow> bool \<Rightarrow> (start_failure + server_parts) option" where
  "run_parts cfg capture bounds detected clipboard =
     (let h = load_disabled hub_new (cf_disabled cfg);
          parts = (\<lambda>core ms. \<lparr>pt_router = core, pt_hub = h, pt_local = ms, pt_pulls = clipboard \<and> core \<noteq> None,
                     pt_relays = clipboard \<and> shares_anything (cf_options cfg)\<rparr>)
      in if capture then
           (case bounds of
              None \<Rightarrow> Some (Inl CaptureFailed)
            | Some b \<Rightarrow>
                (let ms = (case detected of Inr ms \<Rightarrow> ms | Inl _ \<Rightarrow> [b]) in do {
                   c \<leftarrow> core_new (cf_layout cfg) (cf_policy cfg) (cf_local_screen cfg) ms (cf_positions cfg);
                   c \<leftarrow> with_sizes c (cf_sizes cfg);
                   Some (Inr (parts (Some (with_key_rules c (cf_key_rules cfg))) ms)) }))
         else Some (Inr (parts None (case detected of Inr ms \<Rightarrow> ms | Inl _ \<Rightarrow> [Rect 0 0 1920 1080]))))"

definition run_server :: "'ip config \<Rightarrow> bool \<Rightarrow> rect option \<Rightarrow> monitors_error + rect list \<Rightarrow> bool \<Rightarrow> (start_failure + server_parts) option" where
  "run_server cfg capture bounds detected opens = run_parts cfg capture bounds detected (uses_clipboard cfg capture opens)"

text \<open>
  The desk a front end is handed, and what the accept loop starts with: TLS first, then the listener, and
  only then the desk.
\<close>

record server_up =
  up_tls :: "tls_context option"
  up_desk :: "desk_state option"
  up_server :: server

definition serve_with_hub :: "string option \<Rightarrow> (string \<Rightarrow> identity_error + fingerprint) \<Rightarrow> bool \<Rightarrow> bool \<Rightarrow> document \<Rightarrow> 'ip config
    \<Rightarrow> server_parts \<Rightarrow> start_failure + server_up" where
  "serve_with_hub default_dir load binds ready d cfg p =
     (case tls_for default_dir load cfg of
        Inl e \<Rightarrow> Inl e
      | Inr tls \<Rightarrow>
          if \<not> binds then Inl BindFailed
          else Inr \<lparr>up_tls = tls,
            up_desk = (if ready then Some (ds_set_sizes (ds_new (pt_hub p) (cf_path cfg) (Some d) (cf_local_screen cfg) (pt_local p)
                         (cf_layout cfg) (cf_positions cfg) tls) (cf_sizes cfg)) else None),
            up_server = server_new (map_option tc_trust tls) (froute_new (pt_hub p))\<rparr>)"

section \<open>Accepting\<close>

text \<open>
  Connections are numbered as they come. With TLS one first shakes hands; \<open>ac_shaken\<close> are those that wait
  to say \<open>Hello\<close>, with the fingerprint of the certificate they proved.
\<close>

record accepting =
  ac_secure :: bool
  ac_next :: nat
  ac_shaking :: "nat list"
  ac_shaken :: "(nat \<times> fingerprint option) list"
  ac_server :: server
  ac_stopped :: bool

definition accept_new :: "server_up \<Rightarrow> accepting" where
  "accept_new u =
     \<lparr>ac_secure = (up_tls u \<noteq> None), ac_next = 0, ac_shaking = [], ac_shaken = [], ac_server = up_server u, ac_stopped = False\<rparr>"

text \<open>What came of a TLS handshake: it failed or ran out of time, or the certificates of the peer.\<close>

datatype accept_event =
    AcConnects
  | AcAcceptFails
  | AcTls nat "bytes list option"
  | AcHello nat nat string "nat \<Rightarrow> codec_error option" "codec_error + client_msg"
  | AcSession string "server_msg list \<Rightarrow> codec_error option" session_input
  | AcTrust trust_op
  | AcElsewhere froute_op
  | AcStop

text \<open>Stopping ends every connection where it is; what cannot happen is \<^const>\<open>None\<close>.\<close>

fun accept_step :: "server_env \<Rightarrow> (bytes \<Rightarrow> fingerprint) \<Rightarrow> accept_event \<Rightarrow> accepting \<Rightarrow> accepting option" where
  "accept_step env of_cert AcConnects a =
     (if ac_stopped a then None
      else if ac_secure a then Some (a\<lparr>ac_next := ac_next a + 1, ac_shaking := ac_next a # ac_shaking a\<rparr>)
      else Some (a\<lparr>ac_next := ac_next a + 1, ac_shaken := (ac_next a, None) # ac_shaken a\<rparr>))"
| "accept_step env of_cert AcAcceptFails a = (if ac_stopped a then None else Some a)"
| "accept_step env of_cert (AcTls n certs) a =
     (if n \<notin> set (ac_shaking a) then None
      else (let a = a\<lparr>ac_shaking := removeAll n (ac_shaking a)\<rparr>
            in Some (case certs of None \<Rightarrow> a | Some cs \<Rightarrow> a\<lparr>ac_shaken := (n, peer_fingerprint of_cert (Some cs)) # ac_shaken a\<rparr>)))"
| "accept_step env of_cert (AcHello n now addr fails hello) a =
     (case map_of (ac_shaken a) n of
        None \<Rightarrow> None
      | Some fp \<Rightarrow> Some (a\<lparr>ac_shaken := filter (\<lambda>(m, _). m \<noteq> n) (ac_shaken a), ac_server := sv_connect env (ac_server a) fp now addr fails hello\<rparr>))"
| "accept_step env of_cert (AcSession name fails inp) a =
     (if \<not> bm_has (sv_sessions (ac_server a)) name then None
      else Some (a\<lparr>ac_server := sv_session env (ac_server a) name fails inp\<rparr>))"
| "accept_step env of_cert (AcTrust op) a = Some (a\<lparr>ac_server := server_step env (ac_server a) (SvTrust op)\<rparr>)"
| "accept_step env of_cert (AcElsewhere op) a = Some (a\<lparr>ac_server := server_step env (ac_server a) (SvElsewhere op)\<rparr>)"
| "accept_step env of_cert AcStop a =
     Some (a\<lparr>ac_stopped := True, ac_shaking := [], ac_shaken := [], ac_server := (ac_server a)\<lparr>sv_sessions := []\<rparr>\<rparr>)"

fun accept_run :: "server_env \<Rightarrow> (bytes \<Rightarrow> fingerprint) \<Rightarrow> accepting \<Rightarrow> accept_event list \<Rightarrow> accepting option" where
  "accept_run env of_cert a [] = Some a"
| "accept_run env of_cert a (e # es) = (case accept_step env of_cert e a of None \<Rightarrow> None | Some a \<Rightarrow> accept_run env of_cert a es)"

text \<open>
  \<^verbatim>\<open>wait_for_shutdown\<close>: the values the channel takes while it is waited on, and whether its sender is still
  there after them. Waiting for ever is \<^const>\<open>False\<close>.
\<close>

fun shutdown_seen :: "bool \<Rightarrow> bool list \<Rightarrow> bool" where
  "shutdown_seen now [] \<longleftrightarrow> now"
| "shutdown_seen now (v # vs) \<longleftrightarrow> now \<or> shutdown_seen v vs"

lemma shutdown_seen_iff: "shutdown_seen now vs \<longleftrightarrow> now \<or> True \<in> set vs"
  by (induction vs arbitrary: now) auto

section \<open>A started router works\<close>

text \<open>Under X11 positions are 16 bits and sizes 16 bits without a sign, so any monitors it names can be used.\<close>

definition x11_sized :: "(x11_monitor list option \<times> int \<times> int) option \<Rightarrow> bool" where
  "x11_sized ans \<longleftrightarrow>
     (case ans of None \<Rightarrow> True
      | Some (randr, w, h) \<Rightarrow> 0 \<le> w \<and> w < 65536 \<and> 0 \<le> h \<and> h < 65536
          \<and> (case randr of None \<Rightarrow> True
             | Some ms \<Rightarrow> \<forall>m \<in> set ms. -32768 \<le> xm_x m \<and> xm_x m < 32768 \<and> -32768 \<le> xm_y m \<and> xm_y m < 32768
                 \<and> 0 \<le> xm_width m \<and> xm_width m < 65536 \<and> 0 \<le> xm_height m \<and> xm_height m < 65536))"

definition small_rect :: "rect \<Rightarrow> bool" where
  "small_rect r \<longleftrightarrow> -32768 \<le> r_x r \<and> r_x r < 32768 \<and> -32768 \<le> r_y r \<and> r_y r < 32768 \<and> r_w r < 65536 \<and> r_h r < 65536"

lemma x11_small:
  assumes "x11_sized ans" "x11_monitors ans = Inr rs" "r \<in> set rs"
  shows "small_rect r"
  using assms
  by (auto simp: x11_sized_def x11_monitors_def small_rect_def split: option.splits prod.splits list.splits)

lemma x11_mons_ok:
  assumes "x11_sized ans" "monitors (x11_monitors ans) = Inr ms"
  shows "mons_ok ms"
proof -
  obtain all where a: "x11_monitors ans = Inr all" "mset ms = mset (filter (\<lambda>r. r_w r > 0 \<and> r_h r > 0) all)"
    using monitors_announced(4) [OF assms(2)] by blast
  have "set ms = set (filter (\<lambda>r. r_w r > 0 \<and> r_h r > 0) all)" using a(2) by (rule mset_eq_setD)
  then have "small_rect r" if "r \<in> set ms" for r using x11_small [OF assms(1) a(1)] that by simp
  then have "rect_ok r" if "r \<in> set ms" for r
    using monitors_announced(2) [OF assms(2)] that by (fastforce simp: small_rect_def rect_ok_def is_i32_def)
  then show ?thesis using monitors_announced(1) [OF assms(2)] by (simp add: mons_ok_def)
qed

lemma with_sizes_inv:
  assumes "core_inv local c" "owned_by c q"
  shows "\<exists>k. with_sizes c sizes = Some k \<and> core_inv local (with_key_rules k rules) \<and> owned_by (with_key_rules k rules) q"
proof -
  have "bm_ok (c_positions (c\<lparr>c_sizes := sizes\<rparr>))" using assms(1) by (simp add: core_inv_def core_ok_def)
  then obtain og where "with_sizes c sizes = Some (c\<lparr>c_sizes := sizes, c_origins := og\<rparr>)"
    using refresh_origins_Some by (fastforce simp: with_sizes_def)
  then show ?thesis using assms by (auto simp: core_inv_def core_ok_def owned_by_def with_key_rules_def)
qed

text \<open>
  C4: Under X11, whatever configuration was loaded (its jump zone at most a million) and whatever monitors
  the display names or fails to name, a server that captures starts with a router that has the
  configuration's layout, sizes and key rules, which never panics whatever comes from the capture backend
  and the clients, and whose actions obey the ownership of the input from the first to the last. It uses
  the desktop's clipboard exactly when something is to be shared and it can be opened.
\<close>

theorem started_server_routes:
  assumes "config_parse al d = Inr cfg" "sp_jump_zone (cf_policy cfg) \<le> 1000000"
    and "x11_sized ans" "rect_ok b" "list_all (good_event (cf_local_screen cfg)) es"
  shows "\<exists>p c c' as q. run_server cfg True (Some b) (monitors (x11_monitors ans)) opens = Some (Inr p) \<and> pt_router p = Some c
    \<and> c_layout c = cf_layout cfg \<and> c_sizes c = cf_sizes cfg \<and> c_rules c = cf_key_rules cfg
    \<and> pt_hub p = load_disabled hub_new (cf_disabled cfg)
    \<and> (pt_relays p \<longleftrightarrow> shares_anything (cf_options cfg) \<and> opens) \<and> (pt_pulls p \<longleftrightarrow> pt_relays p)
    \<and> run_events core_step c es = Some (c', as) \<and> accepts owner_step (Idle, 0) as = Some q \<and> owned_by c' q"
proof -
  define ms where "ms = (case monitors (x11_monitors ans) of Inr ms \<Rightarrow> ms | Inl _ \<Rightarrow> [b])"
  have ms: "mons_ok ms"
    using x11_mons_ok [OF assms(3)] assms(4) by (auto simp: ms_def mons_ok_def split: sum.split)
  obtain c0 where c0: "core_new (cf_layout cfg) (cf_policy cfg) (cf_local_screen cfg) ms (cf_positions cfg) = Some c0"
    "core_inv (cf_local_screen cfg) c0" "owned_by c0 (Idle, 0)"
    using core_new_inv [OF ms config_typed(1) [OF assms(1)] assms(2)] by blast
  obtain k where k: "with_sizes c0 (cf_sizes cfg) = Some k" "core_inv (cf_local_screen cfg) (with_key_rules k (cf_key_rules cfg))"
    "owned_by (with_key_rules k (cf_key_rules cfg)) (Idle, 0)"
    using with_sizes_inv [OF c0(2,3)] by blast
  have f: "c_layout k = cf_layout cfg" "c_sizes k = cf_sizes cfg"
    using c0(1) k(1) by (auto simp: core_new_def with_sizes_def refresh_origins_def bind_eq_Some_conv)
  obtain c' as q where r: "run_events core_step (with_key_rules k (cf_key_rules cfg)) es = Some (c', as)"
    "accepts owner_step (Idle, 0) as = Some q" "owned_by c' q"
    using router.run_accepted_total [OF k(2) assms(5) k(3)] by blast
  have "\<exists>p. run_server cfg True (Some b) (monitors (x11_monitors ans)) opens = Some (Inr p)
    \<and> pt_router p = Some (with_key_rules k (cf_key_rules cfg)) \<and> pt_hub p = load_disabled hub_new (cf_disabled cfg)
    \<and> (pt_relays p \<longleftrightarrow> shares_anything (cf_options cfg) \<and> opens) \<and> (pt_pulls p \<longleftrightarrow> pt_relays p)"
    using c0(1) k(1) by (auto simp: run_server_def run_parts_def Let_def ms_def [symmetric] uses_clipboard_def)
  moreover have "c_layout (with_key_rules k (cf_key_rules cfg)) = cf_layout cfg" "c_sizes (with_key_rules k (cf_key_rules cfg)) = cf_sizes cfg"
    "c_rules (with_key_rules k (cf_key_rules cfg)) = cf_key_rules cfg" using f by (simp_all add: with_key_rules_def)
  ultimately show ?thesis using r by blast
qed

lemma started_server_routes_witness:
  "\<exists>p c c' as q. run_server sample_config True (Some (Rect 0 0 1920 1080))
      (monitors (x11_monitors (Some (Some [\<lparr>xm_x = 0, xm_y = 0, xm_width = 1920, xm_height = 1080\<rparr>], 1920, 1080)))) True = Some (Inr p)
    \<and> pt_router p = Some c \<and> run_events core_step c [Ev (Motion 10 0) 1] = Some (c', as) \<and> accepts owner_step (Idle, 0) as = Some q"
proof -
  have j: "sp_jump_zone (cf_policy sample_config) \<le> 1000000" by code_simp
  have x: "x11_sized (Some (Some [\<lparr>xm_x = 0, xm_y = 0, xm_width = 1920, xm_height = 1080\<rparr>], 1920, 1080))" by (simp add: x11_sized_def)
  have b: "rect_ok (Rect 0 0 1920 1080)" by (simp add: rect_ok_def is_i32_def)
  have e: "list_all (good_event (cf_local_screen sample_config)) [Ev (Motion 10 0) 1]" by simp
  show ?thesis using started_server_routes [OF sample_parse j x b e, of True] by blast
qed

section \<open>Who has a session\<close>

lemma accept_run_snoc [simp]:
  "accept_run env of_cert a (es @ [e]) = (case accept_run env of_cert a es of None \<Rightarrow> None | Some a \<Rightarrow> accept_step env of_cert e a)"
  by (induction es arbitrary: a) (auto split: option.split)

lemma admit_trusts:
  assumes "admit quote cfg fp now addr fails hello tls s = (tls', s', sent, Some st)"
  shows "trusts tls fp (se_name st)"
proof -
  let ?h = "handshake quote (known_layout cfg (fr_hub s)) (nc_options cfg) KEEPALIVE_INTERVAL (authorize fp now addr) (hub_contains (fr_hub s)) (tls \<noteq> None) fails hello tls"
  obtain screen v where a: "snd (snd ?h) = Inr (Accepted screen v)" "se_name st = si_name screen"
    using assms by (auto simp: admit_def Let_def session_new_def split: prod.splits sum.splits handshake_outcome.splits option.splits)
  have "snd (authorize fp now addr tls (si_name screen)) = None"
    using a(1) by (auto simp: handshake_def answer_def Let_def split: sum.splits client_msg.splits prod.splits option.splits if_splits)
  then show ?thesis using a(2) authorize_None by metis
qed

lemma admit_keeps_tls:
  assumes "admit quote cfg fp now addr fails hello tls s = (tls', s', sent, r)"
  shows "(tls' = None) = (tls = None)"
proof -
  have auth: "(fst (authorize fp now addr tls n) = None) = (tls = None)" for n
    by (auto simp: authorize_def split: option.split verdict.split)
  have "(fst (handshake quote la opts ka (authorize fp now addr) taken b fails hello tls) = None) = (tls = None)" for la opts ka taken b
  proof (cases hello)
    case (Inr m)
    show ?thesis
    proof (cases m)
      case (Hello v screen)
      obtain t reason where "authorize fp now addr tls (si_name screen) = (t, reason)" by fastforce
      then show ?thesis using auth [of "si_name screen"]
        by (cases "negotiate PROTOCOL_VERSION v"; cases reason) (auto simp: handshake_def Let_def Inr Hello)
    qed (simp_all add: handshake_def Inr)
  qed (simp add: handshake_def)
  note h = this
  show ?thesis
    using assms h [of "known_layout cfg (fr_hub s)" "nc_options cfg" KEEPALIVE_INTERVAL "hub_contains (fr_hub s)" "tls \<noteq> None"]
    by (auto simp: admit_def Let_def split: prod.splits sum.splits handshake_outcome.splits option.splits)
qed

text \<open>What lets somebody in: a connection whose own handshake proved a certificate trusted for that name just then.\<close>

definition let_in_by :: "server_env \<Rightarrow> (bytes \<Rightarrow> fingerprint) \<Rightarrow> accepting \<Rightarrow> accept_event list \<Rightarrow> string \<Rightarrow> bool" where
  "let_in_by env of_cert a0 es name \<longleftrightarrow>
     (\<exists>es1 k now addr fails hello es2 s1 t c cs. es = es1 @ AcHello k now addr fails hello # es2
        \<and> accept_run env of_cert a0 es1 = Some s1 \<and> sv_trust (ac_server s1) = Some t
        \<and> AcTls k (Some (c # cs)) \<in> set es1 \<and> bm_get (tr_trusted t) name = Some (of_cert c))"

lemma let_in_later: "let_in_by env of_cert a0 es name \<Longrightarrow> let_in_by env of_cert a0 (es @ [e]) name"
  unfolding let_in_by_def by (metis append_Cons append_assoc)

definition proved :: "(bytes \<Rightarrow> fingerprint) \<Rightarrow> accept_event list \<Rightarrow> nat \<Rightarrow> fingerprint option \<Rightarrow> bool" where
  "proved of_cert es n fp \<longleftrightarrow> (\<exists>cs. AcTls n (Some cs) \<in> set es \<and> fp = peer_fingerprint of_cert (Some cs))"

definition accept_ok :: "server_env \<Rightarrow> (bytes \<Rightarrow> fingerprint) \<Rightarrow> accepting \<Rightarrow> accept_event list \<Rightarrow> accepting \<Rightarrow> bool" where
  "accept_ok env of_cert a0 es a \<longleftrightarrow> ac_secure a \<and> sv_trust (ac_server a) \<noteq> None
     \<and> (\<forall>(n, fp) \<in> set (ac_shaken a). proved of_cert es n fp)
     \<and> (\<forall>name. bm_has (sv_sessions (ac_server a)) name \<longrightarrow> let_in_by env of_cert a0 es name)
     \<and> (ac_stopped a \<longrightarrow> ac_shaking a = [] \<and> ac_shaken a = [] \<and> sv_sessions (ac_server a) = [])"

lemma proved_later: "proved of_cert es n fp \<Longrightarrow> proved of_cert (es @ [e]) n fp"
  by (auto simp: proved_def)

lemma sv_session_shrinks:
  "sv_trust (sv_session env sv name fails inp) = sv_trust sv"
  "bm_has (sv_sessions (sv_session env sv name fails inp)) n \<Longrightarrow> bm_has (sv_sessions sv) n"
  by (auto simp: sv_session_def bm_has_iff split: option.splits prod.splits if_splits)

lemma hello_ok:
  assumes "accept_ok env of_cert a0 es a" "accept_run env of_cert a0 es = Some a" "map_of (ac_shaken a) k = Some fp"
    and "sv' = sv_connect env (ac_server a) fp now addr fails hello"
  shows "sv_trust sv' \<noteq> None"
    "bm_has (sv_sessions sv') name \<Longrightarrow> let_in_by env of_cert a0 (es @ [AcHello k now addr fails hello]) name"
proof -
  let ?sv = "ac_server a"
  obtain tls s sent st where ad: "admit (sve_quote env) (sve_config env) fp now addr fails hello (sv_trust ?sv) (sv_router ?sv) = (tls, s, sent, st)"
    by (metis prod_cases4)
  have sv': "sv_trust sv' = tls" "sv_sessions sv' = (case st of None \<Rightarrow> sv_sessions ?sv | Some st \<Rightarrow> bm_insert (se_name st) st (sv_sessions ?sv))"
    using assms(4) by (simp_all add: sv_connect_def ad)
  obtain t where t: "sv_trust ?sv = Some t" using assms(1) by (auto simp: accept_ok_def)
  show "sv_trust sv' \<noteq> None" using admit_keeps_tls [OF ad] sv'(1) t by simp
  assume n: "bm_has (sv_sessions sv') name"
  show "let_in_by env of_cert a0 (es @ [AcHello k now addr fails hello]) name"
  proof (cases "bm_has (sv_sessions ?sv) name")
    case True
    then have "let_in_by env of_cert a0 es name" using assms(1) unfolding accept_ok_def by blast
    then show ?thesis by (rule let_in_later)
  next
    case False
    then obtain st' where st: "st = Some st'" "se_name st' = name"
      using n sv'(2) by (auto simp: bm_has_iff split: option.splits if_splits)
    have "trusts (sv_trust ?sv) fp name" using admit_trusts [of _ _ fp] ad st by blast
    then obtain f where f: "fp = Some f" "bm_get (tr_trusted t) name = Some f" using t by (auto simp: trusts_def split: option.splits)
    have "(k, fp) \<in> set (ac_shaken a)" using assms(3) by (rule map_of_SomeD)
    then have "proved of_cert es k fp" using assms(1) unfolding accept_ok_def by blast
    then obtain cs0 where cs0: "AcTls k (Some cs0) \<in> set es" "peer_fingerprint of_cert (Some cs0) = Some f"
      using f(1) by (auto simp: proved_def)
    then obtain c cs where "AcTls k (Some (c # cs)) \<in> set es" "f = of_cert c"
      by (cases cs0) (auto simp: peer_fingerprint_def)
    then show ?thesis unfolding let_in_by_def using assms(2) t f(2) by blast
  qed
qed

lemma accept_ok_later:
  assumes "accept_ok env of_cert a0 es a" "ac_secure a' = ac_secure a" "sv_trust (ac_server a') \<noteq> None"
    and "\<And>n fp. (n, fp) \<in> set (ac_shaken a') \<Longrightarrow> (n, fp) \<in> set (ac_shaken a) \<or> proved of_cert (es @ [e]) n fp"
    and "\<And>name. bm_has (sv_sessions (ac_server a')) name \<Longrightarrow> bm_has (sv_sessions (ac_server a)) name \<or> let_in_by env of_cert a0 (es @ [e]) name"
    and "ac_stopped a' \<Longrightarrow> ac_shaking a' = [] \<and> ac_shaken a' = [] \<and> sv_sessions (ac_server a') = []"
  shows "accept_ok env of_cert a0 (es @ [e]) a'"
proof -
  have "proved of_cert (es @ [e]) n fp" if "(n, fp) \<in> set (ac_shaken a')" for n fp
    using assms(4) [OF that] assms(1) proved_later unfolding accept_ok_def by blast
  moreover have "let_in_by env of_cert a0 (es @ [e]) name" if "bm_has (sv_sessions (ac_server a')) name" for name
    using assms(5) [OF that] assms(1) let_in_later unfolding accept_ok_def by blast
  ultimately show ?thesis using assms(1-3,6) unfolding accept_ok_def by auto
qed

lemma accept_ok_step:
  assumes ok: "accept_ok env of_cert a0 es a" and run: "accept_run env of_cert a0 es = Some a"
    and step: "accept_step env of_cert e a = Some a'"
  shows "accept_ok env of_cert a0 (es @ [e]) a'"
proof -
  have tls: "ac_secure a" "sv_trust (ac_server a) \<noteq> None"
    and stop: "ac_stopped a \<Longrightarrow> ac_shaking a = [] \<and> ac_shaken a = [] \<and> sv_sessions (ac_server a) = []"
    using ok unfolding accept_ok_def by blast+
  show ?thesis
  proof (cases e)
    case AcConnects
    then show ?thesis using step tls by (intro accept_ok_later [OF ok]) (auto split: if_splits)
  next
    case AcAcceptFails
    then show ?thesis using step tls stop by (intro accept_ok_later [OF ok]) (auto split: if_splits)
  next
    case (AcTls n certs)
    then show ?thesis using step tls stop
      by (intro accept_ok_later [OF ok]) (auto simp: Let_def proved_def split: if_splits option.splits)
  next
    case (AcHello k now addr fails hello)
    then obtain fp where k: "map_of (ac_shaken a) k = Some fp"
      and a': "a' = a\<lparr>ac_shaken := filter (\<lambda>(m, _). m \<noteq> k) (ac_shaken a), ac_server := sv_connect env (ac_server a) fp now addr fails hello\<rparr>"
      using step by (auto split: option.splits)
    have "\<not> ac_stopped a" using stop k by fastforce
    then show ?thesis using hello_ok [OF ok run k refl, of now addr fails hello] tls unfolding AcHello
      by (intro accept_ok_later [OF ok]) (auto simp: a')
  next
    case (AcSession name fails inp)
    then have a': "a' = a\<lparr>ac_server := sv_session env (ac_server a) name fails inp\<rparr>" "bm_has (sv_sessions (ac_server a)) name"
      using step by (auto split: if_splits)
    then have "\<not> ac_stopped a" using stop by auto
    then show ?thesis using tls sv_session_shrinks
      by (intro accept_ok_later [OF ok]) (auto simp: a'(1))
  next
    case (AcTrust op)
    then show ?thesis using step tls stop by (intro accept_ok_later [OF ok]) auto
  next
    case (AcElsewhere op)
    then show ?thesis using step tls stop by (intro accept_ok_later [OF ok]) auto
  next
    case AcStop
    then show ?thesis using step tls by (intro accept_ok_later [OF ok]) (auto simp: bm_has_iff)
  qed
qed

lemma accept_ok_run:
  "accept_ok env of_cert a0 [] a0 \<Longrightarrow> accept_run env of_cert a0 es = Some a \<Longrightarrow> accept_ok env of_cert a0 es a"
proof (induction es arbitrary: a rule: rev_induct)
  case (snoc e es)
  obtain b where b: "accept_run env of_cert a0 es = Some b" "accept_step env of_cert e b = Some a"
    using snoc.prems(2) by (auto split: option.splits)
  show ?case by (rule accept_ok_step [OF snoc.IH [OF snoc.prems(1) b(1)] b])
qed simp

text \<open>
  C26: With TLS, whoever connects, in whatever order handshakes, greetings, sessions and the person's
  decisions come: a session under a name exists only because some connection proved, in its own
  handshake, to hold the certificate that was trusted for that very name at the moment it said Hello;
  and once the server was told to stop, no session and no half-open connection is left.
\<close>

theorem sessions_are_trusted:
  assumes "serve_with_hub default_dir load binds ready d cfg p = Inr u" "cf_tls cfg"
    and "accept_run env of_cert (accept_new u) es = Some a"
  shows "(\<forall>name. bm_has (sv_sessions (ac_server a)) name \<longrightarrow>
      (\<exists>es1 k now addr fails hello es2 s1 t c cs. es = es1 @ AcHello k now addr fails hello # es2
        \<and> accept_run env of_cert (accept_new u) es1 = Some s1 \<and> sv_trust (ac_server s1) = Some t
        \<and> AcTls k (Some (c # cs)) \<in> set es1 \<and> bm_get (tr_trusted t) name = Some (of_cert c)))
    \<and> (ac_stopped a \<longrightarrow> sv_sessions (ac_server a) = [] \<and> ac_shaking a = [] \<and> ac_shaken a = [])"
proof -
  have "accept_ok env of_cert (accept_new u) [] (accept_new u)"
    using assms(1,2)
    by (auto simp: accept_ok_def accept_new_def serve_with_hub_def tls_for_def server_new_def bm_has_iff split: sum.splits if_splits)
  from accept_ok_run [OF this assms(3)] show ?thesis unfolding accept_ok_def let_in_by_def by blast
qed

definition quiet_parts :: server_parts where
  "quiet_parts = \<lparr>pt_router = None, pt_hub = load_disabled hub_new {}, pt_local = [Rect 0 0 1920 1080], pt_pulls = False, pt_relays = False\<rparr>"

definition tls_up :: server_up where
  "tls_up = \<lparr>up_tls = Some \<lparr>tc_fingerprint = win_print, tc_trust = tr_new [(''win'', win_print)]\<rparr>, up_desk = None,
     up_server = server_new desk_trust desk_router\<rparr>"

definition greeting :: "accept_event list" where
  "greeting = [AcConnects, AcTls 0 (Some [win_print]), AcHello 0 0 ''10.0.0.2'' (\<lambda>_. None) (Inr (Hello PROTOCOL_VERSION win_screen))]"

lemma sessions_are_trusted_witness:
  "\<exists>a es1 s1 t. accept_run desk_env id (accept_new tls_up) greeting = Some a \<and> bm_has (sv_sessions (ac_server a)) ''win''
    \<and> accept_run desk_env id (accept_new tls_up) es1 = Some s1 \<and> sv_trust (ac_server s1) = Some t \<and> bm_has (tr_trusted t) ''win''"
proof -
  let ?cfg = "sample_config\<lparr>cf_tls := True, cf_identity_dir := Some ''id'', cf_trusted := [(''win'', win_print)]\<rparr>"
  have u: "serve_with_hub None (\<lambda>_. Inr win_print) True False sample_doc ?cfg quiet_parts = Inr tls_up"
    by (simp add: serve_with_hub_def tls_for_def tls_load_def tls_up_def quiet_parts_def desk_trust_def desk_router_def)
  have t: "cf_tls ?cfg" by simp
  have "case accept_run desk_env id (accept_new tls_up) greeting of None \<Rightarrow> False | Some a \<Rightarrow> bm_has (sv_sessions (ac_server a)) ''win''"
    by code_simp
  then obtain a where a: "accept_run desk_env id (accept_new tls_up) greeting = Some a" "bm_has (sv_sessions (ac_server a)) ''win''"
    by (auto split: option.splits)
  show ?thesis using sessions_are_trusted [OF u t a(1)] a unfolding bm_has_iff by blast
qed

end
