(* ===== verification/Spec2Isabelle.thy ===== *)
theory Spec2Isabelle
  imports GD_Prelude Geometry Text Wire Key_Rules Framing Chunks Layout Desk Router Router_Spec Hub Trust
    Stage File_Owner Pull Copy_Paste File_Router File_Router_Spec Remote Proto_Spec Desk_Spec Hub_Spec Files_Spec
    Clip_Share Sync Relay Clip_Spec Inject Server_Net Server_Run Client Connect Net_Spec Client_Spec
    Config Config_File Config_Screens Admin Admin_Layout Admin_Run Admin_Spec
    Keymap Capture Capture_Win Capture_Win_Run Capture_X11 Capture_Motion Capture_Spec
    Key_Setup Key_Setup_Spec Known Known_Spec App_Settings App_Session App_Spec Transfers Received Received_Spec
    Control Control_Spec Control_Remote
    Pull_Task Desktop_Clipboard Machine Command_Line Desktop_App Endpoint Controllers Server_Start
begin

text \<open>
  GeserDesk shares one keyboard and mouse between machines. A server, the machine the keyboard and
  the mouse belong to, captures their input; when the pointer leaves one of its edges, the input goes
  over a TLS connection to the client that stands there and is injected on it. Copies of text, pictures
  and files go both ways. A daemon runs a server or a client for a person, and a desktop app or a
  command line controls the daemon over a local socket. This development translates the Rust sources
  of that program and proves what its parts, and several of them together, promise.

  How to read it. Every operation of the code is a function of the state it is called on; what it
  returns and what it sends are part of its result. Errors are sums or options, a panic of the router is
  \<^const>\<open>None\<close>. Integers keep their width where it matters: coordinates go through \<^verbatim>\<open>i32\<close>, codes and
  versions are machine words or naturals below their bound. What
  the operating system, a library or another machine answers is an argument, so every theorem holds for
  every answer, unless a hypothesis says what the documentation of that library promises.

  \<^bold>\<open>The parts, and where they are.\<close> Paths are below \<^verbatim>\<open>src/\<close>; \<^verbatim>\<open>proto\<close>, \<^verbatim>\<open>server\<close>, ... stand for
  \<^verbatim>\<open>crates/geserdesk-proto\<close>, \<^verbatim>\<open>crates/geserdesk-server\<close> and so on.

  \<^item> Shared vocabulary. \<^verbatim>\<open>GD_Prelude\<close>: integer types, ordered maps, iterator adapters, the interfaces
    \<^verbatim>\<open>machine\<close> and \<^verbatim>\<open>monitored_machine\<close> of an event-driven component. \<^verbatim>\<open>Text\<close>: strings as bytes, UTF-8,
    \<^verbatim>\<open>trim\<close>, \<^verbatim>\<open>split\<close>. \<^verbatim>\<open>Geometry\<close> (\<^verbatim>\<open>proto/geometry.rs\<close>), \<^verbatim>\<open>Wire\<close> (\<^verbatim>\<open>version.rs\<close>, \<^verbatim>\<open>input.rs\<close>, \<^verbatim>\<open>message.rs\<close>),
    \<^verbatim>\<open>Chunks\<close> (\<^verbatim>\<open>clipboard.rs\<close>), \<^verbatim>\<open>Key_Rules\<close> (\<^verbatim>\<open>keys.rs\<close>, \<^verbatim>\<open>consumer.rs\<close>), \<^verbatim>\<open>Framing\<close> (\<^verbatim>\<open>codec.rs\<close>).
    \<^verbatim>\<open>Proto_Spec\<close> holds their properties.

  \<^item> Where the input goes. \<^verbatim>\<open>Layout\<close> (\<^verbatim>\<open>server/layout.rs\<close>): the screens, their edges, when a cursor at an
    edge switches. \<^verbatim>\<open>Desk\<close> (\<^verbatim>\<open>desk.rs\<close>): the common plane all machines stand on, with the rounding of
    \<^verbatim>\<open>f64\<close>. \<^verbatim>\<open>Router\<close> (\<^verbatim>\<open>router.rs\<close>): the state machine \<^verbatim>\<open>Core\<close>, whose state is the record \<^verbatim>\<open>core\<close> and whose
    step is \<^verbatim>\<open>core_step\<close>, one constructor of \<^verbatim>\<open>action\<close> for every call of its shell. \<^verbatim>\<open>Hub\<close> (\<^verbatim>\<open>hub.rs\<close>): the
    connected clients and their queues. \<^verbatim>\<open>Router_Spec\<close>, \<^verbatim>\<open>Desk_Spec\<close> and \<^verbatim>\<open>Hub_Spec\<close> hold the properties:
    a specification automaton \<^verbatim>\<open>owner_step\<close> of who has the input, which the router refines, and the
    router and the hub together.

  \<^item> Capturing and injecting. \<^verbatim>\<open>Capture\<close> is what the server expects of a backend (\<^verbatim>\<open>platform/lib.rs\<close>);
    \<^verbatim>\<open>Capture_Win\<close> and \<^verbatim>\<open>Capture_Win_Run\<close> (\<^verbatim>\<open>windows.rs\<close>) and \<^verbatim>\<open>Capture_X11\<close> and \<^verbatim>\<open>Capture_Motion\<close> (\<^verbatim>\<open>x11.rs\<close>)
    are the two backends, \<^verbatim>\<open>Keymap\<close> (\<^verbatim>\<open>keymap.rs\<close>) the identity of keys, \<^verbatim>\<open>Machine\<close> the monitors
    (\<^verbatim>\<open>monitors.rs\<close>) and the identity (\<^verbatim>\<open>tls/identity.rs\<close>). \<^verbatim>\<open>Inject\<close> (\<^verbatim>\<open>client/inject.rs\<close>) is the other end
    of the wire. Properties in \<^verbatim>\<open>Capture_Spec\<close> and \<^verbatim>\<open>Client_Spec\<close>.

  \<^item> Connections. \<^verbatim>\<open>Trust\<close> (\<^verbatim>\<open>tls/fingerprint.rs\<close>, \<^verbatim>\<open>tls/verify.rs\<close>, \<^verbatim>\<open>server/trust.rs\<close>, \<^verbatim>\<open>app/trust.rs\<close>):
    who is trusted, and who asks to be. \<^verbatim>\<open>Server_Net\<close> (\<^verbatim>\<open>server/net.rs\<close>): the handshake and one session;
    \<^verbatim>\<open>Server_Run\<close>: all sessions of a server in any order; \<^verbatim>\<open>Server_Start\<close>: a server from its configuration
    to its end, with its accept loop. \<^verbatim>\<open>Connect\<close> and \<^verbatim>\<open>Client\<close> (\<^verbatim>\<open>client/net.rs\<close>, \<^verbatim>\<open>client/files.rs\<close>): the
    connecting side and its session. \<^verbatim>\<open>Known\<close> (\<^verbatim>\<open>client/trust_store.rs\<close>, \<^verbatim>\<open>apps/cli/src/trust.rs\<close>): the
    servers a client knows, as a file. Properties in \<^verbatim>\<open>Net_Spec\<close>, \<^verbatim>\<open>Known_Spec\<close> and \<^verbatim>\<open>Server_Start\<close>.

  \<^item> Clipboard and files. \<^verbatim>\<open>Sync\<close>, \<^verbatim>\<open>Clip_Share\<close> (\<^verbatim>\<open>clipboard/sync.rs\<close>, \<^verbatim>\<open>lib.rs\<close>, \<^verbatim>\<open>inbound.rs\<close>) and
    \<^verbatim>\<open>Desktop_Clipboard\<close> (\<^verbatim>\<open>system.rs\<close>, \<^verbatim>\<open>picture.rs\<close>, \<^verbatim>\<open>watch.rs\<close>): one machine's clipboard; \<^verbatim>\<open>Relay\<close>
    (\<^verbatim>\<open>server/clipboard.rs\<close>): the task that passes copies on. \<^verbatim>\<open>Stage\<close> (\<^verbatim>\<open>stage.rs\<close>), \<^verbatim>\<open>File_Owner\<close>
    (\<^verbatim>\<open>files.rs\<close>), \<^verbatim>\<open>Pull\<close> (\<^verbatim>\<open>pull.rs\<close>), \<^verbatim>\<open>Pull_Task\<close> (\<^verbatim>\<open>spawn_pull\<close>, \<^verbatim>\<open>spawn_local_pull\<close>) and \<^verbatim>\<open>Transfers\<close>
    (\<^verbatim>\<open>history.rs\<close>, \<^verbatim>\<open>app/transfer.rs\<close>, \<^verbatim>\<open>app/log.rs\<close>): files, announced as a manifest and read in chunks by
    whoever pastes them. \<^verbatim>\<open>File_Router\<close> (\<^verbatim>\<open>server/files.rs\<close>) passes reads and answers on. \<^verbatim>\<open>Copy_Paste\<close> and
    \<^verbatim>\<open>Remote\<close> put them together. Properties in \<^verbatim>\<open>Clip_Spec\<close>, \<^verbatim>\<open>Files_Spec\<close>, \<^verbatim>\<open>File_Router_Spec\<close>, \<^verbatim>\<open>Remote\<close>
    and \<^verbatim>\<open>Pull_Task\<close>.

  \<^item> Configuration. \<^verbatim>\<open>Config\<close> and \<^verbatim>\<open>Config_File\<close> (\<^verbatim>\<open>server/config.rs\<close> and the edits of \<^verbatim>\<open>server/admin.rs\<close>),
    \<^verbatim>\<open>Config_Screens\<close>, \<^verbatim>\<open>Admin\<close>, \<^verbatim>\<open>Admin_Layout\<close>, \<^verbatim>\<open>Admin_Run\<close> (\<^verbatim>\<open>admin.rs\<close>): the file of a server and the desk
    a front end edits while it runs. \<^verbatim>\<open>Key_Setup\<close> (\<^verbatim>\<open>app/keys.rs\<close>): a machine's own key rules. Properties in
    \<^verbatim>\<open>Admin_Spec\<close> and \<^verbatim>\<open>Key_Setup_Spec\<close>.

  \<^item> The app. \<^verbatim>\<open>App_Settings\<close> (\<^verbatim>\<open>app/settings.rs\<close>), \<^verbatim>\<open>App_Session\<close> (\<^verbatim>\<open>app/session.rs\<close>): the one client or
    server a daemon runs; \<^verbatim>\<open>Received\<close> (\<^verbatim>\<open>app/received.rs\<close>): the copies on its disk; \<^verbatim>\<open>Control\<close>
    (\<^verbatim>\<open>app/control/wire.rs\<close>, \<^verbatim>\<open>service.rs\<close>) and \<^verbatim>\<open>Control_Remote\<close>
    (\<^verbatim>\<open>remote.rs\<close>, \<^verbatim>\<open>daemon.rs\<close>): the channel between a daemon and its controllers; \<^verbatim>\<open>Endpoint\<close>
    (\<^verbatim>\<open>transport.rs\<close>): the socket and the token by which they find it; \<^verbatim>\<open>Desktop_App\<close> and
    \<^verbatim>\<open>Command_Line\<close> (\<^verbatim>\<open>apps/desktop/src-tauri/src\<close>, \<^verbatim>\<open>apps/cli/src\<close>): two controllers;
    \<^verbatim>\<open>Controllers\<close>: what those and the tray ask of a daemon, and the daemon as a process. Properties in
    \<^verbatim>\<open>App_Spec\<close>, \<^verbatim>\<open>Received_Spec\<close>, \<^verbatim>\<open>Control_Spec\<close> and \<^verbatim>\<open>Control_Remote\<close>; what the last two
    theories show is stated as lemmas there: daemons that do not start at the same moment do not get in
    each other's way, every call gets the kind of reply it takes, a daemon nobody uses ends.

  \<^bold>\<open>How they interact.\<close> A capture backend sends events to the router; the router answers with
  commands to the backend and messages for a client, which the hub queues for that client's session
  (\<^verbatim>\<open>Server_Net\<close>), which frames them (\<^verbatim>\<open>Framing\<close>) onto its connection. The client session (\<^verbatim>\<open>Client\<close>)
  hands input to its sink (\<^verbatim>\<open>Inject\<close>). A failed send comes back to the router as a lost client. The same
  sessions bring clipboard pushes to the relay (\<^verbatim>\<open>Relay\<close>) and file reads to the file router
  (\<^verbatim>\<open>File_Router\<close>); the relay announces copies, and a read of announced files travels from the puller
  through the file router to the owner and back. \<^verbatim>\<open>DeskState\<close> (\<^verbatim>\<open>Admin\<close>) writes the server's file and
  sends the router the events that make the running desk the same. The daemon (\<^verbatim>\<open>App_Session\<close>) starts and
  stops either side, and the control channel tells it to.

  \<^bold>\<open>What is shown.\<close>

  \<^item> The input: at most one screen has it, and what each is sent follows a small automaton; the pointer
    stays on a monitor of the machine that owns it and crosses an edge without a jump; the pump that feeds
    failures back always ends; a key a rule covers goes down and up in pairs; only a screen that is
    connected and turned on ever gets input. A server that was started routes what its backend reports.
  \<^item> The backends: nothing is taken from the local desktop until the server asks; every motion of
    the X11 pointer is accounted for while it keeps off the middle of the screen; a press of a named key or a button the desktop sees has its release seen too; the hotkey is reported once; keys
    are reported down, repeated and up in turn.
  \<^item> Connections: who is let in, exactly; both ends agree on the version; every connected client has one
    session; nothing is held between two connections; sessions belong to trusted certificates; a server
    trusted on first use is the one trusted later, unless a person decides again.
  \<^item> Files: names that reach the disk are safe, a pull stays inside its folder where no link leads out
    of it, and a failed one leaves nothing; a copied folder arrives byte for byte, directly, through the server, and pasted by the task
    that does it; each read is answered once, with bytes that its owner sent; cleaning removes only old
    copies.
  \<^item> Clipboard: a copy arrives whole or not at all; assembling chunks accepts a grammar and is bounded;
    what is framed is what is received, however the stream is cut.
  \<^item> Settings: what a front end changed is in the file and on the running desk; what is written is read
    back; a layout that is accepted gives no point of the desk to two machines.
  \<^item> The daemon: one thing runs at a time and whoever waits is told the end; only a controller with the
    token is served, and one of another version can do nothing but look at the daemon and end it; nobody waits for a
    daemon that is gone.

  \<^bold>\<open>Interfaces.\<close> \<^verbatim>\<open>map_contract\<close>, \<^verbatim>\<open>machine\<close> and \<^verbatim>\<open>monitored_machine\<close> (\<^verbatim>\<open>GD_Prelude\<close>; the ordered map and
  the router), \<^verbatim>\<open>message_sink\<close> (the hub), \<^verbatim>\<open>chunk_source\<close> (what a pull may read from: the owner itself, the
  server passing reads on, another client), \<^verbatim>\<open>stable_clipboard\<close> (the clipboard in memory),
  \<^verbatim>\<open>releasing_sink\<close> (the two sinks of a client), \<^verbatim>\<open>server_store\<close> (the table and the file of known servers),
  \<^verbatim>\<open>capture_backend\<close> and \<^verbatim>\<open>capture_keys\<close> (both backends), \<^verbatim>\<open>first_line_decides\<close> (a connection to the
  daemon before and after its first line) are locales; each is interpreted on the model of
  the code that provides it.

  \<^bold>\<open>Bounds and fuel.\<close> Loops are structural recursions or have a measure. A stream is the list of what
  its reads answer and a queue is the list of what is in it, so a loop over one ends with it, which is
  the code still waiting. Only receiving all messages of a stream takes fuel (\<^verbatim>\<open>recv_all\<close>), one call
  for each message and one for the end of the stream: \<^verbatim>\<open>framed_messages_arrive\<close> shows that this is
  enough. Coordinates of monitors are \<^verbatim>\<open>i32\<close> values whose sums stay in range (\<^verbatim>\<open>rect_ok\<close>).
  Properties of a running router assume a jump zone of at most 1,000,000 pixels, far more than a monitor
  has; the configuration file could hold more.

  \<^bold>\<open>Not modelled.\<close> Calls with no logic of their own: X11, Win32, Tauri, clap and tracing, sockets,
  spawning processes, the windows, menus and labels of the desktop app. Code that is
  not here and enters as a parameter: rustls (its signature checks, building its configurations),
  generating certificates, reading PEM, SHA-256, postcard, TOML and JSON text (a file or a line is what
  it parses to), the picture codec, the clipboard library, Unicode case tables. Left out of modelled
  parts: how \<^verbatim>\<open>gui.toml\<close> is stored (derived code of serde), the fingerprint shown of one's own identity,
  the size shown of a received folder, the blank cursor of X11,
  the named pipe of Windows and the modes of files. Time is in milliseconds and monotonic, as the code's clock is. Threads and
  tasks that share a lock are steps in any order; an operation that takes several locks one after the
  other (registering, turning off and removing a client in \<^verbatim>\<open>hub.rs\<close>, routing a read in \<^verbatim>\<open>files.rs\<close>, the end
  of a session in \<^verbatim>\<open>net.rs\<close>) is one step. The disk is keyed by real paths and has symbolic links
  (\<^verbatim>\<open>File_Owner\<close>): creating and writing follow them, at most 40. The X server is a parameter that says which
  movements of the pointer it notifies.
\<close>

end
